(* ===== verification/Prelude.thy ===== *)
theory Prelude
  imports Main "HOL-Library.Word" "HOL-Library.List_Lexorder" "HOL-Library.Char_ord"
    "HOL-Library.Multiset"
begin

text \<open>
  Shared vocabulary of the development: machine integers and byte strings, the fixed-width
  little- and big-endian codecs of the Rust standard library (\<open>to_le_bytes\<close>,
  \<open>to_be_bytes\<close>), the slice and vector operations the crates use (\<open>dedup\<close>,
  \<open>partition_point\<close>, \<open>sort_by\<close>), ordered maps, results, and the lemmas on them that every
  component relies on.
\<close>

section \<open>Types\<close>

type_synonym u8 = "8 word"
type_synonym u16 = "16 word"
type_synonym u32 = "32 word"
type_synonym u64 = "64 word"

text \<open>An \<open>f32\<close> is carried as its bit pattern; no model below computes with it.\<close>
type_synonym f32 = "32 word"

type_synonym bytes = "u8 list"

text \<open>Epoch milliseconds, an \<open>i64\<close> in the code.\<close>
type_synonym millis = int

text \<open>The collections the component proofs draw on.\<close>
named_theorems codec_simps \<open>unfolding and round-trip rules of byte codecs\<close>
named_theorems io_simps \<open>evaluation rules of storage programs\<close>

section \<open>Fixed-width integer codecs\<close>

fun to_le :: "nat \<Rightarrow> nat \<Rightarrow> bytes" where
  "to_le 0 v = []"
| "to_le (Suc k) v = of_nat (v mod 256) # to_le k (v div 256)"

fun from_le :: "bytes \<Rightarrow> nat" where
  "from_le [] = 0"
| "from_le (b # bs) = unat b + 256 * from_le bs"

definition to_be :: "nat \<Rightarrow> nat \<Rightarrow> bytes" where
  "to_be k v = rev (to_le k v)"

definition from_be :: "bytes \<Rightarrow> nat" where
  "from_be bs = from_le (rev bs)"

definition le_word :: "nat \<Rightarrow> 'a::len word \<Rightarrow> bytes" where
  "le_word k w = to_le k (unat w)"

definition word_le :: "bytes \<Rightarrow> 'a::len word" where
  "word_le bs = of_nat (from_le bs)"

lemma unat_lt: "unat (w::'a::len word) < 2 ^ LENGTH('a)"
  by (rule unsigned_less)

lemma length_to_le [simp]: "length (to_le k v) = k"
  by (induction k v rule: to_le.induct) auto

lemma length_to_be [simp]: "length (to_be k v) = k"
  by (simp add: to_be_def)

lemma unat_of_nat_byte [simp]: "unat (of_nat (v mod 256) :: u8) = v mod 256"
  by (simp add: unat_of_nat)

lemma from_le_to_le: "from_le (to_le k v) = v mod 256 ^ k"
proof (induction k v rule: to_le.induct)
  case (2 k v)
  have "v mod 256 + 256 * (v div 256 mod 256 ^ k) = v mod (256 * 256 ^ k)"
    by (simp add: mod_mult2_eq)
  then show ?case using 2 by (simp add: take_bit_eq_mod)
qed simp

lemma from_le_to_le_id [codec_simps]: "v < 256 ^ k \<Longrightarrow> from_le (to_le k v) = v"
  by (simp add: from_le_to_le)

lemma from_be_to_be [codec_simps]: "v < 256 ^ k \<Longrightarrow> from_be (to_be k v) = v"
  by (simp add: from_be_def to_be_def from_le_to_le)

lemma from_le_bound: "from_le bs < 256 ^ length bs"
proof (induction bs)
  case (Cons b bs)
  have "unat b < 256" using unat_lt[of b] by simp
  with Cons show ?case by simp
qed simp

lemma to_le_from_le: "to_le (length bs) (from_le bs) = bs"
proof (induction bs)
  case (Cons b bs)
  have "unat b < 256" using unat_lt[of b] by simp
  with Cons show ?case by simp
qed simp

lemma to_be_from_be [codec_simps]: "length bs = k \<Longrightarrow> to_be k (from_be bs) = bs"
  using to_le_from_le[of "rev bs"] by (simp add: to_be_def from_be_def)

lemma length_le_word [simp]: "length (le_word k w) = k"
  by (simp add: le_word_def)

lemma word_le_le_word16 [codec_simps, simp]: "word_le (le_word 2 (w::u16)) = w"
  using unat_lt[of w] by (simp add: word_le_def le_word_def from_le_to_le)

lemma word_le_le_word32 [codec_simps, simp]: "word_le (le_word 4 (w::u32)) = w"
  using unat_lt[of w] by (simp add: word_le_def le_word_def from_le_to_le)

lemma word_le_le_word64 [codec_simps, simp]: "word_le (le_word 8 (w::u64)) = w"
  using unat_lt[of w] by (simp add: word_le_def le_word_def from_le_to_le)

text \<open>Big-endian encodings of one width compare as byte strings the way the numbers compare.\<close>

lemma to_be_Suc: "to_be (Suc k) v = of_nat (v div 256 ^ k mod 256) # to_be k (v mod 256 ^ k)"
proof (induction k arbitrary: v)
  case 0 then show ?case by (simp add: to_be_def)
next
  case (Suc k)
  have "to_be (Suc (Suc k)) v = to_be (Suc k) (v div 256) @ [of_nat (v mod 256)]"
    by (simp add: to_be_def)
  also have "\<dots> = of_nat (v div 256 div 256 ^ k mod 256)
      # to_be k (v div 256 mod 256 ^ k) @ [of_nat (v mod 256)]"
    by (simp add: Suc)
  also have "to_be k (v div 256 mod 256 ^ k) @ [of_nat (v mod 256)]
      = to_be (Suc k) (v mod 256 ^ Suc k)"
    by (simp add: to_be_def mod_mult2_eq)
  finally show ?case by (simp add: div_mult2_eq)
qed

lemma list_less_Cons_same [simp]: "(a # xs < a # ys) = (xs < (ys :: 'a::linorder list))"
  by (simp add: Cons_less_Cons)

lemma of_nat_byte_less: "x < 256 \<Longrightarrow> y < 256 \<Longrightarrow> ((of_nat x :: u8) < of_nat y) = (x < y)"
  by (simp add: word_less_nat_alt unat_of_nat)

lemma of_nat_byte_eq: "x < 256 \<Longrightarrow> y < 256 \<Longrightarrow> ((of_nat x :: u8) = of_nat y) = (x = y)"
  by (metis of_nat_byte_less less_irrefl nat_neq_iff)

lemma nat_less_div_mod:
  fixes m :: nat
  assumes "0 < m"
  shows "(a < b) = (a div m < b div m \<or> a div m = b div m \<and> a mod m < b mod m)"
proof (cases "a div m = b div m")
  case True
  then show ?thesis
    by (metis div_mult_mod_eq nat_add_left_cancel_less less_irrefl)
next
  case False
  then show ?thesis
    by (metis div_le_mono leD leI le_neq_implies_less less_imp_le_nat)
qed

lemma to_be_less_iff:
  "a < 256 ^ k \<Longrightarrow> b < 256 ^ k \<Longrightarrow> (to_be k a < to_be k b) = (a < b)"
proof (induction k arbitrary: a b)
  case 0 then show ?case by (simp add: to_be_def)
next
  case (Suc k)
  let ?A = "a div 256 ^ k" and ?B = "b div 256 ^ k"
  have lim: "?A < 256" "?B < 256"
    using Suc.prems by (simp_all add: less_mult_imp_div_less)
  have rec: "(to_be k (a mod 256 ^ k) < to_be k (b mod 256 ^ k)) = (a mod 256 ^ k < b mod 256 ^ k)"
    by (rule Suc.IH) simp_all
  have "(to_be (Suc k) a < to_be (Suc k) b) = (?A < ?B \<or> ?A = ?B \<and> a mod 256 ^ k < b mod 256 ^ k)"
    using lim by (simp add: to_be_Suc Cons_less_Cons of_nat_byte_less of_nat_byte_eq rec)
  then show ?case using nat_less_div_mod[of "256 ^ k" a b] by simp
qed

lemma to_be_eq_iff: "a < 256 ^ k \<Longrightarrow> b < 256 ^ k \<Longrightarrow> (to_be k a = to_be k b) = (a = b)"
  by (metis from_be_to_be)

section \<open>Slices and vectors\<close>

text \<open>\<open>slice.partition_point(p)\<close>: the index of the first element that fails \<open>p\<close>, on a slice
  partitioned by \<open>p\<close> (the caller's obligation in the standard library).\<close>
definition partition_point :: "('a \<Rightarrow> bool) \<Rightarrow> 'a list \<Rightarrow> nat" where
  "partition_point p xs = length (takeWhile p xs)"

text \<open>\<open>v.sort_unstable(); v.dedup()\<close> on a totally ordered element type.\<close>
definition sort_dedup :: "'a::linorder list \<Rightarrow> 'a list" where
  "sort_dedup xs = remdups_adj (sort xs)"

text \<open>\<open>&bytes[lo..hi]\<close>; the range is checked by the caller of the model.\<close>
definition slice :: "nat \<Rightarrow> nat \<Rightarrow> 'a list \<Rightarrow> 'a list" where
  "slice lo hi xs = take (hi - lo) (drop lo xs)"

lemma partition_point_le [simp]: "partition_point p xs \<le> length xs"
  by (simp add: partition_point_def length_takeWhile_le)

lemma set_sort_dedup [simp]: "set (sort_dedup xs) = set xs"
  by (simp add: sort_dedup_def)

lemma sorted_wrt_less_remdups_adj: "sorted xs \<Longrightarrow> sorted_wrt (<) (remdups_adj (xs :: 'a::linorder list))"
  by (induction xs rule: remdups_adj.induct) (auto simp: less_le)

lemma strict_sorted_sort_dedup: "sorted_wrt (<) (sort_dedup xs)"
  by (simp add: sort_dedup_def sorted_wrt_less_remdups_adj)

lemma distinct_sort_dedup [simp]: "distinct (sort_dedup xs)"
  using strict_sorted_sort_dedup strict_sorted_iff by blast

lemma sort_dedup_id: "sorted_wrt (<) xs \<Longrightarrow> sort_dedup xs = xs"
  by (simp add: sort_dedup_def strict_sorted_iff sort_key_id_if_sorted remdups_adj_distinct)

lemma sort_dedup_eq_sorted_list_of_set: "sort_dedup xs = sorted_list_of_set (set xs)"
  by (rule strict_sorted_equal) (simp_all add: strict_sorted_sort_dedup)

lemma slice_append_left: "hi \<le> length xs \<Longrightarrow> slice lo hi (xs @ ys) = slice lo hi xs"
  by (simp add: slice_def)

lemma slice_append_right:
  "length xs \<le> lo \<Longrightarrow> slice lo hi (xs @ ys) = slice (lo - length xs) (hi - length xs) ys"
  by (simp add: slice_def)

lemma slice_all [simp]: "slice 0 (length xs) xs = xs"
  by (simp add: slice_def)

lemma length_slice [simp]: "length (slice lo hi xs) = min (hi - lo) (length xs - lo)"
  by (simp add: slice_def min.commute)

lemma split_list_two:
  assumes "x \<in> set xs" "y \<in> set xs" "x \<noteq> y"
  shows "\<exists>u v w. xs = u @ x # v @ y # w \<or> xs = u @ y # v @ x # w"
proof -
  obtain a b where ab: "xs = a @ x # b" using assms(1) by (meson split_list)
  with assms consider "y \<in> set a" | "y \<in> set b" by auto
  then show ?thesis
  proof cases
    case 1
    then obtain c d where "a = c @ y # d" by (meson split_list)
    with ab have "xs = c @ y # d @ x # b" by simp
    then show ?thesis by blast
  next
    case 2
    then obtain c d where "b = c @ y # d" by (meson split_list)
    with ab have "xs = a @ x # c @ y # d" by simp
    then show ?thesis by blast
  qed
qed

lemma sorted_le_last: "sorted xs \<Longrightarrow> x \<in> set xs \<Longrightarrow> x \<le> last xs"
  by (induction xs) auto

section \<open>Ordered maps\<close>

text \<open>A \<open>BTreeMap\<close> is an association list with strictly ascending keys.\<close>

type_synonym ('k, 'v) btree = "('k \<times> 'v) list"

fun bt_insert :: "'k::linorder \<Rightarrow> 'v \<Rightarrow> ('k, 'v) btree \<Rightarrow> ('k, 'v) btree" where
  "bt_insert k v [] = [(k, v)]"
| "bt_insert k v ((k', v') # m) =
     (if k < k' then (k, v) # (k', v') # m
      else if k = k' then (k, v) # m
      else (k', v') # bt_insert k v m)"

definition bt_delete :: "'k \<Rightarrow> ('k, 'v) btree \<Rightarrow> ('k, 'v) btree" where
  "bt_delete k m = filter (\<lambda>p. fst p \<noteq> k) m"

abbreviation bt_ok :: "('k::linorder, 'v) btree \<Rightarrow> bool" where
  "bt_ok m \<equiv> sorted_wrt (<) (map fst m)"

lemma map_of_bt_insert [simp]: "map_of (bt_insert k v m) = (map_of m)(k \<mapsto> v)"
  by (induction k v m rule: bt_insert.induct) (auto simp: fun_eq_iff)

lemma keys_bt_insert [simp]: "fst ` set (bt_insert k v m) = insert k (fst ` set m)"
  by (induction k v m rule: bt_insert.induct) auto

lemma bt_ok_insert [simp]: "bt_ok m \<Longrightarrow> bt_ok (bt_insert k v m)"
proof (induction k v m rule: bt_insert.induct)
  case (2 k v k' v' m)
  have "set (map fst (bt_insert k v m)) = insert k (fst ` set m)"
    by (simp flip: image_set)
  with 2 show ?case by (auto simp: set_map)
qed simp

lemma bt_ok_distinct: "bt_ok m \<Longrightarrow> distinct (map fst m)"
  using strict_sorted_iff by blast

lemma map_of_bt_delete [simp]: "map_of (bt_delete k m) = (map_of m)(k := None)"
  by (induction m) (auto simp: bt_delete_def fun_eq_iff)

lemma bt_ok_filter [simp]: "bt_ok m \<Longrightarrow> bt_ok (filter P m)"
  by (induction m) auto

lemma bt_ok_delete [simp]: "bt_ok m \<Longrightarrow> bt_ok (bt_delete k m)"
  by (simp add: bt_delete_def)

lemma map_of_filter_keys: "map_of (filter (\<lambda>p. P (fst p)) m) k = (if P k then map_of m k else None)"
  by (induction m) auto

text \<open>\<open>map.entry(key(x)).or_default().push(x)\<close> for every element.\<close>
definition bt_push :: "'k::linorder \<Rightarrow> 'v \<Rightarrow> ('k, 'v list) btree \<Rightarrow> ('k, 'v list) btree" where
  "bt_push k v m = bt_insert k ((case map_of m k of Some vs \<Rightarrow> vs | None \<Rightarrow> []) @ [v]) m"

definition bt_group :: "('v \<Rightarrow> 'k::linorder) \<Rightarrow> 'v list \<Rightarrow> ('k, 'v list) btree" where
  "bt_group key xs = fold (\<lambda>x. bt_push (key x) x) xs []"

lemma mset_bt_insert_new: "map_of g t = None \<Longrightarrow> mset (bt_insert t v g) = add_mset (t, v) (mset g)"
  by (induction t v g rule: bt_insert.induct) auto

lemma mset_bt_insert_old:
  "bt_ok g \<Longrightarrow> map_of g t = Some v0 \<Longrightarrow> add_mset (t, v0) (mset (bt_insert t v g)) = add_mset (t, v) (mset g)"
proof (induction t v g rule: bt_insert.induct)
  case (2 t v t' v' g)
  have "t < t' \<Longrightarrow> t \<notin> fst ` set g" using 2(2) by auto
  then have "t < t' \<Longrightarrow> map_of g t = None" by (simp add: map_of_eq_None_iff)
  with 2 show ?case by (auto simp: add_mset_commute)
qed simp

lemma mset_concat_vals: "mset (concat (map snd g)) = (\<Sum>p \<in># mset g. mset (snd p))"
  by (induction g) auto

lemma bt_ok_push [simp]: "bt_ok m \<Longrightarrow> bt_ok (bt_push k v m)"
  by (simp add: bt_push_def)

lemma mset_bt_push: "bt_ok g \<Longrightarrow> mset (concat (map snd (bt_push k x g))) = add_mset x (mset (concat (map snd g)))"
proof (cases "map_of g k")
  case None
  then show ?thesis unfolding mset_concat_vals by (simp add: bt_push_def mset_bt_insert_new)
next
  case (Some ms)
  assume "bt_ok g"
  from arg_cong[OF mset_bt_insert_old[OF this Some, of "ms @ [x]"], of "\<lambda>M. \<Sum>p \<in># M. mset (snd p)"]
  show ?thesis unfolding mset_concat_vals using Some by (simp add: bt_push_def)
qed

lemma bt_group_ok: "bt_ok (bt_group key xs) \<and> mset (concat (map snd (bt_group key xs))) = mset xs"
proof -
  have "bt_ok g \<Longrightarrow> bt_ok (fold (\<lambda>x. bt_push (key x) x) xs g)
      \<and> mset (concat (map snd (fold (\<lambda>x. bt_push (key x) x) xs g))) = mset (concat (map snd g)) + mset xs" for g
  proof (induction xs arbitrary: g)
    case (Cons x xs)
    from Cons.IH[of "bt_push (key x) x g"] Cons.prems mset_bt_push[OF Cons.prems, of "key x" x] show ?case by simp
  qed simp
  from this[of "[]"] show ?thesis by (simp add: bt_group_def)
qed

lemma map_of_bt_group:
  "map_of (bt_group key xs) k = (let ys = filter (\<lambda>x. key x = k) xs in if ys = [] then None else Some ys)"
proof (induction xs rule: rev_induct)
  case (snoc x xs)
  then show ?case by (auto simp: bt_group_def bt_push_def Let_def split: if_splits)
qed (simp add: bt_group_def)

section \<open>External codecs\<close>

text \<open>A third-party serializer (\<open>rkyv\<close>, \<open>serde_json\<close>) for one type: both directions may fail. The
  crates rely on \<open>codec_ok\<close>: what was encoded decodes to itself.\<close>

record 'a codec =
  encode :: "'a \<Rightarrow> bytes option"
  decode :: "bytes \<Rightarrow> 'a option"

definition codec_ok :: "'a codec \<Rightarrow> bool" where
  "codec_ok c = (\<forall>x b. encode c x = Some b \<longrightarrow> decode c b = Some x)"

lemma codec_okD: "codec_ok c \<Longrightarrow> encode c x = Some b \<Longrightarrow> decode c b = Some x"
  by (simp add: codec_ok_def)

text \<open>A codec given by a finite table: a concrete instance of the assumption.\<close>
definition table_codec :: "('a \<times> bytes) list \<Rightarrow> 'a codec" where
  "table_codec tbl = \<lparr>encode = map_of tbl, decode = map_of (map (\<lambda>(x, b). (b, x)) tbl)\<rparr>"

lemma table_codec_ok: "distinct (map snd tbl) \<Longrightarrow> codec_ok (table_codec tbl)"
  by (force simp: codec_ok_def table_codec_def comp_def split_beta image_iff
      intro!: map_of_is_SomeI dest!: map_of_SomeD)

end
