(* ===== verification/Storage.thy ===== *)
theory Storage
  imports Prelude
begin

text \<open>
  Programs that talk to an object store. The object store itself (the \<open>object_store\<close> crate over
  S3) is third-party code: a program is a tree of requests to it (\<open>Call\<close>) ending in a result
  (\<open>Ret\<close>), and everything the crates rely on is in the step relation \<open>store_step\<close>, which states the
  documented behaviour of the conditional puts and lets any request fail, a failing write having
  taken effect or not. \<open>run\<close> is the fault-free execution of one program over the in-memory store;
  \<open>follows\<close> relates a program to the requests it issued in any interleaved history.
\<close>

section \<open>Requests and programs\<close>

type_synonym path = string

datatype etag = Etag string

datatype os_error = OsNotFound | OsAlreadyExists | OsPrecondition | OsNotModified | OsOther

datatype put_mode = Overwrite | Create | Update etag

record object_meta =
  om_location :: path
  om_size :: nat
  om_last_modified :: millis

datatype request =
    ReqGet path "etag option"
  | ReqGetRanges path "(nat \<times> nat) list"
  | ReqPut path bytes put_mode
  | ReqDelete path
  | ReqList path
  | ReqListDelim path
  | ReqHead path
  | ReqNow
  | ReqCacheGet string
  | ReqCachePut string bytes

datatype response =
    RspGet "os_error + bytes \<times> etag option"
  | RspRanges "os_error + bytes list"
  | RspPut "os_error + etag option"
  | RspUnit "os_error + unit"
  | RspList "os_error + object_meta list"
  | RspPrefixes "os_error + path list"
  | RspHead "os_error + nat"
  | RspNow millis
  | RspCache "bytes option"

datatype 'a io = Ret 'a | Call request "response \<Rightarrow> 'a io"

primrec io_bind :: "'a io \<Rightarrow> ('a \<Rightarrow> 'b io) \<Rightarrow> 'b io" where
  "io_bind (Ret x) f = f x"
| "io_bind (Call q k) f = Call q (\<lambda>r. io_bind (k r) f)"

text \<open>Rust's \<open>?\<close>: stop with the error, or go on with the value.\<close>
definition io_try :: "('e + 'a) io \<Rightarrow> ('a \<Rightarrow> ('e + 'b) io) \<Rightarrow> ('e + 'b) io" where
  "io_try m f = io_bind m (\<lambda>r. case r of Inl e \<Rightarrow> Ret (Inl e) | Inr x \<Rightarrow> f x)"

text \<open>\<open>.map_err(f)\<close>.\<close>
definition io_map_err :: "('e \<Rightarrow> 'e2) \<Rightarrow> ('e + 'a) io \<Rightarrow> ('e2 + 'a) io" where
  "io_map_err f m = io_bind m (\<lambda>r. Ret (case r of Inl e \<Rightarrow> Inl (f e) | Inr x \<Rightarrow> Inr x))"

text \<open>Run a fallible program on every element in order, stopping at the first error, and collect
  the results: a \<open>buffered(..).try_collect()\<close> stream observed in order.\<close>
fun io_try_map :: "('x \<Rightarrow> ('e + 'a) io) \<Rightarrow> 'x list \<Rightarrow> ('e + 'a list) io" where
  "io_try_map f [] = Ret (Inr [])"
| "io_try_map f (x # xs) = io_try (f x) (\<lambda>y. io_try (io_try_map f xs) (\<lambda>ys. Ret (Inr (y # ys))))"

text \<open>The same for a program that cannot fail.\<close>
fun io_map :: "('x \<Rightarrow> 'a io) \<Rightarrow> 'x list \<Rightarrow> 'a list io" where
  "io_map f [] = Ret []"
| "io_map f (x # xs) = io_bind (f x) (\<lambda>y. io_bind (io_map f xs) (\<lambda>ys. Ret (y # ys)))"

definition os_get :: "path \<Rightarrow> etag option \<Rightarrow> (os_error + bytes \<times> etag option) io" where
  "os_get p inm = Call (ReqGet p inm) (\<lambda>r. case r of RspGet x \<Rightarrow> Ret x | _ \<Rightarrow> Ret (Inl OsOther))"

definition os_get_ranges :: "path \<Rightarrow> (nat \<times> nat) list \<Rightarrow> (os_error + bytes list) io" where
  "os_get_ranges p rs = Call (ReqGetRanges p rs) (\<lambda>r. case r of RspRanges x \<Rightarrow> Ret x | _ \<Rightarrow> Ret (Inl OsOther))"

definition os_put :: "path \<Rightarrow> bytes \<Rightarrow> put_mode \<Rightarrow> (os_error + etag option) io" where
  "os_put p b m = Call (ReqPut p b m) (\<lambda>r. case r of RspPut x \<Rightarrow> Ret x | _ \<Rightarrow> Ret (Inl OsOther))"

definition os_delete :: "path \<Rightarrow> (os_error + unit) io" where
  "os_delete p = Call (ReqDelete p) (\<lambda>r. case r of RspUnit x \<Rightarrow> Ret x | _ \<Rightarrow> Ret (Inl OsOther))"

definition os_list :: "path \<Rightarrow> (os_error + object_meta list) io" where
  "os_list p = Call (ReqList p) (\<lambda>r. case r of RspList x \<Rightarrow> Ret x | _ \<Rightarrow> Ret (Inl OsOther))"

definition os_list_delim :: "path \<Rightarrow> (os_error + path list) io" where
  "os_list_delim p = Call (ReqListDelim p) (\<lambda>r. case r of RspPrefixes x \<Rightarrow> Ret x | _ \<Rightarrow> Ret (Inl OsOther))"

definition os_head :: "path \<Rightarrow> (os_error + nat) io" where
  "os_head p = Call (ReqHead p) (\<lambda>r. case r of RspHead x \<Rightarrow> Ret x | _ \<Rightarrow> Ret (Inl OsOther))"

definition io_now :: "millis io" where
  "io_now = Call ReqNow (\<lambda>r. case r of RspNow t \<Rightarrow> Ret t | _ \<Rightarrow> Ret 0)"

definition cache_get :: "string \<Rightarrow> bytes option io" where
  "cache_get k = Call (ReqCacheGet k) (\<lambda>r. case r of RspCache x \<Rightarrow> Ret x | _ \<Rightarrow> Ret None)"

definition cache_put :: "string \<Rightarrow> bytes \<Rightarrow> unit io" where
  "cache_put k b = Call (ReqCachePut k b) (\<lambda>_. Ret ())"

section \<open>The in-memory store\<close>

text \<open>An object carries its bytes, its version token and the time it was written. The token is a
  counter that never repeats, as in the crate's \<open>InMemory\<close> store.\<close>

record object =
  ob_bytes :: bytes
  ob_tag :: nat
  ob_modified :: millis

record obj_store =
  objects :: "(path, object) btree"
  next_tag :: nat
  clock :: millis

definition empty_store :: obj_store where
  "empty_store = \<lparr>objects = [], next_tag = 0, clock = 0\<rparr>"

text \<open>A version token as text: one character per unit keeps the rendering injective and simple.\<close>
definition tag_etag :: "nat \<Rightarrow> etag" where
  "tag_etag n = Etag (replicate n CHR ''v'')"

definition lookup_obj :: "obj_store \<Rightarrow> path \<Rightarrow> object option" where
  "lookup_obj s p = map_of (objects s) p"

definition write_obj :: "path \<Rightarrow> bytes \<Rightarrow> obj_store \<Rightarrow> obj_store" where
  "write_obj p b s = s\<lparr>objects := bt_insert p \<lparr>ob_bytes = b, ob_tag = next_tag s, ob_modified = clock s\<rparr> (objects s),
     next_tag := Suc (next_tag s)\<rparr>"

definition remove_obj :: "path \<Rightarrow> obj_store \<Rightarrow> obj_store" where
  "remove_obj p s = s\<lparr>objects := bt_delete p (objects s)\<rparr>"

text \<open>\<open>Path::from\<close> drops a trailing slash, and a listing matches whole path segments.\<close>
definition strip_slash :: "path \<Rightarrow> path" where
  "strip_slash p = (if p \<noteq> [] \<and> last p = CHR ''/'' then butlast p else p)"

definition is_prefix :: "'a list \<Rightarrow> 'a list \<Rightarrow> bool" where
  "is_prefix xs ys = (take (length xs) ys = xs)"

definition under_prefix :: "path \<Rightarrow> path \<Rightarrow> bool" where
  "under_prefix pre p = (strip_slash pre = [] \<or> is_prefix (strip_slash pre @ ''/'') p)"

definition list_objects :: "path \<Rightarrow> obj_store \<Rightarrow> object_meta list" where
  "list_objects pre s = map (\<lambda>(p, ob). \<lparr>om_location = p, om_size = length (ob_bytes ob), om_last_modified = ob_modified ob\<rparr>)
     (filter (\<lambda>x. under_prefix pre (fst x)) (objects s))"

text \<open>The sub-prefixes one segment below \<open>pre\<close>.\<close>
definition list_delim :: "path \<Rightarrow> obj_store \<Rightarrow> path list" where
  "list_delim pre s =
     (let base = (if strip_slash pre = [] then [] else strip_slash pre @ ''/'') in
      remdups (concat (map (\<lambda>(p, ob). let rest = drop (length base) p; seg = takeWhile (\<lambda>c. c \<noteq> CHR ''/'') rest
         in if is_prefix base p \<and> length seg < length rest then [base @ seg] else []) (objects s))))"

text \<open>Fault-free behaviour of one request.\<close>
fun os_exec :: "request \<Rightarrow> obj_store \<Rightarrow> response \<times> obj_store" where
  "os_exec (ReqGet p inm) s = (RspGet (case lookup_obj s p of
       None \<Rightarrow> Inl OsNotFound
     | Some ob \<Rightarrow> if inm = Some (tag_etag (ob_tag ob)) then Inl OsNotModified
         else Inr (ob_bytes ob, Some (tag_etag (ob_tag ob)))), s)"
| "os_exec (ReqGetRanges p rs) s = (RspRanges (case lookup_obj s p of
       None \<Rightarrow> Inl OsNotFound
     | Some ob \<Rightarrow> Inr (map (\<lambda>(lo, hi). slice lo hi (ob_bytes ob)) rs)), s)"
| "os_exec (ReqPut p b Overwrite) s = (RspPut (Inr (Some (tag_etag (next_tag s)))), write_obj p b s)"
| "os_exec (ReqPut p b Create) s = (case lookup_obj s p of
       Some _ \<Rightarrow> (RspPut (Inl OsAlreadyExists), s)
     | None \<Rightarrow> (RspPut (Inr (Some (tag_etag (next_tag s)))), write_obj p b s))"
| "os_exec (ReqPut p b (Update e)) s = (case lookup_obj s p of
       None \<Rightarrow> (RspPut (Inl OsPrecondition), s)
     | Some ob \<Rightarrow> if tag_etag (ob_tag ob) = e
         then (RspPut (Inr (Some (tag_etag (next_tag s)))), write_obj p b s)
         else (RspPut (Inl OsPrecondition), s))"
| "os_exec (ReqDelete p) s = (case lookup_obj s p of
       None \<Rightarrow> (RspUnit (Inl OsNotFound), s)
     | Some _ \<Rightarrow> (RspUnit (Inr ()), remove_obj p s))"
| "os_exec (ReqList pre) s = (RspList (Inr (list_objects pre s)), s)"
| "os_exec (ReqListDelim pre) s = (RspPrefixes (Inr (list_delim pre s)), s)"
| "os_exec (ReqHead p) s = (RspHead (case lookup_obj s p of
       None \<Rightarrow> Inl OsNotFound | Some ob \<Rightarrow> Inr (length (ob_bytes ob))), s)"
| "os_exec ReqNow s = (RspNow (clock s), s)"
| "os_exec (ReqCacheGet k) s = (RspCache None, s)"
| "os_exec (ReqCachePut k b) s = (RspUnit (Inr ()), s)"

primrec run :: "'a io \<Rightarrow> obj_store \<Rightarrow> 'a \<times> obj_store" where
  "run (Ret x) s = (x, s)"
| "run (Call q k) s = (let (r, s') = os_exec q s in run (k r) s')"

section \<open>Histories\<close>

type_synonym event = "request \<times> response"

text \<open>The requests of the fault-free execution, with their answers.\<close>
primrec trace :: "'a io \<Rightarrow> obj_store \<Rightarrow> event list" where
  "trace (Ret x) s = []"
| "trace (Call q k) s = (let (r, s') = os_exec q s in (q, r) # trace (k r) s')"

text \<open>The error response of a request.\<close>
fun fault :: "request \<Rightarrow> response" where
  "fault (ReqGet _ _) = RspGet (Inl OsOther)"
| "fault (ReqGetRanges _ _) = RspRanges (Inl OsOther)"
| "fault (ReqPut _ _ _) = RspPut (Inl OsOther)"
| "fault (ReqDelete _) = RspUnit (Inl OsOther)"
| "fault (ReqList _) = RspList (Inl OsOther)"
| "fault (ReqListDelim _) = RspPrefixes (Inl OsOther)"
| "fault (ReqHead _) = RspHead (Inl OsOther)"
| "fault ReqNow = RspNow 0"
| "fault (ReqCacheGet _) = RspCache None"
| "fault (ReqCachePut _ _) = RspUnit (Inr ())"

text \<open>One request against the store: it succeeds, or fails without effect, or fails after taking
  effect (the connection dropped before the answer).\<close>
inductive store_step :: "obj_store \<Rightarrow> event \<Rightarrow> obj_store \<Rightarrow> bool" where
  Done: "os_exec q s = (r, s') \<Longrightarrow> store_step s (q, r) s'"
| Lost: "store_step s (q, fault q) s"
| Unknown: "os_exec q s = (r, s') \<Longrightarrow> store_step s (q, fault q) s'"
| Tick: "store_step s e s' \<Longrightarrow> clock s' \<le> t \<Longrightarrow> store_step s e (s'\<lparr>clock := t\<rparr>)"

inductive history :: "obj_store \<Rightarrow> event list \<Rightarrow> obj_store \<Rightarrow> bool" where
  Nil: "history s [] s"
| Cons: "store_step s e s' \<Longrightarrow> history s' es s'' \<Longrightarrow> history s (e # es) s''"

text \<open>\<open>follows p es x\<close>: program \<open>p\<close>, answered as in \<open>es\<close>, returns \<open>x\<close>.\<close>
inductive follows :: "'a io \<Rightarrow> event list \<Rightarrow> 'a \<Rightarrow> bool" where
  Ret: "follows (Ret x) [] x"
| Call: "follows (k r) es x \<Longrightarrow> follows (Call q k) ((q, r) # es) x"

text \<open>Every request a program can issue satisfies \<open>P\<close>.\<close>
primrec io_all :: "(request \<Rightarrow> bool) \<Rightarrow> 'a io \<Rightarrow> bool" where
  "io_all P (Ret x) = True"
| "io_all P (Call q k) = (P q \<and> (\<forall>r. io_all P (k r)))"

inductive_cases follows_RetE [elim!]: "follows (Ret x) es y"
inductive_cases follows_CallE [elim!]: "follows (Call q k) es y"
inductive_simps follows_Ret_iff [simp]: "follows (Ret x) es y"
inductive_cases history_NilE [elim!]: "history s [] s'"
inductive_cases history_ConsE [elim!]: "history s (e # es) s'"

end
