(* ===== verification/Core_Memory.thy ===== *)
theory Core_Memory
  imports Prelude
begin

text \<open>
  The data model of \<open>mlake-core\<close>: identifiers (\<open>id.rs\<close>), the memory item in its client form
  (\<^verbatim>\<open>Memory\<close>) and in its stored form (\<^verbatim>\<open>StoredMemory\<close>) with the promotion between them
  (\<open>memory.rs\<close>), and the shared-entity count. A stored item keeps its entity ids strictly
  ascending and its metadata sorted by key; \<open>stored_wf\<close> is that invariant.
\<close>

section \<open>Identifiers\<close>

datatype memory_id = MemoryId (mid_bytes: bytes)
datatype entity_id = EntityId (eid_bytes: bytes)

text \<open>Both newtypes derive \<open>Ord\<close> on a byte array: the order is lexicographic on the bytes.\<close>

instantiation memory_id :: linorder
begin
definition less_eq_memory_id :: "memory_id \<Rightarrow> memory_id \<Rightarrow> bool" where
  "less_eq_memory_id a b = (mid_bytes a \<le> mid_bytes b)"
definition less_memory_id :: "memory_id \<Rightarrow> memory_id \<Rightarrow> bool" where
  "less_memory_id a b = (mid_bytes a < mid_bytes b)"
instance
  by standard (auto simp: less_eq_memory_id_def less_memory_id_def memory_id.expand)
end

instantiation entity_id :: linorder
begin
definition less_eq_entity_id :: "entity_id \<Rightarrow> entity_id \<Rightarrow> bool" where
  "less_eq_entity_id a b = (eid_bytes a \<le> eid_bytes b)"
definition less_entity_id :: "entity_id \<Rightarrow> entity_id \<Rightarrow> bool" where
  "less_entity_id a b = (eid_bytes a < eid_bytes b)"
instance
  by standard (auto simp: less_eq_entity_id_def less_entity_id_def entity_id.expand)
end

lemma memory_id_less [simp]: "(MemoryId a < MemoryId b) = (a < b)"
  by (simp add: less_memory_id_def)

lemma memory_id_le [simp]: "(MemoryId a \<le> MemoryId b) = (a \<le> b)"
  by (simp add: less_eq_memory_id_def)

lemma entity_id_less [simp]: "(EntityId a < EntityId b) = (a < b)"
  by (simp add: less_entity_id_def)

lemma entity_id_le [simp]: "(EntityId a \<le> EntityId b) = (a \<le> b)"
  by (simp add: less_eq_entity_id_def)

section \<open>The memory item\<close>

datatype memory_type = Unspecified | Semantic | Episodic | Procedural | Observation

definition memory_type_from_u8 :: "u8 \<Rightarrow> memory_type" where
  "memory_type_from_u8 v =
     (if v = 1 then Semantic else if v = 2 then Episodic
      else if v = 3 then Procedural else if v = 4 then Observation else Unspecified)"

datatype link_type = Causes | CausedBy | Enables | Prevents

record timestamps =
  event_date :: "millis option"
  occurred_start :: "millis option"
  occurred_end :: "millis option"
  mentioned_at :: "millis option"
  updated_at :: "millis option"

definition no_timestamps :: timestamps where
  "no_timestamps = \<lparr>event_date = None, occurred_start = None, occurred_end = None,
     mentioned_at = None, updated_at = None\<rparr>"

definition MAX_SEMANTIC_OUT :: nat where "MAX_SEMANTIC_OUT = 5"

definition TEMPORAL_SPREAD_WINDOW_MS :: millis where
  "TEMPORAL_SPREAD_WINDOW_MS = 24 * 60 * 60 * 1000"

definition MAX_TEMPORAL_LINKS_PER_UNIT :: nat where "MAX_TEMPORAL_LINKS_PER_UNIT = 20"

text \<open>\<open>Option::or\<close>.\<close>
fun opt_or :: "'a option \<Rightarrow> 'a option \<Rightarrow> 'a option" where
  "opt_or (Some x) y = Some x"
| "opt_or None y = y"

definition effective_ts :: "timestamps \<Rightarrow> millis option" where
  "effective_ts ts = opt_or (opt_or (occurred_start ts) (mentioned_at ts)) (occurred_end ts)"

text \<open>An edge weight is the bit pattern of an \<open>f16\<close>.\<close>
type_synonym weight = u16

record semantic_edge =
  se_target :: memory_id
  se_weight :: weight

record causal_edge =
  ce_target :: memory_id
  ce_link_type :: link_type
  ce_weight :: weight

record stored_memory =
  sm_id :: memory_id
  sm_vector :: "f32 list"
  sm_text :: string
  sm_index_text :: string
  sm_memory_type :: u8
  sm_tags :: "string list"
  sm_timestamps :: timestamps
  sm_proof_count :: u32
  sm_entity_ids :: "entity_id list"
  sm_semantic_out :: "semantic_edge list"
  sm_causal_out :: "causal_edge list"
  sm_metadata :: "(string \<times> string) list"
  sm_write_seq :: nat

definition fts_text :: "stored_memory \<Rightarrow> string" where
  "fts_text m = (if sm_index_text m = [] then sm_text m else sm_index_text m)"

fun merge_count :: "'a::linorder list \<Rightarrow> 'a list \<Rightarrow> nat" where
  "merge_count (x # xs) (y # ys) =
     (if x < y then merge_count xs (y # ys)
      else if y < x then merge_count (x # xs) ys
      else Suc (merge_count xs ys))"
| "merge_count [] ys = 0"
| "merge_count xs [] = 0"

definition shared_entity_count :: "stored_memory \<Rightarrow> entity_id list \<Rightarrow> nat" where
  "shared_entity_count m other = merge_count (sm_entity_ids m) other"

text \<open>What the payload store keeps of an item: everything but the embedding. The byte encoding
  is \<open>rkyv\<close>'s and enters as a parameter wherever bytes matter.\<close>
definition strip_vector :: "stored_memory \<Rightarrow> stored_memory" where
  "strip_vector m = m\<lparr>sm_vector := []\<rparr>"

record memory =
  m_id :: memory_id
  m_vector :: "f32 list"
  m_text :: string
  m_index_text :: string
  m_memory_type :: u8
  m_tags :: "string list"
  m_timestamps :: timestamps
  m_proof_count :: u32
  m_entity_ids :: "entity_id list"
  m_causal_out :: "causal_edge list"
  m_semantic_out :: "semantic_edge list"
  m_metadata :: "(string \<times> string) list"

definition into_stored :: "memory \<Rightarrow> stored_memory" where
  "into_stored m = \<lparr>
     sm_id = m_id m,
     sm_vector = m_vector m,
     sm_text = m_text m,
     sm_index_text = m_index_text m,
     sm_memory_type = m_memory_type m,
     sm_tags = m_tags m,
     sm_timestamps = m_timestamps m,
     sm_proof_count = m_proof_count m,
     sm_entity_ids = sort_dedup (m_entity_ids m),
     sm_semantic_out = m_semantic_out m,
     sm_causal_out = m_causal_out m,
     sm_metadata = sort_key fst (m_metadata m),
     sm_write_seq = 0\<rparr>"

text \<open>A client item with a text and tags and nothing else, for concrete instances.\<close>
definition plain_memory :: "memory_id \<Rightarrow> string \<Rightarrow> string list \<Rightarrow> memory" where
  "plain_memory i t tags = \<lparr>m_id = i, m_vector = [], m_text = t, m_index_text = [],
     m_memory_type = 0, m_tags = tags, m_timestamps = no_timestamps, m_proof_count = 0,
     m_entity_ids = [], m_causal_out = [], m_semantic_out = [], m_metadata = []\<rparr>"

text \<open>The invariant of a stored item.\<close>
definition stored_wf :: "stored_memory \<Rightarrow> bool" where
  "stored_wf m = (sorted_wrt (<) (sm_entity_ids m) \<and> sorted (map fst (sm_metadata m)))"

section \<open>Facts\<close>

lemma map_of_sort_key_fst [simp]: "map_of (sort_key fst xs) = map_of (xs :: ('k::linorder \<times> 'v) list)"
proof -
  have step: "map_of (insort_key fst p ys) = map_of (p # ys)" for p and ys :: "('k \<times> 'v) list"
    by (induction ys) (auto simp: fun_upd_twist)
  show ?thesis by (induction xs) (auto simp: step)
qed

lemma into_stored_simps [simp]:
  "sm_id (into_stored m) = m_id m"
  "sm_memory_type (into_stored m) = m_memory_type m"
  "sm_write_seq (into_stored m) = 0"
  by (simp_all add: into_stored_def)

lemma stored_wf_into_stored: "stored_wf (into_stored m)"
  by (simp add: stored_wf_def into_stored_def strict_sorted_sort_dedup)

lemma merge_count_mset:
  "sorted xs \<Longrightarrow> sorted ys \<Longrightarrow> merge_count xs ys = size (mset xs \<inter># mset ys)"
proof (induction xs ys rule: merge_count.induct)
  case (1 x xs y ys)
  consider "x < y" | "y < x" | "x = y" by force
  then show ?case
  proof cases
    case 1
    then have "x \<notin># mset (y # ys)" using "1.prems"(2) by auto
    with 1 "1.IH"(1) "1.prems" show ?thesis
      by (simp add: inter_add_left1)
  next
    case 2
    then have "y \<notin># mset (x # xs)" using "1.prems"(1) by auto
    moreover have "\<not> x < y" using 2 by simp
    ultimately show ?thesis using "1.IH"(2) "1.prems" 2
      by (simp add: inter_add_right1)
  next
    case 3
    with "1.IH"(3) "1.prems" show ?thesis by simp
  qed
qed simp_all

lemma size_inter_mset_distinct:
  "distinct xs \<Longrightarrow> distinct ys \<Longrightarrow> size (mset xs \<inter># mset ys) = card (set xs \<inter> set ys)"
  by (rule arg_cong[where f = size, of _ "mset_set (set xs \<inter> set ys)", simplified])
    (auto simp: multiset_eq_iff count_mset_set' distinct_count_atmost_1)

text \<open>Between two stored items \<^const>\<open>shared_entity_count\<close> is the number of entities they
  have in common: the linear merge over the two strictly ascending lists computes the size of the
  intersection of the two entity sets.\<close>
theorem shared_entity_count_correct:
  assumes "stored_wf a" and "stored_wf b"
  shows "shared_entity_count a (sm_entity_ids b)
    = card (set (sm_entity_ids a) \<inter> set (sm_entity_ids b))"
  using assms
  by (simp add: shared_entity_count_def stored_wf_def strict_sorted_iff merge_count_mset
      size_inter_mset_distinct)

theorem shared_entity_count_correct_witness:
  "shared_entity_count
     (into_stored ((plain_memory (MemoryId [1]) ''a'' [])\<lparr>m_entity_ids := [EntityId [2], EntityId [1]]\<rparr>))
     (sm_entity_ids (into_stored ((plain_memory (MemoryId [2]) ''b'' [])\<lparr>m_entity_ids := [EntityId [2]]\<rparr>))) = 1"
  by (subst shared_entity_count_correct[OF stored_wf_into_stored stored_wf_into_stored])
    (simp add: into_stored_def plain_memory_def)

end
