(* ===== verification/Tags.thy ===== *)
theory Tags
  imports Core_Memory
begin

text \<open>
  Tag filtering (\<open>mlake-core/src/tags.rs\<close>): the five match modes, the flat filter, the
  conservative cluster test used for pruning, and the compound boolean predicate.
\<close>

section \<open>Definitions\<close>

datatype tags_match = Any | All | AnyStrict | AllStrict | Exact

definition default_tags_match :: tags_match where "default_tags_match = Any"

datatype tag_filter =
    TagFilter (tf_tags: "string list") (tf_mode: tags_match) (tf_groups: "tag_predicate list")
  and tag_predicate =
    PLeaf tag_filter
  | PAll "tag_predicate list"
  | PAny "tag_predicate list"
  | PNot tag_predicate

definition tag_filter_none :: tag_filter where
  "tag_filter_none = TagFilter [] Any []"

definition tag_filter_new :: "string list \<Rightarrow> tags_match \<Rightarrow> tag_filter" where
  "tag_filter_new tags mode = TagFilter tags mode []"

definition overlaps :: "string list \<Rightarrow> string list \<Rightarrow> bool" where
  "overlaps memory_tags req = list_ex (\<lambda>t. t \<in> set memory_tags) req"

definition contains_all :: "string list \<Rightarrow> string list \<Rightarrow> bool" where
  "contains_all memory_tags req = list_all (\<lambda>t. t \<in> set memory_tags) req"

text \<open>Equality of the two \<open>BTreeSet\<close>s.\<close>
definition set_eq :: "string list \<Rightarrow> string list \<Rightarrow> bool" where
  "set_eq memory_tags req = (sort_dedup memory_tags = sort_dedup req)"

definition leaf_matches :: "tag_filter \<Rightarrow> string list \<Rightarrow> bool" where
  "leaf_matches f memory_tags =
     (let req = tf_tags f; untagged = (memory_tags = []) in
      if tf_mode f = Exact \<and> req = [] then untagged
      else case tf_mode f of
        Any \<Rightarrow> untagged \<or> overlaps memory_tags req
      | All \<Rightarrow> untagged \<or> contains_all memory_tags req
      | AnyStrict \<Rightarrow> \<not> untagged \<and> overlaps memory_tags req
      | AllStrict \<Rightarrow> \<not> untagged \<and> contains_all memory_tags req
      | Exact \<Rightarrow> \<not> untagged \<and> set_eq memory_tags req)"

fun tag_predicate_matches :: "tag_predicate \<Rightarrow> string list \<Rightarrow> bool" where
  "tag_predicate_matches (PLeaf f) mt = leaf_matches f mt"
| "tag_predicate_matches (PAll cs) mt = (\<forall>c \<in> set cs. tag_predicate_matches c mt)"
| "tag_predicate_matches (PAny cs) mt = (\<exists>c \<in> set cs. tag_predicate_matches c mt)"
| "tag_predicate_matches (PNot c) mt = (\<not> tag_predicate_matches c mt)"

definition groups_match :: "tag_filter \<Rightarrow> string list \<Rightarrow> bool" where
  "groups_match f memory_tags = list_all (\<lambda>g. tag_predicate_matches g memory_tags) (tf_groups f)"

definition is_noop :: "tag_filter \<Rightarrow> bool" where
  "is_noop f = (tf_tags f = [] \<and> tf_mode f \<noteq> Exact)"

definition admits_all :: "tag_filter \<Rightarrow> bool" where
  "admits_all f = (is_noop f \<and> tf_groups f = [])"

definition cluster_admits :: "tag_filter \<Rightarrow> string list \<Rightarrow> bool \<Rightarrow> bool" where
  "cluster_admits f cluster_tags has_untagged =
     (let req = tf_tags f in
      if req = [] then (case tf_mode f of Exact \<Rightarrow> has_untagged | _ \<Rightarrow> True)
      else case tf_mode f of
        Any \<Rightarrow> has_untagged \<or> overlaps cluster_tags req
      | All \<Rightarrow> has_untagged \<or> contains_all cluster_tags req
      | AnyStrict \<Rightarrow> overlaps cluster_tags req
      | AllStrict \<Rightarrow> contains_all cluster_tags req
      | Exact \<Rightarrow> contains_all cluster_tags req)"

definition tag_filter_matches :: "tag_filter \<Rightarrow> string list \<Rightarrow> bool" where
  "tag_filter_matches f memory_tags =
     (let req = tf_tags f in
      if req = [] then (case tf_mode f of Exact \<Rightarrow> memory_tags = [] | _ \<Rightarrow> True)
      else let untagged = (memory_tags = []) in
        case tf_mode f of
          Any \<Rightarrow> untagged \<or> overlaps memory_tags req
        | All \<Rightarrow> untagged \<or> contains_all memory_tags req
        | AnyStrict \<Rightarrow> \<not> untagged \<and> overlaps memory_tags req
        | AllStrict \<Rightarrow> \<not> untagged \<and> contains_all memory_tags req
        | Exact \<Rightarrow> \<not> untagged \<and> set_eq memory_tags req)"

section \<open>Facts\<close>

lemma overlaps_iff [simp]: "overlaps mt req = (set mt \<inter> set req \<noteq> {})"
  by (auto simp: overlaps_def list_ex_iff)

lemma contains_all_iff [simp]: "contains_all mt req = (set req \<subseteq> set mt)"
  by (auto simp: contains_all_def list_all_iff)

lemma set_eq_iff_sets [simp]: "set_eq mt req = (set mt = set req)"
  by (metis set_eq_def set_sort_dedup sort_dedup_eq_sorted_list_of_set)

text \<open>The mode table of the module header, over sets: what a filter accepts.\<close>
lemma tag_filter_matches_spec:
  "tag_filter_matches f mt =
     (let R = set (tf_tags f); M = set mt in
      case tf_mode f of
        Any \<Rightarrow> R = {} \<or> M = {} \<or> M \<inter> R \<noteq> {}
      | All \<Rightarrow> M = {} \<or> R \<subseteq> M
      | AnyStrict \<Rightarrow> R = {} \<or> M \<inter> R \<noteq> {}
      | AllStrict \<Rightarrow> R \<subseteq> M
      | Exact \<Rightarrow> M = R)"
  by (cases f; cases "tf_mode f") (auto simp: tag_filter_matches_def Let_def)

lemma fresh_string: "\<exists>t. t \<notin> set (ts :: string list)"
  using ex_new_if_finite[OF infinite_UNIV_listI finite_set] by blast

lemma is_noop_matches: "is_noop f \<Longrightarrow> tag_filter_matches f mt"
  by (cases "tf_mode f") (auto simp: is_noop_def tag_filter_matches_def)

text \<open>The flat filter and the pruning shortcut agree: \<^const>\<open>is_noop\<close> holds exactly when the
  flat condition accepts every memory, so skipping pruning on it loses nothing and a filter that
  is not a no-op really rejects something.\<close>
theorem is_noop_iff: "is_noop f \<longleftrightarrow> (\<forall>mt. tag_filter_matches f mt)"
proof
  assume all: "\<forall>mt. tag_filter_matches f mt"
  obtain t where t: "t \<notin> set (tf_tags f)" using fresh_string by blast
  from all have "tag_filter_matches f []" "tag_filter_matches f [t]" by simp_all
  with t show "is_noop f"
    by (cases f; cases "tf_mode f") (auto simp: is_noop_def tag_filter_matches_spec subset_singleton_iff)
qed (simp add: is_noop_matches)

lemma cluster_admits_member:
  assumes "set mt \<subseteq> set cluster_tags" "mt = [] \<Longrightarrow> has_untagged" "tag_filter_matches f mt"
  shows "cluster_admits f cluster_tags has_untagged"
  using assms by (cases "tf_mode f")
    (auto simp: cluster_admits_def tag_filter_matches_def Let_def split: if_splits)

text \<open>Cluster pruning never loses a result: if some memory of a cluster passes the filter, then
  \<^const>\<open>cluster_admits\<close> holds of the cluster, given the union of its memories' tags and whether
  one of them is untagged.\<close>
theorem cluster_admits_sound:
  assumes "mt \<in> set members"
    and "set cluster_tags = (\<Union>ts \<in> set members. set ts)"
    and "has_untagged = (\<exists>ts \<in> set members. ts = [])"
    and "tag_filter_matches f mt"
  shows "cluster_admits f cluster_tags has_untagged"
  by (rule cluster_admits_member[OF _ _ assms(4)]) (use assms(1-3) in auto)

theorem cluster_admits_sound_witness:
  "cluster_admits (TagFilter [''a''] AllStrict []) [''a'', ''b'', ''c''] False"
  by (rule cluster_admits_sound[of "[''a'', ''b'']" "[[''c''], [''a'', ''b'']]"])
    (auto simp: tag_filter_matches_def)

text \<open>A predicate leaf with a non-empty request behaves like the flat filter; with an empty
  request the two differ exactly on the any-modes and the strict all-mode.\<close>
theorem leaf_matches_agrees:
  "leaf_matches f mt = tag_filter_matches f mt \<or>
     tf_tags f = [] \<and> (tf_mode f = Any \<and> mt \<noteq> [] \<or> tf_mode f = AnyStrict
       \<or> tf_mode f = AllStrict \<and> mt = [])"
  by (cases "tf_mode f") (auto simp: leaf_matches_def tag_filter_matches_def Let_def)

text \<open>Negation pushes through the boolean tree.\<close>
lemma tag_predicate_de_morgan:
  "tag_predicate_matches (PNot (PAll cs)) mt = tag_predicate_matches (PAny (map PNot cs)) mt"
  "tag_predicate_matches (PNot (PAny cs)) mt = tag_predicate_matches (PAll (map PNot cs)) mt"
  by auto

end
