(* ===== verification/Predicates.thy ===== *)
theory Predicates
  imports Tags
begin

text \<open>
  The match predicate of bulk deletes (\<open>mlake-core/src/predicate.rs\<close>): a conjunction of
  conditions on the type, the metadata, the tags and the write time of a stored memory.
\<close>

section \<open>Definitions\<close>

record predicate =
  p_memory_types :: "u8 list"
  p_metadata_equals :: "(string \<times> string) list"
  p_tags :: "string list"
  p_tags_mode :: u8
  p_updated_from :: "millis option"
  p_updated_to :: "millis option"

definition tags_mode_from_u8 :: "u8 \<Rightarrow> tags_match" where
  "tags_mode_from_u8 n =
     (if n = 1 then All else if n = 2 then AnyStrict else if n = 3 then AllStrict
      else if n = 4 then Exact else Any)"

fun tags_mode_to_u8 :: "tags_match \<Rightarrow> u8" where
  "tags_mode_to_u8 Any = 0"
| "tags_mode_to_u8 All = 1"
| "tags_mode_to_u8 AnyStrict = 2"
| "tags_mode_to_u8 AllStrict = 3"
| "tags_mode_to_u8 Exact = 4"

definition predicate_is_empty :: "predicate \<Rightarrow> bool" where
  "predicate_is_empty p =
     (p_memory_types p = [] \<and> p_metadata_equals p = [] \<and> p_tags p = []
      \<and> p_updated_from p = None \<and> p_updated_to p = None)"

definition predicate_matches :: "predicate \<Rightarrow> stored_memory \<Rightarrow> bool" where
  "predicate_matches p m =
     (if p_memory_types p \<noteq> [] \<and> sm_memory_type m \<notin> set (p_memory_types p) then False
      else if p_tags p \<noteq> [] \<and>
        \<not> tag_filter_matches (tag_filter_new (p_tags p) (tags_mode_from_u8 (p_tags_mode p))) (sm_tags m)
      then False
      else if (p_updated_from p \<noteq> None \<or> p_updated_to p \<noteq> None) \<and>
        (case updated_at (sm_timestamps m) of
           None \<Rightarrow> True
         | Some updated \<Rightarrow>
             (case p_updated_from p of Some from \<Rightarrow> updated \<le> from | None \<Rightarrow> False) \<or>
             (case p_updated_to p of Some to \<Rightarrow> to \<le> updated | None \<Rightarrow> False))
      then False
      else list_all (\<lambda>(k, v). list_ex (\<lambda>(mk, mv). mk = k \<and> mv = v) (sm_metadata m))
        (p_metadata_equals p))"

section \<open>Facts\<close>

lemma tags_mode_roundtrip [simp]: "tags_mode_from_u8 (tags_mode_to_u8 m) = m"
  by (cases m) (simp_all add: tags_mode_from_u8_def)

lemma predicate_empty_matches: "predicate_is_empty p \<Longrightarrow> predicate_matches p m"
  by (simp add: predicate_is_empty_def predicate_matches_def)

lemma predicate_matches_write_seq [simp]:
  "predicate_matches p (m\<lparr>sm_write_seq := s\<rparr>) = predicate_matches p m"
  by (simp add: predicate_matches_def)

text \<open>A predicate is the conjunction its documentation names: the type is among the listed ones,
  the tag condition holds, the write time lies strictly inside each given bound (an unknown write
  time fails a bounded window), and every required metadata pair is present.\<close>
theorem predicate_matches_spec:
  "predicate_matches p m \<longleftrightarrow>
     (p_memory_types p = [] \<or> sm_memory_type m \<in> set (p_memory_types p)) \<and>
     (p_tags p = [] \<or>
        tag_filter_matches (tag_filter_new (p_tags p) (tags_mode_from_u8 (p_tags_mode p))) (sm_tags m)) \<and>
     (case p_updated_from p of None \<Rightarrow> True
      | Some from \<Rightarrow> \<exists>u. updated_at (sm_timestamps m) = Some u \<and> from < u) \<and>
     (case p_updated_to p of None \<Rightarrow> True
      | Some to \<Rightarrow> \<exists>u. updated_at (sm_timestamps m) = Some u \<and> u < to) \<and>
     set (p_metadata_equals p) \<subseteq> set (sm_metadata m)"
  unfolding predicate_matches_def list_all_iff list_ex_iff
  by (cases "updated_at (sm_timestamps m)"; cases "p_updated_from p"; cases "p_updated_to p")
    (auto simp: not_le)

end
