(* ===== verification/Core_Lib.thy ===== *)
theory Core_Lib
  imports Predicates
begin

text \<open>
  The remaining shared pieces of \<open>mlake-core\<close>: its error type and the dimension check
  (\<open>lib.rs\<close>), the self-describing object header (\<open>envelope.rs\<close>) and a segment's delete overlay
  (\<open>tombstones.rs\<close>).
\<close>

section \<open>Errors and dimensions\<close>

datatype core_error =
    Encode
  | Decode
  | FormatVersion nat nat
  | Json
  | DimMismatch nat nat

fun uniform_dim_from :: "nat option \<Rightarrow> 'a list list \<Rightarrow> core_error + nat option" where
  "uniform_dim_from dim [] = Inr dim"
| "uniform_dim_from dim (v # vs) =
     (if v = [] then uniform_dim_from dim vs
      else case dim of
        None \<Rightarrow> uniform_dim_from (Some (length v)) vs
      | Some d \<Rightarrow> if d = length v then uniform_dim_from dim vs
                  else Inl (DimMismatch d (length v)))"

definition uniform_dim :: "'a list list \<Rightarrow> core_error + nat option" where
  "uniform_dim vectors = uniform_dim_from None vectors"

section \<open>The object header\<close>

definition HEADER_LEN :: nat where "HEADER_LEN = 6"

definition wrap :: "bytes \<Rightarrow> u16 \<Rightarrow> bytes \<Rightarrow> bytes" where
  "wrap magic version payload = magic @ le_word 2 version @ payload"

definition unwrap :: "bytes \<Rightarrow> bytes \<Rightarrow> (u16 \<times> bytes) option" where
  "unwrap magic bs =
     (if length bs < HEADER_LEN \<or> slice 0 4 bs \<noteq> magic then None
      else Some (word_le [bs ! 4, bs ! 5], drop HEADER_LEN bs))"

section \<open>Delete overlays\<close>

record segment_tombstones =
  st_superseded :: "memory_id list"
  st_predicates :: "(nat \<times> predicate) list"

section \<open>Facts\<close>

lemma uniform_dim_from_Inr:
  "uniform_dim_from dim vs = Inr d \<longleftrightarrow>
     set_option d = set_option dim \<union> length ` (set vs - {[]})
     \<and> (case dim of None \<Rightarrow> True | Some n \<Rightarrow> \<forall>v \<in> set vs - {[]}. length v = n)"
proof (induction dim vs rule: uniform_dim_from.induct)
  case (1 dim) then show ?case by (cases dim; cases d) auto
next
  case (2 dim v vs)
  show ?case
  proof (cases "v = []")
    case True
    with 2 show ?thesis by (simp split: option.split)
  next
    case False
    then have ins: "set (v # vs) - {[]} = insert v (set vs - {[]})" by auto
    show ?thesis
    proof (cases dim)
      case None
      with 2(2)[OF False None] False show ?thesis unfolding ins
        by (cases d) auto
    next
      case (Some n)
      with 2(3)[OF False Some] False show ?thesis unfolding ins by auto
    qed
  qed
qed

text \<open>The dimension check accepts exactly the batches whose non-empty vectors share one length,
  and reports that length (or none, when every vector is empty); any other batch is rejected with
  the two lengths that disagree.\<close>
theorem uniform_dim_correct:
  "(uniform_dim vs = Inr d) = (set_option d = length ` (set vs - {[]}))
   \<and> (\<exists>e g. uniform_dim vs = Inl (DimMismatch e g) \<and> e \<noteq> g
        \<and> {e, g} \<subseteq> length ` (set vs - {[]})) = (\<forall>d'. uniform_dim vs \<noteq> Inr d')"
proof -
  have err: "uniform_dim_from dim ws = Inl x \<Longrightarrow>
      \<exists>e g. x = DimMismatch e g \<and> e \<noteq> g \<and> {e, g} \<subseteq> set_option dim \<union> length ` (set ws - {[]})"
    for dim ws x
    by (induction dim ws rule: uniform_dim_from.induct) (fastforce split: if_splits option.splits)+
  have "\<exists>e g. uniform_dim vs = Inl (DimMismatch e g) \<and> e \<noteq> g \<and> {e, g} \<subseteq> length ` (set vs - {[]})"
    if "\<forall>d'. uniform_dim vs \<noteq> Inr d'"
    using that err[of None vs] by (cases "uniform_dim vs") (auto simp: uniform_dim_def)
  moreover have "(uniform_dim vs = Inr d) = (set_option d = length ` (set vs - {[]}))"
    by (simp add: uniform_dim_def uniform_dim_from_Inr)
  ultimately show ?thesis by auto
qed

text \<open>The object header round-trips and is self-describing: unwrapping what was wrapped under a
  four-byte magic gives back version and payload, and under any other magic it is rejected.\<close>
theorem unwrap_wrap:
  assumes "length magic = 4"
  shows "unwrap magic' (wrap magic v payload) = (if magic' = magic then Some (v, payload) else None)"
proof -
  obtain a b where ab: "le_word 2 v = [a, b]"
  proof (rule that)
    show "le_word 2 v = [le_word 2 v ! 0, le_word 2 v ! 1]"
      by (rule nth_equalityI) (auto simp: less_2_cases_iff)
  qed
  have "slice 0 4 (wrap magic v payload) = magic"
    using assms by (simp add: slice_def wrap_def)
  moreover have "wrap magic v payload ! 4 = a" "wrap magic v payload ! 5 = b"
    using assms by (simp_all add: wrap_def ab nth_append)
  moreover have "drop HEADER_LEN (wrap magic v payload) = payload"
    using assms by (simp add: wrap_def HEADER_LEN_def)
  moreover have "\<not> length (wrap magic v payload) < HEADER_LEN"
    using assms by (simp add: wrap_def HEADER_LEN_def)
  moreover have "word_le [a, b] = v" using word_le_le_word16[of v] ab by simp
  ultimately show ?thesis by (auto simp: unwrap_def)
qed

theorem unwrap_wrap_witness:
  "unwrap [1, 2, 3, 4] (wrap [1, 2, 3, 4] 7 [9]) = Some (7, [9])"
  using unwrap_wrap[of "[1, 2, 3, 4]" "[1, 2, 3, 4]" 7 "[9]"] by simp

end
