(* ===== verification/Text_Format.thy ===== *)
theory Text_Format
  imports Prelude
begin

text \<open>
  The fragments of Rust's text formatting the crates rely on: \<open>u64\<close> to decimal (plain and
  zero-padded) and \<open>str::parse::<u64>\<close>, with the round trips and the order facts behind the
  zero-padded WAL keys.
\<close>

section \<open>Definitions\<close>

definition U64_LIMIT :: nat where "U64_LIMIT = 2 ^ 64"

definition digit_char :: "nat \<Rightarrow> char" where
  "digit_char d = char_of (48 + d :: nat)"

definition digit_val :: "char \<Rightarrow> nat option" where
  "digit_val c = (let n = of_char c :: nat in if 48 \<le> n \<and> n \<le> 57 then Some (n - 48) else None)"

fun show_nat :: "nat \<Rightarrow> string" where
  "show_nat n = (if n < 10 then [digit_char n] else show_nat (n div 10) @ [digit_char (n mod 10)])"

declare show_nat.simps [simp del]

text \<open>\<open>format!("{n:0w$}")\<close>: at least \<open>w\<close> characters, padded with zeros on the left.\<close>
definition show_padded :: "nat \<Rightarrow> nat \<Rightarrow> string" where
  "show_padded w n = (let s = show_nat n in replicate (w - length s) (digit_char 0) @ s)"

fun parse_digits :: "nat \<Rightarrow> string \<Rightarrow> nat option" where
  "parse_digits acc [] = Some acc"
| "parse_digits acc (c # cs) =
     (case digit_val c of None \<Rightarrow> None | Some d \<Rightarrow> parse_digits (10 * acc + d) cs)"

text \<open>\<open>s.parse::<u64>().ok()\<close>: an optional plus sign, at least one digit, only digits, in range.\<close>
definition parse_u64 :: "string \<Rightarrow> nat option" where
  "parse_u64 s =
     (let body = (if s \<noteq> [] \<and> hd s = CHR ''+'' then tl s else s) in
      if body = [] then None
      else case parse_digits 0 body of
             None \<Rightarrow> None
           | Some v \<Rightarrow> if v < U64_LIMIT then Some v else None)"

definition strip_suffix :: "'a list \<Rightarrow> 'a list \<Rightarrow> 'a list option" where
  "strip_suffix suf xs =
     (if length suf \<le> length xs \<and> drop (length xs - length suf) xs = suf
      then Some (take (length xs - length suf) xs) else None)"

text \<open>\<open>path.rsplit('/').next()\<close>.\<close>
definition last_segment :: "string \<Rightarrow> string" where
  "last_segment p = rev (takeWhile (\<lambda>c. c \<noteq> CHR ''/'') (rev p))"

text \<open>The ASCII whitespace \<open>str::trim\<close> removes.\<close>
definition is_space :: "char \<Rightarrow> bool" where
  "is_space c = ((of_char c :: nat) \<in> {9, 10, 11, 12, 13, 32})"

definition trim :: "string \<Rightarrow> string" where
  "trim s = rev (dropWhile is_space (rev (dropWhile is_space s)))"

text \<open>ASCII text to bytes and back; a byte above 127 is not ASCII and is rejected.\<close>
definition ascii_bytes :: "string \<Rightarrow> bytes" where
  "ascii_bytes s = map (\<lambda>c. of_nat (of_char c)) s"

definition ascii_text :: "bytes \<Rightarrow> string option" where
  "ascii_text bs = (if list_all (\<lambda>b. unat b < 128) bs then Some (map (\<lambda>b. char_of (unat b)) bs) else None)"

section \<open>Facts\<close>

text \<open>The \<open>w\<close>-digit decimal, most significant digit first.\<close>
fun fixed_digits :: "nat \<Rightarrow> nat \<Rightarrow> string" where
  "fixed_digits 0 n = []"
| "fixed_digits (Suc w) n = fixed_digits w (n div 10) @ [digit_char (n mod 10)]"

lemma of_char_digit_char: "d < 10 \<Longrightarrow> (of_char (digit_char d) :: nat) = 48 + d"
  by (simp add: digit_char_def)

lemma digit_val_digit_char [simp]: "d < 10 \<Longrightarrow> digit_val (digit_char d) = Some d"
  by (simp add: digit_val_def of_char_digit_char)

lemma digit_char_less: "a < 10 \<Longrightarrow> b < 10 \<Longrightarrow> (digit_char a < digit_char b) = (a < b)"
  by (simp add: less_char_def of_char_digit_char)

lemma length_fixed_digits [simp]: "length (fixed_digits w n) = w"
  by (induction w n rule: fixed_digits.induct) auto

lemma fixed_digits_zero: "fixed_digits w 0 = replicate w (digit_char 0)"
  by (induction w) (simp_all add: replicate_append_same)

lemma show_nat_nonempty [simp]: "show_nat n \<noteq> []"
  by (subst show_nat.simps) simp

lemma show_padded_fixed: "n < 10 ^ w \<Longrightarrow> 0 < w \<Longrightarrow> show_padded w n = fixed_digits w n"
proof (induction w arbitrary: n)
  case (Suc w)
  show ?case
  proof (cases "n < 10")
    case True
    then have "show_nat n = [digit_char n]" by (simp add: show_nat.simps)
    with True show ?thesis
      by (simp add: show_padded_def fixed_digits_zero)
  next
    case False
    then have "0 < w" using Suc.prems by (cases w) auto
    moreover have "n div 10 < 10 ^ w" using Suc.prems by (simp add: less_mult_imp_div_less mult.commute)
    ultimately have "show_padded w (n div 10) = fixed_digits w (n div 10)" by (rule Suc.IH[rotated])
    moreover have "show_nat n = show_nat (n div 10) @ [digit_char (n mod 10)]"
      using False by (subst show_nat.simps) simp
    ultimately show ?thesis by (simp add: show_padded_def Let_def)
  qed
qed simp

lemma parse_digits_snoc:
  "parse_digits acc (s @ [c]) =
     (case parse_digits acc s of None \<Rightarrow> None
      | Some v \<Rightarrow> (case digit_val c of None \<Rightarrow> None | Some d \<Rightarrow> Some (10 * v + d)))"
  by (induction acc s rule: parse_digits.induct) (auto split: option.splits)

lemma parse_fixed_digits: "parse_digits 0 (fixed_digits w n) = Some (n mod 10 ^ w)"
proof (induction w n rule: fixed_digits.induct)
  case (2 w n)
  have "10 * (n div 10 mod 10 ^ w) + n mod 10 = n mod (10 * 10 ^ w)"
    by (simp add: mod_mult2_eq)
  with 2 show ?case by (simp add: parse_digits_snoc)
qed simp

lemma parse_show_nat: "parse_digits 0 (show_nat n) = Some n"
proof (induction n rule: show_nat.induct)
  case (1 n)
  show ?case
  proof (cases "n < 10")
    case True then show ?thesis by (simp add: show_nat.simps)
  next
    case False
    then have "show_nat n = show_nat (n div 10) @ [digit_char (n mod 10)]"
      by (subst show_nat.simps) simp
    with 1 False show ?thesis by (simp add: parse_digits_snoc)
  qed
qed

lemma digit_char_props:
  "d < 10 \<Longrightarrow> digit_char d \<noteq> CHR ''+''" "d < 10 \<Longrightarrow> digit_char d \<noteq> CHR ''/''"
  "d < 10 \<Longrightarrow> \<not> is_space (digit_char d)" "d < 10 \<Longrightarrow> (of_char (digit_char d) :: nat) < 128"
  using of_char_digit_char[of d] by (auto simp: is_space_def)

lemma set_fixed_digits: "c \<in> set (fixed_digits w n) \<Longrightarrow> \<exists>d < 10. c = digit_char d"
  by (induction w n rule: fixed_digits.induct) (auto intro: exI[of _ "_ mod 10"])

lemma set_show_nat: "c \<in> set (show_nat n) \<Longrightarrow> \<exists>d < 10. c = digit_char d"
proof (induction n rule: show_nat.induct)
  case (1 n)
  then show ?case
    by (subst (asm) show_nat.simps) (auto split: if_splits intro: exI[of _ "n mod 10"])
qed

lemma fixed_digits_less_iff:
  "a < 10 ^ w \<Longrightarrow> b < 10 ^ w \<Longrightarrow> (fixed_digits w a < fixed_digits w b) = (a < b)"
proof (induction w arbitrary: a b)
  case (Suc w)
  have q: "a div 10 < 10 ^ w" "b div 10 < 10 ^ w"
    using Suc.prems by (simp_all add: less_mult_imp_div_less mult.commute)
  have snoc: "(xs @ [x] < ys @ [y]) = (xs < ys \<or> xs = ys \<and> x < y)"
    if "length xs = length ys" for xs ys :: string and x y
    using that by (induction xs ys rule: list_induct2) (auto simp: Cons_less_Cons)
  have inj: "(fixed_digits w (a div 10) = fixed_digits w (b div 10)) = (a div 10 = b div 10)"
    by (metis mod_less option.inject parse_fixed_digits q)
  have "(fixed_digits (Suc w) a < fixed_digits (Suc w) b)
      = (a div 10 < b div 10 \<or> a div 10 = b div 10 \<and> a mod 10 < b mod 10)"
    by (simp add: snoc inj digit_char_less Suc.IH[OF q])
  then show ?case using nat_less_div_mod[of 10 a b] by simp
qed simp

lemma parse_u64_digits:
  assumes "s \<noteq> []" "\<And>c. c \<in> set s \<Longrightarrow> \<exists>d < 10. c = digit_char d"
    and "parse_digits 0 s = Some v" "v < U64_LIMIT"
  shows "parse_u64 s = Some v"
proof -
  have "hd s \<in> set s" using assms(1) by simp
  then obtain d where "d < 10" "hd s = digit_char d" using assms(2) by blast
  then have "hd s \<noteq> CHR ''+''" by (simp add: digit_char_props)
  then show ?thesis using assms(1,3,4) by (simp add: parse_u64_def)
qed

lemma parse_u64_show_nat: "n < U64_LIMIT \<Longrightarrow> parse_u64 (show_nat n) = Some n"
  by (rule parse_u64_digits) (auto simp: parse_show_nat dest: set_show_nat)

lemma strip_suffix_append [simp]: "strip_suffix suf (xs @ suf) = Some xs"
  by (simp add: strip_suffix_def)

lemma last_segment_append: "CHR ''/'' \<notin> set s \<Longrightarrow> last_segment (p @ CHR ''/'' # s) = s"
  by (simp add: last_segment_def takeWhile_append takeWhile_eq_all_conv)

lemma takeWhile_tail: "list_all P xs \<Longrightarrow> takeWhile P xs = xs"
  by (simp add: list_all_iff)

lemma trim_id: "\<forall>c \<in> set s. \<not> is_space c \<Longrightarrow> trim s = s"
proof -
  assume a: "\<forall>c \<in> set s. \<not> is_space c"
  then have "dropWhile is_space s = s" by (cases s) auto
  moreover have "dropWhile is_space (rev s) = rev s"
    using a by (auto simp: dropWhile_eq_self_iff hd_rev)
  ultimately show ?thesis by (simp add: trim_def)
qed

lemma ascii_text_bytes:
  assumes "\<forall>c \<in> set s. (of_char c :: nat) < 128"
  shows "ascii_text (ascii_bytes s) = Some s"
proof -
  have u: "unat (of_nat (of_char c) :: u8) = of_char c" if "c \<in> set s" for c
    using assms that by (simp add: unat_of_nat)
  show ?thesis using assms
    by (auto simp: ascii_text_def ascii_bytes_def list_all_iff u comp_def intro!: map_idI)
qed

lemma parse_digits_zeros: "parse_digits 0 (replicate k (digit_char 0) @ s) = parse_digits 0 s"
  by (induction k) simp_all

lemma show_padded_inj: "show_padded w a = show_padded w b \<Longrightarrow> a = b"
  by (metis option.inject parse_digits_zeros parse_show_nat show_padded_def)

end
