(* ===== verification/Store.thy ===== *)
theory Store
  imports Storage Core_Lib Text_Format
begin

text \<open>
  The object-store handle (\<open>mlake-store/src/store.rs\<close>, \<open>lib.rs\<close>): reads, conditional writes,
  listings and the read-through cache of immutable objects, as programs over the storage
  requests. Metrics and spans only record timings and are left out. The first part holds the
  laws of programs and histories that every client of the store uses.
\<close>

section \<open>Operations\<close>

datatype store_error =
    NotFound path
  | AlreadyExists path
  | CasConflict path
  | ObjectStore os_error

definition is_conflict :: "store_error \<Rightarrow> bool" where
  "is_conflict e = (case e of AlreadyExists _ \<Rightarrow> True | CasConflict _ \<Rightarrow> True | _ \<Rightarrow> False)"

record versioned =
  v_bytes :: bytes
  v_etag :: "etag option"

definition store_get :: "path \<Rightarrow> (store_error + versioned) io" where
  "store_get p = io_bind (os_get p None) (\<lambda>r. Ret (case r of
     Inr (b, e) \<Rightarrow> Inr \<lparr>v_bytes = b, v_etag = e\<rparr>
   | Inl OsNotFound \<Rightarrow> Inl (NotFound p)
   | Inl e \<Rightarrow> Inl (ObjectStore e)))"

definition store_get_if_modified :: "path \<Rightarrow> etag \<Rightarrow> (store_error + versioned option) io" where
  "store_get_if_modified p etag = io_bind (os_get p (Some etag)) (\<lambda>r. Ret (case r of
     Inr (b, e) \<Rightarrow> Inr (Some \<lparr>v_bytes = b, v_etag = e\<rparr>)
   | Inl OsNotModified \<Rightarrow> Inr None
   | Inl OsNotFound \<Rightarrow> Inl (NotFound p)
   | Inl e \<Rightarrow> Inl (ObjectStore e)))"

text \<open>A store without a cache answers every cache lookup with a miss and drops every admission,
  so one program covers both configurations.\<close>
definition store_get_immutable :: "path \<Rightarrow> (store_error + bytes) io" where
  "store_get_immutable p = io_bind (cache_get p) (\<lambda>hit. case hit of
     Some b \<Rightarrow> Ret (Inr b)
   | None \<Rightarrow> io_try (store_get p) (\<lambda>v.
       io_bind (cache_put p (v_bytes v)) (\<lambda>_. Ret (Inr (v_bytes v)))))"

definition range_key :: "path \<Rightarrow> nat \<times> nat \<Rightarrow> string" where
  "range_key p r = p @ ''#'' @ show_nat (fst r) @ ''-'' @ show_nat (snd r)"

definition store_get_ranges :: "path \<Rightarrow> (nat \<times> nat) list \<Rightarrow> (store_error + bytes list) io" where
  "store_get_ranges p ranges =
     (if ranges = [] then Ret (Inr [])
      else io_bind (io_map (\<lambda>r. cache_get (range_key p r)) ranges) (\<lambda>hits.
        let miss_idx = filter (\<lambda>i. hits ! i = None) [0..<length ranges];
            out = (\<lambda>fetched. map (\<lambda>i. case hits ! i of Some b \<Rightarrow> b
                     | None \<Rightarrow> (case map_of (zip miss_idx fetched) i of Some b \<Rightarrow> b | None \<Rightarrow> []))
                   [0..<length ranges])
        in if miss_idx = [] then Ret (Inr (out []))
           else io_bind (os_get_ranges p (map (\<lambda>i. ranges ! i) miss_idx)) (\<lambda>r. case r of
             Inl OsNotFound \<Rightarrow> Ret (Inl (NotFound p))
           | Inl e \<Rightarrow> Ret (Inl (ObjectStore e))
           | Inr fetched \<Rightarrow>
               io_bind (io_map (\<lambda>(i, b). cache_put (range_key p (ranges ! i)) b) (zip miss_idx fetched))
                 (\<lambda>_. Ret (Inr (out fetched))))))"

definition store_put :: "path \<Rightarrow> bytes \<Rightarrow> (store_error + etag option) io" where
  "store_put p b = io_bind (os_put p b Overwrite) (\<lambda>r. Ret (case r of
     Inr e \<Rightarrow> Inr e | Inl e \<Rightarrow> Inl (ObjectStore e)))"

definition store_put_admitting :: "path \<Rightarrow> bytes \<Rightarrow> (store_error + etag option) io" where
  "store_put_admitting p b = io_try (store_put p b) (\<lambda>e.
     io_bind (cache_put p b) (\<lambda>_. Ret (Inr e)))"

definition store_put_if_absent :: "path \<Rightarrow> bytes \<Rightarrow> (store_error + etag option) io" where
  "store_put_if_absent p b = io_bind (os_put p b Create) (\<lambda>r. Ret (case r of
     Inr e \<Rightarrow> Inr e
   | Inl OsAlreadyExists \<Rightarrow> Inl (AlreadyExists p)
   | Inl e \<Rightarrow> Inl (ObjectStore e)))"

definition store_cas_swap :: "path \<Rightarrow> etag \<Rightarrow> bytes \<Rightarrow> (store_error + etag option) io" where
  "store_cas_swap p expected b = io_bind (os_put p b (Update expected)) (\<lambda>r. Ret (case r of
     Inr e \<Rightarrow> Inr e
   | Inl OsPrecondition \<Rightarrow> Inl (CasConflict p)
   | Inl OsNotModified \<Rightarrow> Inl (CasConflict p)
   | Inl e \<Rightarrow> Inl (ObjectStore e)))"

definition store_delete :: "path \<Rightarrow> (store_error + unit) io" where
  "store_delete p = io_bind (os_delete p) (\<lambda>r. Ret (case r of
     Inr _ \<Rightarrow> Inr ()
   | Inl OsNotFound \<Rightarrow> Inr ()
   | Inl e \<Rightarrow> Inl (ObjectStore e)))"

definition store_list :: "path \<Rightarrow> (store_error + path list) io" where
  "store_list pre = io_bind (os_list pre) (\<lambda>r. Ret (case r of
     Inr ms \<Rightarrow> Inr (sort (map om_location ms)) | Inl e \<Rightarrow> Inl (ObjectStore e)))"

definition store_list_prefixes :: "path \<Rightarrow> (store_error + path list) io" where
  "store_list_prefixes pre = io_bind (os_list_delim pre) (\<lambda>r. Ret (case r of
     Inr ps \<Rightarrow> Inr (sort ps) | Inl e \<Rightarrow> Inl (ObjectStore e)))"

definition store_list_with_size :: "path \<Rightarrow> (store_error + (path \<times> nat) list) io" where
  "store_list_with_size pre = io_bind (os_list pre) (\<lambda>r. Ret (case r of
     Inr ms \<Rightarrow> Inr (sort_key fst (map (\<lambda>m. (om_location m, om_size m)) ms))
   | Inl e \<Rightarrow> Inl (ObjectStore e)))"

definition store_list_with_age :: "path \<Rightarrow> (store_error + (path \<times> millis) list) io" where
  "store_list_with_age pre = io_bind (os_list pre) (\<lambda>r. Ret (case r of
     Inr ms \<Rightarrow> Inr (sort_key fst (map (\<lambda>m. (om_location m, om_last_modified m)) ms))
   | Inl e \<Rightarrow> Inl (ObjectStore e)))"

definition store_head :: "path \<Rightarrow> (store_error + nat) io" where
  "store_head p = io_bind (os_head p) (\<lambda>r. Ret (case r of
     Inr n \<Rightarrow> Inr n | Inl OsNotFound \<Rightarrow> Inl (NotFound p) | Inl e \<Rightarrow> Inl (ObjectStore e)))"

definition store_exists :: "path \<Rightarrow> (store_error + bool) io" where
  "store_exists p = io_bind (store_head p) (\<lambda>r. Ret (case r of
     Inr _ \<Rightarrow> Inr True | Inl (NotFound _) \<Rightarrow> Inr False | Inl e \<Rightarrow> Inl e))"

section \<open>Laws of programs and histories\<close>

lemma io_bind_assoc: "io_bind (io_bind m f) g = io_bind m (\<lambda>x. io_bind (f x) g)"
  by (induction m) auto

lemma io_bind_Ret [simp]: "io_bind m Ret = m"
  by (induction m) auto

lemma follows_bind:
  "follows (io_bind m f) es x \<longleftrightarrow>
     (\<exists>es1 es2 y. es = es1 @ es2 \<and> follows m es1 y \<and> follows (f y) es2 x)"
proof
  assume "follows (io_bind m f) es x"
  then show "\<exists>es1 es2 y. es = es1 @ es2 \<and> follows m es1 y \<and> follows (f y) es2 x"
  proof (induction m arbitrary: es)
    case (Ret y) then show ?case by (auto intro: exI[of _ "[]"] follows.Ret)
  next
    case (Call q k)
    from Call.prems obtain r es' where es: "es = (q, r) # es'" "follows (io_bind (k r) f) es' x"
      by auto
    from Call.IH[OF rangeI es(2)] obtain es1 es2 y
      where "es' = es1 @ es2" "follows (k r) es1 y" "follows (f y) es2 x" by blast
    with es show ?case by (metis append_Cons follows.Call)
  qed
next
  assume "\<exists>es1 es2 y. es = es1 @ es2 \<and> follows m es1 y \<and> follows (f y) es2 x"
  then obtain es1 es2 y where *: "es = es1 @ es2" "follows m es1 y" "follows (f y) es2 x" by blast
  from *(2) have "follows (io_bind m f) (es1 @ es2) x"
    using *(3) by (induction rule: follows.induct) (auto intro: follows.Call)
  with * show "follows (io_bind m f) es x" by simp
qed

lemma follows_bindE [elim!]:
  assumes "follows (io_bind m f) es x"
  obtains es1 es2 y where "es = es1 @ es2" "follows m es1 y" "follows (f y) es2 x"
  using assms by (auto simp: follows_bind)

lemma follows_try:
  "follows (io_try m f) es x \<longleftrightarrow>
     (\<exists>e. x = Inl e \<and> follows m es (Inl e)) \<or>
     (\<exists>es1 es2 y. es = es1 @ es2 \<and> follows m es1 (Inr y) \<and> follows (f y) es2 x)"
  by (simp add: io_try_def follows_bind split_sum_ex) auto

lemma run_bind [io_simps]: "run (io_bind m f) s = (let (x, s') = run m s in run (f x) s')"
  by (induction m arbitrary: s) (auto simp: split_beta Let_def)

lemma run_try [io_simps]:
  "run (io_try m f) s = (case run m s of (Inl e, s') \<Rightarrow> (Inl e, s') | (Inr x, s') \<Rightarrow> run (f x) s')"
  by (auto simp: io_try_def run_bind split: prod.split sum.split)

lemma io_all_bind [simp]: "io_all P m \<Longrightarrow> (\<And>x. io_all P (f x)) \<Longrightarrow> io_all P (io_bind m f)"
  by (induction m) auto

lemma io_all_try [simp]: "io_all P m \<Longrightarrow> (\<And>x. io_all P (f x)) \<Longrightarrow> io_all P (io_try m f)"
  by (auto simp: io_try_def split: sum.split)

lemma io_all_try_map [simp]: "(\<And>x. io_all P (f x)) \<Longrightarrow> io_all P (io_try_map f xs)"
  by (induction xs) auto

lemma io_all_map_err [simp]: "io_all P m \<Longrightarrow> io_all P (io_map_err f m)"
  by (simp add: io_map_err_def)

lemma io_all_store_ops [simp]:
  "P (ReqGet p None) \<Longrightarrow> io_all P (store_get p)"
  "P (ReqPut p b Create) \<Longrightarrow> io_all P (store_put_if_absent p b)"
  "P (ReqPut p b (Update e)) \<Longrightarrow> io_all P (store_cas_swap p e b)"
  "P (ReqList p) \<Longrightarrow> io_all P (store_list p)"
  "P (ReqDelete p) \<Longrightarrow> io_all P (store_delete p)"
  by (simp_all add: store_get_def store_put_if_absent_def store_cas_swap_def store_list_def
      store_delete_def os_get_def os_put_def os_list_def os_delete_def split: response.split)

lemma follows_io_all: "follows p es x \<Longrightarrow> io_all P p \<Longrightarrow> e \<in> set es \<Longrightarrow> P (fst e)"
  by (induction rule: follows.induct) auto

lemma history_append:
  "history s (es @ fs) s' \<longleftrightarrow> (\<exists>t. history s es t \<and> history t fs s')"
  by (induction es arbitrary: s) (auto intro: history.intros, blast intro: history.intros)

text \<open>The fault-free execution is one of the histories a program can follow.\<close>
lemma follows_trace: "follows p (trace p s) (fst (run p s))"
  by (induction p arbitrary: s) (auto simp: split_beta Let_def intro: follows.intros)

lemma history_trace: "history s (trace p s) (snd (run p s))"
  by (induction p arbitrary: s)
    (auto simp: split_beta Let_def intro!: history.intros intro: store_step.Done[OF prod.collapse[symmetric]])

lemma lookup_write_obj [simp]:
  "lookup_obj (write_obj p b s) p' =
     (if p' = p then Some \<lparr>ob_bytes = b, ob_tag = next_tag s, ob_modified = clock s\<rparr> else lookup_obj s p')"
  by (simp add: lookup_obj_def write_obj_def)

lemma lookup_remove_obj [simp]:
  "lookup_obj (remove_obj p s) p' = (if p' = p then None else lookup_obj s p')"
  by (simp add: lookup_obj_def remove_obj_def)

lemma tag_etag_inj [simp]: "(tag_etag a = tag_etag b) = (a = b)"
  by (auto simp: tag_etag_def replicate_eq_replicate)

lemmas store_ops = store_get_def store_get_if_modified_def store_get_immutable_def store_put_def
  store_put_admitting_def store_put_if_absent_def store_cas_swap_def store_delete_def store_list_def
  store_list_prefixes_def store_list_with_size_def store_list_with_age_def store_head_def
  store_exists_def os_get_def os_put_def os_delete_def os_list_def os_list_delim_def os_head_def
  cache_get_def cache_put_def io_now_def

end
