(* ===== verification/Manifest.thy ===== *)
theory Manifest
  imports Core_Lib Text_Format
begin

text \<open>
  The manifest (\<open>mlake-core/src/manifest.rs\<close>): the generation files of a fact type, segments, the
  manifest record with its queries, the version check on read, and the object keys of a
  namespace. The JSON encoding is \<open>serde_json\<close>'s and enters as a codec.
\<close>

section \<open>Definitions\<close>

definition FORMAT_VERSION :: nat where "FORMAT_VERSION = 6"

record generation_files =
  gf_pk :: string
  gf_centroids :: string
  gf_clusters :: "string list"
  gf_vectors :: "string list"
  gf_radj_data :: string
  gf_radj_idx :: string
  gf_fts_split :: string
  gf_stats :: string
  gf_pk_data :: string
  gf_tag_summary :: string
  gf_entity_idx :: string
  gf_entity_data :: string
  gf_time_idx :: string
  gf_time_data :: string
  gf_created_idx :: string
  gf_created_data :: string
  gf_payload_idx :: string
  gf_payload_data :: string
  gf_rerank_idx :: string
  gf_rerank_data :: string

definition gf_all_paths :: "generation_files \<Rightarrow> string list" where
  "gf_all_paths f = filter (\<lambda>s. s \<noteq> [])
     ([gf_pk f, gf_pk_data f, gf_centroids f, gf_radj_data f, gf_radj_idx f, gf_fts_split f,
       gf_stats f, gf_tag_summary f, gf_entity_idx f, gf_entity_data f, gf_time_idx f,
       gf_time_data f, gf_created_idx f, gf_created_data f, gf_payload_idx f, gf_payload_data f,
       gf_rerank_idx f, gf_rerank_data f]
      @ gf_clusters f @ gf_vectors f)"

record fact_type_index =
  fi_files :: generation_files
  fi_train_count :: nat

definition fi_all_paths :: "fact_type_index \<Rightarrow> string list" where
  "fi_all_paths i = gf_all_paths (fi_files i)"

record segment =
  sg_id :: string
  sg_level :: nat
  sg_seq_lo :: nat
  sg_seq_hi :: nat
  sg_doc_count :: nat
  sg_indexes :: "(u8, fact_type_index) btree"
  sg_tombstones :: string

definition sg_all_paths :: "segment \<Rightarrow> string list" where
  "sg_all_paths s = filter (\<lambda>p. p \<noteq> [])
     (concat (map (\<lambda>(_, i). fi_all_paths i) (sg_indexes s)) @ [sg_tombstones s])"

definition sg_memory_types :: "segment \<Rightarrow> u8 list" where
  "sg_memory_types s = map fst (sg_indexes s)"

definition sg_index :: "segment \<Rightarrow> u8 \<Rightarrow> fact_type_index option" where
  "sg_index s t = map_of (sg_indexes s) t"

record manifest =
  mf_format_version :: nat
  mf_version :: nat
  mf_wal_index_cursor :: nat
  mf_wal_head :: nat
  mf_tokenizer_config_hash :: string
  mf_prev_wal_index_cursor :: nat
  mf_segments :: "segment list"
  mf_prev_segments :: "segment list"
  mf_indexed_metadata_keys :: "string list"

definition manifest_empty :: "string \<Rightarrow> string list \<Rightarrow> manifest" where
  "manifest_empty hash keys = \<lparr>
     mf_format_version = FORMAT_VERSION,
     mf_version = 0,
     mf_wal_index_cursor = 0,
     mf_wal_head = 0,
     mf_tokenizer_config_hash = hash,
     mf_prev_wal_index_cursor = 0,
     mf_segments = [],
     mf_prev_segments = [],
     mf_indexed_metadata_keys = keys\<rparr>"

text \<open>\<open>iter.find_map(f)\<close>.\<close>
fun find_map :: "('a \<Rightarrow> 'b option) \<Rightarrow> 'a list \<Rightarrow> 'b option" where
  "find_map f [] = None"
| "find_map f (x # xs) = (case f x of Some y \<Rightarrow> Some y | None \<Rightarrow> find_map f xs)"

definition mf_index :: "manifest \<Rightarrow> u8 \<Rightarrow> fact_type_index option" where
  "mf_index m t = find_map (\<lambda>s. sg_index s t) (mf_segments m)"

definition mf_memory_types :: "manifest \<Rightarrow> u8 list" where
  "mf_memory_types m = sort_dedup (concat (map sg_memory_types (mf_segments m)))"

definition mf_is_empty :: "manifest \<Rightarrow> bool" where
  "mf_is_empty m = list_all (\<lambda>s. sg_indexes s = []) (mf_segments m)"

definition mf_doc_count :: "manifest \<Rightarrow> nat" where
  "mf_doc_count m = sum_list (map sg_doc_count (mf_segments m))"

definition all_referenced_paths :: "manifest \<Rightarrow> string list" where
  "all_referenced_paths m = concat (map sg_all_paths (mf_segments m @ mf_prev_segments m))"

text \<open>\<open>saturating_sub\<close> is truncated subtraction.\<close>
definition index_lag :: "manifest \<Rightarrow> nat" where
  "index_lag m = mf_wal_head m - mf_wal_index_cursor m"

definition manifest_from_bytes :: "manifest codec \<Rightarrow> bytes \<Rightarrow> core_error + manifest" where
  "manifest_from_bytes c bs = (case decode c bs of
     None \<Rightarrow> Inl Json
   | Some m \<Rightarrow> if mf_format_version m \<noteq> FORMAT_VERSION
       then Inl (FormatVersion (mf_format_version m) FORMAT_VERSION)
       else Inr m)"

definition manifest_path :: "string \<Rightarrow> string" where
  "manifest_path ns = ns @ ''/manifest.json''"

definition wal_head_pointer_path :: "string \<Rightarrow> string" where
  "wal_head_pointer_path ns = ns @ ''/wal-head''"

definition wal_path :: "string \<Rightarrow> nat \<Rightarrow> string" where
  "wal_path ns seq = ns @ ''/wal/'' @ show_padded 20 seq @ ''.bin''"

definition segment_prefix :: "string \<Rightarrow> string \<Rightarrow> string" where
  "segment_prefix ns seg_id = ns @ ''/seg-'' @ seg_id"

section \<open>Facts\<close>

lemma u64_fits_20: "seq < U64_LIMIT \<Longrightarrow> seq < 10 ^ 20"
  by (simp add: U64_LIMIT_def)

lemma wal_path_fixed:
  "seq < U64_LIMIT \<Longrightarrow> wal_path ns seq = ns @ ''/wal/'' @ fixed_digits 20 seq @ ''.bin''"
  using show_padded_fixed[OF u64_fits_20] by (simp add: wal_path_def)

lemma list_less_same_prefix [simp]: "(p @ xs < p @ ys) = (xs < (ys :: 'a::linorder list))"
  by (induction p) auto

lemma list_less_same_length_append:
  "length xs = length ys \<Longrightarrow> (xs @ zs < ys @ zs) = (xs < (ys :: 'a::linorder list))"
  by (induction xs ys rule: list_induct2) (auto simp: Cons_less_Cons)

lemma wal_path_less:
  assumes "a < U64_LIMIT" and "b < U64_LIMIT"
  shows "(wal_path ns a < wal_path ns b) = (a < b)"
  using fixed_digits_less_iff[OF u64_fits_20[OF assms(1)] u64_fits_20[OF assms(2)]]
  by (simp add: wal_path_fixed assms list_less_same_length_append)

text \<open>The zero-padded WAL keys of a namespace sort like the sequences they name, over the whole
  \<open>u64\<close> range; so the last key of a sorted listing is the log's head.\<close>
theorem wal_path_order:
  assumes "a < U64_LIMIT" and "b < U64_LIMIT"
  shows "(wal_path ns a < wal_path ns b) = (a < b)"
  using assms by (rule wal_path_less)

theorem wal_path_order_witness:
  "wal_path ''ns'' 99999999 < wal_path ''ns'' 100000000"
  by (subst wal_path_order) (simp_all add: U64_LIMIT_def)

text \<open>Reading a manifest succeeds exactly on a decodable manifest of this build's format version;
  a decodable manifest of any other version is refused with both version numbers.\<close>
theorem manifest_from_bytes_checks:
  assumes "codec_ok c" and "encode c m = Some bs"
  shows "manifest_from_bytes c bs =
    (if mf_format_version m = FORMAT_VERSION then Inr m
     else Inl (FormatVersion (mf_format_version m) FORMAT_VERSION))"
  using codec_okD[OF assms] by (simp add: manifest_from_bytes_def)

lemma set_sg_all_paths:
  "set (sg_all_paths s) =
     {p. p \<noteq> [] \<and> (p = sg_tombstones s \<or> (\<exists>(t, i) \<in> set (sg_indexes s). p \<in> set (fi_all_paths i)))}"
  by (auto simp: sg_all_paths_def)

text \<open>Every path a live or grace-window segment names is referenced.\<close>
lemma all_referenced_iff:
  "p \<in> set (all_referenced_paths m) \<longleftrightarrow>
     p \<noteq> [] \<and> (\<exists>s \<in> set (mf_segments m) \<union> set (mf_prev_segments m).
       p = sg_tombstones s \<or> (\<exists>(t, i) \<in> set (sg_indexes s). p \<in> set (fi_all_paths i)))"
  by (simp add: all_referenced_paths_def set_sg_all_paths) blast

theorem manifest_from_bytes_checks_witness:
  "manifest_from_bytes (table_codec [((manifest_empty ''h'' [])\<lparr>mf_format_version := 5\<rparr>, [1])]) [1]
     = Inl (FormatVersion 5 FORMAT_VERSION)"
proof -
  let ?m = "(manifest_empty ''h'' [])\<lparr>mf_format_version := 5\<rparr>"
  have c: "codec_ok (table_codec [(?m, [1])])" by (rule table_codec_ok) simp
  have e: "encode (table_codec [(?m, [1])]) ?m = Some [1]" by (simp add: table_codec_def)
  have "mf_format_version ?m = 5" by simp
  with manifest_from_bytes_checks[OF c e] show ?thesis by (simp only: FORMAT_VERSION_def) simp
qed

end
