(* ===== verification/Wal_Format.thy ===== *)
theory Wal_Format
  imports Predicates
begin

text \<open>
  The WAL entry format (\<open>mlake-core/src/wal.rs\<close>): partial updates (deltas) and their application
  to a stored memory, the operations of an entry, and the proof-count fold. The \<open>rkyv\<close> byte codec
  of an entry is third-party code; it appears as a parameter of the log (theory \<open>Wal_Log\<close>).
\<close>

section \<open>Definitions\<close>

datatype delta =
    ProofCount int
  | SetText string
  | SetVector "f32 list"
  | SetTags "string list"
  | SetEntityIds "entity_id list"
  | SetTimestamps timestamps
  | MergeMetadata "(string \<times> string) list"
  | Touch millis
  | MergeTimestamps timestamps

definition U32_MAX :: int where "U32_MAX = 2 ^ 32 - 1"

text \<open>\<open>x.clamp(0, u32::MAX as i64) as u32\<close>.\<close>
definition clamp_u32 :: "int \<Rightarrow> u32" where
  "clamp_u32 x = word_of_int (max 0 (min x U32_MAX))"

text \<open>Replace the value of the first pair with key \<open>k\<close>, or push the pair at the end.\<close>
fun upsert_pair :: "'k \<Rightarrow> 'v \<Rightarrow> ('k \<times> 'v) list \<Rightarrow> ('k \<times> 'v) list" where
  "upsert_pair k v [] = [(k, v)]"
| "upsert_pair k v ((ek, ev) # rest) =
     (if ek = k then (ek, v) # rest else (ek, ev) # upsert_pair k v rest)"

definition merge_metadata :: "(string \<times> string) list \<Rightarrow> (string \<times> string) list \<Rightarrow> (string \<times> string) list" where
  "merge_metadata cur pairs = sort_key fst (fold (\<lambda>(k, v) md. upsert_pair k v md) pairs cur)"

definition merge_timestamps :: "timestamps \<Rightarrow> timestamps \<Rightarrow> timestamps" where
  "merge_timestamps ts cur = \<lparr>
     event_date = opt_or (event_date ts) (event_date cur),
     occurred_start = opt_or (occurred_start ts) (occurred_start cur),
     occurred_end = opt_or (occurred_end ts) (occurred_end cur),
     mentioned_at = opt_or (mentioned_at ts) (mentioned_at cur),
     updated_at = opt_or (updated_at ts) (updated_at cur)\<rparr>"

fun apply_delta :: "delta \<Rightarrow> stored_memory \<Rightarrow> stored_memory" where
  "apply_delta (ProofCount n) item =
     item\<lparr>sm_proof_count := clamp_u32 (uint (sm_proof_count item) + n)\<rparr>"
| "apply_delta (SetText t) item = item\<lparr>sm_text := t\<rparr>"
| "apply_delta (SetVector v) item = item\<lparr>sm_vector := v\<rparr>"
| "apply_delta (SetTags t) item = item\<lparr>sm_tags := t\<rparr>"
| "apply_delta (SetEntityIds e) item = item\<lparr>sm_entity_ids := sort_dedup e\<rparr>"
| "apply_delta (SetTimestamps ts) item = item\<lparr>sm_timestamps := ts\<rparr>"
| "apply_delta (Touch t) item =
     item\<lparr>sm_timestamps := (sm_timestamps item)\<lparr>updated_at := Some t\<rparr>\<rparr>"
| "apply_delta (MergeTimestamps ts) item =
     item\<lparr>sm_timestamps := merge_timestamps ts (sm_timestamps item)\<rparr>"
| "apply_delta (MergeMetadata pairs) item =
     item\<lparr>sm_metadata := merge_metadata (sm_metadata item) pairs\<rparr>"

definition apply_deltas :: "stored_memory \<Rightarrow> delta list \<Rightarrow> stored_memory" where
  "apply_deltas item deltas = fold apply_delta deltas item"

datatype op =
    Upsert memory
  | Tombstone memory_id
  | Patch memory_id "delta list"
  | TombstoneWhere predicate
  | Guard nat

record wal_entry =
  we_seq :: nat
  we_ops :: "op list"

definition wal_entry_new :: "nat \<Rightarrow> op list \<Rightarrow> wal_entry" where
  "wal_entry_new seq ops = \<lparr>we_seq = seq, we_ops = ops\<rparr>"

fun proof_delta :: "delta \<Rightarrow> int" where
  "proof_delta (ProofCount n) = n"
| "proof_delta _ = 0"

definition fold_proof_count :: "u32 \<Rightarrow> delta list \<Rightarrow> u32" where
  "fold_proof_count start deltas = clamp_u32 (fold (\<lambda>d acc. acc + proof_delta d) deltas (uint start))"

section \<open>Facts\<close>

lemma U32_MAX_eq: "U32_MAX = 4294967295"
  by (simp add: U32_MAX_def)

lemma uint_clamp_u32: "uint (clamp_u32 x) = max 0 (min x U32_MAX)"
  by (simp add: clamp_u32_def U32_MAX_eq uint_word_of_int take_bit_eq_mod)

lemma clamp_u32_uint [simp]: "clamp_u32 (uint (w :: u32)) = w"
proof -
  have "uint w < 2 ^ 32" "0 \<le> uint w" using unsigned_less[of w] by auto
  then show ?thesis by (simp add: clamp_u32_def U32_MAX_eq)
qed

lemma apply_deltas_Nil [simp]: "apply_deltas m [] = m"
  and apply_deltas_Cons [simp]: "apply_deltas m (d # ds) = apply_deltas (apply_delta d m) ds"
  and apply_deltas_append [simp]: "apply_deltas m (ds @ es) = apply_deltas (apply_deltas m ds) es"
  by (simp_all add: apply_deltas_def)

lemma apply_delta_frame [simp]:
  "sm_id (apply_delta d m) = sm_id m"
  "sm_memory_type (apply_delta d m) = sm_memory_type m"
  "sm_write_seq (apply_delta d m) = sm_write_seq m"
  "sm_index_text (apply_delta d m) = sm_index_text m"
  "sm_semantic_out (apply_delta d m) = sm_semantic_out m"
  "sm_causal_out (apply_delta d m) = sm_causal_out m"
  by (cases d; simp)+

lemma apply_deltas_frame [simp]:
  "sm_id (apply_deltas m ds) = sm_id m"
  "sm_memory_type (apply_deltas m ds) = sm_memory_type m"
  "sm_write_seq (apply_deltas m ds) = sm_write_seq m"
  "sm_index_text (apply_deltas m ds) = sm_index_text m"
  "sm_semantic_out (apply_deltas m ds) = sm_semantic_out m"
  "sm_causal_out (apply_deltas m ds) = sm_causal_out m"
  by (induction ds arbitrary: m; simp)+

lemma map_of_upsert_pair [simp]: "map_of (upsert_pair k v xs) = (map_of xs)(k \<mapsto> v)"
  by (induction k v xs rule: upsert_pair.induct) auto

lemma map_of_fold_upsert:
  "map_of (fold (\<lambda>(k, v) md. upsert_pair k v md) ps cur) = map_of cur ++ map_of (rev ps)"
  by (induction ps arbitrary: cur) (auto simp: map_add_def fun_eq_iff split: option.splits)

lemma keys_upsert_pair: "map fst (upsert_pair k v xs) = (if k \<in> fst ` set xs then map fst xs else map fst xs @ [k])"
  by (induction k v xs rule: upsert_pair.induct) auto

lemma distinct_keys_fold_upsert:
  "distinct (map fst cur) \<Longrightarrow> distinct (map fst (fold (\<lambda>(k, v) md. upsert_pair k v md) ps cur))"
  by (induction ps arbitrary: cur) (auto simp: keys_upsert_pair)

lemma stored_wf_apply_delta: "stored_wf m \<Longrightarrow> stored_wf (apply_delta d m)"
  by (cases d) (auto simp: stored_wf_def strict_sorted_sort_dedup merge_metadata_def)

lemma stored_wf_apply_deltas: "stored_wf m \<Longrightarrow> stored_wf (apply_deltas m ds)"
  by (induction ds arbitrary: m) (simp_all add: stored_wf_apply_delta)

text \<open>C40. Every item the write path produces keeps the storage invariant (entity ids strictly
  ascending, metadata sorted by key), whatever deltas are applied to it.\<close>
theorem patched_item_wf: "stored_wf (apply_deltas (into_stored m) ds)"
  by (rule stored_wf_apply_deltas[OF stored_wf_into_stored])

text \<open>A metadata patch is a key-wise merge: after it, a key maps to the last value the patch
  gives it, and every other key keeps its value.\<close>
theorem merge_metadata_lookup:
  "map_of (sm_metadata (apply_delta (MergeMetadata ps) m)) = map_of (sm_metadata m) ++ map_of (rev ps)"
  by (simp add: merge_metadata_def map_of_fold_upsert)

lemma merge_metadata_distinct:
  "distinct (map fst (sm_metadata m)) \<Longrightarrow> distinct (map fst (sm_metadata (apply_delta (MergeMetadata ps) m)))"
proof -
  have "distinct (map fst (sort_key fst xs)) = distinct (map fst xs)" for xs :: "(string \<times> string) list"
    by (rule mset_eq_imp_distinct_iff) simp
  moreover assume "distinct (map fst (sm_metadata m))"
  ultimately show ?thesis by (simp add: merge_metadata_def distinct_keys_fold_upsert)
qed

text \<open>The partial sums of a delta list, the values the stepwise clamp sees.\<close>
fun in_range :: "int \<Rightarrow> delta list \<Rightarrow> bool" where
  "in_range acc [] = True"
| "in_range acc (d # ds) = (0 \<le> acc + proof_delta d \<and> acc + proof_delta d \<le> U32_MAX
     \<and> in_range (acc + proof_delta d) ds)"

lemma apply_deltas_proof_count_aux:
  "in_range (uint (sm_proof_count m)) ds \<Longrightarrow>
   uint (sm_proof_count (apply_deltas m ds)) = fold (\<lambda>d acc. acc + proof_delta d) ds (uint (sm_proof_count m))"
proof (induction ds arbitrary: m)
  case (Cons d ds)
  have "uint (sm_proof_count (apply_delta d m)) = uint (sm_proof_count m) + proof_delta d"
    using Cons.prems by (cases d) (auto simp: uint_clamp_u32)
  with Cons show ?case by simp
qed simp

text \<open>As long as no intermediate count leaves the \<open>u32\<close> range, applying the deltas one by one
  gives the proof count that the one-shot fold computes.\<close>
theorem proof_count_stepwise_eq_fold:
  assumes "in_range (uint (sm_proof_count m)) ds"
  shows "sm_proof_count (apply_deltas m ds) = fold_proof_count (sm_proof_count m) ds"
  by (metis apply_deltas_proof_count_aux[OF assms] clamp_u32_uint fold_proof_count_def)

theorem proof_count_stepwise_eq_fold_witness:
  "sm_proof_count (apply_deltas (into_stored (plain_memory (MemoryId [1]) [] [])) [ProofCount 3, ProofCount (-2)])
   = fold_proof_count 0 [ProofCount 3, ProofCount (-2)]"
  using proof_count_stepwise_eq_fold[of "into_stored (plain_memory (MemoryId [1]) [] [])"
      "[ProofCount 3, ProofCount (-2)]"]
  by (simp add: into_stored_def plain_memory_def U32_MAX_eq)

text \<open>Where the count does leave the range the deltas do not commute: decrementing and then
  incrementing a zero count gives one, the other order gives zero, and the one-shot fold gives
  zero for both orders.\<close>
theorem proof_count_order_matters:
  "sm_proof_count (apply_deltas (into_stored (plain_memory i t [])) [ProofCount (-1), ProofCount 1]) = 1
   \<and> sm_proof_count (apply_deltas (into_stored (plain_memory i t [])) [ProofCount 1, ProofCount (-1)]) = 0
   \<and> fold_proof_count 0 [ProofCount (-1), ProofCount 1] = 0
   \<and> fold_proof_count 0 [ProofCount 1, ProofCount (-1)] = 0"
  by (simp add: into_stored_def plain_memory_def fold_proof_count_def clamp_u32_def U32_MAX_eq)

end
