(* ===== verification/Wal_Log.thy ===== *)
theory Wal_Log
  imports Store Manifest Wal_Format
begin

text \<open>
  A namespace and its write path (\<open>mlake-wal/src/lib.rs\<close>, \<open>commit.rs\<close>): manifest reads and
  swaps, head discovery, the log listing, and the writer that claims WAL sequences by conditional
  create and publishes the head pointer. Manifests and entries are encoded by third-party codecs,
  parameters \<open>mc\<close> and \<open>wc\<close> below.
\<close>

section \<open>Namespace\<close>

datatype wal_error =
    WStore store_error
  | WCore core_error
  | WJson
  | CommitRetriesExhausted nat
  | GuardFailed nat nat
  | NoManifest string

definition wal_is_conflict :: "wal_error \<Rightarrow> bool" where
  "wal_is_conflict e = (case e of WStore s \<Rightarrow> is_conflict s | _ \<Rightarrow> False)"

definition parse_wal_seq :: "string \<Rightarrow> nat option" where
  "parse_wal_seq p = (case strip_suffix ''.bin'' (last_segment p) of
     None \<Rightarrow> None | Some s \<Rightarrow> parse_u64 s)"

definition seq_path :: "string \<Rightarrow> nat \<Rightarrow> string" where
  "seq_path ns seq = wal_path ns seq"

definition head_pointer_bytes :: "nat \<Rightarrow> bytes" where
  "head_pointer_bytes seq = ascii_bytes (show_nat seq)"

definition parse_head_pointer :: "bytes \<Rightarrow> nat option" where
  "parse_head_pointer bs = (case ascii_text bs of None \<Rightarrow> None | Some s \<Rightarrow> parse_u64 (trim s))"

definition read_manifest :: "manifest codec \<Rightarrow> string \<Rightarrow> (wal_error + manifest \<times> etag option) io" where
  "read_manifest mc ns =
     io_try (io_map_err (\<lambda>e. case e of NotFound _ \<Rightarrow> NoManifest ns | other \<Rightarrow> WStore other)
              (store_get (manifest_path ns)))
       (\<lambda>v. Ret (case manifest_from_bytes mc (v_bytes v) of
          Inl e \<Rightarrow> Inl (WCore e) | Inr m \<Rightarrow> Inr (m, v_etag v)))"

definition create_if_absent ::
    "manifest codec \<Rightarrow> string \<Rightarrow> string \<Rightarrow> string list \<Rightarrow> (wal_error + manifest) io" where
  "create_if_absent mc ns hash keys =
     (let manifest = manifest_empty hash keys in
      case encode mc manifest of
        None \<Rightarrow> Ret (Inl WJson)
      | Some bs \<Rightarrow> io_bind (store_put_if_absent (manifest_path ns) bs) (\<lambda>r. case r of
            Inr _ \<Rightarrow> Ret (Inr manifest)
          | Inl e \<Rightarrow> if is_conflict e then io_try (read_manifest mc ns) (\<lambda>(m, _). Ret (Inr m))
                     else Ret (Inl (WStore e))))"

definition delete_all :: "string \<Rightarrow> (wal_error + nat) io" where
  "delete_all ns = io_map_err WStore
     (io_try (store_delete (manifest_path ns)) (\<lambda>_.
      io_try (store_list (ns @ ''/'')) (\<lambda>paths.
      io_try (io_try_map store_delete paths) (\<lambda>_. Ret (Inr (length paths + 1))))))"

definition swap_manifest :: "manifest codec \<Rightarrow> string \<Rightarrow> etag \<Rightarrow> manifest \<Rightarrow> (wal_error + etag) io" where
  "swap_manifest mc ns expected nxt = (case encode mc nxt of
     None \<Rightarrow> Ret (Inl WJson)
   | Some bs \<Rightarrow> io_try (io_map_err WStore (store_cas_swap (manifest_path ns) expected bs))
       (\<lambda>e. Ret (Inr (case e of Some t \<Rightarrow> t | None \<Rightarrow> Etag []))))"

definition wal_head :: "string \<Rightarrow> (wal_error + nat) io" where
  "wal_head ns = io_try (io_map_err WStore (store_list (ns @ ''/wal/''))) (\<lambda>paths.
     Ret (Inr (case paths of [] \<Rightarrow> 0
       | _ \<Rightarrow> (case parse_wal_seq (last paths) of Some n \<Rightarrow> n | None \<Rightarrow> 0))))"

definition read_head_pointer :: "string \<Rightarrow> (wal_error + nat option) io" where
  "read_head_pointer ns = io_bind (store_get (wal_head_pointer_path ns)) (\<lambda>r. Ret (case r of
     Inr v \<Rightarrow> Inr (parse_head_pointer (v_bytes v))
   | Inl (NotFound _) \<Rightarrow> Inr None
   | Inl e \<Rightarrow> Inl (WStore e)))"

definition resolve_head :: "string \<Rightarrow> (wal_error + nat) io" where
  "resolve_head ns = io_try (read_head_pointer ns) (\<lambda>h. case h of
     Some n \<Rightarrow> Ret (Inr n) | None \<Rightarrow> wal_head ns)"

record wal_object =
  wo_seq :: nat
  wo_size_bytes :: nat

definition list_wal :: "string \<Rightarrow> nat \<Rightarrow> nat \<Rightarrow> (wal_error + wal_object list \<times> nat option) io" where
  "list_wal ns start_seq limit =
     io_try (io_map_err WStore (store_list_with_size (ns @ ''/wal/''))) (\<lambda>listed.
       let objs = sort_key wo_seq (filter (\<lambda>ob. start_seq \<le> wo_seq ob)
             (List.map_filter (\<lambda>(p, sz). map_option (\<lambda>s. \<lparr>wo_seq = s, wo_size_bytes = sz\<rparr>) (parse_wal_seq p)) listed))
       in Ret (Inr (take limit objs,
            if limit < length objs then Some (wo_seq (objs ! limit)) else None)))"

definition entry_from_bytes :: "wal_entry codec \<Rightarrow> bytes \<Rightarrow> wal_error + wal_entry" where
  "entry_from_bytes wc bs = (case decode wc bs of None \<Rightarrow> Inl (WCore Decode) | Some e \<Rightarrow> Inr e)"

definition read_wal_entry :: "wal_entry codec \<Rightarrow> string \<Rightarrow> nat \<Rightarrow> (wal_error + wal_entry) io" where
  "read_wal_entry wc ns seq =
     io_try (io_map_err WStore (store_get_immutable (seq_path ns seq)))
       (\<lambda>bs. Ret (entry_from_bytes wc bs))"

section \<open>Writer\<close>

definition MAX_CLAIM_ATTEMPTS :: nat where "MAX_CLAIM_ATTEMPTS = 32"

record commit_result =
  cr_seq :: nat
  cr_attempts :: nat

record writer =
  wr_ns :: string
  wr_next_seq :: "nat option"
  wr_head_etag :: "etag option"

definition writer_new :: "string \<Rightarrow> writer" where
  "writer_new ns = \<lparr>wr_ns = ns, wr_next_seq = None, wr_head_etag = None\<rparr>"

definition cold_next_seq :: "manifest codec \<Rightarrow> string \<Rightarrow> (wal_error + nat) io" where
  "cold_next_seq mc ns =
     io_try (wal_head ns) (\<lambda>listed.
     io_bind (read_manifest mc ns) (\<lambda>r. Ret (case r of
         Inr (m, _) \<Rightarrow> Inr (max listed (mf_wal_head m) + 1)
       | Inl (NoManifest _) \<Rightarrow> Inr (max listed 0 + 1)
       | Inl e \<Rightarrow> Inl e)))"

text \<open>The bump loop, with the number of attempts left.\<close>
fun bump_loop :: "nat \<Rightarrow> nat \<Rightarrow> writer \<Rightarrow> ((wal_error + unit) \<times> writer) io" where
  "bump_loop 0 seq w = Ret (Inl (CommitRetriesExhausted MAX_CLAIM_ATTEMPTS), w)"
| "bump_loop (Suc n) seq w =
     (let path = wal_head_pointer_path (wr_ns w); payload = head_pointer_bytes seq in
      case wr_head_etag w of
        Some etag \<Rightarrow> io_bind (store_cas_swap path etag payload) (\<lambda>r. case r of
            Inr new \<Rightarrow> Ret (Inr (), w\<lparr>wr_head_etag := new\<rparr>)
          | Inl e \<Rightarrow> if is_conflict e then bump_loop n seq (w\<lparr>wr_head_etag := None\<rparr>)
                     else Ret (Inl (WStore e), w))
      | None \<Rightarrow> io_bind (store_get path) (\<lambda>r. case r of
            Inr v \<Rightarrow>
              (if (case parse_head_pointer (v_bytes v) of Some cur \<Rightarrow> seq \<le> cur | None \<Rightarrow> False)
               then Ret (Inr (), w\<lparr>wr_head_etag := v_etag v\<rparr>)
               else case v_etag v of
                 Some etag \<Rightarrow> io_bind (store_cas_swap path etag payload) (\<lambda>r. case r of
                     Inr new \<Rightarrow> Ret (Inr (), w\<lparr>wr_head_etag := new\<rparr>)
                   | Inl e \<Rightarrow> if is_conflict e then bump_loop n seq (w\<lparr>wr_head_etag := None\<rparr>)
                              else Ret (Inl (WStore e), w))
               | None \<Rightarrow> Ret (Inr (), w))
          | Inl (NotFound _) \<Rightarrow> io_bind (store_put_if_absent path payload) (\<lambda>r. case r of
                Inr etag \<Rightarrow> Ret (Inr (), w\<lparr>wr_head_etag := etag\<rparr>)
              | Inl (AlreadyExists _) \<Rightarrow> bump_loop n seq (w\<lparr>wr_head_etag := None\<rparr>)
              | Inl e \<Rightarrow> Ret (Inl (WStore e), w))
          | Inl e \<Rightarrow> Ret (Inl (WStore e), w)))"

definition bump_head_pointer :: "nat \<Rightarrow> writer \<Rightarrow> ((wal_error + unit) \<times> writer) io" where
  "bump_head_pointer seq w = bump_loop MAX_CLAIM_ATTEMPTS seq w"

definition ops_guard :: "op list \<Rightarrow> nat option" where
  "ops_guard ops = find_map (\<lambda>op. case op of Guard s \<Rightarrow> Some s | _ \<Rightarrow> None) ops"

text \<open>The claim loop: \<open>n\<close> attempts left of \<^const>\<open>MAX_CLAIM_ATTEMPTS\<close>.\<close>
fun claim_loop ::
    "wal_entry codec \<Rightarrow> nat \<Rightarrow> op list \<Rightarrow> nat \<Rightarrow> writer \<Rightarrow> ((wal_error + commit_result) \<times> writer) io" where
  "claim_loop wc 0 ops seq w =
     Ret (Inl (CommitRetriesExhausted MAX_CLAIM_ATTEMPTS), w\<lparr>wr_next_seq := None\<rparr>)"
| "claim_loop wc (Suc n) ops seq w =
     (if (case ops_guard ops of Some expected \<Rightarrow> expected \<le> seq | None \<Rightarrow> False)
      then Ret (Inl (GuardFailed (the (ops_guard ops)) seq), w\<lparr>wr_next_seq := None\<rparr>)
      else case encode wc (wal_entry_new seq ops) of
        None \<Rightarrow> Ret (Inl (WCore Encode), w)
      | Some bs \<Rightarrow> io_bind (store_put_if_absent (seq_path (wr_ns w) seq) bs) (\<lambda>r. case r of
            Inr _ \<Rightarrow> io_bind (bump_head_pointer seq (w\<lparr>wr_next_seq := Some (seq + 1)\<rparr>)) (\<lambda>(b, w'). Ret (case b of
                Inl e \<Rightarrow> (Inl e, w')
              | Inr _ \<Rightarrow> (Inr \<lparr>cr_seq = seq, cr_attempts = MAX_CLAIM_ATTEMPTS - n\<rparr>, w')))
          | Inl (AlreadyExists _) \<Rightarrow> io_bind (wal_head (wr_ns w)) (\<lambda>h. case h of
                Inl e \<Rightarrow> Ret (Inl e, w)
              | Inr head \<Rightarrow> claim_loop wc n ops (head + 1) w)
          | Inl e \<Rightarrow> Ret (Inl (WStore e), w)))"

definition commit ::
    "manifest codec \<Rightarrow> wal_entry codec \<Rightarrow> op list \<Rightarrow> writer \<Rightarrow> ((wal_error + commit_result) \<times> writer) io" where
  "commit mc wc ops w =
     (if ops = [] then io_bind (wal_head (wr_ns w)) (\<lambda>h. Ret (case h of
          Inl e \<Rightarrow> (Inl e, w) | Inr head \<Rightarrow> (Inr \<lparr>cr_seq = head, cr_attempts = 0\<rparr>, w)))
      else case wr_next_seq w of
        Some s \<Rightarrow> claim_loop wc MAX_CLAIM_ATTEMPTS ops s w
      | None \<Rightarrow> io_bind (cold_next_seq mc (wr_ns w)) (\<lambda>c. case c of
            Inl e \<Rightarrow> Ret (Inl e, w)
          | Inr s \<Rightarrow> claim_loop wc MAX_CLAIM_ATTEMPTS ops s w))"

text \<open>Encode the batches against consecutive sequences.\<close>
fun encode_entries :: "wal_entry codec \<Rightarrow> nat \<Rightarrow> op list list \<Rightarrow> (nat \<times> bytes) list option" where
  "encode_entries wc seq [] = Some []"
| "encode_entries wc seq (ops # rest) = (case encode wc (wal_entry_new seq ops) of
     None \<Rightarrow> None
   | Some bs \<Rightarrow> map_option (\<lambda>es. (seq, bs) # es) (encode_entries wc (seq + 1) rest))"

text \<open>The bulk path. The puts are pipelined in the code; they target distinct keys, and the model
  issues them in sequence order, one schedule of the stream.\<close>
definition commit_many_from ::
    "wal_entry codec \<Rightarrow> op list list \<Rightarrow> nat \<Rightarrow> writer \<Rightarrow> ((wal_error + nat list) \<times> writer) io" where
  "commit_many_from wc non_empty start w = (case encode_entries wc start non_empty of
     None \<Rightarrow> Ret (Inl (WCore Encode), w)
   | Some entries \<Rightarrow>
       io_bind (io_try_map (\<lambda>(seq, bs). store_put_if_absent (seq_path (wr_ns w) seq) bs) entries) (\<lambda>r. case r of
         Inr _ \<Rightarrow> io_bind (bump_head_pointer (start + length entries - 1)
               (w\<lparr>wr_next_seq := Some (start + length entries)\<rparr>)) (\<lambda>(b, w'). Ret (case b of
             Inl e \<Rightarrow> (Inl e, w')
           | Inr _ \<Rightarrow> (Inr [start..<start + length entries], w')))
       | Inl e \<Rightarrow> Ret (Inl (WStore e), w\<lparr>wr_next_seq := None, wr_head_etag := None\<rparr>)))"

definition commit_many ::
    "manifest codec \<Rightarrow> wal_entry codec \<Rightarrow> op list list \<Rightarrow> writer \<Rightarrow> ((wal_error + nat list) \<times> writer) io" where
  "commit_many mc wc batches w =
     (let non_empty = filter (\<lambda>b. b \<noteq> []) batches in
      if non_empty = [] then Ret (Inr [], w)
      else case wr_next_seq w of
        Some s \<Rightarrow> commit_many_from wc non_empty s w
      | None \<Rightarrow> io_bind (cold_next_seq mc (wr_ns w)) (\<lambda>c. case c of
            Inl e \<Rightarrow> Ret (Inl e, w)
          | Inr s \<Rightarrow> commit_many_from wc non_empty s w))"

definition writer_reset :: "writer \<Rightarrow> writer" where
  "writer_reset w = w\<lparr>wr_next_seq := None, wr_head_etag := None\<rparr>"

section \<open>Keys\<close>

lemma parse_wal_path:
  assumes "seq < U64_LIMIT"
  shows "parse_wal_seq (wal_path ns seq) = Some seq"
proof -
  let ?d = "fixed_digits 20 seq"
  have "CHR ''/'' \<notin> set (?d @ ''.bin'')"
    using set_fixed_digits digit_char_props(2) by fastforce
  then have "last_segment ((ns @ ''/wal'') @ CHR ''/'' # (?d @ ''.bin'')) = ?d @ ''.bin''"
    by (rule last_segment_append)
  then have "last_segment (wal_path ns seq) = ?d @ ''.bin''"
    by (simp add: wal_path_fixed assms)
  moreover have "parse_u64 ?d = Some seq"
  proof (rule parse_u64_digits)
    show "parse_digits 0 ?d = Some seq"
      using parse_fixed_digits[of 20 seq] u64_fits_20[OF assms] by simp
    show "?d \<noteq> []" using length_fixed_digits[of 20 seq] by fastforce
  qed (use assms set_fixed_digits in auto)
  ultimately show ?thesis using strip_suffix_append[of "''.bin''" ?d] by (simp add: parse_wal_seq_def)
qed

lemma parse_head_pointer_bytes:
  assumes "seq < U64_LIMIT"
  shows "parse_head_pointer (head_pointer_bytes seq) = Some seq"
proof -
  have "\<forall>c \<in> set (show_nat seq). (of_char c :: nat) < 128 \<and> \<not> is_space c"
    using set_show_nat digit_char_props(3,4) by blast
  then show ?thesis
    by (simp add: parse_head_pointer_def head_pointer_bytes_def ascii_text_bytes trim_id
        parse_u64_show_nat assms)
qed

text \<open>The two text encodings of a sequence round-trip over the whole \<open>u64\<close> range: the WAL key
  parses back to its sequence, and so does the head pointer's payload.\<close>
theorem sequence_roundtrip:
  assumes "seq < U64_LIMIT"
  shows "parse_wal_seq (seq_path ns seq) = Some seq
    \<and> parse_head_pointer (head_pointer_bytes seq) = Some seq"
  using parse_wal_path[OF assms] parse_head_pointer_bytes[OF assms] by (simp add: seq_path_def)

theorem sequence_roundtrip_witness:
  "parse_wal_seq (seq_path ''ns'' 42) = Some 42 \<and> parse_head_pointer (head_pointer_bytes 42) = Some 42"
  by (rule sequence_roundtrip) (simp add: U64_LIMIT_def)

end
