(* ===== verification/Commit_Safety.thy ===== *)
theory Commit_Safety
  imports Wal_Log
begin

text \<open>
  Safety of the write path. Histories of the object store are arbitrary interleavings of the
  requests of any number of processes, any of which may fail; a commit is one of these processes.
  The lemmas say what a commit that acknowledged must have done, and what the store then keeps.
\<close>

section \<open>Requests of the store operations\<close>

lemma follows_os_putE [elim!]:
  assumes "follows (os_put p b m) es x"
  obtains r where "es = [(ReqPut p b m, r)]" "x = (case r of RspPut y \<Rightarrow> y | _ \<Rightarrow> Inl OsOther)"
  using assms by (auto simp: os_put_def split: response.split_asm)

lemma follows_put_if_absent_Inr:
  "follows (store_put_if_absent p b) es (Inr e) \<Longrightarrow> es = [(ReqPut p b Create, RspPut (Inr e))]"
  by (auto simp: store_put_if_absent_def
      split: response.split_asm sum.split_asm os_error.split_asm)

section \<open>What an acknowledged commit did\<close>

text \<open>The create that claims slot \<open>seq\<close> for \<open>ops\<close>.\<close>
definition claims :: "wal_entry codec \<Rightarrow> string \<Rightarrow> op list \<Rightarrow> nat \<Rightarrow> event \<Rightarrow> bool" where
  "claims wc ns ops seq e = (\<exists>bs t. encode wc (wal_entry_new seq ops) = Some bs
     \<and> e = (ReqPut (seq_path ns seq) bs Create, RspPut (Inr t)))"

lemma claim_loop_claims:
  "follows (claim_loop wc n ops seq w) es (Inr cr, w') \<Longrightarrow>
     (\<exists>e \<in> set es. claims wc (wr_ns w) ops (cr_seq cr) e)
     \<and> (case ops_guard ops of Some g \<Rightarrow> cr_seq cr < g | None \<Rightarrow> True)"
proof (induction n arbitrary: seq es)
  case (Suc n)
  have g: "\<not> (case ops_guard ops of Some expected \<Rightarrow> expected \<le> seq | None \<Rightarrow> False)"
    using Suc.prems by (auto split: if_splits)
  then obtain bs where bs: "encode wc (wal_entry_new seq ops) = Some bs"
    using Suc.prems by (auto split: option.splits)
  define k :: "store_error + etag option \<Rightarrow> ((wal_error + commit_result) \<times> writer) io" where
    "k = (\<lambda>r. case r of
            Inr _ \<Rightarrow> io_bind (bump_head_pointer seq (w\<lparr>wr_next_seq := Some (seq + 1)\<rparr>)) (\<lambda>(b, w'). Ret (case b of
                Inl e \<Rightarrow> (Inl e, w')
              | Inr _ \<Rightarrow> (Inr \<lparr>cr_seq = seq, cr_attempts = MAX_CLAIM_ATTEMPTS - n\<rparr>, w')))
          | Inl (AlreadyExists _) \<Rightarrow> io_bind (wal_head (wr_ns w)) (\<lambda>h. case h of
                Inl e \<Rightarrow> Ret (Inl e, w)
              | Inr head \<Rightarrow> claim_loop wc n ops (head + 1) w)
          | Inl e \<Rightarrow> Ret (Inl (WStore e), w))"
  have step: "claim_loop wc (Suc n) ops seq w = io_bind (store_put_if_absent (seq_path (wr_ns w) seq) bs) k"
    unfolding k_def using g bs by (simp only: claim_loop.simps if_False option.case)
  from Suc.prems[unfolded step follows_bind] obtain es1 es2 r where es: "es = es1 @ es2"
    and put: "follows (store_put_if_absent (seq_path (wr_ns w) seq) bs) es1 r"
    and rest: "follows (k r) es2 (Inr cr, w')"
    by blast
  show ?case
  proof (cases r)
    case (Inr t)
    have "cr_seq cr = seq"
      using rest Inr by (auto simp: k_def split: sum.split_asm)
    moreover have "(ReqPut (seq_path (wr_ns w) seq) bs Create, RspPut (Inr t)) \<in> set es"
      using follows_put_if_absent_Inr put es Inr by fastforce
    ultimately show ?thesis using bs g
      by (auto simp: claims_def split: option.splits intro!: bexI)
  next
    case (Inl e)
    with rest obtain p es3 es4 head where "e = AlreadyExists p"
      "es2 = es3 @ es4" "follows (claim_loop wc n ops (head + 1) w) es4 (Inr cr, w')"
      by (auto simp: k_def split: store_error.split_asm sum.split_asm)
    with Suc.IH es show ?thesis by auto
  qed
qed auto

lemma commit_claims:
  assumes "follows (commit mc wc ops w) es (Inr cr, w')" and "ops \<noteq> []"
  shows "\<exists>e \<in> set es. claims wc (wr_ns w) ops (cr_seq cr) e"
    and "case ops_guard ops of Some g \<Rightarrow> cr_seq cr < g | None \<Rightarrow> True"
proof -
  obtain n s es1 es2 where "es = es1 @ es2" "follows (claim_loop wc n ops s w) es2 (Inr cr, w')"
  proof (cases "wr_next_seq w")
    case None
    then show ?thesis using assms that by (auto simp: commit_def split: sum.split_asm)
  next
    case (Some s)
    then show ?thesis using assms that[of "[]" es] by (simp add: commit_def)
  qed
  with claim_loop_claims[of wc n ops s w es2 cr w']
  show "\<exists>e \<in> set es. claims wc (wr_ns w) ops (cr_seq cr) e"
    and "case ops_guard ops of Some g \<Rightarrow> cr_seq cr < g | None \<Rightarrow> True" by auto
qed

section \<open>What the store keeps\<close>

text \<open>A create answered with success found the slot empty and filled it.\<close>
lemma create_done:
  assumes "store_step s (ReqPut p b Create, RspPut (Inr t)) s'"
  shows "lookup_obj s p = None \<and> (\<exists>ob. lookup_obj s' p = Some ob \<and> ob_bytes ob = b)"
proof -
  have "store_step s e s' \<Longrightarrow> e = (ReqPut p b Create, RspPut (Inr t)) \<Longrightarrow>
     lookup_obj s p = None \<and> (\<exists>ob. lookup_obj s' p = Some ob \<and> ob_bytes ob = b)" for e
    by (induction rule: store_step.induct)
      (auto split: option.splits simp: lookup_obj_def[of "_\<lparr>clock := _\<rparr>"] simp flip: lookup_obj_def)
  with assms show ?thesis by blast
qed

text \<open>A request that may change what is stored at \<open>p\<close> once something is there.\<close>
definition touches :: "path \<Rightarrow> request \<Rightarrow> bool" where
  "touches p q = (case q of ReqDelete p' \<Rightarrow> p' = p
     | ReqPut p' _ m \<Rightarrow> p' = p \<and> m \<noteq> Create | _ \<Rightarrow> False)"

lemma os_exec_keeps:
  assumes "os_exec q s = (r, s')" "lookup_obj s p = Some ob" "\<not> touches p q"
  shows "lookup_obj s' p = Some ob"
proof (cases q)
  case (ReqPut p' b m)
  with assms show ?thesis
    by (cases m) (auto simp: touches_def split: option.splits if_splits)
qed (use assms in \<open>auto simp: touches_def split: option.splits\<close>)

lemma os_exec_keeps_present:
  assumes "os_exec q s = (r, s')" "lookup_obj s p \<noteq> None" "q \<noteq> ReqDelete p"
  shows "lookup_obj s' p \<noteq> None"
proof (cases q)
  case (ReqPut p' b m)
  with assms show ?thesis
    by (cases m) (auto split: option.splits if_splits)
qed (use assms in \<open>auto split: option.splits\<close>)

lemma lookup_obj_clock [simp]: "lookup_obj (s\<lparr>clock := t\<rparr>) p = lookup_obj s p"
  by (simp add: lookup_obj_def)

lemma store_step_keeps:
  "store_step s e s' \<Longrightarrow> lookup_obj s p = Some ob \<Longrightarrow> \<not> touches p (fst e) \<Longrightarrow> lookup_obj s' p = Some ob"
  by (induction rule: store_step.induct) (auto dest: os_exec_keeps)

lemma store_step_keeps_present:
  "store_step s e s' \<Longrightarrow> lookup_obj s p \<noteq> None \<Longrightarrow> fst e \<noteq> ReqDelete p \<Longrightarrow> lookup_obj s' p \<noteq> None"
  by (induction rule: store_step.induct) (use os_exec_keeps_present in fastforce)+

lemma history_keeps:
  "history s es s' \<Longrightarrow> lookup_obj s p = Some ob \<Longrightarrow> \<forall>e \<in> set es. \<not> touches p (fst e)
   \<Longrightarrow> lookup_obj s' p = Some ob"
  by (induction rule: history.induct) (auto dest: store_step_keeps)

lemma history_keeps_present:
  "history s es s' \<Longrightarrow> lookup_obj s p \<noteq> None \<Longrightarrow> \<forall>e \<in> set es. fst e \<noteq> ReqDelete p
   \<Longrightarrow> lookup_obj s' p \<noteq> None"
proof (induction rule: history.induct)
  case (Cons s e s' es s'')
  then show ?case using store_step_keeps_present[OF Cons.hyps(1)] by auto
qed simp

text \<open>Two successful creates of one key need a delete of that key in between.\<close>
lemma creates_separated:
  assumes "history s (xs @ (ReqPut p b Create, RspPut (Inr t)) # ys
      @ (ReqPut p b' Create, RspPut (Inr t')) # zs) s'"
  shows "\<exists>e \<in> set ys. fst e = ReqDelete p"
proof (rule ccontr)
  assume none: "\<not> ?thesis"
  from assms obtain s1 s2 s3 s4 where
    "store_step s1 (ReqPut p b Create, RspPut (Inr t)) s2" "history s2 ys s3"
    "store_step s3 (ReqPut p b' Create, RspPut (Inr t')) s4"
    by (auto simp: history_append)
  with create_done[of s1] create_done[of s3] history_keeps_present[of s2 ys s3 p] none
  show False by fastforce
qed

section \<open>Interleavings\<close>

text \<open>A concurrent history tags every request with the process that issued it.\<close>
definition issued_by :: "nat \<Rightarrow> (nat \<times> event) list \<Rightarrow> event list" where
  "issued_by pid h = map snd (filter (\<lambda>x. fst x = pid) h)"

lemma issued_by_split:
  "issued_by i h = xs @ e # ys \<Longrightarrow> \<exists>u v. h = u @ (i, e) # v \<and> issued_by i u = xs \<and> issued_by i v = ys"
proof (induction h arbitrary: xs)
  case (Cons x h)
  show ?case
  proof (cases "fst x = i \<and> xs = []")
    case True
    with Cons.prems show ?thesis
      by (intro exI[of _ "[]"] exI[of _ h]) (auto simp: issued_by_def)
  next
    case False
    then obtain xs' where "issued_by i h = xs' @ e # ys" "xs = (if fst x = i then snd x # xs' else xs')"
      using Cons.prems by (cases xs) (auto simp: issued_by_def split: if_split_asm)
    with Cons.IH obtain u v where "h = u @ (i, e) # v" "issued_by i u = xs'" "issued_by i v = ys" by blast
    with \<open>xs = _\<close> show ?thesis by (intro exI[of _ "x # u"] exI[of _ v]) (auto simp: issued_by_def)
  qed
qed (simp add: issued_by_def)

lemma issued_by_mem: "e \<in> set (issued_by pid h) \<longleftrightarrow> (pid, e) \<in> set h"
  by (force simp: issued_by_def)



text \<open>C19. A guarded batch is never written past its guard: if it is acknowledged, the sequence it got
  is below the bound of its first guard operation.\<close>
theorem acked_commit_respects_guard:
  assumes "follows (commit mc wc ops w) es (Inr c, w')" and "ops_guard ops = Some g"
  shows "cr_seq c < g"
proof -
  have "ops \<noteq> []" using assms(2) by (auto simp: ops_guard_def)
  with commit_claims(2)[OF assms(1)] assms(2) show ?thesis by simp
qed

section \<open>Commits do not interfere\<close>

lemma seq_path_not_pointer: "seq_path ns q \<noteq> wal_head_pointer_path ns'"
proof
  assume eq: "seq_path ns q = wal_head_pointer_path ns'"
  have "last (seq_path ns q) = CHR ''n''" by (simp add: seq_path_def wal_path_def)
  moreover have "last (wal_head_pointer_path ns') = CHR ''d''" by (simp add: wal_head_pointer_path_def)
  ultimately show False using eq by simp
qed

text \<open>A request that leaves every WAL object alone.\<close>
definition spares_wal :: "request \<Rightarrow> bool" where
  "spares_wal q = (\<forall>ns seq. \<not> touches (seq_path ns seq) q)"

lemma spares_wal_simps [simp]:
  "spares_wal (ReqGet p e)" "spares_wal (ReqList p)" "spares_wal (ReqPut p b Create)"
  "spares_wal (ReqPut (wal_head_pointer_path ns) b m)"
  by (auto simp: spares_wal_def touches_def dest: seq_path_not_pointer[THEN notE, OF sym])

lemma bump_loop_spares_wal: "io_all spares_wal (bump_loop n seq w)"
  by (induction n arbitrary: w) (auto simp: Let_def split: option.split sum.split store_error.split)

lemma wal_head_spares_wal: "io_all spares_wal (wal_head ns)"
  by (simp add: wal_head_def)

lemma claim_loop_spares_wal: "io_all spares_wal (claim_loop wc n ops seq w)"
proof (induction n arbitrary: seq w)
  case (Suc n)
  have "io_all spares_wal (bump_head_pointer seq v)" for v
    by (simp add: bump_head_pointer_def bump_loop_spares_wal)
  with Suc show ?case
    by (auto simp: wal_head_spares_wal split_beta split: option.split sum.split store_error.split)
qed simp

lemma commit_spares_wal: "io_all spares_wal (commit mc wc ops w)"
  by (auto simp: commit_def cold_next_seq_def read_manifest_def claim_loop_spares_wal
      wal_head_spares_wal split: option.split sum.split)

end
