(* ===== verification/Tail.thy ===== *)
theory Tail
  imports Wal_Log
begin

text \<open>
  Reading the un-indexed tail of the log (\<open>mlake-wal/src/tail.rs\<close>): the fold of WAL entries into
  current item state, the two scans that feed it, and the queries on the result. The
  specification is a plain log semantics: a corpus is a map from ids to items and every operation
  acts on it in log order (\<open>apply_op\<close>). \<open>tail_view\<close> is what a strongly consistent reader shows,
  given the items of the indexed generation and a tail scan.
\<close>

section \<open>Definitions\<close>

record tail_scan =
  ts_upserts :: "(memory_id, stored_memory) btree"
  ts_tombstones :: "memory_id list"
  ts_pending_patches :: "(memory_id, delta list) btree"
  ts_predicate_tombstones :: "(nat \<times> predicate) list"
  ts_through_seq :: nat
  ts_entries_scanned :: nat

definition tail_scan_default :: tail_scan where
  "tail_scan_default = \<lparr>ts_upserts = [], ts_tombstones = [], ts_pending_patches = [],
     ts_predicate_tombstones = [], ts_through_seq = 0, ts_entries_scanned = 0\<rparr>"

definition is_tombstoned :: "tail_scan \<Rightarrow> memory_id \<Rightarrow> bool" where
  "is_tombstoned t i = (i \<in> set (ts_tombstones t))"

definition is_hidden :: "tail_scan \<Rightarrow> stored_memory \<Rightarrow> bool" where
  "is_hidden t item = (sm_id item \<in> set (ts_tombstones t)
     \<or> list_ex (\<lambda>(seq, p). sm_write_seq item < seq \<and> predicate_matches p item) (ts_predicate_tombstones t))"

definition apply_patches :: "tail_scan \<Rightarrow> stored_memory \<Rightarrow> stored_memory" where
  "apply_patches t item = (case map_of (ts_pending_patches t) (sm_id item) of
     Some deltas \<Rightarrow> apply_deltas item deltas | None \<Rightarrow> item)"

definition tail_is_empty :: "tail_scan \<Rightarrow> bool" where
  "tail_is_empty t = (ts_upserts t = [] \<and> ts_tombstones t = [] \<and> ts_pending_patches t = []
     \<and> ts_predicate_tombstones t = [])"

fun fold_op :: "nat \<Rightarrow> op \<Rightarrow> tail_scan \<Rightarrow> tail_scan" where
  "fold_op seq (Upsert item) t =
     (let i = m_id item; stored = (into_stored item)\<lparr>sm_proof_count := m_proof_count item, sm_write_seq := seq\<rparr> in
      t\<lparr>ts_tombstones := filter (\<lambda>x. x \<noteq> i) (ts_tombstones t),
        ts_pending_patches := bt_delete i (ts_pending_patches t),
        ts_upserts := bt_insert i stored (ts_upserts t)\<rparr>)"
| "fold_op seq (Tombstone i) t =
     t\<lparr>ts_upserts := bt_delete i (ts_upserts t),
       ts_pending_patches := bt_delete i (ts_pending_patches t),
       ts_tombstones := (if i \<in> set (ts_tombstones t) then ts_tombstones t else ts_tombstones t @ [i])\<rparr>"
| "fold_op seq (Patch i deltas) t =
     (if i \<in> set (ts_tombstones t) then t
      else case map_of (ts_upserts t) i of
        Some item \<Rightarrow> t\<lparr>ts_upserts := bt_insert i (apply_deltas item deltas) (ts_upserts t)\<rparr>
      | None \<Rightarrow> t\<lparr>ts_pending_patches := bt_insert i
          ((case map_of (ts_pending_patches t) i of Some ds \<Rightarrow> ds | None \<Rightarrow> []) @ deltas) (ts_pending_patches t)\<rparr>)"
| "fold_op seq (TombstoneWhere p) t =
     t\<lparr>ts_upserts := filter (\<lambda>(_, m). \<not> (sm_write_seq m < seq \<and> predicate_matches p m)) (ts_upserts t),
       ts_predicate_tombstones := ts_predicate_tombstones t @ [(seq, p)]\<rparr>"
| "fold_op seq (Guard _) t = t"

definition fold_entry :: "wal_entry \<Rightarrow> tail_scan \<Rightarrow> tail_scan" where
  "fold_entry e t = fold (fold_op (we_seq e)) (we_ops e)
     (t\<lparr>ts_through_seq := max (ts_through_seq t) (we_seq e), ts_entries_scanned := ts_entries_scanned t + 1\<rparr>)"

definition fold_entries :: "wal_entry list \<Rightarrow> tail_scan" where
  "fold_entries es = fold fold_entry es tail_scan_default"

text \<open>Decode the fetched objects, stopping at the first that does not decode.\<close>
fun decode_entries :: "wal_entry codec \<Rightarrow> bytes list \<Rightarrow> wal_error + wal_entry list" where
  "decode_entries wc [] = Inr []"
| "decode_entries wc (b # bs) = (case entry_from_bytes wc b of
     Inl e \<Rightarrow> Inl e
   | Inr x \<Rightarrow> (case decode_entries wc bs of Inl e \<Rightarrow> Inl e | Inr xs \<Rightarrow> Inr (x # xs)))"

definition wal_scan :: "wal_entry codec \<Rightarrow> string \<Rightarrow> nat \<Rightarrow> nat option \<Rightarrow> (wal_error + tail_scan) io" where
  "wal_scan wc ns after_seq through_seq =
     io_try (io_map_err WStore (store_list (ns @ ''/wal/''))) (\<lambda>listed.
     let paths = sort_key fst (filter (\<lambda>(seq, _). case through_seq of None \<Rightarrow> True | Some t \<Rightarrow> seq \<le> t)
           (filter (\<lambda>(seq, _). after_seq < seq)
             (List.map_filter (\<lambda>p. map_option (\<lambda>s. (s, p)) (parse_wal_seq p)) listed))) in
     io_try (io_map_err WStore (io_try_map store_get_immutable (map snd paths))) (\<lambda>objects.
     Ret (case decode_entries wc objects of Inl e \<Rightarrow> Inl e | Inr entries \<Rightarrow> Inr (fold_entries entries))))"

text \<open>One WAL slot of the constructed range: a missing object is a gap, not an error.\<close>
definition fetch_slot :: "string \<Rightarrow> nat \<Rightarrow> (wal_error + bytes option) io" where
  "fetch_slot ns seq = io_bind (store_get_immutable (seq_path ns seq)) (\<lambda>r. Ret (case r of
     Inr b \<Rightarrow> Inr (Some b)
   | Inl (NotFound _) \<Rightarrow> Inr None
   | Inl e \<Rightarrow> Inl (WStore e)))"

definition wal_scan_up_to :: "wal_entry codec \<Rightarrow> string \<Rightarrow> nat \<Rightarrow> nat \<Rightarrow> (wal_error + tail_scan) io" where
  "wal_scan_up_to wc ns after_seq head =
     (if head \<le> after_seq then Ret (Inr (fold_entries []))
      else io_try (io_try_map (fetch_slot ns) [after_seq + 1..<head + 1]) (\<lambda>objects.
        Ret (case decode_entries wc (List.map_filter id objects) of
               Inl e \<Rightarrow> Inl e | Inr entries \<Rightarrow> Inr (fold_entries entries))))"

definition scan_from_manifest :: "wal_entry codec \<Rightarrow> string \<Rightarrow> nat \<Rightarrow> (wal_error + tail_scan) io" where
  "scan_from_manifest wc ns cursor = wal_scan wc ns cursor None"

section \<open>Specification: the log semantics\<close>

type_synonym corpus = "memory_id \<Rightarrow> stored_memory option"

fun apply_op :: "nat \<Rightarrow> op \<Rightarrow> corpus \<Rightarrow> corpus" where
  "apply_op seq (Upsert m) c = c(m_id m \<mapsto> (into_stored m)\<lparr>sm_write_seq := seq\<rparr>)"
| "apply_op seq (Tombstone i) c = c(i := None)"
| "apply_op seq (Patch i ds) c = c(i := map_option (\<lambda>m. apply_deltas m ds) (c i))"
| "apply_op seq (TombstoneWhere p) c =
     (\<lambda>i. case c i of None \<Rightarrow> None
        | Some m \<Rightarrow> if sm_write_seq m < seq \<and> predicate_matches p m then None else Some m)"
| "apply_op seq (Guard _) c = c"

definition apply_entry :: "wal_entry \<Rightarrow> corpus \<Rightarrow> corpus" where
  "apply_entry e c = fold (apply_op (we_seq e)) (we_ops e) c"

definition replay :: "wal_entry list \<Rightarrow> corpus \<Rightarrow> corpus" where
  "replay es c = fold apply_entry es c"

text \<open>What a reader shows for an id, over the items \<open>g\<close> of the indexed generation.\<close>
definition tail_view :: "tail_scan \<Rightarrow> corpus \<Rightarrow> corpus" where
  "tail_view t g = (\<lambda>i. case map_of (ts_upserts t) i of
     Some m \<Rightarrow> Some m
   | None \<Rightarrow> (case g i of None \<Rightarrow> None
       | Some m \<Rightarrow> if is_hidden t m then None else Some (apply_patches t m)))"

fun is_predicate_delete :: "op \<Rightarrow> bool" where
  "is_predicate_delete (TombstoneWhere _) = True"
| "is_predicate_delete _ = False"

fun is_patch :: "op \<Rightarrow> bool" where
  "is_patch (Patch _ _) = True"
| "is_patch _ = False"

section \<open>Facts\<close>

text \<open>A generation stores every item under its own id.\<close>
definition keyed :: "corpus \<Rightarrow> bool" where
  "keyed g = (\<forall>i m. g i = Some m \<longrightarrow> sm_id m = i)"

text \<open>The invariant of a tail scan: maps ordered, no id both upserted and deleted or patched,
  no deleted id with pending patches, items under their own ids.\<close>
definition tail_ok :: "tail_scan \<Rightarrow> bool" where
  "tail_ok t = (bt_ok (ts_upserts t) \<and> bt_ok (ts_pending_patches t) \<and> distinct (ts_tombstones t)
     \<and> keyed (map_of (ts_upserts t))
     \<and> set (ts_tombstones t) \<inter> dom (map_of (ts_upserts t)) = {}
     \<and> set (ts_tombstones t) \<inter> dom (map_of (ts_pending_patches t)) = {}
     \<and> dom (map_of (ts_upserts t)) \<inter> dom (map_of (ts_pending_patches t)) = {})"

lemma keyedD [dest]: "keyed g \<Longrightarrow> g i = Some m \<Longrightarrow> sm_id m = i"
  by (simp add: keyed_def)

lemma into_stored_write_seq [simp]:
  "(into_stored m)\<lparr>sm_proof_count := m_proof_count m, sm_write_seq := s\<rparr> = (into_stored m)\<lparr>sm_write_seq := s\<rparr>"
  by (simp add: into_stored_def)

lemma tail_ok_default [simp]: "tail_ok tail_scan_default"
  by (simp add: tail_ok_def tail_scan_default_def keyed_def)

lemma map_of_filter_vals:
  "distinct (map fst xs) \<Longrightarrow> map_of (filter (\<lambda>(_, v). P v) xs) k =
     (case map_of xs k of Some v \<Rightarrow> if P v then Some v else None | None \<Rightarrow> None)"
  by (induction xs) (auto split: option.splits simp: map_of_eq_None_iff)

lemma tail_ok_fold_op [simp]: "tail_ok t \<Longrightarrow> tail_ok (fold_op seq op t)"
proof (induction seq op t rule: fold_op.induct)
  case (1 seq item t)
  then show ?case by (auto simp: tail_ok_def Let_def keyed_def)
next
  case (2 seq i t)
  then show ?case by (auto simp: tail_ok_def keyed_def)
next
  case (3 seq i deltas t)
  then show ?case
    by (auto simp: tail_ok_def keyed_def domIff split: option.splits)
next
  case (4 seq p t)
  then have "distinct (map fst (ts_upserts t))" by (auto simp: tail_ok_def bt_ok_distinct)
  then have "map_of (filter Q (ts_upserts t)) k = Some v \<Longrightarrow> map_of (ts_upserts t) k = Some v" for Q k v
    by (meson filter_is_subset map_of_SomeD map_of_is_SomeI subsetD)
  then show ?case using 4
    by (simp add: tail_ok_def keyed_def) (blast dest: domD intro: domI)
qed simp

lemma tail_ok_fold_entry [simp]: "tail_ok t \<Longrightarrow> tail_ok (fold_entry e t)"
proof -
  have "tail_ok t \<Longrightarrow> tail_ok (fold (fold_op q) ops t)" for q ops t
    by (induction ops arbitrary: t) simp_all
  moreover assume "tail_ok t"
  ultimately show ?thesis by (simp add: fold_entry_def tail_ok_def)
qed

lemma tail_ok_fold_entries: "tail_ok (fold_entries es)"
proof -
  have "tail_ok t \<Longrightarrow> tail_ok (fold fold_entry es t)" for t
    by (induction es arbitrary: t) simp_all
  then show ?thesis by (simp add: fold_entries_def)
qed

text \<open>Every operation but a predicate delete acts on the reader's view as on the log.\<close>
lemma fold_op_view:
  assumes "tail_ok t" "keyed g" "\<not> is_predicate_delete op"
  shows "tail_view (fold_op seq op t) g = apply_op seq op (tail_view t g)"
proof (cases op)
  case (Upsert m)
  have hid: "is_hidden (fold_op seq (Upsert m) t) x = is_hidden t x"
    "apply_patches (fold_op seq (Upsert m) t) x = apply_patches t x" if "sm_id x \<noteq> m_id m" for x
    using that by (auto simp: is_hidden_def apply_patches_def Let_def)
  show ?thesis unfolding Upsert
    by (rule ext) (use hid assms(2) in \<open>auto simp: tail_view_def Let_def split: option.splits\<close>)
next
  case (Tombstone i)
  define t' where "t' = fold_op seq (Tombstone i) t"
  have hid: "is_hidden t' x = (is_hidden t x \<or> sm_id x = i)" for x
    by (auto simp: t'_def is_hidden_def)
  have pat: "apply_patches t' x = apply_patches t x" if "sm_id x \<noteq> i" for x
    using that by (auto simp: t'_def apply_patches_def)
  have ups: "map_of (ts_upserts t') = (map_of (ts_upserts t))(i := None)"
    by (simp add: t'_def)
  show ?thesis unfolding Tombstone t'_def[symmetric]
    by (rule ext) (use pat assms(2) in \<open>auto simp: tail_view_def ups hid split: option.splits\<close>)
next
  case (Patch i ds)
  show ?thesis
  proof (cases "i \<in> set (ts_tombstones t)")
    case True
    then have "tail_view t g i = None" using assms(1,2)
      by (auto simp: tail_view_def is_hidden_def tail_ok_def domIff split: option.splits)
    then show ?thesis using Patch True by auto
  next
    case False
    show ?thesis
    proof (cases "map_of (ts_upserts t) i")
      case None
      define t' where "t' = fold_op seq (Patch i ds) t"
      have "ts_upserts t' = ts_upserts t" "is_hidden t' x = is_hidden t x" for x
        using False None by (simp_all add: t'_def is_hidden_def)
      moreover have "apply_patches t' x =
          (if sm_id x = i then apply_deltas (apply_patches t x) ds else apply_patches t x)" for x
        using False None by (auto simp: t'_def apply_patches_def split: option.splits)
      ultimately show ?thesis unfolding Patch t'_def[symmetric] using assms(2) None
        by (intro ext) (auto simp: tail_view_def split: option.splits)
    next
      case (Some item)
      define t' where "t' = fold_op seq (Patch i ds) t"
      have "map_of (ts_upserts t') = (map_of (ts_upserts t))(i \<mapsto> apply_deltas item ds)"
        "is_hidden t' x = is_hidden t x" "apply_patches t' x = apply_patches t x" for x
        using False Some by (simp_all add: t'_def is_hidden_def apply_patches_def)
      then show ?thesis unfolding Patch t'_def[symmetric] using Some
        by (intro ext) (auto simp: tail_view_def split: option.splits)
    qed
  qed
qed (use assms in simp_all)

text \<open>A predicate delete does so too when nothing the scan patched or replaced lives in the
  generation.\<close>
lemma fold_op_view_predicate:
  assumes "tail_ok t" "ts_pending_patches t = []" "dom (map_of (ts_upserts t)) \<inter> dom g = {}"
  shows "tail_view (fold_op seq (TombstoneWhere p) t) g = apply_op seq (TombstoneWhere p) (tail_view t g)"
proof (rule ext)
  fix i
  have d: "distinct (map fst (ts_upserts t))" using assms(1) by (auto simp: tail_ok_def bt_ok_distinct)
  define t' where "t' = fold_op seq (TombstoneWhere p) t"
  have u: "map_of (ts_upserts t') i =
      (case map_of (ts_upserts t) i of None \<Rightarrow> None
       | Some m \<Rightarrow> if sm_write_seq m < seq \<and> predicate_matches p m then None else Some m)"
    using map_of_filter_vals[OF d, of "\<lambda>m. \<not> (sm_write_seq m < seq \<and> predicate_matches p m)" i]
    by (auto simp: t'_def split: option.splits)
  have pat: "apply_patches t' m = m" "apply_patches t m = m" for m
    using assms(2) by (simp_all add: t'_def apply_patches_def)
  have h: "is_hidden t' m = (is_hidden t m \<or> sm_write_seq m < seq \<and> predicate_matches p m)" for m
    by (auto simp: t'_def is_hidden_def)
  have "tail_view t' g i = apply_op seq (TombstoneWhere p) (tail_view t g) i"
  proof (cases "map_of (ts_upserts t) i")
    case None
    then show ?thesis unfolding tail_view_def u by (auto simp: pat h split: option.splits)
  next
    case (Some m)
    then have "g i = None" using assms(3) by auto
    with Some show ?thesis unfolding tail_view_def u by simp
  qed
  then show "tail_view (fold_op seq (TombstoneWhere p) t) g i
      = apply_op seq (TombstoneWhere p) (tail_view t g) i"
    by (simp only: t'_def)
qed

lemma tail_view_counters [simp]:
  "tail_view (t\<lparr>ts_through_seq := a, ts_entries_scanned := b\<rparr>) g = tail_view t g"
  "tail_ok (t\<lparr>ts_through_seq := a, ts_entries_scanned := b\<rparr>) = tail_ok t"
  by (auto simp: tail_view_def is_hidden_def apply_patches_def tail_ok_def fun_eq_iff split: option.splits)

lemma tail_view_default [simp]: "tail_view tail_scan_default g = g"
  by (auto simp: tail_view_def tail_scan_default_def is_hidden_def apply_patches_def split: option.splits)

lemma fold_ops_view:
  "tail_ok t \<Longrightarrow> keyed g \<Longrightarrow> \<forall>op \<in> set ops. \<not> is_predicate_delete op \<Longrightarrow>
   tail_view (fold (fold_op seq) ops t) g = fold (apply_op seq) ops (tail_view t g)"
  by (induction ops arbitrary: t) (simp_all add: fold_op_view)

lemma fold_entries_view:
  assumes "keyed g" and "\<forall>e \<in> set es. \<forall>op \<in> set (we_ops e). \<not> is_predicate_delete op"
  shows "tail_view (fold_entries es) g = replay es g"
proof -
  have "tail_ok t \<Longrightarrow> \<forall>e \<in> set es. \<forall>op \<in> set (we_ops e). \<not> is_predicate_delete op \<Longrightarrow>
      tail_view (fold fold_entry es t) g = fold apply_entry es (tail_view t g)" for t
  proof (induction es arbitrary: t)
    case (Cons e es)
    have "tail_view (fold_entry e t) g = apply_entry e (tail_view t g)"
      using Cons.prems assms(1) by (simp add: fold_entry_def apply_entry_def fold_ops_view)
    with Cons show ?case by simp
  qed simp
  with assms(2) show ?thesis by (simp add: fold_entries_def replay_def)
qed



lemma fold_op_no_pending:
  "ts_pending_patches t = [] \<Longrightarrow> \<not> is_patch op \<Longrightarrow> ts_pending_patches (fold_op seq op t) = []"
  by (cases op) (auto simp: bt_delete_def Let_def)

lemma fold_op_upsert_dom:
  "\<not> is_patch op \<Longrightarrow> dom (map_of (ts_upserts (fold_op seq op t)))
     \<subseteq> dom (map_of (ts_upserts t)) \<union> {i. \<exists>m. op = Upsert m \<and> i = m_id m}"
  by (cases op) (auto simp: Let_def dom_map_of_conv_image_fst)

lemma fold_ops_view_predicates:
  assumes "keyed g"
  shows "tail_ok t \<Longrightarrow> ts_pending_patches t = [] \<Longrightarrow> dom (map_of (ts_upserts t)) \<inter> dom g = {} \<Longrightarrow>
    \<forall>op \<in> set ops. \<not> is_patch op \<and> (\<forall>m. op = Upsert m \<longrightarrow> g (m_id m) = None) \<Longrightarrow>
    (let t' = fold (fold_op seq) ops t in
     tail_view t' g = fold (apply_op seq) ops (tail_view t g) \<and> tail_ok t'
     \<and> ts_pending_patches t' = [] \<and> dom (map_of (ts_upserts t')) \<inter> dom g = {})"
proof (induction ops arbitrary: t)
  case (Cons op ops)
  have "tail_view (fold_op seq op t) g = apply_op seq op (tail_view t g)"
  proof (cases "is_predicate_delete op")
    case True
    then obtain p where "op = TombstoneWhere p" by (cases op) auto
    with fold_op_view_predicate Cons.prems show ?thesis by simp
  qed (use fold_op_view Cons.prems assms in simp)
  moreover have "ts_pending_patches (fold_op seq op t) = []"
    using Cons.prems by (simp add: fold_op_no_pending)
  moreover have "dom (map_of (ts_upserts (fold_op seq op t))) \<inter> dom g = {}"
  proof -
    have "{i. \<exists>m. op = Upsert m \<and> i = m_id m} \<inter> dom g = {}" using Cons.prems(4) by auto
    moreover have "dom (map_of (ts_upserts (fold_op seq op t)))
        \<subseteq> dom (map_of (ts_upserts t)) \<union> {i. \<exists>m. op = Upsert m \<and> i = m_id m}"
      using Cons.prems(4) by (intro fold_op_upsert_dom) simp
    ultimately show ?thesis using Cons.prems(3) by blast
  qed
  ultimately show ?case using Cons.IH[of "fold_op seq op t"] Cons.prems by simp
qed simp

text \<open>With predicate deletes in the tail, the reader's view is still the replay of the log as long
  as the tail patches nothing and re-writes no id that the generation holds: a delete by predicate
  hides exactly the matching items written before it, and a re-ingest in the same entry survives.\<close>
theorem fold_entries_refines_replay_predicates:
  assumes "keyed g"
    and "\<forall>e \<in> set es. \<forall>op \<in> set (we_ops e). \<not> is_patch op \<and> (\<forall>m. op = Upsert m \<longrightarrow> g (m_id m) = None)"
  shows "tail_view (fold_entries es) g = replay es g"
proof -
  have "tail_ok t \<Longrightarrow> ts_pending_patches t = [] \<Longrightarrow> dom (map_of (ts_upserts t)) \<inter> dom g = {} \<Longrightarrow>
      \<forall>e \<in> set es. \<forall>op \<in> set (we_ops e). \<not> is_patch op \<and> (\<forall>m. op = Upsert m \<longrightarrow> g (m_id m) = None) \<Longrightarrow>
      tail_view (fold fold_entry es t) g = fold apply_entry es (tail_view t g)" for t
  proof (induction es arbitrary: t)
    case (Cons e es)
    let ?t0 = "t\<lparr>ts_through_seq := max (ts_through_seq t) (we_seq e), ts_entries_scanned := ts_entries_scanned t + 1\<rparr>"
    from fold_ops_view_predicates[OF assms(1), of ?t0 "we_ops e" "we_seq e"] Cons.prems
    have "tail_view (fold_entry e t) g = apply_entry e (tail_view t g)" "tail_ok (fold_entry e t)"
      "ts_pending_patches (fold_entry e t) = []" "dom (map_of (ts_upserts (fold_entry e t))) \<inter> dom g = {}"
      by (simp_all add: fold_entry_def apply_entry_def Let_def)
    with Cons show ?case by simp
  qed simp
  moreover have "ts_pending_patches tail_scan_default = []" "ts_upserts tail_scan_default = []"
    by (simp_all add: tail_scan_default_def)
  ultimately have "tail_view (fold fold_entry es tail_scan_default) g = fold apply_entry es (tail_view tail_scan_default g)"
    using assms(2) by simp
  then show ?thesis by (simp add: fold_entries_def replay_def)
qed

theorem fold_entries_refines_replay_predicates_witness:
  "tail_view (fold_entries [wal_entry_new 2 [Upsert (plain_memory (MemoryId [1]) ''t'' [''x''])],
       wal_entry_new 3 [TombstoneWhere \<lparr>p_memory_types = [], p_metadata_equals = [], p_tags = [''x''],
         p_tags_mode = 2, p_updated_from = None, p_updated_to = None\<rparr>]]) Map.empty
   = replay [wal_entry_new 2 [Upsert (plain_memory (MemoryId [1]) ''t'' [''x''])],
       wal_entry_new 3 [TombstoneWhere \<lparr>p_memory_types = [], p_metadata_equals = [], p_tags = [''x''],
         p_tags_mode = 2, p_updated_from = None, p_updated_to = None\<rparr>]] Map.empty"
  by (rule fold_entries_refines_replay_predicates) (auto simp: keyed_def wal_entry_new_def)

text \<open>Outside that condition the equality fails: when the tail replaces an indexed item and then
  deletes the replacement by predicate, the fold forgets the replacement without recording the
  delete, and the older copy in the generation shows again although the log says the id is gone.\<close>
theorem predicate_delete_resurrects:
  "\<exists>g es i. keyed g \<and> replay es g i = None \<and> tail_view (fold_entries es) g i \<noteq> None"
proof -
  define i where "i = MemoryId [1]"
  define p where "p = \<lparr>p_memory_types = [], p_metadata_equals = [], p_tags = [''x''],
     p_tags_mode = 2, p_updated_from = None, p_updated_to = None\<rparr>"
  define g :: corpus where "g = [i \<mapsto> (into_stored (plain_memory i ''old'' []))\<lparr>sm_write_seq := 1\<rparr>]"
  define es where "es = [wal_entry_new 2 [Upsert (plain_memory i ''new'' [''x''])],
     wal_entry_new 3 [TombstoneWhere p]]"
  note defs = i_def p_def g_def es_def wal_entry_new_def plain_memory_def into_stored_def
    predicate_matches_def tag_filter_new_def tag_filter_matches_def tags_mode_from_u8_def
    no_timestamps_def
  have "keyed g" by (simp add: keyed_def defs)
  moreover have "replay es g i = None" by (simp add: replay_def apply_entry_def defs)
  moreover have "tail_view (fold_entries es) g i \<noteq> None"
    by (simp add: fold_entries_def fold_entry_def tail_view_def tail_scan_default_def is_hidden_def
        apply_patches_def bt_delete_def Let_def defs)
  ultimately show ?thesis by blast
qed

end
