(* ===== verification/Commit_Run.thy ===== *)
theory Commit_Run
  imports Commit_Safety Tail
begin

text \<open>
  Fault-free executions of the write path and of the tail scans over the in-memory store: head
  discovery, progress of a cold commit, publication of the head before the acknowledgement, the
  agreement of the two tail scans, and reading one's own write.
\<close>

section \<open>Evaluation of the store operations\<close>

lemma run_store_get [simp]: "run (store_get p) s = (case lookup_obj s p of
    None \<Rightarrow> Inl (NotFound p)
  | Some ob \<Rightarrow> Inr \<lparr>v_bytes = ob_bytes ob, v_etag = Some (tag_etag (ob_tag ob))\<rparr>, s)"
  by (simp add: store_get_def os_get_def split: option.split)

lemma run_store_get_immutable [simp]: "run (store_get_immutable p) s = (case lookup_obj s p of
    None \<Rightarrow> Inl (NotFound p) | Some ob \<Rightarrow> Inr (ob_bytes ob), s)"
  by (simp add: store_get_immutable_def cache_get_def cache_put_def io_simps split: option.split)

lemma run_store_put_if_absent [simp]: "run (store_put_if_absent p b) s = (case lookup_obj s p of
    Some _ \<Rightarrow> (Inl (AlreadyExists p), s)
  | None \<Rightarrow> (Inr (Some (tag_etag (next_tag s))), write_obj p b s))"
  by (simp add: store_put_if_absent_def os_put_def io_simps split: option.split)

lemma run_store_cas_swap [simp]: "run (store_cas_swap p e b) s = (case lookup_obj s p of
    None \<Rightarrow> (Inl (CasConflict p), s)
  | Some ob \<Rightarrow> if tag_etag (ob_tag ob) = e
      then (Inr (Some (tag_etag (next_tag s))), write_obj p b s) else (Inl (CasConflict p), s))"
  by (simp add: store_cas_swap_def os_put_def io_simps split: option.split)

lemma run_store_put [simp]: "run (store_put p b) s = (Inr (Some (tag_etag (next_tag s))), write_obj p b s)"
  by (simp add: store_put_def os_put_def io_simps)

lemma run_store_delete [simp]: "run (store_delete p) s = (Inr (), case lookup_obj s p of
    None \<Rightarrow> s | Some _ \<Rightarrow> remove_obj p s)"
  by (simp add: store_delete_def os_delete_def io_simps split: option.split)

lemma run_store_list [simp]:
  "run (store_list pre) s = (Inr (sort (map om_location (list_objects pre s))), s)"
  by (simp add: store_list_def os_list_def io_simps)

lemma run_map_err [simp]:
  "run (io_map_err f m) s = (let (r, s') = run m s in (case r of Inl e \<Rightarrow> Inl (f e) | Inr x \<Rightarrow> Inr x, s'))"
  by (simp add: io_map_err_def io_simps split_beta)

lemma run_read_head_pointer [simp]: "run (read_head_pointer ns) s =
    (Inr (case lookup_obj s (wal_head_pointer_path ns) of
       None \<Rightarrow> None | Some ob \<Rightarrow> parse_head_pointer (ob_bytes ob)), s)"
  by (simp add: read_head_pointer_def io_simps split: option.split)

section \<open>Listing the log\<close>

definition bt_store :: "obj_store \<Rightarrow> bool" where
  "bt_store s = bt_ok (objects s)"

text \<open>Everything under the WAL prefix is a WAL object.\<close>
definition wal_clean :: "string \<Rightarrow> obj_store \<Rightarrow> bool" where
  "wal_clean ns s = (bt_store s \<and> (\<forall>(p, ob) \<in> set (objects s).
     under_prefix (ns @ ''/wal/'') p \<longrightarrow> (\<exists>q < U64_LIMIT. p = wal_path ns q)))"

definition wal_seqs :: "string \<Rightarrow> obj_store \<Rightarrow> nat set" where
  "wal_seqs ns s = {q. q < U64_LIMIT \<and> lookup_obj s (wal_path ns q) \<noteq> None}"

lemma under_prefix_wal: "under_prefix (ns @ ''/wal/'') (wal_path ns q)"
  by (simp add: under_prefix_def strip_slash_def is_prefix_def wal_path_def butlast_append)

lemma wal_path_inj [simp]: "(wal_path ns a = wal_path ns b) = (a = b)"
  by (auto simp: wal_path_def dest: show_padded_inj)

lemma wal_path_le_iff: "a < U64_LIMIT \<Longrightarrow> b < U64_LIMIT \<Longrightarrow> (wal_path ns a \<le> wal_path ns b) = (a \<le> b)"
  by (metis linorder_not_le wal_path_less)

lemma set_wal_listing:
  assumes "wal_clean ns s"
  shows "set (map om_location (list_objects (ns @ ''/wal/'') s)) = wal_path ns ` wal_seqs ns s"
proof -
  have "distinct (map fst (objects s))"
    using assms by (simp add: wal_clean_def bt_store_def bt_ok_distinct)
  then have mem: "(p, ob) \<in> set (objects s) \<longleftrightarrow> lookup_obj s p = Some ob" for p ob
    by (auto simp: lookup_obj_def dest: map_of_SomeD)
  have "set (map om_location (list_objects (ns @ ''/wal/'') s))
      = {p. lookup_obj s p \<noteq> None \<and> under_prefix (ns @ ''/wal/'') p}"
    by (force simp: list_objects_def mem split_beta image_iff)
  also have "\<dots> = wal_path ns ` wal_seqs ns s"
  proof -
    have "\<exists>q. q < U64_LIMIT \<and> p = wal_path ns q"
      if "lookup_obj s p \<noteq> None" "under_prefix (ns @ ''/wal/'') p" for p
      using assms that mem unfolding wal_clean_def by fastforce
    then show ?thesis using under_prefix_wal unfolding wal_seqs_def by blast
  qed
  finally show ?thesis .
qed

lemma finite_wal_seqs: "finite (wal_seqs ns s)"
proof -
  have "wal_path ns ` wal_seqs ns s \<subseteq> fst ` set (objects s)"
    by (auto simp: wal_seqs_def lookup_obj_def map_of_eq_None_iff)
  then have "finite (wal_path ns ` wal_seqs ns s)" by (rule finite_subset) simp
  moreover have "inj_on (wal_path ns) (wal_seqs ns s)"
    by (simp add: inj_on_def)
  ultimately show ?thesis by (rule finite_imageD)
qed

text \<open>The head a listing finds: the largest sequence present, or zero.\<close>
definition listed_head :: "string \<Rightarrow> obj_store \<Rightarrow> nat" where
  "listed_head ns s = (if wal_seqs ns s = {} then 0 else Max (wal_seqs ns s))"

lemma run_wal_head:
  assumes "wal_clean ns s"
  shows "run (wal_head ns) s = (Inr (listed_head ns s), s)"
proof -
  let ?ps = "sort (map om_location (list_objects (ns @ ''/wal/'') s))"
  have set: "set ?ps = wal_path ns ` wal_seqs ns s"
    using set_wal_listing[OF assms] by simp
  have "(case ?ps of [] \<Rightarrow> 0 | _ \<Rightarrow> (case parse_wal_seq (last ?ps) of Some n \<Rightarrow> n | None \<Rightarrow> 0)) = listed_head ns s"
  proof (cases "wal_seqs ns s = {}")
    case True
    with set have "?ps = []" by auto
    with True show ?thesis by (simp add: listed_head_def)
  next
    case False
    with set have ne: "?ps \<noteq> []" by (metis image_is_empty list.set(1))
    then have "last ?ps \<in> set ?ps" by (rule last_in_set)
    with set obtain q where q: "q \<in> wal_seqs ns s" "last ?ps = wal_path ns q" by auto
    have "r \<le> q" if "r \<in> wal_seqs ns s" for r
    proof -
      have "wal_path ns r \<in> set ?ps" using set that by auto
      then have "wal_path ns r \<le> last ?ps" by (intro sorted_le_last) simp_all
      then show ?thesis using q that by (simp add: wal_seqs_def wal_path_le_iff)
    qed
    then have "Max (wal_seqs ns s) = q" using q finite_wal_seqs by (intro Max_eqI) auto
    moreover have "parse_wal_seq (last ?ps) = Some q" using q by (simp add: wal_seqs_def parse_wal_path)
    ultimately show ?thesis using ne False by (cases ?ps) (simp_all add: listed_head_def)
  qed
  then show ?thesis by (simp add: wal_head_def io_simps)
qed

text \<open>The listing discovers the true head: over a clean log prefix \<^const>\<open>wal_head\<close> returns the
  largest sequence present, and zero for an empty log.\<close>
theorem wal_head_correct:
  assumes "wal_clean ns s"
  shows "fst (run (wal_head ns) s) = Inr (if wal_seqs ns s = {} then 0 else Max (wal_seqs ns s))"
  by (simp add: run_wal_head[OF assms] listed_head_def)

section \<open>Publishing the head\<close>

abbreviation head_ptr :: "writer \<Rightarrow> path" where
  "head_ptr w \<equiv> wal_head_pointer_path (wr_ns w)"

text \<open>The head a reader learns from the pointer object.\<close>
definition pointer_at :: "path \<Rightarrow> obj_store \<Rightarrow> nat option" where
  "pointer_at p s = (case lookup_obj s p of None \<Rightarrow> None | Some ob \<Rightarrow> parse_head_pointer (ob_bytes ob))"

lemma pointer_at_write: "seq < U64_LIMIT \<Longrightarrow> pointer_at p (write_obj p (head_pointer_bytes seq) s) = Some seq"
  by (simp add: pointer_at_def parse_head_pointer_bytes)

lemma run_bump_loop:
  assumes "run (bump_loop n seq w) s = ((Inr (), w'), s')" "seq < U64_LIMIT"
  shows "(\<exists>h. pointer_at (head_ptr w) s' = Some h \<and> seq \<le> h)
    \<and> (\<forall>p. p \<noteq> head_ptr w \<longrightarrow> lookup_obj s' p = lookup_obj s p)
    \<and> wr_ns w' = wr_ns w \<and> wr_next_seq w' = wr_next_seq w"
  using assms(1)
proof (induction n arbitrary: w s)
  case (Suc n)
  show ?case
  proof (cases "wr_head_etag w")
    case (Some e)
    then show ?thesis using Suc.prems assms(2) Suc.IH[of "w\<lparr>wr_head_etag := None\<rparr>" s]
      by (auto simp: io_simps Let_def is_conflict_def pointer_at_write split: option.split_asm if_split_asm)
  next
    case None
    show ?thesis
    proof (cases "lookup_obj s (head_ptr w)")
      case no: None
      then show ?thesis using Suc.prems None assms(2)
        by (auto simp: io_simps Let_def pointer_at_write)
    next
      case (Some ob)
      then show ?thesis using Suc None assms(2)
        by (auto simp: io_simps Let_def is_conflict_def parse_head_pointer_bytes pointer_at_def
            split: option.split_asm if_split_asm)
    qed
  qed
qed simp

lemma bump_loop_succeeds:
  "\<exists>w' s'. run (bump_loop (Suc (Suc n)) seq w) s = ((Inr (), w'), s')"
proof -
  have slow: "\<exists>w' s'. run (bump_loop (Suc m) seq v) s = ((Inr (), w'), s')"
    if "wr_head_etag v = None" for m v
    using that by (auto simp: io_simps Let_def split: option.split)
  show ?thesis
  proof (cases "wr_head_etag w")
    case (Some e)
    then show ?thesis using slow[of "w\<lparr>wr_head_etag := None\<rparr>" n]
      by (subst bump_loop.simps) (auto simp: io_simps Let_def is_conflict_def simp del: bump_loop.simps split: option.split)
  qed (use slow in blast)
qed

lemma bump_head_pointer_succeeds: "\<exists>w' s'. run (bump_head_pointer seq w) s = ((Inr (), w'), s')"
  using bump_loop_succeeds[of 30 seq w s] by (simp add: bump_head_pointer_def MAX_CLAIM_ATTEMPTS_def numeral_eq_Suc)

section \<open>Progress of a cold commit\<close>

text \<open>The head the manifest remembers: zero without a manifest, nothing if it cannot be read.\<close>
definition folded_head :: "manifest codec \<Rightarrow> string \<Rightarrow> obj_store \<Rightarrow> nat option" where
  "folded_head mc ns s = (case lookup_obj s (manifest_path ns) of
     None \<Rightarrow> Some 0
   | Some ob \<Rightarrow> (case manifest_from_bytes mc (ob_bytes ob) of Inr m \<Rightarrow> Some (mf_wal_head m) | Inl _ \<Rightarrow> None))"

lemma run_cold_next_seq:
  assumes "wal_clean ns s" "folded_head mc ns s = Some f"
  shows "run (cold_next_seq mc ns) s = (Inr (max (listed_head ns s) f + 1), s)"
  using assms(2)
  by (auto simp: cold_next_seq_def io_simps Let_def run_wal_head[OF assms(1)] read_manifest_def folded_head_def
      split: option.split_asm sum.split_asm)

lemma slot_after_head_free:
  assumes "listed_head ns s < q" "q < U64_LIMIT"
  shows "lookup_obj s (wal_path ns q) = None"
proof (rule ccontr)
  assume "lookup_obj s (wal_path ns q) \<noteq> None"
  then have "q \<in> wal_seqs ns s" using assms by (simp add: wal_seqs_def)
  then have "q \<le> listed_head ns s" using finite_wal_seqs by (auto simp: listed_head_def)
  with assms show False by simp
qed

lemma wal_path_not_pointer: "wal_path ns q \<noteq> wal_head_pointer_path ns"
  by (simp add: wal_path_def wal_head_pointer_path_def)

text \<open>The claim succeeds at once when the slot is free.\<close>
lemma run_claim_free:
  assumes "ops_guard ops = None" "encode wc (wal_entry_new q ops) = Some bs"
    and "lookup_obj s (wal_path (wr_ns w) q) = None" "q < U64_LIMIT"
  shows "\<exists>w' s'. run (claim_loop wc (Suc n) ops q w) s
      = ((Inr \<lparr>cr_seq = q, cr_attempts = MAX_CLAIM_ATTEMPTS - n\<rparr>, w'), s')
    \<and> (\<exists>ob. lookup_obj s' (wal_path (wr_ns w) q) = Some ob \<and> ob_bytes ob = bs)
    \<and> (\<exists>h. pointer_at (head_ptr w) s' = Some h \<and> q \<le> h)
    \<and> wr_next_seq w' = Some (q + 1) \<and> wr_ns w' = wr_ns w
    \<and> (\<forall>p. p \<noteq> head_ptr w \<longrightarrow> p \<noteq> wal_path (wr_ns w) q \<longrightarrow> lookup_obj s' p = lookup_obj s p)"
proof -
  let ?w = "w\<lparr>wr_next_seq := Some (q + 1)\<rparr>" and ?s = "write_obj (wal_path (wr_ns w) q) bs s"
  obtain w' s' where b: "run (bump_head_pointer q ?w) ?s = ((Inr (), w'), s')"
    using bump_head_pointer_succeeds by blast
  with run_bump_loop[of MAX_CLAIM_ATTEMPTS q ?w ?s w' s'] assms(4)
  have f: "\<exists>h. pointer_at (head_ptr w) s' = Some h \<and> q \<le> h"
    "\<forall>p. p \<noteq> head_ptr w \<longrightarrow> lookup_obj s' p = lookup_obj ?s p"
    "wr_ns w' = wr_ns w" "wr_next_seq w' = Some (q + 1)"
    by (simp_all add: bump_head_pointer_def)
  have "run (claim_loop wc (Suc n) ops q w) s
      = ((Inr \<lparr>cr_seq = q, cr_attempts = MAX_CLAIM_ATTEMPTS - n\<rparr>, w'), s')"
    using assms b by (simp add: io_simps seq_path_def)
  moreover have "lookup_obj s' (wal_path (wr_ns w) q)
      = Some \<lparr>ob_bytes = bs, ob_tag = next_tag s, ob_modified = clock s\<rparr>"
    using f(2) wal_path_not_pointer by simp
  ultimately show ?thesis using f by auto
qed

lemma run_cold_commit:
  assumes "wal_clean ns s" "folded_head mc ns s = Some f" "ops \<noteq> []" "ops_guard ops = None"
    and "q = max (listed_head ns s) f + 1" "q < U64_LIMIT" "encode wc (wal_entry_new q ops) = Some bs"
  shows "\<exists>w' s'. run (commit mc wc ops (writer_new ns)) s = ((Inr \<lparr>cr_seq = q, cr_attempts = 1\<rparr>, w'), s')
    \<and> (\<exists>ob. lookup_obj s' (wal_path ns q) = Some ob \<and> ob_bytes ob = bs)
    \<and> (\<exists>h. pointer_at (wal_head_pointer_path ns) s' = Some h \<and> q \<le> h)
    \<and> wr_next_seq w' = Some (q + 1) \<and> wr_ns w' = ns
    \<and> (\<forall>p. p \<noteq> wal_head_pointer_path ns \<longrightarrow> p \<noteq> wal_path ns q \<longrightarrow> lookup_obj s' p = lookup_obj s p)"
proof -
  have "listed_head ns s < q" using assms(5) by simp
  then have free: "lookup_obj s (wal_path (wr_ns (writer_new ns)) q) = None"
    using slot_after_head_free assms(6) by (simp add: writer_new_def)
  have max: "MAX_CLAIM_ATTEMPTS = Suc 31" by (simp add: MAX_CLAIM_ATTEMPTS_def)
  have "run (commit mc wc ops (writer_new ns)) s = run (claim_loop wc (Suc 31) ops q (writer_new ns)) s"
    using assms(3) run_cold_next_seq[OF assms(1,2)]
    by (simp add: commit_def io_simps writer_new_def assms(5) max del: claim_loop.simps)
  with run_claim_free[OF assms(4,7) free assms(6), of 31] show ?thesis
    by (simp add: writer_new_def max del: claim_loop.simps)
qed

text \<open>C18. Progress: a cold writer on a clean log claims the slot right past every sequence ever used
  (the listed head and the head the manifest remembers, which survives WAL reclaim) on its first
  attempt, and acknowledges it.\<close>
theorem cold_commit_succeeds:
  assumes "wal_clean ns s" and "folded_head mc ns s = Some f" and "ops \<noteq> []" and "ops_guard ops = None"
    and "max (listed_head ns s) f + 1 < U64_LIMIT"
    and "encode wc (wal_entry_new (max (listed_head ns s) f + 1) ops) = Some bs"
  shows "fst (fst (run (commit mc wc ops (writer_new ns)) s))
    = Inr \<lparr>cr_seq = max (listed_head ns s) f + 1, cr_attempts = 1\<rparr>"
  using run_cold_commit[OF assms(1-4) refl assms(5,6)] by auto

section \<open>Reading one's own write\<close>

lemma run_claim_loop_acked:
  assumes "run (claim_loop wc n ops q w) s = ((Inr c, w'), s')" "cr_seq c < U64_LIMIT"
  shows "(\<exists>ob. lookup_obj s' (wal_path (wr_ns w) (cr_seq c)) = Some ob
      \<and> encode wc (wal_entry_new (cr_seq c) ops) = Some (ob_bytes ob))
    \<and> (\<exists>h. pointer_at (head_ptr w) s' = Some h \<and> cr_seq c \<le> h)"
  using assms(1)
proof (induction n arbitrary: q s)
  case (Suc n)
  have g: "\<not> (case ops_guard ops of Some expected \<Rightarrow> expected \<le> q | None \<Rightarrow> False)"
    using Suc.prems by (auto split: if_split_asm)
  with Suc.prems obtain bs where bs: "encode wc (wal_entry_new q ops) = Some bs"
    by (auto split: option.split_asm)
  show ?case
  proof (cases "lookup_obj s (wal_path (wr_ns w) q)")
    case None
    let ?w = "w\<lparr>wr_next_seq := Some (q + 1)\<rparr>" and ?s = "write_obj (wal_path (wr_ns w) q) bs s"
    obtain b w1 s1 where b: "run (bump_head_pointer q ?w) ?s = ((b, w1), s1)" by (metis prod.exhaust)
    with Suc.prems g bs None have "b = Inr ()" "w1 = w'" "s1 = s'" and c: "cr_seq c = q"
      by (auto simp: io_simps seq_path_def split: sum.split_asm)
    with b run_bump_loop[of MAX_CLAIM_ATTEMPTS q ?w ?s w' s'] assms(2)
    have "\<exists>h. pointer_at (head_ptr w) s' = Some h \<and> q \<le> h"
      "\<forall>p. p \<noteq> head_ptr w \<longrightarrow> lookup_obj s' p = lookup_obj ?s p"
      by (simp_all add: bump_head_pointer_def)
    with bs c wal_path_not_pointer show ?thesis by simp
  next
    case (Some ob)
    obtain r t where "run (wal_head (wr_ns w)) s = (r, t)" by (cases "run (wal_head (wr_ns w)) s")
    with Suc.prems g bs Some Suc.IH show ?thesis
      by (auto simp: io_simps seq_path_def split: sum.split_asm)
  qed
qed simp

text \<open>The entry a reader decodes at a slot.\<close>
definition entry_at :: "wal_entry codec \<Rightarrow> string \<Rightarrow> obj_store \<Rightarrow> nat \<Rightarrow> wal_entry option" where
  "entry_at wc ns s q = (case lookup_obj s (wal_path ns q) of None \<Rightarrow> None | Some ob \<Rightarrow> decode wc (ob_bytes ob))"

definition log_readable :: "wal_entry codec \<Rightarrow> string \<Rightarrow> obj_store \<Rightarrow> bool" where
  "log_readable wc ns s = (\<forall>q ob. lookup_obj s (wal_path ns q) = Some ob \<longrightarrow> decode wc (ob_bytes ob) \<noteq> None)"

lemma run_try_map_pure:
  "(\<And>x. x \<in> set xs \<Longrightarrow> run (f x) s = (Inr (g x), s)) \<Longrightarrow> run (io_try_map f xs) s = (Inr (map g xs), s)"
  by (induction xs) (simp_all add: io_simps)

lemma run_fetch_slot: "run (fetch_slot ns q) s = (Inr (map_option ob_bytes (lookup_obj s (wal_path ns q))), s)"
  by (simp add: fetch_slot_def seq_path_def io_simps split: option.split)

lemma decode_entries_map:
  "(\<And>b. b \<in> set bs \<Longrightarrow> decode wc b \<noteq> None) \<Longrightarrow> decode_entries wc bs = Inr (map (\<lambda>b. the (decode wc b)) bs)"
  by (induction bs) (auto simp: entry_from_bytes_def split: option.split)

lemma run_scan_up_to:
  assumes "log_readable wc ns s"
  shows "run (wal_scan_up_to wc ns a h) s = (Inr (fold_entries (List.map_filter (entry_at wc ns s) [a + 1..<h + 1])), s)"
proof -
  let ?f = "\<lambda>q. map_option ob_bytes (lookup_obj s (wal_path ns q))"
  have "List.map_filter id (map ?f qs) = List.map_filter ?f qs" for qs
    by (simp add: List.map_filter_def filter_map comp_def)
  moreover have "decode_entries wc (List.map_filter ?f qs) = Inr (List.map_filter (entry_at wc ns s) qs)" for qs
  proof (induction qs)
    case (Cons q qs)
    then show ?case using assms
      by (auto simp: List.map_filter_simps entry_at_def entry_from_bytes_def log_readable_def split: option.split)
  qed (simp add: List.map_filter_simps)
  ultimately show ?thesis
    by (simp add: wal_scan_up_to_def io_simps run_try_map_pure[OF run_fetch_slot] List.map_filter_simps
        del: upt_Suc)
qed

lemma wal_listing_sorted:
  assumes "wal_clean ns s"
  shows "sort (map om_location (list_objects (ns @ ''/wal/'') s))
    = map (wal_path ns) (sorted_list_of_set (wal_seqs ns s))"
proof (rule strict_sorted_equal)
  have "distinct (map fst (objects s))"
    using assms by (simp add: wal_clean_def bt_store_def bt_ok_distinct)
  then have "distinct (map om_location (list_objects (ns @ ''/wal/'') s))"
    by (simp add: list_objects_def comp_def split_beta distinct_map_filter)
  then show "sorted_wrt (<) (sort (map om_location (list_objects (ns @ ''/wal/'') s)))"
    by (simp add: strict_sorted_iff)
  have "sorted_wrt (\<lambda>x y. wal_path ns x < wal_path ns y) (sorted_list_of_set (wal_seqs ns s))"
    using strict_sorted_list_of_set[of "wal_seqs ns s"]
    by (rule sorted_wrt_mono_rel[rotated]) (auto simp: finite_wal_seqs wal_seqs_def wal_path_less)
  then show "sorted_wrt (<) (map (wal_path ns) (sorted_list_of_set (wal_seqs ns s)))"
    by (simp add: sorted_wrt_map)
qed (use set_wal_listing[OF assms] finite_wal_seqs in simp)

lemma run_scans_agree:
  assumes "wal_clean ns s" and "log_readable wc ns s" and "h < U64_LIMIT"
  shows "run (wal_scan wc ns a (Some h)) s = run (wal_scan_up_to wc ns a h) s"
proof -
  let ?W = "sorted_list_of_set (wal_seqs ns s)"
  let ?Q = "filter (\<lambda>q. q \<le> h) (filter (\<lambda>q. a < q) ?W)"
  have W: "q < U64_LIMIT \<and> lookup_obj s (wal_path ns q) \<noteq> None" if "q \<in> set ?W" for q
    using that finite_wal_seqs by (simp add: wal_seqs_def)
  have "List.map_filter (\<lambda>p. map_option (\<lambda>q. (q, p)) (parse_wal_seq p)) (map (wal_path ns) qs)
      = map (\<lambda>q. (q, wal_path ns q)) qs" if "\<forall>q \<in> set qs. q < U64_LIMIT" for qs
    using that by (induction qs) (auto simp: List.map_filter_simps parse_wal_path)
  then have paths: "sort_key fst (filter (\<lambda>(seq, _). seq \<le> h) (filter (\<lambda>(seq, _). a < seq)
      (List.map_filter (\<lambda>p. map_option (\<lambda>q. (q, p)) (parse_wal_seq p)) (map (wal_path ns) ?W))))
      = map (\<lambda>q. (q, wal_path ns q)) ?Q"
    using W by (simp add: filter_map comp_def split_beta sort_key_id_if_sorted sorted_wrt_filter)
  have Q: "?Q = filter (\<lambda>q. q \<in> wal_seqs ns s) [a + 1..<h + 1]"
    by (rule strict_sorted_equal)
      (auto simp: finite_wal_seqs simp del: upt_Suc intro!: sorted_wrt_filter)
  have get: "run (io_try_map store_get_immutable (map (wal_path ns) ?Q)) s
      = (Inr (map (\<lambda>p. ob_bytes (the (lookup_obj s p))) (map (wal_path ns) ?Q)), s)"
    using W by (intro run_try_map_pure) (auto split: option.split)
  have "decode_entries wc (map (\<lambda>p. ob_bytes (the (lookup_obj s p))) (map (wal_path ns) ?Q))
      = Inr (map (\<lambda>q. the (entry_at wc ns s q)) ?Q)"
    using assms(2) by (subst decode_entries_map) (auto simp: log_readable_def entry_at_def split: option.split dest!: W)
  moreover have "List.map_filter (entry_at wc ns s) qs = map (\<lambda>q. the (entry_at wc ns s q)) (filter (\<lambda>q. q \<in> wal_seqs ns s) qs)"
    if "\<forall>q \<in> set qs. q < U64_LIMIT" for qs
    using that assms(2)
    by (induction qs) (auto simp: List.map_filter_simps entry_at_def wal_seqs_def log_readable_def split: option.split)
  then have "List.map_filter (entry_at wc ns s) [a + 1..<h + 1] = map (\<lambda>q. the (entry_at wc ns s q)) ?Q"
    using assms(3) Q by (simp del: upt_Suc)
  ultimately show ?thesis
    by (simp add: wal_scan_def io_simps wal_listing_sorted[OF assms(1)] paths get comp_def
        run_scan_up_to[OF assms(2)] del: upt_Suc filter_filter)
qed

text \<open>The two tail scans agree: enumerating the slots of \<open>(a, h]\<close> by construction, without a
  listing, folds the same entries as listing the log and filtering.\<close>
theorem scans_agree:
  assumes "wal_clean ns s" and "log_readable wc ns s" and "h < U64_LIMIT"
  shows "run (wal_scan wc ns a (Some h)) s = run (wal_scan_up_to wc ns a h) s"
  by (rule run_scans_agree[OF assms])

lemma map_filter_cong: "(\<And>x. x \<in> set xs \<Longrightarrow> f x = g x) \<Longrightarrow> List.map_filter f xs = List.map_filter g xs"
  by (induction xs) (auto simp: List.map_filter_simps split: option.split)

lemma run_commit_acked:
  assumes "run (commit mc wc ops w) s = ((Inr c, w'), s')" "ops \<noteq> []" "cr_seq c < U64_LIMIT"
  shows "(\<exists>ob. lookup_obj s' (wal_path (wr_ns w) (cr_seq c)) = Some ob
      \<and> encode wc (wal_entry_new (cr_seq c) ops) = Some (ob_bytes ob))
    \<and> (\<exists>h. pointer_at (head_ptr w) s' = Some h \<and> cr_seq c \<le> h)"
proof (cases "wr_next_seq w")
  case None
  obtain r t where "run (cold_next_seq mc (wr_ns w)) s = (r, t)" by (cases "run (cold_next_seq mc (wr_ns w)) s")
  with None assms(1,2) obtain q where "run (claim_loop wc MAX_CLAIM_ATTEMPTS ops q w) t = ((Inr c, w'), s')"
    by (auto simp: commit_def io_simps split: sum.split_asm)
  with assms(3) show ?thesis by (rule run_claim_loop_acked[rotated])
next
  case (Some q)
  with assms(1,2) have "run (claim_loop wc MAX_CLAIM_ATTEMPTS ops q w) s = ((Inr c, w'), s')"
    by (simp add: commit_def)
  with assms(3) show ?thesis by (rule run_claim_loop_acked[rotated])
qed

lemma run_resolve_head:
  "pointer_at (wal_head_pointer_path ns) s = Some h \<Longrightarrow> run (resolve_head ns) s = (Inr h, s)"
  by (auto simp: resolve_head_def io_simps pointer_at_def split: option.split_asm)


section \<open>A writer with a stale head\<close>

text \<open>C39. A cached next sequence is trusted even when the log has moved on and been reclaimed: if the
  slot is free again and not past the manifest's cursor, the commit is acknowledged there on the
  first attempt, and a strong read from that cursor folds exactly what it folded before the
  commit: the acknowledged write is invisible.\<close>
theorem stale_writer_write_invisible:
  assumes "wr_next_seq w = Some q" and "lookup_obj s (wal_path (wr_ns w) q) = None"
    and "q \<le> cursor" and "q < U64_LIMIT" and "ops \<noteq> []" and "ops_guard ops = None"
    and "encode wc (wal_entry_new q ops) = Some bs"
    and "log_readable wc (wr_ns w) s" and "codec_ok wc"
  shows "\<exists>w' s'. run (commit mc wc ops w) s = ((Inr \<lparr>cr_seq = q, cr_attempts = 1\<rparr>, w'), s')
    \<and> (\<forall>head. fst (run (wal_scan_up_to wc (wr_ns w) cursor head) s')
         = fst (run (wal_scan_up_to wc (wr_ns w) cursor head) s))"
proof -
  have max: "MAX_CLAIM_ATTEMPTS = Suc 31" by (simp add: MAX_CLAIM_ATTEMPTS_def)
  from run_claim_free[OF assms(6,7,2,4), of 31] obtain w' s' ob where
    run: "run (claim_loop wc (Suc 31) ops q w) s = ((Inr \<lparr>cr_seq = q, cr_attempts = 1\<rparr>, w'), s')"
    and ob: "lookup_obj s' (wal_path (wr_ns w) q) = Some ob" "ob_bytes ob = bs"
    and fr: "\<forall>p. p \<noteq> head_ptr w \<longrightarrow> p \<noteq> wal_path (wr_ns w) q \<longrightarrow> lookup_obj s' p = lookup_obj s p"
    by (auto simp: max)
  have same: "lookup_obj s' (wal_path (wr_ns w) r) = lookup_obj s (wal_path (wr_ns w) r)" if "r \<noteq> q" for r
    using fr that wal_path_not_pointer by auto
  have rd: "log_readable wc (wr_ns w) s'"
    using assms(7,8,9) ob same codec_okD unfolding log_readable_def by (metis option.distinct(1) option.inject)
  have "List.map_filter (entry_at wc (wr_ns w) s') [cursor + 1..<head + 1]
      = List.map_filter (entry_at wc (wr_ns w) s) [cursor + 1..<head + 1]" for head
    using same assms(3) by (intro map_filter_cong) (auto simp: entry_at_def)
  then have "fst (run (wal_scan_up_to wc (wr_ns w) cursor head) s')
      = fst (run (wal_scan_up_to wc (wr_ns w) cursor head) s)" for head
    by (simp add: run_scan_up_to[OF rd] run_scan_up_to[OF assms(8)] del: upt_Suc)
  moreover have "run (commit mc wc ops w) s = ((Inr \<lparr>cr_seq = q, cr_attempts = 1\<rparr>, w'), s')"
    using run assms(1,5) by (simp add: commit_def max del: claim_loop.simps)
  ultimately show ?thesis by blast
qed

text \<open>The head pointer can move backwards: a writer whose cached pointer version is current swaps
  the pointer to its own sequence without comparing, so after it commits at a stale free slot the
  pointer names that slot, below the head it named before.\<close>
theorem stale_writer_lowers_head:
  assumes "wr_next_seq w = Some q" and "lookup_obj s (wal_path (wr_ns w) q) = None" and "q < U64_LIMIT"
    and "lookup_obj s (wal_head_pointer_path (wr_ns w)) = Some ob" and "wr_head_etag w = Some (tag_etag (ob_tag ob))"
    and "ops \<noteq> []" and "ops_guard ops = None" and "encode wc (wal_entry_new q ops) = Some bs"
    and "pointer_at (wal_head_pointer_path (wr_ns w)) s = Some h" and "q < h"
  shows "\<exists>w' s'. run (commit mc wc ops w) s = ((Inr \<lparr>cr_seq = q, cr_attempts = 1\<rparr>, w'), s')
    \<and> pointer_at (wal_head_pointer_path (wr_ns w)) s' = Some q"
proof -
  obtain n where max: "MAX_CLAIM_ATTEMPTS = Suc n" by (simp add: MAX_CLAIM_ATTEMPTS_def)
  have ne: "wal_head_pointer_path (wr_ns w) \<noteq> wal_path (wr_ns w) q" using wal_path_not_pointer by metis
  let ?s = "write_obj (wal_path (wr_ns w) q) bs s" and ?w = "w\<lparr>wr_next_seq := Some (q + 1)\<rparr>"
  have "\<exists>w'. run (bump_loop (Suc n) q ?w) ?s
      = ((Inr (), w'), write_obj (wal_head_pointer_path (wr_ns w)) (head_pointer_bytes q) ?s)"
    using assms(4,5) ne by (simp add: io_simps Let_def)
  then obtain w' where b: "run (bump_head_pointer q ?w) ?s
      = ((Inr (), w'), write_obj (wal_head_pointer_path (wr_ns w)) (head_pointer_bytes q) ?s)"
    by (auto simp: bump_head_pointer_def max)
  have "run (commit mc wc ops w) s = ((Inr \<lparr>cr_seq = q, cr_attempts = 1\<rparr>, w'),
      write_obj (wal_head_pointer_path (wr_ns w)) (head_pointer_bytes q) ?s)"
    using assms(1,2,6,7,8) b by (simp add: commit_def max io_simps seq_path_def)
  then show ?thesis using pointer_at_write[OF assms(3)] by blast
qed

section \<open>Concrete instances\<close>

theorem wal_head_correct_witness:
  "fst (run (wal_head ''n'') empty_store)
   = Inr (if wal_seqs ''n'' empty_store = {} then 0 else Max (wal_seqs ''n'' empty_store))"
  by (rule wal_head_correct) (simp add: wal_clean_def bt_store_def empty_store_def)

lemma lookup_empty_store [simp]: "lookup_obj empty_store p = None"
  by (simp add: lookup_obj_def empty_store_def)

lemma empty_store_facts:
  "wal_clean ns empty_store" "folded_head mc ns empty_store = Some 0" "listed_head ns empty_store = 0"
  by (simp_all add: wal_clean_def bt_store_def folded_head_def listed_head_def wal_seqs_def lookup_obj_def
      empty_store_def)

text \<open>Two commits of one batch by one writer, on a store that starts empty; the entry codec is a
  two-line table.\<close>

definition sample_ops :: "op list" where
  "sample_ops = [Tombstone (MemoryId [1])]"

definition sample_wc :: "wal_entry codec" where
  "sample_wc = table_codec [(wal_entry_new 1 sample_ops, [1]), (wal_entry_new 2 sample_ops, [2])]"

definition sample_mc :: "manifest codec" where
  "sample_mc = table_codec []"

abbreviation sample_commit :: "writer \<Rightarrow> ((wal_error + commit_result) \<times> writer) io" where
  "sample_commit w \<equiv> commit sample_mc sample_wc sample_ops w"

definition sample_writer :: writer where
  "sample_writer = snd (fst (run (sample_commit (writer_new ''n'')) empty_store))"

definition sample_store :: obj_store where
  "sample_store = snd (run (sample_commit (writer_new ''n'')) empty_store)"

definition sample_history :: "(nat \<times> event) list" where
  "sample_history = map (Pair 0) (trace (sample_commit (writer_new ''n'')) empty_store)
     @ map (Pair 1) (trace (sample_commit sample_writer) sample_store)"

lemma sample_wc_ok: "codec_ok sample_wc"
  unfolding sample_wc_def by (rule table_codec_ok) simp

lemma sample_simps [simp]: "sample_ops \<noteq> []" "ops_guard sample_ops = None" "wr_ns (writer_new ns) = ns"
  "encode sample_wc (wal_entry_new 1 sample_ops) = Some [1]" "encode sample_wc (wal_entry_new 2 sample_ops) = Some [2]"
  "1 < U64_LIMIT" "2 < U64_LIMIT" "Suc 0 < U64_LIMIT"
  "encode sample_wc (wal_entry_new (Suc 0) sample_ops) = Some [1]"
  by (simp_all add: sample_ops_def ops_guard_def sample_wc_def table_codec_def wal_entry_new_def U64_LIMIT_def writer_new_def)

lemma sample_first:
  "run (sample_commit (writer_new ''n'')) empty_store = ((Inr \<lparr>cr_seq = 1, cr_attempts = 1\<rparr>, sample_writer), sample_store)"
  "wr_next_seq sample_writer = Some 2" "wr_ns sample_writer = ''n''"
  "p \<noteq> wal_head_pointer_path ''n'' \<Longrightarrow> p \<noteq> wal_path ''n'' 1 \<Longrightarrow> lookup_obj sample_store p = None"
  "\<exists>ob. lookup_obj sample_store (wal_path ''n'' 1) = Some ob \<and> ob_bytes ob = [1]"
proof -
  from run_cold_commit[where ns = "''n''" and mc = sample_mc and q = 1, OF empty_store_facts(1,2) sample_simps(1,2) _ _ sample_simps(4)]
  obtain w' s' where r: "run (sample_commit (writer_new ''n'')) empty_store = ((Inr \<lparr>cr_seq = 1, cr_attempts = 1\<rparr>, w'), s')"
    "\<exists>ob. lookup_obj s' (wal_path ''n'' 1) = Some ob \<and> ob_bytes ob = [1]"
    "wr_next_seq w' = Some (1 + 1)" "wr_ns w' = ''n''"
    "\<forall>p. p \<noteq> wal_head_pointer_path ''n'' \<longrightarrow> p \<noteq> wal_path ''n'' 1 \<longrightarrow> lookup_obj s' p = None"
    by (auto simp: empty_store_facts)
  have ws: "sample_writer = w'" "sample_store = s'" by (simp_all add: sample_writer_def sample_store_def r)
  show "run (sample_commit (writer_new ''n'')) empty_store = ((Inr \<lparr>cr_seq = 1, cr_attempts = 1\<rparr>, sample_writer), sample_store)"
    and "wr_next_seq sample_writer = Some 2" and "wr_ns sample_writer = ''n''"
    and "\<exists>ob. lookup_obj sample_store (wal_path ''n'' 1) = Some ob \<and> ob_bytes ob = [1]"
    using r unfolding ws by simp_all
  show "p \<noteq> wal_head_pointer_path ''n'' \<Longrightarrow> p \<noteq> wal_path ''n'' 1 \<Longrightarrow> lookup_obj sample_store p = None"
    using r(5) unfolding ws by blast
qed

lemma sample_slot_free: "q \<noteq> 1 \<Longrightarrow> lookup_obj sample_store (wal_path ''n'' q) = None"
  using sample_first(4) wal_path_not_pointer by simp

lemma sample_readable: "log_readable sample_wc ''n'' sample_store"
  unfolding log_readable_def
proof (intro allI impI)
  fix q ob assume "lookup_obj sample_store (wal_path ''n'' q) = Some ob"
  with sample_slot_free sample_first(5) have "ob_bytes ob = [1]" by (cases "q = 1") auto
  then show "decode sample_wc (ob_bytes ob) \<noteq> None" by (simp add: sample_wc_def table_codec_def)
qed

lemma sample_second:
  "\<exists>w' s'. run (sample_commit sample_writer) sample_store = ((Inr \<lparr>cr_seq = 2, cr_attempts = 1\<rparr>, w'), s')"
proof -
  have max: "MAX_CLAIM_ATTEMPTS = Suc 31" by (simp add: MAX_CLAIM_ATTEMPTS_def)
  have "run (sample_commit sample_writer) sample_store = run (claim_loop sample_wc (Suc 31) sample_ops 2 sample_writer) sample_store"
    by (simp add: commit_def sample_first(2) max del: claim_loop.simps)
  with run_claim_free[of sample_ops sample_wc 2 "[2]" sample_store sample_writer 31] sample_slot_free
  show ?thesis by (auto simp: sample_first(3) max simp del: claim_loop.simps)
qed

lemma issued_by_pair:
  "issued_by 0 (map (Pair 0) xs @ map (Pair 1) ys) = xs" "issued_by 1 (map (Pair 0) xs @ map (Pair 1) ys) = ys"
  by (simp_all add: issued_by_def filter_map comp_def)

lemma sample_history_ok:
  "history empty_store (map snd sample_history) (snd (run (sample_commit sample_writer) sample_store))"
  using history_trace[of empty_store "sample_commit (writer_new ''n'')"] history_trace[of sample_store "sample_commit sample_writer"]
  by (auto simp: sample_history_def comp_def history_append sample_first(1))

lemma sample_follows:
  "follows (sample_commit (writer_new ''n'')) (issued_by 0 sample_history) (Inr \<lparr>cr_seq = 1, cr_attempts = 1\<rparr>, sample_writer)"
  "\<exists>w'. follows (sample_commit sample_writer) (issued_by 1 sample_history) (Inr \<lparr>cr_seq = 2, cr_attempts = 1\<rparr>, w')"
  using follows_trace[of "sample_commit (writer_new ''n'')" empty_store] follows_trace[of "sample_commit sample_writer" sample_store]
    sample_first(1) sample_second
  unfolding sample_history_def issued_by_pair by auto

lemma sample_spares: "x \<in> set sample_history \<Longrightarrow> spares_wal (fst (snd x))"
  using follows_io_all[OF follows_trace commit_spares_wal] by (auto simp: sample_history_def)



theorem acked_commit_respects_guard_witness:
  "cr_seq \<lparr>cr_seq = 1, cr_attempts = 1\<rparr> < (2::nat)"
proof -
  let ?ops = "[Guard 2, Tombstone (MemoryId [1])]"
  let ?wc = "table_codec [(wal_entry_new 1 ?ops, [1])]"
  let ?p = "commit sample_mc ?wc ?ops (writer_new ''n'')"
  have "fst (fst (run ?p empty_store)) = Inr \<lparr>cr_seq = 1, cr_attempts = 1\<rparr>" by code_simp
  then have "follows ?p (trace ?p empty_store) (Inr \<lparr>cr_seq = 1, cr_attempts = 1\<rparr>, snd (fst (run ?p empty_store)))"
    using follows_trace[of ?p empty_store] by (metis prod.collapse)
  from acked_commit_respects_guard[OF this, of 2] show ?thesis by (simp add: ops_guard_def)
qed

theorem cold_commit_succeeds_witness:
  "fst (fst (run (sample_commit (writer_new ''n'')) empty_store)) = Inr \<lparr>cr_seq = 1, cr_attempts = 1\<rparr>"
  using cold_commit_succeeds[of "''n''" empty_store sample_mc 0 sample_ops sample_wc "[1]"]
  by (simp add: empty_store_facts)

theorem scans_agree_witness:
  "run (wal_scan sample_wc ''n'' 0 (Some 1)) empty_store = run (wal_scan_up_to sample_wc ''n'' 0 1) empty_store"
  by (rule scans_agree) (simp_all add: empty_store_facts log_readable_def)


theorem stale_writer_write_invisible_witness:
  "\<exists>w' s'. run (sample_commit sample_writer) sample_store = ((Inr \<lparr>cr_seq = 2, cr_attempts = 1\<rparr>, w'), s')
    \<and> (\<forall>head. fst (run (wal_scan_up_to sample_wc ''n'' 3 head) s')
         = fst (run (wal_scan_up_to sample_wc ''n'' 3 head) sample_store))"
  using stale_writer_write_invisible[of sample_writer 2 sample_store 3 sample_ops sample_wc "[2]" sample_mc]
    sample_readable sample_wc_ok sample_slot_free sample_first(2,3) by simp

theorem stale_writer_lowers_head_witness:
  "\<exists>w' s'. run (sample_commit \<lparr>wr_ns = ''n'', wr_next_seq = Some 1, wr_head_etag = Some (tag_etag 0)\<rparr>)
      (write_obj (wal_head_pointer_path ''n'') (head_pointer_bytes 9) empty_store)
      = ((Inr \<lparr>cr_seq = 1, cr_attempts = 1\<rparr>, w'), s')
    \<and> pointer_at (wal_head_pointer_path ''n'') s' = Some 1"
proof -
  let ?w = "\<lparr>wr_ns = ''n'', wr_next_seq = Some 1, wr_head_etag = Some (tag_etag 0)\<rparr>"
  let ?s = "write_obj (wal_head_pointer_path ''n'') (head_pointer_bytes 9) empty_store"
  have "pointer_at (wal_head_pointer_path ''n'') ?s = Some 9"
    by (rule pointer_at_write) (simp add: U64_LIMIT_def)
  moreover have "lookup_obj ?s (wal_path ''n'' 1) = None" using wal_path_not_pointer by simp
  moreover have "lookup_obj ?s (wal_head_pointer_path ''n'')
      = Some \<lparr>ob_bytes = head_pointer_bytes 9, ob_tag = 0, ob_modified = 0\<rparr>"
    by (simp add: empty_store_def)
  ultimately show ?thesis
    using stale_writer_lowers_head[of ?w 1 ?s "\<lparr>ob_bytes = head_pointer_bytes 9, ob_tag = 0, ob_modified = 0\<rparr>"
        sample_ops sample_wc "[1]" 9 sample_mc] by simp
qed

end
