(* ===== verification/Cas.thy ===== *)
theory Cas
  imports Commit_Safety
begin

text \<open>
  Optimistic concurrency over one object: what a successful compare-and-swap says about the
  history around it. Version tokens never repeat, so a swap that presents the token of an earlier
  read succeeds only if the object was not written in between. The manifest, the head pointer and
  the index queue are all published this way.
\<close>

section \<open>Version tokens\<close>

definition tags_ok :: "obj_store \<Rightarrow> bool" where
  "tags_ok s = (\<forall>p ob. lookup_obj s p = Some ob \<longrightarrow> ob_tag ob < next_tag s)"

text \<open>The tokens of the current objects are the tokens of before, or fresh.\<close>
definition fresh_step :: "obj_store \<Rightarrow> obj_store \<Rightarrow> bool" where
  "fresh_step s s' = (next_tag s \<le> next_tag s' \<and> (\<forall>p ob. lookup_obj s' p = Some ob \<longrightarrow>
     lookup_obj s p = Some ob \<or> next_tag s \<le> ob_tag ob \<and> ob_tag ob < next_tag s'))"

lemma fresh_step_refl: "fresh_step s s"
  by (simp add: fresh_step_def)

lemma fresh_step_trans: "fresh_step a b \<Longrightarrow> fresh_step b c \<Longrightarrow> fresh_step a c"
  unfolding fresh_step_def by (meson le_trans less_le_trans order.strict_trans2)

lemma fresh_step_tags_ok: "fresh_step s s' \<Longrightarrow> tags_ok s \<Longrightarrow> tags_ok s'"
  unfolding fresh_step_def tags_ok_def by (meson less_le_trans)

lemma fresh_write: "fresh_step s (write_obj p b s)"
  by (auto simp: fresh_step_def write_obj_def lookup_obj_def)

lemma fresh_remove: "fresh_step s (remove_obj p s)"
  by (auto simp: fresh_step_def remove_obj_def lookup_obj_def split: if_split_asm)

lemma fresh_exec: "os_exec q s = (r, s') \<Longrightarrow> fresh_step s s'"
proof (cases q)
  case (ReqPut p b m)
  assume "os_exec q s = (r, s')"
  with ReqPut show ?thesis
    by (cases m) (auto simp: fresh_write fresh_step_refl split: option.split_asm if_split_asm)
qed (auto simp: fresh_step_refl fresh_remove split: option.split_asm)

lemma fresh_store_step: "store_step s e s' \<Longrightarrow> fresh_step s s'"
proof (induction rule: store_step.induct)
  case (Tick s e s' t)
  then show ?case by (simp add: fresh_step_def)
qed (auto simp: fresh_exec fresh_step_refl)

lemma fresh_history: "history s es s' \<Longrightarrow> fresh_step s s'"
  by (induction rule: history.induct) (auto intro: fresh_step_refl fresh_step_trans dest: fresh_store_step)

lemma same_tag_same_object:
  assumes "history s es s'" "tags_ok s" "lookup_obj s p = Some ob" "lookup_obj s' p = Some ob'"
    and "ob_tag ob' = ob_tag ob"
  shows "ob' = ob"
  using fresh_history[OF assms(1)] assms(2-5) unfolding fresh_step_def tags_ok_def
  by (metis linorder_not_le option.inject)

section \<open>Reads and swaps\<close>

lemma get_done:
  assumes "store_step s (ReqGet p None, RspGet (Inr (b, Some e))) s'"
  shows "\<exists>ob. lookup_obj s p = Some ob \<and> lookup_obj s' p = Some ob \<and> ob_bytes ob = b
    \<and> e = tag_etag (ob_tag ob)"
proof -
  have "store_step s x s' \<Longrightarrow> x = (ReqGet p None, RspGet (Inr (b, Some e))) \<Longrightarrow> ?thesis" for x
    by (induction rule: store_step.induct) (auto split: option.split_asm)
  with assms show ?thesis by blast
qed

lemma swap_done:
  assumes "store_step s (ReqPut p b (Update e), RspPut (Inr t)) s'"
  shows "\<exists>ob ob'. lookup_obj s p = Some ob \<and> e = tag_etag (ob_tag ob)
    \<and> lookup_obj s' p = Some ob' \<and> ob_bytes ob' = b"
proof -
  have "store_step s x s' \<Longrightarrow> x = (ReqPut p b (Update e), RspPut (Inr t)) \<Longrightarrow> ?thesis" for x
    by (induction rule: store_step.induct) (auto split: option.split_asm if_split_asm)
  with assms show ?thesis by blast
qed

text \<open>A read and a later successful swap with its token, with anything in between: just before the
  swap the object still holds the bytes that were read.\<close>
lemma cas_linearizes:
  assumes "history s (xs @ (ReqGet p None, RspGet (Inr (b, Some e))) # ys) s1" "tags_ok s"
    and "store_step s1 (ReqPut p b' (Update e), RspPut (Inr t)) s2"
  shows "\<exists>ob ob'. lookup_obj s1 p = Some ob \<and> ob_bytes ob = b \<and> lookup_obj s2 p = Some ob' \<and> ob_bytes ob' = b'"
proof -
  from assms(1) obtain sa sb where h: "history s xs sa" "store_step sa (ReqGet p None, RspGet (Inr (b, Some e))) sb"
    "history sb ys s1" by (auto simp: history_append)
  have "tags_ok sb"
    using assms(2) fresh_history[OF h(1)] fresh_store_step[OF h(2)] fresh_step_tags_ok by blast
  from get_done[OF h(2)] obtain ob where
    ob: "lookup_obj sb p = Some ob" "ob_bytes ob = b" "e = tag_etag (ob_tag ob)" by blast
  from swap_done[OF assms(3)] obtain ob1 ob' where
    sw: "lookup_obj s1 p = Some ob1" "e = tag_etag (ob_tag ob1)" "lookup_obj s2 p = Some ob'" "ob_bytes ob' = b'" by blast
  have "ob1 = ob" using same_tag_same_object[OF h(3) \<open>tags_ok sb\<close> ob(1) sw(1)] sw(2) ob(3) by simp
  with ob sw show ?thesis by blast
qed

end
