(* ===== verification/Index_Queue.thy ===== *)
theory Index_Queue
  imports Cas
begin

text \<open>
  The indexer's work queue (\<open>mlake-wal/src/index_queue.rs\<close>): one JSON object updated by
  compare-and-swap. The four mutating operations are pure steps on the queue state; each runs in
  the same bounded read-modify-swap loop (\<open>queue_update\<close>). The JSON codec is a parameter.
\<close>

section \<open>Definitions\<close>

definition QUEUE_PATH :: string where "QUEUE_PATH = ''_index-queue.json''"

definition MAX_CAS_ATTEMPTS :: nat where "MAX_CAS_ATTEMPTS = 16"

datatype job_state = Pending | Claimed

record job =
  j_state :: job_state
  j_claimed_by :: "string option"
  j_heartbeat_ms :: nat
  j_enqueued_ms :: nat

type_synonym queue_state = "(string, job) btree"

definition queue_pending :: "queue_state \<Rightarrow> string list" where
  "queue_pending q = map fst (filter (\<lambda>(_, j). j_state j = Pending) q)"

definition queue_read :: "queue_state codec \<Rightarrow> (wal_error + queue_state \<times> etag option) io" where
  "queue_read qc = io_bind (store_get QUEUE_PATH) (\<lambda>r. Ret (case r of
     Inr v \<Rightarrow> Inr ((case decode qc (v_bytes v) of Some q \<Rightarrow> q | None \<Rightarrow> []), v_etag v)
   | Inl (NotFound _) \<Rightarrow> Inr ([], None)
   | Inl e \<Rightarrow> Inl (WStore e)))"

definition queue_write :: "queue_state codec \<Rightarrow> queue_state \<Rightarrow> etag option \<Rightarrow> (wal_error + unit) io" where
  "queue_write qc q etag = (case encode qc q of
     None \<Rightarrow> Ret (Inl WJson)
   | Some bs \<Rightarrow> io_map_err WStore (case etag of
       Some e \<Rightarrow> io_try (store_cas_swap QUEUE_PATH e bs) (\<lambda>_. Ret (Inr ()))
     | None \<Rightarrow> io_try (store_put_if_absent QUEUE_PATH bs) (\<lambda>_. Ret (Inr ()))))"

text \<open>One operation on the state that was read: return at once, or write a new state and return.\<close>
type_synonym 'a queue_step = "nat \<Rightarrow> queue_state \<Rightarrow> 'a + queue_state \<times> 'a"

definition now_ms :: "nat io" where
  "now_ms = io_bind io_now (\<lambda>t. Ret (nat t))"

text \<open>The loop the four operations share; \<open>gave_up\<close> is what they return when every attempt lost
  the race.\<close>
fun queue_update :: "queue_state codec \<Rightarrow> 'a queue_step \<Rightarrow> 'a \<Rightarrow> nat \<Rightarrow> (wal_error + 'a) io" where
  "queue_update qc f gave_up 0 = Ret (Inr gave_up)"
| "queue_update qc f gave_up (Suc n) =
     io_try (queue_read qc) (\<lambda>(q, etag).
     io_bind now_ms (\<lambda>now.
     case f now q of
       Inl x \<Rightarrow> Ret (Inr x)
     | Inr (q', x) \<Rightarrow> io_bind (queue_write qc q' etag) (\<lambda>r. case r of
           Inr _ \<Rightarrow> Ret (Inr x)
         | Inl e \<Rightarrow> if wal_is_conflict e then queue_update qc f gave_up n else Ret (Inl e))))"

definition enqueue_step :: "string \<Rightarrow> unit queue_step" where
  "enqueue_step ns now q = (case map_of q ns of
     Some _ \<Rightarrow> Inl ()
   | None \<Rightarrow> Inr (bt_insert ns \<lparr>j_state = Pending, j_claimed_by = None, j_heartbeat_ms = 0, j_enqueued_ms = now\<rparr> q, ()))"

definition enqueue :: "queue_state codec \<Rightarrow> string \<Rightarrow> (wal_error + unit) io" where
  "enqueue qc ns = queue_update qc (enqueue_step ns) () MAX_CAS_ATTEMPTS"

definition claimable :: "nat \<Rightarrow> nat \<Rightarrow> job \<Rightarrow> bool" where
  "claimable now stale_after j = (j_state j = Pending \<or> stale_after < now - j_heartbeat_ms j)"

definition claim_step :: "string \<Rightarrow> nat \<Rightarrow> string option queue_step" where
  "claim_step worker stale_after now q = (case find (\<lambda>(_, j). claimable now stale_after j) q of
     None \<Rightarrow> Inl None
   | Some (ns, _) \<Rightarrow> Inr (map (\<lambda>(n, j). if n = ns
         then (n, j\<lparr>j_state := Claimed, j_claimed_by := Some worker, j_heartbeat_ms := now\<rparr>) else (n, j)) q, Some ns))"

definition claim :: "queue_state codec \<Rightarrow> string \<Rightarrow> nat \<Rightarrow> (wal_error + string option) io" where
  "claim qc worker stale_after = queue_update qc (claim_step worker stale_after) None MAX_CAS_ATTEMPTS"

definition heartbeat_step :: "string \<Rightarrow> string \<Rightarrow> bool queue_step" where
  "heartbeat_step ns worker now q = (case map_of q ns of
     Some j \<Rightarrow> if j_claimed_by j = Some worker then Inr (bt_insert ns (j\<lparr>j_heartbeat_ms := now\<rparr>) q, True) else Inl False
   | None \<Rightarrow> Inl False)"

definition heartbeat :: "queue_state codec \<Rightarrow> string \<Rightarrow> string \<Rightarrow> (wal_error + bool) io" where
  "heartbeat qc ns worker = queue_update qc (heartbeat_step ns worker) False MAX_CAS_ATTEMPTS"

definition complete_step :: "string \<Rightarrow> string \<Rightarrow> bool \<Rightarrow> unit queue_step" where
  "complete_step ns worker still_dirty now q = (case map_of q ns of
     Some j \<Rightarrow> if j_claimed_by j = Some worker
       then Inr (if still_dirty then bt_insert ns (j\<lparr>j_state := Pending, j_claimed_by := None, j_heartbeat_ms := 0\<rparr>) q
                 else bt_delete ns q, ())
       else Inl ()
   | None \<Rightarrow> Inl ())"

definition complete :: "queue_state codec \<Rightarrow> string \<Rightarrow> string \<Rightarrow> bool \<Rightarrow> (wal_error + unit) io" where
  "complete qc ns worker still_dirty = queue_update qc (complete_step ns worker still_dirty) () MAX_CAS_ATTEMPTS"

definition queue_snapshot :: "queue_state codec \<Rightarrow> (wal_error + queue_state) io" where
  "queue_snapshot qc = io_try (queue_read qc) (\<lambda>(q, _). Ret (Inr q))"

section \<open>Steps on the state\<close>

text \<open>The queue a store holds; a missing or unreadable object is an empty queue.\<close>
definition queue_at :: "queue_state codec \<Rightarrow> obj_store \<Rightarrow> queue_state" where
  "queue_at qc s = (case lookup_obj s QUEUE_PATH of None \<Rightarrow> []
     | Some ob \<Rightarrow> (case decode qc (ob_bytes ob) of Some q \<Rightarrow> q | None \<Rightarrow> []))"

lemma find_SomeD: "find P xs = Some x \<Longrightarrow> x \<in> set xs \<and> P x"
  by (induction xs) (auto split: if_split_asm)

lemma map_of_update_one:
  "map_of (map (\<lambda>(n, j). if n = ns then (n, f j) else (n, j)) q) k =
     (if k = ns then map_option f (map_of q k) else map_of q k)"
  by (induction q) auto

lemma claim_step_spec:
  assumes "claim_step w stale now q = Inr (q', Some ns)" "bt_ok q"
  shows "\<exists>j. map_of q ns = Some j \<and> claimable now stale j
    \<and> map_of q' = (map_of q)(ns \<mapsto> j\<lparr>j_state := Claimed, j_claimed_by := Some w, j_heartbeat_ms := now\<rparr>) \<and> bt_ok q'"
proof -
  from assms(1) obtain j where f: "find (\<lambda>(_, j). claimable now stale j) q = Some (ns, j)"
    and q': "q' = map (\<lambda>(n, j). if n = ns
         then (n, j\<lparr>j_state := Claimed, j_claimed_by := Some w, j_heartbeat_ms := now\<rparr>) else (n, j)) q"
    by (auto simp: claim_step_def split: option.split_asm)
  from find_SomeD[OF f] have "(ns, j) \<in> set q" "claimable now stale j" by auto
  moreover have "map_of q ns = Some j" using \<open>(ns, j) \<in> set q\<close> bt_ok_distinct[OF assms(2)] by simp
  moreover have "map fst q' = map fst q" unfolding q' by (auto simp: split_beta)
  moreover have "map_of q' = (map_of q)(ns \<mapsto> j\<lparr>j_state := Claimed, j_claimed_by := Some w, j_heartbeat_ms := now\<rparr>)"
    using \<open>map_of q ns = Some j\<close> unfolding q' by (auto simp: map_of_update_one fun_eq_iff)
  ultimately show ?thesis using assms(2) by auto
qed

section \<open>Every successful update is atomic\<close>

lemma follows_store_getE:
  assumes "follows (store_get p) es r"
  obtains x where "es = [(ReqGet p None, x)]" "r = (case x of
      RspGet (Inr (b, e)) \<Rightarrow> Inr \<lparr>v_bytes = b, v_etag = e\<rparr>
    | RspGet (Inl OsNotFound) \<Rightarrow> Inl (NotFound p) | RspGet (Inl e) \<Rightarrow> Inl (ObjectStore e)
    | _ \<Rightarrow> Inl (ObjectStore OsOther))"
  using assms by (auto simp: store_get_def os_get_def split: response.split_asm sum.split_asm os_error.split_asm)

lemma follows_queue_read:
  assumes "follows (queue_read qc) es (Inr (q, etag))"
  shows "(\<exists>b. es = [(ReqGet QUEUE_PATH None, RspGet (Inr (b, etag)))]
      \<and> q = (case decode qc b of Some q \<Rightarrow> q | None \<Rightarrow> []))
    \<or> es = [(ReqGet QUEUE_PATH None, RspGet (Inl OsNotFound))] \<and> q = [] \<and> etag = None"
  using assms
  by (auto simp: queue_read_def elim!: follows_store_getE
      split: response.split_asm sum.split_asm os_error.split_asm store_error.split_asm prod.split_asm)

lemma follows_queue_write:
  assumes "follows (queue_write qc q etag) es (Inr ())"
  shows "\<exists>bs t. encode qc q = Some bs \<and>
    es = [(ReqPut QUEUE_PATH bs (case etag of Some e \<Rightarrow> Update e | None \<Rightarrow> Create), RspPut (Inr t))]"
  using assms
  by (auto simp: queue_write_def io_map_err_def follows_try store_cas_swap_def store_put_if_absent_def
      split: option.split_asm sum.split_asm response.split_asm os_error.split_asm)

text \<open>The read and the write a returning update ends with.\<close>
lemma queue_update_wrote:
  assumes "follows (queue_update qc f g n) es (Inr x)" "x \<noteq> g" "\<And>now q. f now q \<noteq> Inl x"
  shows "\<exists>es1 ys now q q' etag rd bs t.
    es = es1 @ (ReqGet QUEUE_PATH None, rd) # ys
      @ [(ReqPut QUEUE_PATH bs (case etag of Some e \<Rightarrow> Update e | None \<Rightarrow> Create), RspPut (Inr t))]
    \<and> f now q = Inr (q', x) \<and> encode qc q' = Some bs
    \<and> (rd = RspGet (Inl OsNotFound) \<and> q = [] \<and> etag = None
       \<or> (\<exists>b. rd = RspGet (Inr (b, etag)) \<and> q = (case decode qc b of Some q \<Rightarrow> q | None \<Rightarrow> [])))"
  using assms(1)
proof (induction n arbitrary: es)
  case 0
  then show ?case using assms(2) by simp
next
  case (Suc n)
  from Suc.prems obtain e1 e2 e3 q etag now where es: "es = e1 @ e2 @ e3"
    and rd: "follows (queue_read qc) e1 (Inr (q, etag))"
    and k: "follows (case f now q of
       Inl x \<Rightarrow> Ret (Inr x)
     | Inr (q', x) \<Rightarrow> io_bind (queue_write qc q' etag) (\<lambda>r. case r of
           Inr _ \<Rightarrow> Ret (Inr x)
         | Inl e \<Rightarrow> if wal_is_conflict e then queue_update qc f g n else Ret (Inl e))) e3 (Inr x)"
    by (auto simp: follows_try)
  show ?case
  proof (cases "f now q")
    case (Inl y)
    with k assms(3) show ?thesis by auto
  next
    case (Inr p)
    obtain q' y where p: "p = (q', y)" by (cases p)
    from k[unfolded Inr p] obtain e4 e5 r where e3: "e3 = e4 @ e5"
      and w: "follows (queue_write qc q' etag) e4 r"
      and k2: "follows (case r of Inr _ \<Rightarrow> Ret (Inr y)
         | Inl e \<Rightarrow> if wal_is_conflict e then queue_update qc f g n else Ret (Inl e)) e5 (Inr x)"
      by auto
    show ?thesis
    proof (cases r)
      case (Inl e)
      with k2 have "follows (queue_update qc f g n) e5 (Inr x)" by (auto split: if_split_asm)
      from Suc.IH[OF this] es e3 show ?thesis by (metis append_assoc)
    next
      case inr: (Inr u)
      with k2 have y: "y = x" "e5 = []" by auto
      from follows_queue_write w inr obtain bs t where "encode qc q' = Some bs"
        "e4 = [(ReqPut QUEUE_PATH bs (case etag of Some e \<Rightarrow> Update e | None \<Rightarrow> Create), RspPut (Inr t))]"
        by (metis (full_types) old.unit.exhaust)
      moreover from follows_queue_read[OF rd] obtain rr where "e1 = [(ReqGet QUEUE_PATH None, rr)]"
        "rr = RspGet (Inl OsNotFound) \<and> q = [] \<and> etag = None
         \<or> (\<exists>b. rr = RspGet (Inr (b, etag)) \<and> q = (case decode qc b of Some q \<Rightarrow> q | None \<Rightarrow> []))" by auto
      ultimately show ?thesis using es e3 y Inr p
        by (intro exI[of _ "[]"] exI[of _ e2] exI[of _ now] exI[of _ q] exI[of _ q'] exI[of _ etag] exI[of _ rr]
            exI[of _ bs] exI[of _ t]) simp
    qed
  qed
qed

text \<open>A returning update that wrote took effect at one instant: at its write the queue still was the
  one it had read.\<close>
lemma queue_update_atomic:
  assumes "history s (map snd h) s'" "tags_ok s" "codec_ok qc"
    and "follows (queue_update qc f g n) (issued_by i h) (Inr x)" "x \<noteq> g" "\<And>now q. f now q \<noteq> Inl x"
  shows "\<exists>u e v s1 s2 now q'. h = u @ (i, e) # v \<and> history s (map snd u) s1 \<and> store_step s1 e s2
    \<and> history s2 (map snd v) s' \<and> f now (queue_at qc s1) = Inr (q', x) \<and> queue_at qc s2 = q'"
proof -
  from queue_update_wrote[OF assms(4-6)] obtain es1 ys now q q' etag rd bs t where
    es: "issued_by i h = es1 @ (ReqGet QUEUE_PATH None, rd) # (ys
      @ [(ReqPut QUEUE_PATH bs (case etag of Some e \<Rightarrow> Update e | None \<Rightarrow> Create), RspPut (Inr t))])"
    and f: "f now q = Inr (q', x)" "encode qc q' = Some bs"
    and rd: "rd = RspGet (Inl OsNotFound) \<and> q = [] \<and> etag = None
       \<or> (\<exists>b. rd = RspGet (Inr (b, etag)) \<and> q = (case decode qc b of Some q \<Rightarrow> q | None \<Rightarrow> []))"
    by (elim exE conjE) (rule that)
  let ?w = "(ReqPut QUEUE_PATH bs (case etag of Some e \<Rightarrow> Update e | None \<Rightarrow> Create), RspPut (Inr t))"
  from issued_by_split[OF es] obtain u v where uv: "h = u @ (i, ReqGet QUEUE_PATH None, rd) # v"
    "issued_by i v = ys @ ?w # []" by auto
  from issued_by_split[OF uv(2)] obtain u2 v2 where v: "v = u2 @ (i, ?w) # v2" by auto
  let ?pre = "u @ (i, ReqGet QUEUE_PATH None, rd) # u2"
  have h: "h = ?pre @ (i, ?w) # v2" using uv(1) v by simp
  have "map snd h = map snd ?pre @ ?w # map snd v2" by (simp add: h)
  with assms(1) have "\<exists>t. history s (map snd ?pre) t \<and> history t (?w # map snd v2) s'"
    by (simp only: history_append)
  then obtain s1 where s1: "history s (map snd ?pre) s1" "history s1 (?w # map snd v2) s'"
    by (elim exE conjE) (rule that)
  from s1(2) obtain s2 where s2: "store_step s1 ?w s2" "history s2 (map snd v2) s'"
    by (rule history_ConsE) (rule that)
  note s = s1(1) s2
  obtain sa sb where g: "history s (map snd u) sa" "store_step sa (ReqGet QUEUE_PATH None, rd) sb"
    using s(1) by (auto simp: history_append)
  have "queue_at qc s1 = q \<and> queue_at qc s2 = q'"
  proof (cases etag)
    case (Some e)
    with rd obtain b where b: "rd = RspGet (Inr (b, Some e))" "q = (case decode qc b of Some q \<Rightarrow> q | None \<Rightarrow> [])" by auto
    from cas_linearizes[of s "map snd u" QUEUE_PATH b e "map snd u2" s1 bs t s2] s(1,2) assms(2) b(1) Some
    show ?thesis using b(2) codec_okD[OF assms(3) f(2)] by (auto simp: queue_at_def)
  next
    case None
    with s(2) have c: "store_step s1 (ReqPut QUEUE_PATH bs Create, RspPut (Inr t)) s2" by simp
    have "rd \<noteq> RspGet (Inr (b, None))" for b
    proof -
      have "store_step sa y sb \<Longrightarrow> y = (ReqGet QUEUE_PATH None, RspGet (Inr (b, None))) \<Longrightarrow> False" for y
        by (induction rule: store_step.induct) (auto split: option.split_asm)
      with g(2) show ?thesis by blast
    qed
    with rd None have "q = []" by auto
    with create_done[OF c] codec_okD[OF assms(3) f(2)] show ?thesis by (auto simp: queue_at_def)
  qed
  with h s f(1) show ?thesis by blast
qed

text \<open>C17. Claims are exclusive: a claim that returns a namespace took effect at one instant, at which
  that namespace had a pending or stale job; it left every other job alone, and from then on no
  worker can claim the namespace until its heartbeat is older than the stale window. (A decoded
  queue is an ordered map.)\<close>
theorem claim_is_exclusive:
  assumes "history s (map snd h) s'" and "tags_ok s" and "codec_ok qc"
    and "\<forall>b q. decode qc b = Some q \<longrightarrow> bt_ok q"
    and "follows (claim qc worker stale) (issued_by i h) (Inr (Some ns))"
  shows "\<exists>u e v s1 s2 now j j'. h = u @ (i, e) # v \<and> history s (map snd u) s1 \<and> store_step s1 e s2
    \<and> map_of (queue_at qc s1) ns = Some j \<and> claimable now stale j
    \<and> map_of (queue_at qc s2) = (map_of (queue_at qc s1))(ns \<mapsto> j')
    \<and> j_claimed_by j' = Some worker \<and> (\<forall>later. later \<le> now + stale \<longrightarrow> \<not> claimable later stale j')"
proof -
  have ni: "claim_step worker stale now q \<noteq> Inl (Some ns)" for now q
    by (auto simp: claim_step_def split: option.split)
  from queue_update_atomic[OF assms(1-3) assms(5)[unfolded claim_def] _ ni]
  obtain u e v s1 s2 now q' where *: "h = u @ (i, e) # v" "history s (map snd u) s1" "store_step s1 e s2"
    "claim_step worker stale now (queue_at qc s1) = Inr (q', Some ns)" "queue_at qc s2 = q'" by auto
  have "bt_ok (queue_at qc s1)" using assms(4) by (auto simp: queue_at_def split: option.split)
  from claim_step_spec[OF *(4) this] obtain j where j: "map_of (queue_at qc s1) ns = Some j" "claimable now stale j"
    "map_of (queue_at qc s2) = (map_of (queue_at qc s1))
       (ns \<mapsto> j\<lparr>j_state := Claimed, j_claimed_by := Some worker, j_heartbeat_ms := now\<rparr>)"
    unfolding *(5) by blast
  let ?j = "j\<lparr>j_state := Claimed, j_claimed_by := Some worker, j_heartbeat_ms := now\<rparr>"
  have "j_claimed_by ?j = Some worker" "\<forall>later. later \<le> now + stale \<longrightarrow> \<not> claimable later stale ?j"
    by (auto simp: claimable_def)
  with *(1-3) j show ?thesis by blast
qed

text \<open>The completion window: a namespace that is enqueued while a worker holds its job is not
  added again, and when the worker then completes the job as drained the queue has no job for it,
  so the notification is gone.\<close>
theorem enqueue_lost_in_completion_window:
  assumes "map_of q ns = Some j" and "j_claimed_by j = Some worker"
  shows "enqueue_step ns now q = Inl ()
    \<and> (\<exists>q'. complete_step ns worker False now q = Inr (q', ()) \<and> map_of q' ns = None)"
  using assms by (simp add: enqueue_step_def complete_step_def)

section \<open>Concrete instances\<close>

definition sample_queue :: queue_state where
  "sample_queue = [(''n'', \<lparr>j_state = Pending, j_claimed_by = None, j_heartbeat_ms = 0, j_enqueued_ms = 0\<rparr>)]"

definition sample_claimed :: queue_state where
  "sample_claimed = [(''n'', \<lparr>j_state = Claimed, j_claimed_by = Some ''w'', j_heartbeat_ms = 0, j_enqueued_ms = 0\<rparr>)]"

definition sample_qc :: "queue_state codec" where
  "sample_qc = table_codec [(sample_queue, [1]), (sample_claimed, [2])]"

lemma sample_qc_ok: "codec_ok sample_qc" "\<forall>b q. decode sample_qc b = Some q \<longrightarrow> bt_ok q"
  unfolding sample_qc_def
  by (rule table_codec_ok, simp) (auto simp: table_codec_def sample_queue_def sample_claimed_def split: if_split_asm)

definition sample_qstore :: obj_store where
  "sample_qstore = write_obj QUEUE_PATH [1] empty_store"

lemma sample_qstore_ok: "tags_ok sample_qstore"
  by (auto simp: tags_ok_def sample_qstore_def lookup_obj_def write_obj_def empty_store_def)

lemma sample_claim_run: "fst (run (claim sample_qc ''w'' 5) sample_qstore) = Inr (Some ''n'')"
  by code_simp

theorem claim_is_exclusive_witness:
  "\<exists>u e v s1 s2 now j j'. map (Pair 0) (trace (claim sample_qc ''w'' 5) sample_qstore) = u @ (0::nat, e) # v
    \<and> history sample_qstore (map snd u) s1 \<and> store_step s1 e s2
    \<and> map_of (queue_at sample_qc s1) ''n'' = Some j \<and> claimable now 5 j
    \<and> map_of (queue_at sample_qc s2) = (map_of (queue_at sample_qc s1))(''n'' \<mapsto> j')
    \<and> j_claimed_by j' = Some ''w'' \<and> (\<forall>later. later \<le> now + 5 \<longrightarrow> \<not> claimable later 5 j')"
proof (rule claim_is_exclusive[OF _ sample_qstore_ok sample_qc_ok])
  show "history sample_qstore (map snd (map (Pair 0) (trace (claim sample_qc ''w'' 5) sample_qstore)))
      (snd (run (claim sample_qc ''w'' 5) sample_qstore))"
    using history_trace by (simp add: comp_def)
  show "follows (claim sample_qc ''w'' 5) (issued_by 0 (map (Pair 0) (trace (claim sample_qc ''w'' 5) sample_qstore)))
      (Inr (Some ''n''))"
    using follows_trace[of "claim sample_qc ''w'' 5" sample_qstore] sample_claim_run
    by (simp add: issued_by_def filter_map comp_def)
qed

theorem enqueue_lost_in_completion_window_witness:
  "enqueue_step ''n'' 0 sample_claimed = Inl ()
    \<and> (\<exists>q'. complete_step ''n'' ''w'' False 0 sample_claimed = Inr (q', ()) \<and> map_of q' ''n'' = None)"
  by (rule enqueue_lost_in_completion_window[where j = "snd (hd sample_claimed)"]) (simp_all add: sample_claimed_def)

end
