(* ===== verification/Range_Read.thy ===== *)
theory Range_Read
  imports Store
begin

text \<open>
  What a read of an immutable object through the block cache returns. An index object is written
  once under a fresh name, so a cached block is valid for ever: if every answer is truthful (a
  ranged read returns the bytes of the object, a cache hit returns what the object has there, any
  request may fail), then a program built from \<open>Store::get_ranges\<close> returns the value computed from
  the object's bytes or an error that some storage request reported, and what it admits to the
  cache is truthful again. \<open>reads\<close> packages this; its rules follow the structure of a program.
\<close>

section \<open>Truthful answers\<close>

definition pick :: "bytes \<Rightarrow> nat \<times> nat \<Rightarrow> bytes" where
  "pick data r = slice (fst r) (snd r) data"

definition truthful :: "path \<Rightarrow> bytes \<Rightarrow> event \<Rightarrow> bool" where
  "truthful p data e = (case e of
     (ReqGetRanges q rs, RspRanges (Inr bs)) \<Rightarrow> bs = map (pick data) rs
   | (ReqCacheGet k, RspCache (Some b)) \<Rightarrow> (\<forall>r. k = range_key p r \<longrightarrow> b = pick data r)
   | _ \<Rightarrow> True)"

text \<open>The requests of a range reader of \<open>p\<close>.\<close>
definition range_request :: "path \<Rightarrow> request \<Rightarrow> bool" where
  "range_request p q = (case q of ReqGetRanges p' _ \<Rightarrow> p' = p | ReqCacheGet _ \<Rightarrow> True
     | ReqCachePut _ _ \<Rightarrow> True | _ \<Rightarrow> False)"

definition admits_truth :: "path \<Rightarrow> bytes \<Rightarrow> event \<Rightarrow> bool" where
  "admits_truth p data e = (case fst e of
     ReqCachePut k b \<Rightarrow> (\<exists>r. k = range_key p r \<and> b = pick data r) | _ \<Rightarrow> True)"

text \<open>A storage request that was not answered with bytes.\<close>
definition failed :: "event \<Rightarrow> bool" where
  "failed e = (case e of (ReqGetRanges _ _, RspRanges (Inr _)) \<Rightarrow> False
     | (ReqGetRanges _ _, _) \<Rightarrow> True | _ \<Rightarrow> False)"

definition reads :: "path \<Rightarrow> bytes \<Rightarrow> ('e + 'a) io \<Rightarrow> 'a \<Rightarrow> bool" where
  "reads p data m x = (io_all (range_request p) m \<and>
     (\<forall>es y. follows m es y \<longrightarrow> list_all (truthful p data) es \<longrightarrow>
        list_all (admits_truth p data) es \<and> (y = Inr x \<or> (\<exists>err. y = Inl err) \<and> list_ex failed es)))"

lemma append_sep_inj:
  "c \<notin> set xs \<Longrightarrow> c \<notin> set xs' \<Longrightarrow> (xs @ c # ys = xs' @ c # ys') = (xs = xs' \<and> ys = ys')"
proof (induction xs arbitrary: xs')
  case Nil then show ?case by (cases xs') auto
next
  case (Cons a xs) then show ?case by (cases xs') auto
qed

lemma range_key_inj [simp]: "range_key p r = range_key p r' \<longleftrightarrow> r = r'"
proof
  assume eq: "range_key p r = range_key p r'"
  have nodash: "CHR ''-'' \<notin> set (show_nat n)" for n
  proof
    assume "CHR ''-'' \<in> set (show_nat n)"
    then obtain d where "d < 10" "CHR ''-'' = digit_char d" using set_show_nat by blast
    then have "digit_val CHR ''-'' = Some d" by simp
    then show False by (simp add: digit_val_def)
  qed
  obtain a b a' b' where [simp]: "r = (a, b)" "r' = (a', b')" by (metis surj_pair)
  from eq have tails: "show_nat a @ ''-'' @ show_nat b = show_nat a' @ ''-'' @ show_nat b'"
    by (simp add: range_key_def)
  then have "show_nat a = show_nat a' \<and> show_nat b = show_nat b'"
    using nodash by (simp add: append_sep_inj)
  then show "r = r'" by (metis parse_show_nat option.inject \<open>r = (a, b)\<close> \<open>r' = (a', b')\<close>)
qed simp

section \<open>Rules\<close>

lemma reads_Ret [intro, simp]: "reads p data (Ret (Inr x)) x"
  by (auto simp: reads_def)

lemma reads_try [intro]:
  assumes m: "reads p data m x" and f: "reads p data (f x) y" and all: "\<And>z. io_all (range_request p) (f z)"
  shows "reads p data (io_try m f) y"
  unfolding reads_def
proof (intro conjI allI impI)
  show "io_all (range_request p) (io_try m f)" using m all by (simp add: reads_def)
next
  fix es z
  assume "follows (io_try m f) es z" and T: "list_all (truthful p data) es"
  then consider (err) e where "z = Inl e" "follows m es (Inl e)"
    | (ok) es1 es2 w where "es = es1 @ es2" "follows m es1 (Inr w)" "follows (f w) es2 z"
    by (auto simp: follows_try)
  then have "list_all (admits_truth p data) es \<and> (z = Inr y \<or> (\<exists>err. z = Inl err) \<and> list_ex failed es)"
  proof cases
    case err
    with m T show ?thesis by (fastforce simp: reads_def)
  next
    case ok
    from ok m T have 1: "list_all (admits_truth p data) es1" "w = x" by (auto simp: reads_def)
    from ok f T 1 have 2: "list_all (admits_truth p data) es2"
      "z = Inr y \<or> (\<exists>err. z = Inl err) \<and> list_ex failed es2"
      by (auto simp: reads_def)
    from 1 2 ok show ?thesis by auto
  qed
  then show "list_all (admits_truth p data) es" "z = Inr y \<or> (\<exists>err. z = Inl err) \<and> list_ex failed es"
    by auto
qed

lemma reads_map_err [intro]:
  assumes "reads p data m x"
  shows "reads p data (io_map_err f m) x"
  unfolding reads_def
proof (intro conjI allI impI)
  show "io_all (range_request p) (io_map_err f m)" using assms by (simp add: reads_def)
  fix es z
  assume fo: "follows (io_map_err f m) es z" and T: "list_all (truthful p data) es"
  then obtain w where w: "follows m es w" "z = (case w of Inl e \<Rightarrow> Inl (f e) | Inr x \<Rightarrow> Inr x)"
    by (auto simp: io_map_err_def follows_bind)
  with assms T show "list_all (admits_truth p data) es" "z = Inr x \<or> (\<exists>err. z = Inl err) \<and> list_ex failed es"
    by (fastforce simp: reads_def)+
qed

text \<open>Whatever interleaving the program met: the value, or a reported failure.\<close>
lemma reads_follows:
  "reads p data m x \<Longrightarrow> follows m es y \<Longrightarrow> list_all (truthful p data) es \<Longrightarrow>
     y = Inr x \<or> (\<exists>err. y = Inl err) \<and> list_ex failed es"
  by (auto simp: reads_def)

lemma reads_admits:
  "reads p data m x \<Longrightarrow> follows m es y \<Longrightarrow> list_all (truthful p data) es \<Longrightarrow> list_all (admits_truth p data) es"
  by (auto simp: reads_def)

text \<open>On the fault-free store that holds the object, a range reader changes nothing and returns
  the value.\<close>
lemma range_request_exec: "range_request p q \<Longrightarrow> snd (os_exec q s) = s"
  by (cases q) (auto simp: range_request_def)

lemma range_trace:
  "io_all (range_request p) m \<Longrightarrow> lookup_obj s p = Some ob \<Longrightarrow> ob_bytes ob = data \<Longrightarrow>
     list_all (truthful p data) (trace m s) \<and> \<not> list_ex failed (trace m s) \<and> snd (run m s) = s"
proof (induction m)
  case (Call q k)
  obtain r where r: "os_exec q s = (r, s)"
    using range_request_exec[of p q s] Call.prems by (metis io_all.simps(2) prod.collapse)
  have "truthful p data (q, r) \<and> \<not> failed (q, r)"
    using r Call.prems by (cases q) (auto simp: range_request_def truthful_def failed_def pick_def split_beta)
  moreover have "list_all (truthful p data) (trace (k r) s) \<and> \<not> list_ex failed (trace (k r) s)
      \<and> snd (run (k r) s) = s"
    using Call by auto
  ultimately show ?case using r by simp
qed simp

lemma reads_run:
  assumes "reads p data m x" "lookup_obj s p = Some ob" "ob_bytes ob = data"
  shows "run m s = (Inr x, s)"
proof -
  have io: "io_all (range_request p) m" using assms(1) by (simp add: reads_def)
  note tr = range_trace[OF io assms(2,3)]
  have "fst (run m s) = Inr x"
    using reads_follows[OF assms(1) follows_trace[of m s]] tr by blast
  with tr show ?thesis by (metis prod.collapse)
qed

section \<open>The ranged read\<close>

lemma follows_io_map_cache_get:
  "follows (io_map (\<lambda>r. cache_get (range_key p r)) rs) es hits \<Longrightarrow> list_all (truthful p data) es \<Longrightarrow>
     length hits = length rs \<and> (\<forall>i < length rs. \<forall>b. hits ! i = Some b \<longrightarrow> b = pick data (rs ! i))
     \<and> list_all (admits_truth p data) es"
proof (induction rs arbitrary: es hits)
  case (Cons r rs)
  from Cons.prems obtain e1 e2 h hs where
    split: "es = e1 @ e2" "hits = h # hs" "follows (cache_get (range_key p r)) e1 h"
      "follows (io_map (\<lambda>r. cache_get (range_key p r)) rs) e2 hs"
    by (auto simp: follows_bind)
  have IH: "length hs = length rs \<and> (\<forall>i < length rs. \<forall>b. hs ! i = Some b \<longrightarrow> b = pick data (rs ! i))
     \<and> list_all (admits_truth p data) e2"
    using Cons split by auto
  have "(\<forall>b. h = Some b \<longrightarrow> b = pick data r) \<and> list_all (admits_truth p data) e1"
    using split(3) Cons.prems(2) split(1)
    by (auto simp: cache_get_def truthful_def admits_truth_def split: response.split_asm)
  with IH split show ?case by (auto simp: nth_Cons split: nat.split)
qed auto

lemma follows_io_map_cache_put:
  "follows (io_map (\<lambda>(i, b). cache_put (range_key p (rs ! i)) b) (zip is (map (\<lambda>i. pick data (rs ! i)) is))) es y \<Longrightarrow>
     list_all (admits_truth p data) es"
  by (induction "is" arbitrary: es y) (auto simp: follows_bind cache_put_def admits_truth_def)

lemma map_of_zip_map_fun: "map_of (zip xs (map f xs)) x = (if x \<in> set xs then Some (f x) else None)"
  by (induction xs) auto

lemma follows_then_Ret: "follows (io_bind m (\<lambda>_. Ret v)) es y \<longleftrightarrow> y = v \<and> (\<exists>z. follows m es z)"
  by (auto simp: follows_bind)

lemma fill_hits:
  assumes "\<And>i b. i < n \<Longrightarrow> hits ! i = Some b \<Longrightarrow> b = f i"
  shows "map (\<lambda>i. case hits ! i of Some b \<Rightarrow> b | None \<Rightarrow> (case map_of (zip (filter (\<lambda>i. hits ! i = None) [0..<n])
      (map f (filter (\<lambda>i. hits ! i = None) [0..<n]))) i of Some b \<Rightarrow> b | None \<Rightarrow> z)) [0..<n] = map f [0..<n]"
  using assms by (auto simp: map_of_zip_map_fun split: option.split)

lemma map_pick_nth: "map (\<lambda>i. f (xs ! i)) [0..<length xs] = map f xs"
  by (rule nth_equalityI) auto

lemma io_all_io_map [simp]: "(\<And>x. io_all P (f x)) \<Longrightarrow> io_all P (io_map f xs)"
  by (induction xs) auto

lemma io_all_get_ranges: "io_all (range_request p) (store_get_ranges p rs)"
  by (auto simp: store_get_ranges_def cache_get_def cache_put_def os_get_ranges_def range_request_def
      Let_def split: response.split sum.split os_error.split option.split prod.split intro!: io_all_bind io_all_io_map)

text \<open>The uncached half: fetch the missing ranges, admit them, assemble.\<close>
lemma follows_fetch_misses:
  assumes fo: "follows (io_bind (os_get_ranges p (map (\<lambda>i. rs ! i) ms)) (\<lambda>r. case r of
        Inl OsNotFound \<Rightarrow> Ret (Inl (NotFound p))
      | Inl e \<Rightarrow> Ret (Inl (ObjectStore e))
      | Inr fetched \<Rightarrow> io_bind (io_map (\<lambda>(i, b). cache_put (range_key p (rs ! i)) b) (zip ms fetched))
          (\<lambda>_. Ret (Inr (out fetched))))) es y"
    and T: "list_all (truthful p data) es"
  shows "list_all (admits_truth p data) es \<and>
    (y = Inr (out (map (\<lambda>i. pick data (rs ! i)) ms)) \<or> (\<exists>err. y = Inl err) \<and> list_ex failed es)"
proof -
  from fo obtain r es' where es: "es = (ReqGetRanges p (map (\<lambda>i. rs ! i) ms), r) # es'"
    and k: "follows (case (case r of RspRanges x \<Rightarrow> x | _ \<Rightarrow> Inl OsOther) of
        Inl OsNotFound \<Rightarrow> Ret (Inl (NotFound p))
      | Inl e \<Rightarrow> Ret (Inl (ObjectStore e))
      | Inr fetched \<Rightarrow> io_bind (io_map (\<lambda>(i, b). cache_put (range_key p (rs ! i)) b) (zip ms fetched))
          (\<lambda>_. Ret (Inr (out fetched)))) es' y"
    by (auto simp: os_get_ranges_def split: response.split_asm)
  show ?thesis
  proof (cases "\<exists>fetched. r = RspRanges (Inr fetched)")
    case True
    with T es have r: "r = RspRanges (Inr (map (\<lambda>i. pick data (rs ! i)) ms))"
      by (auto simp: truthful_def comp_def)
    with k es show ?thesis
      by (auto simp: follows_then_Ret admits_truth_def dest: follows_io_map_cache_put)
  next
    case False
    with k have "\<exists>err. y = Inl err" "es' = []"
      by (auto split: response.split_asm sum.split_asm os_error.split_asm)
    moreover have "failed (ReqGetRanges p (map (\<lambda>i. rs ! i) ms), r)"
      using False by (auto simp: failed_def split: response.split sum.split)
    ultimately show ?thesis using es by (auto simp: admits_truth_def)
  qed
qed

lemma reads_get_ranges [intro]: "reads p data (store_get_ranges p rs) (map (pick data) rs)"
  unfolding reads_def
proof (intro conjI allI impI io_all_get_ranges)
  fix es y
  assume fo: "follows (store_get_ranges p rs) es y" and T: "list_all (truthful p data) es"
  have "list_all (admits_truth p data) es \<and> (y = Inr (map (pick data) rs) \<or> (\<exists>err. y = Inl err) \<and> list_ex failed es)"
  proof (cases "rs = []")
    case True
    with fo show ?thesis by (auto simp: store_get_ranges_def)
  next
    case False
    with fo obtain e1 e2 hits ms out where e: "es = e1 @ e2"
        "follows (io_map (\<lambda>r. cache_get (range_key p r)) rs) e1 hits"
      and ms: "ms = filter (\<lambda>i. hits ! i = None) [0..<length rs]"
      and out: "out = (\<lambda>fetched. map (\<lambda>i. case hits ! i of Some b \<Rightarrow> b
          | None \<Rightarrow> (case map_of (zip ms fetched) i of Some b \<Rightarrow> b | None \<Rightarrow> [])) [0..<length rs])"
      and rest: "follows (if ms = [] then Ret (Inr (out []))
           else io_bind (os_get_ranges p (map (\<lambda>i. rs ! i) ms)) (\<lambda>r. case r of
             Inl OsNotFound \<Rightarrow> Ret (Inl (NotFound p))
           | Inl e \<Rightarrow> Ret (Inl (ObjectStore e))
           | Inr fetched \<Rightarrow>
               io_bind (io_map (\<lambda>(i, b). cache_put (range_key p (rs ! i)) b) (zip ms fetched))
                 (\<lambda>_. Ret (Inr (out fetched))))) e2 y"
      unfolding store_get_ranges_def Let_def follows_bind if_not_P[OF False] by blast
    have hits: "\<And>i b. i < length rs \<Longrightarrow> hits ! i = Some b \<Longrightarrow> b = pick data (rs ! i)"
        "list_all (admits_truth p data) e1"
      using follows_io_map_cache_get[OF e(2)] T e(1) by auto
    have filled: "out (map (\<lambda>i. pick data (rs ! i)) ms) = map (pick data) rs"
      unfolding ms out using hits(1)
      by (subst fill_hits[where f = "\<lambda>i. pick data (rs ! i)"]) (auto simp: map_pick_nth)
    have "list_all (admits_truth p data) e2 \<and> (y = Inr (map (pick data) rs) \<or> (\<exists>err. y = Inl err) \<and> list_ex failed e2)"
    proof (cases "ms = []")
      case True
      with rest filled show ?thesis by simp
    next
      case False
      with rest T e(1) follows_fetch_misses[of p rs ms out e2 y data] show ?thesis unfolding filled by simp
    qed
    with hits(2) e(1) show ?thesis by auto
  qed
  then show "list_all (admits_truth p data) es" "y = Inr (map (pick data) rs) \<or> (\<exists>err. y = Inl err) \<and> list_ex failed es"
    by auto
qed

end
