(* ===== verification/SsTable.thy ===== *)
theory SsTable
  imports Range_Read Wal_Log "HOL-Library.Product_Lexorder"
begin

text \<open>
  The sorted-key block store (\<open>mlake-index/src/sstable.rs\<close>): the builder that packs sorted records
  into blocks and a sparse index, the parser of that index, and the point, batch, range and forward
  reads that fetch only the blocks they need. The specification of a table is the sorted list of
  its entries: every read is shown to return what the list has, whatever the block target.
\<close>

section \<open>Errors of the index crate\<close>

datatype index_error =
    IStore store_error
  | IWal wal_error
  | ICore core_error
  | IJson
  | IFts string
  | IIo

section \<open>Builder\<close>

text \<open>A key is a \<open>[u8; 16]\<close>.\<close>
type_synonym key = bytes

definition BLOCK_TARGET_BYTES :: nat where "BLOCK_TARGET_BYTES = 16 * 1024"

record block_ref =
  first_key :: key
  br_offset :: u64
  br_len :: u32

record sstable_builder =
  sb_data :: bytes
  sb_blocks :: "block_ref list"
  sb_cur :: bytes
  sb_cur_first :: "key option"
  sb_last_key :: "key option"
  sb_count :: u64
  sb_block_target :: nat

definition with_block_target :: "nat \<Rightarrow> sstable_builder" where
  "with_block_target t = \<lparr>sb_data = [], sb_blocks = [], sb_cur = [], sb_cur_first = None,
     sb_last_key = None, sb_count = 0, sb_block_target = max t 1\<rparr>"

definition sstable_new :: sstable_builder where
  "sstable_new = with_block_target BLOCK_TARGET_BYTES"

text \<open>The \<open>unwrap\<close> of the first key is on the branch where the current block holds a record.\<close>
definition flush_block :: "sstable_builder \<Rightarrow> sstable_builder" where
  "flush_block b =
     (if sb_cur b = [] then b
      else b\<lparr>sb_blocks := sb_blocks b @ [\<lparr>first_key = the (sb_cur_first b),
               br_offset = of_nat (length (sb_data b)), br_len = of_nat (length (sb_cur b))\<rparr>],
             sb_cur_first := None,
             sb_data := sb_data b @ sb_cur b,
             sb_cur := []\<rparr>)"

text \<open>A record is \<open>[key:16][value_len:u32][value]\<close>; the length is cast to 32 bits.\<close>
definition record_bytes :: "key \<Rightarrow> bytes \<Rightarrow> bytes" where
  "record_bytes k v = k @ to_le 4 (length v) @ v"

definition sstable_add :: "key \<Rightarrow> bytes \<Rightarrow> sstable_builder \<Rightarrow> sstable_builder" where
  "sstable_add k v b =
     (let b = b\<lparr>sb_last_key := Some k\<rparr>;
          b = (if sb_cur b = [] then b\<lparr>sb_cur_first := Some k\<rparr> else b);
          b = b\<lparr>sb_cur := sb_cur b @ record_bytes k v, sb_count := sb_count b + 1\<rparr>
      in if sb_block_target b \<le> length (sb_cur b) then flush_block b else b)"

definition sstable_finish :: "sstable_builder \<Rightarrow> bytes \<times> bytes" where
  "sstable_finish b =
     (let b = flush_block b in
      (le_word 8 (sb_count b) @ to_le 8 (length (sb_blocks b)) @
         concat (map (\<lambda>r. first_key r @ le_word 8 (br_offset r) @ le_word 4 (br_len r)) (sb_blocks b)),
       sb_data b))"

text \<open>The build loop every typed table runs over its sorted entries.\<close>
definition sstable_build :: "nat \<Rightarrow> (key \<times> bytes) list \<Rightarrow> bytes \<times> bytes" where
  "sstable_build t es = sstable_finish (fold (\<lambda>(k, v). sstable_add k v) es (with_block_target t))"

section \<open>Index\<close>

record sstable_index =
  si_blocks :: "block_ref list"
  si_count :: u64

fun parse_blocks :: "nat \<Rightarrow> bytes \<Rightarrow> index_error + block_ref list" where
  "parse_blocks 0 bs = Inr []"
| "parse_blocks (Suc n) bs =
     (if length bs < 28 then Inl (ICore Decode)
      else case parse_blocks n (drop 28 bs) of
        Inl e \<Rightarrow> Inl e
      | Inr rs \<Rightarrow> Inr (\<lparr>first_key = take 16 bs, br_offset = word_le (slice 16 24 bs),
                        br_len = word_le (slice 24 28 bs)\<rparr> # rs))"

definition sstable_parse :: "bytes \<Rightarrow> index_error + sstable_index" where
  "sstable_parse bs =
     (if length bs < 16 then Inl (ICore Decode)
      else case parse_blocks (from_le (slice 8 16 bs)) (drop 16 bs) of
        Inl e \<Rightarrow> Inl e
      | Inr rs \<Rightarrow> Inr \<lparr>si_blocks = rs, si_count = word_le (take 8 bs)\<rparr>)"

definition record_count :: "sstable_index \<Rightarrow> u64" where
  "record_count ix = si_count ix"

definition sstable_is_empty :: "sstable_index \<Rightarrow> bool" where
  "sstable_is_empty ix = (si_count ix = 0)"

definition block_for :: "sstable_index \<Rightarrow> key \<Rightarrow> block_ref option" where
  "block_for ix k =
     (if si_blocks ix = [] then None
      else let i = partition_point (\<lambda>b. first_key b \<le> k) (si_blocks ix) in
           if i = 0 then None else Some (si_blocks ix ! (i - 1)))"

section \<open>Block scans\<close>

text \<open>The head of the three scan loops: the record at the cursor and the bytes after it, or the
  end of the scan (no room for a header, or a value that runs past the block).\<close>
definition next_record :: "bytes \<Rightarrow> (key \<times> bytes \<times> bytes) option" where
  "next_record blk =
     (if length blk < 20 then None
      else let vend = 20 + from_le (slice 16 20 blk) in
           if length blk < vend then None
           else Some (take 16 blk, slice 20 vend blk, drop vend blk))"

lemma next_record_shorter: "next_record blk = Some (k, v, rest) \<Longrightarrow> length rest < length blk"
  by (auto simp: next_record_def Let_def split: if_split_asm)

function scan_block_from :: "bytes \<Rightarrow> key \<Rightarrow> (key \<times> bytes) list" where
  "scan_block_from blk lo = (case next_record blk of
     None \<Rightarrow> []
   | Some (k, v, rest) \<Rightarrow> (if lo \<le> k then [(k, v)] else []) @ scan_block_from rest lo)"
  by pat_completeness auto
termination by (relation "measure (\<lambda>(blk, _). length blk)") (auto dest: next_record_shorter)

function scan_block_range :: "bytes \<Rightarrow> key \<Rightarrow> key \<Rightarrow> (key \<times> bytes) list" where
  "scan_block_range blk lo hi = (case next_record blk of
     None \<Rightarrow> []
   | Some (k, v, rest) \<Rightarrow>
       if hi < k then []
       else (if lo \<le> k then [(k, v)] else []) @ scan_block_range rest lo hi)"
  by pat_completeness auto
termination by (relation "measure (\<lambda>(blk, _, _). length blk)") (auto dest: next_record_shorter)

function scan_block :: "bytes \<Rightarrow> key \<Rightarrow> bytes option" where
  "scan_block blk key = (case next_record blk of
     None \<Rightarrow> None
   | Some (k, v, rest) \<Rightarrow>
       if k = key then Some v else if key < k then None else scan_block rest key)"
  by pat_completeness auto
termination by (relation "measure (\<lambda>(blk, _). length blk)") (auto dest: next_record_shorter)

declare scan_block_from.simps [simp del] scan_block_range.simps [simp del] scan_block.simps [simp del]

section \<open>Reads\<close>

definition block_range :: "block_ref \<Rightarrow> nat \<times> nat" where
  "block_range b = (unat (br_offset b), unat (br_offset b) + unat (br_len b))"

definition fetch_blocks :: "path \<Rightarrow> (nat \<times> nat) list \<Rightarrow> (index_error + bytes list) io" where
  "fetch_blocks p rs = io_map_err IStore (store_get_ranges p rs)"

definition sstable_get :: "sstable_index \<Rightarrow> path \<Rightarrow> memory_id \<Rightarrow> (index_error + bytes option) io" where
  "sstable_get ix p key = (case block_for ix (mid_bytes key) of
     None \<Rightarrow> Ret (Inr None)
   | Some b \<Rightarrow> io_try (fetch_blocks p [block_range b]) (\<lambda>blocks.
       Ret (Inr (case blocks of [] \<Rightarrow> None | blk # _ \<Rightarrow> scan_block blk (mid_bytes key)))))"

text \<open>\<open>entry(range).or_default().push(k)\<close>.\<close>
fun group_push :: "'k::linorder \<Rightarrow> 'v \<Rightarrow> ('k, 'v list) btree \<Rightarrow> ('k, 'v list) btree" where
  "group_push k v m = bt_insert k ((case map_of m k of None \<Rightarrow> [] | Some vs \<Rightarrow> vs) @ [v]) m"

definition block_keys :: "sstable_index \<Rightarrow> memory_id list \<Rightarrow> (nat \<times> nat, memory_id list) btree" where
  "block_keys ix keys = fold (\<lambda>k m. case block_for ix (mid_bytes k) of
     None \<Rightarrow> m | Some b \<Rightarrow> group_push (block_range b) k m) keys []"

text \<open>The inner loop of the batch read: the requested keys of one block that the block holds.\<close>
definition found_in :: "bytes \<Rightarrow> memory_id list \<Rightarrow> (memory_id \<times> bytes) list" where
  "found_in blk ks = concat (map (\<lambda>k. case scan_block blk (mid_bytes k) of
     None \<Rightarrow> [] | Some v \<Rightarrow> [(k, v)]) ks)"

definition sstable_get_many ::
    "sstable_index \<Rightarrow> path \<Rightarrow> memory_id list \<Rightarrow> (index_error + (memory_id \<times> bytes) list) io" where
  "sstable_get_many ix p keys =
     (if keys = [] then Ret (Inr [])
      else let bk = block_keys ix keys in
        if bk = [] then Ret (Inr [])
        else io_try (fetch_blocks p (map fst bk)) (\<lambda>blocks.
          Ret (Inr (concat (map (\<lambda>(blk, ks). found_in blk ks) (zip blocks (map snd bk)))))))"

definition sstable_scan_range ::
    "sstable_index \<Rightarrow> path \<Rightarrow> key \<Rightarrow> key \<Rightarrow> (index_error + (key \<times> bytes) list) io" where
  "sstable_scan_range ix p lo hi =
     (if si_blocks ix = [] \<or> hi < lo then Ret (Inr [])
      else let start = partition_point (\<lambda>b. first_key b \<le> lo) (si_blocks ix) - 1;
               end = partition_point (\<lambda>b. first_key b \<le> hi) (si_blocks ix)
           in if end \<le> start then Ret (Inr [])
              else io_try (fetch_blocks p (map block_range (slice start end (si_blocks ix)))) (\<lambda>blocks.
                Ret (Inr (concat (map (\<lambda>blk. scan_block_range blk lo hi) blocks)))))"

definition BLOCK_BATCH :: nat where "BLOCK_BATCH = 4"

text \<open>The batch loop of the forward scan: \<open>i\<close> is the next block, \<open>out\<close> what was collected.\<close>
function scan_forward_loop ::
    "sstable_index \<Rightarrow> path \<Rightarrow> key \<Rightarrow> nat \<Rightarrow> nat \<Rightarrow> (key \<times> bytes) list \<Rightarrow> (index_error + (key \<times> bytes) list) io" where
  "scan_forward_loop ix p lo cap i out =
     (if i < length (si_blocks ix) \<and> length out < cap
      then let end = min (i + BLOCK_BATCH) (length (si_blocks ix)) in
           io_try (fetch_blocks p (map block_range (slice i end (si_blocks ix)))) (\<lambda>blocks.
             scan_forward_loop ix p lo cap end (out @ concat (map (\<lambda>blk. scan_block_from blk lo) blocks)))
      else Ret (Inr (take cap out)))"
  by pat_completeness auto
termination by (relation "measure (\<lambda>(ix, p, lo, cap, i, out). length (si_blocks ix) - i)")
    (auto simp: BLOCK_BATCH_def)

declare scan_forward_loop.simps [simp del]

definition sstable_scan_forward ::
    "sstable_index \<Rightarrow> path \<Rightarrow> key \<Rightarrow> nat \<Rightarrow> (index_error + (key \<times> bytes) list) io" where
  "sstable_scan_forward ix p lo cap =
     (if si_blocks ix = [] \<or> cap = 0 then Ret (Inr [])
      else scan_forward_loop ix p lo cap (partition_point (\<lambda>b. first_key b \<le> lo) (si_blocks ix) - 1) [])"

section \<open>Specification of a table\<close>

definition block_bytes :: "(key \<times> bytes) list \<Rightarrow> bytes" where
  "block_bytes es = concat (map (\<lambda>(k, v). record_bytes k v) es)"

text \<open>What the callers of the builder guarantee: 16-byte keys in strictly ascending order, blocks
  that fit a 32-bit length, a data object that fits a 64-bit offset.\<close>
definition entries_ok :: "nat \<Rightarrow> (key \<times> bytes) list \<Rightarrow> bool" where
  "entries_ok t es = (sorted_wrt (<) (map fst es) \<and>
     list_all (\<lambda>(k, v). length k = 16 \<and> max t 1 + 20 + length v \<le> 2 ^ 32) es \<and>
     length (block_bytes es) < 2 ^ 64)"

text \<open>The sparse index of a list of blocks laid out from an offset.\<close>
fun block_refs :: "nat \<Rightarrow> (key \<times> bytes) list list \<Rightarrow> block_ref list" where
  "block_refs off [] = []"
| "block_refs off (b # bs) = \<lparr>first_key = fst (hd b), br_offset = of_nat off,
     br_len = of_nat (length (block_bytes b))\<rparr> # block_refs (off + length (block_bytes b)) bs"

definition keys16 :: "(key \<times> bytes) list \<Rightarrow> bool" where
  "keys16 es = (\<forall>(k, v) \<in> set es. length k = 16 \<and> length v < 2 ^ 32)"

text \<open>\<open>layout bs ix data\<close>: the index and data of a table whose blocks hold the entries \<open>bs\<close>.\<close>
definition layout :: "(key \<times> bytes) list list \<Rightarrow> sstable_index \<Rightarrow> bytes \<Rightarrow> bool" where
  "layout bs ix data = (data = block_bytes (concat bs) \<and> length data < 2 ^ 64 \<and>
     si_blocks ix = block_refs 0 bs \<and> si_count ix = of_nat (length (concat bs)) \<and>
     sorted_wrt (<) (map fst (concat bs)) \<and>
     (\<forall>b \<in> set bs. b \<noteq> [] \<and> length (block_bytes b) < 2 ^ 32 \<and> keys16 b))"

section \<open>Block scans read the records back\<close>

lemma length_record_bytes [simp]: "length (record_bytes k v) = length k + 4 + length v"
  by (simp add: record_bytes_def)

lemma block_bytes_simps [simp]:
  "block_bytes [] = []" "block_bytes ((k, v) # es) = record_bytes k v @ block_bytes es"
  "block_bytes (xs @ ys) = block_bytes xs @ block_bytes ys"
  by (simp_all add: block_bytes_def)

lemma next_record_Nil [simp]: "next_record [] = None"
  by (simp add: next_record_def)

lemma next_record_record_bytes [simp]:
  "length k = 16 \<Longrightarrow> length v < 2 ^ 32 \<Longrightarrow> next_record (record_bytes k v @ rest) = Some (k, v, rest)"
  by (simp add: next_record_def record_bytes_def slice_def Let_def from_le_to_le)

lemma keys16_simps [simp]:
  "keys16 []" "keys16 ((k, v) # es) = (length k = 16 \<and> length v < 2 ^ 32 \<and> keys16 es)"
  "keys16 (xs @ ys) = (keys16 xs \<and> keys16 ys)"
  by (auto simp: keys16_def)

lemma keys16_concat: "keys16 (concat bs) = (\<forall>b \<in> set bs. keys16 b)"
  by (auto simp: keys16_def)

lemma scan_block_from_block_bytes:
  "keys16 es \<Longrightarrow> scan_block_from (block_bytes es) lo = filter (\<lambda>e. lo \<le> fst e) es"
  by (induction es) (auto simp: scan_block_from.simps)

lemma scan_block_range_block_bytes:
  "keys16 es \<Longrightarrow> sorted_wrt (<) (map fst es) \<Longrightarrow>
     scan_block_range (block_bytes es) lo hi = filter (\<lambda>e. lo \<le> fst e \<and> fst e \<le> hi) es"
proof (induction es)
  case (Cons e es)
  obtain k v where e: "e = (k, v)" by (metis surj_pair)
  have "hi < k \<Longrightarrow> filter (\<lambda>e. lo \<le> fst e \<and> fst e \<le> hi) es = []"
    using Cons.prems(2) e by (force simp: filter_empty_conv)
  with Cons e show ?case by (auto simp: scan_block_range.simps not_le)
qed (simp add: scan_block_range.simps)

lemma scan_block_block_bytes:
  "keys16 es \<Longrightarrow> sorted_wrt (<) (map fst es) \<Longrightarrow> scan_block (block_bytes es) key = map_of es key"
proof (induction es)
  case (Cons e es)
  obtain k v where e: "e = (k, v)" by (metis surj_pair)
  have "key < k \<Longrightarrow> map_of es key = None"
    using Cons.prems(2) e by (force simp: map_of_eq_None_iff)
  with Cons e show ?case by (auto simp: scan_block.simps)
qed (simp add: scan_block.simps)

section \<open>The builder produces a layout\<close>

lemma block_refs_append:
  "block_refs off (xs @ [b]) = block_refs off xs @ [\<lparr>first_key = fst (hd b),
     br_offset = of_nat (off + length (block_bytes (concat xs))), br_len = of_nat (length (block_bytes b))\<rparr>]"
  by (induction xs arbitrary: off) (auto simp: add.assoc)

lemma length_block_refs [simp]: "length (block_refs off bs) = length bs"
  by (induction bs arbitrary: off) auto

text \<open>State of the builder after adding the entries \<open>concat bs @ cur\<close>.\<close>
definition builder_inv :: "nat \<Rightarrow> (key \<times> bytes) list list \<Rightarrow> (key \<times> bytes) list \<Rightarrow> sstable_builder \<Rightarrow> bool" where
  "builder_inv t bs cur b = (sb_block_target b = max t 1 \<and>
     sb_data b = block_bytes (concat bs) \<and> sb_blocks b = block_refs 0 bs \<and>
     sb_cur b = block_bytes cur \<and> sb_cur_first b = (if cur = [] then None else Some (fst (hd cur))) \<and>
     sb_last_key b = (if concat bs @ cur = [] then None else Some (fst (last (concat bs @ cur)))) \<and>
     sb_count b = of_nat (length (concat bs @ cur)) \<and> length (block_bytes cur) < max t 1 \<and>
     (\<forall>x \<in> set bs. x \<noteq> [] \<and> length (block_bytes x) < 2 ^ 32))"

lemma block_bytes_empty_iff: "(block_bytes es = []) = (es = [])"
  by (cases es) (auto simp: record_bytes_def to_le.simps(2)[of 3, simplified])

lemma builder_inv_new: "builder_inv t [] [] (with_block_target t)"
  by (simp add: builder_inv_def with_block_target_def)

lemma builder_inv_add:
  assumes inv: "builder_inv t bs cur b" and ok: "max t 1 + 20 + length v \<le> 2 ^ 32" "length k = 16"
  shows "\<exists>bs' cur'. concat bs' @ cur' = concat bs @ cur @ [(k, v)] \<and> builder_inv t bs' cur' (sstable_add k v b)"
proof (cases "max t 1 \<le> length (block_bytes (cur @ [(k, v)]))")
  case True
  have "length (block_bytes (cur @ [(k, v)])) < 2 ^ 32" using inv ok by (simp add: builder_inv_def)
  with True inv have "builder_inv t (bs @ [cur @ [(k, v)]]) [] (sstable_add k v b)"
    by (auto simp: builder_inv_def sstable_add_def flush_block_def Let_def block_refs_append
        block_bytes_empty_iff record_bytes_def to_le.simps(2)[of 3, simplified] hd_append)
  then show ?thesis by (intro exI[of _ "bs @ [cur @ [(k, v)]]"] exI[of _ "[]"]) simp
next
  case False
  with inv have "builder_inv t bs (cur @ [(k, v)]) (sstable_add k v b)"
    by (auto simp: builder_inv_def sstable_add_def Let_def block_bytes_empty_iff hd_append)
  then show ?thesis by (intro exI[of _ bs] exI[of _ "cur @ [(k, v)]"]) simp
qed

lemma builder_inv_fold:
  "builder_inv t bs cur b \<Longrightarrow> list_all (\<lambda>(k, v). length k = 16 \<and> max t 1 + 20 + length v \<le> 2 ^ 32) es \<Longrightarrow>
     \<exists>bs' cur'. concat bs' @ cur' = concat bs @ cur @ es \<and> builder_inv t bs' cur' (fold (\<lambda>(k, v). sstable_add k v) es b)"
proof (induction es arbitrary: bs cur b)
  case (Cons e es)
  obtain k v where e: "e = (k, v)" by (metis surj_pair)
  from Cons.prems e builder_inv_add[of t bs cur b v k] obtain bs' cur' where
    1: "concat bs' @ cur' = concat bs @ cur @ [(k, v)]" "builder_inv t bs' cur' (sstable_add k v b)" by auto
  from Cons.IH[OF 1(2)] Cons.prems(2) obtain bs'' cur'' where
    "concat bs'' @ cur'' = concat bs' @ cur' @ es"
    "builder_inv t bs'' cur'' (fold (\<lambda>(k, v). sstable_add k v) es (sstable_add k v b))" by auto
  with 1(1) e show ?case by (metis append.assoc append_Cons append_Nil fold_simps(2) case_prod_conv)
qed auto

lemma builder_inv_flush:
  assumes inv: "builder_inv t bs cur b" and t: "t \<le> 2 ^ 32"
  shows "\<exists>bs'. concat bs' = concat bs @ cur \<and> builder_inv t bs' [] (flush_block b)"
proof (cases "cur = []")
  case True
  with inv show ?thesis by (intro exI[of _ bs]) (simp add: flush_block_def builder_inv_def)
next
  case False
  with inv t have "builder_inv t (bs @ [cur]) [] (flush_block b)"
    by (auto simp: flush_block_def builder_inv_def block_bytes_empty_iff block_refs_append)
  then show ?thesis by (intro exI[of _ "bs @ [cur]"]) simp
qed

section \<open>The parser reads the index back\<close>

definition ref_bytes :: "block_ref \<Rightarrow> bytes" where
  "ref_bytes r = first_key r @ le_word 8 (br_offset r) @ le_word 4 (br_len r)"

lemma parse_blocks_ref_bytes:
  "\<forall>r \<in> set rs. length (first_key r) = 16 \<Longrightarrow>
     parse_blocks (length rs) (concat (map ref_bytes rs) @ rest) = Inr rs"
  by (induction rs) (auto simp: ref_bytes_def slice_def)

lemma first_key_block_refs: "r \<in> set (block_refs off bs) \<Longrightarrow> \<exists>b \<in> set bs. first_key r = fst (hd b)"
  by (induction off bs rule: block_refs.induct) auto

lemma record_bytes_length_sum: "keys16 es \<Longrightarrow> 20 * length es \<le> length (block_bytes es)"
  by (induction es) auto

lemma length_le_concat: "\<forall>b \<in> set bs. b \<noteq> [] \<Longrightarrow> length bs \<le> length (concat bs)"
  by (induction bs) (auto simp: Suc_le_eq length_greater_0_conv[symmetric] simp del: length_greater_0_conv)

lemma parse_finish:
  assumes inv: "builder_inv t bs [] (flush_block b)" and ok: "keys16 (concat bs)"
    and big: "length (block_bytes (concat bs)) < 2 ^ 64"
  shows "sstable_parse (fst (sstable_finish b)) =
    Inr \<lparr>si_blocks = block_refs 0 bs, si_count = of_nat (length (concat bs))\<rparr>"
proof -
  have "length bs < 2 ^ 64"
    using record_bytes_length_sum[OF ok] big length_le_concat[of bs] inv by (auto simp: builder_inv_def)
  moreover have "\<forall>r \<in> set (block_refs 0 bs). length (first_key r) = 16"
  proof
    fix r assume "r \<in> set (block_refs 0 bs)"
    then obtain x where "x \<in> set bs" "first_key r = fst (hd x)" using first_key_block_refs by blast
    with ok inv show "length (first_key r) = 16" by (cases x) (auto simp: keys16_def builder_inv_def)
  qed
  ultimately show ?thesis
    using inv parse_blocks_ref_bytes[of "block_refs 0 bs" "[]"]
    by (simp add: sstable_finish_def Let_def builder_inv_def sstable_parse_def slice_def from_le_to_le_id
        flip: ref_bytes_def)
qed

lemma sstable_build_layout:
  assumes ok: "entries_ok t es" "t \<le> 2 ^ 32"
  obtains ix bs where "sstable_parse (fst (sstable_build t es)) = Inr ix"
    "layout bs ix (snd (sstable_build t es))" "concat bs = es"
proof -
  let ?b = "fold (\<lambda>(k, v). sstable_add k v) es (with_block_target t)"
  have keys: "keys16 es" using ok(1) by (fastforce simp: entries_ok_def keys16_def list_all_iff)
  obtain bs0 cur where 0: "concat bs0 @ cur = es" "builder_inv t bs0 cur ?b"
    using builder_inv_fold[OF builder_inv_new, of t es] ok(1) by (auto simp: entries_ok_def)
  obtain bs where bs: "concat bs = es" "builder_inv t bs [] (flush_block ?b)"
    using builder_inv_flush[OF 0(2) ok(2)] 0(1) by blast
  have parse: "sstable_parse (fst (sstable_build t es)) =
      Inr \<lparr>si_blocks = block_refs 0 bs, si_count = of_nat (length es)\<rparr>"
    unfolding sstable_build_def using parse_finish[OF bs(2)] bs(1) keys ok(1) by (simp add: entries_ok_def)
  moreover have "layout bs \<lparr>si_blocks = block_refs 0 bs, si_count = of_nat (length es)\<rparr> (snd (sstable_build t es))"
    using bs ok(1) keys
    by (auto simp: layout_def sstable_build_def sstable_finish_def Let_def builder_inv_def entries_ok_def keys16_concat)
  ultimately show thesis using bs(1) that by blast
qed

section \<open>Reading the blocks of a layout\<close>

lemma layout_keys16: "layout bs ix data \<Longrightarrow> b \<in> set bs \<Longrightarrow> keys16 b"
  by (simp add: layout_def)

lemma layout_sorted_block: "layout bs ix data \<Longrightarrow> b \<in> set bs \<Longrightarrow> sorted_wrt (<) (map fst b)"
  by (auto simp: layout_def map_concat sorted_wrt_append dest!: split_list)

lemma pick_block_refs:
  "i < length bs \<Longrightarrow> off + length (block_bytes (concat bs)) < 2 ^ 64 \<Longrightarrow>
   \<forall>b \<in> set bs. length (block_bytes b) < 2 ^ 32 \<Longrightarrow> length pre = off \<Longrightarrow>
     first_key (block_refs off bs ! i) = fst (hd (bs ! i)) \<and>
     pick (pre @ block_bytes (concat bs)) (block_range (block_refs off bs ! i)) = block_bytes (bs ! i)"
proof (induction bs arbitrary: i off pre)
  case (Cons b bs)
  show ?case
  proof (cases i)
    case 0
    have "unat (of_nat off :: u64) = off" "unat (of_nat (length (block_bytes b)) :: u32) = length (block_bytes b)"
      using Cons.prems by (simp_all add: unat_of_nat take_bit_nat_eq_self)
    with 0 Cons.prems show ?thesis
      by (auto simp: pick_def block_range_def slice_def)
  next
    case (Suc j)
    with Cons.prems Cons.IH[of j "off + length (block_bytes b)" "pre @ block_bytes b"] show ?thesis
      by simp
  qed
qed simp

lemma layout_block:
  assumes "layout bs ix data" "i < length bs"
  shows "first_key (si_blocks ix ! i) = fst (hd (bs ! i))"
    and "pick data (block_range (si_blocks ix ! i)) = block_bytes (bs ! i)"
  using pick_block_refs[of i bs 0 "[]"] assms by (auto simp: layout_def)

lemma layout_length: "layout bs ix data \<Longrightarrow> length (si_blocks ix) = length bs"
  by (simp add: layout_def)

lemma layout_empty: "layout bs ix data \<Longrightarrow> (si_blocks ix = []) = (bs = [])"
  by (metis layout_length length_0_conv)

lemma layout_slice:
  assumes "layout bs ix data"
  shows "map (pick data) (map block_range (slice i j (si_blocks ix))) = map block_bytes (slice i j bs)"
  using layout_length[OF assms]
  by (intro nth_equalityI) (auto simp: slice_def layout_block[OF assms])

text \<open>The number of blocks whose first key is at most \<open>k\<close>.\<close>
definition blocks_upto :: "key \<Rightarrow> (key \<times> bytes) list list \<Rightarrow> nat" where
  "blocks_upto k bs = partition_point (\<lambda>b. fst (hd b) \<le> k) bs"

lemma takeWhile_nth_cong:
  "length xs = length ys \<Longrightarrow> (\<And>i. i < length xs \<Longrightarrow> P (xs ! i) = Q (ys ! i)) \<Longrightarrow>
     length (takeWhile P xs) = length (takeWhile Q ys)"
proof (induction xs ys rule: list_induct2)
  case (Cons x xs y ys)
  from Cons.prems[of 0] have "P x = Q y" by simp
  moreover have "P (xs ! i) = Q (ys ! i)" if "i < length xs" for i using Cons.prems[of "Suc i"] that by simp
  ultimately show ?case using Cons.IH by simp
qed simp

lemma layout_partition_point:
  assumes "layout bs ix data"
  shows "partition_point (\<lambda>b. first_key b \<le> k) (si_blocks ix) = blocks_upto k bs"
  unfolding partition_point_def blocks_upto_def
  by (rule takeWhile_nth_cong) (simp_all add: layout_length[OF assms] layout_block[OF assms])

lemma sorted_concat_split:
  "sorted_wrt (<) (map fst (concat (xs @ ys))) \<Longrightarrow> a \<in> set (concat xs) \<Longrightarrow> b \<in> set (concat ys) \<Longrightarrow>
     fst a < (fst b :: 'a::linorder)"
  by (force simp: map_concat sorted_wrt_append)

lemma above_blocks:
  assumes L: "layout bs ix data" and x: "x \<in> set (concat (drop (blocks_upto k bs) bs))"
  shows "k < fst x"
proof -
  let ?n = "blocks_upto k bs"
  have n: "?n < length bs" using x by (cases "?n < length bs") auto
  have first: "k < fst (hd (bs ! ?n))"
    using nth_length_takeWhile[of "\<lambda>b. fst (hd b) \<le> k" bs] n by (simp add: blocks_upto_def partition_point_def)
  have ds: "drop ?n bs = bs ! ?n # drop (Suc ?n) bs" using n by (simp add: Cons_nth_drop_Suc)
  have ne: "bs ! ?n \<noteq> []" using L n by (simp add: layout_def)
  have "sorted_wrt (<) (map fst (concat (take ?n bs @ bs ! ?n # drop (Suc ?n) bs)))"
    using L n by (simp add: layout_def id_take_nth_drop[symmetric])
  then have srt: "sorted_wrt (<) (map fst (bs ! ?n @ concat (drop (Suc ?n) bs)))"
    by (simp add: map_concat sorted_wrt_append)
  obtain y ys where y: "bs ! ?n = y # ys" using ne by (cases "bs ! ?n") auto
  have "x \<in> set (y # ys @ concat (drop (Suc ?n) bs))" using x ds y by simp
  moreover have "\<forall>z \<in> set (ys @ concat (drop (Suc ?n) bs)). fst y < fst z"
    using srt unfolding y by (simp only: append_Cons list.map sorted_wrt.simps set_map ball_simps(9)) blast
  ultimately have "fst y \<le> fst x" by (metis set_ConsD less_imp_le order_refl)
  with first y show ?thesis by simp
qed

lemma below_blocks:
  assumes L: "layout bs ix data" and x: "x \<in> set (concat (take (blocks_upto k bs - 1) bs))"
  shows "fst x < k"
proof -
  let ?n = "blocks_upto k bs - 1"
  have n0: "0 < blocks_upto k bs" using x by (cases "blocks_upto k bs") auto
  have nle: "blocks_upto k bs \<le> length bs" by (simp add: blocks_upto_def)
  have n: "?n < length bs" using n0 nle by simp
  have first: "fst (hd (bs ! ?n)) \<le> k"
    using n0 set_takeWhileD[OF nth_mem[of ?n "takeWhile (\<lambda>b. fst (hd b) \<le> k) bs"]] takeWhile_nth[of ?n "\<lambda>b. fst (hd b) \<le> k" bs]
    by (simp add: blocks_upto_def partition_point_def)
  have ds: "drop ?n bs = bs ! ?n # drop (Suc ?n) bs" using n by (simp add: Cons_nth_drop_Suc)
  have ne: "bs ! ?n \<noteq> []" using L n by (simp add: layout_def)
  have "sorted_wrt (<) (map fst (concat (take ?n bs @ drop ?n bs)))" using L by (simp add: layout_def)
  moreover have "hd (bs ! ?n) \<in> set (concat (drop ?n bs))" using ne ds by simp
  ultimately have "fst x < fst (hd (bs ! ?n))" using sorted_concat_split x by blast
  with first show ?thesis by simp
qed

section \<open>Every read returns what the entries have\<close>

lemma io_all_fetch_blocks [simp]: "io_all (range_request p) (fetch_blocks p rs)"
  by (simp add: fetch_blocks_def io_all_get_ranges)

lemma reads_fetch_blocks:
  assumes "layout bs ix data"
  shows "reads p data (fetch_blocks p (map block_range (slice i j (si_blocks ix)))) (map block_bytes (slice i j bs))"
  unfolding layout_slice[OF assms, symmetric] fetch_blocks_def by (intro reads_map_err reads_get_ranges)

lemma layout_slice_subset: "b \<in> set (slice i j bs) \<Longrightarrow> b \<in> set bs"
  by (auto simp: slice_def dest: in_set_takeD in_set_dropD)

lemma filter_none: "(\<And>x. x \<in> set xs \<Longrightarrow> \<not> P x) \<Longrightarrow> filter P xs = []"
  by (simp add: filter_empty_conv)

lemma filter_concat_drop:
  "filter P (concat (take n bs)) = [] \<Longrightarrow> filter P (concat bs) = filter P (concat (drop n bs))"
proof -
  assume "filter P (concat (take n bs)) = []"
  then have "filter P (concat (take n bs @ drop n bs)) = filter P (concat (drop n bs))"
    unfolding concat_append filter_append by simp
  then show ?thesis by simp
qed

lemma concat_three: "i \<le> j \<Longrightarrow> concat bs = concat (take i bs) @ concat (slice i j bs) @ concat (drop j bs)"
proof -
  assume "i \<le> j"
  then have "drop (j - i) (drop i bs) = drop j bs" by simp
  then have "slice i j bs @ drop j bs = drop i bs"
    unfolding slice_def using append_take_drop_id[of "j - i" "drop i bs"] by simp
  then have "take i bs @ slice i j bs @ drop j bs = bs" by simp
  then show ?thesis unfolding concat_append[symmetric] by simp
qed

text \<open>A point lookup reads at most one block and returns the entry of the key.\<close>
lemma block_for_layout:
  assumes L: "layout bs ix data"
  shows "block_for ix k = (if blocks_upto k bs = 0 then None else Some (si_blocks ix ! (blocks_upto k bs - 1)))"
proof (cases "bs = []")
  case True
  with L show ?thesis by (simp add: block_for_def layout_def blocks_upto_def partition_point_def)
next
  case False
  then have "si_blocks ix \<noteq> []" using layout_length[OF L] by auto
  then show ?thesis by (simp add: block_for_def layout_partition_point[OF L] Let_def)
qed

lemma map_of_block:
  assumes L: "layout bs ix data"
  shows "map_of (concat bs) k = (if blocks_upto k bs = 0 then None else map_of (bs ! (blocks_upto k bs - 1)) k)"
proof -
  let ?n = "blocks_upto k bs"
  have none: "map_of (concat (drop ?n bs)) k = None"
    using above_blocks[OF L] by (fastforce simp: map_of_eq_None_iff)
  show ?thesis
  proof (cases "?n = 0")
    case True with none show ?thesis by simp
  next
    case False
    have "?n \<le> length bs" by (simp add: blocks_upto_def)
    with False have "slice (?n - 1) ?n bs = [bs ! (?n - 1)]"
      by (cases ?n) (simp_all add: slice_def take_Suc_conv_app_nth hd_drop_conv_nth take_Suc)
    then have c: "concat bs = concat (take (?n - 1) bs) @ bs ! (?n - 1) @ concat (drop ?n bs)"
      using concat_three[of "?n - 1" ?n bs] by simp
    have "map_of (concat (take (?n - 1) bs)) k = None"
      using below_blocks[OF L] by (fastforce simp: map_of_eq_None_iff)
    then have "map_of (concat bs) k = map_of (bs ! (?n - 1)) k"
      unfolding c using none by (simp add: map_add_def split: option.split)
    with False show ?thesis by simp
  qed
qed

lemma scan_layout_block:
  assumes L: "layout bs ix data" and b: "block_for ix k = Some b"
  shows "scan_block (pick data (block_range b)) k = map_of (concat bs) k"
proof -
  have n: "blocks_upto k bs \<noteq> 0" "b = si_blocks ix ! (blocks_upto k bs - 1)"
    using b by (auto simp: block_for_layout[OF L] split: if_split_asm)
  have lt: "blocks_upto k bs - 1 < length bs" 
    using n(1) partition_point_le[of "\<lambda>b. fst (hd b) \<le> k" bs] unfolding blocks_upto_def by linarith
  show ?thesis
    using n lt layout_block(2)[OF L lt] layout_keys16[OF L nth_mem[OF lt]] layout_sorted_block[OF L nth_mem[OF lt]]
    by (simp add: map_of_block[OF L] scan_block_block_bytes)
qed

lemma reads_get:
  assumes L: "layout bs ix data"
  shows "reads p data (sstable_get ix p k) (map_of (concat bs) (mid_bytes k))"
proof (cases "block_for ix (mid_bytes k)")
  case None
  then show ?thesis
    by (auto simp: sstable_get_def map_of_block[OF L] block_for_layout[OF L] split: if_split_asm)
next
  case (Some b)
  have "reads p data (fetch_blocks p [block_range b]) [pick data (block_range b)]"
    unfolding fetch_blocks_def using reads_get_ranges[of p data "[block_range b]"] by (auto intro: reads_map_err)
  then show ?thesis
    unfolding sstable_get_def Some option.case by (rule reads_try) (simp_all add: scan_layout_block[OF L Some])
qed

lemma reads_scan_range:
  assumes L: "layout bs ix data"
  shows "reads p data (sstable_scan_range ix p lo hi) (filter (\<lambda>e. lo \<le> fst e \<and> fst e \<le> hi) (concat bs))"
proof -
  let ?s = "blocks_upto lo bs - 1" and ?e = "blocks_upto hi bs" and ?Q = "\<lambda>e. lo \<le> fst e \<and> fst e \<le> hi"
  have above: "filter ?Q (concat (drop ?e bs)) = []" using above_blocks[OF L] by (intro filter_none) force
  have below: "filter ?Q (concat (take ?s bs)) = []" using below_blocks[OF L] by (intro filter_none) force
  consider (none) "si_blocks ix = [] \<or> hi < lo" | (past) "\<not> (si_blocks ix = [] \<or> hi < lo)" "?e \<le> ?s"
    | (go) "\<not> (si_blocks ix = [] \<or> hi < lo)" "?s < ?e" by linarith
  then show ?thesis
  proof cases
    case none
    then have "filter ?Q (concat bs) = []" using layout_empty[OF L] by (auto intro!: filter_none)
    with none show ?thesis by (simp add: sstable_scan_range_def)
  next
    case past
    have "filter ?Q (concat (take ?e bs)) = []"
    proof (rule filter_none)
      fix x assume "x \<in> set (concat (take ?e bs))"
      then have "x \<in> set (concat (take ?s bs))" using set_take_subset_set_take[OF past(2), of bs] by auto
      then show "\<not> ?Q x" using below_blocks[OF L] leD by blast
    qed
    from filter_concat_drop[OF this] above have "filter ?Q (concat bs) = []" by simp
    with past show ?thesis by (simp add: sstable_scan_range_def layout_partition_point[OF L] Let_def)
  next
    case go
    have "concat (map (\<lambda>blk. scan_block_range blk lo hi) (map block_bytes (slice ?s ?e bs)))
        = concat (map (filter ?Q) (slice ?s ?e bs))"
      unfolding map_map comp_def
      by (intro arg_cong[where f = concat] map_cong refl scan_block_range_block_bytes)
        (auto dest!: layout_slice_subset intro: layout_keys16[OF L] layout_sorted_block[OF L])
    also have "\<dots> = filter ?Q (concat bs)"
      unfolding concat_three[OF less_imp_le[OF go(2)], of bs] filter_append above below
      by (simp add: filter_concat)
    finally show ?thesis
      using go unfolding sstable_scan_range_def layout_partition_point[OF L] Let_def
      by (auto intro!: reads_try[OF reads_fetch_blocks[OF L]])
  qed
qed

lemma io_all_scan_forward_loop [simp]: "io_all (range_request p) (scan_forward_loop ix p lo cap i out)"
proof (induction ix p lo cap i out rule: scan_forward_loop.induct)
  case (1 ix p lo cap i out)
  then show ?case by (subst scan_forward_loop.simps) (auto simp: Let_def)
qed

lemma reads_scan_forward_loop:
  assumes L: "layout bs ix data"
  shows "reads p data (scan_forward_loop ix p lo cap i out)
    (take cap (out @ filter (\<lambda>e. lo \<le> fst e) (concat (drop i bs))))"
proof (induction "length bs - i" arbitrary: i out rule: less_induct)
  case less
  show ?case
  proof (cases "i < length bs \<and> length out < cap")
    case True
    let ?j = "min (i + BLOCK_BATCH) (length bs)" and ?Q = "\<lambda>e. lo \<le> fst e"
    have j: "i < ?j" using True by (simp add: BLOCK_BATCH_def)
    have out: "concat (map (\<lambda>blk. scan_block_from blk lo) (map block_bytes (slice i ?j bs)))
        = filter ?Q (concat (slice i ?j bs))"
      unfolding map_map comp_def filter_concat
      by (intro arg_cong[where f = concat] map_cong refl scan_block_from_block_bytes)
        (auto dest!: layout_slice_subset intro: layout_keys16[OF L])
    have "drop (?j - i) (drop i bs) = drop ?j bs" using less_imp_le[OF j] by simp
    then have tail: "concat (drop i bs) = concat (slice i ?j bs) @ concat (drop ?j bs)"
      using arg_cong[OF append_take_drop_id[of "?j - i" "drop i bs"], of concat] unfolding slice_def concat_append by simp
    have "reads p data (scan_forward_loop ix p lo cap ?j (out @ filter ?Q (concat (slice i ?j bs))))
        (take cap ((out @ filter ?Q (concat (slice i ?j bs))) @ filter ?Q (concat (drop ?j bs))))"
      using less j True by (intro less) auto
    then have rec: "reads p data (scan_forward_loop ix p lo cap ?j (out @ concat (map (\<lambda>blk. scan_block_from blk lo)
          (map block_bytes (slice i ?j bs))))) (take cap (out @ filter ?Q (concat (drop i bs))))"
      unfolding tail filter_append append.assoc out .
    show ?thesis
      unfolding scan_forward_loop.simps[of ix p lo cap i out] layout_length[OF L] if_P[OF True] Let_def
      by (rule reads_try[OF reads_fetch_blocks[OF L]], rule rec) simp
  next
    case False
    then show ?thesis
      using layout_length[OF L] by (subst scan_forward_loop.simps) auto
  qed
qed

lemma reads_scan_forward:
  assumes L: "layout bs ix data"
  shows "reads p data (sstable_scan_forward ix p lo cap) (take cap (filter (\<lambda>e. lo \<le> fst e) (concat bs)))"
proof (cases "si_blocks ix = [] \<or> cap = 0")
  case True
  then show ?thesis using layout_empty[OF L] by (auto simp: sstable_scan_forward_def)
next
  case False
  let ?s = "blocks_upto lo bs - 1"
  have "filter (\<lambda>e. lo \<le> fst e) (concat (take ?s bs)) = []" using below_blocks[OF L] by (intro filter_none) force
  then have "filter (\<lambda>e. lo \<le> fst e) (concat bs) = filter (\<lambda>e. lo \<le> fst e) (concat (drop ?s bs))"
    by (rule filter_concat_drop)
  with False reads_scan_forward_loop[OF L, of p lo cap ?s "[]"] show ?thesis
    by (auto simp: sstable_scan_forward_def layout_partition_point[OF L])
qed

text \<open>The batch read groups the keys by block: one group per block that holds a requested key.\<close>
definition keys_in :: "sstable_index \<Rightarrow> nat \<times> nat \<Rightarrow> memory_id list \<Rightarrow> memory_id list" where
  "keys_in ix r keys = filter (\<lambda>k. map_option block_range (block_for ix (mid_bytes k)) = Some r) keys"

lemma block_keys_spec:
  "bt_ok (block_keys ix keys) \<and>
   map_of (block_keys ix keys) r = (if keys_in ix r keys = [] then None else Some (keys_in ix r keys))"
proof (induction keys rule: rev_induct)
  case (snoc k keys)
  then show ?case
    by (cases "block_for ix (mid_bytes k)") (auto simp: block_keys_def keys_in_def)
qed (simp add: block_keys_def keys_in_def)

lemma block_keys_mem:
  "(r, ks) \<in> set (block_keys ix keys) \<longleftrightarrow> ks \<noteq> [] \<and> ks = keys_in ix r keys"
  using block_keys_spec[of ix keys r] map_of_eq_Some_iff[OF bt_ok_distinct, of "block_keys ix keys" r ks]
  by (auto split: if_split_asm)

lemma found_in_mem: "(k, v) \<in> set (found_in blk ks) \<longleftrightarrow> k \<in> set ks \<and> scan_block blk (mid_bytes k) = Some v"
  by (auto simp: found_in_def split: option.split_asm intro!: bexI[of _ k])

lemma found_groups_mem:
  assumes L: "layout bs ix data"
  shows "(k, v) \<in> set (concat (map (\<lambda>(r, ks). found_in (pick data r) ks) (block_keys ix keys))) \<longleftrightarrow>
     k \<in> set keys \<and> map_of (concat bs) (mid_bytes k) = Some v"
proof
  assume "(k, v) \<in> set (concat (map (\<lambda>(r, ks). found_in (pick data r) ks) (block_keys ix keys)))"
  then obtain r ks where r: "(r, ks) \<in> set (block_keys ix keys)" "(k, v) \<in> set (found_in (pick data r) ks)" by auto
  then obtain b where "k \<in> set keys" "block_for ix (mid_bytes k) = Some b" "r = block_range b"
    by (auto simp: block_keys_mem found_in_mem keys_in_def)
  with r(2) scan_layout_block[OF L] show "k \<in> set keys \<and> map_of (concat bs) (mid_bytes k) = Some v"
    by (simp add: found_in_mem)
next
  assume *: "k \<in> set keys \<and> map_of (concat bs) (mid_bytes k) = Some v"
  then obtain b where b: "block_for ix (mid_bytes k) = Some b"
    by (auto simp: map_of_block[OF L] block_for_layout[OF L] split: if_split_asm)
  let ?ks = "keys_in ix (block_range b) keys"
  have k: "k \<in> set ?ks" using * b by (simp add: keys_in_def)
  then have "(block_range b, ?ks) \<in> set (block_keys ix keys)" by (auto simp: block_keys_mem)
  moreover have "(k, v) \<in> set (found_in (pick data (block_range b)) ?ks)"
    using k * scan_layout_block[OF L b] by (simp add: found_in_mem)
  ultimately show "(k, v) \<in> set (concat (map (\<lambda>(r, ks). found_in (pick data r) ks) (block_keys ix keys)))"
    unfolding set_concat set_map by blast
qed

lemma reads_get_many:
  assumes L: "layout bs ix data"
  shows "reads p data (sstable_get_many ix p keys)
    (concat (map (\<lambda>(r, ks). found_in (pick data r) ks) (block_keys ix keys)))"
proof (cases "keys = [] \<or> block_keys ix keys = []")
  case True
  then show ?thesis by (auto simp: sstable_get_many_def Let_def block_keys_def)
next
  case False
  let ?bk = "block_keys ix keys"
  have "reads p data (fetch_blocks p (map fst ?bk)) (map (pick data) (map fst ?bk))"
    unfolding fetch_blocks_def by (intro reads_map_err reads_get_ranges)
  moreover have "map (\<lambda>(blk, ks). found_in blk ks) (zip (map (pick data) (map fst ?bk)) (map snd ?bk))
      = map (\<lambda>(r, ks). found_in (pick data r) ks) ?bk"
    by (simp add: zip_map_map zip_same_conv_map split_beta comp_def)
  ultimately show ?thesis
    using False unfolding sstable_get_many_def Let_def
    by (auto intro!: reads_try)
qed

section \<open>The contract of a sorted table\<close>

text \<open>What the typed tables rely on: a table represents a sorted list of entries under 16-byte keys,
  and each read, through the cache and in any interleaving, returns what the list has.\<close>

locale sorted_table =
  fixes table :: "'ix \<Rightarrow> bytes \<Rightarrow> (key \<times> bytes) list \<Rightarrow> bool"
    and count :: "'ix \<Rightarrow> u64"
    and get :: "'ix \<Rightarrow> path \<Rightarrow> memory_id \<Rightarrow> (index_error + bytes option) io"
    and get_many :: "'ix \<Rightarrow> path \<Rightarrow> memory_id list \<Rightarrow> (index_error + (memory_id \<times> bytes) list) io"
    and scan_range :: "'ix \<Rightarrow> path \<Rightarrow> key \<Rightarrow> key \<Rightarrow> (index_error + (key \<times> bytes) list) io"
    and scan_forward :: "'ix \<Rightarrow> path \<Rightarrow> key \<Rightarrow> nat \<Rightarrow> (index_error + (key \<times> bytes) list) io"
  assumes sorted_keys: "table ix data es \<Longrightarrow> sorted_wrt (<) (map fst es)"
    and key_length: "table ix data es \<Longrightarrow> (k, v) \<in> set es \<Longrightarrow> length k = 16"
    and count_entries: "table ix data es \<Longrightarrow> unat (count ix) = length es"
    and get_law: "table ix data es \<Longrightarrow> reads p data (get ix p i) (map_of es (mid_bytes i))"
    and get_many_law: "table ix data es \<Longrightarrow> \<exists>out. reads p data (get_many ix p ks) out \<and>
      (\<forall>k v. (k, v) \<in> set out \<longleftrightarrow> k \<in> set ks \<and> map_of es (mid_bytes k) = Some v)"
    and range_law: "table ix data es \<Longrightarrow> reads p data (scan_range ix p lo hi)
      (filter (\<lambda>e. lo \<le> fst e \<and> fst e \<le> hi) es)"
    and forward_law: "table ix data es \<Longrightarrow> reads p data (scan_forward ix p lo cap)
      (take cap (filter (\<lambda>e. lo \<le> fst e) es))"
begin

lemma keys_distinct: "table ix data es \<Longrightarrow> distinct (map fst es)"
  using sorted_keys strict_sorted_iff by blast

text \<open>The batch read as the \<open>HashMap\<close> its callers collect: the map of the entries, restricted to
  the requested keys.\<close>
lemma get_many_map:
  assumes "table ix data es"
  obtains out where "reads p data (get_many ix p ks) out"
    "map_of out = (\<lambda>k. if k \<in> set ks then map_of es (mid_bytes k) else None)"
    "\<And>k v. (k, v) \<in> set out \<Longrightarrow> map_of es (mid_bytes k) = Some v"
proof -
  obtain out where out: "reads p data (get_many ix p ks) out"
      "\<And>k v. (k, v) \<in> set out \<longleftrightarrow> k \<in> set ks \<and> map_of es (mid_bytes k) = Some v"
    using get_many_law[OF assms] by blast
  have "map_of out k = (if k \<in> set ks then map_of es (mid_bytes k) else None)" for k
  proof (cases "map_of out k")
    case None
    then have "(k, v) \<notin> set out" for v by (force simp: map_of_eq_None_iff)
    with None out(2)[of k] show ?thesis by (cases "map_of es (mid_bytes k)") auto
  next
    case (Some v)
    then have "(k, v) \<in> set out" by (rule map_of_SomeD)
    with Some out(2)[of k v] show ?thesis by simp
  qed
  then have "map_of out = (\<lambda>k. if k \<in> set ks then map_of es (mid_bytes k) else None)" by blast
  with out that show thesis by blast
qed

lemma get_many_present:
  assumes "table ix data es" "reads p data (get_many ix p ks) out" "lookup_obj s p = Some ob" "ob_bytes ob = data"
  shows "(k, v) \<in> set out \<longleftrightarrow> k \<in> set ks \<and> map_of es (mid_bytes k) = Some v"
proof -
  obtain out' where "reads p data (get_many ix p ks) out'"
      "\<forall>k v. (k, v) \<in> set out' \<longleftrightarrow> k \<in> set ks \<and> map_of es (mid_bytes k) = Some v"
    using get_many_law[OF assms(1)] by blast
  moreover have "out' = out"
    using reads_run[OF assms(2-4)] reads_run[OF calculation(1) assms(3,4)] by simp
  ultimately show ?thesis by simp
qed

text \<open>The widest range covers the whole table.\<close>
lemma full_range:
  assumes T: "table ix data es"
    and lo: "\<And>k. length k = 16 \<Longrightarrow> lo \<le> k" and hi: "\<And>k. length k = 16 \<Longrightarrow> k \<le> hi"
  shows "reads p data (scan_range ix p lo hi) es"
proof -
  have "filter (\<lambda>e. lo \<le> fst e \<and> fst e \<le> hi) es = es"
    using key_length[OF T] lo hi by (auto simp: filter_id_conv)
  then show ?thesis using range_law[OF T, of p lo hi] by simp
qed

end

text \<open>The table an index and a data object represent.\<close>
definition table_of :: "sstable_index \<Rightarrow> bytes \<Rightarrow> (key \<times> bytes) list \<Rightarrow> bool" where
  "table_of ix data es = (\<exists>bs. layout bs ix data \<and> concat bs = es)"

lemma table_of_count: "table_of ix data es \<Longrightarrow> unat (record_count ix) = length es"
proof -
  assume "table_of ix data es"
  then obtain bs where L: "layout bs ix data" "concat bs = es" by (auto simp: table_of_def)
  have "keys16 es" using L by (auto simp: layout_def keys16_concat)
  from record_bytes_length_sum[OF this] L have "length es < 2 ^ 64" by (auto simp: layout_def)
  with L show ?thesis by (simp add: record_count_def layout_def unat_of_nat take_bit_nat_eq_self)
qed

interpretation sst: sorted_table table_of record_count sstable_get sstable_get_many sstable_scan_range sstable_scan_forward
proof (unfold_locales, goal_cases)
  case 1 then show ?case by (auto simp: table_of_def layout_def)
next
  case 2 then show ?case by (fastforce simp: table_of_def layout_def keys16_def)
next
  case 3 then show ?case by (rule table_of_count)
next
  case 4 then show ?case using reads_get by (auto simp: table_of_def)
next
  case (5 ix data es p ks)
  then obtain bs where L: "layout bs ix data" "concat bs = es" by (auto simp: table_of_def)
  from reads_get_many[OF L(1)] found_groups_mem[OF L(1)] L(2) show ?case by blast
next
  case 6 then show ?case using reads_scan_range by (auto simp: table_of_def)
next
  case 7 then show ?case using reads_scan_forward by (auto simp: table_of_def)
qed

lemma sstable_build_table:
  assumes "entries_ok t es" "t \<le> 2 ^ 32"
  obtains ix where "sstable_parse (fst (sstable_build t es)) = Inr ix" "table_of ix (snd (sstable_build t es)) es"
  using sstable_build_layout[OF assms] unfolding table_of_def by blast

section \<open>Properties\<close>

definition sample_entries :: "(key \<times> bytes) list" where
  "sample_entries = [(replicate 16 1, [7]), (replicate 16 2, [8, 9]), (replicate 16 5, [])]"

lemma replicate16: "replicate 16 b = b # replicate 15 b"
  by (simp add: eval_nat_numeral)

lemma sample_entries_ok: "entries_ok 30 sample_entries"
  by (simp add: entries_ok_def sample_entries_def replicate16 Cons_less_Cons)

text \<open>C15. Point and batch lookups. Writing any sorted entries with the builder, whatever the block
  target, and parsing the index object back gives an index that counts the entries; a lookup of a
  key and a batch lookup of keys, each reading only the blocks that can hold them and through the
  block cache, return exactly the entries of the requested keys, or an error that a storage request
  reported.\<close>
theorem sstable_lookup_correct:
  assumes "entries_ok t es" "t \<le> 2 ^ 32"
  shows "\<exists>ix. sstable_parse (fst (sstable_build t es)) = Inr ix \<and> unat (record_count ix) = length es \<and>
    (\<forall>p k. reads p (snd (sstable_build t es)) (sstable_get ix p k) (map_of es (mid_bytes k))) \<and>
    (\<forall>p ks. \<exists>out. reads p (snd (sstable_build t es)) (sstable_get_many ix p ks) out \<and>
       (\<forall>k v. (k, v) \<in> set out \<longleftrightarrow> k \<in> set ks \<and> map_of es (mid_bytes k) = Some v))"
proof -
  obtain ix where ix: "sstable_parse (fst (sstable_build t es)) = Inr ix"
    "table_of ix (snd (sstable_build t es)) es" by (rule sstable_build_table[OF assms])
  show ?thesis
    by (intro exI[of _ ix] conjI allI ix(1) sst.count_entries[OF ix(2)] sst.get_law[OF ix(2)] sst.get_many_law[OF ix(2)])
qed

theorem sstable_lookup_correct_witness:
  "\<exists>ix. sstable_parse (fst (sstable_build 30 sample_entries)) = Inr ix \<and>
     unat (record_count ix) = length sample_entries \<and>
     (\<forall>p k. reads p (snd (sstable_build 30 sample_entries)) (sstable_get ix p k) (map_of sample_entries (mid_bytes k))) \<and>
     (\<forall>p ks. \<exists>out. reads p (snd (sstable_build 30 sample_entries)) (sstable_get_many ix p ks) out \<and>
        (\<forall>k v. (k, v) \<in> set out \<longleftrightarrow> k \<in> set ks \<and> map_of sample_entries (mid_bytes k) = Some v))"
  using sample_entries_ok by (intro sstable_lookup_correct) simp_all

text \<open>C16. Ordered scans. On a built table the range scan returns exactly the entries whose key is in
  the closed interval, in key order, and the forward scan the first \<open>cap\<close> entries at or after its
  start, although it reads blocks in batches of four and stops as soon as it has enough.\<close>
theorem sstable_scans_correct:
  assumes "entries_ok t es" "t \<le> 2 ^ 32"
  shows "\<exists>ix. sstable_parse (fst (sstable_build t es)) = Inr ix \<and>
    (\<forall>p lo hi. reads p (snd (sstable_build t es)) (sstable_scan_range ix p lo hi)
       (filter (\<lambda>e. lo \<le> fst e \<and> fst e \<le> hi) es)) \<and>
    (\<forall>p lo cap. reads p (snd (sstable_build t es)) (sstable_scan_forward ix p lo cap)
       (take cap (filter (\<lambda>e. lo \<le> fst e) es)))"
proof -
  obtain ix where ix: "sstable_parse (fst (sstable_build t es)) = Inr ix"
    "table_of ix (snd (sstable_build t es)) es" by (rule sstable_build_table[OF assms])
  show ?thesis
    by (intro exI[of _ ix] conjI allI ix(1) sst.range_law[OF ix(2)] sst.forward_law[OF ix(2)])
qed

theorem sstable_scans_correct_witness:
  "\<exists>ix. sstable_parse (fst (sstable_build 30 sample_entries)) = Inr ix \<and>
    (\<forall>p lo hi. reads p (snd (sstable_build 30 sample_entries)) (sstable_scan_range ix p lo hi)
       (filter (\<lambda>e. lo \<le> fst e \<and> fst e \<le> hi) sample_entries)) \<and>
    (\<forall>p lo cap. reads p (snd (sstable_build 30 sample_entries)) (sstable_scan_forward ix p lo cap)
       (take cap (filter (\<lambda>e. lo \<le> fst e) sample_entries)))"
  using sample_entries_ok by (intro sstable_scans_correct) simp_all

end
