(* ===== verification/Index_Tables.thy ===== *)
theory Index_Tables
  imports SsTable
begin

text \<open>
  The typed tables over the sorted block store (\<open>mlake-index/src/sstable.rs\<close>, second half): the
  primary-key table, the payload and rerank stores, the reverse-adjacency, entity and time indexes,
  with the order-preserving timestamp key and the 22-byte edge format (\<open>mlake-graph/src/radj.rs\<close> has
  the edge type). Two locales carry the proofs: \<open>fixed_width\<close>, values concatenated at one width, and
  \<open>grouped_table\<close>, a table that groups sorted pairs under one key; each index is an interpretation.
\<close>

unbundle bit_operations_syntax

section \<open>Chunks and groups\<close>

text \<open>\<open>chunks_exact(n)\<close>: the remainder shorter than \<open>n\<close> is dropped.\<close>
function chunks_exact :: "nat \<Rightarrow> 'a list \<Rightarrow> 'a list list" where
  "chunks_exact n xs = (if n = 0 \<or> length xs < n then [] else take n xs # chunks_exact n (drop n xs))"
  by pat_completeness auto
termination by (relation "measure (\<lambda>(n, xs). length xs)") auto

declare chunks_exact.simps [simp del]

text \<open>The nested \<open>while\<close> of the builders: one group per run of equal keys.\<close>
function group_runs :: "('k \<times> 'v) list \<Rightarrow> ('k \<times> 'v list) list" where
  "group_runs [] = []"
| "group_runs ((k, v) # ps) = (k, v # map snd (takeWhile (\<lambda>p. fst p = k) ps))
     # group_runs (dropWhile (\<lambda>p. fst p = k) ps)"
  by pat_completeness auto
termination by (relation "measure length") (auto simp: less_Suc_eq_le length_dropWhile_le)

definition grouped_entries :: "('k \<Rightarrow> key) \<Rightarrow> ('v \<Rightarrow> bytes) \<Rightarrow> ('k \<times> 'v) list \<Rightarrow> (key \<times> bytes) list" where
  "grouped_entries ek enc ps = map (\<lambda>(k, vs). (ek k, concat (map enc vs))) (group_runs ps)"

section \<open>Edges\<close>

datatype edge_kind = SemanticEdge | CausalEdge link_type

record in_edge =
  ie_source :: memory_id
  ie_kind :: edge_kind
  ie_weight :: f32

definition EDGE_BYTES :: nat where "EDGE_BYTES = 22"

fun edge_kind_bytes :: "edge_kind \<Rightarrow> u8 \<times> u8" where
  "edge_kind_bytes SemanticEdge = (0, 0)"
| "edge_kind_bytes (CausalEdge Causes) = (1, 0)"
| "edge_kind_bytes (CausalEdge CausedBy) = (1, 1)"
| "edge_kind_bytes (CausalEdge Enables) = (1, 2)"
| "edge_kind_bytes (CausalEdge Prevents) = (1, 3)"

definition encode_in_edge :: "in_edge \<Rightarrow> bytes" where
  "encode_in_edge e = (let (kind, lt) = edge_kind_bytes (ie_kind e) in
     mid_bytes (ie_source e) @ [kind, lt] @ le_word 4 (ie_weight e))"

definition decode_edge_kind :: "u8 \<Rightarrow> u8 \<Rightarrow> edge_kind" where
  "decode_edge_kind kind lt = (if kind = 0 then SemanticEdge else CausalEdge
     (if lt = 1 then CausedBy else if lt = 2 then Enables else if lt = 3 then Prevents else Causes))"

definition decode_edge :: "bytes \<Rightarrow> in_edge" where
  "decode_edge c = \<lparr>ie_source = MemoryId (take 16 c), ie_kind = decode_edge_kind (c ! 16) (c ! 17),
     ie_weight = word_le (slice 18 22 c)\<rparr>"

definition decode_edges :: "bytes \<Rightarrow> in_edge list" where
  "decode_edges bs = map decode_edge (chunks_exact EDGE_BYTES bs)"

definition decode_ids :: "bytes \<Rightarrow> nat option \<Rightarrow> memory_id list" where
  "decode_ids bs cap = (let cs = chunks_exact 16 bs in
     map MemoryId (case cap of None \<Rightarrow> cs | Some n \<Rightarrow> take n cs))"

section \<open>Timestamp keys\<close>

text \<open>\<open>(ts as u64) ^ (1u64 << 63)\<close>, big-endian, then eight zero bytes.\<close>
definition ts_key :: "millis \<Rightarrow> key" where
  "ts_key ts = to_be 8 (unat ((word_of_int ts :: u64) XOR push_bit 63 1)) @ replicate 8 0"

text \<open>The upper end of a window: the key of its last instant with the padding at its maximum.\<close>
definition ts_key_hi :: "millis \<Rightarrow> key" where
  "ts_key_hi ts = take 8 (ts_key ts) @ replicate 8 255"

definition ts_from_key :: "key \<Rightarrow> millis" where
  "ts_from_key k = sint ((of_nat (from_be (take 8 k)) :: u64) XOR push_bit 63 1)"

definition I64_MIN :: millis where "I64_MIN = - (2 ^ 63)"
definition I64_MAX :: millis where "I64_MAX = 2 ^ 63 - 1"

definition is_i64 :: "millis \<Rightarrow> bool" where
  "is_i64 t = (I64_MIN \<le> t \<and> t \<le> I64_MAX)"

section \<open>Typed tables\<close>

text \<open>\<open>PkTable\<close>, \<open>PayloadTable\<close>, \<open>RerankTable\<close>, \<open>RadjTable\<close>, \<open>EntityTable\<close> and \<open>TimeTable\<close> have the same
  two fields and the same \<open>open\<close>.\<close>

record typed_table =
  tt_index :: sstable_index
  tt_data_path :: path

definition table_open :: "bytes \<Rightarrow> path \<Rightarrow> index_error + typed_table" where
  "table_open idx p = (case sstable_parse idx of
     Inl e \<Rightarrow> Inl e | Inr ix \<Rightarrow> Inr \<lparr>tt_index = ix, tt_data_path = p\<rparr>)"

definition table_is_empty :: "typed_table \<Rightarrow> bool" where
  "table_is_empty t = sstable_is_empty (tt_index t)"

definition table_record_count :: "typed_table \<Rightarrow> u64" where
  "table_record_count t = record_count (tt_index t)"

definition table_get :: "typed_table \<Rightarrow> memory_id \<Rightarrow> (index_error + bytes option) io" where
  "table_get t k = sstable_get (tt_index t) (tt_data_path t) k"

definition table_get_many :: "typed_table \<Rightarrow> memory_id list \<Rightarrow> (index_error + (memory_id \<times> bytes) list) io" where
  "table_get_many t ks = sstable_get_many (tt_index t) (tt_data_path t) ks"

definition pk_build :: "(memory_id \<times> u32) list \<Rightarrow> bytes \<times> bytes" where
  "pk_build entries = sstable_build BLOCK_TARGET_BYTES
     (map (\<lambda>(i, c). (mid_bytes i, le_word 4 c)) (sort_key fst entries))"

definition pk_lookup :: "typed_table \<Rightarrow> memory_id \<Rightarrow> (index_error + u32 option) io" where
  "pk_lookup t i = io_try (table_get t i) (\<lambda>v. Ret (Inr (map_option (\<lambda>v. word_le (take 4 v)) v)))"

text \<open>A collected \<open>HashMap\<close> is read by key only, so it is a map.\<close>
definition pk_lookup_batch :: "typed_table \<Rightarrow> memory_id list \<Rightarrow> (index_error + (memory_id \<rightharpoonup> u32)) io" where
  "pk_lookup_batch t ids = io_try (table_get_many t ids) (\<lambda>pairs.
     Ret (Inr (map_of (map (\<lambda>(i, v). (i, word_le (take 4 v))) pairs))))"

text \<open>The payload row is \<open>rkyv\<close>'s encoding \<open>w\<close> of the item without its vector, read back by \<open>r\<close>.\<close>
definition payload_build :: "(stored_memory \<Rightarrow> bytes) \<Rightarrow> stored_memory list \<Rightarrow> bytes \<times> bytes" where
  "payload_build w items = sstable_build BLOCK_TARGET_BYTES
     (map (\<lambda>(i, b). (mid_bytes i, b)) (sort_key fst (map (\<lambda>m. (sm_id m, w (strip_vector m))) items)))"

definition payload_lookup_batch ::
    "(bytes \<Rightarrow> stored_memory option) \<Rightarrow> typed_table \<Rightarrow> memory_id list \<Rightarrow> (index_error + (memory_id \<rightharpoonup> stored_memory)) io" where
  "payload_lookup_batch r t ids = io_try (table_get_many t ids) (\<lambda>pairs.
     Ret (Inr (map_of (concat (map (\<lambda>(i, b). case r b of None \<Rightarrow> [] | Some m \<Rightarrow> [(i, m)]) pairs)))))"

definition rerank_build :: "stored_memory list \<Rightarrow> bytes \<times> bytes" where
  "rerank_build items = sstable_build 1
     (map (\<lambda>(i, b). (mid_bytes i, b)) (sort_key fst (map (\<lambda>m. (sm_id m, concat (map (le_word 4) (sm_vector m))))
        (filter (\<lambda>m. sm_vector m \<noteq> []) items))))"

definition rerank_lookup_batch :: "typed_table \<Rightarrow> memory_id list \<Rightarrow> (index_error + (memory_id \<rightharpoonup> f32 list)) io" where
  "rerank_lookup_batch t ids = io_try (table_get_many t ids) (\<lambda>pairs.
     Ret (Inr (map_of (map (\<lambda>(i, b). (i, map word_le (chunks_exact 4 b))) pairs))))"

definition radj_build :: "(memory_id \<times> in_edge) list \<Rightarrow> bytes \<times> bytes" where
  "radj_build pairs = sstable_build BLOCK_TARGET_BYTES
     (grouped_entries mid_bytes encode_in_edge (sort_key (\<lambda>p. (fst p, ie_source (snd p))) pairs))"

definition radj_incoming :: "typed_table \<Rightarrow> memory_id \<Rightarrow> (index_error + in_edge list) io" where
  "radj_incoming t target = io_try (table_get t target) (\<lambda>v.
     Ret (Inr (case v of Some bs \<Rightarrow> decode_edges bs | None \<Rightarrow> [])))"

definition radj_incoming_batch :: "typed_table \<Rightarrow> memory_id list \<Rightarrow> (index_error + (memory_id \<rightharpoonup> in_edge list)) io" where
  "radj_incoming_batch t targets = io_try (table_get_many t targets) (\<lambda>pairs.
     Ret (Inr (map_of (map (\<lambda>(i, bs). (i, decode_edges bs)) pairs))))"

definition entity_build :: "(entity_id \<times> memory_id) list \<Rightarrow> bytes \<times> bytes" where
  "entity_build pairs = sstable_build BLOCK_TARGET_BYTES (grouped_entries eid_bytes mid_bytes (sort pairs))"

definition entity_candidates_batch ::
    "typed_table \<Rightarrow> entity_id list \<Rightarrow> nat \<Rightarrow> (index_error + (entity_id \<rightharpoonup> memory_id list)) io" where
  "entity_candidates_batch t entities cap =
     io_try (table_get_many t (map (\<lambda>e. MemoryId (eid_bytes e)) entities)) (\<lambda>pairs.
       Ret (Inr (map_of (map (\<lambda>(k, bs). (EntityId (mid_bytes k), decode_ids bs (Some cap))) pairs))))"

definition entity_counts ::
    "typed_table \<Rightarrow> entity_id list option \<Rightarrow> (index_error + (entity_id \<rightharpoonup> nat)) io" where
  "entity_counts t entities = (case entities of
     Some es \<Rightarrow> io_try (table_get_many t (map (\<lambda>e. MemoryId (eid_bytes e)) es)) (\<lambda>pairs.
       Ret (Inr (map_of (map (\<lambda>(k, bs). (EntityId (mid_bytes k), length bs div 16)) pairs))))
   | None \<Rightarrow> io_try (sstable_scan_range (tt_index t) (tt_data_path t) (replicate 16 0) (replicate 16 255)) (\<lambda>pairs.
       Ret (Inr (map_of (map (\<lambda>(k, bs). (EntityId k, length bs div 16)) pairs)))))"

definition time_build :: "(millis \<times> memory_id) list \<Rightarrow> bytes \<times> bytes" where
  "time_build pairs = sstable_build BLOCK_TARGET_BYTES (grouped_entries ts_key mid_bytes (sort pairs))"

text \<open>\<open>into_iter().step_by(stride)\<close>, for a positive stride.\<close>
function step_by :: "nat \<Rightarrow> 'a list \<Rightarrow> 'a list" where
  "step_by stride [] = []"
| "step_by stride (x # xs) = x # step_by stride (drop (stride - 1) xs)"
  by pat_completeness auto
termination by (relation "measure (\<lambda>(s, xs). length xs)") auto

text \<open>The bound on the entry-point pool.\<close>
definition spread_sample :: "nat \<Rightarrow> 'a list \<Rightarrow> 'a list" where
  "spread_sample cap ids = (if 0 < cap \<and> cap < length ids then take cap (step_by (length ids div cap) ids) else ids)"

definition time_in_window :: "typed_table \<Rightarrow> millis \<Rightarrow> millis \<Rightarrow> nat \<Rightarrow> (index_error + memory_id list) io" where
  "time_in_window t from to cap =
     io_try (sstable_scan_range (tt_index t) (tt_data_path t) (ts_key from) (ts_key_hi to)) (\<lambda>records.
       Ret (Inr (spread_sample cap (concat (map (\<lambda>(_, value). decode_ids value None) records)))))"

text \<open>The early return of the collecting loop leaves the first \<open>cap\<close> pairs.\<close>
definition time_after :: "typed_table \<Rightarrow> millis \<Rightarrow> nat \<Rightarrow> (index_error + (millis \<times> memory_id) list) io" where
  "time_after t from cap =
     (if cap = 0 \<or> sstable_is_empty (tt_index t) then Ret (Inr [])
      else io_try (sstable_scan_forward (tt_index t) (tt_data_path t) (ts_key from) cap) (\<lambda>records.
        Ret (Inr (take cap (concat (map (\<lambda>(k, value). map (Pair (ts_from_key k)) (decode_ids value None)) records))))))"

definition time_timestamp_counts :: "typed_table \<Rightarrow> (index_error + (millis \<times> nat) list) io" where
  "time_timestamp_counts t =
     io_try (sstable_scan_range (tt_index t) (tt_data_path t) (ts_key I64_MIN) (ts_key_hi I64_MAX)) (\<lambda>records.
       Ret (Inr (map (\<lambda>(k, value). (ts_from_key k, length value div 16)) records)))"

section \<open>Values of one width\<close>

locale fixed_width =
  fixes width :: nat and enc :: "'a \<Rightarrow> bytes" and dec :: "bytes \<Rightarrow> 'a" and ok :: "'a \<Rightarrow> bool"
  assumes width_pos: "0 < width"
    and enc_length: "ok x \<Longrightarrow> length (enc x) = width"
    and dec_enc: "ok x \<Longrightarrow> dec (enc x) = x"
begin

lemma chunks_concat: "list_all ok xs \<Longrightarrow> chunks_exact width (concat (map enc xs)) = map enc xs"
proof (induction xs)
  case Nil
  then show ?case using width_pos by (simp add: chunks_exact.simps)
next
  case (Cons x xs)
  then show ?case using width_pos by (subst chunks_exact.simps) (simp add: enc_length)
qed

lemma decode_concat: "list_all ok xs \<Longrightarrow> map dec (chunks_exact width (concat (map enc xs))) = xs"
  by (simp add: chunks_concat list_all_iff map_idI dec_enc)

lemma length_concat_enc: "list_all ok xs \<Longrightarrow> length (concat (map enc xs)) = width * length xs"
  by (induction xs) (auto simp: enc_length)

lemma count_concat: "list_all ok xs \<Longrightarrow> length (concat (map enc xs)) div width = length xs"
  using width_pos by (simp add: length_concat_enc)

end

definition id16 :: "memory_id \<Rightarrow> bool" where
  "id16 i = (length (mid_bytes i) = 16)"

interpretation ids: fixed_width 16 mid_bytes MemoryId id16
  by unfold_locales (simp_all add: id16_def)

interpretation floats: fixed_width 4 "le_word 4 :: f32 \<Rightarrow> bytes" word_le "\<lambda>_. True"
  by unfold_locales simp_all

lemma decode_edge_kind_bytes [simp]:
  "decode_edge_kind (fst (edge_kind_bytes k)) (snd (edge_kind_bytes k)) = k"
  by (cases k rule: edge_kind_bytes.cases) (auto simp: decode_edge_kind_def)

interpretation edges: fixed_width EDGE_BYTES encode_in_edge decode_edge "\<lambda>e. id16 (ie_source e)"
proof unfold_locales
  fix e :: in_edge
  assume "id16 (ie_source e)"
  then show "length (encode_in_edge e) = EDGE_BYTES"
    by (simp add: encode_in_edge_def id16_def EDGE_BYTES_def split_beta)
  from \<open>id16 (ie_source e)\<close> show "decode_edge (encode_in_edge e) = e"
    by (simp add: decode_edge_def encode_in_edge_def id16_def split_beta slice_def nth_append)
qed (simp add: EDGE_BYTES_def)

section \<open>Groups of a sorted list\<close>

definition values_of :: "'k \<Rightarrow> ('k \<times> 'v) list \<Rightarrow> 'v list" where
  "values_of k ps = map snd (filter (\<lambda>p. fst p = k) ps)"

lemma sorted_takeWhile_filter:
  "sorted (map fst ((k, v) # ps)) \<Longrightarrow> takeWhile (\<lambda>p. fst p = k) ps = filter (\<lambda>p. fst p = (k :: 'k::linorder)) ps"
proof (induction ps)
  case (Cons p ps)
  show ?case
  proof (cases "fst p = k")
    case False
    then have "\<forall>q \<in> set ps. fst q \<noteq> k" using Cons.prems by fastforce
    with False show ?thesis by (simp add: filter_empty_conv)
  qed (use Cons in auto)
qed simp

lemma sorted_dropWhile_filter:
  "sorted (map fst ((k, v) # ps)) \<Longrightarrow> dropWhile (\<lambda>p. fst p = k) ps = filter (\<lambda>p. (k :: 'k::linorder) < fst p) ps"
proof (induction ps)
  case (Cons p ps)
  show ?case
  proof (cases "fst p = k")
    case False
    then have "\<forall>q \<in> set (p # ps). k < fst q" using Cons.prems by fastforce
    with False show ?thesis by (simp add: filter_id_conv)
  qed (use Cons in auto)
qed simp

lemma sorted_filter_fst: "sorted (map fst ps) \<Longrightarrow> sorted (map fst (filter P (ps :: ('k::linorder \<times> 'v) list)))"
  by (induction ps) auto

lemma set_group_runs: "fst ` set (group_runs ps) = fst ` set ps"
proof (induction ps rule: group_runs.induct)
  case (2 k v ps)
  have "set ps = set (takeWhile (\<lambda>p. fst p = k) ps) \<union> set (dropWhile (\<lambda>p. fst p = k) ps)"
    by (metis set_append takeWhile_dropWhile_id)
  moreover have "fst ` set (takeWhile (\<lambda>p. fst p = k) ps) \<subseteq> {k}" by (auto dest: set_takeWhileD)
  ultimately show ?case using 2 by auto
qed simp

lemma group_runs_sorted:
  "sorted (map fst ps) \<Longrightarrow> sorted_wrt (<) (map fst (group_runs (ps :: ('k::linorder \<times> 'v) list)))"
proof (induction ps rule: group_runs.induct)
  case (2 k v ps)
  have d: "dropWhile (\<lambda>p. fst p = k) ps = filter (\<lambda>p. k < fst p) ps" by (rule sorted_dropWhile_filter[OF 2(2)])
  have "sorted_wrt (<) (map fst (group_runs (dropWhile (\<lambda>p. fst p = k) ps)))"
    using 2 by (simp add: d sorted_filter_fst)
  moreover have "\<forall>x \<in> fst ` set (group_runs (dropWhile (\<lambda>p. fst p = k) ps)). k < x"
    unfolding set_group_runs d by auto
  ultimately show ?case by simp
qed simp

lemma ungroup: "concat (map (\<lambda>(k, vs). map (Pair k) vs) (group_runs ps)) = ps"
proof (induction ps rule: group_runs.induct)
  case (2 k v ps)
  have "map (Pair k \<circ> snd) (takeWhile (\<lambda>p. fst p = k) ps) = takeWhile (\<lambda>p. fst p = k) ps"
    by (rule map_idI) (auto dest: set_takeWhileD)
  with 2 show ?case by simp
qed simp

lemma map_of_group_runs:
  "sorted (map fst ps) \<Longrightarrow> map_of (group_runs (ps :: ('k::linorder \<times> 'v) list)) k =
     (if values_of k ps = [] then None else Some (values_of k ps))"
proof (induction ps rule: group_runs.induct)
  case (2 j v ps)
  have t: "takeWhile (\<lambda>p. fst p = j) ps = filter (\<lambda>p. fst p = j) ps"
    and d: "dropWhile (\<lambda>p. fst p = j) ps = filter (\<lambda>p. j < fst p) ps"
    by (rule sorted_takeWhile_filter[OF 2(2)], rule sorted_dropWhile_filter[OF 2(2)])
  have IH: "map_of (group_runs (filter (\<lambda>p. j < fst p) ps)) k =
      (if values_of k (filter (\<lambda>p. j < fst p) ps) = [] then None else Some (values_of k (filter (\<lambda>p. j < fst p) ps)))"
    using 2 by (simp add: d sorted_filter_fst)
  have "j \<noteq> k \<Longrightarrow> values_of k (filter (\<lambda>p. j < fst p) ps) = values_of k ps"
    using 2(2) unfolding values_of_def filter_filter by (intro arg_cong[where f = "map snd"] filter_cong) fastforce+
  with IH show ?case by (auto simp: t d values_of_def)
qed (simp add: values_of_def)

lemma group_runs_nonempty: "(k, vs) \<in> set (group_runs ps) \<Longrightarrow> vs \<noteq> []"
  by (induction ps rule: group_runs.induct) auto

lemma group_runs_values: "(k, vs) \<in> set (group_runs ps) \<Longrightarrow> v \<in> set vs \<Longrightarrow> (k, v) \<in> set ps"
proof -
  assume "(k, vs) \<in> set (group_runs ps)" "v \<in> set vs"
  then have "(k, v) \<in> set (concat (map (\<lambda>(k, vs). map (Pair k) vs) (group_runs ps)))" by force
  then show ?thesis by (simp only: ungroup)
qed

lemma group_runs_length: "(k, vs) \<in> set (group_runs ps) \<Longrightarrow> length vs \<le> length ps"
proof -
  assume "(k, vs) \<in> set (group_runs ps)"
  then have "length vs \<le> sum_list (map (length \<circ> snd) (group_runs ps))"
    by (intro member_le_sum_list) (force, simp)
  also have "\<dots> = length (concat (map (\<lambda>(k, vs). map (Pair k) vs) (group_runs ps)))"
    by (simp add: length_concat comp_def split_beta)
  finally show ?thesis by (simp only: ungroup)
qed

lemma length_group_runs: "length (group_runs ps) \<le> length ps"
  by (induction ps rule: group_runs.induct) (auto intro: le_trans length_dropWhile_le)

lemma filter_ungroup:
  "concat (map (\<lambda>(k, vs). map (Pair k) vs) (filter (\<lambda>g. P (fst g)) (group_runs ps))) = filter (\<lambda>p. P (fst p)) ps"
proof -
  have "concat (map (\<lambda>(k, vs). map (Pair k) vs) (filter (\<lambda>g. P (fst g)) gs))
      = filter (\<lambda>p. P (fst p)) (concat (map (\<lambda>(k, vs). map (Pair k) vs) gs))" for gs :: "('a \<times> 'b list) list"
    by (induction gs) (auto simp: filter_id_conv filter_empty_conv)
  then show ?thesis by (simp only: ungroup)
qed

lemma take_concat_take: "\<forall>x \<in> set xss. x \<noteq> [] \<Longrightarrow> take n (concat (take n xss)) = take n (concat xss)"
proof (induction xss arbitrary: n)
  case (Cons x xss)
  show ?case
  proof (cases n)
    case (Suc m)
    obtain k where k: "length x = Suc k" using Cons.prems by (cases x) auto
    have "take (m - k) (concat (take m xss)) = take (m - k) (concat xss)"
    proof -
      have "take (m - k) (concat (take m xss)) = take (m - k) (take m (concat (take m xss)))" by simp
      also have "\<dots> = take (m - k) (concat xss)" using Cons by simp
      finally show ?thesis .
    qed
    with Suc k show ?thesis by simp
  qed simp
qed simp

section \<open>Opened tables\<close>

text \<open>Point reads through an opened table.\<close>

definition opened :: "typed_table \<Rightarrow> path \<Rightarrow> bytes \<Rightarrow> (key \<times> bytes) list \<Rightarrow> bool" where
  "opened t p data es = (tt_data_path t = p \<and> table_of (tt_index t) data es)"

lemma table_open_built:
  assumes "entries_ok n es" "n \<le> 2 ^ 32"
  obtains t where "table_open (fst (sstable_build n es)) p = Inr t" "opened t p (snd (sstable_build n es)) es"
  using sstable_build_table[OF assms] unfolding table_open_def opened_def by force

lemma reads_table_get:
  "opened t p data es \<Longrightarrow> reads p data (table_get t k) (map_of es (mid_bytes k))"
  using sst.get_law by (auto simp: opened_def table_get_def)

lemma reads_map_Ret:
  "reads p data m x \<Longrightarrow> reads p data (io_try m (\<lambda>v. Ret (Inr (f v)))) (f x)"
  by (rule reads_try) auto

lemma reads_table_get_many:
  assumes "opened t p data es"
  obtains out where "reads p data (table_get_many t ks) out"
    "map_of out = (\<lambda>k. if k \<in> set ks then map_of es (mid_bytes k) else None)"
    "\<And>k v. (k, v) \<in> set out \<Longrightarrow> map_of es (mid_bytes k) = Some v"
proof -
  have T: "table_of (tt_index t) data es" and p: "tt_data_path t = p" using assms by (simp_all add: opened_def)
  from sst.get_many_map[OF T, of p ks] that show thesis unfolding table_get_many_def p by blast
qed

section \<open>Tables of grouped pairs\<close>

locale grouped_table = fixed_width +
  fixes ek :: "'k::linorder \<Rightarrow> key" and key_ok :: "'k \<Rightarrow> bool"
  assumes ek_mono: "key_ok a \<Longrightarrow> key_ok b \<Longrightarrow> a < b \<Longrightarrow> ek a < ek b"
    and ek_length: "key_ok a \<Longrightarrow> length (ek a) = 16"
begin

definition pairs_ok :: "('k \<times> 'a) list \<Rightarrow> bool" where
  "pairs_ok ps = (sorted (map fst ps) \<and> list_all (\<lambda>p. key_ok (fst p) \<and> ok (snd p)) ps)"

lemma ek_less: "key_ok a \<Longrightarrow> key_ok b \<Longrightarrow> (ek a < ek b) = (a < b)"
  using ek_mono by (metis less_asym less_linear)

lemma ek_eq: "key_ok a \<Longrightarrow> key_ok b \<Longrightarrow> (ek a = ek b) = (a = b)"
  using ek_less by (metis less_irrefl less_linear)

lemma ek_le: "key_ok a \<Longrightarrow> key_ok b \<Longrightarrow> (ek a \<le> ek b) = (a \<le> b)"
  using ek_less by (metis linorder_not_le)

lemma group_key_ok: "pairs_ok ps \<Longrightarrow> g \<in> set (group_runs ps) \<Longrightarrow> key_ok (fst g)"
proof -
  assume "pairs_ok ps" "g \<in> set (group_runs ps)"
  then have "fst g \<in> fst ` set ps" using set_group_runs[of ps] by blast
  with \<open>pairs_ok ps\<close> show ?thesis by (auto simp: pairs_ok_def list_all_iff)
qed

lemma group_values_ok: "pairs_ok ps \<Longrightarrow> g \<in> set (group_runs ps) \<Longrightarrow> list_all ok (snd g)"
  by (cases g) (fastforce simp: pairs_ok_def list_all_iff dest: group_runs_values)

lemma entries_sorted: "pairs_ok ps \<Longrightarrow> sorted_wrt (<) (map fst (grouped_entries ek enc ps))"
proof -
  assume P: "pairs_ok ps"
  then have g: "sorted_wrt (\<lambda>a b. fst a < fst b) (group_runs ps)"
    using group_runs_sorted[of ps] by (simp add: pairs_ok_def sorted_wrt_map)
  have "sorted_wrt (\<lambda>a b. ek (fst a) < ek (fst b)) (group_runs ps)"
    by (rule sorted_wrt_mono_rel[OF _ g]) (auto intro: ek_mono group_key_ok[OF P])
  then show ?thesis by (simp add: grouped_entries_def sorted_wrt_map split_beta)
qed

lemma map_of_grouped:
  assumes P: "pairs_ok ps" and k: "key_ok k"
  shows "map_of (grouped_entries ek enc ps) (ek k) =
    (if values_of k ps = [] then None else Some (concat (map enc (values_of k ps))))"
proof -
  have "map_of (map (\<lambda>(k, vs). (ek k, concat (map enc vs))) gs) (ek k) = map_option (\<lambda>vs. concat (map enc vs)) (map_of gs k)"
    if "\<forall>g \<in> set gs. key_ok (fst g)" for gs
    using that by (induction gs) (auto simp: ek_eq k)
  then show ?thesis
    using group_key_ok[OF P] map_of_group_runs[of ps k] P by (simp add: grouped_entries_def pairs_ok_def)
qed

lemma value_length:
  "pairs_ok ps \<Longrightarrow> (k, v) \<in> set (grouped_entries ek enc ps) \<Longrightarrow> length v \<le> width * length ps"
  using group_values_ok group_runs_length
  by (fastforce simp: grouped_entries_def length_concat_enc)

lemma values_ok: "pairs_ok ps \<Longrightarrow> list_all ok (values_of k ps)"
  by (auto simp: pairs_ok_def list_all_iff values_of_def)

lemma total_length:
  assumes P: "pairs_ok ps"
  shows "length (block_bytes (grouped_entries ek enc ps)) \<le> (20 + width) * length ps"
proof -
  have "length (block_bytes (map (\<lambda>(k, vs). (ek k, concat (map enc vs))) gs))
      = 20 * length gs + width * sum_list (map (length \<circ> snd) gs)"
    if "\<forall>g \<in> set gs. key_ok (fst g) \<and> list_all ok (snd g)" for gs
    using that by (induction gs) (auto simp: ek_length length_concat_enc algebra_simps)
  then have "length (block_bytes (grouped_entries ek enc ps))
      = 20 * length (group_runs ps) + width * sum_list (map (length \<circ> snd) (group_runs ps))"
    using group_key_ok[OF P] group_values_ok[OF P] by (simp add: grouped_entries_def)
  also have "sum_list (map (length \<circ> snd) (group_runs ps)) = length (concat (map (\<lambda>(k, vs). map (Pair k) vs) (group_runs ps)))"
    by (simp add: length_concat comp_def split_beta)
  also have "\<dots> = length ps" by (simp only: ungroup)
  finally show ?thesis using length_group_runs[of ps] by (simp add: algebra_simps)
qed

lemma grouped_entries_ok:
  assumes P: "pairs_ok ps" and n: "max t 1 + 20 + width * length ps \<le> 2 ^ 32"
  shows "entries_ok t (grouped_entries ek enc ps)"
proof -
  define w where "w = width * length ps"
  have "1 * length ps \<le> w" unfolding w_def using width_pos by (intro mult_right_mono) simp_all
  then have "length (block_bytes (grouped_entries ek enc ps)) < 2 ^ 64"
    using total_length[OF P] n unfolding add_mult_distrib w_def[symmetric] by simp
  moreover have "length k = 16 \<and> max t 1 + 20 + length v \<le> 2 ^ 32" if "(k, v) \<in> set (grouped_entries ek enc ps)" for k v
    using that value_length[OF P that] n group_key_ok[OF P] by (force simp: grouped_entries_def ek_length)
  ultimately show ?thesis using entries_sorted[OF P] by (auto simp: entries_ok_def list_all_iff)
qed

text \<open>Building such a table and opening it gives an index of the grouped pairs.\<close>
lemma open_grouped:
  assumes "pairs_ok ps" "BLOCK_TARGET_BYTES + 20 + width * length ps \<le> 2 ^ 32"
  obtains t where "table_open (fst (sstable_build BLOCK_TARGET_BYTES (grouped_entries ek enc ps))) p = Inr t"
    "opened t p (snd (sstable_build BLOCK_TARGET_BYTES (grouped_entries ek enc ps))) (grouped_entries ek enc ps)"
proof -
  have b: "max BLOCK_TARGET_BYTES 1 = BLOCK_TARGET_BYTES" "BLOCK_TARGET_BYTES \<le> 2 ^ 32"
    by (simp_all add: BLOCK_TARGET_BYTES_def)
  have "entries_ok BLOCK_TARGET_BYTES (grouped_entries ek enc ps)"
    by (rule grouped_entries_ok[OF assms(1)]) (use assms(2) b(1) in simp)
  from table_open_built[OF this b(2)] that show thesis by blast
qed

end

section \<open>The timestamp key is an order embedding\<close>

lemma flip_top_bit: "(w :: u64) XOR push_bit 63 1 = w + 2 ^ 63"
proof -
  have top: "(2 ^ 63 :: u64) + 2 ^ 63 = 0" by simp
  show ?thesis
  proof (cases "bit w 63")
    case True
    then have "w XOR push_bit 63 1 = w - 2 ^ 63"
      unfolding flip_bit_eq_xor[symmetric] flip_bit_eq_if by (simp add: unset_bit_eq)
    also have "\<dots> = w + 2 ^ 63" using top by (simp add: eq_diff_eq)
    finally show ?thesis .
  next
    case False
    then show ?thesis unfolding flip_bit_eq_xor[symmetric] flip_bit_eq_if by (simp add: set_bit_eq)
  qed
qed

lemma ts_key_i64: "is_i64 t \<Longrightarrow> ts_key t = to_be 8 (nat (t + 2 ^ 63)) @ replicate 8 0"
proof -
  assume t: "is_i64 t"
  define x where "x = t + 2 ^ 63"
  have x: "0 \<le> x" "x < 2 ^ 64" using t by (simp_all add: x_def is_i64_def I64_MIN_def I64_MAX_def)
  have "(word_of_int t :: u64) + 2 ^ 63 = word_of_int x" by (simp add: x_def)
  moreover have "unat (word_of_int x :: u64) = nat x"
    using x by (simp add: unsigned_of_int take_bit_int_eq_self)
  ultimately show ?thesis unfolding ts_key_def flip_top_bit x_def by simp
qed

lemma i64_offset_bound: "is_i64 t \<Longrightarrow> nat (t + 2 ^ 63) < 256 ^ 8"
  by (simp add: is_i64_def I64_MIN_def I64_MAX_def nat_less_iff)

lemma length_ts_key [simp]: "length (ts_key t) = 16"
  by (simp add: ts_key_def)

lemma append_less_append:
  "length xs = length ys \<Longrightarrow> (xs @ us < ys @ vs) = (xs < ys \<or> xs = ys \<and> us < (vs :: 'a::linorder list))"
  by (induction xs ys rule: list_induct2) (auto simp: Cons_less_Cons)

lemma ts_key_less: "is_i64 a \<Longrightarrow> is_i64 b \<Longrightarrow> a < b \<Longrightarrow> ts_key a < ts_key b"
  using i64_offset_bound[of a] i64_offset_bound[of b]
  by (simp add: ts_key_i64 append_less_append to_be_less_iff is_i64_def I64_MIN_def I64_MAX_def nat_less_eq_zless)

lemma pad_not_less: "\<not> (replicate 8 255 :: bytes) < replicate 8 0"
proof -
  have "replicate 8 b = b # replicate 7 b" for b :: u8 by (simp add: eval_nat_numeral)
  then show ?thesis by (simp add: Cons_less_Cons)
qed

lemma ts_key_hi_le: "is_i64 a \<Longrightarrow> is_i64 b \<Longrightarrow> (ts_key a \<le> ts_key_hi b) = (a \<le> b)"
proof -
  assume ab: "is_i64 a" "is_i64 b"
  have "(ts_key_hi b < ts_key a) = (b < a)"
    using ab i64_offset_bound[of a] i64_offset_bound[of b]
    by (simp add: ts_key_hi_def ts_key_i64 append_less_append to_be_less_iff pad_not_less
        is_i64_def I64_MIN_def I64_MAX_def) linarith
  then show ?thesis by (metis linorder_not_le)
qed

lemma ts_from_key_ts_key: "is_i64 t \<Longrightarrow> ts_from_key (ts_key t) = t"
proof -
  assume t: "is_i64 t"
  have "from_be (take 8 (ts_key t)) = nat (t + 2 ^ 63)"
    using t i64_offset_bound[OF t] by (simp add: ts_key_i64 from_be_to_be)
  moreover have "(of_nat (nat (t + 2 ^ 63)) :: u64) = word_of_int (t + 2 ^ 63)"
    using t by (intro of_nat_nat) (simp add: is_i64_def I64_MIN_def)
  moreover have "(word_of_int (t + 2 ^ 63) :: u64) + 2 ^ 63 = word_of_int t"
    by simp
  ultimately have "ts_from_key (ts_key t) = sint (word_of_int t :: u64)"
    unfolding ts_from_key_def flip_top_bit by metis
  also have "\<dots> = t"
    using t by (simp add: is_i64_def I64_MIN_def I64_MAX_def signed_of_int signed_take_bit_int_eq_self)
  finally show ?thesis .
qed

section \<open>The three grouped indexes\<close>

definition eid16 :: "entity_id \<Rightarrow> bool" where
  "eid16 e = (length (eid_bytes e) = 16)"

interpretation entity_ix: grouped_table 16 mid_bytes MemoryId id16 eid_bytes eid16
  by unfold_locales (simp_all add: eid16_def less_entity_id_def)

interpretation radj_ix: grouped_table EDGE_BYTES encode_in_edge decode_edge "\<lambda>e. id16 (ie_source e)" mid_bytes id16
  by unfold_locales (simp_all add: id16_def less_memory_id_def)

interpretation time_ix: grouped_table 16 mid_bytes MemoryId id16 ts_key is_i64
  by unfold_locales (simp_all add: ts_key_less)

text \<open>Sorting pairs by key and then by a field sorts the values of each key by that field.\<close>
lemma map_snd_insort:
  "\<forall>q \<in> set qs. fst q = fst p \<Longrightarrow>
     map snd (insort_key (\<lambda>p. (fst p, f (snd p))) p qs) = insort_key f (snd p) (map snd qs)"
  by (induction qs) auto

lemma map_snd_sort_key:
  "\<forall>q \<in> set qs. fst q = k \<Longrightarrow> map snd (sort_key (\<lambda>p. (fst p, f (snd p))) qs) = sort_key f (map snd qs)"
proof (induction qs)
  case (Cons q qs)
  then show ?case by (simp add: sort_key_def map_snd_insort[unfolded sort_key_def] flip: sort_key_def)
qed simp

lemma values_of_sort_key:
  "values_of k (sort_key (\<lambda>p. (fst p, f (snd p))) ps) = sort_key f (values_of k ps)"
  unfolding values_of_def filter_sort by (rule map_snd_sort_key[where k = k]) simp

lemma values_of_sort: "values_of k (sort ps) = sort (values_of k (ps :: ('a::linorder \<times> 'b::linorder) list))"
  using values_of_sort_key[where f = "\<lambda>x. x"] by simp

lemma sort_key_Nil_iff: "(sort_key f xs = []) = (xs = [])"
  by (metis length_sort length_0_conv)

lemma sorted_fst_sort_key:
  "sorted (map fst (sort_key (\<lambda>p. (fst p, f (snd p))) (ps :: ('a::linorder \<times> 'b) list)))"
proof -
  have "sorted (map (\<lambda>p. (fst p, f (snd p))) (sort_key (\<lambda>p. (fst p, f (snd p))) ps))" by (rule sorted_sort_key)
  then show ?thesis
    unfolding sorted_map by (rule sorted_wrt_mono_rel[rotated]) (auto simp: less_eq_prod_def)
qed

lemma sorted_fst_sort: "sorted (map fst (sort (ps :: ('a::linorder \<times> 'b::linorder) list)))"
  using sorted_fst_sort_key[where f = "\<lambda>x. x"] by simp

lemma map_of_map_snd: "map_of (map (\<lambda>(k, v). (k, f v)) xs) k = map_option f (map_of xs k)"
  by (induction xs) auto

lemma map_of_map_key:
  "inj g \<Longrightarrow> map_of (map (\<lambda>(k, v). (g k, f v)) xs) (g k) = map_option f (map_of xs k)"
  by (induction xs) (auto dest: injD)

section \<open>Reads of the indexes\<close>

lemma decode_ids_concat:
  "list_all id16 is \<Longrightarrow> decode_ids (concat (map mid_bytes is)) cap = (case cap of None \<Rightarrow> is | Some n \<Rightarrow> take n is)"
  using ids.decode_concat[of "is"] by (auto simp: decode_ids_def Let_def take_map[symmetric] split: option.split)

lemma decode_edges_concat:
  "list_all (\<lambda>e. id16 (ie_source e)) es \<Longrightarrow> decode_edges (concat (map encode_in_edge es)) = es"
  by (simp add: decode_edges_def edges.decode_concat)

lemma reads_radj_incoming:
  assumes P: "radj_ix.pairs_ok ps" and t: "id16 target"
    and op: "opened tb p data (grouped_entries mid_bytes encode_in_edge ps)"
  shows "reads p data (radj_incoming tb target) (values_of target ps)"
  unfolding radj_incoming_def
  using reads_map_Ret[OF reads_table_get[OF op, of target], of "\<lambda>v. case v of Some bs \<Rightarrow> decode_edges bs | None \<Rightarrow> []"]
  by (simp add: radj_ix.map_of_grouped[OF P t] decode_edges_concat radj_ix.values_ok[OF P] split: if_split_asm)

lemma reads_radj_incoming_batch:
  assumes P: "radj_ix.pairs_ok ps" and t: "list_all id16 targets"
    and op: "opened tb p data (grouped_entries mid_bytes encode_in_edge ps)"
  shows "reads p data (radj_incoming_batch tb targets)
    (\<lambda>i. if i \<in> set targets \<and> values_of i ps \<noteq> [] then Some (values_of i ps) else None)"
proof -
  obtain out where out: "reads p data (table_get_many tb targets) out"
      "map_of out = (\<lambda>k. if k \<in> set targets then map_of (grouped_entries mid_bytes encode_in_edge ps) (mid_bytes k) else None)"
    by (rule reads_table_get_many[OF op])
  have "map_of (map (\<lambda>(i, bs). (i, decode_edges bs)) out)
      = (\<lambda>i. if i \<in> set targets \<and> values_of i ps \<noteq> [] then Some (values_of i ps) else None)"
    using t[unfolded list_all_iff] by (auto simp: fun_eq_iff map_of_map_snd out(2) radj_ix.map_of_grouped[OF P]
        decode_edges_concat radj_ix.values_ok[OF P])
  with reads_map_Ret[OF out(1), of "\<lambda>pairs. map_of (map (\<lambda>(i, bs). (i, decode_edges bs)) pairs)"]
  show ?thesis unfolding radj_incoming_batch_def by simp
qed

lemma entity_key_image: "map_of (map (\<lambda>(k, bs). (EntityId (mid_bytes k), f bs)) xs) e = map_option f (map_of xs (MemoryId (eid_bytes e)))"
  by (induction xs) (auto simp: entity_id.expand)

lemma reads_entity_candidates:
  assumes P: "entity_ix.pairs_ok ps" and t: "list_all eid16 entities"
    and op: "opened tb p data (grouped_entries eid_bytes mid_bytes ps)"
  shows "reads p data (entity_candidates_batch tb entities cap)
    (\<lambda>e. if e \<in> set entities \<and> values_of e ps \<noteq> [] then Some (take cap (values_of e ps)) else None)"
    and "reads p data (entity_counts tb (Some entities))
    (\<lambda>e. if e \<in> set entities \<and> values_of e ps \<noteq> [] then Some (length (values_of e ps)) else None)"
proof -
  let ?ks = "map (\<lambda>e. MemoryId (eid_bytes e)) entities"
  obtain out where out: "reads p data (table_get_many tb ?ks) out"
      "map_of out = (\<lambda>k. if k \<in> set ?ks then map_of (grouped_entries eid_bytes mid_bytes ps) (mid_bytes k) else None)"
    by (rule reads_table_get_many[OF op])
  have mem: "(MemoryId (eid_bytes e) \<in> set ?ks) = (e \<in> set entities)" for e
    by (auto simp: image_iff) (metis entity_id.expand)
  have val: "map_of out (MemoryId (eid_bytes e)) = (if e \<in> set entities \<and> values_of e ps \<noteq> []
      then Some (concat (map mid_bytes (values_of e ps))) else None)" for e
    using t unfolding out(2) mem by (auto simp: entity_ix.map_of_grouped[OF P] list_all_iff)
  have "map_of (map (\<lambda>(k, bs). (EntityId (mid_bytes k), decode_ids bs (Some cap))) out)
      = (\<lambda>e. if e \<in> set entities \<and> values_of e ps \<noteq> [] then Some (take cap (values_of e ps)) else None)"
    by (auto simp: fun_eq_iff entity_key_image val decode_ids_concat entity_ix.values_ok[OF P])
  with reads_map_Ret[OF out(1), of "\<lambda>pairs. map_of (map (\<lambda>(k, bs). (EntityId (mid_bytes k), decode_ids bs (Some cap))) pairs)"]
  show "reads p data (entity_candidates_batch tb entities cap)
    (\<lambda>e. if e \<in> set entities \<and> values_of e ps \<noteq> [] then Some (take cap (values_of e ps)) else None)"
    unfolding entity_candidates_batch_def by simp
  have "map_of (map (\<lambda>(k, bs). (EntityId (mid_bytes k), length bs div 16)) out)
      = (\<lambda>e. if e \<in> set entities \<and> values_of e ps \<noteq> [] then Some (length (values_of e ps)) else None)"
    by (auto simp: fun_eq_iff entity_key_image val ids.count_concat entity_ix.values_ok[OF P])
  with reads_map_Ret[OF out(1), of "\<lambda>pairs. map_of (map (\<lambda>(k, bs). (EntityId (mid_bytes k), length bs div 16)) pairs)"]
  show "reads p data (entity_counts tb (Some entities))
    (\<lambda>e. if e \<in> set entities \<and> values_of e ps \<noteq> [] then Some (length (values_of e ps)) else None)"
    unfolding entity_counts_def by simp
qed

text \<open>The time index: its records decode to the sorted pairs, and the byte range of a window selects
  the groups of the instants in it.\<close>

lemma decode_time_records:
  assumes P: "time_ix.pairs_ok ps"
  shows "concat (map (\<lambda>(k, value). map (Pair (ts_from_key k)) (decode_ids value None))
      (map (\<lambda>(k, vs). (ts_key k, concat (map mid_bytes vs))) (filter (\<lambda>g. Q (fst g)) (group_runs ps))))
    = filter (\<lambda>q. Q (fst q)) ps"
proof -
  have "concat (map (\<lambda>(k, value). map (Pair (ts_from_key k)) (decode_ids value None))
      (map (\<lambda>(k, vs). (ts_key k, concat (map mid_bytes vs))) (filter (\<lambda>g. Q (fst g)) (group_runs ps))))
    = concat (map (\<lambda>(k, vs). map (Pair k) vs) (filter (\<lambda>g. Q (fst g)) (group_runs ps)))"
    unfolding map_map comp_def
    by (intro arg_cong[where f = concat] map_cong refl)
      (use time_ix.group_key_ok[OF P] time_ix.group_values_ok[OF P] in
        \<open>fastforce simp: split_beta ts_from_key_ts_key decode_ids_concat\<close>)
  then show ?thesis by (simp only: filter_ungroup)
qed

lemma filter_grouped:
  assumes "\<And>g. g \<in> set (group_runs ps) \<Longrightarrow> R (ts_key (fst g)) = Q (fst g)"
  shows "filter (\<lambda>e. R (fst e)) (grouped_entries ts_key mid_bytes ps)
    = map (\<lambda>(k, vs). (ts_key k, concat (map mid_bytes vs))) (filter (\<lambda>g. Q (fst g)) (group_runs ps))"
  unfolding grouped_entries_def filter_map
  by (intro arg_cong[where f = "map _"] filter_cong refl) (use assms in \<open>auto simp: comp_def split_beta\<close>)

lemma reads_time_after:
  assumes P: "time_ix.pairs_ok ps" and lim: "is_i64 from"
    and op: "opened tb p data (grouped_entries ts_key mid_bytes ps)"
  shows "reads p data (time_after tb from cap) (take cap (filter (\<lambda>q. from \<le> fst q) ps))"
proof -
  let ?gs = "filter (\<lambda>g. from \<le> fst g) (group_runs ps)"
  let ?rec = "map (\<lambda>(k, vs). (ts_key k, concat (map mid_bytes vs))) ?gs"
  let ?out = "\<lambda>(k, value). map (Pair (ts_from_key k)) (decode_ids value None)"
  have sel: "filter (\<lambda>e. ts_key from \<le> fst e) (grouped_entries ts_key mid_bytes ps) = ?rec"
    using time_ix.group_key_ok[OF P] by (intro filter_grouped) (simp add: time_ix.ek_le lim)
  have "reads p data (sstable_scan_forward (tt_index tb) (tt_data_path tb) (ts_key from) cap) (take cap ?rec)"
    using sst.forward_law[of "tt_index tb" data "grouped_entries ts_key mid_bytes ps" p "ts_key from" cap] op
    unfolding sel by (simp add: opened_def)
  then have rd: "reads p data (io_try (sstable_scan_forward (tt_index tb) (tt_data_path tb) (ts_key from) cap)
      (\<lambda>records. Ret (Inr (take cap (concat (map ?out records)))))) (take cap (concat (map ?out (take cap ?rec))))"
    by (rule reads_map_Ret)
  have ne: "\<forall>x \<in> set (map ?out ?rec). x \<noteq> []"
    using time_ix.group_values_ok[OF P] group_runs_nonempty[of _ _ ps]
    by (fastforce simp: decode_ids_concat split_beta)
  have tk: "take cap (concat (map ?out (take cap ?rec))) = take cap (filter (\<lambda>q. from \<le> fst q) ps)"
    unfolding take_map[symmetric] using take_concat_take[OF ne, of cap]
    by (simp only: take_map decode_time_records[OF P])
  have empty: "ps = []" if "sstable_is_empty (tt_index tb)"
    using that sst.count_entries[of "tt_index tb" data "grouped_entries ts_key mid_bytes ps"] op
    by (cases ps) (auto simp: opened_def sstable_is_empty_def record_count_def grouped_entries_def)
  show ?thesis
    using rd tk empty unfolding time_after_def by auto
qed

lemma reads_time_records:
  assumes P: "time_ix.pairs_ok ps" and lim: "is_i64 from" "is_i64 to"
    and op: "opened tb p data (grouped_entries ts_key mid_bytes ps)"
  shows "reads p data (sstable_scan_range (tt_index tb) (tt_data_path tb) (ts_key from) (ts_key_hi to))
    (map (\<lambda>(k, vs). (ts_key k, concat (map mid_bytes vs))) (filter (\<lambda>g. from \<le> fst g \<and> fst g \<le> to) (group_runs ps)))"
proof -
  have "filter (\<lambda>e. ts_key from \<le> fst e \<and> fst e \<le> ts_key_hi to) (grouped_entries ts_key mid_bytes ps)
      = map (\<lambda>(k, vs). (ts_key k, concat (map mid_bytes vs))) (filter (\<lambda>g. from \<le> fst g \<and> fst g \<le> to) (group_runs ps))"
    using time_ix.group_key_ok[OF P] by (intro filter_grouped) (simp add: time_ix.ek_le lim ts_key_hi_le)
  with sst.range_law[of "tt_index tb" data "grouped_entries ts_key mid_bytes ps" p "ts_key from" "ts_key_hi to"] op
  show ?thesis by (simp add: opened_def)
qed

lemma reads_time_in_window:
  assumes P: "time_ix.pairs_ok ps" and lim: "is_i64 from" "is_i64 to"
    and op: "opened tb p data (grouped_entries ts_key mid_bytes ps)"
  shows "reads p data (time_in_window tb from to cap)
    (spread_sample cap (map snd (filter (\<lambda>q. from \<le> fst q \<and> fst q \<le> to) ps)))"
proof -
  let ?rec = "map (\<lambda>(k, vs). (ts_key k, concat (map mid_bytes vs))) (filter (\<lambda>g. from \<le> fst g \<and> fst g \<le> to) (group_runs ps))"
  have "concat (map (\<lambda>(_, value). decode_ids value None) rs)
      = map snd (concat (map (\<lambda>(k, value). map (Pair (ts_from_key k)) (decode_ids value None)) rs))" for rs
    by (induction rs) (auto simp: comp_def)
  then have "concat (map (\<lambda>(_, value). decode_ids value None) ?rec) = map snd (filter (\<lambda>q. from \<le> fst q \<and> fst q \<le> to) ps)"
    by (simp only: decode_time_records[OF P, of "\<lambda>t. from \<le> t \<and> t \<le> to"])
  with reads_map_Ret[OF reads_time_records[OF assms], of "\<lambda>records.
      spread_sample cap (concat (map (\<lambda>(_, value). decode_ids value None) records))"]
  show ?thesis unfolding time_in_window_def by simp
qed

text \<open>The number of pairs of each key, in key order.\<close>
definition key_counts :: "('k::linorder \<times> 'v) list \<Rightarrow> ('k \<times> nat) list" where
  "key_counts ps = map (\<lambda>k. (k, length (values_of k ps))) (sort_dedup (map fst ps))"

lemma group_runs_counts:
  assumes "sorted (map fst (ps :: ('k::linorder \<times> 'v) list))"
  shows "map (\<lambda>(k, vs). (k, length vs)) (group_runs ps) = key_counts ps"
proof -
  have keys: "map fst (group_runs ps) = sort_dedup (map fst ps)"
    by (rule strict_sorted_equal) (simp_all add: group_runs_sorted[OF assms] strict_sorted_sort_dedup set_group_runs)
  have "snd g = values_of (fst g) ps" if "g \<in> set (group_runs ps)" for g
  proof -
    have "map_of (group_runs ps) (fst g) = Some (snd g)"
      using that group_runs_sorted[OF assms] by (simp add: bt_ok_distinct)
    then show ?thesis by (simp add: map_of_group_runs[OF assms] split: if_split_asm)
  qed
  then have "map (\<lambda>(k, vs). (k, length vs)) (group_runs ps) = map (\<lambda>k. (k, length (values_of k ps))) (map fst (group_runs ps))"
    by (auto simp: split_beta)
  then show ?thesis by (simp only: keys key_counts_def)
qed

lemma reads_time_counts:
  assumes P: "time_ix.pairs_ok ps" and op: "opened tb p data (grouped_entries ts_key mid_bytes ps)"
  shows "reads p data (time_timestamp_counts tb) (key_counts ps)"
proof -
  let ?gs = "filter (\<lambda>g. I64_MIN \<le> fst g \<and> fst g \<le> I64_MAX) (group_runs ps)"
  have lim: "is_i64 I64_MIN" "is_i64 I64_MAX" by (simp_all add: is_i64_def I64_MIN_def I64_MAX_def)
  have "?gs = group_runs ps" using time_ix.group_key_ok[OF P] by (auto simp: filter_id_conv is_i64_def)
  moreover have "map (\<lambda>(k, value). (ts_from_key k, length value div 16))
      (map (\<lambda>(k, vs). (ts_key k, concat (map mid_bytes vs))) (group_runs ps)) = key_counts ps"
    using time_ix.group_key_ok[OF P] time_ix.group_values_ok[OF P] P
    by (subst group_runs_counts[symmetric])
      (auto simp: time_ix.pairs_ok_def ts_from_key_ts_key ids.count_concat split_beta)
  ultimately show ?thesis
    using reads_map_Ret[OF reads_time_records[OF P lim op], of "map (\<lambda>(k, value). (ts_from_key k, length value div 16))"]
    unfolding time_timestamp_counts_def by simp
qed

section \<open>Tables keyed by item\<close>

definition flat_entries :: "(memory_id \<times> bytes) list \<Rightarrow> (key \<times> bytes) list" where
  "flat_entries es = map (\<lambda>(i, b). (mid_bytes i, b)) (sort_key fst es)"

text \<open>One entry per item, each within the size limits.\<close>
definition flat_ok :: "nat \<Rightarrow> (memory_id \<times> bytes) list \<Rightarrow> bool" where
  "flat_ok t es = (distinct (map fst es) \<and>
     list_all (\<lambda>(i, b). id16 i \<and> max t 1 + 20 + length b \<le> 2 ^ 32) es \<and> length es < 2 ^ 31)"

lemma map_of_sort_key: "distinct (map fst es) \<Longrightarrow> map_of (sort_key fst es) = map_of es"
proof -
  assume d: "distinct (map fst es)"
  have "mset (map fst (sort_key fst es)) = mset (map fst es)" by (simp add: mset_map)
  then have "distinct (map fst (sort_key fst es))" using d by (metis mset_eq_imp_distinct_iff)
  with d show ?thesis by (intro map_of_eqI) (auto simp: map_of_eq_Some_iff)
qed

lemma map_of_flat: "distinct (map fst es) \<Longrightarrow> map_of (flat_entries es) (mid_bytes i) = map_of es i"
proof -
  assume "distinct (map fst es)"
  have "map_of (map (\<lambda>(i, b). (mid_bytes i, b)) xs) (mid_bytes i) = map_of xs i" for xs :: "(memory_id \<times> bytes) list"
    by (induction xs) (auto simp: memory_id.expand)
  with map_of_sort_key[OF \<open>distinct (map fst es)\<close>] show ?thesis by (simp add: flat_entries_def)
qed

lemma flat_entries_ok: "flat_ok t es \<Longrightarrow> entries_ok t (flat_entries es)"
proof -
  assume F: "flat_ok t es"
  then have d: "distinct (map fst es)" by (simp add: flat_ok_def)
  have "mset (map fst (sort_key fst es)) = mset (map fst es)" by (simp add: mset_map)
  then have "sorted_wrt (<) (map fst (sort_key fst es))"
    using d by (metis mset_eq_imp_distinct_iff sorted_sort_key strict_sorted_iff)
  then have srt: "sorted_wrt (<) (map fst (flat_entries es))"
    by (simp add: flat_entries_def sorted_wrt_map split_beta less_memory_id_def)
  have size: "length (block_bytes xs) \<le> 2 ^ 32 * length xs"
    if "\<forall>(k, v) \<in> set xs. length k = 16 \<and> max t 1 + 20 + length v \<le> 2 ^ 32" for xs :: "(key \<times> bytes) list"
    using that by (induction xs) auto
  have el: "\<forall>(k, v) \<in> set (flat_entries es). length k = 16 \<and> max t 1 + 20 + length v \<le> 2 ^ 32"
    using F by (auto simp: flat_ok_def flat_entries_def list_all_iff id16_def)
  have "length (flat_entries es) = length es" by (simp add: flat_entries_def)
  with size[OF el] have "length (block_bytes (flat_entries es)) < 2 ^ 64" using F by (simp add: flat_ok_def)
  with srt el show ?thesis by (auto simp: entries_ok_def list_all_iff)
qed

lemma map_of_map_value: "map_option f (map_of (map (\<lambda>m. (g m, h m)) xs) i) = map_of (map (\<lambda>m. (g m, f (h m))) xs) i"
  by (induction xs) auto

lemma reads_flat_batch:
  assumes F: "flat_ok t es" and op: "opened tb p data (flat_entries es)"
  shows "reads p data (io_try (table_get_many tb ids) (\<lambda>pairs. Ret (Inr (map_of (map (\<lambda>(i, v). (i, f v)) pairs)))))
    (\<lambda>i. if i \<in> set ids then map_option f (map_of es i) else None)"
proof -
  obtain out where out: "reads p data (table_get_many tb ids) out"
      "map_of out = (\<lambda>k. if k \<in> set ids then map_of (flat_entries es) (mid_bytes k) else None)"
    by (rule reads_table_get_many[OF op])
  have "map_of (map (\<lambda>(i, v). (i, f v)) out) = (\<lambda>i. if i \<in> set ids then map_option f (map_of es i) else None)"
    using F by (auto simp: fun_eq_iff map_of_map_snd out(2) map_of_flat flat_ok_def)
  with reads_map_Ret[OF out(1), of "\<lambda>pairs. map_of (map (\<lambda>(i, v). (i, f v)) pairs)"] show ?thesis by simp
qed

text \<open>The same for rows that are dropped when they do not decode, on rows that all decode.\<close>
lemma reads_flat_filter_batch:
  assumes F: "flat_ok t es" and op: "opened tb p data (flat_entries es)"
    and dec: "\<And>i b. (i, b) \<in> set es \<Longrightarrow> r b = Some (f b)"
  shows "reads p data (io_try (table_get_many tb ids) (\<lambda>pairs. Ret (Inr (map_of
      (concat (map (\<lambda>(i, b). case r b of None \<Rightarrow> [] | Some m \<Rightarrow> [(i, m)]) pairs))))))
    (\<lambda>i. if i \<in> set ids then map_option f (map_of es i) else None)"
proof -
  obtain out where out: "reads p data (table_get_many tb ids) out"
      "map_of out = (\<lambda>k. if k \<in> set ids then map_of (flat_entries es) (mid_bytes k) else None)"
      "\<And>k v. (k, v) \<in> set out \<Longrightarrow> map_of (flat_entries es) (mid_bytes k) = Some v"
    by (rule reads_table_get_many[OF op]) blast
  have d: "distinct (map fst es)" using F by (simp add: flat_ok_def)
  have "\<forall>q \<in> set out. r (snd q) = Some (f (snd q))"
  proof
    fix q assume "q \<in> set out"
    then have "map_of es (fst q) = Some (snd q)" using out(3)[of "fst q" "snd q"] by (simp add: map_of_flat[OF d])
    then show "r (snd q) = Some (f (snd q))" by (rule dec[OF map_of_SomeD])
  qed
  then have "concat (map (\<lambda>(i, b). case r b of None \<Rightarrow> [] | Some m \<Rightarrow> [(i, m)]) out) = map (\<lambda>(i, v). (i, f v)) out"
    by (induction out) auto
  then have "map_of (concat (map (\<lambda>(i, b). case r b of None \<Rightarrow> [] | Some m \<Rightarrow> [(i, m)]) out))
      = (\<lambda>i. if i \<in> set ids then map_option f (map_of es i) else None)"
    by (auto simp: fun_eq_iff map_of_map_snd out(2) map_of_flat[OF d])
  with reads_map_Ret[OF out(1), of "\<lambda>pairs. map_of (concat (map (\<lambda>(i, b). case r b of None \<Rightarrow> [] | Some m \<Rightarrow> [(i, m)]) pairs))"]
  show ?thesis by simp
qed

lemma sort_key_map_snd:
  "sort_key fst (map (\<lambda>(i, v). (i, f v)) xs) = map (\<lambda>(i, v). (i, f v)) (sort_key fst xs)"
proof -
  have ins: "insort_key fst (i, f v) (map (\<lambda>(i, v). (i, f v)) ys) = map (\<lambda>(i, v). (i, f v)) (insort_key fst (i, v) ys)"
    for i v ys by (induction ys) auto
  show ?thesis by (induction xs) (auto simp: sort_key_def ins)
qed

lemma pk_build_flat: "pk_build entries = sstable_build BLOCK_TARGET_BYTES (flat_entries (map (\<lambda>(i, c). (i, le_word 4 c)) entries))"
  unfolding pk_build_def flat_entries_def sort_key_map_snd map_map by (simp add: comp_def case_prod_beta')

section \<open>Properties\<close>

definition time_pairs_ok :: "(millis \<times> memory_id) list \<Rightarrow> bool" where
  "time_pairs_ok pairs = (list_all (\<lambda>q. is_i64 (fst q) \<and> id16 (snd q)) pairs \<and>
     BLOCK_TARGET_BYTES + 20 + 16 * length pairs \<le> 2 ^ 32)"

lemma time_open:
  assumes "time_pairs_ok pairs"
  obtains tb where "table_open (fst (time_build pairs)) p = Inr tb" "time_ix.pairs_ok (sort pairs)"
    "opened tb p (snd (time_build pairs)) (grouped_entries ts_key mid_bytes (sort pairs))"
proof -
  have P: "time_ix.pairs_ok (sort pairs)"
    using assms by (simp add: time_ix.pairs_ok_def time_pairs_ok_def sorted_fst_sort list_all_iff)
  have "BLOCK_TARGET_BYTES + 20 + 16 * length (sort pairs) \<le> 2 ^ 32"
    using assms by (simp add: time_pairs_ok_def)
  from time_ix.open_grouped[OF P this, of p] that P show thesis by (auto simp: time_build_def)
qed

text \<open>C25. Ordered time scans. On a time index built from any timestamped items, the scan of the
  oldest items at or after an instant returns exactly the first \<open>cap\<close> pairs of the (time, id) order
  from there, negative timestamps included, and the timestamp histogram lists every distinct instant
  in ascending order with the number of items that carry it.\<close>
theorem time_scan_correct:
  assumes "time_pairs_ok pairs" "is_i64 from"
  shows "\<exists>tb. table_open (fst (time_build pairs)) p = Inr tb \<and>
    reads p (snd (time_build pairs)) (time_after tb from cap) (take cap (filter (\<lambda>q. from \<le> fst q) (sort pairs))) \<and>
    reads p (snd (time_build pairs)) (time_timestamp_counts tb) (key_counts (sort pairs))"
proof -
  obtain tb where tb: "table_open (fst (time_build pairs)) p = Inr tb" "time_ix.pairs_ok (sort pairs)"
    "opened tb p (snd (time_build pairs)) (grouped_entries ts_key mid_bytes (sort pairs))"
    by (rule time_open[OF assms(1)])
  show ?thesis
    by (intro exI[of _ tb] conjI tb(1) reads_time_after[OF tb(2) assms(2) tb(3)] reads_time_counts[OF tb(2,3)])
qed

definition sample_times :: "(millis \<times> memory_id) list" where
  "sample_times = [(5, MemoryId (replicate 16 3)), (-7, MemoryId (replicate 16 1)), (5, MemoryId (replicate 16 2))]"

lemma sample_times_ok: "time_pairs_ok sample_times" "is_i64 (-7)" "is_i64 0" "is_i64 100"
  by (simp_all add: time_pairs_ok_def sample_times_def is_i64_def id16_def BLOCK_TARGET_BYTES_def I64_MIN_def I64_MAX_def)

theorem time_scan_correct_witness:
  "\<exists>tb. table_open (fst (time_build sample_times)) ''t'' = Inr tb \<and>
    reads ''t'' (snd (time_build sample_times)) (time_after tb 0 2) (take 2 (filter (\<lambda>q. 0 \<le> fst q) (sort sample_times))) \<and>
    reads ''t'' (snd (time_build sample_times)) (time_timestamp_counts tb) (key_counts (sort sample_times))"
  by (rule time_scan_correct[OF sample_times_ok(1,3)])

lemma set_step_by: "set (step_by n xs) \<subseteq> set xs"
  by (induction n xs rule: step_by.induct) (auto dest: in_set_dropD)

lemma length_step_by: "0 < n \<Longrightarrow> length xs \<le> n * length (step_by n xs)"
proof (induction n xs rule: step_by.induct)
  case (2 n x xs)
  have "length xs - (n - 1) \<le> n * length (step_by n (drop (n - 1) xs))" using 2 by simp
  then have "Suc (length xs) \<le> n + n * length (step_by n (drop (n - 1) xs))" using 2(2) by linarith
  then show ?case by simp
qed simp

lemma step_by_1: "step_by (Suc 0) xs = xs"
  by (induction "Suc 0" xs rule: step_by.induct) auto

lemma spread_sample_spec:
  "cap = 0 \<or> length ids \<le> cap \<Longrightarrow> spread_sample cap ids = ids"
  "0 < cap \<Longrightarrow> cap < length ids \<Longrightarrow> length (spread_sample cap ids) = cap \<and> set (spread_sample cap ids) \<subseteq> set ids"
  "cap < length ids \<Longrightarrow> length ids < 2 * cap \<Longrightarrow> spread_sample cap ids = take cap ids"
proof -
  assume cap: "0 < cap" "cap < length ids"
  let ?n = "length ids div cap"
  have n: "0 < ?n" using cap by (simp add: div_greater_zero_iff)
  have "cap * ?n \<le> length ids" by simp
  also have "\<dots> \<le> ?n * length (step_by ?n ids)" using length_step_by[OF n] .
  finally have "cap \<le> length (step_by ?n ids)" using n by (simp add: mult.commute)
  then show "length (spread_sample cap ids) = cap \<and> set (spread_sample cap ids) \<subseteq> set ids"
    using cap set_step_by[of ?n ids] by (auto simp: spread_sample_def dest: in_set_takeD)
next
  assume cap: "cap < length ids" "length ids < 2 * cap"
  then have "length ids div cap = Suc 0" by (intro div_nat_eqI) simp_all
  with cap show "spread_sample cap ids = take cap ids" by (simp add: spread_sample_def step_by_1)
qed (auto simp: spread_sample_def)

text \<open>The time window. The ids in a closed window come in (time, id) order and all of them when
  they fit the cap; above the cap the result is a sample of exactly \<open>cap\<close> of them. When the window
  holds more than the cap but fewer than twice as many the stride is one, so the sample is the oldest
  \<open>cap\<close> ids of the window, not a spread over it.\<close>
theorem time_window_sample:
  assumes "time_pairs_ok pairs" "is_i64 from" "is_i64 to"
    and ids: "ids = map snd (filter (\<lambda>q. from \<le> fst q \<and> fst q \<le> to) (sort pairs))"
  shows "\<exists>tb out. table_open (fst (time_build pairs)) p = Inr tb \<and>
    reads p (snd (time_build pairs)) (time_in_window tb from to cap) out \<and>
    (cap = 0 \<or> length ids \<le> cap \<longrightarrow> out = ids) \<and>
    (0 < cap \<and> cap < length ids \<longrightarrow> length out = cap \<and> set out \<subseteq> set ids) \<and>
    (cap < length ids \<and> length ids < 2 * cap \<longrightarrow> out = take cap ids)"
proof -
  obtain tb where tb: "table_open (fst (time_build pairs)) p = Inr tb" "time_ix.pairs_ok (sort pairs)"
    "opened tb p (snd (time_build pairs)) (grouped_entries ts_key mid_bytes (sort pairs))"
    by (rule time_open[OF assms(1)])
  show ?thesis
    using tb(1) reads_time_in_window[OF tb(2) assms(2,3) tb(3), of cap] spread_sample_spec[of cap ids]
    unfolding ids by blast
qed

theorem time_window_sample_witness:
  "\<exists>tb out. table_open (fst (time_build sample_times)) ''t'' = Inr tb \<and>
    reads ''t'' (snd (time_build sample_times)) (time_in_window tb (-7) 100 2) out \<and>
    out = take 2 (map snd (filter (\<lambda>q. -7 \<le> fst q \<and> fst q \<le> 100) (sort sample_times)))"
proof -
  have "length (map snd (filter (\<lambda>q. -7 \<le> fst q \<and> fst q \<le> 100) (sort sample_times))) = 3"
    by (simp add: sample_times_def sort_key_def)
  with time_window_sample[OF sample_times_ok(1,2,4) refl, of "''t''" 2] show ?thesis by auto
qed

text \<open>C26. Graph expansion. The reverse-adjacency table returns for a target exactly its incoming
  edges, ordered by source, and for a batch of targets the map of the same; the entity table returns
  for each requested entity the first \<open>cap\<close> of its memories in id order, and the number of all of
  them, whatever the cap. Entities and targets without postings are absent.\<close>
theorem graph_tables_correct:
  assumes edges: "list_all (\<lambda>q. id16 (fst q) \<and> id16 (ie_source (snd q))) edges"
      "BLOCK_TARGET_BYTES + 20 + EDGE_BYTES * length edges \<le> 2 ^ 32"
    and posts: "list_all (\<lambda>q. eid16 (fst q) \<and> id16 (snd q)) posts"
      "BLOCK_TARGET_BYTES + 20 + 16 * length posts \<le> 2 ^ 32"
    and keys: "id16 target" "list_all id16 targets" "list_all eid16 entities"
  shows "\<exists>rt et. table_open (fst (radj_build edges)) p = Inr rt \<and> table_open (fst (entity_build posts)) q = Inr et \<and>
    reads p (snd (radj_build edges)) (radj_incoming rt target) (sort_key ie_source (values_of target edges)) \<and>
    reads p (snd (radj_build edges)) (radj_incoming_batch rt targets)
      (\<lambda>i. if i \<in> set targets \<and> values_of i edges \<noteq> [] then Some (sort_key ie_source (values_of i edges)) else None) \<and>
    reads q (snd (entity_build posts)) (entity_candidates_batch et entities cap)
      (\<lambda>e. if e \<in> set entities \<and> values_of e posts \<noteq> [] then Some (take cap (sort (values_of e posts))) else None) \<and>
    reads q (snd (entity_build posts)) (entity_counts et (Some entities))
      (\<lambda>e. if e \<in> set entities \<and> values_of e posts \<noteq> [] then Some (length (values_of e posts)) else None)"
proof -
  let ?es = "sort_key (\<lambda>p. (fst p, ie_source (snd p))) edges" and ?ps = "sort posts"
  have E: "radj_ix.pairs_ok ?es"
    using edges(1) by (simp add: radj_ix.pairs_ok_def sorted_fst_sort_key list_all_iff)
  have P: "entity_ix.pairs_ok ?ps"
    using posts(1) by (simp add: entity_ix.pairs_ok_def sorted_fst_sort list_all_iff)
  obtain rt where rt: "table_open (fst (radj_build edges)) p = Inr rt"
      "opened rt p (snd (radj_build edges)) (grouped_entries mid_bytes encode_in_edge ?es)"
    using radj_ix.open_grouped[OF E, of p] edges(2) by (auto simp: radj_build_def)
  obtain et where et: "table_open (fst (entity_build posts)) q = Inr et"
      "opened et q (snd (entity_build posts)) (grouped_entries eid_bytes mid_bytes ?ps)"
    using entity_ix.open_grouped[OF P, of q] posts(2) by (auto simp: entity_build_def)
  note r1 = reads_radj_incoming[OF E keys(1) rt(2)] and r2 = reads_radj_incoming_batch[OF E keys(2) rt(2)]
    and r3 = reads_entity_candidates(1)[OF P keys(3) et(2), of cap] and r4 = reads_entity_candidates(2)[OF P keys(3) et(2)]
  show ?thesis
    by (rule exI[of _ rt], rule exI[of _ et]) (intro conjI rt(1) et(1)
        r1[unfolded values_of_sort_key] r2[unfolded values_of_sort_key sort_key_Nil_iff]
        r3[unfolded values_of_sort sort_key_Nil_iff] r4[unfolded values_of_sort sort_key_Nil_iff length_sort])
qed

definition sample_edges :: "(memory_id \<times> in_edge) list" where
  "sample_edges = [(MemoryId (replicate 16 1), \<lparr>ie_source = MemoryId (replicate 16 9), ie_kind = SemanticEdge, ie_weight = 3\<rparr>),
     (MemoryId (replicate 16 1), \<lparr>ie_source = MemoryId (replicate 16 4), ie_kind = CausalEdge Enables, ie_weight = 5\<rparr>)]"

definition sample_posts :: "(entity_id \<times> memory_id) list" where
  "sample_posts = [(EntityId (replicate 16 7), MemoryId (replicate 16 2)), (EntityId (replicate 16 7), MemoryId (replicate 16 1))]"

theorem graph_tables_correct_witness:
  "\<exists>rt et. table_open (fst (radj_build sample_edges)) ''r'' = Inr rt \<and> table_open (fst (entity_build sample_posts)) ''e'' = Inr et \<and>
    reads ''r'' (snd (radj_build sample_edges)) (radj_incoming rt (MemoryId (replicate 16 1))) [snd (sample_edges ! 1), snd (sample_edges ! 0)] \<and>
    reads ''e'' (snd (entity_build sample_posts)) (entity_counts et (Some [EntityId (replicate 16 7)])) [EntityId (replicate 16 7) \<mapsto> 2]"
proof -
  have ok: "list_all (\<lambda>q. id16 (fst q) \<and> id16 (ie_source (snd q))) sample_edges"
      "BLOCK_TARGET_BYTES + 20 + EDGE_BYTES * length sample_edges \<le> 2 ^ 32"
      "list_all (\<lambda>q. eid16 (fst q) \<and> id16 (snd q)) sample_posts"
      "BLOCK_TARGET_BYTES + 20 + 16 * length sample_posts \<le> 2 ^ 32"
      "id16 (MemoryId (replicate 16 1))" "list_all id16 []" "list_all eid16 [EntityId (replicate 16 7)]"
    by (simp_all add: sample_edges_def sample_posts_def id16_def eid16_def BLOCK_TARGET_BYTES_def EDGE_BYTES_def)
  have v1: "sort_key ie_source (values_of (MemoryId (replicate 16 1)) sample_edges) = [snd (sample_edges ! 1), snd (sample_edges ! 0)]"
    by (simp add: sample_edges_def values_of_def sort_key_def replicate16 Cons_le_Cons less_eq_memory_id_def)
  have v2: "(\<lambda>e. if e \<in> set [EntityId (replicate 16 7)] \<and> values_of e sample_posts \<noteq> []
      then Some (length (values_of e sample_posts)) else None) = [EntityId (replicate 16 7) \<mapsto> 2]"
    by (auto simp: fun_eq_iff sample_posts_def values_of_def)
  from graph_tables_correct[OF ok, of "''r''" "''e''" 1] show ?thesis unfolding v1 v2 by blast
qed

text \<open>C27. Item tables. Writing one row per item and reading a batch of ids back returns, for the ids
  that have a row, the cluster of the item (primary-key table), the item without its embedding
  (payload store) and the embedding bit for bit (rerank store); every other id is absent. The
  serializer is any one that reads back what it wrote.\<close>
theorem item_tables_correct:
  assumes pk: "flat_ok BLOCK_TARGET_BYTES (map (\<lambda>(i, c). (i, le_word 4 (c :: u32))) clusters)"
    and payload: "flat_ok BLOCK_TARGET_BYTES (map (\<lambda>m. (sm_id m, w (strip_vector m))) items)"
    and rerank: "flat_ok 1 (map (\<lambda>m. (sm_id m, concat (map (le_word 4) (sm_vector m)))) (filter (\<lambda>m. sm_vector m \<noteq> []) items))"
    and codec: "\<And>m. m \<in> set items \<Longrightarrow> r (w (strip_vector m)) = Some (strip_vector m)"
  shows "\<exists>pt lt vt. table_open (fst (pk_build clusters)) p1 = Inr pt \<and>
    table_open (fst (payload_build w items)) p2 = Inr lt \<and> table_open (fst (rerank_build items)) p3 = Inr vt \<and>
    reads p1 (snd (pk_build clusters)) (pk_lookup_batch pt ids) (\<lambda>i. if i \<in> set ids then map_of clusters i else None) \<and>
    reads p2 (snd (payload_build w items)) (payload_lookup_batch r lt ids)
      (\<lambda>i. if i \<in> set ids then map_of (map (\<lambda>m. (sm_id m, strip_vector m)) items) i else None) \<and>
    reads p3 (snd (rerank_build items)) (rerank_lookup_batch vt ids)
      (\<lambda>i. if i \<in> set ids then map_of (map (\<lambda>m. (sm_id m, sm_vector m)) (filter (\<lambda>m. sm_vector m \<noteq> []) items)) i else None)"
proof -
  have small: "BLOCK_TARGET_BYTES \<le> 2 ^ 32" "(1 :: nat) \<le> 2 ^ 32" by (simp_all add: BLOCK_TARGET_BYTES_def)
  obtain pt where pt: "table_open (fst (pk_build clusters)) p1 = Inr pt"
      "opened pt p1 (snd (pk_build clusters)) (flat_entries (map (\<lambda>(i, c). (i, le_word 4 c)) clusters))"
    using table_open_built[OF flat_entries_ok[OF pk] small(1), of p1] by (auto simp: pk_build_flat)
  obtain lt where lt: "table_open (fst (payload_build w items)) p2 = Inr lt"
      "opened lt p2 (snd (payload_build w items)) (flat_entries (map (\<lambda>m. (sm_id m, w (strip_vector m))) items))"
    using table_open_built[OF flat_entries_ok[OF payload] small(1), of p2] by (auto simp: payload_build_def flat_entries_def)
  obtain vt where vt: "table_open (fst (rerank_build items)) p3 = Inr vt"
      "opened vt p3 (snd (rerank_build items)) (flat_entries (map (\<lambda>m. (sm_id m, concat (map (le_word 4) (sm_vector m))))
         (filter (\<lambda>m. sm_vector m \<noteq> []) items)))"
    using table_open_built[OF flat_entries_ok[OF rerank] small(2), of p3] by (auto simp: rerank_build_def flat_entries_def)
  have rt: "(\<lambda>v. word_le (take 4 v)) \<circ> le_word 4 = (id :: u32 \<Rightarrow> u32)" by (simp add: fun_eq_iff)
  have r1: "reads p1 (snd (pk_build clusters)) (pk_lookup_batch pt ids) (\<lambda>i. if i \<in> set ids then map_of clusters i else None)"
    using reads_flat_batch[OF pk pt(2), of ids "\<lambda>v. (word_le (take 4 v) :: u32)"]
    unfolding pk_lookup_batch_def map_of_map_snd option.map_comp rt option.map_id .
  have vec: "map word_le (chunks_exact 4 (concat (map (le_word 4) xs))) = xs" for xs :: "f32 list"
    by (rule floats.decode_concat) (simp add: list_all_iff)
  have r3: "reads p3 (snd (rerank_build items)) (rerank_lookup_batch vt ids)
      (\<lambda>i. if i \<in> set ids then map_of (map (\<lambda>m. (sm_id m, sm_vector m)) (filter (\<lambda>m. sm_vector m \<noteq> []) items)) i else None)"
    using reads_flat_batch[OF rerank vt(2), of ids "\<lambda>b. (map word_le (chunks_exact 4 b) :: f32 list)"]
    unfolding rerank_lookup_batch_def map_of_map_value vec .
  have r2: "reads p2 (snd (payload_build w items)) (payload_lookup_batch r lt ids)
      (\<lambda>i. if i \<in> set ids then map_of (map (\<lambda>m. (sm_id m, strip_vector m)) items) i else None)"
  proof -
    have "map_of (map (\<lambda>m. (sm_id m, the (r (w (strip_vector m))))) items) = map_of (map (\<lambda>m. (sm_id m, strip_vector m)) items)"
      by (intro arg_cong[where f = map_of] map_cong refl) (simp add: codec)
    moreover have "reads p2 (snd (payload_build w items)) (payload_lookup_batch r lt ids)
        (\<lambda>i. if i \<in> set ids then map_option (\<lambda>b. the (r b))
           (map_of (map (\<lambda>m. (sm_id m, w (strip_vector m))) items) i) else None)"
      unfolding payload_lookup_batch_def
      by (rule reads_flat_filter_batch[OF payload lt(2)]) (auto simp: codec)
    ultimately show ?thesis unfolding map_of_map_value by (simp only:)
  qed
  show ?thesis by (rule exI[of _ pt], rule exI[of _ lt], rule exI[of _ vt]) (intro conjI pt(1) lt(1) vt(1) r1 r2 r3)
qed

definition sample_item :: stored_memory where
  "sample_item = (into_stored (plain_memory (MemoryId (replicate 16 2)) ''a'' []))\<lparr>sm_vector := [5, 6]\<rparr>"

theorem item_tables_correct_witness:
  "\<exists>pt lt vt. table_open (fst (pk_build [(MemoryId (replicate 16 2), 4)])) ''p'' = Inr pt \<and>
    table_open (fst (payload_build (\<lambda>_. [1]) [sample_item])) ''l'' = Inr lt \<and>
    table_open (fst (rerank_build [sample_item])) ''v'' = Inr vt \<and>
    reads ''p'' (snd (pk_build [(MemoryId (replicate 16 2), 4)])) (pk_lookup_batch pt [MemoryId (replicate 16 2)])
      [MemoryId (replicate 16 2) \<mapsto> 4] \<and>
    reads ''v'' (snd (rerank_build [sample_item])) (rerank_lookup_batch vt [MemoryId (replicate 16 2)])
      [MemoryId (replicate 16 2) \<mapsto> [5, 6]]"
proof -
  have id: "sm_id sample_item = MemoryId (replicate 16 2)" "sm_vector sample_item = [5, 6]"
    by (simp_all add: sample_item_def into_stored_def plain_memory_def)
  have ok: "flat_ok BLOCK_TARGET_BYTES (map (\<lambda>(i, c). (i, le_word 4 (c :: u32))) [(MemoryId (replicate 16 2), 4)])"
      "flat_ok BLOCK_TARGET_BYTES (map (\<lambda>m. (sm_id m, (\<lambda>_. [1]) (strip_vector m))) [sample_item])"
      "flat_ok 1 (map (\<lambda>m. (sm_id m, concat (map (le_word 4) (sm_vector m)))) (filter (\<lambda>m. sm_vector m \<noteq> []) [sample_item]))"
    by (simp_all add: flat_ok_def id16_def BLOCK_TARGET_BYTES_def id)
  have up: "(\<lambda>i. if i \<in> set [k] then map_of [(k, x)] i else None) = [k \<mapsto> x]" for k and x :: 'a
    by auto
  show ?thesis
    using item_tables_correct[OF ok, of "\<lambda>_. Some (strip_vector sample_item)" "''p''" "''l''" "''v''" "[MemoryId (replicate 16 2)]"]
    by (simp add: id up[simplified] cong: if_cong) (auto simp: fun_upd_def)
qed

end
