(* ===== verification/Float_Arith.thy ===== *)
theory Float_Arith
  imports Index_Tables Complex_Main
begin

text \<open>
  Floating-point arithmetic as an interface, and the vector arithmetic of \<open>mlake-core/src/lib.rs\<close>
  on top of it. The crates compute on \<open>f32\<close> and \<open>f64\<close>; \<open>arith\<close> lists the operations they use, and
  every function below is written over an arbitrary \<open>arith\<close>, in the order of evaluation of the
  code. \<open>wide\<close>'s eight-lane type enters through its fused multiply-add and its horizontal sum.
  \<open>real_arith\<close> is the instance on the reals: what holds there is what the formulas compute before
  rounding.
\<close>

section \<open>Operations\<close>

record ('f, 'd) arith =
  lit :: "rat \<Rightarrow> 'f"
  of_usize :: "nat \<Rightarrow> 'f"
  f_inf :: 'f
  f_ninf :: 'f
  fadd :: "'f \<Rightarrow> 'f \<Rightarrow> 'f"
  fsub :: "'f \<Rightarrow> 'f \<Rightarrow> 'f"
  fmul :: "'f \<Rightarrow> 'f \<Rightarrow> 'f"
  fdiv :: "'f \<Rightarrow> 'f \<Rightarrow> 'f"
  fneg :: "'f \<Rightarrow> 'f"
  fabs :: "'f \<Rightarrow> 'f"
  fsqrt :: "'f \<Rightarrow> 'f"
  fround :: "'f \<Rightarrow> 'f"
  flt :: "'f \<Rightarrow> 'f \<Rightarrow> bool"
  fle :: "'f \<Rightarrow> 'f \<Rightarrow> bool"
  feq :: "'f \<Rightarrow> 'f \<Rightarrow> bool"
  fmin :: "'f \<Rightarrow> 'f \<Rightarrow> 'f"
  fmax :: "'f \<Rightarrow> 'f \<Rightarrow> 'f"
  as_u8 :: "'f \<Rightarrow> u8"
  mul_add :: "'f \<Rightarrow> 'f \<Rightarrow> 'f \<Rightarrow> 'f"
  reduce_add :: "'f list \<Rightarrow> 'f"
  widen :: "'f \<Rightarrow> 'd"
  narrow :: "'d \<Rightarrow> 'f"
  dzero :: 'd
  dadd :: "'d \<Rightarrow> 'd \<Rightarrow> 'd"
  dmul :: "'d \<Rightarrow> 'd \<Rightarrow> 'd"
  ddiv :: "'d \<Rightarrow> 'd \<Rightarrow> 'd"
  dle :: "'d \<Rightarrow> 'd \<Rightarrow> bool"
  d_of_usize :: "nat \<Rightarrow> 'd"
  sqrt_round :: "nat \<Rightarrow> nat"

text \<open>\<open>x.clamp(lo, hi)\<close>.\<close>
definition fclamp :: "('f, 'd) arith \<Rightarrow> 'f \<Rightarrow> 'f \<Rightarrow> 'f \<Rightarrow> 'f" where
  "fclamp A lo hi x = (if flt A x lo then lo else if flt A hi x then hi else x)"

text \<open>\<open>==\<close> on two float vectors.\<close>
definition vec_eq :: "('f, 'd) arith \<Rightarrow> 'f list \<Rightarrow> 'f list \<Rightarrow> bool" where
  "vec_eq A xs ys = (length xs = length ys \<and> list_all (\<lambda>(x, y). feq A x y) (zip xs ys))"

text \<open>\<open>iter().sum::<f32>()\<close>.\<close>
definition fsum :: "('f, 'd) arith \<Rightarrow> 'f list \<Rightarrow> 'f" where
  "fsum A xs = foldl (fadd A) (lit A 0) xs"

section \<open>Vector arithmetic\<close>

text \<open>The lanes of \<open>f32x8\<close>: one fused multiply-add per lane and chunk.\<close>
definition lanes_mul_add :: "('f, 'd) arith \<Rightarrow> 'f list \<Rightarrow> 'f list \<Rightarrow> 'f list \<Rightarrow> 'f list" where
  "lanes_mul_add A va vb acc = map (\<lambda>(x, y, z). mul_add A x y z) (zip va (zip vb acc))"

definition simd_dot :: "('f, 'd) arith \<Rightarrow> 'f list \<Rightarrow> 'f list \<Rightarrow> 'f" where
  "simd_dot A a b =
     (let n = min (length a) (length b); chunks = n div 8;
          acc = foldl (\<lambda>acc k. lanes_mul_add A (slice (k * 8) (k * 8 + 8) a) (slice (k * 8) (k * 8 + 8) b) acc)
                  (replicate 8 (lit A 0)) [0..<chunks]
      in foldl (\<lambda>sum i. fadd A sum (fmul A (a ! i) (b ! i))) (reduce_add A acc) [chunks * 8..<n])"

text \<open>The dimension assertion of the source is a panic, here \<open>None\<close>.\<close>
definition cosine :: "('f, 'd) arith \<Rightarrow> 'f list \<Rightarrow> 'f list \<Rightarrow> 'f option" where
  "cosine A a b = (if length a \<noteq> length b then None
     else let denom = fmul A (fsqrt A (simd_dot A a a)) (fsqrt A (simd_dot A b b)) in
       Some (if feq A denom (lit A 0) then lit A 0 else fdiv A (simd_dot A a b) denom))"

definition cosine_opt :: "('f, 'd) arith \<Rightarrow> 'f list \<Rightarrow> 'f list \<Rightarrow> 'f option" where
  "cosine_opt A a b = (if a = [] \<or> b = [] then Some (lit A 0) else cosine A a b)"

definition norm :: "('f, 'd) arith \<Rightarrow> 'f list \<Rightarrow> 'f" where
  "norm A a = fsqrt A (simd_dot A a a)"

definition cosine_opt_prenorm :: "('f, 'd) arith \<Rightarrow> 'f list \<Rightarrow> 'f \<Rightarrow> 'f list \<Rightarrow> 'f option" where
  "cosine_opt_prenorm A a a_norm b = (if a = [] \<or> b = [] then Some (lit A 0)
     else if length a \<noteq> length b then None
     else let denom = fmul A a_norm (fsqrt A (simd_dot A b b)) in
       Some (if feq A denom (lit A 0) then lit A 0 else fdiv A (simd_dot A a b) denom))"

definition cosine_prenorm_both :: "('f, 'd) arith \<Rightarrow> 'f list \<Rightarrow> 'f \<Rightarrow> 'f list \<Rightarrow> 'f \<Rightarrow> 'f option" where
  "cosine_prenorm_both A a a_norm b b_norm = (if a = [] \<or> b = [] then Some (lit A 0)
     else if length a \<noteq> length b then None
     else let denom = fmul A a_norm b_norm in
       Some (if feq A denom (lit A 0) then lit A 0 else fdiv A (simd_dot A a b) denom))"

definition dot :: "('f, 'd) arith \<Rightarrow> 'f list \<Rightarrow> 'f list \<Rightarrow> 'f" where
  "dot A a b = simd_dot A a b"

definition normalize :: "('f, 'd) arith \<Rightarrow> 'f list \<Rightarrow> 'f list" where
  "normalize A v = (let n = fsqrt A (fsum A (map (\<lambda>x. fmul A x x) v)) in
     if flt A (lit A 0) n then map (\<lambda>x. fdiv A x n) v else v)"

section \<open>Exact arithmetic\<close>

text \<open>Round half away from zero, as \<open>f32::round\<close>.\<close>
definition round_away :: "real \<Rightarrow> real" where
  "round_away x = (if 0 \<le> x then of_int \<lfloor>x + 1 / 2\<rfloor> else - of_int \<lfloor>- x + 1 / 2\<rfloor>)"

text \<open>The largest magnitude of an \<open>f32\<close> is below \<open>2 ^ 128\<close>, which stands for infinity.\<close>
definition real_arith :: "(real, real) arith" where
  "real_arith = \<lparr>lit = of_rat, of_usize = of_nat, f_inf = 2 ^ 128, f_ninf = - (2 ^ 128),
     fadd = (+), fsub = (-), fmul = (*), fdiv = (/), fneg = uminus, fabs = abs, fsqrt = sqrt,
     fround = round_away, flt = (<), fle = (\<le>), feq = (=), fmin = min, fmax = max,
     as_u8 = (\<lambda>x. of_nat (min 255 (nat \<lfloor>x\<rfloor>))), mul_add = (\<lambda>x y z. x * y + z), reduce_add = sum_list,
     widen = id, narrow = id, dzero = 0, dadd = (+), dmul = (*), ddiv = (/),
     dle = (\<le>), d_of_usize = of_nat, sqrt_round = (\<lambda>n. nat \<lfloor>round_away (sqrt (real n))\<rfloor>)\<rparr>"

definition inner :: "real list \<Rightarrow> real list \<Rightarrow> real" where
  "inner a b = (\<Sum>(x, y)\<leftarrow>zip a b. x * y)"

lemma real_arith_simps [simp]:
  "lit real_arith = of_rat" "of_usize real_arith = of_nat" "f_inf real_arith = 2 ^ 128"
  "f_ninf real_arith = - (2 ^ 128)" "fadd real_arith = (+)" "fsub real_arith = (-)"
  "fmul real_arith = (*)" "fdiv real_arith = (/)" "fneg real_arith = uminus" "fabs real_arith = abs"
  "fsqrt real_arith = sqrt" "fround real_arith = round_away" "flt real_arith = (<)"
  "fle real_arith = (\<le>)" "feq real_arith = (=)" "fmin real_arith = min" "fmax real_arith = max"
  "as_u8 real_arith x = of_nat (min 255 (nat \<lfloor>x\<rfloor>))" "mul_add real_arith x y z = x * y + z"
  "reduce_add real_arith = sum_list" "widen real_arith x = x" "narrow real_arith x = x" "dzero real_arith = 0"
  "dadd real_arith = (+)" "dmul real_arith = (*)" "ddiv real_arith = (/)" "dle real_arith = (\<le>)"
  "d_of_usize real_arith = of_nat" "sqrt_round real_arith n = nat \<lfloor>round_away (sqrt (real n))\<rfloor>"
  by (simp_all add: real_arith_def)

lemma foldl_plus_sum: "foldl (+) s xs = s + sum_list (xs :: real list)"
  by (induction xs arbitrary: s) auto

lemma fsum_real [simp]: "fsum real_arith xs = sum_list xs"
  by (simp add: fsum_def foldl_plus_sum)

lemma fclamp_real: "fclamp real_arith lo hi x = (if x < lo then lo else if hi < x then hi else x)"
  by (simp add: fclamp_def)

lemma inner_simps [simp]:
  "inner [] b = 0" "inner a [] = 0" "inner (x # a) (y # b) = x * y + inner a b"
  by (simp_all add: inner_def)

lemma inner_append: "length a = length b \<Longrightarrow> inner (a @ a') (b @ b') = inner a b + inner a' b'"
  by (simp add: inner_def)

lemma inner_commute: "inner a b = inner b a"
proof (induction a arbitrary: b)
  case (Cons x a) then show ?case by (cases b) (simp_all add: mult.commute)
qed simp

lemma inner_self_nonneg: "0 \<le> inner a a"
  by (induction a) auto

lemma sum_lanes:
  "length va = length acc \<Longrightarrow> length vb = length acc \<Longrightarrow>
     sum_list (lanes_mul_add real_arith va vb acc) = inner va vb + sum_list acc
     \<and> length (lanes_mul_add real_arith va vb acc) = length acc"
proof (induction acc arbitrary: va vb)
  case (Cons z acc)
  then obtain x va' y vb' where "va = x # va'" "vb = y # vb'" by (metis length_Suc_conv)
  with Cons show ?case by (simp add: lanes_mul_add_def)
qed (simp add: lanes_mul_add_def)

lemma take_slice: "take (k + m) xs = take k xs @ slice k (k + m) xs"
  by (simp add: slice_def take_add)

lemma sum_chunks:
  assumes "c * 8 \<le> length a" "c * 8 \<le> length b"
  defines "step \<equiv> \<lambda>acc k. lanes_mul_add real_arith (slice (k * 8) (k * 8 + 8) a) (slice (k * 8) (k * 8 + 8) b) acc"
  shows "sum_list (foldl step (replicate 8 0) [0..<c]) = inner (take (c * 8) a) (take (c * 8) b)
     \<and> length (foldl step (replicate 8 0) [0..<c]) = 8"
  using assms(1,2)
proof (induction c)
  case 0 then show ?case by (simp add: sum_list_replicate)
next
  case (Suc c)
  let ?acc = "foldl step (replicate 8 0) [0..<c]"
  let ?sa = "slice (c * 8) (c * 8 + 8) a" and ?sb = "slice (c * 8) (c * 8 + 8) b"
  have IH: "sum_list ?acc = inner (take (c * 8) a) (take (c * 8) b)" "length ?acc = 8" using Suc by auto
  have sl: "length ?sa = length ?acc" "length ?sb = length ?acc" using Suc.prems IH by auto
  have len: "length (take (c * 8) a) = length (take (c * 8) b)" using Suc.prems by simp
  have "inner (take (c * 8 + 8) a) (take (c * 8 + 8) b) = inner (take (c * 8) a) (take (c * 8) b) + inner ?sa ?sb"
    unfolding take_slice by (rule inner_append[OF len])
  then have "inner (take (Suc c * 8) a) (take (Suc c * 8) b) = inner (take (c * 8) a) (take (c * 8) b) + inner ?sa ?sb"
    by (simp only: mult_Suc add.commute[of 8])
  moreover have "foldl step (replicate 8 0) [0..<Suc c] = lanes_mul_add real_arith ?sa ?sb ?acc"
    by (simp add: step_def)
  ultimately show ?case using sum_lanes[OF sl] IH by (simp only: add.commute)
qed

lemma sum_tail:
  assumes "m \<le> n" "n \<le> length a" "n \<le> length b"
  shows "foldl (\<lambda>sum i. sum + a ! i * b ! i) s [m..<n] = s + (inner (take n a) (take n b) - inner (take m a) (take m b))"
  using assms
proof (induction rule: dec_induct)
  case base then show ?case by simp
next
  case (step n)
  have "inner (take (Suc n) a) (take (Suc n) b) = inner (take n a) (take n b) + a ! n * b ! n"
    using step by (simp add: take_Suc_conv_app_nth inner_append)
  with step show ?case by simp
qed

lemma inner_take_min: "inner (take (min (length a) (length b)) a) (take (min (length a) (length b)) b) = inner a b"
proof (induction a arbitrary: b)
  case (Cons x a) then show ?case by (cases b) simp_all
qed simp

text \<open>In exact arithmetic the eight-lane dot product is the inner product of the common prefix.\<close>
lemma simd_dot_real [simp]: "simd_dot real_arith a b = inner a b"
proof -
  let ?n = "min (length a) (length b)"
  have "?n div 8 * 8 \<le> ?n" by (rule div_times_less_eq_dividend)
  then have le: "?n div 8 * 8 \<le> length a" "?n div 8 * 8 \<le> length b" by linarith+
  show ?thesis
    using sum_chunks[OF le] sum_tail[where m = "?n div 8 * 8" and n = ?n and a = a and b = b, OF div_times_less_eq_dividend] inner_take_min[of a b]
    by (simp add: simd_dot_def Let_def)
qed

lemma norm_real [simp]: "norm real_arith a = sqrt (inner a a)"
  by (simp add: norm_def)

lemma sum_list_map_const_mult: "sum_list (map (\<lambda>x. c * f x) xs) = (c::real) * sum_list (map f xs)"
  by (induction xs) (auto simp: algebra_simps)

text \<open>Cauchy-Schwarz, by the discriminant-free argument on \<open>|a|^2 b - <a,b> a\<close>.\<close>
lemma cauchy_schwarz: "length a = length b \<Longrightarrow> (inner a b)\<^sup>2 \<le> inner a a * inner b b"
proof (induction a b rule: list_induct2)
  case (Cons x a y b)
  let ?A = "inner a a" and ?B = "inner b b" and ?C = "inner a b"
  have nn: "0 \<le> ?A" "0 \<le> ?B" by (simp_all add: inner_self_nonneg)
  have "2 * (x * y) * ?C \<le> x\<^sup>2 * ?B + y\<^sup>2 * ?A"
  proof -
    have "\<bar>?C\<bar> \<le> sqrt ?A * sqrt ?B"
      using Cons.IH nn by (metis real_sqrt_abs real_sqrt_le_mono real_sqrt_mult)
    then have "\<bar>x * y * ?C\<bar> \<le> \<bar>x * y\<bar> * (sqrt ?A * sqrt ?B)"
      by (simp add: abs_mult mult_left_mono)
    then have "2 * (x * y * ?C) \<le> 2 * (\<bar>x * y\<bar> * (sqrt ?A * sqrt ?B))" by linarith
    moreover have "2 * ((\<bar>x\<bar> * sqrt ?B) * (\<bar>y\<bar> * sqrt ?A)) \<le> (\<bar>x\<bar> * sqrt ?B)\<^sup>2 + (\<bar>y\<bar> * sqrt ?A)\<^sup>2"
      using sum_squares_bound[of "\<bar>x\<bar> * sqrt ?B" "\<bar>y\<bar> * sqrt ?A"] by simp
    moreover have "(\<bar>x\<bar> * sqrt ?B)\<^sup>2 = x\<^sup>2 * ?B" "(\<bar>y\<bar> * sqrt ?A)\<^sup>2 = y\<^sup>2 * ?A"
      using nn by (simp_all add: power_mult_distrib)
    ultimately show ?thesis by (simp add: abs_mult mult_ac)
  qed
  with Cons.IH show ?case by (simp add: power2_eq_square algebra_simps)
qed simp

text \<open>So a cosine lies between minus one and one, and scaling a side by its norm changes nothing.\<close>
lemma cosine_range:
  assumes "cosine real_arith a b = Some c" shows "-1 \<le> c" "c \<le> 1"
proof -
  have len: "length a = length b" using assms by (simp add: cosine_def split: if_splits)
  let ?D = "sqrt (inner a a) * sqrt (inner b b)"
  have "\<bar>inner a b\<bar> \<le> ?D"
    using cauchy_schwarz[OF len] by (metis real_sqrt_abs real_sqrt_le_mono real_sqrt_mult)
  moreover have "0 \<le> ?D" by (simp add: inner_self_nonneg)
  ultimately have "\<bar>inner a b / ?D\<bar> \<le> 1" if "?D \<noteq> 0"
    using that unfolding abs_divide divide_le_eq_1 by linarith
  then have "\<bar>c\<bar> \<le> 1" using assms by (auto simp: cosine_def Let_def split: if_splits)
  then show "-1 \<le> c" "c \<le> 1" by auto
qed

text \<open>The precomputed-norm variants are the plain cosine, bit for bit, over any arithmetic.\<close>
lemma cosine_prenorm_eq:
  "cosine_opt_prenorm A a (norm A a) b = cosine_opt A a b"
  "cosine_prenorm_both A a (norm A a) b (norm A b) = cosine_opt A a b"
  by (simp_all add: cosine_opt_prenorm_def cosine_prenorm_both_def cosine_opt_def cosine_def norm_def)

end
