(* ===== verification/Kmeans.thy ===== *)
theory Kmeans
  imports Float_Arith
begin

text \<open>
  Centroid training (\<open>mlake-ivf/src/kmeans.rs\<close>): the seeded xorshift generator, the eight-lane squared
  distance, the nearest centroid, k-means++ seeding and Lloyd's iterations. Everything is over an
  arbitrary arithmetic; an index out of range is a panic in the code and \<open>None\<close> here. With one
  dimension throughout, training always returns; a batch that mixes embedded and text-only
  items can panic.
\<close>

unbundle bit_operations_syntax

section \<open>The generator\<close>

type_synonym rng = u64

definition rng_seeded :: "u64 \<Rightarrow> rng" where
  "rng_seeded seed = max (seed * 0x9E3779B97F4A7C15) 1"

definition next_u64 :: "rng \<Rightarrow> u64 \<times> rng" where
  "next_u64 s = (let x = s XOR drop_bit 12 s; x = x XOR push_bit 25 x; x = x XOR drop_bit 27 x
     in (x * 0x2545F4914F6CDD1D, x))"

definition rng_below :: "nat \<Rightarrow> rng \<Rightarrow> nat \<times> rng" where
  "rng_below n s = (if n = 0 then (0, s) else let (v, s) = next_u64 s in (unat v mod n, s))"

definition unit_f32 :: "('f, 'd) arith \<Rightarrow> rng \<Rightarrow> 'f \<times> rng" where
  "unit_f32 A s = (let (v, s) = next_u64 s in
     (fdiv A (of_usize A (unat (drop_bit 40 v))) (of_usize A (2 ^ 24)), s))"

section \<open>Distances\<close>

definition LANES :: nat where "LANES = 8"

definition sq_dist :: "('f, 'd) arith \<Rightarrow> 'f list \<Rightarrow> 'f list \<Rightarrow> 'f" where
  "sq_dist A a b =
     (let n = min (length a) (length b); a = take n a; b = take n b;
          sq = (\<lambda>x y. let d = fsub A x y in fmul A d d);
          acc = foldl (\<lambda>acc (xa, xb). map (\<lambda>(z, x, y). fadd A z (sq x y)) (zip acc (zip xa xb)))
                  (replicate LANES (lit A 0)) (zip (chunks_exact LANES a) (chunks_exact LANES b));
          total = foldl (fadd A) (lit A 0) acc;
          rest = (\<lambda>xs. drop (n div LANES * LANES) xs)
      in foldl (\<lambda>t (x, y). fadd A t (sq x y)) total (zip (rest a) (rest b)))"

definition nearest :: "('f, 'd) arith \<Rightarrow> 'f list list \<Rightarrow> 'f list \<Rightarrow> nat" where
  "nearest A centroids v = fst (foldl (\<lambda>(best, best_d) (i, c).
     let d = sq_dist A c v in if flt A d best_d then (i, d) else (best, best_d))
     (0, f_inf A) (enumerate 0 centroids))"

definition furthest_point :: "('f, 'd) arith \<Rightarrow> 'f list list \<Rightarrow> 'f list list \<Rightarrow> nat option" where
  "furthest_point A vectors centroids = fst (foldl (\<lambda>(best, best_d) (i, v).
     let d = sq_dist A v (centroids ! nearest A centroids v) in
     if flt A best_d d then (Some i, d) else (best, best_d)) (None, lit A (- 1)) (enumerate 0 vectors))"

section \<open>Seeding\<close>

text \<open>The sampling loop: the first index whose running sum reaches the target, else the last.\<close>
fun pick_weighted :: "('f, 'd) arith \<Rightarrow> 'd \<Rightarrow> 'd \<Rightarrow> nat \<Rightarrow> 'f list \<Rightarrow> nat option" where
  "pick_weighted A target acc i [] = None"
| "pick_weighted A target acc i (d # ds) =
     (let acc = dadd A acc (widen A d) in
      if dle A target acc then Some i else pick_weighted A target acc (Suc i) ds)"

definition next_centre :: "('f, 'd) arith \<Rightarrow> nat \<Rightarrow> 'f list \<Rightarrow> rng \<Rightarrow> nat \<times> rng" where
  "next_centre A n closest s =
     (let total = foldl (dadd A) (dzero A) (map (widen A) closest) in
      if dle A total (dzero A) then rng_below n s
      else let (u, s) = unit_f32 A s; target = dmul A (widen A u) total in
        ((case pick_weighted A target (dzero A) 0 closest of Some i \<Rightarrow> i | None \<Rightarrow> n - 1), s))"

text \<open>The \<open>while\<close> loop: \<open>m\<close> centres are still to be chosen.\<close>
fun seed_loop :: "('f, 'd) arith \<Rightarrow> 'f list list \<Rightarrow> nat \<Rightarrow> 'f list list \<Rightarrow> 'f list \<Rightarrow> rng \<Rightarrow> 'f list list" where
  "seed_loop A vectors 0 centroids closest s = centroids"
| "seed_loop A vectors (Suc m) centroids closest s =
     (let (i, s) = next_centre A (length vectors) closest s; newest = vectors ! i in
      seed_loop A vectors m (centroids @ [newest])
        (map (\<lambda>(c, v). fmin A c (sq_dist A v newest)) (zip closest vectors)) s)"

definition seed_centroids :: "('f, 'd) arith \<Rightarrow> 'f list list \<Rightarrow> nat \<Rightarrow> rng \<Rightarrow> 'f list list" where
  "seed_centroids A vectors k s =
     (let (i, s) = rng_below (length vectors) s; c = vectors ! i in
      seed_loop A vectors (k - 1) [c] (map (\<lambda>v. sq_dist A v c) vectors) s)"

section \<open>Lloyd's iterations\<close>

definition accumulate :: "('f, 'd) arith \<Rightarrow> nat \<Rightarrow> nat \<Rightarrow> 'f list list \<Rightarrow> nat list \<Rightarrow> 'd list list \<times> nat list" where
  "accumulate A k dm vectors assignments =
     foldl (\<lambda>(totals, counts) (v, c).
        (totals[c := map (\<lambda>d. if d < length v then dadd A (totals ! c ! d) (widen A (v ! d)) else totals ! c ! d) [0..<dm]],
         counts[c := counts ! c + 1]))
       (replicate k (replicate dm (dzero A)), replicate k 0) (zip vectors assignments)"

text \<open>The body of the update loop for centroid \<open>c\<close>: an empty cluster moves onto the worst-served
  point; another is set to the mean of its members, coordinate by coordinate.\<close>
definition update_centroid ::
    "('f, 'd) arith \<Rightarrow> 'f list list \<Rightarrow> nat \<Rightarrow> 'd list list \<Rightarrow> nat list \<Rightarrow> nat \<Rightarrow> 'f list list \<times> bool \<Rightarrow> ('f list list \<times> bool) option" where
  "update_centroid A vectors dm totals counts c st = (case st of (cs, moved) \<Rightarrow>
     if counts ! c = 0
     then Some (case furthest_point A vectors cs of
            None \<Rightarrow> (cs, moved)
          | Some far \<Rightarrow> if vec_eq A (cs ! c) (vectors ! far) then (cs, moved) else (cs[c := vectors ! far], True))
     else if length (cs ! c) < dm then None
     else let next = map (\<lambda>d. narrow A (ddiv A (totals ! c ! d) (d_of_usize A (counts ! c)))) [0..<dm];
              far = list_ex (\<lambda>d. flt A (lit A (1 / 2 ^ 23)) (fabs A (fsub A (next ! d) (cs ! c ! d)))) [0..<dm]
          in Some (cs[c := next @ drop dm (cs ! c)], moved \<or> far))"

text \<open>A loop whose body may panic.\<close>
fun try_fold :: "('a \<Rightarrow> 's \<Rightarrow> 's option) \<Rightarrow> 'a list \<Rightarrow> 's \<Rightarrow> 's option" where
  "try_fold f [] s = Some s"
| "try_fold f (x # xs) s = (case f x s of None \<Rightarrow> None | Some s \<Rightarrow> try_fold f xs s)"

definition lloyd_step :: "('f, 'd) arith \<Rightarrow> 'f list list \<Rightarrow> nat \<Rightarrow> nat \<Rightarrow> 'f list list \<Rightarrow> ('f list list \<times> bool) option" where
  "lloyd_step A vectors k dm cs =
     (let assignments = map (nearest A cs) vectors;
          (totals, counts) = accumulate A k dm vectors assignments
      in try_fold (update_centroid A vectors dm totals counts) [0..<k] (cs, False))"

fun lloyd :: "('f, 'd) arith \<Rightarrow> 'f list list \<Rightarrow> nat \<Rightarrow> nat \<Rightarrow> nat \<Rightarrow> 'f list list \<Rightarrow> 'f list list option" where
  "lloyd A vectors k dm 0 cs = Some cs"
| "lloyd A vectors k dm (Suc n) cs = (case lloyd_step A vectors k dm cs of
     None \<Rightarrow> None
   | Some (cs, moved) \<Rightarrow> if moved then lloyd A vectors k dm n cs else Some cs)"

text \<open>The assertion on an empty training set is a panic.\<close>
definition train :: "('f, 'd) arith \<Rightarrow> 'f list list \<Rightarrow> nat \<Rightarrow> nat \<Rightarrow> u64 \<Rightarrow> 'f list list option" where
  "train A vectors k max_iters seed =
     (if vectors = [] then None
      else let k = max 1 (min k (length vectors)); dm = length (hd vectors) in
        lloyd A vectors k dm max_iters (seed_centroids A vectors k (rng_seeded seed)))"

definition centroid_count :: "('f, 'd) arith \<Rightarrow> nat \<Rightarrow> nat" where
  "centroid_count A n = (if n = 0 then 1 else max (sqrt_round A n) 1)"

section \<open>Facts\<close>

lemma rng_below_less: "0 < n \<Longrightarrow> fst (rng_below n s) < n"
  by (simp add: rng_below_def split_beta)

lemma pick_weighted_less: "pick_weighted A target acc i ds = Some j \<Longrightarrow> i \<le> j \<and> j < i + length ds"
  by (induction A target acc i ds rule: pick_weighted.induct) (fastforce simp: Let_def split: if_splits)+

lemma next_centre_less:
  assumes "0 < n" "length closest = n" shows "fst (next_centre A n closest s) < n"
  using assms pick_weighted_less[of A _ "dzero A" 0 closest] rng_below_less[of n s]
  by (fastforce simp: next_centre_def Let_def split_beta split: option.split)

lemma seed_loop_shape:
  "vectors \<noteq> [] \<Longrightarrow> length closest = length vectors \<Longrightarrow> set centroids \<subseteq> set vectors \<Longrightarrow>
     length (seed_loop A vectors m centroids closest s) = length centroids + m
     \<and> set (seed_loop A vectors m centroids closest s) \<subseteq> set vectors"
proof (induction A vectors m centroids closest s rule: seed_loop.induct)
  case (2 A vectors m centroids closest s)
  obtain i s' where i: "next_centre A (length vectors) closest s = (i, s')" by fastforce
  have "vectors ! i \<in> set vectors"
    using next_centre_less[of "length vectors" closest A s] 2(2,3) i by simp
  with 2(1)[OF i[symmetric] refl refl] 2(2-) i show ?case by (simp add: Let_def)
qed simp

text \<open>Seeding picks exactly \<open>k\<close> of the vectors.\<close>
lemma seed_centroids_shape:
  assumes "vectors \<noteq> []" "0 < k"
  shows "length (seed_centroids A vectors k s) = k" "set (seed_centroids A vectors k s) \<subseteq> set vectors"
proof -
  obtain i s' where i: "rng_below (length vectors) s = (i, s')" by fastforce
  have c: "set [vectors ! i] \<subseteq> set vectors"
    using assms(1) rng_below_less[of "length vectors" s] i by simp
  have l: "length (map (\<lambda>v. sq_dist A v (vectors ! i)) vectors) = length vectors" by simp
  show "length (seed_centroids A vectors k s) = k" "set (seed_centroids A vectors k s) \<subseteq> set vectors"
    using seed_loop_shape[OF assms(1) l c, of A "k - 1" s'] assms(2) i
    by (simp_all add: seed_centroids_def Let_def)
qed

lemma furthest_point_less: "furthest_point A vectors cs = Some j \<Longrightarrow> j < length vectors"
proof -
  have "fst (foldl (\<lambda>(best, best_d) (i, v). let d = f v in if g best_d d then (Some i, d) else (best, best_d)) (b, bd) xs) = Some j \<Longrightarrow>
      (b = Some j \<or> j \<in> set (map fst xs))" for f :: "'a list \<Rightarrow> 'a" and g b bd xs
    by (induction xs arbitrary: b bd) (fastforce simp: Let_def split: if_splits)+
  from this[of "\<lambda>v. sq_dist A v (cs ! nearest A cs v)" "flt A" None "lit A (- 1)" "enumerate 0 vectors"]
  show "furthest_point A vectors cs = Some j \<Longrightarrow> j < length vectors"
    by (auto simp: furthest_point_def in_set_enumerate_eq)
qed

text \<open>All centroids have the dimension of the training set.\<close>
definition shaped :: "nat \<Rightarrow> nat \<Rightarrow> 'f list list \<Rightarrow> bool" where
  "shaped k dm cs = (length cs = k \<and> (\<forall>c \<in> set cs. length c = dm))"

lemma update_centroid_shaped:
  assumes "\<forall>v \<in> set vectors. length v = dm" "shaped k dm cs" "c < k"
  shows "\<exists>cs' moved'. update_centroid A vectors dm totals counts c (cs, moved) = Some (cs', moved') \<and> shaped k dm cs'"
proof -
  have len: "length (cs ! c) = dm" using assms(2,3) by (auto simp: shaped_def)
  have upd: "length x = dm \<Longrightarrow> shaped k dm (cs[c := x])" for x
    using assms(2) by (auto simp: shaped_def dest: set_update_subset_insert[THEN subsetD])
  have far: "furthest_point A vectors cs = Some j \<Longrightarrow> length (vectors ! j) = dm" for j
    using assms(1) by (simp add: furthest_point_less)
  show ?thesis
  proof (cases "counts ! c = 0")
    case True
    show ?thesis
    proof (cases "furthest_point A vectors cs")
      case None
      with True assms(2) show ?thesis by (simp add: update_centroid_def)
    next
      case (Some j)
      with True assms(2) upd[OF far[OF Some]] show ?thesis
        by (cases "vec_eq A (cs ! c) (vectors ! j)") (auto simp: update_centroid_def)
    qed
  next
    case False
    with len upd show ?thesis by (simp add: update_centroid_def Let_def)
  qed
qed

lemma try_fold_invariant:
  assumes "\<And>x s. x \<in> set xs \<Longrightarrow> P s \<Longrightarrow> \<exists>s'. f x s = Some s' \<and> P s'" "P s"
  shows "\<exists>s'. try_fold f xs s = Some s' \<and> P s'"
  using assms
proof (induction xs arbitrary: s)
  case (Cons x xs)
  then obtain s' where s': "f x s = Some s'" "P s'" by (meson list.set_intros(1))
  moreover have "\<exists>s''. try_fold f xs s' = Some s'' \<and> P s''" using Cons.prems s' by (intro Cons.IH) auto
  ultimately show ?case by simp
qed simp

lemma lloyd_step_shaped:
  fixes cs :: "'f list list"
  assumes "\<forall>v \<in> set vectors. length v = dm" "shaped k dm cs"
  shows "\<exists>cs' moved. lloyd_step A vectors k dm cs = Some (cs', moved) \<and> shaped k dm cs'"
proof -
  obtain totals counts where sc: "accumulate A k dm vectors (map (nearest A cs) vectors) = (totals, counts)"
    by (cases "accumulate A k dm vectors (map (nearest A cs) vectors)")
  have "\<exists>st. try_fold (update_centroid A vectors dm totals counts) [0..<k] (cs, False) = Some st \<and> shaped k dm (fst st)"
  proof (rule try_fold_invariant)
    fix c and st :: "'f list list \<times> bool" assume "c \<in> set [0..<k]" "shaped k dm (fst st)"
    with update_centroid_shaped[OF assms(1), of k "fst st" c A totals counts "snd st"]
    show "\<exists>st'. update_centroid A vectors dm totals counts c st = Some st' \<and> shaped k dm (fst st')" by auto
  qed (use assms in simp)
  with sc show ?thesis by (auto simp: lloyd_step_def)
qed

lemma lloyd_shaped:
  "\<forall>v \<in> set vectors. length v = dm \<Longrightarrow> shaped k dm cs \<Longrightarrow> \<exists>cs'. lloyd A vectors k dm n cs = Some cs' \<and> shaped k dm cs'"
proof (induction n arbitrary: cs)
  case (Suc n)
  from lloyd_step_shaped[OF Suc.prems] obtain cs' moved
    where "lloyd_step A vectors k dm cs = Some (cs', moved)" "shaped k dm cs'" by blast
  with Suc.IH[OF Suc.prems(1)] show ?case by simp
qed simp

text \<open>C36. Training is total on a batch of one dimension: over any arithmetic, any seed and any iteration
  bound it returns, with as many centroids as asked for (at least one, at most one per vector),
  each of the batch's dimension.\<close>
theorem train_total:
  assumes "vectors \<noteq> []" "\<forall>v \<in> set vectors. length v = dm"
  shows "\<exists>cs. train A vectors k max_iters seed = Some cs \<and> length cs = max 1 (min k (length vectors))
    \<and> (\<forall>c \<in> set cs. length c = dm)"
proof -
  let ?k = "max 1 (min k (length vectors))"
  have "0 < ?k" by linarith
  note seeds = seed_centroids_shape[OF assms(1) this, of A "rng_seeded seed"]
  have "shaped ?k dm (seed_centroids A vectors ?k (rng_seeded seed))"
    unfolding shaped_def using seeds assms(2) by blast
  from lloyd_shaped[OF assms(2) this] show ?thesis
    using assms by (auto simp: train_def shaped_def Let_def)
qed

theorem train_total_witness:
  "\<exists>cs. train real_arith [[1, 0], [0, 1], [1, 1 :: real]] 2 25 42 = Some cs \<and> length cs = 2
     \<and> (\<forall>c \<in> set cs. length c = 2)"
  using train_total[of "[[1, 0], [0, 1], [1, 1 :: real]]" 2 real_arith 2 25 42] by (simp add: numeral_2_eq_2)

section \<open>Distances in exact arithmetic\<close>

definition dist2 :: "real list \<Rightarrow> real list \<Rightarrow> real" where
  "dist2 a b = (\<Sum>(x, y)\<leftarrow>zip a b. (x - y) * (x - y))"

lemma chunks_exact_Nil [simp]: "chunks_exact n [] = []"
  by (subst chunks_exact.simps) auto

lemma concat_chunks_exact: "0 < n \<Longrightarrow> concat (chunks_exact n xs) = take (length xs div n * n) xs"
proof (induction n xs rule: chunks_exact.induct)
  case (1 n xs)
  show ?case
  proof (cases "length xs < n")
    case True then show ?thesis by (subst chunks_exact.simps) simp
  next
    case False
    then have "length xs div n * n = n + (length xs - n) div n * n" using 1(2) by (simp add: le_div_geq)
    moreover have "concat (chunks_exact n xs) = take n xs @ concat (chunks_exact n (drop n xs))"
      using False 1(2) by (subst chunks_exact.simps) simp
    ultimately show ?thesis using 1 False by (simp add: take_add)
  qed
qed

lemma chunks_exact_short: "length xs < n \<Longrightarrow> chunks_exact n xs = []"
  by (subst chunks_exact.simps) simp

lemma chunks_exact_step: "0 < n \<Longrightarrow> n \<le> length xs \<Longrightarrow> chunks_exact n xs = take n xs # chunks_exact n (drop n xs)"
  by (subst chunks_exact.simps) simp

lemma length_chunks_exact: "0 < n \<Longrightarrow> length (chunks_exact n xs) = length xs div n"
proof (induction n xs rule: chunks_exact.induct)
  case (1 n xs)
  then show ?case by (cases "length xs < n") (simp_all add: chunks_exact_short chunks_exact_step le_div_geq)
qed

lemma chunk_lengths: "c \<in> set (chunks_exact n xs) \<Longrightarrow> length c = n"
proof (induction n xs rule: chunks_exact.induct)
  case (1 n xs)
  note prems = 1(2) and IH = 1(1)
  consider "n = 0" | "length xs < n" | "0 < n" "n \<le> length xs" by linarith
  then show ?case
  proof cases
    assume "n = 0" with prems show ?thesis by (subst (asm) chunks_exact.simps) simp
  next
    assume "length xs < n" with prems show ?thesis by (simp add: chunks_exact_short)
  next
    assume "0 < n" "n \<le> length xs" with prems IH show ?thesis by (auto simp: chunks_exact_step)
  qed
qed

lemma dist2_append: "length a = length b \<Longrightarrow> dist2 (a @ a') (b @ b') = dist2 a b + dist2 a' b'"
  by (simp add: dist2_def)

lemma dist2_nonneg: "0 \<le> dist2 a b"
  unfolding dist2_def by (rule sum_list_nonneg) auto

lemma sum_sq_lanes:
  "length xa = length acc \<Longrightarrow> length xb = length acc \<Longrightarrow>
     (\<Sum>(z, x, y)\<leftarrow>zip acc (zip xa xb). z + (x - y) * (x - y)) = sum_list acc + dist2 xa xb"
proof (induction acc arbitrary: xa xb)
  case (Cons z acc)
  then obtain x xa' y xb' where "xa = x # xa'" "xb = y # xb'" by (metis length_Suc_conv)
  with Cons show ?case by (simp add: dist2_def)
qed (simp add: dist2_def)

lemma sum_sq_chunks:
  fixes acc :: "real list"
  defines "step \<equiv> \<lambda>acc (xa, xb). map (\<lambda>(z, x, y). z + (x - y) * (x - y :: real)) (zip acc (zip xa xb))"
  assumes "length as = length bs" "\<forall>c \<in> set as \<union> set bs. length c = length acc"
  shows "sum_list (foldl step acc (zip as bs)) = sum_list acc + dist2 (concat as) (concat bs)"
  using assms(2,3)
proof (induction as bs arbitrary: acc rule: list_induct2)
  case (Cons x xs y ys)
  let ?acc = "step acc (x, y)"
  have l: "length x = length acc" "length y = length acc" using Cons.prems by auto
  then have "length ?acc = length acc" by (simp add: step_def)
  moreover have "sum_list ?acc = sum_list acc + dist2 x y" using sum_sq_lanes[OF l] by (simp add: step_def)
  ultimately show ?case using Cons.IH[of ?acc] Cons.prems l by (simp add: dist2_append)
qed (simp add: dist2_def)

lemma foldl_sq: "foldl (\<lambda>t (x, y). t + (x - y) * (x - y)) s qs = s + (\<Sum>(x, y)\<leftarrow>qs. (x - y) * (x - y :: real))"
  by (induction qs arbitrary: s) (auto simp: split_beta)

lemma dist2_take_min: "dist2 (take (min (length a) (length b)) a) (take (min (length a) (length b)) b) = dist2 a b"
  by (simp add: dist2_def flip: take_zip)

lemma dist2_split: "length a = length b \<Longrightarrow> dist2 (take m a) (take m b) + dist2 (drop m a) (drop m b) = dist2 a b"
  using dist2_append[of "take m a" "take m b" "drop m a" "drop m b"] by simp

text \<open>In exact arithmetic the eight-lane distance is the squared Euclidean distance.\<close>
lemma sq_dist_real: "sq_dist real_arith a b = dist2 a b"
proof -
  define n where "n = min (length a) (length b)"
  define x where "x = take n a"
  define y where "y = take n b"
  have len: "length x = n" "length y = n" by (simp_all add: x_def y_def n_def)
  have chunks: "length (chunks_exact 8 x) = length (chunks_exact 8 y)" by (simp add: length_chunks_exact len)
  have "\<forall>c \<in> set (chunks_exact 8 x) \<union> set (chunks_exact 8 y). length c = length (replicate 8 (0 :: real))"
    by (auto dest: chunk_lengths)
  note acc = sum_sq_chunks[OF chunks this]
  have "sq_dist real_arith a b = dist2 (concat (chunks_exact 8 x)) (concat (chunks_exact 8 y))
      + dist2 (drop (n div 8 * 8) x) (drop (n div 8 * 8) y)"
    using acc unfolding sq_dist_def Let_def LANES_def n_def[symmetric] x_def[symmetric] y_def[symmetric]
    by (simp add: foldl_plus_sum foldl_sq sum_list_replicate dist2_def)
  also have "\<dots> = dist2 x y"
    using dist2_split[of x y "n div 8 * 8"] len by (simp add: concat_chunks_exact)
  finally show ?thesis using dist2_take_min[of a b] by (simp add: x_def y_def n_def)
qed

lemma sq_dist_nonneg: "0 \<le> sq_dist real_arith a b"
  by (simp add: sq_dist_real dist2_nonneg)

lemma sq_dist_empty [simp]: "sq_dist real_arith [] v = 0" "sq_dist real_arith v [] = 0"
  by (simp_all add: sq_dist_real dist2_def)

lemma nearest_fold:
  fixes centroids :: "real list list"
  assumes "\<forall>c \<in> set centroids. sq_dist real_arith c v < 2 ^ 128"
  shows "foldl (\<lambda>(best, best_d) (i, c). let d = sq_dist real_arith c v in if d < best_d then (i, d) else (best, best_d))
      (0, 2 ^ 128) (enumerate 0 centroids) = (j, m) \<Longrightarrow> centroids \<noteq> [] \<Longrightarrow>
    j < length centroids \<and> m = sq_dist real_arith (centroids ! j) v
    \<and> (\<forall>i < length centroids. m \<le> sq_dist real_arith (centroids ! i) v)
    \<and> (\<forall>i < j. m < sq_dist real_arith (centroids ! i) v)"
  using assms
proof (induction centroids arbitrary: j m rule: rev_induct)
  case (snoc c cs)
  let ?f = "\<lambda>(best, best_d) (i, c). let d = sq_dist real_arith c v in if d < best_d then (i, d) else (best, best_d)"
  let ?d = "sq_dist real_arith c v"
  obtain b bd where b: "foldl ?f (0, 2 ^ 128) (enumerate 0 cs) = (b, bd)"
    by (cases "foldl ?f (0, 2 ^ 128) (enumerate 0 cs)")
  have jm: "(j, m) = (if ?d < bd then (length cs, ?d) else (b, bd))"
    using snoc.prems(1) b by (simp add: enumerate_append_eq Let_def)
  show ?case
  proof (cases "cs = []")
    case True
    with b jm snoc.prems(3) show ?thesis by (auto simp: split: if_splits)
  next
    case False
    with snoc.IH[OF b] snoc.prems(3) have IH: "b < length cs" "bd = sq_dist real_arith (cs ! b) v"
      "\<forall>i < length cs. bd \<le> sq_dist real_arith (cs ! i) v" "\<forall>i < b. bd < sq_dist real_arith (cs ! i) v"
      by auto
    show ?thesis
    proof (cases "?d < bd")
      case True
      with jm have "j = length cs" "m = ?d" by auto
      with True IH(3) show ?thesis by (auto simp: nth_append less_Suc_eq)
    next
      case nl: False
      with jm have "j = b" "m = bd" by auto
      with nl IH show ?thesis by (auto simp: nth_append less_Suc_eq)
    qed
  qed
qed simp

text \<open>The nearest centroid is the first one at the least Euclidean distance, in exact arithmetic on
  distances that do not overflow an \<open>f32\<close>.\<close>
theorem nearest_least:
  assumes "centroids \<noteq> []" "\<forall>c \<in> set centroids. dist2 c v < 2 ^ 128"
  shows "nearest real_arith centroids v < length centroids
    \<and> (\<forall>i < length centroids. dist2 (centroids ! nearest real_arith centroids v) v \<le> dist2 (centroids ! i) v)
    \<and> (\<forall>i < nearest real_arith centroids v. dist2 (centroids ! nearest real_arith centroids v) v < dist2 (centroids ! i) v)"
proof -
  let ?f = "\<lambda>(best, best_d) (i, c). let d = sq_dist real_arith c v in if d < best_d then (i, d) else (best, best_d)"
  obtain b m where b: "foldl ?f (0, 2 ^ 128) (enumerate 0 centroids) = (b, m)"
    by (cases "foldl ?f (0, 2 ^ 128) (enumerate 0 centroids)")
  then have "nearest real_arith centroids v = b" by (simp add: nearest_def)
  moreover have "\<forall>c \<in> set centroids. sq_dist real_arith c v < 2 ^ 128" using assms(2) by (simp add: sq_dist_real)
  ultimately show ?thesis using nearest_fold[OF _ b assms(1)] by (auto simp: sq_dist_real)
qed

theorem nearest_least_witness:
  "dist2 ([[0], [1]] ! nearest real_arith [[0], [1]] [1]) [1] \<le> 0"
  using nearest_least[of "[[0], [1]]" "[1]"] by (auto simp: dist2_def dest!: spec[of _ 1])

lemma nearest_empty_first: "nearest real_arith ([] # cs) v = 0"
proof -
  let ?f = "\<lambda>(best, best_d) (i, c). let d = sq_dist real_arith c v in if d < best_d then (i, d) else (best, best_d)"
  have "foldl ?f (0 :: nat, 0) xs = (0, 0)" for xs
  proof (induction xs)
    case (Cons x xs)
    have "?f (0, 0) x = (0, 0)" using sq_dist_nonneg[of "snd x" v] by (auto simp: split_beta Let_def)
    with Cons show ?case by (simp only: foldl_Cons)
  qed simp
  then show ?thesis by (simp add: nearest_def)
qed

lemma accumulate_counts:
  "c < k \<Longrightarrow> snd (accumulate A k dm vectors assignments) ! c = length (filter (\<lambda>a. a = c) (map snd (zip vectors assignments)))"
proof -
  have "length cn = k \<Longrightarrow> c < k \<Longrightarrow> snd (foldl (\<lambda>(totals, counts) (v, c).
        (totals[c := map (\<lambda>d. if d < length v then dadd A (totals ! c ! d) (widen A (v ! d)) else totals ! c ! d) [0..<dm]],
         counts[c := counts ! c + 1])) (tt, cn) ps) ! c = cn ! c + length (filter (\<lambda>a. a = c) (map snd ps))" for tt cn ps
  proof (induction ps arbitrary: tt cn)
    case (Cons p ps)
    obtain v a where p: "p = (v, a)" by fastforce
    show ?case using Cons by (cases "a = c") (simp_all add: p)
  qed simp
  then show "c < k \<Longrightarrow> ?thesis" by (simp add: accumulate_def)
qed

text \<open>When the first centre drawn is the empty vector of a text-only item, every vector is assigned to
  it, and the update indexes past its end.\<close>
lemma train_panics:
  assumes "vectors \<noteq> []" "hd vectors \<noteq> []" "0 < max_iters"
    and "vectors ! fst (rng_below (length vectors) (rng_seeded seed)) = []"
  shows "train real_arith vectors k max_iters seed = None"
proof -
  let ?k = "max 1 (min k (length vectors))" and ?dm = "length (hd vectors)"
  obtain m where m: "max_iters = Suc m" using assms(3) by (cases max_iters) auto
  have "\<exists>cs. seed_loop A vectors j (x # xs) closest s = x # cs" for A :: "(real, real) arith" and j x xs closest s
    by (induction j arbitrary: xs closest s) (auto simp: Let_def split: prod.split)
  then obtain cs where cs: "seed_centroids real_arith vectors ?k (rng_seeded seed) = [] # cs"
    using assms(4) by (fastforce simp: seed_centroids_def Let_def split_beta)
  obtain totals counts where sc:
    "accumulate real_arith ?k ?dm vectors (map (nearest real_arith ([] # cs)) vectors) = (totals, counts)"
    by (cases "accumulate real_arith ?k ?dm vectors (map (nearest real_arith ([] # cs)) vectors)")
  have "counts ! 0 = length vectors"
    using accumulate_counts[of 0 ?k real_arith ?dm vectors "map (nearest real_arith ([] # cs)) vectors"] sc
    by (simp add: nearest_empty_first map_snd_zip_take)
  then have "update_centroid real_arith vectors ?dm totals counts 0 ([] # cs, False) = None"
    using assms(1,2) by (simp add: update_centroid_def)
  moreover have "[0..<?k] = 0 # [1..<?k]" by (simp add: upt_conv_Cons)
  ultimately have "lloyd_step real_arith vectors ?k ?dm ([] # cs) = None"
    using sc by (simp add: lloyd_step_def)
  then show ?thesis using assms(1) cs m by (simp add: train_def Let_def)
qed

text \<open>The first draw of the default seed.\<close>
lemma first_draw: "fst (rng_below 3 (rng_seeded 42)) = 2"
proof -
  have "(42 * 0x9E3779B97F4A7C15 :: u64) = 0xF519F86EE2385B72" by simp
  then have "rng_seeded 42 = 0xF519F86EE2385B72" by (simp add: rng_seeded_def max_def word_le_nat_alt)
  moreover have "fst (next_u64 0xF519F86EE2385B72) = 3771887127365492750" by (simp add: next_u64_def Let_def)
  ultimately show ?thesis by (simp add: rng_below_def split_beta)
qed



end
