(* ===== verification/Ivf_Index.thy ===== *)
theory Ivf_Index
  imports Kmeans
begin

text \<open>
  The inverted-file index (\<open>mlake-ivf/src/index.rs\<close>): cluster files and the centroid table with their
  byte formats, the assignment of items to clusters, centroid training over a corpus, the probe
  order, and the ranking and merging of hits. The locale \<open>ranking\<close> is the contract of a comparator
  sort that is cut at \<open>k\<close>: probe, exact search and merge are instances of it.
\<close>

section \<open>Sorting by a comparator\<close>

text \<open>\<open>slice.sort_by\<close>, a stable sort; \<open>le x y\<close> says that the comparator does not put \<open>y\<close> strictly first.\<close>
fun insert_by :: "('a \<Rightarrow> 'a \<Rightarrow> bool) \<Rightarrow> 'a \<Rightarrow> 'a list \<Rightarrow> 'a list" where
  "insert_by le x [] = [x]"
| "insert_by le x (y # ys) = (if le x y then x # y # ys else y # insert_by le x ys)"

definition sort_by :: "('a \<Rightarrow> 'a \<Rightarrow> bool) \<Rightarrow> 'a list \<Rightarrow> 'a list" where
  "sort_by le xs = foldr (insert_by le) xs []"

lemma mset_insert_by [simp]: "mset (insert_by le x ys) = add_mset x (mset ys)"
  by (induction ys) auto

lemma mset_sort_by [simp]: "mset (sort_by le xs) = mset xs"
  by (induction xs) (auto simp: sort_by_def)

lemma set_sort_by [simp]: "set (sort_by le xs) = set xs"
  by (metis mset_sort_by set_mset_mset)

lemma length_sort_by [simp]: "length (sort_by le xs) = length xs"
  by (metis mset_sort_by size_mset)

text \<open>\<open>xs\<close> is the list of the \<open>k\<close> best elements of \<open>S\<close> in order.\<close>
definition top_of :: "('a \<Rightarrow> 'a \<Rightarrow> bool) \<Rightarrow> nat \<Rightarrow> 'a set \<Rightarrow> 'a list \<Rightarrow> bool" where
  "top_of le k S xs = (distinct xs \<and> set xs \<subseteq> S \<and> length xs = min k (card S) \<and> sorted_wrt le xs
     \<and> (\<forall>x \<in> set xs. \<forall>y \<in> S - set xs. le x y))"

locale ranking =
  fixes le :: "'a \<Rightarrow> 'a \<Rightarrow> bool"
  assumes total: "le x y \<or> le y x"
    and trans: "le x y \<Longrightarrow> le y z \<Longrightarrow> le x z"
begin

lemma sorted_insert_by: "sorted_wrt le ys \<Longrightarrow> sorted_wrt le (insert_by le x ys)"
proof (induction ys)
  case (Cons y ys)
  have "set (insert_by le x ys) = insert x (set ys)"
    by (metis mset_insert_by set_mset_add_mset_insert set_mset_mset)
  with Cons total[of x y] trans[of x y] show ?case by auto
qed simp

lemma sorted_sort_by: "sorted_wrt le (sort_by le xs)"
  unfolding sort_by_def by (induction xs) (simp_all add: sorted_insert_by)

text \<open>The cut keeps the best: nothing dropped comes strictly before something kept.\<close>
lemma top_k_best:
  assumes "x \<in> set (take k (sort_by le xs))" "y \<in> set (drop k (sort_by le xs))"
  shows "le x y"
  using assms sorted_sort_by[of xs] by (metis append_take_drop_id sorted_wrt_append)

lemma top_of_sort_by:
  assumes "distinct xs"
  shows "top_of le k (set xs) (take k (sort_by le xs))"
  unfolding top_of_def
proof (intro conjI ballI)
  have d: "distinct (sort_by le xs)" using assms by (metis mset_eq_imp_distinct_iff mset_sort_by)
  then show "distinct (take k (sort_by le xs))" by simp
  show "set (take k (sort_by le xs)) \<subseteq> set xs" by (metis set_sort_by set_take_subset)
  show "length (take k (sort_by le xs)) = min k (card (set xs))" using distinct_card[OF assms] by simp
  show "sorted_wrt le (take k (sort_by le xs))" by (rule sorted_wrt_take[OF sorted_sort_by])
  fix x y assume x: "x \<in> set (take k (sort_by le xs))" and y: "y \<in> set xs - set (take k (sort_by le xs))"
  then have "y \<in> set (drop k (sort_by le xs))" by (metis Diff_iff Un_iff append_take_drop_id set_append set_sort_by)
  with x show "le x y" by (rule top_k_best)
qed

end

section \<open>Cluster files and centroids\<close>

record cluster_file =
  cf_centroid_id :: u32
  cf_items :: "stored_memory list"

definition CLUSTER_MAGIC :: bytes where "CLUSTER_MAGIC = [0x43, 0x4C, 0x55, 0x53]"
definition CLUSTER_VERSION :: u16 where "CLUSTER_VERSION = 1"

text \<open>The payload is \<open>rkyv\<close>'s encoding.\<close>
definition cluster_to_bytes :: "cluster_file codec \<Rightarrow> cluster_file \<Rightarrow> core_error + bytes" where
  "cluster_to_bytes c f = (case encode c f of
     None \<Rightarrow> Inl Encode | Some payload \<Rightarrow> Inr (wrap CLUSTER_MAGIC CLUSTER_VERSION payload))"

definition cluster_from_bytes :: "cluster_file codec \<Rightarrow> bytes \<Rightarrow> core_error + cluster_file" where
  "cluster_from_bytes c bs = (case unwrap CLUSTER_MAGIC bs of
     None \<Rightarrow> Inl Decode
   | Some (_, payload) \<Rightarrow> (case decode c payload of None \<Rightarrow> Inl Decode | Some f \<Rightarrow> Inr f))"

record 'f centroids =
  cn_vectors :: "'f list list"
  cn_sizes :: "nat list"
  cn_dim :: nat

definition centroids_default :: "'f centroids" where
  "centroids_default = \<lparr>cn_vectors = [], cn_sizes = [], cn_dim = 0\<rparr>"

definition CENTROIDS_MAGIC :: bytes where "CENTROIDS_MAGIC = [0x43, 0x45, 0x4E, 0x54]"
definition CENTROIDS_VERSION :: u16 where "CENTROIDS_VERSION = 1"

definition centroids_to_bytes :: "('f centroids \<Rightarrow> bytes) \<Rightarrow> 'f centroids \<Rightarrow> bytes" where
  "centroids_to_bytes rkyv_write c = wrap CENTROIDS_MAGIC CENTROIDS_VERSION (rkyv_write c)"

definition centroids_from_bytes :: "(bytes \<Rightarrow> 'f centroids option) \<Rightarrow> bytes \<Rightarrow> core_error + 'f centroids" where
  "centroids_from_bytes rkyv_read bs = (case unwrap CENTROIDS_MAGIC bs of
     None \<Rightarrow> Inl Decode
   | Some (_, payload) \<Rightarrow> (case rkyv_read payload of None \<Rightarrow> Inl Decode | Some c \<Rightarrow> Inr c))"

text \<open>The order of the probe: by distance, then by index.\<close>
definition probe_le :: "('f, 'd) arith \<Rightarrow> nat \<times> 'f \<Rightarrow> nat \<times> 'f \<Rightarrow> bool" where
  "probe_le A a b = (flt A (snd a) (snd b) \<or> \<not> flt A (snd b) (snd a) \<and> fst a \<le> fst b)"

text \<open>Unwrapping the comparison panics on a NaN, which is not equal to itself; with two or more
  centroids the sort compares each of them.\<close>
definition probe :: "('f, 'd) arith \<Rightarrow> 'f centroids \<Rightarrow> 'f list \<Rightarrow> nat \<Rightarrow> nat list option" where
  "probe A c query nprobe =
     (let scored = map (\<lambda>(i, v). (i, sq_dist A query v)) (enumerate 0 (cn_vectors c)) in
      if 2 \<le> length scored \<and> list_ex (\<lambda>(_, d). \<not> feq A d d) scored then None
      else Some (map fst (take nprobe (sort_by (probe_le A) scored))))"

definition centroids_assign :: "('f, 'd) arith \<Rightarrow> 'f centroids \<Rightarrow> 'f list \<Rightarrow> nat" where
  "centroids_assign A c v = nearest A (cn_vectors c) v"

definition centroids_push :: "'f list \<Rightarrow> 'f centroids \<Rightarrow> nat \<times> 'f centroids" where
  "centroids_push v c = (let c = c\<lparr>cn_vectors := cn_vectors c @ [v], cn_sizes := cn_sizes c @ [0]\<rparr>
     in (length (cn_vectors c) - 1, c))"

section \<open>Building clusters\<close>

definition build_clusters :: "(f32, 'd) arith \<Rightarrow> stored_memory list \<Rightarrow> f32 centroids \<Rightarrow> cluster_file list" where
  "build_clusters A items c =
     (let buckets = foldl (\<lambda>bs item.
            let i = if cn_vectors c = [] then 0 else nearest A (cn_vectors c) (sm_vector item) in bs[i := bs ! i @ [item]])
          (replicate (max (length (cn_vectors c)) 1) []) items
      in map (\<lambda>(i, items). \<lparr>cf_centroid_id = of_nat i, cf_items = items\<rparr>) (enumerate 0 buckets))"

definition TRAIN_SAMPLE_CAP :: nat where "TRAIN_SAMPLE_CAP = 50000"

text \<open>The sampling loop: every \<open>stride\<close>-th index from \<open>i\<close>, at most \<open>cap\<close> of them.\<close>
definition sample_indices :: "nat \<Rightarrow> nat \<Rightarrow> nat \<Rightarrow> nat \<Rightarrow> nat list" where
  "sample_indices n cap stride i = take cap (step_by stride [i..<n])"

text \<open>Count the members of each cluster.\<close>
definition tally :: "nat \<Rightarrow> nat list \<Rightarrow> nat list" where
  "tally k assigns = foldl (\<lambda>sizes a. sizes[a := sizes ! a + 1]) (replicate k 0) assigns"

definition train_centroids :: "('f, 'd) arith \<Rightarrow> 'f list list \<Rightarrow> u64 \<Rightarrow> 'f centroids option" where
  "train_centroids A vectors seed =
     (if vectors = [] then Some centroids_default
      else let k = centroid_count A (length vectors);
               large = TRAIN_SAMPLE_CAP < length vectors;
               train_set = (if large
                 then let stride = length vectors div TRAIN_SAMPLE_CAP;
                          i = fst (rng_below (max stride 1) (rng_seeded (seed XOR 0xA5A5A5A5)))
                      in map (\<lambda>j. vectors ! j) (sample_indices (length vectors) TRAIN_SAMPLE_CAP (max stride 1) i)
                 else vectors)
           in case train A train_set k (if large then 15 else 25) seed of
                None \<Rightarrow> None
              | Some trained \<Rightarrow> Some \<lparr>cn_vectors = trained,
                  cn_sizes = tally (length trained) (map (nearest A trained) vectors),
                  cn_dim = length (hd vectors)\<rparr>)"

definition train_centroids_k :: "('f, 'd) arith \<Rightarrow> 'f list list \<Rightarrow> nat \<Rightarrow> u64 \<Rightarrow> 'f centroids option" where
  "train_centroids_k A sample k seed =
     (if sample = [] then Some centroids_default
      else case train A sample (max k 1) 15 seed of
        None \<Rightarrow> None
      | Some trained \<Rightarrow> Some \<lparr>cn_vectors = trained,
          cn_sizes = tally (length trained) (map (nearest A trained) sample), cn_dim = length (hd sample)\<rparr>)"

section \<open>Hits\<close>

record 'f hit =
  h_id :: memory_id
  h_score :: 'f

text \<open>Descending score, then ascending id; incomparable scores count as equal.\<close>
definition hit_le :: "('f, 'd) arith \<Rightarrow> 'f hit \<Rightarrow> 'f hit \<Rightarrow> bool" where
  "hit_le A a b = (flt A (h_score b) (h_score a) \<or> \<not> flt A (h_score a) (h_score b) \<and> h_id a \<le> h_id b)"

definition sort_hits :: "('f, 'd) arith \<Rightarrow> 'f hit list \<Rightarrow> 'f hit list" where
  "sort_hits A hits = sort_by (hit_le A) hits"

fun option_all :: "'a option list \<Rightarrow> 'a list option" where
  "option_all [] = Some []"
| "option_all (x # xs) = (case x of None \<Rightarrow> None | Some y \<Rightarrow> map_option (Cons y) (option_all xs))"

text \<open>A dimension mismatch panics.\<close>
definition exact_search :: "(f32, 'd) arith \<Rightarrow> stored_memory list \<Rightarrow> f32 list \<Rightarrow> nat \<Rightarrow> f32 hit list option" where
  "exact_search A items query k = (let qn = norm A query in
     map_option (\<lambda>scores. take k (sort_hits A
         (map (\<lambda>(m, s). \<lparr>h_id = sm_id m, h_score = s\<rparr>) (zip items scores))))
       (option_all (map (\<lambda>m. cosine_opt_prenorm A query qn (sm_vector m)) items)))"

definition best_scores :: "('f, 'd) arith \<Rightarrow> 'f hit list \<Rightarrow> (memory_id, 'f) btree" where
  "best_scores A hits = foldl (\<lambda>m h. bt_insert (h_id h) (case map_of m (h_id h) of
       Some s \<Rightarrow> if flt A s (h_score h) then h_score h else s | None \<Rightarrow> h_score h) m) [] hits"

definition merge_hits :: "('f, 'd) arith \<Rightarrow> 'f hit list list \<Rightarrow> nat \<Rightarrow> 'f hit list" where
  "merge_hits A sources k = take k (sort_hits A
     (map (\<lambda>(i, s). \<lparr>h_id = i, h_score = s\<rparr>) (best_scores A (concat sources))))"

section \<open>Facts\<close>

interpretation probe_rank: ranking "probe_le real_arith"
  by unfold_locales (auto simp: probe_le_def)

interpretation hit_rank: ranking "hit_le real_arith"
  by unfold_locales (auto simp: hit_le_def)

lemma nearest_less:
  assumes "cs \<noteq> []" shows "nearest A cs v < length cs"
proof -
  have "fst (foldl (\<lambda>(best, best_d) (i, c). let d = f c in if g d best_d then (i, d) else (best, best_d)) (b, bd) xs) = b
      \<or> fst (foldl (\<lambda>(best, best_d) (i, c). let d = f c in if g d best_d then (i, d) else (best, best_d)) (b, bd) xs) \<in> set (map fst xs)"
    for f :: "'a list \<Rightarrow> 'a" and g b bd xs
    by (induction xs arbitrary: b bd) (fastforce simp: Let_def)+
  from this[of "\<lambda>c. sq_dist A c v" "flt A" 0 "f_inf A" "enumerate 0 cs"]
  show ?thesis using assms by (auto simp: nearest_def in_set_enumerate_eq)
qed

text \<open>Distribution of items over buckets by an index function.\<close>
lemma bucket_fold:
  "\<forall>x \<in> set items. f x < length bs \<Longrightarrow>
     length (foldl (\<lambda>bs x. bs[f x := bs ! f x @ [x]]) bs items) = length bs
     \<and> (\<forall>i < length bs. foldl (\<lambda>bs x. bs[f x := bs ! f x @ [x]]) bs items ! i = bs ! i @ filter (\<lambda>x. f x = i) items)"
proof (induction items arbitrary: bs)
  case (Cons x items)
  let ?bs = "bs[f x := bs ! f x @ [x]]"
  have "foldl (\<lambda>bs x. bs[f x := bs ! f x @ [x]]) bs (x # items) = foldl (\<lambda>bs x. bs[f x := bs ! f x @ [x]]) ?bs items"
    by simp
  moreover have "\<forall>y \<in> set items. f y < length ?bs" using Cons.prems by simp
  note Cons.IH[OF this]
  ultimately show ?case using Cons.prems by (auto simp: nth_list_update)
qed simp

definition assigned :: "('f, 'd) arith \<Rightarrow> 'f centroids \<Rightarrow> 'f list \<Rightarrow> nat" where
  "assigned A c v = (if cn_vectors c = [] then 0 else nearest A (cn_vectors c) v)"

text \<open>Clustering is a partition: there is one file per centroid (one for an empty table), file \<open>i\<close> is
  numbered \<open>i\<close> and holds exactly the items whose nearest centroid is \<open>i\<close>, in input order, so no item
  is dropped or duplicated.\<close>
theorem build_clusters_partition:
  "length (build_clusters A items c) = max (length (cn_vectors c)) 1
   \<and> (\<forall>i < max (length (cn_vectors c)) 1. build_clusters A items c ! i =
        \<lparr>cf_centroid_id = of_nat i, cf_items = filter (\<lambda>m. assigned A c (sm_vector m) = i) items\<rparr>)
   \<and> mset (concat (map cf_items (build_clusters A items c))) = mset items"
proof -
  let ?n = "max (length (cn_vectors c)) 1"
  let ?a = "\<lambda>m. assigned A c (sm_vector m)"
  have bound: "?a m < ?n" for m using nearest_less[of "cn_vectors c" A "sm_vector m"] by (auto simp: assigned_def)
  define bs where "bs = foldl (\<lambda>bs m. bs[?a m := bs ! ?a m @ [m]]) (replicate ?n []) items"
  have bs: "length bs = ?n" "\<forall>i < ?n. bs ! i = filter (\<lambda>m. ?a m = i) items"
    using bucket_fold[of items ?a "replicate ?n []"] bound unfolding bs_def length_replicate
    by (metis (no_types, lifting), metis (no_types, lifting) append_Nil nth_replicate)
  have bc: "build_clusters A items c = map (\<lambda>(i, items). \<lparr>cf_centroid_id = of_nat i, cf_items = items\<rparr>) (enumerate 0 bs)"
    by (simp add: build_clusters_def bs_def assigned_def Let_def)
  have parts: "\<forall>i < ?n. build_clusters A items c ! i = \<lparr>cf_centroid_id = of_nat i, cf_items = filter (\<lambda>m. ?a m = i) items\<rparr>"
    using bs by (simp add: bc nth_enumerate_eq)
  have "map cf_items (build_clusters A items c) = map (\<lambda>i. filter (\<lambda>m. ?a m = i) items) [0..<?n]"
    by (rule nth_equalityI) (use bs parts in \<open>simp_all add: bc\<close>)
  moreover have "mset (concat (map (\<lambda>i. filter (\<lambda>m. ?a m = i) items) [0..<?n])) = mset items"
  proof (rule multiset_eqI)
    fix x
    have "count (mset (concat (map (\<lambda>i. filter (\<lambda>m. ?a m = i) items) [0..<k]))) x = (if ?a x < k then count (mset items) x else 0)" for k
      by (induction k) (auto simp: not_less less_Suc_eq)
    with bound[of x] show "count (mset (concat (map (\<lambda>i. filter (\<lambda>m. ?a m = i) items) [0..<?n]))) x = count (mset items) x"
      by simp
  qed
  ultimately show ?thesis using parts bs(1) by (simp add: bc)
qed

theorem build_clusters_partition_witness:
  "\<forall>(A :: (f32, nat) arith) m. length (build_clusters A [m] centroids_default) = 1
     \<and> mset (concat (map cf_items (build_clusters A [m] centroids_default))) = {#m#}"
proof (intro allI)
  fix A :: "(f32, nat) arith" and m
  show "length (build_clusters A [m] centroids_default) = 1
     \<and> mset (concat (map cf_items (build_clusters A [m] centroids_default))) = {#m#}"
    using build_clusters_partition[of A "[m]" centroids_default] by (simp add: centroids_default_def)
qed

text \<open>The probe returns the \<open>nprobe\<close> nearest centroids, nearest first: as many as asked for or all
  of them, without repetition, in order of Euclidean distance, and no centroid it leaves out is
  nearer than one it names.\<close>
theorem probe_nearest:
  shows "\<exists>is. probe real_arith c q nprobe = Some is \<and> length is = min nprobe (length (cn_vectors c))
    \<and> distinct is \<and> set is \<subseteq> {..<length (cn_vectors c)}
    \<and> sorted_wrt (\<lambda>i j. dist2 q (cn_vectors c ! i) \<le> dist2 q (cn_vectors c ! j)) is
    \<and> (\<forall>i \<in> set is. \<forall>j < length (cn_vectors c). j \<notin> set is \<longrightarrow> dist2 q (cn_vectors c ! i) \<le> dist2 q (cn_vectors c ! j))"
proof -
  define scored where "scored = map (\<lambda>(i, v). (i, sq_dist real_arith q v)) (enumerate 0 (cn_vectors c))"
  define ranked where "ranked = sort_by (probe_le real_arith) scored"
  have sc: "set scored = (\<lambda>i. (i, dist2 q (cn_vectors c ! i))) ` {..<length (cn_vectors c)}"
    by (force simp: scored_def in_set_enumerate_eq sq_dist_real image_iff)
  have fsts: "map fst scored = [0..<length (cn_vectors c)]"
    by (simp add: scored_def comp_def split_beta map_fst_enumerate[unfolded comp_def])
  have r: "set ranked = set scored" "length ranked = length (cn_vectors c)"
    by (simp_all add: ranked_def scored_def)
  have "mset (map fst ranked) = mset [0..<length (cn_vectors c)]"
    by (simp add: ranked_def flip: fsts)
  then have d: "distinct (map fst ranked)" by (metis distinct_upt mset_eq_imp_distinct_iff)
  have srt: "sorted_wrt (\<lambda>a b. snd a \<le> snd b) ranked"
    using probe_rank.sorted_sort_by[of scored] unfolding ranked_def
    by (rule sorted_wrt_mono_rel[rotated]) (auto simp: probe_le_def)
  have val: "p \<in> set ranked \<Longrightarrow> snd p = dist2 q (cn_vectors c ! fst p)" for p using r(1) sc by auto
  have srt': "sorted_wrt (\<lambda>i j. dist2 q (cn_vectors c ! i) \<le> dist2 q (cn_vectors c ! j)) (map fst ranked)"
    unfolding sorted_wrt_map using srt by (rule sorted_wrt_mono_rel[rotated]) (simp add: val)
  let ?is = "take nprobe (map fst ranked)"
  have all: "set (map fst ranked) = {..<length (cn_vectors c)}" using r(1) sc by (force simp: image_iff)
  have "probe real_arith c q nprobe = Some ?is"
    by (simp add: probe_def Let_def scored_def[symmetric] ranked_def[symmetric] take_map list_ex_iff)
  moreover have "length ?is = min nprobe (length (cn_vectors c))" using r(2) by simp
  moreover have "distinct ?is" using d by (simp add: distinct_take)
  moreover have "set ?is \<subseteq> {..<length (cn_vectors c)}" using all set_take_subset by (metis subset_trans eq_refl)
  moreover have "sorted_wrt (\<lambda>i j. dist2 q (cn_vectors c ! i) \<le> dist2 q (cn_vectors c ! j)) ?is"
    using srt' by (rule sorted_wrt_take)
  moreover have "dist2 q (cn_vectors c ! i) \<le> dist2 q (cn_vectors c ! j)"
    if "i \<in> set ?is" "j < length (cn_vectors c)" "j \<notin> set ?is" for i j
  proof -
    have "j \<in> set (drop nprobe (map fst ranked))"
      using that all by (metis Un_iff append_take_drop_id lessThan_iff set_append)
    with that(1) srt' show ?thesis by (metis append_take_drop_id sorted_wrt_append)
  qed
  ultimately show ?thesis by blast
qed

theorem probe_nearest_witness:
  "\<exists>is. probe real_arith \<lparr>cn_vectors = [[0], [1]], cn_sizes = [1, 1], cn_dim = 1\<rparr> [1] 1 = Some is \<and> length is = 1 \<and> set is \<subseteq> {..<2}"
  using probe_nearest[of "\<lparr>cn_vectors = [[0], [1]], cn_sizes = [1, 1], cn_dim = 1\<rparr>" "[1]" 1] by (auto simp: numeral_2_eq_2)

definition scores_of :: "real hit list \<Rightarrow> memory_id \<Rightarrow> real set" where
  "scores_of hits i = h_score ` {h \<in> set hits. h_id h = i}"

lemma scores_of_snoc: "scores_of (hits @ [h]) i = (if h_id h = i then insert (h_score h) (scores_of hits i) else scores_of hits i)"
  by (auto simp: scores_of_def)

lemma finite_scores_of [simp]: "finite (scores_of hits i)"
  by (simp add: scores_of_def)

lemma map_of_best_scores:
  "bt_ok (best_scores real_arith hits)
   \<and> map_of (best_scores real_arith hits) i = (if scores_of hits i = {} then None else Some (Max (scores_of hits i)))"
proof (induction hits rule: rev_induct)
  case (snoc h hits)
  let ?m = "best_scores real_arith hits"
  have step: "best_scores real_arith (hits @ [h]) = bt_insert (h_id h) (case map_of ?m (h_id h) of
      Some s \<Rightarrow> if s < h_score h then h_score h else s | None \<Rightarrow> h_score h) ?m"
    by (simp add: best_scores_def cong: option.case_cong)
  define M where "M = Max (scores_of hits i)"
  have "Max (insert (h_score h) (scores_of hits i)) = (if scores_of hits i = {} then h_score h else max (h_score h) M)"
    by (simp add: M_def)
  moreover have "h_id h = i \<Longrightarrow> map_of ?m i = (if scores_of hits i = {} then None else Some M)"
    using snoc by (simp add: M_def)
  ultimately show ?case using snoc unfolding scores_of_snoc step
    by (cases "h_id h = i") (auto simp: max_def)
qed (simp add: best_scores_def scores_of_def)

text \<open>The hits that carry the best score of their id.\<close>
definition best_of :: "real hit list \<Rightarrow> real hit set" where
  "best_of hits = {h \<in> set hits. \<forall>h' \<in> set hits. h_id h' = h_id h \<longrightarrow> h_score h' \<le> h_score h}"

lemma best_scores_hits:
  defines "L \<equiv> \<lambda>hits. map (\<lambda>(i, s). \<lparr>h_id = i, h_score = s\<rparr>) (best_scores real_arith hits)"
  shows "set (L hits) = best_of hits" "distinct (map h_id (L hits))" "h_id ` set (L hits) = h_id ` set hits"
proof -
  note m = map_of_best_scores[of hits]
  then have d: "distinct (map fst (best_scores real_arith hits))" by (simp add: bt_ok_distinct)
  have ids: "map h_id (L hits) = map fst (best_scores real_arith hits)" by (simp add: L_def split_beta)
  with d show "distinct (map h_id (L hits))" by simp
  have mem: "(i, s) \<in> set (best_scores real_arith hits) \<longleftrightarrow> scores_of hits i \<noteq> {} \<and> s = Max (scores_of hits i)" for i s
    using m[of i] map_of_eq_Some_iff[OF d, of i s] by (metis option.inject option.distinct(1))
  have max: "h \<in> best_of hits \<longleftrightarrow> h \<in> set hits \<and> h_score h = Max (scores_of hits (h_id h))" for h
  proof -
    have "(Max (scores_of hits (h_id h)) = h_score h) =
        (\<forall>x \<in> set hits. h_id x = h_id h \<longrightarrow> h_score x \<le> h_score h)" if "h \<in> set hits"
      using Max_eq_iff[OF finite_scores_of, of hits "h_id h" "h_score h"] that by (auto simp: scores_of_def)
    then show ?thesis unfolding best_of_def mem_Collect_eq by argo
  qed
  show "set (L hits) = best_of hits"
  proof
    show "set (L hits) \<subseteq> best_of hits"
    proof
      fix x assume "x \<in> set (L hits)"
      then obtain i s where x: "x = \<lparr>h_id = i, h_score = s\<rparr>" "(i, s) \<in> set (best_scores real_arith hits)"
        by (auto simp: L_def)
      then have s: "s = Max (scores_of hits i)" "scores_of hits i \<noteq> {}" using mem by auto
      have "s \<in> scores_of hits i" unfolding s(1) using s(2) by (rule Max_in[OF finite_scores_of])
      then obtain h where h: "h \<in> set hits" "h_id h = i" "h_score h = s" by (auto simp: scores_of_def)
      then have "x = h" using x(1) by auto
      with h(1) have "x \<in> set hits" by simp
      with x s show "x \<in> best_of hits" by (simp add: max)
    qed
    show "best_of hits \<subseteq> set (L hits)"
    proof
      fix x assume "x \<in> best_of hits"
      then have "(h_id x, h_score x) \<in> set (best_scores real_arith hits)" using max mem by (auto simp: scores_of_def)
      then show "x \<in> set (L hits)" by (force simp: L_def image_iff)
    qed
  qed
  have "h_id ` set (L hits) = fst ` set (best_scores real_arith hits)" by (simp flip: set_map add: ids)
  also have "\<dots> = h_id ` set hits" using mem by (force simp: scores_of_def)
  finally show "h_id ` set (L hits) = h_id ` set hits" .
qed

text \<open>Merging the hits of several sources keeps each id once, at its best score, and returns the
  \<open>k\<close> best ids in order: what is returned is sorted by descending score and ascending id, and every
  id left out ranks after everything returned.\<close>
theorem merge_hits_correct:
  fixes sources :: "real hit list list"
  shows "distinct (map h_id (merge_hits real_arith sources k))
   \<and> length (merge_hits real_arith sources k) = min k (card (h_id ` set (concat sources)))
   \<and> sorted_wrt (hit_le real_arith) (merge_hits real_arith sources k)
   \<and> set (merge_hits real_arith sources k) \<subseteq> best_of (concat sources)
   \<and> (\<forall>h \<in> set (merge_hits real_arith sources k). \<forall>b \<in> best_of (concat sources) - set (merge_hits real_arith sources k).
        hit_le real_arith h b)"
proof -
  define L where "L = map (\<lambda>(i, s). \<lparr>h_id = i, h_score = s\<rparr>) (best_scores real_arith (concat sources))"
  define R where "R = sort_by (hit_le real_arith) L"
  have L: "set L = best_of (concat sources)" "distinct (map h_id L)" "h_id ` set L = h_id ` set (concat sources)"
    unfolding L_def by (rule best_scores_hits)+
  have R: "set R = set L" "length R = length L" by (simp_all add: R_def)
  have mg: "merge_hits real_arith sources k = take k R"
    by (simp add: merge_hits_def sort_hits_def R_def L_def)
  have "mset (map h_id R) = mset (map h_id L)" by (simp add: R_def)
  then have dR: "distinct (map h_id R)" using L(2) mset_eq_imp_distinct_iff by blast
  then have "distinct (map h_id (take k R))" by (simp add: take_map[symmetric] distinct_take)
  moreover have "length L = card (h_id ` set (concat sources))"
    using distinct_card[OF L(2)] L(3) by simp
  then have "length (take k R) = min k (card (h_id ` set (concat sources)))" using R(2) by simp
  moreover have "sorted_wrt (hit_le real_arith) (take k R)"
    unfolding R_def by (rule sorted_wrt_take[OF hit_rank.sorted_sort_by])
  moreover have "set (take k R) \<subseteq> best_of (concat sources)" using L(1) R(1) set_take_subset by fastforce
  moreover have "hit_le real_arith h b" if "h \<in> set (take k R)" "b \<in> best_of (concat sources) - set (take k R)" for h b
  proof -
    have "b \<in> set (drop k R)" using that L(1) R(1) by (metis Diff_iff Un_iff append_take_drop_id set_append)
    with that(1) show ?thesis unfolding R_def by (rule hit_rank.top_k_best)
  qed
  ultimately show ?thesis unfolding mg by blast
qed

theorem merge_hits_correct_witness:
  "length (merge_hits real_arith [[\<lparr>h_id = MemoryId [1], h_score = 1 / 2\<rparr>], [\<lparr>h_id = MemoryId [1], h_score = 9 / 10\<rparr>]] 10) = 1"
  using merge_hits_correct[of "[[\<lparr>h_id = MemoryId [1], h_score = 1 / 2\<rparr>], [\<lparr>h_id = MemoryId [1], h_score = 9 / 10\<rparr>]]" 10] by simp

end
