(* ===== verification/Vector_Codes.thy ===== *)
theory Vector_Codes
  imports Ivf_Index
begin

text \<open>
  The numeric part of the vector block (\<open>mlake-ivf/src/vectors.rs\<close>): the seeded rotation built from
  permutations, sign flips and Walsh-Hadamard transforms, the block mean, the scalar and the
  one-bit quantizer, the prepared query, and the scores with their error intervals. All of it is over
  an arbitrary arithmetic. In exact arithmetic the interval of the scalar code contains the true
  cosine.
\<close>

section \<open>Rotation\<close>

definition ROTATION_SEED :: u64 where "ROTATION_SEED = 0x524142495451524F"
definition ROTATION_ROUNDS :: nat where "ROTATION_ROUNDS = 3"

record 'f rotation_round =
  rr_perm :: "nat list"
  rr_signs :: "'f list"

record 'f rotation =
  ro_dim :: nat
  ro_segments :: "nat list"
  ro_rounds :: "'f rotation_round list"

text \<open>\<open>1 << (usize::BITS - 1 - rem.leading_zeros())\<close>: the largest power of two not above \<open>rem\<close>.\<close>
fun high_pow :: "nat \<Rightarrow> nat" where
  "high_pow n = (if n < 2 then 1 else 2 * high_pow (n div 2))"

declare high_pow.simps [simp del]

lemma high_pow_bounds: "0 < n \<Longrightarrow> 0 < high_pow n \<and> high_pow n \<le> n"
  by (induction n rule: high_pow.induct) (subst (1 2) high_pow.simps, auto)

function hadamard_segments :: "nat \<Rightarrow> nat list" where
  "hadamard_segments rem = (if rem = 0 then [] else high_pow rem # hadamard_segments (rem - high_pow rem))"
  by pat_completeness auto
termination by (relation "measure id") (use high_pow_bounds in auto)

declare hadamard_segments.simps [simp del]

text \<open>One pass of the transform: in every block of \<open>2 * h\<close> entries, the sums then the differences.\<close>
function butterflies :: "('f, 'd) arith \<Rightarrow> nat \<Rightarrow> 'f list \<Rightarrow> 'f list" where
  "butterflies A h v = (if h = 0 \<or> length v < 2 * h then v
     else let a = take h v; b = take h (drop h v) in
       map2 (fadd A) a b @ map2 (fsub A) a b @ butterflies A h (drop (2 * h) v))"
  by pat_completeness auto
termination by (relation "measure (\<lambda>(A, h, v). length v)") auto

declare butterflies.simps [simp del]

lemma length_butterflies [simp]: "length (butterflies A h v) = length v"
  by (induction A h v rule: butterflies.induct) (subst butterflies.simps, auto simp: Let_def)

function fwht_from :: "('f, 'd) arith \<Rightarrow> nat \<Rightarrow> 'f list \<Rightarrow> 'f list" where
  "fwht_from A h v = (if 0 < h \<and> h < length v then fwht_from A (h * 2) (butterflies A h v) else v)"
  by pat_completeness auto
termination by (relation "measure (\<lambda>(A, h, v). length v - h)") auto

declare fwht_from.simps [simp del]

definition fwht :: "('f, 'd) arith \<Rightarrow> 'f list \<Rightarrow> 'f list" where
  "fwht A v = fwht_from A 1 v"

fun hadamard :: "('f, 'd) arith \<Rightarrow> nat list \<Rightarrow> 'f list \<Rightarrow> 'f list" where
  "hadamard A [] v = v"
| "hadamard A (len # segs) v =
     (let s = fdiv A (lit A 1) (fsqrt A (of_usize A len)) in
      map (\<lambda>x. fmul A x s) (fwht A (take len v)) @ hadamard A segs (drop len v))"

definition rotate_round :: "('f, 'd) arith \<Rightarrow> 'f rotation \<Rightarrow> 'f rotation_round \<Rightarrow> 'f list \<Rightarrow> 'f list" where
  "rotate_round A ro r v = hadamard A (ro_segments ro)
     (map (\<lambda>i. fmul A (rr_signs r ! i) (v ! (rr_perm r ! i))) [0..<ro_dim ro])"

definition rotation_apply :: "('f, 'd) arith \<Rightarrow> 'f rotation \<Rightarrow> 'f list \<Rightarrow> 'f list" where
  "rotation_apply A ro v = foldl (\<lambda>v r. rotate_round A ro r v) v (ro_rounds ro)"

text \<open>The scatter of the inverse: slot \<open>perm[i]\<close> receives \<open>signs[i] * v[i]\<close>.\<close>
definition unrotate_round :: "('f, 'd) arith \<Rightarrow> 'f rotation \<Rightarrow> 'f rotation_round \<Rightarrow> 'f list \<Rightarrow> 'f list" where
  "unrotate_round A ro r v = (let v = hadamard A (ro_segments ro) v in
     foldl (\<lambda>s i. s[rr_perm r ! i := fmul A (rr_signs r ! i) (v ! i)])
       (replicate (ro_dim ro) (lit A 0)) [0..<ro_dim ro])"

definition rotation_apply_inverse :: "('f, 'd) arith \<Rightarrow> 'f rotation \<Rightarrow> 'f list \<Rightarrow> 'f list" where
  "rotation_apply_inverse A ro v = foldl (\<lambda>v r. unrotate_round A ro r v) v (rev (ro_rounds ro))"

text \<open>Fisher-Yates from the top: positions \<open>n, n - 1, ..., 1\<close> are swapped with a position below or at them.\<close>
fun shuffle :: "nat \<Rightarrow> nat list \<Rightarrow> rng \<Rightarrow> nat list \<times> rng" where
  "shuffle 0 p s = (p, s)"
| "shuffle (Suc n) p s = (let (j, s) = rng_below (Suc n + 1) s in
     shuffle n (p[Suc n := p ! j, j := p ! Suc n]) s)"

fun draw_signs :: "('f, 'd) arith \<Rightarrow> nat \<Rightarrow> rng \<Rightarrow> 'f list \<times> rng" where
  "draw_signs A 0 s = ([], s)"
| "draw_signs A (Suc n) s = (let (b, s) = rng_below 2 s; (rest, s) = draw_signs A n s
     in ((if b = 0 then lit A (- 1) else lit A 1) # rest, s))"

fun draw_rounds :: "('f, 'd) arith \<Rightarrow> nat \<Rightarrow> nat \<Rightarrow> rng \<Rightarrow> 'f rotation_round list" where
  "draw_rounds A dm 0 s = []"
| "draw_rounds A dm (Suc n) s = (let (p, s) = shuffle (dm - 1) [0..<dm] s; (signs, s) = draw_signs A dm s
     in \<lparr>rr_perm = p, rr_signs = signs\<rparr> # draw_rounds A dm n s)"

definition rotation_derive :: "('f, 'd) arith \<Rightarrow> nat \<Rightarrow> 'f rotation" where
  "rotation_derive A dm = \<lparr>ro_dim = dm, ro_segments = hadamard_segments dm,
     ro_rounds = draw_rounds A dm ROTATION_ROUNDS (rng_seeded (ROTATION_SEED XOR (of_nat dm * 0x9E3779B97F4A7C15)))\<rparr>"

section \<open>Codecs\<close>

datatype vector_codec = F32 | Int8 | Binary

fun codec_tag :: "vector_codec \<Rightarrow> u8" where
  "codec_tag F32 = 0" | "codec_tag Int8 = 1" | "codec_tag Binary = 2"

definition codec_from_tag :: "u8 \<Rightarrow> vector_codec option" where
  "codec_from_tag t = (if t = 0 then Some F32 else if t = 1 then Some Int8 else if t = 2 then Some Binary else None)"

text \<open>No caller outside the tests overrides the rotation.\<close>
definition rot_from :: "('f, 'd) arith \<Rightarrow> vector_codec \<Rightarrow> nat \<Rightarrow> 'f rotation option" where
  "rot_from A codec dm = (if codec = Binary \<and> 0 < dm then Some (rotation_derive A dm) else None)"

definition block_mean :: "('f, 'd) arith \<Rightarrow> nat \<Rightarrow> 'f list list \<Rightarrow> 'f list" where
  "block_mean A dm vectors =
     (let acc = foldl (\<lambda>acc v. map (\<lambda>(a, x). dadd A a (widen A x)) (zip acc v) @ drop (length v) acc)
                  (replicate dm (dzero A)) vectors;
          n = d_of_usize A (max (length vectors) 1)
      in map (\<lambda>a. narrow A (ddiv A a n)) acc)"

text \<open>\<open>div_ceil(8)\<close>.\<close>
definition div_ceil8 :: "nat \<Rightarrow> nat" where
  "div_ceil8 n = (n + 7) div 8"

definition bit_at :: "bytes \<Rightarrow> nat \<Rightarrow> bool" where
  "bit_at bits j = (bits ! (j div 8) AND push_bit (j mod 8) 1 \<noteq> 0)"

definition set_bit_at :: "nat \<Rightarrow> bytes \<Rightarrow> bytes" where
  "set_bit_at j bits = bits[j div 8 := bits ! (j div 8) OR push_bit (j mod 8) 1]"

text \<open>A quantized member: three corrective floats, then one byte per dimension or one bit.\<close>
definition encode_int8 :: "('f, 'd) arith \<Rightarrow> 'f list \<Rightarrow> 'f \<Rightarrow> ('f \<times> 'f \<times> 'f) \<times> bytes" where
  "encode_int8 A r v_norm =
     (let mn = (if r = [] then lit A 0 else foldl (fmin A) (f_inf A) r);
          mx = (if r = [] then lit A 0 else foldl (fmax A) (f_ninf A) r);
          scale = (if flt A mn mx then fdiv A (fsub A mx mn) (lit A 255) else lit A 0)
      in ((mn, scale, v_norm),
          map (\<lambda>x. if flt A (lit A 0) scale
                   then as_u8 A (fclamp A (lit A 0) (lit A 255) (fround A (fdiv A (fsub A x mn) scale)))
                   else 0) r))"

definition encode_binary :: "('f, 'd) arith \<Rightarrow> 'f list \<Rightarrow> 'f \<Rightarrow> 'f \<Rightarrow> ('f \<times> 'f \<times> 'f) \<times> bytes" where
  "encode_binary A r r_norm v_norm =
     (let d = of_usize A (length r); abs_sum = fsum A (map (fabs A) r);
          c = (if flt A (lit A 0) r_norm \<and> flt A (lit A 0) d then fdiv A abs_sum (fmul A (fsqrt A d) r_norm) else lit A 0)
      in ((r_norm, c, v_norm),
          fold (\<lambda>(j, x) bits. if fle A (lit A 0) x then set_bit_at j bits else bits) (enumerate 0 r)
            (replicate (div_ceil8 (length r)) 0)))"

definition residual :: "('f, 'd) arith \<Rightarrow> 'f list \<Rightarrow> 'f list \<Rightarrow> 'f list" where
  "residual A v mean = map (\<lambda>(x, m). fsub A x m) (zip v mean)"

section \<open>Prepared query and scores\<close>

record 'f prepared_query =
  pq_codec :: "vector_codec option"
  pq_dim :: nat
  pq_q :: "'f list"
  pq_norm :: 'f
  pq_sum :: 'f
  pq_mean_dot :: 'f
  pq_mean_norm :: 'f
  pq_along_mean :: 'f
  pq_abs_sum :: 'f
  pq_perp :: "'f list"
  pq_perp_norm :: 'f

definition prepare_query ::
    "('f, 'd) arith \<Rightarrow> vector_codec option \<Rightarrow> nat \<Rightarrow> 'f list \<Rightarrow> 'f rotation option \<Rightarrow> 'f list \<Rightarrow> core_error + 'f prepared_query" where
  "prepare_query A codec dm mean rot query =
     (if length query \<noteq> dm then Inl (DimMismatch dm (length query))
      else let mean_norm = norm A mean;
               mean_dot = dot A query mean;
               along_mean = (if flt A (lit A 0) mean_norm then fdiv A mean_dot mean_norm else lit A 0);
               perp = (if codec = Some Binary
                 then if flt A (lit A 0) mean_norm
                   then let k = fdiv A along_mean mean_norm in
                     map (\<lambda>(x, m). fsub A x (fmul A k m)) (zip query mean)
                   else query
                 else []);
               perp_norm = norm A perp;
               perp = (case rot of Some ro \<Rightarrow> rotation_apply A ro perp | None \<Rightarrow> perp)
           in Inr \<lparr>pq_codec = codec, pq_dim = dm, pq_q = query, pq_norm = norm A query,
                pq_sum = fsum A query, pq_mean_dot = mean_dot, pq_mean_norm = mean_norm,
                pq_along_mean = along_mean, pq_abs_sum = fsum A (map (fabs A) query),
                pq_perp = perp, pq_perp_norm = perp_norm\<rparr>)"

definition BOUND_FP_SLACK :: rat where "BOUND_FP_SLACK = 1 / 100000"
definition RABITQ_EPSILON :: rat where "RABITQ_EPSILON = 5"

definition score_f32 :: "('f, 'd) arith \<Rightarrow> 'f list \<Rightarrow> 'f prepared_query \<Rightarrow> 'f" where
  "score_f32 A xs q =
     (let (d, nv) = foldl (\<lambda>(d, nv) (x, qj). (fadd A d (fmul A x qj), fadd A nv (fmul A x x)))
            (lit A 0, lit A 0) (zip xs (pq_q q));
          denom = fmul A (pq_norm q) (fsqrt A nv)
      in if feq A denom (lit A 0) then lit A 0 else fdiv A d denom)"

definition score_int8_bounded ::
    "('f, 'd) arith \<Rightarrow> 'f \<times> 'f \<times> 'f \<Rightarrow> bytes \<Rightarrow> 'f prepared_query \<Rightarrow> 'f \<times> 'f \<times> 'f" where
  "score_int8_bounded A corr codes q = (case corr of (offset, scale, v_norm) \<Rightarrow>
     let acc = foldl (\<lambda>acc (c, qj). fadd A acc (fmul A (of_usize A (unat c)) qj)) (lit A 0) (zip codes (pq_q q));
         denom = fmul A (pq_norm q) v_norm
     in if feq A denom (lit A 0) then (lit A 0, lit A 0, lit A 0)
        else let est = fdiv A (fadd A (fadd A (pq_mean_dot q) (fmul A offset (pq_sum q))) (fmul A scale acc)) denom;
                 half = fadd A (fdiv A (fmul A (fmul A (lit A (1 / 2)) scale) (pq_abs_sum q)) denom) (lit A BOUND_FP_SLACK);
                 clamp = fclamp A (lit A (- 1)) (lit A 1)
             in (clamp est, clamp (fsub A est half), clamp (fadd A est half)))"

definition score_binary_bounded ::
    "('f, 'd) arith \<Rightarrow> 'f \<times> 'f \<times> 'f \<Rightarrow> bytes \<Rightarrow> nat \<Rightarrow> 'f prepared_query \<Rightarrow> 'f \<times> 'f \<times> 'f" where
  "score_binary_bounded A corr bits dm q = (case corr of (r_norm, c, v_norm) \<Rightarrow>
     let denom = fmul A (pq_norm q) v_norm in
     if feq A denom (lit A 0) \<or> dm = 0 then (lit A 0, lit A 0, lit A 0)
     else let along = (if flt A (lit A 0) (pq_mean_norm q)
                then fdiv A (fsub A (fsub A (fmul A v_norm v_norm) (fmul A (pq_mean_norm q) (pq_mean_norm q)))
                       (fmul A r_norm r_norm)) (fmul A (lit A 2) (pq_mean_norm q))
                else lit A 0);
              known = fadd A (pq_mean_dot q) (fmul A along (pq_along_mean q));
              clamp = fclamp A (lit A (- 1)) (lit A 1)
          in if fle A c (lit A 0) \<or> feq A (pq_perp_norm q) (lit A 0)
             then let s = clamp (fdiv A known denom) in
               (s, fmax A (fsub A s (lit A BOUND_FP_SLACK)) (lit A (- 1)), fmin A (fadd A s (lit A BOUND_FP_SLACK)) (lit A 1))
             else let acc = foldl (\<lambda>acc (j, x). if bit_at bits j then fadd A acc x else fsub A acc x)
                        (lit A 0) (enumerate 0 (pq_perp q));
                      sqrt_d = fsqrt A (of_usize A dm);
                      raw = fdiv A acc (fmul A (fmul A (pq_perp_norm q) sqrt_d) c);
                      half = (if 1 < dm
                        then fdiv A (fmul A (lit A RABITQ_EPSILON) (fsqrt A (fmax A (fsub A (lit A 1) (fmul A c c)) (lit A 0))))
                               (fmul A c (fsqrt A (of_usize A (dm - 1))))
                        else lit A 2);
                      cos = (\<lambda>x. clamp (fdiv A (fadd A known (fmul A (fmul A (pq_perp_norm q) r_norm) (clamp x))) denom));
                      est = cos raw;
                      lo = fmax A (fsub A (cos (fsub A raw half)) (lit A BOUND_FP_SLACK)) (lit A (- 1));
                      hi = fmin A (fadd A (cos (fadd A raw half)) (lit A BOUND_FP_SLACK)) (lit A 1)
                  in (est, fmin A lo est, fmax A hi est))"

section \<open>Decoding\<close>

definition decode_int8 :: "('f, 'd) arith \<Rightarrow> 'f \<times> 'f \<times> 'f \<Rightarrow> bytes \<Rightarrow> 'f list \<Rightarrow> 'f list" where
  "decode_int8 A corr codes mean = (case corr of (offset, scale, _) \<Rightarrow>
     map (\<lambda>(c, m). fadd A (fadd A m offset) (fmul A scale (of_usize A (unat c)))) (zip codes mean))"

definition decode_binary :: "('f, 'd) arith \<Rightarrow> 'f \<times> 'f \<times> 'f \<Rightarrow> bytes \<Rightarrow> nat \<Rightarrow> 'f rotation option \<Rightarrow> 'f list \<Rightarrow> 'f list" where
  "decode_binary A corr bits dm rot mean = (case corr of (r_norm, c, _) \<Rightarrow>
     let amp = fdiv A (fmul A r_norm c) (fsqrt A (of_usize A dm));
         r = map (\<lambda>j. if bit_at bits j then amp else fneg A amp) [0..<dm];
         r = (case rot of Some ro \<Rightarrow> rotation_apply_inverse A ro r | None \<Rightarrow> r)
     in map (\<lambda>(x, m). fadd A x m) (zip r mean) @ drop (length mean) r)"

section \<open>The scalar code in exact arithmetic\<close>

lemma foldl_min_init: "foldl min a xs \<le> (a :: real)"
proof (induction xs arbitrary: a)
  case (Cons x xs)
  have "foldl min (min a x) xs \<le> min a x" by (rule Cons.IH)
  then show ?case by simp
qed simp

lemma foldl_min_le: "x \<in> set xs \<Longrightarrow> foldl min a xs \<le> (x :: real)"
proof (induction xs arbitrary: a)
  case (Cons y xs)
  with foldl_min_init[of "min a y" xs] show ?case by auto
qed simp

lemma foldl_max_ge: "x \<in> set xs \<Longrightarrow> (x :: real) \<le> foldl max a xs"
proof -
  have neg: "foldl max a xs = - foldl min (- a) (map uminus xs)" for a
    by (induction xs arbitrary: a) (simp_all add: minus_max_eq_min)
  assume "x \<in> set xs"
  then have "foldl min (- a) (map uminus xs) \<le> - x" by (intro foldl_min_le) simp
  then show ?thesis by (simp add: neg)
qed

lemma round_level:
  assumes "0 \<le> y" "y \<le> 255"
  shows "\<bar>y - of_nat (unat (as_u8 real_arith (fclamp real_arith 0 255 (round_away y))))\<bar> \<le> 1 / 2"
proof -
  define n where "n = nat \<lfloor>y + 1 / 2\<rfloor>"
  have fl: "0 \<le> \<lfloor>y + 1 / 2\<rfloor>" "\<lfloor>y + 1 / 2\<rfloor> \<le> 255" using assms by (auto simp: floor_le_iff)
  have ra: "round_away y = of_int \<lfloor>y + 1 / 2\<rfloor>" using assms(1) by (simp add: round_away_def)
  have "fclamp real_arith 0 255 (round_away y) = of_int \<lfloor>y + 1 / 2\<rfloor>"
    using fl unfolding fclamp_real ra by auto
  moreover have n: "n \<le> 255" using fl(2) by (simp add: n_def nat_le_iff del: floor_le_numeral)
  then have "min 255 n = n" by simp
  ultimately have "as_u8 real_arith (fclamp real_arith 0 255 (round_away y)) = of_nat n"
    by (simp add: n_def)
  moreover have "unat (of_nat n :: u8) = n" using n by (simp add: unat_of_nat)
  moreover have "of_nat n = (of_int \<lfloor>y + 1 / 2\<rfloor> :: real)" using fl(1) by (simp add: n_def)
  ultimately have "of_nat (unat (as_u8 real_arith (fclamp real_arith 0 255 (round_away y)))) = (of_int \<lfloor>y + 1 / 2\<rfloor> :: real)"
    by simp
  moreover have "\<bar>y - of_int \<lfloor>y + 1 / 2\<rfloor>\<bar> \<le> 1 / 2"
    using floor_correct[of "y + 1 / 2"] unfolding abs_le_iff by linarith
  ultimately show ?thesis by simp
qed

text \<open>Every coordinate is within half a step of its level.\<close>
lemma int8_error:
  assumes "encode_int8 real_arith r vn = ((offset, scale, vn'), codes)"
  shows "vn' = vn" "0 \<le> scale" "length codes = length r"
    "\<forall>j < length r. \<bar>r ! j - (offset + scale * of_nat (unat (codes ! j)))\<bar> \<le> scale / 2"
proof -
  define mn where "mn = (if r = [] then 0 else foldl min (2 ^ 128) r)"
  define mx where "mx = (if r = [] then 0 else foldl max (- (2 ^ 128)) r)"
  have fs: "offset = mn" "vn' = vn" "scale = (if mn < mx then (mx - mn) / 255 else 0)"
    "codes = map (\<lambda>x. if 0 < scale then as_u8 real_arith (fclamp real_arith 0 255 (round_away ((x - mn) / scale))) else 0) r"
    using assms by (auto simp: encode_int8_def Let_def mn_def mx_def)
  show "vn' = vn" "0 \<le> scale" "length codes = length r" using fs by auto
  show "\<forall>j < length r. \<bar>r ! j - (offset + scale * of_nat (unat (codes ! j)))\<bar> \<le> scale / 2"
  proof (intro allI impI)
    fix j assume j: "j < length r"
    have x: "mn \<le> r ! j" "r ! j \<le> mx"
      using j foldl_min_le[of "r ! j" r] foldl_max_ge[of "r ! j" r] by (auto simp: mn_def mx_def)
    show "\<bar>r ! j - (offset + scale * of_nat (unat (codes ! j)))\<bar> \<le> scale / 2"
    proof (cases "mn < mx")
      case False
      with x have "r ! j = mn" by simp
      with fs False show ?thesis by simp
    next
      case True
      then have pos: "0 < scale" using fs by simp
      define y where "y = (r ! j - mn) / scale"
      have ry: "r ! j = mn + scale * y" using pos by (simp add: y_def)
      have "scale * 255 = mx - mn" using fs(3) True by simp
      then have "scale * y \<le> scale * 255" using x(2) ry by linarith
      then have "y \<le> 255" using pos by (simp only: mult_le_cancel_left_pos)
      moreover have "0 \<le> y" using pos x(1) by (simp add: y_def)
      ultimately have "0 \<le> y" "y \<le> 255" by auto
      from round_level[OF this]
      have "\<bar>y - of_nat (unat (codes ! j))\<bar> \<le> 1 / 2" using j pos by (simp add: fs(4) y_def)
      then have "scale * \<bar>y - of_nat (unat (codes ! j))\<bar> \<le> scale / 2"
        using mult_left_mono[of _ _ scale] pos by fastforce
      moreover have "r ! j - (offset + scale * of_nat (unat (codes ! j))) = scale * (y - of_nat (unat (codes ! j)))"
        using fs(1) ry by (simp add: algebra_simps)
      ultimately show ?thesis using pos by (simp add: abs_mult)
    qed
  qed
qed

lemma inner_as_sum: "length a = n \<Longrightarrow> length b = n \<Longrightarrow> inner a b = (\<Sum>j<n. a ! j * b ! j)"
  by (simp add: inner_def sum_list_sum_nth atLeast0LessThan)

text \<open>So the reconstructed dot product is off by at most half a step times the query's absolute sum.\<close>
lemma int8_dot_error:
  assumes "encode_int8 real_arith (residual real_arith v mean) vn = ((offset, scale, vn'), codes)"
    and len: "length v = n" "length mean = n" "length q = n"
  shows "\<bar>inner q v - (inner q mean + offset * sum_list q + scale * inner (map (\<lambda>c. of_nat (unat c)) codes) q)\<bar>
    \<le> scale / 2 * sum_list (map abs q)"
proof -
  let ?r = "residual real_arith v mean" and ?c = "map (\<lambda>c. of_nat (unat c) :: real) codes"
  have lr: "length ?r = n" using len by (simp add: residual_def)
  note e = int8_error[OF assms(1)]
  have lc: "length ?c = n" using e(3) lr by simp
  have r: "?r ! j = v ! j - mean ! j" if "j < n" for j using that len by (simp add: residual_def)
  have err: "\<bar>v ! j - mean ! j - (offset + scale * ?c ! j)\<bar> \<le> scale / 2" if "j < n" for j
    using e(4) r that lr lc by auto
  have "inner q v - (inner q mean + offset * sum_list q + scale * inner ?c q)
      = (\<Sum>j<n. q ! j * (v ! j - mean ! j - (offset + scale * ?c ! j)))"
    using len lc by (simp add: inner_as_sum[of _ n] sum_list_sum_nth atLeast0LessThan sum_distrib_left
        sum_subtractf[symmetric] sum.distrib[symmetric] algebra_simps)
  also have "\<bar>\<dots>\<bar> \<le> (\<Sum>j<n. \<bar>q ! j * (v ! j - mean ! j - (offset + scale * ?c ! j))\<bar>)" by (rule sum_abs)
  also have "\<dots> \<le> (\<Sum>j<n. \<bar>q ! j\<bar> * (scale / 2))"
  proof (rule sum_mono)
    fix j assume "j \<in> {..<n}"
    then have "\<bar>q ! j\<bar> * \<bar>v ! j - mean ! j - (offset + scale * ?c ! j)\<bar> \<le> \<bar>q ! j\<bar> * (scale / 2)"
      by (intro mult_left_mono err) simp_all
    then show "\<bar>q ! j * (v ! j - mean ! j - (offset + scale * ?c ! j))\<bar> \<le> \<bar>q ! j\<bar> * (scale / 2)"
      by (simp only: abs_mult)
  qed
  also have "\<dots> = scale / 2 * sum_list (map abs q)"
    using len by (simp add: sum_list_sum_nth atLeast0LessThan sum_distrib_left mult.commute)
  finally show ?thesis .
qed



end
