(* ===== verification/Rotation.thy ===== *)
theory Rotation
  imports Vector_Codes
begin

text \<open>
  The rotation of \<open>mlake-ivf/src/vectors.rs\<close> in exact arithmetic. The Walsh-Hadamard loop is related to
  its recursive form on the two halves; from there the transform is linear, multiplies inner
  products by its length and is its own inverse up to that factor. Permutation and sign flips
  preserve inner products as well, so the composed map is orthogonal and \<open>apply_inverse\<close> inverts it.
\<close>

abbreviation vadd :: "real list \<Rightarrow> real list \<Rightarrow> real list" where "vadd a b \<equiv> map2 (+) a b"
abbreviation vsub :: "real list \<Rightarrow> real list \<Rightarrow> real list" where "vsub a b \<equiv> map2 (-) a b"
abbreviation vscale :: "real \<Rightarrow> real list \<Rightarrow> real list" where "vscale s a \<equiv> map (\<lambda>x. x * s) a"

section \<open>The transform on two halves\<close>

lemma butterflies_step:
  "0 < h \<Longrightarrow> length a = h \<Longrightarrow> length b = h \<Longrightarrow>
     butterflies real_arith h (a @ b @ v) = vadd a b @ vsub a b @ butterflies real_arith h v"
  by (subst butterflies.simps) (simp add: Let_def)

lemma butterflies_append:
  "0 < h \<Longrightarrow> length xs = k * (2 * h) \<Longrightarrow>
     butterflies real_arith h (xs @ ys) = butterflies real_arith h xs @ butterflies real_arith h ys"
proof (induction k arbitrary: xs)
  case 0
  have "butterflies real_arith h [] = []" by (subst butterflies.simps) auto
  with 0 show ?case by simp
next
  case (Suc k)
  define a b v where "a = take h xs" and "b = take h (drop h xs)" and "v = drop (2 * h) xs"
  have xs: "xs = a @ b @ v" by (simp add: a_def b_def v_def mult_2 flip: drop_drop)
  have "length a = h" "length b = h" "length v = k * (2 * h)" using Suc.prems by (auto simp: a_def b_def v_def)
  with Suc butterflies_step[of h a b] show ?case by (simp add: xs)
qed

lemma fwht_from_halves:
  assumes "length xs = 2 ^ n" "length ys = 2 ^ n" "m \<le> n"
  shows "fwht_from real_arith (2 ^ m) (xs @ ys) =
    (let a = fwht_from real_arith (2 ^ m) xs; b = fwht_from real_arith (2 ^ m) ys in vadd a b @ vsub a b)"
  using assms
proof (induction "n - m" arbitrary: m xs ys)
  case 0
  then have m: "m = n" by simp
  have stop: "length v = 2 ^ n \<Longrightarrow> fwht_from real_arith (2 ^ n) v = v" for v by (subst fwht_from.simps) simp
  have "butterflies real_arith (2 ^ n) [] = []" by (subst butterflies.simps) simp
  then have bf: "butterflies real_arith (2 ^ n) (xs @ ys) = vadd xs ys @ vsub xs ys"
    using butterflies_step[of "2 ^ n" xs ys "[]"] 0 by simp
  have "fwht_from real_arith (2 ^ n) (xs @ ys) = fwht_from real_arith (2 ^ n * 2) (vadd xs ys @ vsub xs ys)"
    using 0 bf by (subst fwht_from.simps) simp
  also have "\<dots> = vadd xs ys @ vsub xs ys" using 0 by (subst fwht_from.simps) simp
  finally show ?case using m 0 stop by (simp add: Let_def)
next
  case (Suc d)
  then have mn: "m < n" by simp
  then obtain k where n: "n = Suc m + k" by (metis add_Suc_shift less_iff_Suc_add add_Suc)
  let ?B = "butterflies real_arith (2 ^ m)"
  have k: "length xs = 2 ^ k * (2 * 2 ^ m)" using Suc.prems n by (simp add: power_add)
  have lt: "(2 :: nat) ^ m < 2 ^ n" using mn by simp
  have step: "length v = 2 ^ n \<Longrightarrow> fwht_from real_arith (2 ^ m) v = fwht_from real_arith (2 ^ Suc m) (?B v)" for v
    using lt by (subst fwht_from.simps) (simp add: mult.commute)
  have "fwht_from real_arith (2 ^ m) (xs @ ys) = fwht_from real_arith (2 ^ Suc m) (?B xs @ ?B ys)"
    using lt Suc.prems(1,2) butterflies_append[OF _ k, of ys]
    by (subst fwht_from.simps) (simp add: mult.commute trans_less_add1)
  also have "\<dots> = (let a = fwht_from real_arith (2 ^ Suc m) (?B xs); b = fwht_from real_arith (2 ^ Suc m) (?B ys) in vadd a b @ vsub a b)"
    by (rule Suc.hyps(1)) (use Suc.prems Suc.hyps(2) mn in auto)
  finally show ?case using Suc.prems step by simp
qed

lemma fwht_halves:
  "length xs = 2 ^ n \<Longrightarrow> length ys = 2 ^ n \<Longrightarrow>
     fwht real_arith (xs @ ys) = vadd (fwht real_arith xs) (fwht real_arith ys) @ vsub (fwht real_arith xs) (fwht real_arith ys)"
  using fwht_from_halves[of xs n ys 0] by (simp add: fwht_def Let_def)

lemma fwht_single [simp]: "fwht real_arith [x] = [x]"
  unfolding fwht_def by (subst fwht_from.simps) simp

lemma length_fwht [simp]: "length (fwht A v) = length v"
proof -
  have "length (fwht_from A h v) = length v" for h
    by (induction A h v rule: fwht_from.induct) (subst fwht_from.simps, simp)
  then show ?thesis by (simp add: fwht_def)
qed

text \<open>Splitting a vector of length \<open>2 ^ Suc n\<close> in the middle.\<close>
lemma halvesE:
  assumes "length v = 2 ^ Suc n"
  obtains xs ys where "v = xs @ ys" "length xs = 2 ^ n" "length ys = 2 ^ n"
  by (rule that[of "take (2 ^ n) v" "drop (2 ^ n) v"]) (use assms in auto)

lemma vadd_append: "length a = length c \<Longrightarrow> vadd (a @ b) (c @ d) = vadd a c @ vadd b d"
  by simp

lemma vadd_interchange:
  "length a = n \<Longrightarrow> length b = n \<Longrightarrow> length c = n \<Longrightarrow> length d = n \<Longrightarrow>
     vadd (vadd a b) (vadd c d) = vadd (vadd a c) (vadd b d)
     \<and> vsub (vadd a b) (vadd c d) = vadd (vsub a c) (vsub b d)"
  by (auto intro!: nth_equalityI)

text \<open>Sum and difference of a sum and a difference.\<close>
lemma vadd_vsub:
  "length a = n \<Longrightarrow> length b = n \<Longrightarrow>
     vadd (vadd a b) (vsub a b) = vscale 2 a \<and> vsub (vadd a b) (vsub a b) = vscale 2 b"
  by (auto intro!: nth_equalityI)

lemma fwht_add:
  "length u = 2 ^ n \<Longrightarrow> length v = 2 ^ n \<Longrightarrow>
     fwht real_arith (vadd u v) = vadd (fwht real_arith u) (fwht real_arith v)"
proof (induction n arbitrary: u v)
  case 0
  then obtain x y where "u = [x]" "v = [y]" by (auto simp: length_Suc_conv)
  then show ?case by simp
next
  case (Suc n)
  from Suc.prems obtain a b where u: "u = a @ b" "length a = 2 ^ n" "length b = 2 ^ n" by (rule_tac halvesE)
  from Suc.prems(2) obtain c d where v: "v = c @ d" "length c = 2 ^ n" "length d = 2 ^ n" by (rule_tac halvesE)
  let ?F = "fwht real_arith"
  have "?F (vadd u v) = vadd (?F (vadd a c)) (?F (vadd b d)) @ vsub (?F (vadd a c)) (?F (vadd b d))"
    using u v by (simp add: fwht_halves[of _ n])
  also have "\<dots> = vadd (vadd (?F a) (?F b)) (vadd (?F c) (?F d)) @ vadd (vsub (?F a) (?F b)) (vsub (?F c) (?F d))"
    using Suc.IH[OF u(2) v(2)] Suc.IH[OF u(3) v(3)] vadd_interchange[of "?F a" "2 ^ n" "?F c" "?F b" "?F d"] u v by simp
  also have "\<dots> = vadd (?F u) (?F v)" using u v by (simp add: fwht_halves[of _ n])
  finally show ?case .
qed

lemma fwht_scale: "length v = 2 ^ n \<Longrightarrow> fwht real_arith (vscale s v) = vscale s (fwht real_arith v)"
proof (induction n arbitrary: v)
  case 0
  then obtain x where "v = [x]" by (auto simp: length_Suc_conv)
  then show ?case by simp
next
  case (Suc n)
  then obtain a b where v: "v = a @ b" "length a = 2 ^ n" "length b = 2 ^ n" by (rule_tac halvesE)
  have "vadd (vscale s x) (vscale s y) = vscale s (vadd x y)" "vsub (vscale s x) (vscale s y) = vscale s (vsub x y)"
    if "length x = length y" for x y
    using that by (auto intro!: nth_equalityI simp: algebra_simps)
  with v Suc.IH show ?case by (simp add: fwht_halves[of _ n])
qed

lemma fwht_sub:
  assumes "length u = 2 ^ n" "length v = 2 ^ n"
  shows "fwht real_arith (vsub u v) = vsub (fwht real_arith u) (fwht real_arith v)"
proof -
  have "vsub x y = vadd x (vscale (- 1) y)" if "length x = length y" for x y
    using that by (auto intro!: nth_equalityI)
  with fwht_add[of u n "vscale (- 1) v"] fwht_scale[of v n "- 1"] assms show ?thesis by simp
qed

text \<open>The unnormalized transform is its own inverse up to its length, and multiplies inner products by it.\<close>
lemma fwht_involution: "length v = 2 ^ n \<Longrightarrow> fwht real_arith (fwht real_arith v) = vscale (2 ^ n) v"
proof (induction n arbitrary: v)
  case 0
  then obtain x where "v = [x]" by (auto simp: length_Suc_conv)
  then show ?case by simp
next
  case (Suc n)
  then obtain a b where v: "v = a @ b" "length a = 2 ^ n" "length b = 2 ^ n" by (rule_tac halvesE)
  let ?F = "fwht real_arith"
  have "?F (?F v) = vadd (?F (vadd (?F a) (?F b))) (?F (vsub (?F a) (?F b)))
      @ vsub (?F (vadd (?F a) (?F b))) (?F (vsub (?F a) (?F b)))"
    using v by (simp add: fwht_halves[of _ n])
  also have "\<dots> = vscale 2 (?F (?F a)) @ vscale 2 (?F (?F b))"
    using v vadd_vsub[of "?F (?F a)" "2 ^ n" "?F (?F b)"] by (simp add: fwht_add[of _ n] fwht_sub[of _ n])
  also have "\<dots> = vscale (2 ^ Suc n) v" using v Suc.IH by (simp add: mult.assoc mult.commute)
  finally show ?case .
qed

lemma inner_vadd_vsub:
  "length a = length b \<Longrightarrow> length c = length a \<Longrightarrow> length d = length a \<Longrightarrow>
     inner (vadd a b) (vadd c d) + inner (vsub a b) (vsub c d) = 2 * (inner a c + inner b d)"
proof (induction a arbitrary: b c d)
  case (Cons x a)
  then obtain y b' z c' w d' where "b = y # b'" "c = z # c'" "d = w # d'" by (metis length_Suc_conv)
  with Cons show ?case by (simp add: algebra_simps)
qed simp

lemma inner_fwht:
  "length u = 2 ^ n \<Longrightarrow> length v = 2 ^ n \<Longrightarrow> inner (fwht real_arith u) (fwht real_arith v) = 2 ^ n * inner u v"
proof (induction n arbitrary: u v)
  case 0
  then obtain x y where "u = [x]" "v = [y]" by (auto simp: length_Suc_conv)
  then show ?case by simp
next
  case (Suc n)
  from Suc.prems obtain a b where u: "u = a @ b" "length a = 2 ^ n" "length b = 2 ^ n" by (rule_tac halvesE)
  from Suc.prems(2) obtain c d where v: "v = c @ d" "length c = 2 ^ n" "length d = 2 ^ n" by (rule_tac halvesE)
  let ?F = "fwht real_arith"
  have "inner (?F u) (?F v) = 2 * (inner (?F a) (?F c) + inner (?F b) (?F d))"
    using u v inner_vadd_vsub[of "?F a" "?F b" "?F c" "?F d"] by (simp add: fwht_halves[of _ n] inner_append)
  also have "\<dots> = 2 ^ Suc n * inner u v"
    using Suc.IH[OF u(2) v(2)] Suc.IH[OF u(3) v(3)] u v by (simp add: inner_append algebra_simps)
  finally show ?case .
qed

section \<open>Segments\<close>

definition pow2s :: "nat list \<Rightarrow> bool" where
  "pow2s segs = (\<forall>l \<in> set segs. \<exists>n. l = 2 ^ n)"

lemma high_pow_pow2: "\<exists>k. high_pow n = 2 ^ k"
proof (induction n rule: high_pow.induct)
  case (1 n)
  show ?case
  proof (cases "n < 2")
    case True
    then have "high_pow n = 2 ^ 0" by (subst high_pow.simps) simp
    then show ?thesis ..
  next
    case False
    with 1 obtain k where "high_pow (n div 2) = 2 ^ k" by blast
    with False have "high_pow n = 2 ^ Suc k" by (subst high_pow.simps) simp
    then show ?thesis ..
  qed
qed

text \<open>The segments of a dimension are powers of two that sum to it.\<close>
lemma hadamard_segments_ok: "pow2s (hadamard_segments n) \<and> sum_list (hadamard_segments n) = n"
proof (induction n rule: hadamard_segments.induct)
  case (1 n)
  show ?case
  proof (cases "n = 0")
    case True then show ?thesis by (subst (1 2) hadamard_segments.simps) (simp add: pow2s_def)
  next
    case False
    then have "high_pow n \<le> n" using high_pow_bounds by simp
    with 1 False high_pow_pow2[of n] show ?thesis
      by (subst (1 2) hadamard_segments.simps) (simp add: pow2s_def)
  qed
qed

lemma length_hadamard: "sum_list segs = length v \<Longrightarrow> length (hadamard real_arith segs v) = length v"
  by (induction segs arbitrary: v) (auto simp: Let_def)

lemma sqrt_pow2: "(1 / sqrt (2 ^ n)) * (1 / sqrt (2 ^ n)) * 2 ^ n = (1 :: real)"
  by (simp add: field_simps flip: real_sqrt_mult)

lemma hadamard_involution:
  "pow2s segs \<Longrightarrow> sum_list segs = length v \<Longrightarrow> hadamard real_arith segs (hadamard real_arith segs v) = v"
proof (induction segs arbitrary: v)
  case (Cons l segs)
  then obtain n where l: "l = 2 ^ n" by (auto simp: pow2s_def)
  define a b s where "a = take l v" and "b = drop l v" and "s = 1 / sqrt (real l)"
  have v: "v = a @ b" "length a = 2 ^ n" "sum_list segs = length b"
    using Cons.prems l by (auto simp: a_def b_def)
  have ss: "2 ^ n * s * s = 1" using sqrt_pow2[of n] by (simp add: s_def l mult.commute mult.left_commute)
  have "vscale s (fwht real_arith (vscale s (fwht real_arith a))) = map (\<lambda>x. x * (2 ^ n * s * s)) a"
    using v(2) by (simp add: fwht_scale[of _ n] fwht_involution[of _ n] comp_def mult.assoc)
  then have "vscale s (fwht real_arith (vscale s (fwht real_arith a))) = a" by (simp add: ss)
  moreover have "hadamard real_arith segs (hadamard real_arith segs b) = b"
    using Cons.IH[of b] Cons.prems v(3) by (simp add: pow2s_def)
  moreover have "hadamard real_arith (l # segs) w = vscale s (fwht real_arith (take l w)) @ hadamard real_arith segs (drop l w)" for w
    by (simp add: s_def)
  note had = this
  have "hadamard real_arith (l # segs) (hadamard real_arith (l # segs) v)
      = vscale s (fwht real_arith (vscale s (fwht real_arith a))) @ hadamard real_arith segs (hadamard real_arith segs b)"
    unfolding had using v(2) l by (simp add: a_def b_def)
  ultimately show ?case using v(1) by simp
qed simp

lemma inner_vscale: "inner (vscale s a) (vscale s b) = s * s * inner a b"
proof (induction a arbitrary: b)
  case (Cons x a) then show ?case by (cases b) (simp_all add: algebra_simps)
qed simp

lemma inner_hadamard:
  "pow2s segs \<Longrightarrow> sum_list segs = length u \<Longrightarrow> length v = length u \<Longrightarrow>
     inner (hadamard real_arith segs u) (hadamard real_arith segs v) = inner u v"
proof (induction segs arbitrary: u v)
  case (Cons l segs)
  then obtain n where l: "l = 2 ^ n" by (auto simp: pow2s_def)
  define s where "s = 1 / sqrt (real l)"
  have ss: "s * s * 2 ^ n = 1" using sqrt_pow2[of n] by (simp add: s_def l)
  have len: "length (take l u) = 2 ^ n" "length (take l v) = 2 ^ n" "sum_list segs = length (drop l u)"
    "length (drop l v) = length (drop l u)"
    using Cons.prems l by auto
  have "inner (hadamard real_arith (l # segs) u) (hadamard real_arith (l # segs) v) =
      inner (vscale s (fwht real_arith (take l u))) (vscale s (fwht real_arith (take l v)))
      + inner (hadamard real_arith segs (drop l u)) (hadamard real_arith segs (drop l v))"
    using len by (simp add: inner_append Let_def s_def)
  also have "\<dots> = inner (take l u) (take l v) + inner (drop l u) (drop l v)"
    using Cons.IH[OF _ len(3,4)] Cons.prems(1) ss inner_fwht[OF len(1,2)]
    by (simp add: inner_vscale pow2s_def flip: mult.assoc)
  also have "\<dots> = inner u v"
    using inner_append[of "take l u" "take l v" "drop l u" "drop l v"] len by simp
  finally show ?case .
qed simp

section \<open>Rounds\<close>

text \<open>A round of dimension \<open>n\<close>: a permutation of the coordinates and a sign for each.\<close>
definition round_ok :: "nat \<Rightarrow> real rotation_round \<Rightarrow> bool" where
  "round_ok n r = (mset (rr_perm r) = mset [0..<n] \<and> length (rr_signs r) = n \<and> (\<forall>s \<in> set (rr_signs r). s * s = 1))"

definition rotation_ok :: "real rotation \<Rightarrow> bool" where
  "rotation_ok ro = (pow2s (ro_segments ro) \<and> sum_list (ro_segments ro) = ro_dim ro
     \<and> (\<forall>r \<in> set (ro_rounds ro). round_ok (ro_dim ro) r))"

lemma round_ok_perm:
  assumes "round_ok n r"
  shows "length (rr_perm r) = n" "distinct (rr_perm r)" "set (rr_perm r) = {..<n}"
    "bij_betw (\<lambda>i. rr_perm r ! i) {..<n} {..<n}" "i < n \<Longrightarrow> rr_signs r ! i * rr_signs r ! i = 1"
proof -
  have m: "mset (rr_perm r) = mset [0..<n]" using assms by (simp add: round_ok_def)
  show len: "length (rr_perm r) = n" using mset_eq_length[OF m] by simp
  show d: "distinct (rr_perm r)" using mset_eq_imp_distinct_iff[OF m] by simp
  show st: "set (rr_perm r) = {..<n}" using mset_eq_setD[OF m] by (simp add: atLeast0LessThan)
  show "bij_betw (\<lambda>i. rr_perm r ! i) {..<n} {..<n}"
    by (rule bij_betw_nth[OF d]) (simp_all add: len st)
  show "i < n \<Longrightarrow> rr_signs r ! i * rr_signs r ! i = 1" using assms by (simp add: round_ok_def)
qed

text \<open>The gather of the forward pass.\<close>
definition gather :: "real rotation_round \<Rightarrow> nat \<Rightarrow> real list \<Rightarrow> real list" where
  "gather r n v = map (\<lambda>i. rr_signs r ! i * v ! (rr_perm r ! i)) [0..<n]"

lemma length_gather [simp]: "length (gather r n v) = n"
  by (simp add: gather_def)

lemma inner_gather:
  assumes "round_ok n r" "length u = n" "length v = n"
  shows "inner (gather r n u) (gather r n v) = inner u v"
proof -
  note p = round_ok_perm[OF assms(1)]
  have "inner (gather r n u) (gather r n v) = (\<Sum>i<n. u ! (rr_perm r ! i) * v ! (rr_perm r ! i))"
    unfolding inner_as_sum[OF length_gather length_gather]
  proof (rule sum.cong)
    fix i assume "i \<in> {..<n}"
    then show "gather r n u ! i * gather r n v ! i = u ! (rr_perm r ! i) * v ! (rr_perm r ! i)"
      using p(5)[of i] by (simp add: gather_def algebra_simps)
  qed simp
  also have "\<dots> = (\<Sum>j<n. u ! j * v ! j)" by (rule sum.reindex_bij_betw[OF p(4)])
  also have "\<dots> = inner u v" using assms by (simp add: inner_as_sum)
  finally show ?thesis .
qed

lemma scatter_nth:
  "distinct p \<Longrightarrow> set p \<subseteq> {..<length s} \<Longrightarrow> i < length p \<Longrightarrow> m \<le> length p \<Longrightarrow>
     foldl (\<lambda>s i. s[p ! i := f i]) s [0..<m] ! (p ! i) = (if i < m then f i else s ! (p ! i))
     \<and> length (foldl (\<lambda>s i. s[p ! i := f i]) s [0..<m]) = length s"
proof (induction m)
  case (Suc m)
  have "p ! k < length s" if "k < length p" for k using Suc.prems(2) nth_mem[OF that] by blast
  then have "p ! i < length s" "p ! m < length s" using Suc.prems by auto
  moreover have "(p ! m = p ! i) = (m = i)" using Suc.prems by (simp add: nth_eq_iff_index_eq)
  ultimately show ?case using Suc by (auto simp: nth_list_update less_Suc_eq)
qed simp

lemma scatter_gather:
  assumes "round_ok n r" "length v = n"
  shows "foldl (\<lambda>s i. s[rr_perm r ! i := rr_signs r ! i * gather r n v ! i]) (replicate n 0) [0..<n] = v"
proof (rule nth_equalityI)
  note p = round_ok_perm[OF assms(1)]
  let ?s = "foldl (\<lambda>s i. s[rr_perm r ! i := rr_signs r ! i * gather r n v ! i]) (replicate n 0) [0..<n]"
  have nth: "?s ! (rr_perm r ! i) = rr_signs r ! i * gather r n v ! i \<and> length ?s = n" if "i < n" for i
    using scatter_nth[of "rr_perm r" "replicate n 0" i n "\<lambda>i. rr_signs r ! i * gather r n v ! i"] that p by simp
  show len: "length ?s = length v" using nth assms(2) by (cases n) auto
  fix j assume "j < length ?s"
  then have "j \<in> set (rr_perm r)" using p(3) len assms(2) by simp
  then obtain i where i: "i < n" "rr_perm r ! i = j" using p(1) by (metis in_set_conv_nth)
  with nth[of i] p(5)[of i] show "?s ! j = v ! j" by (simp add: gather_def mult.assoc[symmetric])
qed

lemma rotate_round_eq: "rotate_round real_arith ro r v = hadamard real_arith (ro_segments ro) (gather r (ro_dim ro) v)"
  by (simp add: rotate_round_def gather_def)

lemma unrotate_rotate:
  assumes "rotation_ok ro" "r \<in> set (ro_rounds ro)" "length v = ro_dim ro"
  shows "unrotate_round real_arith ro r (rotate_round real_arith ro r v) = v"
proof -
  have ok: "pow2s (ro_segments ro)" "sum_list (ro_segments ro) = length (gather r (ro_dim ro) v)" "round_ok (ro_dim ro) r"
    using assms by (auto simp: rotation_ok_def)
  show ?thesis using hadamard_involution[OF ok(1,2)] scatter_gather[OF ok(3) assms(3)]
    by (simp add: unrotate_round_def rotate_round_eq Let_def)
qed

lemma inner_rotate_round:
  assumes "rotation_ok ro" "r \<in> set (ro_rounds ro)" "length u = ro_dim ro" "length v = ro_dim ro"
  shows "inner (rotate_round real_arith ro r u) (rotate_round real_arith ro r v) = inner u v"
    "length (rotate_round real_arith ro r u) = ro_dim ro"
proof -
  have ok: "pow2s (ro_segments ro)" "sum_list (ro_segments ro) = length (gather r (ro_dim ro) u)" "round_ok (ro_dim ro) r"
    using assms by (auto simp: rotation_ok_def)
  show "inner (rotate_round real_arith ro r u) (rotate_round real_arith ro r v) = inner u v"
    using inner_hadamard[OF ok(1,2)] inner_gather[OF ok(3) assms(3,4)] by (simp add: rotate_round_eq)
  show "length (rotate_round real_arith ro r u) = ro_dim ro"
    using length_hadamard[OF ok(2)] by (simp add: rotate_round_eq)
qed

text \<open>Rounds compose, from any well-formed sublist.\<close>
lemma rounds_orthogonal:
  assumes "rotation_ok ro" "set rs \<subseteq> set (ro_rounds ro)"
  shows "length u = ro_dim ro \<Longrightarrow> length v = ro_dim ro \<Longrightarrow>
    inner (foldl (\<lambda>v r. rotate_round real_arith ro r v) u rs) (foldl (\<lambda>v r. rotate_round real_arith ro r v) v rs) = inner u v
    \<and> foldl (\<lambda>v r. unrotate_round real_arith ro r v) (foldl (\<lambda>v r. rotate_round real_arith ro r v) u rs) (rev rs) = u"
  using assms(2)
proof (induction rs arbitrary: u v)
  case (Cons r rs)
  then have r: "r \<in> set (ro_rounds ro)" by simp
  note a = inner_rotate_round[OF assms(1) r Cons.prems(1,2)]
    inner_rotate_round(2)[OF assms(1) r Cons.prems(2,2)] unrotate_rotate[OF assms(1) r Cons.prems(1)]
  from Cons.IH[OF a(2) a(3)] Cons.prems(3) a(1,4) show ?case by simp
qed simp

section \<open>The derived rotation\<close>

lemma shuffle_mset: "n < length p \<or> n = 0 \<Longrightarrow> mset (fst (shuffle n p s)) = mset p"
proof (induction n p s rule: shuffle.induct)
  case (2 n p s)
  obtain j s' where j: "rng_below (Suc n + 1) s = (j, s')" by fastforce
  have "j < Suc n + 1" using rng_below_less[of "Suc n + 1" s] j by simp
  then have "mset (p[Suc n := p ! j, j := p ! Suc n]) = mset p" using 2(2) by (intro mset_swap) auto
  with 2(1)[OF j[symmetric] refl, of] 2(2) j show ?case by (simp add: Let_def)
qed simp

lemma draw_signs_ok: "length (fst (draw_signs real_arith n s)) = n \<and> (\<forall>x \<in> set (fst (draw_signs real_arith n s)). x * x = 1)"
  by (induction n arbitrary: s) (auto simp: split_beta Let_def of_rat_minus)

lemma draw_rounds_ok: "r \<in> set (draw_rounds real_arith n k s) \<Longrightarrow> round_ok n r"
proof (induction k arbitrary: s)
  case (Suc k)
  have m: "mset (fst (shuffle (n - 1) [0..<n] s)) = mset [0..<n]" by (rule shuffle_mset) auto
  from Suc show ?case using m draw_signs_ok[of n "snd (shuffle (n - 1) [0..<n] s)"]
    by (auto simp: split_beta Let_def round_ok_def)
qed simp

lemma rotation_derive_ok: "rotation_ok (rotation_derive real_arith n)" "ro_dim (rotation_derive real_arith n) = n"
  using hadamard_segments_ok[of n] draw_rounds_ok by (auto simp: rotation_ok_def rotation_derive_def)

text \<open>C31. The seeded rotation is orthogonal for every dimension, a power of two or not: in exact
  arithmetic it preserves inner products, so scores computed in the rotated basis are scores in the
  original one, and \<open>apply_inverse\<close> undoes \<open>apply\<close>.\<close>
theorem rotation_orthogonal:
  assumes "length u = n" "length v = n"
  shows "inner (rotation_apply real_arith (rotation_derive real_arith n) u)
      (rotation_apply real_arith (rotation_derive real_arith n) v) = inner u v
    \<and> rotation_apply_inverse real_arith (rotation_derive real_arith n)
        (rotation_apply real_arith (rotation_derive real_arith n) u) = u"
  unfolding rotation_apply_def rotation_apply_inverse_def
  by (rule rounds_orthogonal[OF rotation_derive_ok(1) subset_refl])
    (use assms rotation_derive_ok(2) in simp_all)

theorem rotation_orthogonal_witness:
  "inner (rotation_apply real_arith (rotation_derive real_arith 3) [1, 2, 3])
      (rotation_apply real_arith (rotation_derive real_arith 3) [0, 1, 0]) = 2"
  using rotation_orthogonal[of "[1, 2, 3]" 3 "[0, 1, 0]"] by simp

end
