(* ===== verification/Vector_Block.thy ===== *)
theory Vector_Block
  imports Rotation
begin

text \<open>
  The vector block (\<open>mlake-ivf/src/vectors.rs\<close>): one cluster's codes with a tag column (dictionary and
  per-member bitmaps) and a write-time column, its byte format, the compiled tag filter and the time
  window. A bitmap denotes a set of dictionary entries (\<open>row_set\<close>); over that reading the bitwise tests
  are the set tests of \<open>TagFilter\<close>, the block-level tests never prune a member that passes, and
  the parser reads back what the writer wrote and rejects everything longer or shorter.
\<close>

section \<open>Strings as bytes\<close>

text \<open>A Rust string is its UTF-8 bytes; a \<open>char\<close> of the model is one byte.\<close>
definition str_bytes :: "string \<Rightarrow> bytes" where
  "str_bytes s = map (\<lambda>c. of_nat (of_char c)) s"

definition bytes_str :: "bytes \<Rightarrow> string" where
  "bytes_str bs = map (\<lambda>b. char_of (unat b)) bs"

definition cont :: "u8 \<Rightarrow> bool" where
  "cont b = (0x80 \<le> b \<and> b \<le> 0xBF)"

text \<open>The well-formed UTF-8 sequences: the bytes after the first character.\<close>
fun utf8_step :: "bytes \<Rightarrow> bytes option" where
  "utf8_step (a # bs) =
     (if a \<le> 0x7F then Some bs
      else if 0xC2 \<le> a \<and> a \<le> 0xDF
      then (case bs of b # r \<Rightarrow> if cont b then Some r else None | _ \<Rightarrow> None)
      else if 0xE0 \<le> a \<and> a \<le> 0xEF
      then (case bs of b # c # r \<Rightarrow>
              if cont b \<and> cont c \<and> (a = 0xE0 \<longrightarrow> 0xA0 \<le> b) \<and> (a = 0xED \<longrightarrow> b \<le> 0x9F) then Some r else None
            | _ \<Rightarrow> None)
      else if 0xF0 \<le> a \<and> a \<le> 0xF4
      then (case bs of b # c # d # r \<Rightarrow>
              if cont b \<and> cont c \<and> cont d \<and> (a = 0xF0 \<longrightarrow> 0x90 \<le> b) \<and> (a = 0xF4 \<longrightarrow> b \<le> 0x8F) then Some r else None
            | _ \<Rightarrow> None)
      else None)"
| "utf8_step [] = None"

lemma utf8_step_shorter: "utf8_step bs = Some r \<Longrightarrow> length r < length bs"
  by (cases bs) (auto split: if_splits list.splits)

function utf8_valid :: "bytes \<Rightarrow> bool" where
  "utf8_valid bs = (bs = [] \<or> (case utf8_step bs of None \<Rightarrow> False | Some r \<Rightarrow> utf8_valid r))"
  by pat_completeness auto
termination by (relation "measure length") (auto dest: utf8_step_shorter)

declare utf8_valid.simps [simp del]

definition from_utf8 :: "bytes \<Rightarrow> string option" where
  "from_utf8 bs = (if utf8_valid bs then Some (bytes_str bs) else None)"

section \<open>The block\<close>

definition VB_MAGIC :: bytes where "VB_MAGIC = [0x4D, 0x4C, 0x56, 0x42]"
definition VB_FORMAT_VERSION :: u8 where "VB_FORMAT_VERSION = 3"
definition VB_HEADER_LEN :: nat where "VB_HEADER_LEN = 16"
definition FLAG_HAS_TAGS :: u8 where "FLAG_HAS_TAGS = 1"
definition FLAG_HAS_UPDATED :: u8 where "FLAG_HAS_UPDATED = 2"
definition UPDATED_UNKNOWN :: millis where "UPDATED_UNKNOWN = I64_MIN"
definition ID_LEN :: nat where "ID_LEN = 16"
definition CORRECTIVE_LEN :: nat where "CORRECTIVE_LEN = 12"

record vector_block =
  vb_codec :: "vector_codec option"
  vb_dim :: nat
  vb_ids :: "memory_id list"
  vb_mean :: "f32 list"
  vb_codes :: bytes
  vb_has_tags :: bool
  vb_tag_dict :: "string list"
  vb_tag_bits :: bytes
  vb_tag_union :: bytes
  vb_any_untagged :: bool
  vb_has_updated :: bool
  vb_updated :: "millis list"
  vb_updated_min :: millis
  vb_updated_max :: millis
  vb_rot :: "f32 rotation option"

fun bytes_per_vector :: "vector_codec \<Rightarrow> nat \<Rightarrow> nat" where
  "bytes_per_vector F32 dm = dm * 4"
| "bytes_per_vector Int8 dm = dm + CORRECTIVE_LEN"
| "bytes_per_vector Binary dm = div_ceil8 dm + CORRECTIVE_LEN"

definition updated_summary :: "millis list \<Rightarrow> millis \<times> millis" where
  "updated_summary us = foldl (\<lambda>(lo, hi) u. if u \<noteq> UPDATED_UNKNOWN then (min lo u, max hi u) else (lo, hi))
     (I64_MAX, I64_MIN) us"

definition is_zero :: "bytes \<Rightarrow> bool" where
  "is_zero bits = list_all (\<lambda>b. b = 0) bits"

definition tag_summary :: "bytes \<Rightarrow> nat \<Rightarrow> nat \<Rightarrow> bytes \<times> bool" where
  "tag_summary bits width cnt =
     (if width = 0 then ([], 0 < cnt)
      else foldl (\<lambda>(union, any_untagged) row.
             (map (\<lambda>(u, b). u OR b) (zip union row), any_untagged \<or> is_zero row))
           (replicate width 0, False) (chunks_exact width bits))"

text \<open>\<open>slice.binary_search\<close> on a strictly sorted slice.\<close>
definition binary_search :: "'a::linorder list \<Rightarrow> 'a \<Rightarrow> nat option" where
  "binary_search xs x = (let i = partition_point (\<lambda>y. y < x) xs in
     if i < length xs \<and> xs ! i = x then Some i else None)"

definition set_dict_bit :: "string list \<Rightarrow> string \<Rightarrow> bytes \<Rightarrow> bytes" where
  "set_dict_bit dict t row = (case binary_search dict t of Some i \<Rightarrow> set_bit_at i row | None \<Rightarrow> row)"

definition tag_row :: "string list \<Rightarrow> string list \<Rightarrow> bytes" where
  "tag_row dict tags = fold (set_dict_bit dict) tags (replicate (div_ceil8 (length dict)) 0)"

definition code_bytes :: "(f32 \<times> f32 \<times> f32) \<times> bytes \<Rightarrow> bytes" where
  "code_bytes e = (case e of ((a, b, c), bs) \<Rightarrow> le_word 4 a @ le_word 4 b @ le_word 4 c @ bs)"

definition member_code ::
    "(f32, 'd) arith \<Rightarrow> vector_codec \<Rightarrow> f32 rotation option \<Rightarrow> f32 list \<Rightarrow> f32 list \<Rightarrow> bytes" where
  "member_code A codec rot mean v = (case codec of
     F32 \<Rightarrow> concat (map (le_word 4) v)
   | Int8 \<Rightarrow> code_bytes (encode_int8 A (residual A v mean) (norm A v))
   | Binary \<Rightarrow> (let r = residual A v mean; r_norm = norm A r;
        r = (case rot of Some ro \<Rightarrow> rotation_apply A ro r | None \<Rightarrow> r)
      in code_bytes (encode_binary A r r_norm (norm A v))))"

definition encode_inner ::
    "(f32, 'd) arith \<Rightarrow> vector_codec \<Rightarrow> nat \<Rightarrow> memory_id list \<Rightarrow> f32 list list \<Rightarrow> string list list option \<Rightarrow> millis list option
     \<Rightarrow> core_error + vector_block" where
  "encode_inner A codec dm ids vectors member_tags member_updated =
     (if length ids \<noteq> length vectors then Inl Encode
      else case find (\<lambda>v. length v \<noteq> dm) vectors of
        Some v \<Rightarrow> Inl (DimMismatch dm (length v))
      | None \<Rightarrow>
          let mean = (if codec = F32 then [] else block_mean A dm vectors);
              rot = rot_from A codec dm;
              codes = concat (map (member_code A codec rot mean) vectors);
              (has_tags, dict, bits) = (case member_tags of
                  None \<Rightarrow> (False, [], [])
                | Some per_member \<Rightarrow> let dict = sort_dedup (concat per_member) in
                    (True, dict, concat (map (tag_row dict) per_member)));
              (union, any_untagged) = tag_summary bits (div_ceil8 (length dict)) (length ids);
              updated = (case member_updated of Some us \<Rightarrow> us | None \<Rightarrow> []);
              (lo, hi) = updated_summary updated
          in Inr \<lparr>vb_codec = Some codec, vb_dim = dm, vb_ids = ids, vb_mean = mean, vb_codes = codes,
               vb_has_tags = has_tags, vb_tag_dict = dict, vb_tag_bits = bits, vb_tag_union = union,
               vb_any_untagged = any_untagged, vb_has_updated = (member_updated \<noteq> None), vb_updated = updated,
               vb_updated_min = lo, vb_updated_max = hi, vb_rot = rot\<rparr>)"

definition vb_encode ::
    "(f32, 'd) arith \<Rightarrow> vector_codec \<Rightarrow> nat \<Rightarrow> memory_id list \<Rightarrow> f32 list list \<Rightarrow> core_error + vector_block" where
  "vb_encode A codec dm ids vectors = encode_inner A codec dm ids vectors None None"

definition encode_with_tags ::
    "(f32, 'd) arith \<Rightarrow> vector_codec \<Rightarrow> nat \<Rightarrow> memory_id list \<Rightarrow> f32 list list \<Rightarrow> string list list \<Rightarrow> core_error + vector_block" where
  "encode_with_tags A codec dm ids vectors member_tags =
     (if length member_tags \<noteq> length ids then Inl Encode
      else encode_inner A codec dm ids vectors (Some member_tags) None)"

text \<open>Only the length of the write-time column is checked here, as in the code.\<close>
definition encode_with_columns ::
    "(f32, 'd) arith \<Rightarrow> vector_codec \<Rightarrow> nat \<Rightarrow> memory_id list \<Rightarrow> f32 list list \<Rightarrow> string list list option \<Rightarrow> millis list
     \<Rightarrow> core_error + vector_block" where
  "encode_with_columns A codec dm ids vectors member_tags member_updated =
     (if length member_updated \<noteq> length ids then Inl Encode
      else encode_inner A codec dm ids vectors member_tags (Some member_updated))"

section \<open>Bytes\<close>

definition vb_get_codec :: "vector_block \<Rightarrow> vector_codec" where
  "vb_get_codec b = (case vb_codec b of Some c \<Rightarrow> c | None \<Rightarrow> F32)"

definition flags_byte :: "vector_block \<Rightarrow> u8" where
  "flags_byte b = (let f = 0; f = (if vb_has_tags b then f OR FLAG_HAS_TAGS else f)
     in if vb_has_updated b then f OR FLAG_HAS_UPDATED else f)"

definition vb_to_bytes :: "vector_block \<Rightarrow> bytes" where
  "vb_to_bytes b =
     VB_MAGIC @ [VB_FORMAT_VERSION, codec_tag (vb_get_codec b), flags_byte b, 0]
     @ to_le 4 (vb_dim b) @ to_le 4 (length (vb_ids b))
     @ concat (map mid_bytes (vb_ids b))
     @ concat (map (le_word 4) (vb_mean b))
     @ (if vb_has_tags b
        then to_le 4 (length (vb_tag_dict b))
          @ concat (map (\<lambda>t. to_le 4 (length t) @ str_bytes t) (vb_tag_dict b)) @ vb_tag_bits b
        else [])
     @ (if vb_has_updated b then concat (map (\<lambda>u. le_word 8 (word_of_int u :: u64)) (vb_updated b)) else [])
     @ vb_codes b"

text \<open>\<open>?\<close> on a result.\<close>
fun res_bind :: "'e + 'a \<Rightarrow> ('a \<Rightarrow> 'e + 'b) \<Rightarrow> 'e + 'b" where
  "res_bind (Inl e) f = Inl e"
| "res_bind (Inr x) f = f x"

text \<open>\<open>a.checked_mul(b).and_then(|n| n.checked_add(c))\<close> on a 64-bit \<open>usize\<close>.\<close>
definition checked_mul_add :: "nat \<Rightarrow> nat \<Rightarrow> nat \<Rightarrow> core_error + nat" where
  "checked_mul_add a b c = (if a * b + c < 2 ^ 64 then Inr (a * b + c) else Inl Decode)"

text \<open>\<open>bytes.get(lo..hi)\<close>.\<close>
definition bytes_get :: "nat \<Rightarrow> nat \<Rightarrow> bytes \<Rightarrow> core_error + bytes" where
  "bytes_get lo hi bs = (if lo \<le> hi \<and> hi \<le> length bs then Inr (slice lo hi bs) else Inl Decode)"

definition u32_at :: "bytes \<Rightarrow> nat \<Rightarrow> core_error + (nat \<times> nat)" where
  "u32_at bs c = res_bind (checked_mul_add c 1 4) (\<lambda>end.
     res_bind (bytes_get c end bs) (\<lambda>s. Inr (from_le s, end)))"

fun parse_dict :: "bytes \<Rightarrow> nat \<Rightarrow> nat \<Rightarrow> core_error + (string list \<times> nat)" where
  "parse_dict bs 0 c = Inr ([], c)"
| "parse_dict bs (Suc n) c = res_bind (u32_at bs c) (\<lambda>(len, c).
     res_bind (checked_mul_add c 1 len) (\<lambda>end.
     res_bind (bytes_get c end bs) (\<lambda>raw.
     case from_utf8 raw of None \<Rightarrow> Inl Decode
     | Some t \<Rightarrow> res_bind (parse_dict bs n end) (\<lambda>(ts, c). Inr (t # ts, c)))))"

definition parse_tag_column :: "bool \<Rightarrow> nat \<Rightarrow> bytes \<Rightarrow> nat \<Rightarrow> core_error + (string list \<times> bytes \<times> nat)" where
  "parse_tag_column has_tags cnt bs c =
     (if \<not> has_tags then Inr ([], [], c)
      else res_bind (u32_at bs c) (\<lambda>(dict_len, c).
        if (length bs - c) div 4 < dict_len then Inl Decode
        else res_bind (parse_dict bs dict_len c) (\<lambda>(dict, c).
          if list_ex (\<lambda>(a, b). b \<le> a) (zip dict (tl dict)) then Inl Decode
          else res_bind (checked_mul_add cnt (div_ceil8 (length dict)) c) (\<lambda>end.
            res_bind (bytes_get c end bs) (\<lambda>bits. Inr (dict, bits, end))))))"

definition parse_updated :: "bool \<Rightarrow> nat \<Rightarrow> bytes \<Rightarrow> nat \<Rightarrow> core_error + (millis list \<times> nat)" where
  "parse_updated has_updated cnt bs c =
     (if \<not> has_updated then Inr ([], c)
      else res_bind (checked_mul_add cnt 8 c) (\<lambda>end.
        res_bind (bytes_get c end bs) (\<lambda>raw.
        Inr (map (\<lambda>x. sint (word_le x :: u64)) (chunks_exact 8 raw), end))))"

definition vb_from_bytes :: "(f32, 'd) arith \<Rightarrow> bytes \<Rightarrow> core_error + vector_block" where
  "vb_from_bytes A bs =
     (if length bs < VB_HEADER_LEN then Inl Decode
      else if slice 0 4 bs \<noteq> VB_MAGIC then Inl Decode
      else if bs ! 4 \<noteq> VB_FORMAT_VERSION then Inl (FormatVersion (unat (bs ! 4)) (unat VB_FORMAT_VERSION))
      else case codec_from_tag (bs ! 5) of
        None \<Rightarrow> Inl Decode
      | Some codec \<Rightarrow>
        let flags = bs ! 6 in
        if flags AND NOT (FLAG_HAS_TAGS OR FLAG_HAS_UPDATED) \<noteq> 0 then Inl Decode
        else let has_tags = (flags AND FLAG_HAS_TAGS \<noteq> 0); has_updated = (flags AND FLAG_HAS_UPDATED \<noteq> 0);
                 dm = from_le (slice 8 12 bs); cnt = from_le (slice 12 16 bs);
                 mean_len = (if codec = F32 then 0 else dm)
        in res_bind (checked_mul_add cnt ID_LEN VB_HEADER_LEN) (\<lambda>ids_end.
           res_bind (checked_mul_add mean_len 4 ids_end) (\<lambda>mean_end.
           if length bs < mean_end then Inl Decode
           else res_bind (parse_tag_column has_tags cnt bs mean_end) (\<lambda>(dict, bits, c).
             res_bind (parse_updated has_updated cnt bs c) (\<lambda>(updated, c).
             res_bind (checked_mul_add cnt (bytes_per_vector codec dm) c) (\<lambda>total.
             if length bs \<noteq> total then Inl Decode
             else let (union, any_untagged) = tag_summary bits (div_ceil8 (length dict)) cnt;
                      (lo, hi) = updated_summary updated
                  in Inr \<lparr>vb_codec = Some codec, vb_dim = dm,
                       vb_ids = map MemoryId (chunks_exact ID_LEN (slice VB_HEADER_LEN ids_end bs)),
                       vb_mean = map word_le (chunks_exact 4 (slice ids_end mean_end bs)),
                       vb_codes = drop c bs,
                       vb_has_tags = has_tags, vb_tag_dict = dict, vb_tag_bits = bits, vb_tag_union = union,
                       vb_any_untagged = any_untagged, vb_has_updated = has_updated, vb_updated = updated,
                       vb_updated_min = lo, vb_updated_max = hi, vb_rot = rot_from A codec dm\<rparr>))))))"

section \<open>Filtering\<close>

record tag_mask =
  tm_bits :: bytes
  tm_width :: nat
  tm_present :: nat
  tm_missing :: nat

definition requested :: "tag_mask \<Rightarrow> nat" where
  "requested m = tm_present m + tm_missing m"

definition tag_bitmap_width :: "vector_block \<Rightarrow> nat" where
  "tag_bitmap_width b = div_ceil8 (length (vb_tag_dict b))"

definition vb_tag_mask :: "vector_block \<Rightarrow> string list \<Rightarrow> tag_mask" where
  "vb_tag_mask b tags =
     (let (bits, present, missing) = fold (\<lambda>t (bits, present, missing). case binary_search (vb_tag_dict b) t of
            Some i \<Rightarrow> (set_bit_at i bits, present + 1, missing)
          | None \<Rightarrow> (bits, present, missing + 1)) (sort_dedup tags) (replicate (tag_bitmap_width b) 0, 0, 0)
      in \<lparr>tm_bits = bits, tm_width = tag_bitmap_width b, tm_present = present, tm_missing = missing\<rparr>)"

definition member_bits :: "vector_block \<Rightarrow> nat \<Rightarrow> bytes option" where
  "member_bits b i = (let w = tag_bitmap_width b in
     if length (vb_ids b) \<le> i then None
     else if w = 0 then Some []
     else if (i + 1) * w \<le> length (vb_tag_bits b) then Some (slice (i * w) ((i + 1) * w) (vb_tag_bits b)) else None)"

definition mask_overlaps :: "bytes \<Rightarrow> tag_mask \<Rightarrow> bool" where
  "mask_overlaps bits mk = list_ex (\<lambda>(m, q). m AND q \<noteq> 0) (zip bits (tm_bits mk))"

definition mask_contains_all :: "bytes \<Rightarrow> tag_mask \<Rightarrow> bool" where
  "mask_contains_all bits mk = (tm_missing mk = 0 \<and> list_all (\<lambda>(m, q). m AND q = q) (zip bits (tm_bits mk)))"

definition mask_set_eq :: "bytes \<Rightarrow> tag_mask \<Rightarrow> bool" where
  "mask_set_eq bits mk = (tm_missing mk = 0 \<and> bits = tm_bits mk)"

definition vb_passes :: "vector_block \<Rightarrow> nat \<Rightarrow> tag_mask \<Rightarrow> tags_match \<Rightarrow> bool" where
  "vb_passes b i mk mode = (case member_bits b i of
     None \<Rightarrow> False
   | Some m \<Rightarrow>
       if \<not> vb_has_tags b \<or> tm_width mk \<noteq> tag_bitmap_width b then True
       else if requested mk = 0 then (case mode of Exact \<Rightarrow> is_zero m | _ \<Rightarrow> True)
       else let untagged = is_zero m in case mode of
         Any \<Rightarrow> untagged \<or> mask_overlaps m mk
       | All \<Rightarrow> untagged \<or> mask_contains_all m mk
       | AnyStrict \<Rightarrow> \<not> untagged \<and> mask_overlaps m mk
       | AllStrict \<Rightarrow> \<not> untagged \<and> mask_contains_all m mk
       | Exact \<Rightarrow> \<not> untagged \<and> mask_set_eq m mk)"

definition any_can_pass :: "vector_block \<Rightarrow> tag_mask \<Rightarrow> tags_match \<Rightarrow> bool" where
  "any_can_pass b mk mode =
     (if vb_ids b = [] then False
      else if \<not> vb_has_tags b \<or> tm_width mk \<noteq> tag_bitmap_width b then True
      else if requested mk = 0 then (case mode of Exact \<Rightarrow> vb_any_untagged b | _ \<Rightarrow> True)
      else let u = vb_tag_union b in case mode of
         Any \<Rightarrow> vb_any_untagged b \<or> mask_overlaps u mk
       | All \<Rightarrow> vb_any_untagged b \<or> mask_contains_all u mk
       | AnyStrict \<Rightarrow> mask_overlaps u mk
       | AllStrict \<Rightarrow> mask_contains_all u mk
       | Exact \<Rightarrow> mask_contains_all u mk)"

text \<open>\<open>from.is_none_or(|f| f < u) && to.is_none_or(|t| u < t)\<close>, over the two ends of a range.\<close>
definition window_admits :: "millis option \<Rightarrow> millis option \<Rightarrow> millis \<Rightarrow> millis \<Rightarrow> bool" where
  "window_admits from to lo hi =
     ((case from of None \<Rightarrow> True | Some f \<Rightarrow> f < hi) \<and> (case to of None \<Rightarrow> True | Some t \<Rightarrow> lo < t))"

definition passes_updated :: "vector_block \<Rightarrow> nat \<Rightarrow> millis option \<Rightarrow> millis option \<Rightarrow> bool" where
  "passes_updated b i from to =
     (if length (vb_ids b) \<le> i then False
      else if from = None \<and> to = None then True
      else if length (vb_updated b) \<le> i then True
      else let u = vb_updated b ! i in
        if u = UPDATED_UNKNOWN then False else window_admits from to u u)"

definition any_can_pass_updated :: "vector_block \<Rightarrow> millis option \<Rightarrow> millis option \<Rightarrow> bool" where
  "any_can_pass_updated b from to =
     (if vb_ids b = [] then False
      else if from = None \<and> to = None then True
      else if \<not> vb_has_updated b then True
      else if vb_updated_max b < vb_updated_min b then False
      else window_admits from to (vb_updated_min b) (vb_updated_max b))"

definition member_updated :: "vector_block \<Rightarrow> nat \<Rightarrow> millis option" where
  "member_updated b i = (if i < length (vb_updated b) \<and> vb_updated b ! i \<noteq> UPDATED_UNKNOWN
     then Some (vb_updated b ! i) else None)"

definition member_tags :: "vector_block \<Rightarrow> nat \<Rightarrow> string list" where
  "member_tags b i = (case member_bits b i of
     None \<Rightarrow> []
   | Some m \<Rightarrow> map (\<lambda>t. vb_tag_dict b ! t) (filter (bit_at m) [0..<length (vb_tag_dict b)]))"

section \<open>Scoring\<close>

definition correctives :: "bytes \<Rightarrow> f32 \<times> f32 \<times> f32" where
  "correctives code = (word_le (slice 0 4 code), word_le (slice 4 8 code), word_le (slice 8 12 code))"

definition vb_prepare :: "(f32, 'd) arith \<Rightarrow> vector_block \<Rightarrow> f32 list \<Rightarrow> core_error + f32 prepared_query" where
  "vb_prepare A b query = prepare_query A (vb_codec b) (vb_dim b) (vb_mean b) (vb_rot b) query"

definition member_slice :: "vector_block \<Rightarrow> nat \<Rightarrow> bytes option" where
  "member_slice b i = (let stride = bytes_per_vector (vb_get_codec b) (vb_dim b) in
     if (i + 1) * stride \<le> length (vb_codes b) then Some (slice (i * stride) ((i + 1) * stride) (vb_codes b)) else None)"

definition score_full :: "(f32, 'd) arith \<Rightarrow> vector_block \<Rightarrow> f32 prepared_query \<Rightarrow> nat \<Rightarrow> f32 \<times> f32 \<times> f32" where
  "score_full A b q i =
     (if length (vb_ids b) \<le> i \<or> pq_dim q \<noteq> vb_dim b \<or> pq_codec q \<noteq> vb_codec b \<or> feq A (pq_norm q) (lit A 0)
      then (lit A 0, lit A 0, lit A 0)
      else case member_slice b i of
        None \<Rightarrow> (lit A 0, lit A 0, lit A 0)
      | Some code \<Rightarrow> (case vb_get_codec b of
          F32 \<Rightarrow> (let s = score_f32 A (map word_le (chunks_exact 4 code)) q in (s, s, s))
        | Int8 \<Rightarrow> score_int8_bounded A (correctives code) (drop CORRECTIVE_LEN code) q
        | Binary \<Rightarrow> score_binary_bounded A (correctives code) (drop CORRECTIVE_LEN code) (vb_dim b) q))"

definition vb_score :: "(f32, 'd) arith \<Rightarrow> vector_block \<Rightarrow> f32 prepared_query \<Rightarrow> nat \<Rightarrow> f32" where
  "vb_score A b q i = fst (score_full A b q i)"

definition score_bounds :: "(f32, 'd) arith \<Rightarrow> vector_block \<Rightarrow> f32 prepared_query \<Rightarrow> nat \<Rightarrow> f32 \<times> f32" where
  "score_bounds A b q i = snd (score_full A b q i)"

definition top_k_le :: "(f32, 'd) arith \<Rightarrow> vector_block \<Rightarrow> nat \<times> f32 \<Rightarrow> nat \<times> f32 \<Rightarrow> bool" where
  "top_k_le A b x y = (flt A (snd y) (snd x) \<or> \<not> flt A (snd x) (snd y) \<and> vb_ids b ! fst x \<le> vb_ids b ! fst y)"

definition vb_top_k :: "(f32, 'd) arith \<Rightarrow> vector_block \<Rightarrow> f32 prepared_query \<Rightarrow> nat \<Rightarrow> (nat \<times> f32) list" where
  "vb_top_k A b q k = take k (sort_by (top_k_le A b) (map (\<lambda>i. (i, vb_score A b q i)) [0..<length (vb_ids b)]))"

definition vb_decode :: "(f32, 'd) arith \<Rightarrow> vector_block \<Rightarrow> nat \<Rightarrow> f32 list" where
  "vb_decode A b i =
     (if length (vb_ids b) \<le> i then []
      else case member_slice b i of
        None \<Rightarrow> []
      | Some code \<Rightarrow> (case vb_get_codec b of
          F32 \<Rightarrow> map word_le (chunks_exact 4 code)
        | Int8 \<Rightarrow> decode_int8 A (correctives code) (drop CORRECTIVE_LEN code) (vb_mean b)
        | Binary \<Rightarrow> decode_binary A (correctives code) (drop CORRECTIVE_LEN code) (vb_dim b) (vb_rot b) (vb_mean b)))"

end
