(* ===== verification/Vector_Filter.thy ===== *)
theory Vector_Filter
  imports Vector_Block
begin

text \<open>
  Filtering inside a vector block: the bitmaps of the tag column read as sets of dictionary entries, the
  compiled mask, the write-time window and the block-level tests that skip a block unread. The
  locale \<open>pruning\<close> is the contract between a container test and a member test; a scan that uses both finds
  what a scan of the members alone finds.
\<close>

section \<open>Bitmaps as sets\<close>

lemma bit_at_iff: "bit_at bits j = bit (bits ! (j div 8)) (j mod 8)"
proof -
  have "(b AND push_bit n 1 \<noteq> 0) = bit b n" if "n < 8" for b :: u8 and n
    using that by (simp add: bit_iff_and_push_bit_not_eq_0)
  then show ?thesis by (simp add: bit_at_def)
qed

lemma div_ceil8_bound: "n \<le> 8 * div_ceil8 n" "(div_ceil8 n = 0) = (n = 0)"
  by (auto simp: div_ceil8_def)

text \<open>A statement about all bits of a byte list is a statement about its bytes.\<close>
lemma all_bits:
  "(\<forall>j < 8 * length bs. P (j div 8) (j mod 8)) = (\<forall>k < length bs. \<forall>n < 8. P k n)"
proof
  assume all: "\<forall>j < 8 * length bs. P (j div 8) (j mod 8)"
  show "\<forall>k < length bs. \<forall>n < 8. P k n"
  proof (intro allI impI)
    fix k n :: nat assume "k < length bs" "n < 8"
    then have "8 * k + n < 8 * length bs" "(8 * k + n) div 8 = k" "(8 * k + n) mod 8 = n" by auto
    with all show "P k n" by metis
  qed
next
  assume "\<forall>k < length bs. \<forall>n < 8. P k n"
  then show "\<forall>j < 8 * length bs. P (j div 8) (j mod 8)" by auto
qed

lemma bit_byte: "(\<forall>n < 8. bit (a :: u8) n = bit b n) = (a = b)"
  by (auto simp: bit_eq_iff)

lemma bits_eqI: "length a = length b \<Longrightarrow> (a = b) = (\<forall>j < 8 * length a. bit_at a j = bit_at b j)"
  unfolding bit_at_iff all_bits[of a "\<lambda>k n. bit (a ! k) n = bit (b ! k) n"] bit_byte
  by (auto simp: list_eq_iff_nth_eq)

lemma is_zero_bits: "is_zero a = (\<forall>j < 8 * length a. \<not> bit_at a j)"
proof -
  have "(\<forall>n < 8. \<not> bit x n) = (x = 0)" for x :: u8 using bit_byte[of x 0] by simp
  then show ?thesis unfolding bit_at_iff all_bits[of a "\<lambda>k n. \<not> bit (a ! k) n"]
    by (simp add: is_zero_def list_all_length)
qed

lemma and_bits: "(\<exists>n < 8. bit (a :: u8) n \<and> bit b n) = (a AND b \<noteq> 0)"
  "(\<forall>n < 8. bit b n \<longrightarrow> bit (a :: u8) n) = (a AND b = b)"
  by (auto simp: bit_eq_iff bit_and_iff)

lemma mask_overlaps_bits:
  "length a = length (tm_bits m) \<Longrightarrow> mask_overlaps a m = (\<exists>j < 8 * length a. bit_at a j \<and> bit_at (tm_bits m) j)"
proof -
  assume len: "length a = length (tm_bits m)"
  have "(\<exists>j < 8 * length a. bit_at a j \<and> bit_at (tm_bits m) j) = (\<exists>k < length a. \<exists>n < 8. bit (a ! k) n \<and> bit (tm_bits m ! k) n)"
    using all_bits[of a "\<lambda>k n. \<not> (bit (a ! k) n \<and> bit (tm_bits m ! k) n)"] unfolding bit_at_iff by blast
  with len show ?thesis unfolding and_bits(1) by (simp add: mask_overlaps_def list_ex_length cong: conj_cong)
qed

lemma mask_contains_bits:
  "length a = length (tm_bits m) \<Longrightarrow>
     mask_contains_all a m = (tm_missing m = 0 \<and> (\<forall>j < 8 * length a. bit_at (tm_bits m) j \<longrightarrow> bit_at a j))"
  unfolding mask_contains_all_def bit_at_iff list_all_length
    all_bits[of a "\<lambda>k n. bit (tm_bits m ! k) n \<longrightarrow> bit (a ! k) n"]
  by (simp add: and_bits(2))

lemma length_set_bit_at [simp]: "length (set_bit_at i row) = length row"
  by (simp add: set_bit_at_def)

lemma bit_at_set_bit_at: "i < 8 * length row \<Longrightarrow> j < 8 * length row \<Longrightarrow> bit_at (set_bit_at i row) j = (j = i \<or> bit_at row j)"
proof -
  assume i: "i < 8 * length row" and j: "j < 8 * length row"
  have bnd: "i div 8 < length row" "j div 8 < length row" using i j by auto
  have eq: "(j = i) = (j div 8 = i div 8 \<and> j mod 8 = i mod 8)" by (metis div_mult_mod_eq)
  have "bit (push_bit (i mod 8) 1 :: u8) (j mod 8) = (j mod 8 = i mod 8)"
    by (auto simp: bit_exp_iff)
  with bnd eq show ?thesis by (auto simp: bit_at_iff set_bit_at_def nth_list_update bit_or_iff)
qed

lemma bit_at_replicate [simp]: "j < 8 * n \<Longrightarrow> \<not> bit_at (replicate n 0) j"
  by (auto simp: bit_at_iff)

section \<open>The dictionary\<close>

lemma partition_point_sorted:
  "sorted_wrt (<) (xs :: 'a::linorder list) \<Longrightarrow> i < length xs \<Longrightarrow> partition_point (\<lambda>y. y < xs ! i) xs = i"
proof (induction xs arbitrary: i)
  case (Cons x xs)
  show ?case
  proof (cases i)
    case 0 then show ?thesis by (simp add: partition_point_def)
  next
    case (Suc k)
    with Cons have "x < xs ! k" by simp
    with Cons Suc show ?thesis by (simp add: partition_point_def)
  qed
qed simp

lemma binary_search_correct:
  assumes "sorted_wrt (<) (xs :: 'a::linorder list)"
  shows "(binary_search xs x = Some i) = (i < length xs \<and> xs ! i = x)"
    "(binary_search xs x = None) = (x \<notin> set xs)"
proof -
  have some: "i < length xs \<Longrightarrow> binary_search xs (xs ! i) = Some i" for i
    using partition_point_sorted[OF assms] by (simp add: binary_search_def)
  have bk: "binary_search xs x = Some j \<Longrightarrow> j < length xs \<and> xs ! j = x" for j
    by (auto simp: binary_search_def Let_def split: if_splits)
  show "(binary_search xs x = Some i) = (i < length xs \<and> xs ! i = x)" using some[of i] bk[of i] by auto
  show "(binary_search xs x = None) = (x \<notin> set xs)"
    using some bk by (metis in_set_conv_nth not_None_eq nth_mem option.distinct(1))
qed

text \<open>The dictionary entries a bitmap selects; \<open>row_ok\<close> says that no bit past the dictionary is set.\<close>
definition row_set :: "string list \<Rightarrow> bytes \<Rightarrow> string set" where
  "row_set dict row = {dict ! t |t. t < length dict \<and> bit_at row t}"

definition row_ok :: "string list \<Rightarrow> bytes \<Rightarrow> bool" where
  "row_ok dict row = (length row = div_ceil8 (length dict) \<and> (\<forall>j < 8 * length row. length dict \<le> j \<longrightarrow> \<not> bit_at row j))"

lemma row_ok_zero [simp]: "row_ok dict (replicate (div_ceil8 (length dict)) 0)"
  by (simp add: row_ok_def)

lemma row_set_zero [simp]: "row_set dict (replicate (div_ceil8 (length dict)) 0) = {}"
proof -
  have "t < length dict \<Longrightarrow> \<not> bit_at (replicate (div_ceil8 (length dict)) 0) t" for t
    using div_ceil8_bound(1)[of "length dict"] by (intro bit_at_replicate) linarith
  then show ?thesis by (auto simp: row_set_def)
qed

lemma row_ok_bits:
  assumes "row_ok dict row"
  shows "(\<forall>j < 8 * length row. bit_at row j \<longrightarrow> Q j) = (\<forall>j < length dict. bit_at row j \<longrightarrow> Q j)"
    "(\<exists>j < 8 * length row. bit_at row j \<and> Q j) = (\<exists>j < length dict. bit_at row j \<and> Q j)"
  using assms div_ceil8_bound(1)[of "length dict"] unfolding row_ok_def
  by (metis linorder_not_le order_less_le_trans)+

lemma row_set_bit:
  assumes "sorted_wrt (<) dict" "t < length dict"
  shows "(dict ! t \<in> row_set dict row) = bit_at row t"
proof -
  have "distinct dict" using assms(1) strict_sorted_iff by blast
  with assms(2) show ?thesis by (auto simp: row_set_def nth_eq_iff_index_eq)
qed

lemma row_set_subset: "row_set dict row \<subseteq> set dict"
  by (auto simp: row_set_def)

text \<open>The bitwise tests on well-formed rows are the set tests.\<close>
lemma row_tests:
  assumes d: "sorted_wrt (<) dict" and r: "row_ok dict a" and m: "row_ok dict (tm_bits mk)"
  shows "is_zero a = (row_set dict a = {})"
    "mask_overlaps a mk = (row_set dict a \<inter> row_set dict (tm_bits mk) \<noteq> {})"
    "mask_contains_all a mk = (tm_missing mk = 0 \<and> row_set dict (tm_bits mk) \<subseteq> row_set dict a)"
    "mask_set_eq a mk = (tm_missing mk = 0 \<and> row_set dict a = row_set dict (tm_bits mk))"
proof -
  have len: "length a = length (tm_bits mk)" using r m by (simp add: row_ok_def)
  have sub: "(row_set dict x \<subseteq> row_set dict y) = (\<forall>t < length dict. bit_at x t \<longrightarrow> bit_at y t)" for x y
  proof
    show "row_set dict x \<subseteq> row_set dict y \<Longrightarrow> \<forall>t < length dict. bit_at x t \<longrightarrow> bit_at y t"
      using row_set_bit[OF d] by blast
  qed (auto simp: row_set_def)
  show "is_zero a = (row_set dict a = {})"
    unfolding is_zero_bits using row_ok_bits(1)[OF r, of "\<lambda>_. False"] by (auto simp: row_set_def)
  show "mask_overlaps a mk = (row_set dict a \<inter> row_set dict (tm_bits mk) \<noteq> {})"
    unfolding mask_overlaps_bits[OF len] row_ok_bits(2)[OF r] using row_set_bit[OF d]
    by (auto simp: row_set_def)
  have imp: "(\<forall>j < 8 * length a. bit_at (tm_bits mk) j \<longrightarrow> bit_at a j) = (row_set dict (tm_bits mk) \<subseteq> row_set dict a)"
    unfolding len row_ok_bits(1)[OF m] sub ..
  then show "mask_contains_all a mk = (tm_missing mk = 0 \<and> row_set dict (tm_bits mk) \<subseteq> row_set dict a)"
    by (simp add: mask_contains_bits[OF len])
  have "(\<forall>j < 8 * length a. bit_at a j \<longrightarrow> bit_at (tm_bits mk) j) = (row_set dict a \<subseteq> row_set dict (tm_bits mk))"
    unfolding row_ok_bits(1)[OF r] sub ..
  with imp have "(a = tm_bits mk) = (row_set dict a = row_set dict (tm_bits mk))"
    unfolding bits_eqI[OF len] by blast
  then show "mask_set_eq a mk = (tm_missing mk = 0 \<and> row_set dict a = row_set dict (tm_bits mk))"
    by (simp add: mask_set_eq_def)
qed

lemma set_dict_bit_row:
  assumes "sorted_wrt (<) dict" "row_ok dict row"
  shows "row_ok dict (set_dict_bit dict t row)" "row_set dict (set_dict_bit dict t row) = row_set dict row \<union> ({t} \<inter> set dict)"
proof -
  have lim: "length dict \<le> 8 * length row" using assms(2) div_ceil8_bound(1) by (simp add: row_ok_def)
  have "row_ok dict (set_dict_bit dict t row) \<and> row_set dict (set_dict_bit dict t row) = row_set dict row \<union> ({t} \<inter> set dict)"
  proof (cases "binary_search dict t")
    case None
    then have "t \<notin> set dict" using binary_search_correct(2)[OF assms(1)] by simp
    with None assms(2) show ?thesis by (simp add: set_dict_bit_def)
  next
    case (Some i)
    then have i: "i < length dict" "dict ! i = t" using binary_search_correct(1)[OF assms(1)] by auto
    have b: "j < 8 * length row \<Longrightarrow> bit_at (set_bit_at i row) j = (j = i \<or> bit_at row j)" for j
      using i lim by (intro bit_at_set_bit_at) auto
    have "row_ok dict (set_bit_at i row)" using assms(2) i b by (auto simp: row_ok_def)
    moreover have "row_set dict (set_bit_at i row) = row_set dict row \<union> {t}"
    proof -
      have "t' < length dict \<Longrightarrow> bit_at (set_bit_at i row) t' = (t' = i \<or> bit_at row t')" for t' using lim b by simp
      with i show ?thesis by (auto simp: row_set_def)
    qed
    ultimately show ?thesis using Some i by (auto simp: set_dict_bit_def)
  qed
  then show "row_ok dict (set_dict_bit dict t row)" "row_set dict (set_dict_bit dict t row) = row_set dict row \<union> ({t} \<inter> set dict)"
    by auto
qed

lemma tag_row_correct:
  assumes "sorted_wrt (<) dict"
  shows "row_ok dict (tag_row dict tags)" "row_set dict (tag_row dict tags) = set tags \<inter> set dict"
proof -
  have "row_ok dict row \<Longrightarrow> row_ok dict (fold (set_dict_bit dict) tags row)
      \<and> row_set dict (fold (set_dict_bit dict) tags row) = row_set dict row \<union> (set tags \<inter> set dict)" for row
  proof (induction tags arbitrary: row)
    case (Cons t tags)
    from Cons.IH[OF set_dict_bit_row(1)[OF assms Cons.prems]] set_dict_bit_row(2)[OF assms Cons.prems]
    show ?case by auto
  qed simp
  then show "row_ok dict (tag_row dict tags)" "row_set dict (tag_row dict tags) = set tags \<inter> set dict"
    by (simp_all add: tag_row_def)
qed

section \<open>The compiled filter\<close>

lemma mask_fold:
  assumes d: "sorted_wrt (<) dict" and "distinct ts" "row_ok dict bits"
  shows "fold (\<lambda>t (bits, present, missing). case binary_search dict t of
            Some i \<Rightarrow> (set_bit_at i bits, present + 1, missing)
          | None \<Rightarrow> (bits, present, missing + 1)) ts (bits, p, q)
    = (fold (set_dict_bit dict) ts bits, p + card (set ts \<inter> set dict), q + card (set ts - set dict))"
  using assms(2,3)
proof (induction ts arbitrary: bits p q)
  case (Cons t ts)
  have step: "set_dict_bit dict t bits = (case binary_search dict t of Some i \<Rightarrow> set_bit_at i bits | None \<Rightarrow> bits)"
    by (simp add: set_dict_bit_def)
  have nt: "t \<notin> set ts" using Cons.prems by simp
  have ok: "row_ok dict (set_dict_bit dict t bits)" by (rule set_dict_bit_row(1)[OF d Cons.prems(2)])
  note IH = Cons.IH[OF _ ok]
  show ?case
  proof (cases "binary_search dict t")
    case None
    then have "t \<notin> set dict" using binary_search_correct(2)[OF d] by simp
    then have "card (set (t # ts) \<inter> set dict) = card (set ts \<inter> set dict)"
      "card (set (t # ts) - set dict) = Suc (card (set ts - set dict))"
      using nt by (simp_all add: insert_Diff_if)
    with None IH Cons.prems step show ?thesis by simp
  next
    case (Some i)
    then have "t \<in> set dict" using binary_search_correct(1)[OF d] by auto
    then have "card (set (t # ts) \<inter> set dict) = Suc (card (set ts \<inter> set dict))"
      "card (set (t # ts) - set dict) = card (set ts - set dict)"
      using nt by (simp_all add: insert_Diff_if)
    with Some IH Cons.prems step show ?thesis by simp
  qed
qed simp

lemma vb_tag_mask_correct:
  fixes req
  assumes "sorted_wrt (<) (vb_tag_dict b)"
  defines "mk \<equiv> vb_tag_mask b req" and "dict \<equiv> vb_tag_dict b"
  shows "row_ok dict (tm_bits mk)" "row_set dict (tm_bits mk) = set req \<inter> set dict"
    "tm_width mk = tag_bitmap_width b" "(tm_missing mk = 0) = (set req \<subseteq> set dict)"
    "(requested mk = 0) = (req = [])"
proof -
  have z: "row_ok dict (replicate (tag_bitmap_width b) 0)" by (simp add: tag_bitmap_width_def dict_def)
  have mk: "mk = \<lparr>tm_bits = tag_row dict (sort_dedup req), tm_width = tag_bitmap_width b,
      tm_present = card (set req \<inter> set dict), tm_missing = card (set req - set dict)\<rparr>"
    using mask_fold[OF assms(1) distinct_sort_dedup z[unfolded dict_def], of req 0 0]
    by (simp add: mk_def vb_tag_mask_def dict_def tag_row_def tag_bitmap_width_def)
  show "row_ok dict (tm_bits mk)" "row_set dict (tm_bits mk) = set req \<inter> set dict"
    using tag_row_correct[OF assms(1)] by (simp_all add: mk dict_def)
  show "tm_width mk = tag_bitmap_width b" by (simp add: mk)
  show "(tm_missing mk = 0) = (set req \<subseteq> set dict)" by (simp add: mk)
  show "(requested mk = 0) = (req = [])"
    by (auto simp: mk requested_def dest: Int_absorb2)
qed

text \<open>A block whose tag column was built from the members' tag lists.\<close>
definition tag_column :: "vector_block \<Rightarrow> string list list \<Rightarrow> bool" where
  "tag_column b mt = (vb_has_tags b \<and> length mt = length (vb_ids b) \<and>
     vb_tag_dict b = sort_dedup (concat mt) \<and>
     vb_tag_bits b = concat (map (tag_row (vb_tag_dict b)) mt) \<and>
     (vb_tag_union b, vb_any_untagged b) = tag_summary (vb_tag_bits b) (tag_bitmap_width b) (length mt))"

lemma tag_column_dict:
  assumes "tag_column b mt"
  shows "sorted_wrt (<) (vb_tag_dict b)" "set (vb_tag_dict b) = (\<Union>ts \<in> set mt. set ts)"
  using assms strict_sorted_sort_dedup by (auto simp: tag_column_def)

lemma slice_concat:
  "\<forall>r \<in> set rows. length r = w \<Longrightarrow> i < length rows \<Longrightarrow>
     slice (i * w) ((i + 1) * w) (concat rows) = rows ! i \<and> (i + 1) * w \<le> length (concat rows)"
proof (induction rows arbitrary: i)
  case (Cons r rows)
  show ?case
  proof (cases i)
    case 0 with Cons show ?thesis by (simp add: slice_def)
  next
    case (Suc k)
    with Cons have "slice (k * w) ((k + 1) * w) (concat rows) = rows ! k" "(k + 1) * w \<le> length (concat rows)" by auto
    with Suc Cons.prems show ?thesis by (simp add: slice_append_right)
  qed
qed simp

lemma member_bits_column:
  assumes "tag_column b mt" "i < length mt"
  shows "member_bits b i = Some (tag_row (vb_tag_dict b) (mt ! i))"
proof -
  let ?w = "tag_bitmap_width b"
  have rows: "\<forall>r \<in> set (map (tag_row (vb_tag_dict b)) mt). length r = ?w"
    using tag_row_correct(1)[OF tag_column_dict(1)[OF assms(1)]] by (simp add: row_ok_def tag_bitmap_width_def)
  have "vb_tag_bits b = concat (map (tag_row (vb_tag_dict b)) mt)" "length mt = length (vb_ids b)"
    using assms(1) by (auto simp: tag_column_def)
  moreover have "?w = 0 \<Longrightarrow> tag_row (vb_tag_dict b) (mt ! i) = []" using rows assms(2) by auto
  ultimately show ?thesis using slice_concat[OF rows, of i] assms(2) by (simp add: member_bits_def Let_def)
qed

lemma row_set_member:
  assumes "tag_column b mt" "i < length mt"
  shows "row_set (vb_tag_dict b) (tag_row (vb_tag_dict b) (mt ! i)) = set (mt ! i)"
  using tag_row_correct(2)[OF tag_column_dict(1)[OF assms(1)]] tag_column_dict(2)[OF assms(1)] assms(2)
  by (auto dest: nth_mem)

text \<open>The members' filter test is the filter of the core crate, in every mode.\<close>
lemma vb_passes_matches:
  assumes "tag_column b mt" "i < length mt"
  shows "vb_passes b i (vb_tag_mask b req) mode = tag_filter_matches (tag_filter_new req mode) (mt ! i)"
proof -
  let ?mk = "vb_tag_mask b req" and ?dict = "vb_tag_dict b"
  let ?m = "tag_row ?dict (mt ! i)"
  note d = tag_column_dict[OF assms(1)]
  note mk = vb_tag_mask_correct[OF d(1), of req]
  note t = row_tests[OF d(1) tag_row_correct(1)[OF d(1)] mk(1), of "mt ! i"]
  have M: "row_set ?dict ?m = set (mt ! i)" by (rule row_set_member[OF assms])
  have sub: "set (mt ! i) \<subseteq> set ?dict" using d(2) assms(2) by (auto dest: nth_mem)
  have "mask_overlaps ?m ?mk = (set (mt ! i) \<inter> set req \<noteq> {})" "is_zero ?m = (mt ! i = [])"
    "mask_contains_all ?m ?mk = (set req \<subseteq> set (mt ! i))" "mask_set_eq ?m ?mk = (set (mt ! i) = set req)"
    unfolding t M mk(2) mk(4) using sub by auto
  then show ?thesis
    using member_bits_column[OF assms] assms(1) mk(3,5)
    by (cases mode) (auto simp: vb_passes_def tag_filter_matches_def tag_filter_new_def tag_column_def Let_def)
qed

section \<open>Block pruning\<close>

lemma chunks_exact_concat: "0 < w \<Longrightarrow> \<forall>r \<in> set rows. length r = w \<Longrightarrow> chunks_exact w (concat rows) = rows"
  by (induction rows) (simp_all add: chunks_exact_step)

lemma tag_summary_rows:
  assumes d: "sorted_wrt (<) dict" and rows: "\<forall>r \<in> set rows. row_ok dict r"
    and s: "tag_summary (concat rows) (div_ceil8 (length dict)) (length rows) = (un, any_untagged)"
  shows "row_ok dict un" "row_set dict un = (\<Union>r \<in> set rows. row_set dict r)"
    "any_untagged = (\<exists>r \<in> set rows. row_set dict r = {})"
proof -
  let ?w = "div_ceil8 (length dict)"
  have zero: "row_ok dict r \<Longrightarrow> is_zero r = (row_set dict r = {})" for r
    using row_tests(1)[OF d, of r "\<lparr>tm_bits = replicate ?w 0, tm_width = ?w, tm_present = 0, tm_missing = 0\<rparr>"] by simp
  have union_row: "row_ok dict (map (\<lambda>(u, b). u OR b) (zip u r))
      \<and> row_set dict (map (\<lambda>(u, b). u OR b) (zip u r)) = row_set dict u \<union> row_set dict r"
    if "row_ok dict u" "row_ok dict r" for u r
  proof -
    have len: "length u = ?w" "length r = ?w" using that by (auto simp: row_ok_def)
    have b: "bit_at (map (\<lambda>(u, b). u OR b) (zip u r)) j = (bit_at u j \<or> bit_at r j)" if "j < 8 * ?w" for j
    proof -
      have "j div 8 < ?w" using that by auto
      with len show ?thesis by (simp add: bit_at_iff bit_or_iff)
    qed
    have "\<And>t. t < length dict \<Longrightarrow> t < 8 * ?w" using div_ceil8_bound(1)[of "length dict"] by simp
    with b that len show ?thesis by (auto simp: row_ok_def row_set_def)
  qed
  have fold: "row_ok dict u \<Longrightarrow> \<forall>r \<in> set rs. row_ok dict r \<Longrightarrow>
      foldl (\<lambda>(un, any) row. (map (\<lambda>(u, b). u OR b) (zip un row), any \<or> is_zero row)) (u, a) rs = (u', a') \<Longrightarrow>
      row_ok dict u' \<and> row_set dict u' = row_set dict u \<union> (\<Union>r \<in> set rs. row_set dict r)
      \<and> a' = (a \<or> (\<exists>r \<in> set rs. row_set dict r = {}))" for rs u a u' a'
  proof (induction rs arbitrary: u a)
    case (Cons r rs)
    let ?u = "map (\<lambda>(u, b). u OR b) (zip u r)"
    have u: "row_ok dict ?u" "row_set dict ?u = row_set dict u \<union> row_set dict r"
      using union_row[of u r] Cons.prems by auto
    from Cons.IH[OF u(1), of "a \<or> is_zero r"] Cons.prems u(2) zero[of r] show ?case by auto
  qed simp
  have "row_ok dict un \<and> row_set dict un = (\<Union>r \<in> set rows. row_set dict r)
      \<and> any_untagged = (\<exists>r \<in> set rows. row_set dict r = {})"
  proof (cases "?w = 0")
    case True
    then have "dict = []" using div_ceil8_bound(2)[of "length dict"] by simp
    with True s show ?thesis by (cases rows) (auto simp: tag_summary_def row_ok_def row_set_def)
  next
    case False
    then have "chunks_exact ?w (concat rows) = rows" using rows by (intro chunks_exact_concat) (auto simp: row_ok_def)
    with False s have "foldl (\<lambda>(un, any) row. (map (\<lambda>(u, b). u OR b) (zip un row), any \<or> is_zero row))
        (replicate ?w 0, False) rows = (un, any_untagged)" by (simp add: tag_summary_def)
    from fold[OF row_ok_zero rows this] show ?thesis by simp
  qed
  then show "row_ok dict un" "row_set dict un = (\<Union>r \<in> set rows. row_set dict r)"
    "any_untagged = (\<exists>r \<in> set rows. row_set dict r = {})" by auto
qed

text \<open>The bitwise block test is the cluster test of the core crate on the block's tag un.\<close>
lemma any_can_pass_cluster_admits:
  assumes col: "tag_column b mt" and ne: "vb_ids b \<noteq> []"
  shows "any_can_pass b (vb_tag_mask b req) mode =
    cluster_admits (tag_filter_new req mode) (vb_tag_dict b) (\<exists>ts \<in> set mt. ts = [])"
proof -
  let ?mk = "vb_tag_mask b req" and ?dict = "vb_tag_dict b" and ?u = "vb_tag_union b"
  let ?rows = "map (tag_row ?dict) mt"
  note d = tag_column_dict[OF col]
  note mk = vb_tag_mask_correct[OF d(1), of req]
  have rs: "row_set ?dict (tag_row ?dict ts) = set ts" if "ts \<in> set mt" for ts
    using tag_row_correct(2)[OF d(1), of ts] d(2) that by auto
  have s: "tag_summary (concat ?rows) (div_ceil8 (length ?dict)) (length ?rows) = (?u, vb_any_untagged b)"
    using col by (simp add: tag_column_def tag_bitmap_width_def)
  note u = tag_summary_rows[OF d(1) _ s] 
  have rows: "\<forall>r \<in> set ?rows. row_ok ?dict r" using tag_row_correct(1)[OF d(1)] by auto
  have any: "vb_any_untagged b = (\<exists>ts \<in> set mt. ts = [])" using u(3)[OF rows] rs by auto
  have ud: "row_set ?dict ?u = set ?dict" using u(2)[OF rows] rs d(2) by simp
  note t = row_tests[OF d(1) u(1)[OF rows] mk(1)]
  have "mask_overlaps ?u ?mk = (set ?dict \<inter> set req \<noteq> {})" "mask_contains_all ?u ?mk = (set req \<subseteq> set ?dict)"
    unfolding t ud mk(2) mk(4) by auto
  then show ?thesis using any mk(3,5) col ne
    by (cases mode) (auto simp: any_can_pass_def cluster_admits_def tag_filter_new_def tag_column_def Let_def)
qed

section \<open>The write-time column\<close>

lemma updated_summary_bounds:
  assumes "updated_summary us = (lo, hi)" "u \<in> set us" "u \<noteq> UPDATED_UNKNOWN"
  shows "lo \<le> u" "u \<le> hi"
proof -
  have "foldl (\<lambda>(lo, hi) u. if u \<noteq> UPDATED_UNKNOWN then (min lo u, max hi u) else (lo, hi)) (l, h) us = (lo, hi) \<Longrightarrow>
      lo \<le> l \<and> h \<le> hi \<and> (u \<in> set us \<longrightarrow> lo \<le> u \<and> u \<le> hi)" for l h
  proof (induction us arbitrary: l h)
    case (Cons x us)
    show ?case
    proof (cases "x = UPDATED_UNKNOWN")
      case True
      with Cons.prems have "foldl (\<lambda>(lo, hi) u. if u \<noteq> UPDATED_UNKNOWN then (min lo u, max hi u) else (lo, hi)) (l, h) us = (lo, hi)"
        by simp
      from Cons.IH[OF this] True assms(3) show ?thesis by auto
    next
      case False
      with Cons.prems have "foldl (\<lambda>(lo, hi) u. if u \<noteq> UPDATED_UNKNOWN then (min lo u, max hi u) else (lo, hi)) (min l x, max h x) us = (lo, hi)"
        by simp
      from Cons.IH[OF this] show ?thesis by auto
    qed
  qed simp
  from this[OF assms(1)[unfolded updated_summary_def]] assms(2) show "lo \<le> u" "u \<le> hi" by auto
qed

lemma any_can_pass_updated_sound:
  assumes "updated_summary (vb_updated b) = (vb_updated_min b, vb_updated_max b)"
    and "vb_has_updated b \<longrightarrow> length (vb_updated b) = length (vb_ids b)"
    and "passes_updated b i from to"
  shows "any_can_pass_updated b from to"
proof (cases "(from = None \<and> to = None) \<or> \<not> vb_has_updated b")
  case True
  with assms(3) show ?thesis by (auto simp: passes_updated_def any_can_pass_updated_def split: if_splits)
next
  case False
  with assms(2,3) have i: "i < length (vb_updated b)" "i < length (vb_ids b)"
    and u: "vb_updated b ! i \<noteq> UPDATED_UNKNOWN" "window_admits from to (vb_updated b ! i) (vb_updated b ! i)"
    by (auto simp: passes_updated_def Let_def split: if_splits)
  from updated_summary_bounds[OF assms(1) nth_mem[OF i(1)] u(1)] u(2) i(2) False show ?thesis
    by (auto simp: any_can_pass_updated_def window_admits_def split: option.splits)
qed

section \<open>Pruning as an interface\<close>

text \<open>A scan that first tests whole containers and then their members: when no container that holds a
  passing member is rejected, testing containers changes nothing.\<close>
locale pruning =
  fixes ok :: "'c \<Rightarrow> bool" and admits :: "'c \<Rightarrow> bool" and members :: "'c \<Rightarrow> 'm list" and passes :: "'c \<Rightarrow> 'm \<Rightarrow> bool"
  assumes sound: "ok c \<Longrightarrow> m \<in> set (members c) \<Longrightarrow> passes c m \<Longrightarrow> admits c"
begin

lemma pruned_scan:
  "\<forall>c \<in> set cs. ok c \<Longrightarrow>
     concat (map (\<lambda>c. filter (passes c) (members c)) (filter admits cs)) = concat (map (\<lambda>c. filter (passes c) (members c)) cs)"
proof (induction cs)
  case (Cons c cs)
  have "\<not> admits c \<Longrightarrow> filter (passes c) (members c) = []"
    using sound[of c] Cons.prems by (auto simp: filter_empty_conv)
  with Cons show ?case by simp
qed simp

end

section \<open>Properties\<close>

lemma encode_inner_columns:
  assumes "encode_inner A codec dm ids vectors (Some mt) us = Inr b" "length mt = length ids"
  shows "tag_column b mt" "vb_ids b = ids" "vb_has_updated b = (us \<noteq> None)"
    "vb_updated b = (case us of Some us \<Rightarrow> us | None \<Rightarrow> [])"
    "updated_summary (vb_updated b) = (vb_updated_min b, vb_updated_max b)"
  using assms
  by (auto simp: encode_inner_def tag_column_def tag_bitmap_width_def Let_def split_beta split: if_splits option.splits)

lemma encode_inner_total:
  "length ids = length vectors \<Longrightarrow> \<forall>v \<in> set vectors. length v = dm \<Longrightarrow> \<exists>b. encode_inner A codec dm ids vectors mt us = Inr b"
proof -
  assume "length ids = length vectors" "\<forall>v \<in> set vectors. length v = dm"
  moreover from this(2) have "find (\<lambda>v. length v \<noteq> dm) vectors = None" by (simp add: find_None_iff)
  ultimately show ?thesis by (simp add: encode_inner_def Let_def split_beta)
qed

text \<open>C28. The tag filter over a block's bitmaps is exact: for every block encoded with its members' tags,
  every request and every mode, a member passes the compiled mask exactly when \<open>TagFilter::matches\<close>
  accepts its tags, untagged members included, and decoding its bitmap gives back its tags, sorted
  and without repeats.\<close>
theorem block_filter_exact:
  assumes "encode_inner A codec dm ids vectors (Some mt) us = Inr b" "length mt = length ids" "i < length ids"
  shows "vb_passes b i (vb_tag_mask b req) mode = tag_filter_matches (tag_filter_new req mode) (mt ! i)
    \<and> member_tags b i = sort_dedup (mt ! i)"
proof -
  note col = encode_inner_columns(1)[OF assms(1,2)]
  have i: "i < length mt" using assms(2,3) by simp
  let ?dict = "vb_tag_dict b" and ?row = "tag_row (vb_tag_dict b) (mt ! i)"
  note d = tag_column_dict[OF col]
  let ?ts = "map (\<lambda>t. ?dict ! t) (filter (bit_at ?row) [0..<length ?dict])"
  have "set ?ts = row_set ?dict ?row" by (auto simp: row_set_def)
  then have "set ?ts = set (mt ! i)" using row_set_member[OF col i] by simp
  moreover have "sorted_wrt (<) ?ts"
    using d(1) unfolding sorted_wrt_map
    by (intro sorted_wrt_filter) (auto simp: sorted_wrt_iff_nth_less)
  ultimately have "member_tags b i = sort_dedup (mt ! i)"
    using member_bits_column[OF col i] strict_sorted_equal[of ?ts "sort_dedup (mt ! i)"]
    by (simp add: member_tags_def strict_sorted_sort_dedup)
  with vb_passes_matches[OF col i] show ?thesis by simp
qed


theorem block_filter_exact_witness:
  "\<forall>A :: (f32, nat) arith. \<exists>b. encode_inner A F32 1 [MemoryId [1], MemoryId [2]] [[0], [7]] (Some [[''b'', ''a''], []]) None = Inr b
     \<and> \<not> vb_passes b 1 (vb_tag_mask b [''a'']) AllStrict \<and> member_tags b 0 = sort_dedup [''b'', ''a'']"
proof
  fix A :: "(f32, nat) arith"
  have "\<exists>b. encode_inner A F32 1 [MemoryId [1], MemoryId [2]] [[0], [7]] (Some [[''b'', ''a''], []]) None = Inr b"
    by (rule encode_inner_total) auto
  then obtain b where b: "encode_inner A F32 1 [MemoryId [1], MemoryId [2]] [[0], [7]] (Some [[''b'', ''a''], []]) None = Inr b" ..
  from block_filter_exact[OF b, of 0 "[''a'']" AllStrict] block_filter_exact[OF b, of 1 "[''a'']" AllStrict] b
  show "\<exists>b. encode_inner A F32 1 [MemoryId [1], MemoryId [2]] [[0], [7]] (Some [[''b'', ''a''], []]) None = Inr b
     \<and> \<not> vb_passes b 1 (vb_tag_mask b [''a'']) AllStrict \<and> member_tags b 0 = sort_dedup [''b'', ''a'']"
    by (auto simp: tag_filter_matches_def tag_filter_new_def)
qed

text \<open>The blocks and write times as the indexer writes them: an unknown write time is the sentinel.\<close>
definition block_ok :: "vector_block \<Rightarrow> bool" where
  "block_ok b = ((vb_has_tags b \<longrightarrow> (\<exists>mt. tag_column b mt)) \<and>
     updated_summary (vb_updated b) = (vb_updated_min b, vb_updated_max b) \<and>
     (vb_has_updated b \<longrightarrow> length (vb_updated b) = length (vb_ids b)))"

definition block_admits :: "string list \<Rightarrow> tags_match \<Rightarrow> millis option \<Rightarrow> millis option \<Rightarrow> vector_block \<Rightarrow> bool" where
  "block_admits req mode from to b = (any_can_pass b (vb_tag_mask b req) mode \<and> any_can_pass_updated b from to)"

definition member_passes :: "string list \<Rightarrow> tags_match \<Rightarrow> millis option \<Rightarrow> millis option \<Rightarrow> vector_block \<Rightarrow> nat \<Rightarrow> bool" where
  "member_passes req mode from to b i = (vb_passes b i (vb_tag_mask b req) mode \<and> passes_updated b i from to)"

lemma any_can_pass_sound:
  assumes "vb_has_tags b \<longrightarrow> (\<exists>mt. tag_column b mt)" "i < length (vb_ids b)" "vb_passes b i (vb_tag_mask b req) mode"
  shows "any_can_pass b (vb_tag_mask b req) mode"
proof (cases "vb_has_tags b")
  case False
  with assms(2) show ?thesis by (auto simp: any_can_pass_def)
next
  case True
  with assms(1) obtain mt where col: "tag_column b mt" by blast
  then have i: "i < length mt" using assms(2) by (simp add: tag_column_def)
  have "cluster_admits (tag_filter_new req mode) (vb_tag_dict b) (\<exists>ts \<in> set mt. ts = [])"
    by (rule cluster_admits_member[of "mt ! i"])
      (use tag_column_dict(2)[OF col] i assms(3) vb_passes_matches[OF col i] in \<open>auto dest: nth_mem\<close>)
  moreover have "vb_ids b \<noteq> []" using assms(2) by auto
  ultimately show ?thesis using any_can_pass_cluster_admits[OF col] by simp
qed

interpretation block_prune: pruning block_ok "block_admits req mode from to" "\<lambda>b. [0..<length (vb_ids b)]"
    "member_passes req mode from to"
  for req mode "from" to
  by unfold_locales
    (auto simp: block_ok_def block_admits_def member_passes_def intro: any_can_pass_sound any_can_pass_updated_sound)

text \<open>Skipping blocks loses nothing: scanning only the blocks whose tag union and write-time range admit
  the query finds exactly the members that scanning every block finds, for any request, mode and
  window.\<close>
theorem block_pruning_lossless:
  assumes "\<forall>b \<in> set bs. block_ok b"
  shows "concat (map (\<lambda>b. filter (member_passes req mode from to b) [0..<length (vb_ids b)]) (filter (block_admits req mode from to) bs))
    = concat (map (\<lambda>b. filter (member_passes req mode from to b) [0..<length (vb_ids b)]) bs)"
  by (rule block_prune.pruned_scan[OF assms])

text \<open>The window of a delete predicate.\<close>
definition window_predicate :: "millis option \<Rightarrow> millis option \<Rightarrow> predicate" where
  "window_predicate from to = \<lparr>p_memory_types = [], p_metadata_equals = [], p_tags = [], p_tags_mode = 0,
     p_updated_from = from, p_updated_to = to\<rparr>"

text \<open>The block's window test is the window of \<open>Predicate::matches\<close>: on a block written with its members'
  write times, an absent one as the sentinel, a member falls inside the window exactly when a
  predicate with those bounds matches it.\<close>
theorem block_window_exact:
  assumes "encode_inner A codec dm ids vectors mt (Some us) = Inr b" "i < length ids" "length us = length ids"
    and "us ! i = (case updated_at (sm_timestamps m) of Some u \<Rightarrow> u | None \<Rightarrow> UPDATED_UNKNOWN)"
    and "updated_at (sm_timestamps m) \<noteq> Some UPDATED_UNKNOWN"
  shows "passes_updated b i from to = predicate_matches (window_predicate from to) m"
proof -
  have b: "vb_ids b = ids" "vb_updated b = us"
    using assms(1) by (auto simp: encode_inner_def Let_def split_beta split: if_splits option.splits)
  show ?thesis using assms(2-) b
    by (cases "updated_at (sm_timestamps m)"; cases "from"; cases to)
      (auto simp: passes_updated_def predicate_matches_def window_predicate_def window_admits_def Let_def)
qed

lemma encoded_block_ok:
  assumes "encode_with_columns A codec dm ids vectors (Some mt) us = Inr b" "length mt = length ids"
  shows "block_ok b"
proof -
  have e: "encode_inner A codec dm ids vectors (Some mt) (Some us) = Inr b" "length us = length ids"
    using assms(1) by (auto simp: encode_with_columns_def split: if_splits)
  from encode_inner_columns[OF e(1) assms(2)] e(2) show ?thesis by (auto simp: block_ok_def)
qed

theorem block_pruning_lossless_witness:
  "\<forall>A :: (f32, nat) arith. \<exists>b. encode_with_columns A F32 1 [MemoryId [1]] [[0]] (Some [[''a'']]) [5] = Inr b \<and>
     concat (map (\<lambda>b. filter (member_passes [''b''] AllStrict None None b) [0..<length (vb_ids b)])
       (filter (block_admits [''b''] AllStrict None None) [b]))
     = concat (map (\<lambda>b. filter (member_passes [''b''] AllStrict None None b) [0..<length (vb_ids b)]) [b])"
proof
  fix A :: "(f32, nat) arith"
  have "\<exists>b. encode_inner A F32 1 [MemoryId [1]] [[0]] (Some [[''a'']]) (Some [5]) = Inr b"
    by (rule encode_inner_total) auto
  then obtain b where b: "encode_with_columns A F32 1 [MemoryId [1]] [[0]] (Some [[''a'']]) [5] = Inr b"
    by (auto simp: encode_with_columns_def)
  have "\<forall>x \<in> set [b]. block_ok x" using encoded_block_ok[OF b] by simp
  from block_pruning_lossless[OF this, of "[''b'']" AllStrict None None] b
  show "\<exists>b. encode_with_columns A F32 1 [MemoryId [1]] [[0]] (Some [[''a'']]) [5] = Inr b \<and>
     concat (map (\<lambda>b. filter (member_passes [''b''] AllStrict None None b) [0..<length (vb_ids b)])
       (filter (block_admits [''b''] AllStrict None None) [b]))
     = concat (map (\<lambda>b. filter (member_passes [''b''] AllStrict None None b) [0..<length (vb_ids b)]) [b])"
    by blast
qed

theorem block_window_exact_witness:
  "\<forall>A :: (f32, nat) arith. \<exists>b. encode_inner A F32 1 [MemoryId [1]] [[0]] None (Some [5]) = Inr b \<and>
     passes_updated b 0 (Some 4) None"
proof
  fix A :: "(f32, nat) arith"
  have "\<exists>b. encode_inner A F32 1 [MemoryId [1]] [[0]] None (Some [5]) = Inr b"
    by (rule encode_inner_total) auto
  then obtain b where b: "encode_inner A F32 1 [MemoryId [1]] [[0]] None (Some [5]) = Inr b" ..
  define m where "m = (into_stored (plain_memory (MemoryId [1]) ''t'' []))
    \<lparr>sm_timestamps := no_timestamps\<lparr>updated_at := Some 5\<rparr>\<rparr>"
  have "passes_updated b 0 (Some 4) None = predicate_matches (window_predicate (Some 4) None) m"
    by (rule block_window_exact[OF b]) (simp_all add: m_def UPDATED_UNKNOWN_def I64_MIN_def)
  with b show "\<exists>b. encode_inner A F32 1 [MemoryId [1]] [[0]] None (Some [5]) = Inr b \<and> passes_updated b 0 (Some 4) None"
    by (auto simp: predicate_matches_def window_predicate_def m_def)
qed

end
