(* ===== verification/Vector_Bytes.thy ===== *)
theory Vector_Bytes
  imports Vector_Filter
begin

text \<open>
  The binary format of a vector block (\<open>mlake-ivf/src/vectors.rs\<close>, \<open>VectorBlock::to_bytes\<close> and
  \<open>VectorBlock::from_bytes\<close>): what the encoders produce fits the format's fixed-width fields, and the parser
  reads it back.  The section lemmas read one section in the middle of the bytes; the block lemma chains them at the
  offsets the parser computes with checked arithmetic.
\<close>

section \<open>Strings and integers\<close>

lemma bytes_str_bytes [simp]: "bytes_str (str_bytes t) = t"
proof -
  have "unat (of_nat (of_char c) :: u8) = of_char c" for c
  proof -
    have "(of_char c :: nat) mod 256 = of_char c" by (metis char_of_char of_char_of)
    then show ?thesis by (simp add: unat_of_nat)
  qed
  then show ?thesis by (simp add: bytes_str_def str_bytes_def comp_def)
qed

lemma length_str_bytes [simp]: "length (str_bytes t) = length t"
  by (simp add: str_bytes_def)

lemma sint_word_of_int_i64: "is_i64 u \<Longrightarrow> sint (word_of_int u :: u64) = u"
  by (simp add: is_i64_def I64_MIN_def I64_MAX_def signed_of_int signed_take_bit_int_eq_self)

interpretation i64s: fixed_width 8 "\<lambda>u. le_word 8 (word_of_int u :: u64)" "\<lambda>x. sint (word_le x :: u64)" is_i64
  by unfold_locales (simp_all add: sint_word_of_int_i64)

lemma adjacent_sorted: "(\<not> list_ex (\<lambda>(a, b). b \<le> a) (zip xs (tl xs))) = sorted_wrt (<) (xs :: 'a::linorder list)"
proof (induction xs)
  case (Cons x xs)
  show ?case
  proof (cases xs)
    case (Cons y ys)
    with Cons.IH show ?thesis by (auto simp: not_le intro: order.strict_trans)
  qed simp
qed simp

section \<open>Reading a section in the middle\<close>

lemma bytes_get_mid [simp]: "length a = lo \<Longrightarrow> length b + lo = hi \<Longrightarrow> bytes_get lo hi (a @ b @ c) = Inr b"
  by (auto simp: bytes_get_def slice_def)

lemma checked_mul_add_ok [simp]: "a * b + c < 2 ^ 64 \<Longrightarrow> checked_mul_add a b c = Inr (a * b + c)"
  by (simp add: checked_mul_add_def)

lemma u32_at_mid:
  assumes "length pre = c" "n < 2 ^ 32" "length (pre @ to_le 4 n @ post) < 2 ^ 64"
  shows "u32_at (pre @ to_le 4 n @ post) c = Inr (n, c + 4)"
  using assms by (simp add: u32_at_def from_le_to_le)

definition dict_bytes :: "string list \<Rightarrow> bytes" where
  "dict_bytes dict = concat (map (\<lambda>t. to_le 4 (length t) @ str_bytes t) dict)"

lemma dict_bytes_simps [simp]:
  "dict_bytes [] = []" "dict_bytes (t # ts) = to_le 4 (length t) @ str_bytes t @ dict_bytes ts"
  by (simp_all add: dict_bytes_def)

lemma length_dict_bytes: "4 * length dict \<le> length (dict_bytes dict)"
  by (induction dict) auto

text \<open>What a dictionary entry must be: a string of the language, short enough for its length field.\<close>
definition entry_ok :: "string \<Rightarrow> bool" where
  "entry_ok t = (utf8_valid (str_bytes t) \<and> length t < 2 ^ 32)"

lemma parse_dict_mid:
  "length pre = c \<Longrightarrow> \<forall>t \<in> set dict. entry_ok t \<Longrightarrow> length (pre @ dict_bytes dict @ post) < 2 ^ 64 \<Longrightarrow>
     parse_dict (pre @ dict_bytes dict @ post) (length dict) c = Inr (dict, c + length (dict_bytes dict))"
proof (induction dict arbitrary: pre c)
  case (Cons t ts)
  let ?bs = "pre @ dict_bytes (t # ts) @ post"
  have u: "u32_at ?bs c = Inr (length t, c + 4)"
    using u32_at_mid[of pre c "length t" "str_bytes t @ dict_bytes ts @ post"] Cons.prems by (simp add: entry_ok_def)
  have g: "bytes_get (c + 4) (c + 4 + length t) ?bs = Inr (str_bytes t)"
    using bytes_get_mid[of "pre @ to_le 4 (length t)" "c + 4" "str_bytes t" "c + 4 + length t" "dict_bytes ts @ post"] Cons.prems(1)
    by simp
  have ih: "parse_dict ?bs (length ts) (c + 4 + length t) = Inr (ts, c + 4 + length t + length (dict_bytes ts))"
    using Cons.IH[of "pre @ to_le 4 (length t) @ str_bytes t" "c + 4 + length t"] Cons.prems by simp
  have "from_utf8 (str_bytes t) = Some t" using Cons.prems(2) by (simp add: from_utf8_def entry_ok_def)
  with u g ih Cons.prems show ?case by (simp add: add.assoc)
qed simp

lemma parse_tag_column_mid:
  assumes "length pre = c" "\<forall>t \<in> set dict. entry_ok t" "sorted_wrt (<) dict" "length dict < 2 ^ 32"
    and "length bits = cnt * div_ceil8 (length dict)"
    and "length (pre @ to_le 4 (length dict) @ dict_bytes dict @ bits @ post) < 2 ^ 64"
  shows "parse_tag_column True cnt (pre @ to_le 4 (length dict) @ dict_bytes dict @ bits @ post) c
    = Inr (dict, bits, c + 4 + length (dict_bytes dict) + length bits)"
proof -
  let ?bs = "pre @ to_le 4 (length dict) @ dict_bytes dict @ bits @ post"
  have u: "u32_at ?bs c = Inr (length dict, c + 4)"
    using u32_at_mid[of pre c "length dict" "dict_bytes dict @ bits @ post"] assms by simp
  have room: "\<not> (length ?bs - (c + 4)) div 4 < length dict"
    using length_dict_bytes[of dict] assms(1) by simp
  have p: "parse_dict ?bs (length dict) (c + 4) = Inr (dict, c + 4 + length (dict_bytes dict))"
    using parse_dict_mid[of "pre @ to_le 4 (length dict)" "c + 4" dict "bits @ post"] assms by simp
  have g: "bytes_get (c + 4 + length (dict_bytes dict)) (c + 4 + length (dict_bytes dict) + length bits) ?bs = Inr bits"
    using bytes_get_mid[of "pre @ to_le 4 (length dict) @ dict_bytes dict" "c + 4 + length (dict_bytes dict)" bits
        "c + 4 + length (dict_bytes dict) + length bits" post] assms(1)
    by simp
  have "checked_mul_add cnt (div_ceil8 (length dict)) (c + 4 + length (dict_bytes dict))
      = Inr (c + 4 + length (dict_bytes dict) + length bits)"
    using assms by (simp add: checked_mul_add_def)
  with u room p g assms(3) show ?thesis
    by (simp add: parse_tag_column_def adjacent_sorted[of dict, symmetric])
qed


section \<open>The round trip\<close>

text \<open>A block that fits the format's fields.\<close>
definition block_wf :: "(f32, 'd) arith \<Rightarrow> vector_block \<Rightarrow> bool" where
  "block_wf A b = (\<exists>codec. vb_codec b = Some codec \<and> vb_rot b = rot_from A codec (vb_dim b) \<and>
     vb_dim b < 2 ^ 32 \<and> length (vb_ids b) < 2 ^ 32 \<and> list_all id16 (vb_ids b) \<and>
     length (vb_mean b) = (if codec = F32 then 0 else vb_dim b) \<and>
     length (vb_codes b) = length (vb_ids b) * bytes_per_vector codec (vb_dim b) \<and>
     (if vb_has_tags b
      then sorted_wrt (<) (vb_tag_dict b) \<and> (\<forall>t \<in> set (vb_tag_dict b). entry_ok t) \<and> length (vb_tag_dict b) < 2 ^ 32 \<and>
        length (vb_tag_bits b) = length (vb_ids b) * div_ceil8 (length (vb_tag_dict b))
      else vb_tag_dict b = [] \<and> vb_tag_bits b = []) \<and>
     tag_summary (vb_tag_bits b) (div_ceil8 (length (vb_tag_dict b))) (length (vb_ids b)) = (vb_tag_union b, vb_any_untagged b) \<and>
     (if vb_has_updated b then length (vb_updated b) = length (vb_ids b) \<and> list_all is_i64 (vb_updated b) else vb_updated b = []) \<and>
     updated_summary (vb_updated b) = (vb_updated_min b, vb_updated_max b) \<and>
     length (vb_to_bytes b) < 2 ^ 64)"

definition header_bytes :: "vector_block \<Rightarrow> bytes" where
  "header_bytes b = VB_MAGIC @ [VB_FORMAT_VERSION, codec_tag (vb_get_codec b), flags_byte b, 0]
     @ to_le 4 (vb_dim b) @ to_le 4 (length (vb_ids b))"

definition tag_bytes :: "vector_block \<Rightarrow> bytes" where
  "tag_bytes b = (if vb_has_tags b then to_le 4 (length (vb_tag_dict b)) @ dict_bytes (vb_tag_dict b) @ vb_tag_bits b else [])"

definition updated_bytes :: "vector_block \<Rightarrow> bytes" where
  "updated_bytes b = (if vb_has_updated b then concat (map (\<lambda>u. le_word 8 (word_of_int u :: u64)) (vb_updated b)) else [])"

lemma vb_to_bytes_sections:
  "vb_to_bytes b = header_bytes b @ concat (map mid_bytes (vb_ids b)) @ concat (map (le_word 4) (vb_mean b))
     @ tag_bytes b @ updated_bytes b @ vb_codes b"
  by (simp add: vb_to_bytes_def header_bytes_def tag_bytes_def updated_bytes_def dict_bytes_def)

lemma length_header [simp]: "length (header_bytes b) = 16"
  by (simp add: header_bytes_def VB_MAGIC_def)

lemma header_fields:
  fixes rest
  assumes "vb_dim b < 2 ^ 32" "length (vb_ids b) < 2 ^ 32"
  defines "bs \<equiv> header_bytes b @ rest"
  shows "slice 0 4 bs = VB_MAGIC" "bs ! 4 = VB_FORMAT_VERSION" "bs ! 5 = codec_tag (vb_get_codec b)" "bs ! 6 = flags_byte b"
    "from_le (slice 8 12 bs) = vb_dim b" "from_le (slice 12 16 bs) = length (vb_ids b)"
proof -
  have bs: "bs = VB_MAGIC @ [VB_FORMAT_VERSION, codec_tag (vb_get_codec b), flags_byte b, 0]
      @ to_le 4 (vb_dim b) @ to_le 4 (length (vb_ids b)) @ rest"
    by (simp add: bs_def header_bytes_def)
  show "slice 0 4 bs = VB_MAGIC" "bs ! 4 = VB_FORMAT_VERSION" "bs ! 5 = codec_tag (vb_get_codec b)" "bs ! 6 = flags_byte b"
    by (simp_all add: bs VB_MAGIC_def slice_def)
  have "slice 8 12 bs = to_le 4 (vb_dim b)" "slice 12 16 bs = to_le 4 (length (vb_ids b))"
    by (simp_all add: bs VB_MAGIC_def slice_def)
  with assms show "from_le (slice 8 12 bs) = vb_dim b" "from_le (slice 12 16 bs) = length (vb_ids b)"
    by (simp_all add: from_le_to_le)
qed

lemma flags_fields:
  "flags_byte b AND NOT (FLAG_HAS_TAGS OR FLAG_HAS_UPDATED) = 0"
  "(flags_byte b AND FLAG_HAS_TAGS \<noteq> 0) = vb_has_tags b" "(flags_byte b AND FLAG_HAS_UPDATED \<noteq> 0) = vb_has_updated b"
  by (simp_all add: flags_byte_def FLAG_HAS_TAGS_def FLAG_HAS_UPDATED_def)

lemma codec_from_tag_tag [simp]: "codec_from_tag (codec_tag c) = Some c"
  by (cases c) (simp_all add: codec_from_tag_def)

lemma parse_tag_bytes:
  assumes "block_wf A b" "length pre = c" "length (pre @ tag_bytes b @ post) < 2 ^ 64"
  shows "parse_tag_column (vb_has_tags b) (length (vb_ids b)) (pre @ tag_bytes b @ post) c
    = Inr (vb_tag_dict b, vb_tag_bits b, c + length (tag_bytes b))"
proof (cases "vb_has_tags b")
  case True
  with assms parse_tag_column_mid[of pre c "vb_tag_dict b" "vb_tag_bits b" "length (vb_ids b)" post]
  show ?thesis by (auto simp: block_wf_def tag_bytes_def)
next
  case False
  with assms(1) show ?thesis by (auto simp: parse_tag_column_def tag_bytes_def block_wf_def)
qed

lemma parse_updated_bytes:
  assumes "block_wf A b" "length pre = c" "length (pre @ updated_bytes b @ post) < 2 ^ 64"
  shows "parse_updated (vb_has_updated b) (length (vb_ids b)) (pre @ updated_bytes b @ post) c
    = Inr (vb_updated b, c + length (updated_bytes b))"
proof (cases "vb_has_updated b")
  case True
  let ?u = "concat (map (\<lambda>u. le_word 8 (word_of_int u :: u64)) (vb_updated b))"
  have ok: "list_all is_i64 (vb_updated b)" "length (vb_updated b) = length (vb_ids b)"
    using assms(1) True by (auto simp: block_wf_def)
  have l: "length ?u = 8 * length (vb_ids b)" using i64s.length_concat_enc[OF ok(1)] ok(2) by simp
  have "bytes_get c (length (vb_ids b) * 8 + c) (pre @ ?u @ post) = Inr ?u"
    using l assms(2) by (intro bytes_get_mid) auto
  with True assms l i64s.decode_concat[OF ok(1)] show ?thesis
    by (simp add: parse_updated_def updated_bytes_def add.commute mult.commute)
next
  case False
  with assms(1) show ?thesis by (auto simp: parse_updated_def updated_bytes_def block_wf_def)
qed

text \<open>The parser reads back what was written, and nothing when bytes follow it.\<close>
lemma vb_from_to_bytes:
  assumes wf: "block_wf A b" and lim: "length (vb_to_bytes b @ x) < 2 ^ 64"
  shows "vb_from_bytes A (vb_to_bytes b @ x) = (if x = [] then Inr b else Inl Decode)"
proof -
  obtain codec where c: "vb_codec b = Some codec" "vb_rot b = rot_from A codec (vb_dim b)"
    "vb_dim b < 2 ^ 32" "length (vb_ids b) < 2 ^ 32" "list_all id16 (vb_ids b)"
    "length (vb_mean b) = (if codec = F32 then 0 else vb_dim b)"
    "length (vb_codes b) = length (vb_ids b) * bytes_per_vector codec (vb_dim b)"
    "tag_summary (vb_tag_bits b) (div_ceil8 (length (vb_tag_dict b))) (length (vb_ids b)) = (vb_tag_union b, vb_any_untagged b)"
    "updated_summary (vb_updated b) = (vb_updated_min b, vb_updated_max b)"
    using wf by (auto simp: block_wf_def)
  define n I M where "n = length (vb_ids b)" and "I = concat (map mid_bytes (vb_ids b))"
    and "M = concat (map (le_word 4) (vb_mean b))"
  let ?H = "header_bytes b" and ?T = "tag_bytes b" and ?U = "updated_bytes b" and ?C = "vb_codes b"
  define bs where "bs = vb_to_bytes b @ x"
  have bs: "bs = ?H @ I @ M @ ?T @ ?U @ ?C @ x" by (simp add: bs_def vb_to_bytes_sections I_def M_def)
  have lI: "length I = n * 16" using ids.length_concat_enc[OF c(5)] by (simp add: I_def n_def)
  have lM: "length M = (if codec = F32 then 0 else vb_dim b) * 4"
    using floats.length_concat_enc[of "vb_mean b"] c(6) by (simp add: M_def list_all_iff)
  have len: "length bs < 2 ^ 64" using lim by (simp add: bs_def)
  have total: "length bs = 16 + length I + length M + length ?T + length ?U + length ?C + length x" by (simp add: bs)
  note h = header_fields[OF c(3,4), of "I @ M @ ?T @ ?U @ ?C @ x", folded bs]
  have gc: "vb_get_codec b = codec" using c(1) by (simp add: vb_get_codec_def)
  have e1: "checked_mul_add n ID_LEN VB_HEADER_LEN = Inr (16 + length I)"
    using len total lI by (simp add: checked_mul_add_def ID_LEN_def VB_HEADER_LEN_def)
  have e2: "checked_mul_add (if codec = F32 then 0 else vb_dim b) 4 (16 + length I) = Inr (16 + length I + length M)"
    using len total lM by (simp add: checked_mul_add_def)
  have e3: "parse_tag_column (vb_has_tags b) n bs (16 + length I + length M)
      = Inr (vb_tag_dict b, vb_tag_bits b, 16 + length I + length M + length ?T)"
    using parse_tag_bytes[OF wf, of "?H @ I @ M" "16 + length I + length M" "?U @ ?C @ x"] len by (simp add: bs n_def)
  have e4: "parse_updated (vb_has_updated b) n bs (16 + length I + length M + length ?T)
      = Inr (vb_updated b, 16 + length I + length M + length ?T + length ?U)"
    using parse_updated_bytes[OF wf, of "?H @ I @ M @ ?T" "16 + length I + length M + length ?T" "?C @ x"] len
    by (simp add: bs n_def)
  have e5: "checked_mul_add n (bytes_per_vector codec (vb_dim b)) (16 + length I + length M + length ?T + length ?U)
      = Inr (length bs - length x)"
    using len total c(7) by (simp add: checked_mul_add_def n_def)
  have ids: "map MemoryId (chunks_exact ID_LEN (slice VB_HEADER_LEN (16 + length I) bs)) = vb_ids b"
    using ids.decode_concat[OF c(5)] by (simp add: bs slice_def VB_HEADER_LEN_def ID_LEN_def I_def)
  have mean: "map word_le (chunks_exact 4 (slice (16 + length I) (16 + length I + length M) bs)) = vb_mean b"
    using floats.decode_concat[of "vb_mean b"] by (simp add: bs slice_def M_def list_all_iff)
  have codes: "drop (16 + length I + length M + length ?T + length ?U) bs = ?C @ x" by (simp add: bs)
  have "\<not> length bs < VB_HEADER_LEN" "\<not> length bs < 16 + length I + length M"
    using total by (simp_all add: VB_HEADER_LEN_def)
  then have "vb_from_bytes A bs = (if length bs \<noteq> length bs - length x then Inl Decode else Inr (b\<lparr>vb_codes := ?C @ x\<rparr>))"
    unfolding vb_from_bytes_def h gc codec_from_tag_tag option.case Let_def flags_fields n_def[symmetric] e1 e2 e3 e4 e5
      res_bind.simps prod.case
    using c(1,2,8,9) by (simp add: ids mean codes n_def flags_fields)
  then show ?thesis using total by (auto simp: bs_def)
qed


section \<open>Encoding fits the format\<close>

lemma length_hadamard_any: "sum_list segs = length v \<Longrightarrow> length (hadamard A segs v) = length v"
  by (induction segs arbitrary: v) (auto simp: Let_def)

lemma length_rotation_apply: "length v = dm \<Longrightarrow> length (rotation_apply A (rotation_derive A dm) v) = dm"
proof -
  let ?ro = "rotation_derive A dm"
  have seg: "sum_list (ro_segments ?ro) = dm" "ro_dim ?ro = dm"
    using hadamard_segments_ok[of dm] by (simp_all add: rotation_derive_def)
  have "length v = dm \<Longrightarrow> length (foldl (\<lambda>v r. rotate_round A ?ro r v) v rs) = dm" for rs v
  proof (induction rs arbitrary: v)
    case (Cons r rs)
    have "length (rotate_round A ?ro r v) = dm" using seg by (simp add: rotate_round_def length_hadamard_any)
    with Cons.IH show ?case by simp
  qed simp
  then show "length v = dm \<Longrightarrow> ?thesis" by (simp add: rotation_apply_def)
qed

lemma length_block_mean [simp]: "length (block_mean A dm vectors) = dm"
proof -
  have "length (foldl (\<lambda>acc v. map (\<lambda>(a, x). dadd A a (widen A x)) (zip acc v) @ drop (length v) acc) acc vs) = length acc"
    for acc and vs :: "'a list list"
    by (induction vs arbitrary: acc) (auto simp: min_def)
  then show ?thesis by (simp add: block_mean_def Let_def)
qed

lemma length_encode_binary: "length (snd (encode_binary A r rn vn)) = div_ceil8 (length r)"
proof -
  have "length (fold (\<lambda>(j, x) bits. if fle A (lit A 0) x then set_bit_at j bits else bits) ps bs) = length bs" for ps bs
    by (induction ps arbitrary: bs) auto
  then show ?thesis by (simp add: encode_binary_def Let_def)
qed

lemma length_code_bytes: "length (code_bytes e) = 12 + length (snd e)"
  by (auto simp: code_bytes_def split: prod.split)

lemma length_member_code:
  assumes "length v = dm" "codec \<noteq> F32 \<Longrightarrow> length mean = dm"
  shows "length (member_code A codec (rot_from A codec dm) mean v) = bytes_per_vector codec dm"
proof (cases codec)
  case F32
  then show ?thesis using floats.length_concat_enc[of v] assms(1)
    by (simp add: member_code_def list_all_iff mult.commute)
next
  case Int8
  then show ?thesis using assms
    by (simp add: member_code_def length_code_bytes encode_int8_def Let_def residual_def CORRECTIVE_LEN_def)
next
  case Binary
  have "length (residual A v mean) = dm" using Binary assms by (simp add: residual_def)
  then show ?thesis using Binary
    by (simp add: member_code_def length_code_bytes length_encode_binary rot_from_def length_rotation_apply
        CORRECTIVE_LEN_def Let_def)
qed

text \<open>What the caller of an encoder provides.\<close>
definition columns_ok :: "nat \<Rightarrow> memory_id list \<Rightarrow> string list list option \<Rightarrow> millis list option \<Rightarrow> bool" where
  "columns_ok dm ids mt us = (dm < 2 ^ 32 \<and> length ids < 2 ^ 32 \<and> list_all id16 ids \<and>
     (case mt of None \<Rightarrow> True | Some mt \<Rightarrow> length mt = length ids \<and> (\<forall>ts \<in> set mt. \<forall>t \<in> set ts. entry_ok t)
        \<and> length (sort_dedup (concat mt)) < 2 ^ 32) \<and>
     (case us of None \<Rightarrow> True | Some us \<Rightarrow> length us = length ids \<and> list_all is_i64 us))"

lemma length_concat_const: "\<forall>x \<in> set xs. length (f x) = w \<Longrightarrow> length (concat (map f xs)) = length xs * w"
  by (induction xs) auto

lemma encode_inner_wf:
  assumes enc: "encode_inner A codec dm ids vectors mt us = Inr b" and ok: "columns_ok dm ids mt us"
    and lim: "length (vb_to_bytes b) < 2 ^ 64"
  shows "block_wf A b"
proof -
  have v: "length ids = length vectors" "\<forall>v \<in> set vectors. length v = dm"
    using enc by (auto simp: encode_inner_def find_None_iff split: if_splits option.splits)
  define mean where "mean = (if codec = F32 then [] else block_mean A dm vectors)"
  have b: "vb_codec b = Some codec" "vb_rot b = rot_from A codec dm" "vb_dim b = dm" "vb_ids b = ids" "vb_mean b = mean"
    "vb_codes b = concat (map (member_code A codec (rot_from A codec dm) mean) vectors)"
    "vb_has_tags b = (mt \<noteq> None)" "vb_tag_dict b = (case mt of None \<Rightarrow> [] | Some mt \<Rightarrow> sort_dedup (concat mt))"
    "vb_tag_bits b = (case mt of None \<Rightarrow> [] | Some mt \<Rightarrow> concat (map (tag_row (sort_dedup (concat mt))) mt))"
    "tag_summary (vb_tag_bits b) (div_ceil8 (length (vb_tag_dict b))) (length (vb_ids b)) = (vb_tag_union b, vb_any_untagged b)"
    "vb_has_updated b = (us \<noteq> None)" "vb_updated b = (case us of Some us \<Rightarrow> us | None \<Rightarrow> [])"
    "updated_summary (vb_updated b) = (vb_updated_min b, vb_updated_max b)"
    using enc unfolding mean_def by (auto simp: encode_inner_def Let_def split_beta split: if_splits option.splits)
  have codes: "length (vb_codes b) = length ids * bytes_per_vector codec dm"
    unfolding b(6) v(1)
  proof (rule length_concat_const, rule ballI)
    fix x assume "x \<in> set vectors"
    with v(2) show "length (member_code A codec (rot_from A codec dm) mean x) = bytes_per_vector codec dm"
      by (intro length_member_code) (auto simp: mean_def)
  qed
  have bits: "length (vb_tag_bits b) = length ids * div_ceil8 (length (vb_tag_dict b))" if "mt \<noteq> None"
  proof -
    obtain rows where mt: "mt = Some rows" using \<open>mt \<noteq> None\<close> by auto
    have "\<forall>ts \<in> set rows. length (tag_row (sort_dedup (concat rows)) ts) = div_ceil8 (length (sort_dedup (concat rows)))"
      using tag_row_correct(1)[OF strict_sorted_sort_dedup] by (simp add: row_ok_def)
    from length_concat_const[OF this] show ?thesis using ok b(8,9) by (simp add: mt columns_ok_def)
  qed
  show ?thesis unfolding block_wf_def
    using ok b codes bits lim strict_sorted_sort_dedup
    by (intro exI[of _ codec]) (auto simp: columns_ok_def mean_def split: option.splits)
qed


section \<open>The property\<close>

text \<open>C29. A vector block survives its bytes: for every codec, with or without the tag column and the updated-at
  column, parsing what the encoder wrote gives the block back field for field (the codes, the correction factors, the
  tag dictionary and bitmaps, the timestamps, the cached unions and bounds, and the rotation derived again from the
  dimension), and the same bytes with anything after them are refused as a decoding error, never misread.\<close>
theorem block_bytes_roundtrip:
  fixes A :: "(f32, 'd) arith"
  assumes "encode_inner A codec dm ids vectors mt us = Inr b" "columns_ok dm ids mt us"
    and "length (vb_to_bytes b @ x) < 2 ^ 64"
  shows "vb_from_bytes A (vb_to_bytes b @ x) = (if x = [] then Inr b else Inl Decode)"
  using assms by (intro vb_from_to_bytes encode_inner_wf) auto

theorem block_bytes_roundtrip_witness:
  "\<forall>A :: (f32, nat) arith. \<exists>b. encode_inner A F32 1 [MemoryId (replicate 16 7)] [[1]] (Some [[''team'']]) (Some [5]) = Inr b
     \<and> vb_from_bytes A (vb_to_bytes b @ []) = Inr b \<and> vb_from_bytes A (vb_to_bytes b @ [0]) = Inl Decode"
proof
  fix A :: "(f32, nat) arith"
  let ?ids = "[MemoryId (replicate 16 7)]"
  obtain b where b: "encode_inner A F32 1 ?ids [[1]] (Some [[''team'']]) (Some [5]) = Inr b"
    by (simp add: encode_inner_def Let_def split_beta)
  have lim: "length (vb_to_bytes b @ x) < 2 ^ 64" if "length x \<le> 1" for x
    using b that by (auto simp: encode_inner_def Let_def split_beta vb_to_bytes_def VB_MAGIC_def member_code_def
        tag_row_def sort_dedup_def set_dict_bit_def set_bit_at_def div_ceil8_def split: option.splits nat.splits)
  have "utf8_valid (str_bytes ''team'')"
    by (simp add: str_bytes_def utf8_valid.simps word_le_nat_alt)
  then have cols: "columns_ok 1 ?ids (Some [[''team'']]) (Some [5])"
    by (simp add: columns_ok_def id16_def entry_ok_def sort_dedup_def is_i64_def I64_MIN_def I64_MAX_def)
  show "\<exists>b. encode_inner A F32 1 ?ids [[1]] (Some [[''team'']]) (Some [5]) = Inr b
     \<and> vb_from_bytes A (vb_to_bytes b @ []) = Inr b \<and> vb_from_bytes A (vb_to_bytes b @ [0]) = Inl Decode"
    using b block_bytes_roundtrip[OF b cols lim, of "[]"] block_bytes_roundtrip[OF b cols lim, of "[0]"] by auto
qed

end
