(* ===== verification/Segments.thy ===== *)
theory Segments
  imports Tail
begin

text \<open>
  The segmented index (\<open>mlake-index/src/indexer.rs\<close>, and the parts of \<open>query_node.rs\<close> a fold reads through).  A
  manifest lists segments newest first; each holds items and an overlay of ids and predicates it deletes in older
  segments.  Here are the computations of the three folds on decoded segments and a tail scan: the full rebuild
  (\<open>index\<close>), the flush, the minor compaction, the rule that chooses between them, and the snapshot's point reads.
  The requests that load and store this data are the subject of the handlers, which call these definitions.
\<close>

section \<open>Decoded segments\<close>

text \<open>A segment of the manifest as a fold or a snapshot reads it: its order key, the members of every memory type's
  clusters, and its delete overlay.\<close>
record seg_data =
  sd_seq_hi :: nat
  sd_types :: "(u8, stored_memory list list) btree"
  sd_tomb :: segment_tombstones

definition sd_items :: "seg_data \<Rightarrow> stored_memory list" where
  "sd_items s = concat (map (\<lambda>(_, clusters). concat clusters) (sd_types s))"

definition seg_predicates :: "seg_data list \<Rightarrow> (nat \<times> predicate) list" where
  "seg_predicates segs = concat (map (\<lambda>s. st_predicates (sd_tomb s)) segs)"

text \<open>\<open>let e = kill.entry(id).or_insert(0); *e = (*e).max(seg.seq_hi)\<close>.\<close>
definition add_kill :: "nat \<Rightarrow> memory_id \<Rightarrow> (memory_id \<rightharpoonup> nat) \<Rightarrow> (memory_id \<rightharpoonup> nat)" where
  "add_kill hi i k = k(i \<mapsto> max (case k i of Some e \<Rightarrow> e | None \<Rightarrow> 0) hi)"

definition kill_map :: "seg_data list \<Rightarrow> (memory_id \<rightharpoonup> nat)" where
  "kill_map segs = fold (\<lambda>s k. fold (add_kill (sd_seq_hi s)) (st_superseded (sd_tomb s)) k) segs Map.empty"

definition killed :: "(memory_id \<rightharpoonup> nat) \<Rightarrow> nat \<Rightarrow> memory_id \<Rightarrow> bool" where
  "killed k hi i = (case k i of Some s \<Rightarrow> hi < s | None \<Rightarrow> False)"

definition matched :: "(nat \<times> predicate) list \<Rightarrow> stored_memory \<Rightarrow> bool" where
  "matched preds m = list_ex (\<lambda>(seq, p). sm_write_seq m < seq \<and> predicate_matches p m) preds"

section \<open>The folds\<close>

definition merge_item :: "(memory_id \<rightharpoonup> nat) \<Rightarrow> nat \<Rightarrow> stored_memory \<Rightarrow>
    (memory_id, stored_memory) btree \<Rightarrow> (memory_id, stored_memory) btree" where
  "merge_item kill hi m by_id =
     (if map_of by_id (sm_id m) \<noteq> None \<or> killed kill hi (sm_id m) then by_id else bt_insert (sm_id m) m by_id)"

definition retain_unmatched :: "(nat \<times> predicate) list \<Rightarrow> (memory_id, stored_memory) btree \<Rightarrow> (memory_id, stored_memory) btree" where
  "retain_unmatched preds by_id = (if preds = [] then by_id else filter (\<lambda>(_, m). \<not> matched preds m) by_id)"

text \<open>The live items of a list of segments, newest first.\<close>
definition resolve_segments :: "seg_data list \<Rightarrow> (memory_id, stored_memory) btree" where
  "resolve_segments segs = retain_unmatched (seg_predicates segs)
     (fold (\<lambda>s by_id. fold (merge_item (kill_map segs) (sd_seq_hi s)) (sd_items s) by_id) segs [])"

definition insert_all :: "(memory_id \<times> stored_memory) list \<Rightarrow> (memory_id, stored_memory) btree \<Rightarrow> (memory_id, stored_memory) btree" where
  "insert_all ms by_id = fold (\<lambda>(i, m). bt_insert i m) ms by_id"

text \<open>The full rebuild.\<close>
definition index_by_id :: "tail_scan \<Rightarrow> seg_data list \<Rightarrow> (memory_id, stored_memory) btree" where
  "index_by_id scan segs =
     (let live = resolve_segments segs;
          live = fold bt_delete (ts_tombstones scan) live;
          live = insert_all (ts_upserts scan) live;
          live = retain_unmatched (ts_predicate_tombstones scan) live
      in map (\<lambda>(i, m). (i, apply_patches scan m)) live)"

definition prune_links :: "memory_id set \<Rightarrow> stored_memory \<Rightarrow> stored_memory" where
  "prune_links live m = m\<lparr>sm_semantic_out := filter (\<lambda>e. se_target e \<in> live) (sm_semantic_out m)\<rparr>"

definition index_items :: "tail_scan \<Rightarrow> seg_data list \<Rightarrow> stored_memory list" where
  "index_items scan segs = (let items = map snd (index_by_id scan segs) in map (prune_links (sm_id ` set items)) items)"

text \<open>\<open>items_by_ft.entry(item.memory_type).or_default().push(item)\<close> for every item.\<close>
definition group_by_type :: "stored_memory list \<Rightarrow> (u8, stored_memory list) btree" where
  "group_by_type items = bt_group sm_memory_type items"

text \<open>The segment built over a list of items: every type's items go to clusters (\<open>cl\<close>).\<close>
definition new_segment :: "(stored_memory list \<Rightarrow> stored_memory list list) \<Rightarrow> nat \<Rightarrow> stored_memory list \<Rightarrow> segment_tombstones \<Rightarrow> seg_data" where
  "new_segment cl head items tomb =
     \<lparr>sd_seq_hi = head, sd_types = map (\<lambda>(t, ms). (t, cl ms)) (group_by_type items), sd_tomb = tomb\<rparr>"

definition no_tombstones :: segment_tombstones where
  "no_tombstones = \<lparr>st_superseded = [], st_predicates = []\<rparr>"

definition index_segments :: "(stored_memory list \<Rightarrow> stored_memory list list) \<Rightarrow> nat \<Rightarrow> tail_scan \<Rightarrow> seg_data list \<Rightarrow> seg_data list" where
  "index_segments cl head scan segs = [new_segment cl head (index_items scan segs) no_tombstones]"

section \<open>The snapshot a fold reads through\<close>

definition node_predicates :: "tail_scan \<Rightarrow> seg_data list \<Rightarrow> (nat \<times> predicate) list" where
  "node_predicates scan segs = ts_predicate_tombstones scan @ seg_predicates segs"

definition node_hidden :: "tail_scan \<Rightarrow> seg_data list \<Rightarrow> stored_memory \<Rightarrow> bool" where
  "node_hidden scan segs m = (sm_id m \<in> set (ts_tombstones scan) \<or> matched (node_predicates scan segs) m)"

definition node_superseded :: "tail_scan \<Rightarrow> seg_data list \<Rightarrow> memory_id \<Rightarrow> nat \<Rightarrow> bool" where
  "node_superseded scan segs i hi = (i \<in> set (ts_tombstones scan) \<or> killed (kill_map segs) hi i)"

definition node_types :: "tail_scan \<Rightarrow> seg_data list \<Rightarrow> u8 list" where
  "node_types scan segs = sort_dedup (concat (map (\<lambda>s. map fst (sd_types s)) segs)
     @ map (\<lambda>(_, m). sm_memory_type m) (ts_upserts scan))"

definition tail_items :: "tail_scan \<Rightarrow> u8 \<Rightarrow> stored_memory list" where
  "tail_items scan t = filter (\<lambda>m. sm_memory_type m = t) (map snd (ts_upserts scan))"

definition find_tail :: "memory_id list \<Rightarrow> stored_memory \<Rightarrow> (memory_id \<rightharpoonup> stored_memory) \<Rightarrow> (memory_id \<rightharpoonup> stored_memory)" where
  "find_tail wanted m found = (if sm_id m \<in> set wanted then found(sm_id m \<mapsto> m) else found)"

text \<open>One member of a fetched cluster: \<open>fetch_clusters\<close> drops it when hidden or superseded, and
  \<open>found.entry(item.id).or_insert(item)\<close> keeps an earlier copy.\<close>
definition find_indexed :: "tail_scan \<Rightarrow> seg_data list \<Rightarrow> memory_id list \<Rightarrow> nat \<Rightarrow> stored_memory \<Rightarrow>
    (memory_id \<rightharpoonup> stored_memory) \<Rightarrow> (memory_id \<rightharpoonup> stored_memory)" where
  "find_indexed scan segs wanted hi m found =
     (if sm_id m \<in> set wanted \<and> \<not> node_hidden scan segs m \<and> \<not> node_superseded scan segs (sm_id m) hi \<and> found (sm_id m) = None
      then found(sm_id m \<mapsto> m) else found)"

definition clusters_of :: "seg_data \<Rightarrow> u8 \<Rightarrow> stored_memory list" where
  "clusters_of s t = (case map_of (sd_types s) t of Some cs \<Rightarrow> concat cs | None \<Rightarrow> [])"

text \<open>\<open>get_many\<close> with \<open>include_vector\<close>, the form the folds call, on the snapshot opened over the same scan.\<close>
definition node_get_many :: "tail_scan \<Rightarrow> seg_data list \<Rightarrow> memory_id list \<Rightarrow> stored_memory list" where
  "node_get_many scan segs ids =
     (let wanted = filter (\<lambda>i. i \<notin> set (ts_tombstones scan)) ids in
      if wanted = [] then []
      else let found = fold (\<lambda>t. fold (find_tail wanted) (tail_items scan t)) (node_types scan segs) Map.empty;
               found = fold (\<lambda>t. fold (\<lambda>s. fold (find_indexed scan segs wanted (sd_seq_hi s)) (clusters_of s t)) segs)
                         (node_types scan segs) found
        in filter (\<lambda>m. \<not> node_hidden scan segs m) (List.map_filter found ids))"

definition segment_ids :: "seg_data list \<Rightarrow> memory_id list \<Rightarrow> memory_id list" where
  "segment_ids segs ids = filter (\<lambda>i. list_ex (\<lambda>s. i \<in> sm_id ` set (sd_items s)) segs) ids"

section \<open>Flush and minor compaction\<close>

definition patch_only :: "tail_scan \<Rightarrow> (memory_id \<Rightarrow> bool) \<Rightarrow> memory_id list" where
  "patch_only scan skip = filter (\<lambda>i. \<not> skip i) (map fst (ts_pending_patches scan))"

text \<open>The slice's own items, with in-slice patches.\<close>
definition slice_items :: "tail_scan \<Rightarrow> (memory_id \<times> stored_memory) list" where
  "slice_items scan = map (\<lambda>(i, m). (i, case map_of (ts_pending_patches scan) i of
     Some deltas \<Rightarrow> apply_deltas m deltas | None \<Rightarrow> m)) (ts_upserts scan)"

definition flush_fetched :: "tail_scan \<Rightarrow> seg_data list \<Rightarrow> stored_memory list" where
  "flush_fetched scan segs = map (apply_patches scan)
     (node_get_many scan segs (patch_only scan (\<lambda>i. i \<in> fst ` set (ts_upserts scan))))"

definition flush_items :: "tail_scan \<Rightarrow> seg_data list \<Rightarrow> stored_memory list" where
  "flush_items scan segs = map snd (slice_items scan) @ flush_fetched scan segs"

definition flush_tombstones :: "tail_scan \<Rightarrow> seg_data list \<Rightarrow> segment_tombstones" where
  "flush_tombstones scan segs =
     \<lparr>st_superseded = sort_dedup (ts_tombstones scan
        @ segment_ids segs (map fst (ts_upserts scan) @ map sm_id (flush_fetched scan segs))),
      st_predicates = ts_predicate_tombstones scan\<rparr>"

definition flush_segments :: "(stored_memory list \<Rightarrow> stored_memory list list) \<Rightarrow> nat \<Rightarrow> tail_scan \<Rightarrow> seg_data list \<Rightarrow> seg_data list" where
  "flush_segments cl head scan segs = new_segment cl head (flush_items scan segs) (flush_tombstones scan segs) # segs"

definition minor_folded :: "tail_scan \<Rightarrow> seg_data list \<Rightarrow> (memory_id, stored_memory) btree" where
  "minor_folded scan merged = retain_unmatched (ts_predicate_tombstones scan)
     (insert_all (slice_items scan) (fold bt_delete (ts_tombstones scan) (resolve_segments merged)))"

definition minor_fetched :: "tail_scan \<Rightarrow> nat \<Rightarrow> seg_data list \<Rightarrow> stored_memory list" where
  "minor_fetched scan k segs = (let by_id = minor_folded scan (take k segs) in
     map (apply_patches scan) (node_get_many scan segs (patch_only scan (\<lambda>i.
       i \<in> set (ts_tombstones scan) \<or> i \<in> fst ` set (ts_upserts scan) \<or> map_of by_id i \<noteq> None))))"

definition minor_by_id :: "tail_scan \<Rightarrow> nat \<Rightarrow> seg_data list \<Rightarrow> (memory_id, stored_memory) btree" where
  "minor_by_id scan k segs =
     insert_all (map (\<lambda>m. (sm_id m, m)) (minor_fetched scan k segs)) (minor_folded scan (take k segs))"

definition minor_tombstones :: "tail_scan \<Rightarrow> nat \<Rightarrow> seg_data list \<Rightarrow> segment_tombstones" where
  "minor_tombstones scan k segs =
     \<lparr>st_superseded = sort_dedup (concat (map (\<lambda>s. st_superseded (sd_tomb s)) (take k segs)) @ ts_tombstones scan
        @ segment_ids segs (ts_tombstones scan @ map fst (ts_upserts scan) @ map sm_id (minor_fetched scan k segs))),
      st_predicates = seg_predicates (take k segs) @ ts_predicate_tombstones scan\<rparr>"

definition minor_segments :: "(stored_memory list \<Rightarrow> stored_memory list list) \<Rightarrow> nat \<Rightarrow> tail_scan \<Rightarrow> nat \<Rightarrow> seg_data list \<Rightarrow> seg_data list" where
  "minor_segments cl head scan k segs =
     new_segment cl head (map snd (minor_by_id scan k segs)) (minor_tombstones scan k segs) # drop k segs"

section \<open>Which fold runs\<close>

definition COMPACT_FANOUT :: nat where "COMPACT_FANOUT = 8"
definition MINOR_COMPACT_MIN_RUN :: nat where "MINOR_COMPACT_MIN_RUN = 2"

fun run_len_from :: "nat \<Rightarrow> nat \<Rightarrow> nat option \<Rightarrow> nat list \<Rightarrow> nat option" where
  "run_len_from k cum best [] = best"
| "run_len_from k cum best (dc # dcs) =
     run_len_from (Suc k) (cum + dc) (if MINOR_COMPACT_MIN_RUN \<le> k \<and> cum \<le> dc then Some k else best) dcs"

definition minor_run_len :: "nat list \<Rightarrow> nat option" where
  "minor_run_len doc_counts = run_len_from 0 0 None doc_counts"

end
