(* ===== verification/Segment_View.thy ===== *)
theory Segment_View
  imports Segments
begin

text \<open>
  What a list of segments shows (\<open>lsm_view\<close>), the invariant of the published segments (\<open>lsm_ok\<close>), and the facts
  on overlays, on the resolution of segments, on built segments and on the snapshot's point reads.
\<close>

section \<open>Specification: what a list of segments shows\<close>

definition seg_lookup :: "seg_data \<Rightarrow> corpus" where
  "seg_lookup s i = find (\<lambda>m. sm_id m = i) (sd_items s)"

fun first_copy :: "(memory_id \<rightharpoonup> nat) \<Rightarrow> seg_data list \<Rightarrow> corpus" where
  "first_copy kill [] i = None"
| "first_copy kill (s # segs) i = (case seg_lookup s i of
     Some m \<Rightarrow> if killed kill (sd_seq_hi s) i then first_copy kill segs i else Some m
   | None \<Rightarrow> first_copy kill segs i)"

definition lsm_view :: "seg_data list \<Rightarrow> corpus" where
  "lsm_view segs i = (case first_copy (kill_map segs) segs i of
     Some m \<Rightarrow> if matched (seg_predicates segs) m then None else Some m
   | None \<Rightarrow> None)"

abbreviation seg_ids :: "seg_data \<Rightarrow> memory_id set" where
  "seg_ids s \<equiv> sm_id ` set (sd_items s)"

text \<open>The invariant of the published segments, folded up to \<open>c\<close>: newest first, one copy of an id per segment, every
  older copy of an id shadowed by a newer segment's overlay, and no overlay from after the cursor.\<close>
definition lsm_ok :: "nat \<Rightarrow> seg_data list \<Rightarrow> bool" where
  "lsm_ok c segs = (sorted_wrt (\<lambda>a b. sd_seq_hi b < sd_seq_hi a) segs \<and> (\<forall>s \<in> set segs. sd_seq_hi s \<le> c)
     \<and> (\<forall>s \<in> set segs. distinct (map fst (sd_types s)) \<and> distinct (map sm_id (sd_items s)))
     \<and> sorted_wrt (\<lambda>a b. \<forall>i \<in> seg_ids a \<inter> seg_ids b. killed (kill_map segs) (sd_seq_hi b) i) segs
     \<and> (\<forall>(q, p) \<in> set (seg_predicates segs). q \<le> c))"

section \<open>Overlays\<close>

lemma seg_predicates_simps [simp]:
  "seg_predicates [] = []" "seg_predicates (s # segs) = st_predicates (sd_tomb s) @ seg_predicates segs"
  "seg_predicates (xs @ ys) = seg_predicates xs @ seg_predicates ys"
  by (simp_all add: seg_predicates_def)

lemma matched_simps [simp]:
  "matched [] m = False" "matched (ps @ qs) m = (matched ps m \<or> matched qs m)"
  by (auto simp: matched_def)

lemma is_hidden_matched: "is_hidden t m = (sm_id m \<in> set (ts_tombstones t) \<or> matched (ts_predicate_tombstones t) m)"
  by (simp add: is_hidden_def matched_def)

lemma killed_add_kill [simp]: "killed (add_kill hi j k) x i = (killed k x i \<or> i = j \<and> x < hi)"
  by (auto simp: killed_def add_kill_def split: option.splits)

lemma killed_kill_map: "killed (kill_map segs) hi i = (\<exists>s \<in> set segs. i \<in> set (st_superseded (sd_tomb s)) \<and> hi < sd_seq_hi s)"
proof -
  have inner: "killed (fold (add_kill h) js k) hi i = (killed k hi i \<or> i \<in> set js \<and> hi < h)" for h js k
    by (induction js arbitrary: k) auto
  have "killed (fold (\<lambda>s k. fold (add_kill (sd_seq_hi s)) (st_superseded (sd_tomb s)) k) segs k) hi i
      = (killed k hi i \<or> (\<exists>s \<in> set segs. i \<in> set (st_superseded (sd_tomb s)) \<and> hi < sd_seq_hi s))" for k
    by (induction segs arbitrary: k) (auto simp: inner)
  then show ?thesis by (simp add: kill_map_def killed_def)
qed

section \<open>Resolving segments\<close>

lemma map_of_retain:
  "bt_ok b \<Longrightarrow> map_of (retain_unmatched ps b) i = (case map_of b i of Some m \<Rightarrow> if matched ps m then None else Some m | None \<Rightarrow> None)"
  using map_of_filter_vals[OF bt_ok_distinct, of b "\<lambda>m. \<not> matched ps m" i]
  by (auto simp: retain_unmatched_def split: option.splits)

lemma bt_ok_retain [simp]: "bt_ok b \<Longrightarrow> bt_ok (retain_unmatched ps b)"
  by (simp add: retain_unmatched_def)

lemma merge_items:
  "bt_ok b \<Longrightarrow> bt_ok (fold (merge_item k hi) ms b) \<and> map_of (fold (merge_item k hi) ms b) i =
    (case map_of b i of Some m \<Rightarrow> Some m
     | None \<Rightarrow> if killed k hi i then None else find (\<lambda>m. sm_id m = i) ms)"
proof (induction ms arbitrary: b)
  case (Cons m ms)
  have "bt_ok (merge_item k hi m b)" using Cons.prems by (simp add: merge_item_def)
  from Cons.IH[OF this] show ?case by (auto simp: merge_item_def split: option.splits if_splits)
qed (auto split: option.splits)

lemma merge_segments:
  "bt_ok b \<Longrightarrow> bt_ok (fold (\<lambda>s b. fold (merge_item k (sd_seq_hi s)) (sd_items s) b) segs b) \<and>
    map_of (fold (\<lambda>s b. fold (merge_item k (sd_seq_hi s)) (sd_items s) b) segs b) i =
    (case map_of b i of Some m \<Rightarrow> Some m | None \<Rightarrow> first_copy k segs i)"
proof (induction segs arbitrary: b)
  case (Cons s segs)
  note m = merge_items[OF Cons.prems, of k "sd_seq_hi s" "sd_items s"]
  from m[of i] Cons.IH[OF conjunct1[OF m[of i]]] show ?case
    by (auto simp: seg_lookup_def split: option.splits if_splits)
qed (auto split: option.splits)

lemma resolve_segments_ok [simp]: "bt_ok (resolve_segments segs)"
  using merge_segments[of "[]" "kill_map segs" segs] by (simp add: resolve_segments_def)

lemma map_of_resolve [simp]: "map_of (resolve_segments segs) = lsm_view segs"
proof
  fix i
  show "map_of (resolve_segments segs) i = lsm_view segs i"
    unfolding resolve_segments_def lsm_view_def
    by (subst map_of_retain) (simp_all add: merge_segments[of "[]", simplified])
qed

lemma seg_lookup_id: "seg_lookup s i = Some m \<Longrightarrow> sm_id m = i \<and> m \<in> set (sd_items s)"
  by (auto simp: seg_lookup_def find_Some_iff)

lemma first_copy_id: "first_copy k segs i = Some m \<Longrightarrow> sm_id m = i"
  by (induction segs) (auto split: option.splits if_splits dest: seg_lookup_id)

lemma keyed_lsm_view: "keyed (lsm_view segs)"
  by (auto simp: keyed_def lsm_view_def split: option.splits if_splits dest: first_copy_id)

section \<open>The full rebuild\<close>

lemma map_of_insert_all:
  "distinct (map fst ms) \<Longrightarrow> map_of (insert_all ms b) i = (case map_of ms i of Some m \<Rightarrow> Some m | None \<Rightarrow> map_of b i)"
proof (induction ms arbitrary: b)
  case (Cons p ms)
  from Cons.prems have "fst p \<notin> dom (map_of ms)" by (auto simp: dom_map_of_conv_image_fst)
  then have "map_of ms (fst p) = None" by (simp add: domIff)
  with Cons.prems Cons.IH[of "bt_insert (fst p) (snd p) b"] show ?case
    by (auto simp: insert_all_def split_beta split: option.splits)
qed (simp add: insert_all_def)

lemma bt_ok_insert_all [simp]: "bt_ok b \<Longrightarrow> bt_ok (insert_all ms b)"
  by (induction ms arbitrary: b) (auto simp: insert_all_def)

lemma map_of_fold_delete: "map_of (fold bt_delete is b) i = (if i \<in> set is then None else map_of b i)"
  by (induction "is" arbitrary: b) auto

lemma bt_ok_fold_delete [simp]: "bt_ok b \<Longrightarrow> bt_ok (fold bt_delete is b)"
  by (induction "is" arbitrary: b) auto

lemma map_of_map_vals: "map_of (map (\<lambda>(i, m). (i, f m)) b) = map_option f \<circ> map_of b"
  by (induction b) auto

text \<open>No item the tail itself wrote is matched by a predicate delete of the tail.\<close>
definition settled :: "tail_scan \<Rightarrow> bool" where
  "settled t = (\<forall>m \<in> snd ` set (ts_upserts t). \<not> matched (ts_predicate_tombstones t) m)"

lemma map_of_index_by_id:
  assumes "tail_ok t" "settled t"
  shows "map_of (index_by_id t segs) = tail_view t (lsm_view segs)"
proof
  fix i
  let ?live = "insert_all (ts_upserts t) (fold bt_delete (ts_tombstones t) (resolve_segments segs))"
  have d: "distinct (map fst (ts_upserts t))" and k: "keyed (map_of (ts_upserts t))"
    using assms(1) by (auto simp: tail_ok_def bt_ok_distinct)
  have live: "map_of ?live i = (case map_of (ts_upserts t) i of Some m \<Rightarrow> Some m
      | None \<Rightarrow> if i \<in> set (ts_tombstones t) then None else lsm_view segs i)"
    by (simp add: map_of_insert_all[OF d] map_of_fold_delete split: option.split)
  have up: "apply_patches t m = m \<and> \<not> matched (ts_predicate_tombstones t) m" if u: "map_of (ts_upserts t) i = Some m" for m
  proof -
    have "map_of (ts_pending_patches t) i = None" using assms(1) u by (auto simp: tail_ok_def domIff)
    moreover have "m \<in> snd ` set (ts_upserts t)" using map_of_SomeD[OF u] by force
    moreover have "sm_id m = i" using keyedD[OF k u] .
    ultimately show ?thesis using assms(2) by (auto simp: apply_patches_def settled_def)
  qed
  have id: "sm_id m = i" if "lsm_view segs i = Some m" for m using keyedD[OF keyed_lsm_view that] .
  have "map_of (index_by_id t segs) i = map_option (apply_patches t) (map_of (retain_unmatched (ts_predicate_tombstones t) ?live) i)"
    by (simp add: index_by_id_def Let_def map_of_map_vals)
  also have "\<dots> = tail_view t (lsm_view segs) i"
    by (subst map_of_retain) (use up id in \<open>auto simp: live tail_view_def is_hidden_matched split: option.splits\<close>)
  finally show "map_of (index_by_id t segs) i = tail_view t (lsm_view segs) i" .
qed

lemma index_by_id_ok: "bt_ok (index_by_id t segs)"
  by (simp add: index_by_id_def Let_def comp_def split_beta)

section \<open>Built segments\<close>

text \<open>A clustering loses and duplicates nothing.\<close>
definition clustering :: "(stored_memory list \<Rightarrow> stored_memory list list) \<Rightarrow> bool" where
  "clustering cl = (\<forall>xs. mset (concat (cl xs)) = mset xs)"

lemma group_by_type_ok: "bt_ok (group_by_type items) \<and> mset (concat (map snd (group_by_type items))) = mset items"
  unfolding group_by_type_def by (rule bt_group_ok)

lemma mset_new_segment: "clustering cl \<Longrightarrow> mset (sd_items (new_segment cl h items tomb)) = mset items"
proof -
  assume "clustering cl"
  then have "mset (concat (map (\<lambda>(_, cs). concat cs) (map (\<lambda>(t, ms). (t, cl ms)) g))) = mset (concat (map snd g))" for g
    by (induction g) (auto simp: clustering_def)
  from this[of "group_by_type items"] show ?thesis by (simp add: sd_items_def new_segment_def group_by_type_ok)
qed

lemma new_segment_simps [simp]:
  "sd_seq_hi (new_segment cl h items tomb) = h" "sd_tomb (new_segment cl h items tomb) = tomb"
  by (simp_all add: new_segment_def)

lemma new_segment_items:
  assumes "clustering cl"
  shows "set (sd_items (new_segment cl h items tomb)) = set items"
    "distinct (map sm_id (sd_items (new_segment cl h items tomb))) = distinct (map sm_id items)"
proof -
  note m = mset_new_segment[OF assms, of h items tomb]
  from m show "set (sd_items (new_segment cl h items tomb)) = set items" by (rule mset_eq_setD)
  from m have "mset (map sm_id (sd_items (new_segment cl h items tomb))) = mset (map sm_id items)" by simp
  then show "distinct (map sm_id (sd_items (new_segment cl h items tomb))) = distinct (map sm_id items)"
    by (rule mset_eq_imp_distinct_iff)
qed

lemma distinct_new_segment_types [simp]: "distinct (map fst (sd_types (new_segment cl h items tomb)))"
  using bt_ok_distinct[OF conjunct1[OF group_by_type_ok[of items]]] by (simp add: new_segment_def comp_def split_beta)

section \<open>One live copy\<close>

definition live_copy :: "seg_data list \<Rightarrow> memory_id \<Rightarrow> stored_memory \<Rightarrow> bool" where
  "live_copy segs i m = (\<exists>s \<in> set segs. m \<in> set (sd_items s) \<and> sm_id m = i \<and> \<not> killed (kill_map segs) (sd_seq_hi s) i)"

lemma seg_lookup_iff: "distinct (map sm_id (sd_items s)) \<Longrightarrow> seg_lookup s i = Some m \<longleftrightarrow> m \<in> set (sd_items s) \<and> sm_id m = i"
proof -
  have "distinct (map sm_id ms) \<Longrightarrow> find (\<lambda>m. sm_id m = i) ms = Some m \<longleftrightarrow> m \<in> set ms \<and> sm_id m = i" for ms
    by (induction ms) (auto simp: image_iff)
  then show "distinct (map sm_id (sd_items s)) \<Longrightarrow> ?thesis" by (simp add: seg_lookup_def)
qed

lemma first_copy_iff:
  "\<forall>s \<in> set segs. distinct (map sm_id (sd_items s)) \<Longrightarrow>
   sorted_wrt (\<lambda>a b. \<forall>i \<in> seg_ids a \<inter> seg_ids b. killed k (sd_seq_hi b) i) segs \<Longrightarrow>
   first_copy k segs i = Some m \<longleftrightarrow> (\<exists>s \<in> set segs. m \<in> set (sd_items s) \<and> sm_id m = i \<and> \<not> killed k (sd_seq_hi s) i)"
proof (induction segs)
  case (Cons s segs)
  show ?case
  proof (cases "seg_lookup s i")
    case None
    then have "m \<in> set (sd_items s) \<Longrightarrow> sm_id m \<noteq> i" by (auto simp: seg_lookup_def find_None_iff)
    with None Cons show ?thesis by auto
  next
    case (Some m')
    then have m': "m' \<in> set (sd_items s)" "sm_id m' = i" by (auto dest: seg_lookup_id)
    then have i: "i \<in> seg_ids s" by force
    have old: "killed k (sd_seq_hi b) i" if "b \<in> set segs" "i \<in> seg_ids b" for b
      using Cons.prems(2) that i by auto
    have "m = m'" if "m \<in> set (sd_items s)" "sm_id m = i"
      using that Some seg_lookup_iff[of s i m] Cons.prems(1) by simp
    moreover have "\<not> (\<exists>b \<in> set segs. m \<in> set (sd_items b) \<and> sm_id m = i \<and> \<not> killed k (sd_seq_hi b) i)"
      using old by blast
    ultimately show ?thesis using Some m' Cons by auto
  qed
qed simp

lemma lsm_view_iff:
  assumes "lsm_ok c segs"
  shows "lsm_view segs i = Some m \<longleftrightarrow> live_copy segs i m \<and> \<not> matched (seg_predicates segs) m"
  using first_copy_iff[of segs "kill_map segs" i m] assms
  by (auto simp: lsm_view_def live_copy_def lsm_ok_def split: option.splits if_splits)

lemma live_copy_unique: "lsm_ok c segs \<Longrightarrow> live_copy segs i m \<Longrightarrow> live_copy segs i m' \<Longrightarrow> m = m'"
  using first_copy_iff[of segs "kill_map segs" i] unfolding live_copy_def lsm_ok_def by (metis option.inject)

lemma lsm_ok_Nil [simp]: "lsm_ok c []"
  by (simp add: lsm_ok_def)

lemma killed_kill_map_Cons [simp]:
  "killed (kill_map (s # segs)) hi i = (i \<in> set (st_superseded (sd_tomb s)) \<and> hi < sd_seq_hi s \<or> killed (kill_map segs) hi i)"
  by (auto simp: killed_kill_map)

lemma corpus_eqI: "(\<And>i m. f i = Some m \<longleftrightarrow> g i = Some m) \<Longrightarrow> f = (g :: corpus)"
  by (rule ext) (metis option.exhaust)

section \<open>The rebuilt segment\<close>

lemma keyed_btree:
  assumes "bt_ok b" "keyed (map_of b)"
  shows "distinct (map sm_id (map snd b))" "m \<in> set (map snd b) \<and> sm_id m = i \<longleftrightarrow> map_of b i = Some m"
proof -
  have d: "distinct (map fst b)" using assms(1) by (rule bt_ok_distinct)
  have k: "sm_id m = j" if "(j, m) \<in> set b" for j m
    using assms(2) map_of_is_SomeI[OF d that] by (rule keyedD)
  then have eq: "map sm_id (map snd b) = map fst b" by auto
  show "distinct (map sm_id (map snd b))" unfolding eq by (rule d)
  show "m \<in> set (map snd b) \<and> sm_id m = i \<longleftrightarrow> map_of b i = Some m"
    using k d by (force dest: map_of_SomeD)
qed

lemma sm_id_apply_patches [simp]: "sm_id (apply_patches t m) = sm_id m"
  by (simp add: apply_patches_def split: option.split)

lemma keyed_tail_view: "tail_ok t \<Longrightarrow> keyed g \<Longrightarrow> keyed (tail_view t g)"
  by (auto simp: keyed_def tail_view_def tail_ok_def split: option.splits if_splits)

lemma prune_links_id [simp]: "sm_id (prune_links live m) = sm_id m"
  by (simp add: prune_links_def)

lemma lsm_ok_single:
  assumes "clustering cl" "distinct (map sm_id items)"
  shows "lsm_ok h [new_segment cl h items no_tombstones]"
  using new_segment_items[OF assms(1)] assms(2) by (simp add: lsm_ok_def no_tombstones_def)

lemma lsm_view_single:
  assumes "clustering cl" "distinct (map sm_id items)"
  shows "lsm_view [new_segment cl h items no_tombstones] i = Some m \<longleftrightarrow> m \<in> set items \<and> sm_id m = i"
  using lsm_view_iff[OF lsm_ok_single[OF assms, of h]] new_segment_items[OF assms(1)]
  by (simp add: live_copy_def killed_kill_map no_tombstones_def)

lemma index_items_distinct:
  assumes "tail_ok t" "settled t"
  shows "distinct (map sm_id (index_items t segs))"
proof -
  have "keyed (map_of (index_by_id t segs))"
    using assms by (simp add: map_of_index_by_id keyed_tail_view keyed_lsm_view)
  from keyed_btree(1)[OF index_by_id_ok this] show ?thesis by (simp add: index_items_def Let_def comp_def)
qed

lemma index_view:
  fixes segs
  assumes "clustering cl" "tail_ok t" "settled t"
  defines "V \<equiv> tail_view t (lsm_view segs)"
  shows "lsm_view (index_segments cl h t segs) = map_option (prune_links (dom V)) \<circ> V"
    "lsm_ok h (index_segments cl h t segs)"
proof -
  have mo: "map_of (index_by_id t segs) = V" by (simp add: map_of_index_by_id[OF assms(2,3)] V_def)
  have k: "keyed V" using assms(2) by (simp add: V_def keyed_tail_view keyed_lsm_view)
  note b = keyed_btree[OF index_by_id_ok k[folded mo]]
  have live: "sm_id ` set (map snd (index_by_id t segs)) = dom V"
  proof (rule set_eqI)
    fix i
    have "i \<in> sm_id ` set (map snd (index_by_id t segs)) \<longleftrightarrow> (\<exists>m. m \<in> set (map snd (index_by_id t segs)) \<and> sm_id m = i)"
      by blast
    also have "\<dots> \<longleftrightarrow> i \<in> dom V" unfolding b(2) mo by blast
    finally show "i \<in> sm_id ` set (map snd (index_by_id t segs)) \<longleftrightarrow> i \<in> dom V" .
  qed
  have items: "m \<in> set (index_items t segs) \<and> sm_id m = i \<longleftrightarrow> (\<exists>m0. V i = Some m0 \<and> m = prune_links (dom V) m0)" for m i
  proof -
    have "m \<in> set (index_items t segs) \<and> sm_id m = i \<longleftrightarrow>
        (\<exists>m0. (m0 \<in> set (map snd (index_by_id t segs)) \<and> sm_id m0 = i) \<and> m = prune_links (dom V) m0)"
      unfolding index_items_def Let_def live set_map[of "prune_links _"] by (auto simp del: set_map)
    then show ?thesis unfolding b(2) mo .
  qed
  show "lsm_view (index_segments cl h t segs) = map_option (prune_links (dom V)) \<circ> V"
    by (rule corpus_eqI) (auto simp: index_segments_def lsm_view_single[OF assms(1) index_items_distinct[OF assms(2,3)]] items)
  show "lsm_ok h (index_segments cl h t segs)"
    unfolding index_segments_def by (rule lsm_ok_single[OF assms(1) index_items_distinct[OF assms(2,3)]])
qed

section \<open>Point reads of the snapshot\<close>

lemma fold_nested: "fold (\<lambda>x. fold (f x) (g x)) xs a = fold (\<lambda>(x, y). f x y) (concat (map (\<lambda>x. map (Pair x) (g x)) xs)) a"
proof -
  have "fold (\<lambda>(x, y). f x y) (map (Pair x) ys) a = fold (f x) ys a" for x ys a
    by (induction ys arbitrary: a) auto
  then show ?thesis by (induction xs arbitrary: a) auto
qed

lemma find_tail_at: "find_tail w x f i = (if i \<in> set w \<and> sm_id x = i then Some x else f i)"
  by (simp add: find_tail_def)

lemma find_tail_fold:
  "\<forall>x \<in> set xs. \<forall>y \<in> set xs. sm_id x = sm_id y \<longrightarrow> x = y \<Longrightarrow>
   fold (find_tail w) xs f i = (if i \<in> set w then (case find (\<lambda>m. sm_id m = i) xs of Some m \<Rightarrow> Some m | None \<Rightarrow> f i) else f i)"
proof (induction xs arbitrary: f)
  case (Cons x xs)
  have eq: "find (\<lambda>m. sm_id m = sm_id x) xs = Some m \<Longrightarrow> m = x" for m
    using Cons.prems by (auto simp: find_Some_iff)
  have ih: "fold (find_tail w) xs (find_tail w x f) i =
      (if i \<in> set w then (case find (\<lambda>m. sm_id m = i) xs of Some m \<Rightarrow> Some m | None \<Rightarrow> find_tail w x f i) else find_tail w x f i)"
    by (rule Cons.IH) (use Cons.prems in simp)
  show ?case unfolding fold_simps(2) ih find_tail_at[of w x f i] by (auto dest: eq split: option.split)
qed simp

lemma find_indexed_fold:
  "fold (\<lambda>(h, m). find_indexed t segs w h m) L f i = (case f i of Some m \<Rightarrow> Some m
     | None \<Rightarrow> map_option snd (find (\<lambda>(h, m). sm_id m = i \<and> i \<in> set w \<and> \<not> node_hidden t segs m \<and> \<not> node_superseded t segs i h) L))"
  by (induction L arbitrary: f) (auto simp: find_indexed_def split: option.splits if_splits)

lemma set_node_types: "set (node_types t segs) = (\<Union>s \<in> set segs. fst ` set (sd_types s)) \<union> sm_memory_type ` snd ` set (ts_upserts t)"
  by (force simp: node_types_def sort_dedup_def)

lemma sd_items_types:
  assumes "distinct (map fst (sd_types s))"
  shows "m \<in> set (sd_items s) \<longleftrightarrow> (\<exists>ty \<in> fst ` set (sd_types s). m \<in> set (clusters_of s ty))"
  using assms by (force simp: sd_items_def clusters_of_def split: option.splits dest: map_of_SomeD)

text \<open>What a point read shows for an id.\<close>
definition node_view :: "tail_scan \<Rightarrow> seg_data list \<Rightarrow> corpus" where
  "node_view t segs i = (case map_of (ts_upserts t) i of
     Some m \<Rightarrow> if node_hidden t segs m then None else Some m
   | None \<Rightarrow> (case lsm_view segs i of Some m \<Rightarrow> if is_hidden t m then None else Some m | None \<Rightarrow> None))"

lemma found_in_tail:
  assumes "tail_ok t"
  shows "fold (\<lambda>ty. fold (find_tail w) (tail_items t ty)) (node_types t segs) Map.empty i
    = (if i \<in> set w then map_of (ts_upserts t) i else None)"
proof -
  let ?xs = "concat (map (tail_items t) (node_types t segs))"
  have d: "distinct (map fst (ts_upserts t))" and k: "keyed (map_of (ts_upserts t))"
    using assms by (auto simp: tail_ok_def bt_ok_distinct)
  have up: "m \<in> set ?xs \<longleftrightarrow> map_of (ts_upserts t) (sm_id m) = Some m" for m
  proof -
    have "m \<in> set ?xs \<longleftrightarrow> m \<in> snd ` set (ts_upserts t)" by (auto simp: tail_items_def set_node_types)
    then show ?thesis using keyed_btree(2)[of "ts_upserts t" m "sm_id m"] assms by (simp add: tail_ok_def)
  qed
  have u: "\<forall>x \<in> set ?xs. \<forall>y \<in> set ?xs. sm_id x = sm_id y \<longrightarrow> x = y"
  proof (intro ballI impI)
    fix x y assume "x \<in> set ?xs" "y \<in> set ?xs" and eq: "sm_id x = sm_id y"
    then have "map_of (ts_upserts t) (sm_id x) = Some x" "map_of (ts_upserts t) (sm_id y) = Some y"
      by (simp_all only: up)
    then have "Some x = Some y" unfolding eq by (rule trans[OF sym])
    then show "x = y" by simp
  qed
  have "fold (\<lambda>ty. fold (find_tail w) (tail_items t ty)) tys f = fold (find_tail w) (concat (map (tail_items t) tys)) f" for tys f
    by (induction tys arbitrary: f) auto
  then have "fold (\<lambda>ty. fold (find_tail w) (tail_items t ty)) (node_types t segs) Map.empty i
      = (if i \<in> set w then find (\<lambda>m. sm_id m = i) ?xs else None)"
    by (simp add: find_tail_fold[OF u] split: option.split)
  moreover have "find (\<lambda>m. sm_id m = i) ?xs = map_of (ts_upserts t) i"
  proof (cases "map_of (ts_upserts t) i")
    case None
    have "sm_id m \<noteq> i" if "m \<in> set ?xs" for m using up[of m] that None by auto
    then have "find (\<lambda>m. sm_id m = i) ?xs = None" unfolding find_None_iff by blast
    with None show ?thesis by simp
  next
    case (Some m)
    have m: "m \<in> set ?xs" "sm_id m = i" using keyedD[OF k Some] Some up by auto
    then obtain m' where "find (\<lambda>m. sm_id m = i) ?xs = Some m'" by (cases "find (\<lambda>m. sm_id m = i) ?xs") (auto simp: find_None_iff)
    moreover from this have "m' \<in> set ?xs" "sm_id m' = i" by (auto simp: find_Some_iff simp del: set_concat)
    then have "map_of (ts_upserts t) i = Some m'" using up[of m'] by simp
    ultimately show ?thesis by simp
  qed
  ultimately show ?thesis by simp
qed

abbreviation visit :: "tail_scan \<Rightarrow> seg_data list \<Rightarrow> memory_id list \<Rightarrow> u8 list \<Rightarrow> (memory_id \<rightharpoonup> stored_memory) \<Rightarrow> (memory_id \<rightharpoonup> stored_memory)" where
  "visit t segs w tys f \<equiv> fold (\<lambda>ty. fold (\<lambda>s. fold (find_indexed t segs w (sd_seq_hi s)) (clusters_of s ty)) segs) tys f"

lemma visit_keeps: "f i \<noteq> None \<or> i \<notin> set w \<Longrightarrow> visit t segs w tys f i = f i"
proof -
  have 1: "f i \<noteq> None \<or> i \<notin> set w \<Longrightarrow> fold (find_indexed t segs w h) ms f i = f i" for f h ms
  proof (induction ms arbitrary: f)
    case (Cons m ms)
    have "find_indexed t segs w h m f i = f i" using Cons.prems by (auto simp: find_indexed_def)
    with Cons.IH[of "find_indexed t segs w h m f"] Cons.prems show ?case by simp
  qed simp
  have 2: "f i \<noteq> None \<or> i \<notin> set w \<Longrightarrow> fold (\<lambda>s. fold (find_indexed t segs w (sd_seq_hi s)) (clusters_of s ty)) ss f i = f i" for f ss ty
    by (induction ss arbitrary: f) (simp_all add: 1)
  show "f i \<noteq> None \<or> i \<notin> set w \<Longrightarrow> ?thesis" by (induction tys arbitrary: f) (simp_all add: 2)
qed

lemma found_in_segments:
  assumes "lsm_ok c segs" "f i = None" "i \<in> set w" "i \<notin> set (ts_tombstones t)"
  shows "visit t segs w (node_types t segs) f i
    = (case lsm_view segs i of Some m \<Rightarrow> if is_hidden t m then None else Some m | None \<Rightarrow> None)" (is "?l = ?r")
proof -
  define L where "L = concat (map (\<lambda>ty. concat (map (\<lambda>s. map (Pair (sd_seq_hi s)) (clusters_of s ty)) segs)) (node_types t segs))"
  have one: "fold (\<lambda>(h, m). find_indexed t segs w h m) (map (Pair h) ms) f = fold (find_indexed t segs w h) ms f" for h ms f
    by (induction ms arbitrary: f) auto
  have two: "fold (\<lambda>(h, m). find_indexed t segs w h m) (concat (map (\<lambda>s. map (Pair (sd_seq_hi s)) (clusters_of s ty)) ss)) f
      = fold (\<lambda>s. fold (find_indexed t segs w (sd_seq_hi s)) (clusters_of s ty)) ss f" for ty ss f
    by (induction ss arbitrary: f) (auto simp: one)
  have three: "fold (\<lambda>(h, m). find_indexed t segs w h m)
        (concat (map (\<lambda>ty. concat (map (\<lambda>s. map (Pair (sd_seq_hi s)) (clusters_of s ty)) segs)) tys)) f
      = fold (\<lambda>ty. fold (\<lambda>s. fold (find_indexed t segs w (sd_seq_hi s)) (clusters_of s ty)) segs) tys f" for tys f
    by (induction tys arbitrary: f) (auto simp: two)
  let ?P = "\<lambda>(h, m). sm_id m = i \<and> i \<in> set w \<and> \<not> node_hidden t segs m \<and> \<not> node_superseded t segs i h"
  have l: "?l = map_option snd (find ?P L)"
    using assms(2) by (simp add: three[symmetric] L_def[symmetric] find_indexed_fold)
  have L: "(h, m) \<in> set L \<longleftrightarrow> (\<exists>s \<in> set segs. h = sd_seq_hi s \<and> m \<in> set (sd_items s))" for h m
  proof -
    have "\<forall>s \<in> set segs. distinct (map fst (sd_types s))" using assms(1) by (simp add: lsm_ok_def)
    moreover have "\<forall>s \<in> set segs. fst ` set (sd_types s) \<subseteq> set (node_types t segs)" by (auto simp: set_node_types)
    moreover have "m \<in> set (clusters_of s ty) \<Longrightarrow> ty \<in> fst ` set (sd_types s)" for s ty
      using domI[of "map_of (sd_types s)" ty] by (cases "map_of (sd_types s) ty") (simp_all add: clusters_of_def dom_map_of_conv_image_fst)
    ultimately have "m \<in> set (sd_items s) \<longleftrightarrow> (\<exists>ty \<in> set (node_types t segs). m \<in> set (clusters_of s ty))" if s: "s \<in> set segs" for s
      using sd_items_types[of s m] s by (meson subsetD)
    moreover have "(h, m) \<in> set L \<longleftrightarrow> (\<exists>s \<in> set segs. h = sd_seq_hi s \<and> (\<exists>ty \<in> set (node_types t segs). m \<in> set (clusters_of s ty)))"
      unfolding L_def by auto
    ultimately show ?thesis by (metis (no_types, lifting))
  qed
  have P: "(\<exists>h. (h, m) \<in> set L \<and> ?P (h, m)) \<longleftrightarrow> lsm_view segs i = Some m \<and> \<not> is_hidden t m" for m
    using assms(3,4) by (auto simp: L lsm_view_iff[OF assms(1)] live_copy_def node_hidden_def node_predicates_def
        node_superseded_def is_hidden_matched)
  show ?thesis
  proof (cases "find ?P L")
    case None
    then have "\<not> (\<exists>h. (h, m) \<in> set L \<and> ?P (h, m))" for m unfolding find_None_iff by blast
    then have "\<not> (lsm_view segs i = Some m \<and> \<not> is_hidden t m)" for m unfolding P .
    with None show ?thesis unfolding l by (auto split: option.split)
  next
    case (Some p)
    obtain h m where p: "p = (h, m)" by (cases p)
    have "(h, m) \<in> set L \<and> ?P (h, m)" using Some unfolding p by (metis (no_types, lifting) find_Some_iff nth_mem)
    then have "lsm_view segs i = Some m \<and> \<not> is_hidden t m" using P by blast
    with Some show ?thesis unfolding l by (simp add: p)
  qed
qed

lemma tombstoned_not_in_view:
  assumes "tail_ok t" "i \<in> set (ts_tombstones t)"
  shows "node_view t segs i = None"
proof -
  have "map_of (ts_upserts t) i = None" using assms by (auto simp: tail_ok_def domIff)
  moreover have "lsm_view segs i = Some m \<Longrightarrow> is_hidden t m" for m
    using assms(2) keyedD[OF keyed_lsm_view] by (simp add: is_hidden_def)
  ultimately show ?thesis by (auto simp: node_view_def split: option.split)
qed

lemma node_get_many_view:
  assumes "lsm_ok c segs" "tail_ok t"
  shows "node_get_many t segs ids = List.map_filter (node_view t segs) ids"
proof -
  define w where "w = filter (\<lambda>i. i \<notin> set (ts_tombstones t)) ids"
  define f0 where "f0 = fold (\<lambda>ty. fold (find_tail w) (tail_items t ty)) (node_types t segs) Map.empty"
  define f1 where "f1 = visit t segs w (node_types t segs) f0"
  have f0: "f0 i = (if i \<in> set w then map_of (ts_upserts t) i else None)" for i
    unfolding f0_def by (rule found_in_tail[OF assms(2)])
  have hid: "lsm_view segs i = Some m \<Longrightarrow> node_hidden t segs m = is_hidden t m" for i m
    by (auto simp: lsm_view_iff[OF assms(1)] node_hidden_def node_predicates_def is_hidden_matched)
  have key: "(case f1 i of Some m \<Rightarrow> if node_hidden t segs m then None else Some m | None \<Rightarrow> None) = node_view t segs i" if "i \<in> set ids" for i
  proof (cases "i \<in> set w")
    case False
    then have "f1 i = None" using f0[of i] visit_keeps[of f0 i w] by (simp add: f1_def)
    moreover have "i \<in> set (ts_tombstones t)" using False that by (simp add: w_def)
    ultimately show ?thesis using tombstoned_not_in_view[OF assms(2)] by simp
  next
    case True
    show ?thesis
    proof (cases "map_of (ts_upserts t) i")
      case (Some m)
      then have "f1 i = Some m" unfolding f1_def using f0[of i] True by (subst visit_keeps) simp_all
      with Some show ?thesis by (simp add: node_view_def)
    next
      case None
      then have "f0 i = None" using f0 by simp
      from found_in_segments[of c segs f0 i w t, OF assms(1) this True] None True show ?thesis
        unfolding f1_def[symmetric] by (auto simp: node_view_def hid w_def split: option.split)
    qed
  qed
  have "filter (\<lambda>m. \<not> node_hidden t segs m) (List.map_filter f1 is)
      = List.map_filter (\<lambda>i. case f1 i of Some m \<Rightarrow> if node_hidden t segs m then None else Some m | None \<Rightarrow> None) is" for "is"
    by (induction "is") (auto simp: List.map_filter_def)
  moreover have "List.map_filter (\<lambda>i. case f1 i of Some m \<Rightarrow> if node_hidden t segs m then None else Some m | None \<Rightarrow> None) ids
      = List.map_filter (node_view t segs) ids"
    using key by (simp add: List.map_filter_def cong: map_cong filter_cong)
  moreover have "List.map_filter (node_view t segs) ids = []" if "w = []"
    using that tombstoned_not_in_view[OF assms(2)] by (auto simp: List.map_filter_def w_def filter_empty_conv)
  ultimately show ?thesis by (auto simp: node_get_many_def Let_def w_def[symmetric] f0_def[symmetric] f1_def[symmetric])
qed

end
