(* ===== verification/Segment_Folds.thy ===== *)
theory Segment_Folds
  imports Segment_View
begin

text \<open>
  The flush and the minor compaction against the snapshot they fold: a new segment in front of the kept ones shows
  the tail over what the old list showed, and keeps the invariant.
\<close>

section \<open>A new segment in front\<close>

lemma push_segment:
  assumes cl: "clustering cl" and d: "distinct (map sm_id items)"
    and kept: "sorted_wrt (\<lambda>a b. sd_seq_hi b < sd_seq_hi a) kept"
      "\<forall>s \<in> set kept. distinct (map fst (sd_types s)) \<and> distinct (map sm_id (sd_items s))" "\<forall>s \<in> set kept. sd_seq_hi s < h"
    and shadow: "\<And>b i. b \<in> set kept \<Longrightarrow> i \<in> seg_ids b \<Longrightarrow> i \<in> sm_id ` set items \<Longrightarrow>
        i \<in> set (st_superseded tomb) \<or> killed (kill_map kept) (sd_seq_hi b) i"
    and shadows: "sorted_wrt (\<lambda>a b. \<forall>i \<in> seg_ids a \<inter> seg_ids b.
        i \<in> set (st_superseded tomb) \<or> killed (kill_map kept) (sd_seq_hi b) i) kept"
    and preds: "\<forall>(q, p) \<in> set (st_predicates tomb @ seg_predicates kept). q \<le> h"
  shows "lsm_ok h (new_segment cl h items tomb # kept)"
    "lsm_view (new_segment cl h items tomb # kept) i = Some m \<longleftrightarrow>
      (m \<in> set items \<and> sm_id m = i \<or> (\<exists>s \<in> set kept. m \<in> set (sd_items s) \<and> sm_id m = i
          \<and> i \<notin> set (st_superseded tomb) \<and> \<not> killed (kill_map kept) (sd_seq_hi s) i))
      \<and> \<not> matched (st_predicates tomb @ seg_predicates kept) m"
proof -
  let ?new = "new_segment cl h items tomb"
  note items = new_segment_items[OF cl, of h items tomb]
  have pairs: "\<forall>i \<in> seg_ids a \<inter> seg_ids b. killed (kill_map (?new # kept)) (sd_seq_hi b) i"
    if "b \<in> set kept" "\<forall>i \<in> seg_ids a \<inter> seg_ids b. i \<in> set (st_superseded tomb) \<or> killed (kill_map kept) (sd_seq_hi b) i" for a b
    using that kept(3) by auto
  have "sorted_wrt (\<lambda>a b. \<forall>i \<in> seg_ids a \<inter> seg_ids b. killed (kill_map (?new # kept)) (sd_seq_hi b) i) kept"
    using shadows by (rule sorted_wrt_mono_rel[rotated]) (use pairs in blast)
  moreover have "\<forall>b \<in> set kept. \<forall>i \<in> seg_ids ?new \<inter> seg_ids b. killed (kill_map (?new # kept)) (sd_seq_hi b) i"
    using pairs[of _ ?new] shadow unfolding items by blast
  ultimately show ok: "lsm_ok h (?new # kept)"
    using d kept preds items(2) unfolding lsm_ok_def by (auto simp: less_imp_le)
  have old: "\<not> killed (kill_map kept) h i" using kept(3) by (auto simp: killed_kill_map)
  show "lsm_view (?new # kept) i = Some m \<longleftrightarrow>
      (m \<in> set items \<and> sm_id m = i \<or> (\<exists>s \<in> set kept. m \<in> set (sd_items s) \<and> sm_id m = i
          \<and> i \<notin> set (st_superseded tomb) \<and> \<not> killed (kill_map kept) (sd_seq_hi s) i))
      \<and> \<not> matched (st_predicates tomb @ seg_predicates kept) m"
    using old kept(3) by (auto simp: lsm_view_iff[OF ok] live_copy_def items)
qed

section \<open>Flush\<close>

text \<open>What a fold relies on of a tail past the cursor \<open>c\<close> up to \<open>h\<close>: it wrote its items after \<open>c\<close>, its predicate
  deletes are not past \<open>h\<close>, and pending patches do not meet predicate deletes.\<close>
definition tail_for :: "nat \<Rightarrow> nat \<Rightarrow> tail_scan \<Rightarrow> seg_data list \<Rightarrow> bool" where
  "tail_for c h t segs = (tail_ok t \<and> settled t \<and> (\<forall>m \<in> snd ` set (ts_upserts t). c < sm_write_seq m)
     \<and> (\<forall>(q, p) \<in> set (ts_predicate_tombstones t). q \<le> h) \<and> (ts_pending_patches t = [] \<or> node_predicates t segs = []))"

lemma slice_items_upserts: "tail_ok t \<Longrightarrow> slice_items t = ts_upserts t"
proof -
  assume ok: "tail_ok t"
  have "map_of (ts_pending_patches t) i = None" if "(i, m) \<in> set (ts_upserts t)" for i m
  proof -
    have "i \<in> dom (map_of (ts_upserts t))" using that unfolding dom_map_of_conv_image_fst by (rule rev_image_eqI) simp
    then show ?thesis using ok by (auto simp: tail_ok_def domIff)
  qed
  then show ?thesis unfolding slice_items_def by (intro map_idI) (auto split: prod.splits)
qed

lemma upsert_unmatched:
  assumes "lsm_ok c segs" "tail_for c h t segs" "map_of (ts_upserts t) i = Some m"
  shows "\<not> matched (ts_predicate_tombstones t) m" "\<not> matched (seg_predicates segs) m" "sm_id m = i"
proof -
  have m: "m \<in> snd ` set (ts_upserts t)" using map_of_SomeD[OF assms(3)] by force
  then show "\<not> matched (ts_predicate_tombstones t) m" using assms(2) unfolding tail_for_def settled_def by blast
  have "c < sm_write_seq m" using m assms(2) unfolding tail_for_def by blast
  then show "\<not> matched (seg_predicates segs) m" using assms(1)
    by (auto simp: lsm_ok_def matched_def list_ex_iff)
  show "sm_id m = i" using assms(2,3) by (auto simp: tail_for_def tail_ok_def keyed_def)
qed

lemma distinct_map_filter:
  "distinct xs \<Longrightarrow> \<forall>i \<in> set xs. \<forall>m. f i = Some m \<longrightarrow> sm_id m = i \<Longrightarrow>
   distinct (map sm_id (List.map_filter f xs)) \<and> sm_id ` set (List.map_filter f xs) \<subseteq> set xs"
  by (induction xs) (auto simp: map_filter_simps split: option.splits)

text \<open>The older items a fold re-materializes to patch them.\<close>
lemma fetched_items:
  fixes t segs skip
  assumes "lsm_ok c segs" "tail_for c h t segs" "\<forall>i \<in> dom (map_of (ts_upserts t)). skip i"
  defines "F \<equiv> map (apply_patches t) (node_get_many t segs (patch_only t skip))"
  shows "m \<in> set F \<and> sm_id m = i \<longleftrightarrow> map_of (ts_pending_patches t) i \<noteq> None \<and> \<not> skip i
      \<and> (\<exists>m0. lsm_view segs i = Some m0 \<and> \<not> is_hidden t m0 \<and> m = apply_patches t m0)"
    "distinct (map sm_id F)"
proof -
  have ok: "tail_ok t" using assms(2) by (simp add: tail_for_def)
  define ids where "ids = patch_only t skip"
  have F: "F = map (apply_patches t) (List.map_filter (node_view t segs) ids)"
    by (simp add: F_def ids_def node_get_many_view[OF assms(1) ok])
  have d: "distinct ids" using ok by (simp add: ids_def patch_only_def tail_ok_def bt_ok_distinct)
  have mem: "i \<in> set ids \<longleftrightarrow> map_of (ts_pending_patches t) i \<noteq> None \<and> \<not> skip i" for i
    by (auto simp: ids_def patch_only_def map_of_eq_None_iff)
  have up: "map_of (ts_upserts t) i = None" if "i \<in> set ids" for i
    using that assms(3) by (auto simp: mem domIff)
  have view: "node_view t segs i = Some m \<longleftrightarrow> lsm_view segs i = Some m \<and> \<not> is_hidden t m" if "i \<in> set ids" for i m
    by (auto simp: node_view_def up[OF that] split: option.splits)
  have id: "sm_id m = i" if "i \<in> set ids" "node_view t segs i = Some m" for i m
    using that view keyedD[OF keyed_lsm_view] by blast
  have set: "m \<in> set F \<longleftrightarrow> (\<exists>i \<in> set ids. \<exists>m0. node_view t segs i = Some m0 \<and> m = apply_patches t m0)" for m
    unfolding F by (force simp: List.map_filter_def)
  show "m \<in> set F \<and> sm_id m = i \<longleftrightarrow> map_of (ts_pending_patches t) i \<noteq> None \<and> \<not> skip i
      \<and> (\<exists>m0. lsm_view segs i = Some m0 \<and> \<not> is_hidden t m0 \<and> m = apply_patches t m0)"
  proof
    assume "m \<in> set F \<and> sm_id m = i"
    then obtain j m0 where j: "j \<in> set ids" "node_view t segs j = Some m0" "m = apply_patches t m0" "sm_id m = i"
      unfolding set by blast
    then have "j = i" using id[OF j(1,2)] by simp
    with j view[OF j(1)] show "map_of (ts_pending_patches t) i \<noteq> None \<and> \<not> skip i
      \<and> (\<exists>m0. lsm_view segs i = Some m0 \<and> \<not> is_hidden t m0 \<and> m = apply_patches t m0)" by (auto simp: mem)
  next
    assume a: "map_of (ts_pending_patches t) i \<noteq> None \<and> \<not> skip i
      \<and> (\<exists>m0. lsm_view segs i = Some m0 \<and> \<not> is_hidden t m0 \<and> m = apply_patches t m0)"
    then have i: "i \<in> set ids" by (simp add: mem)
    from a obtain m0 where m0: "node_view t segs i = Some m0" "m = apply_patches t m0" using view[OF i] by blast
    then have "m \<in> set F" using i unfolding set by blast
    then show "m \<in> set F \<and> sm_id m = i" using m0 id[OF i m0(1)] by simp
  qed
  have "distinct (map sm_id (List.map_filter (node_view t segs) ids))"
    using d id by (intro conjunct1[OF distinct_map_filter]) auto
  then show "distinct (map sm_id F)" by (simp add: F comp_def)
qed

lemma fetched_pending:
  assumes "lsm_ok c segs" "tail_for c h t segs" "\<And>i. skip i \<longleftrightarrow> i \<in> fst ` set (ts_upserts t) \<or> sk i"
  defines "F \<equiv> map (apply_patches t) (node_get_many t segs (patch_only t skip))"
  shows "m \<in> set F \<and> sm_id m = i \<longleftrightarrow> map_of (ts_pending_patches t) i \<noteq> None \<and> \<not> sk i
      \<and> (\<exists>m0. lsm_view segs i = Some m0 \<and> \<not> is_hidden t m0 \<and> m = apply_patches t m0)"
    "distinct (map sm_id F)"
proof -
  have skip: "\<forall>i \<in> dom (map_of (ts_upserts t)). skip i" unfolding assms(3) dom_map_of_conv_image_fst by blast
  have "skip i = sk i" if "map_of (ts_pending_patches t) i \<noteq> None"
  proof -
    have "i \<notin> dom (map_of (ts_upserts t))" using that assms(2) by (auto simp: tail_for_def tail_ok_def)
    then show ?thesis unfolding assms(3) dom_map_of_conv_image_fst by blast
  qed
  then show "m \<in> set F \<and> sm_id m = i \<longleftrightarrow> map_of (ts_pending_patches t) i \<noteq> None \<and> \<not> sk i
      \<and> (\<exists>m0. lsm_view segs i = Some m0 \<and> \<not> is_hidden t m0 \<and> m = apply_patches t m0)"
    unfolding F_def fetched_items(1)[OF assms(1,2) skip] by blast
  show "distinct (map sm_id F)" unfolding F_def by (rule fetched_items(2)[OF assms(1,2) skip])
qed

lemma tail_view_iff:
  "tail_view t g i = Some m \<longleftrightarrow> map_of (ts_upserts t) i = Some m \<or>
     map_of (ts_upserts t) i = None \<and> (\<exists>m0. g i = Some m0 \<and> \<not> is_hidden t m0 \<and> m = apply_patches t m0)"
  by (auto simp: tail_view_def split: option.splits)

lemma set_segment_ids: "set (segment_ids segs ids) = {i \<in> set ids. \<exists>s \<in> set segs. i \<in> seg_ids s}"
  by (auto simp: segment_ids_def list_ex_iff)

lemma apply_patches_None: "map_of (ts_pending_patches t) (sm_id m) = None \<Longrightarrow> apply_patches t m = m"
  by (simp add: apply_patches_def)

lemma flush_items_mem:
  assumes ok: "lsm_ok c segs" and t: "tail_for c h t segs"
  shows "m \<in> set (flush_items t segs) \<and> sm_id m = i \<longleftrightarrow> map_of (ts_upserts t) i = Some m \<or>
      map_of (ts_pending_patches t) i \<noteq> None \<and> (\<exists>m0. lsm_view segs i = Some m0 \<and> \<not> is_hidden t m0 \<and> m = apply_patches t m0)"
    "distinct (map sm_id (flush_items t segs))"
proof -
  have tok: "tail_ok t" using t by (simp add: tail_for_def)
  then have bt: "bt_ok (ts_upserts t)" "keyed (map_of (ts_upserts t))"
    and dj: "dom (map_of (ts_upserts t)) \<inter> dom (map_of (ts_pending_patches t)) = {}" by (auto simp: tail_ok_def)
  have f: "m \<in> set (flush_fetched t segs) \<and> sm_id m = i \<longleftrightarrow> map_of (ts_pending_patches t) i \<noteq> None
      \<and> (\<exists>m0. lsm_view segs i = Some m0 \<and> \<not> is_hidden t m0 \<and> m = apply_patches t m0)"
    "distinct (map sm_id (flush_fetched t segs))" for m i
    using fetched_pending[OF ok t, of "\<lambda>i. i \<in> fst ` set (ts_upserts t)" "\<lambda>_. False"] unfolding flush_fetched_def by blast+
  have items: "flush_items t segs = map snd (ts_upserts t) @ flush_fetched t segs"
    by (simp add: flush_items_def slice_items_upserts[OF tok])
  note b = keyed_btree[OF bt]
  have "m \<in> set (flush_items t segs) \<and> sm_id m = i \<longleftrightarrow>
      (m \<in> set (map snd (ts_upserts t)) \<and> sm_id m = i) \<or> (m \<in> set (flush_fetched t segs) \<and> sm_id m = i)"
    unfolding items set_append by blast
  then show "m \<in> set (flush_items t segs) \<and> sm_id m = i \<longleftrightarrow> map_of (ts_upserts t) i = Some m \<or>
      map_of (ts_pending_patches t) i \<noteq> None \<and> (\<exists>m0. lsm_view segs i = Some m0 \<and> \<not> is_hidden t m0 \<and> m = apply_patches t m0)"
    unfolding b(2) f(1) .
  have "sm_id ` set (map snd (ts_upserts t)) \<inter> sm_id ` set (flush_fetched t segs) = {}"
  proof -
    have "m \<notin> set (flush_fetched t segs) \<or> sm_id m \<noteq> sm_id m'" if "m' \<in> set (map snd (ts_upserts t))" for m m'
      using b(2)[of m' "sm_id m'"] f(1)[of m "sm_id m'"] that dj by (auto simp: domIff)
    then show ?thesis by (intro equals0I, elim IntE imageE) metis
  qed
  then show "distinct (map sm_id (flush_items t segs))"
    unfolding items map_append distinct_append set_map[of sm_id] using b(1) f(2) by simp
qed

lemma flush_superseded:
  assumes ok: "lsm_ok c segs" and t: "tail_for c h t segs"
  shows "i \<in> set (st_superseded (flush_tombstones t segs)) \<longleftrightarrow>
     i \<in> set (ts_tombstones t) \<or> i \<in> sm_id ` set (flush_items t segs) \<and> (\<exists>s \<in> set segs. i \<in> seg_ids s)"
proof -
  have tok: "tail_ok t" using t by (simp add: tail_for_def)
  have "fst ` set (ts_upserts t) = sm_id ` set (map snd (ts_upserts t))"
  proof -
    have "sm_id (snd p) = fst p" if "p \<in> set (ts_upserts t)" for p
      using that tok map_of_is_SomeI[OF bt_ok_distinct, of "ts_upserts t" "fst p" "snd p"]
      by (auto simp: tail_ok_def keyed_def)
    then have "sm_id ` snd ` set (ts_upserts t) = fst ` set (ts_upserts t)" unfolding image_image by (rule image_cong[OF refl])
    then show ?thesis by (simp add: image_image)
  qed
  then have "sm_id ` set (flush_items t segs) = fst ` set (ts_upserts t) \<union> sm_id ` set (flush_fetched t segs)"
    unfolding flush_items_def slice_items_upserts[OF tok] set_append image_Un by simp
  then show ?thesis by (auto simp: flush_tombstones_def set_segment_ids)
qed

lemma flush_correct:
  assumes cl: "clustering cl" and ok: "lsm_ok c segs" and t: "tail_for c h t segs" and ch: "c < h"
  shows "lsm_view (flush_segments cl h t segs) = tail_view t (lsm_view segs)" "lsm_ok h (flush_segments cl h t segs)"
proof -
  note items = flush_items_mem[OF ok t] and sup = flush_superseded[OF ok t]
  let ?T = "flush_tombstones t segs"
  have le: "\<forall>s \<in> set segs. sd_seq_hi s < h" using ok ch by (auto simp: lsm_ok_def)
  have sh: "sorted_wrt (\<lambda>a b. \<forall>i \<in> seg_ids a \<inter> seg_ids b. i \<in> set (st_superseded ?T) \<or> killed (kill_map segs) (sd_seq_hi b) i) segs"
  proof (rule sorted_wrt_mono_rel)
    show "sorted_wrt (\<lambda>a b. \<forall>i \<in> seg_ids a \<inter> seg_ids b. killed (kill_map segs) (sd_seq_hi b) i) segs"
      using ok by (simp add: lsm_ok_def)
  qed blast
  have pr: "\<forall>(q, p) \<in> set (st_predicates ?T @ seg_predicates segs). q \<le> h"
    using ok t ch by (auto simp: lsm_ok_def tail_for_def flush_tombstones_def)
  have sg: "sorted_wrt (\<lambda>a b. sd_seq_hi b < sd_seq_hi a) segs"
    "\<forall>s \<in> set segs. distinct (map fst (sd_types s)) \<and> distinct (map sm_id (sd_items s))"
    using ok by (auto simp: lsm_ok_def)
  have sd: "i \<in> set (st_superseded ?T) \<or> killed (kill_map segs) (sd_seq_hi b) i"
    if "b \<in> set segs" "i \<in> seg_ids b" "i \<in> sm_id ` set (flush_items t segs)" for b i
    using that sup by blast
  have push: "lsm_ok h (new_segment cl h (flush_items t segs) ?T # segs)"
    "lsm_view (new_segment cl h (flush_items t segs) ?T # segs) i = Some m \<longleftrightarrow>
      (m \<in> set (flush_items t segs) \<and> sm_id m = i \<or> (\<exists>s \<in> set segs. m \<in> set (sd_items s) \<and> sm_id m = i
          \<and> i \<notin> set (st_superseded ?T) \<and> \<not> killed (kill_map segs) (sd_seq_hi s) i))
      \<and> \<not> matched (st_predicates ?T @ seg_predicates segs) m" for i m
    using push_segment[OF cl items(2) sg le _ sh pr] sd by blast+
  show "lsm_ok h (flush_segments cl h t segs)" unfolding flush_segments_def by (rule push(1))
  show "lsm_view (flush_segments cl h t segs) = tail_view t (lsm_view segs)"
  proof (rule corpus_eqI)
    fix i m
    let ?N = "m \<in> set (flush_items t segs) \<and> sm_id m = i"
    have v: "lsm_view (flush_segments cl h t segs) i = Some m \<longleftrightarrow>
        (?N \<or> live_copy segs i m \<and> i \<notin> set (st_superseded ?T)) \<and> \<not> matched (node_predicates t segs) m"
      unfolding flush_segments_def push(2) by (auto simp: live_copy_def node_predicates_def flush_tombstones_def)
    have dj: "map_of (ts_upserts t) j = Some x \<Longrightarrow> map_of (ts_pending_patches t) j = None"
      "map_of (ts_pending_patches t) j = Some y \<Longrightarrow> j \<notin> set (ts_tombstones t)" for j x y
      using t by (auto simp: tail_for_def tail_ok_def domIff)
    have here: "live_copy segs i x \<Longrightarrow> \<exists>s \<in> set segs. i \<in> seg_ids s" for x by (auto simp: live_copy_def)
    have ids: "i \<in> sm_id ` set (flush_items t segs) \<longleftrightarrow> (\<exists>x. x \<in> set (flush_items t segs) \<and> sm_id x = i)" by blast
    show "lsm_view (flush_segments cl h t segs) i = Some m \<longleftrightarrow> tail_view t (lsm_view segs) i = Some m"
    proof (cases "map_of (ts_upserts t) i")
      case (Some x)
      then have "\<not> matched (node_predicates t segs) x" using upsert_unmatched[OF ok t] by (simp add: node_predicates_def)
      with Some dj(1)[OF Some] here show ?thesis unfolding v tail_view_iff sup ids items(1) by auto
    next
      case None
      show ?thesis
      proof (cases "map_of (ts_pending_patches t) i")
        case (Some y)
        then have np: "node_predicates t segs = []" using t by (auto simp: tail_for_def)
        then have "\<not> is_hidden t x" if "lsm_view segs i = Some x" for x
          using dj(2)[OF Some] keyedD[OF keyed_lsm_view that] by (simp add: is_hidden_matched node_predicates_def)
        moreover have "live_copy segs i x \<Longrightarrow> lsm_view segs i = Some x" for x
          using np by (simp add: lsm_view_iff[OF ok] node_predicates_def)
        ultimately show ?thesis using Some None here unfolding v tail_view_iff sup ids items(1) np matched_simps(1)
          by (metis option.distinct(1))
      next
        case n: None
        then have "x \<notin> set (flush_items t segs) \<or> sm_id x \<noteq> i" for x using items(1)[of x i] None by simp
        moreover have "apply_patches t x = x" if "lsm_view segs i = Some x" for x
          using n keyedD[OF keyed_lsm_view that] by (simp add: apply_patches_None)
        moreover have "live_copy segs i x \<Longrightarrow> sm_id x = i" for x by (auto simp: live_copy_def)
        ultimately show ?thesis using None n unfolding v tail_view_iff sup ids
          by (auto simp: lsm_view_iff[OF ok] is_hidden_matched node_predicates_def)
      qed
    qed
  qed
qed

section \<open>Minor compaction\<close>

definition carried :: "seg_data list \<Rightarrow> memory_id set" where
  "carried M = (\<Union>s \<in> set M. set (st_superseded (sd_tomb s)))"

lemma split_segments:
  assumes "lsm_ok c (M @ K)"
  shows "lsm_ok c M" "a \<in> set M \<Longrightarrow> killed (kill_map (M @ K)) (sd_seq_hi a) i = killed (kill_map M) (sd_seq_hi a) i"
    "b \<in> set K \<Longrightarrow> killed (kill_map (M @ K)) (sd_seq_hi b) i = (i \<in> carried M \<or> killed (kill_map K) (sd_seq_hi b) i)"
proof -
  have hi: "sd_seq_hi b < sd_seq_hi a" if "a \<in> set M" "b \<in> set K" for a b
    using assms that by (auto simp: lsm_ok_def sorted_wrt_append)
  show M: "killed (kill_map (M @ K)) (sd_seq_hi a) i = killed (kill_map M) (sd_seq_hi a) i" if "a \<in> set M" for a i
    using hi[OF that] by (fastforce simp: killed_kill_map)
  show "b \<in> set K \<Longrightarrow> killed (kill_map (M @ K)) (sd_seq_hi b) i = (i \<in> carried M \<or> killed (kill_map K) (sd_seq_hi b) i)"
    using hi by (fastforce simp: killed_kill_map carried_def)
  have "sorted_wrt (\<lambda>a b. \<forall>i \<in> seg_ids a \<inter> seg_ids b. killed (kill_map M) (sd_seq_hi b) i) M"
  proof (rule sorted_wrt_mono_rel)
    show "sorted_wrt (\<lambda>a b. \<forall>i \<in> seg_ids a \<inter> seg_ids b. killed (kill_map (M @ K)) (sd_seq_hi b) i) M"
      using assms by (simp add: lsm_ok_def sorted_wrt_append)
  qed (use M in blast)
  then show "lsm_ok c M" using assms by (auto simp: lsm_ok_def sorted_wrt_append)
qed

lemma live_copy_split:
  assumes "lsm_ok c (M @ K)"
  shows "live_copy (M @ K) i m \<longleftrightarrow> live_copy M i m \<or>
     (\<exists>s \<in> set K. m \<in> set (sd_items s) \<and> sm_id m = i \<and> i \<notin> carried M \<and> \<not> killed (kill_map K) (sd_seq_hi s) i)"
  using split_segments(2,3)[OF assms] by (auto simp: live_copy_def)

text \<open>No pending patch is for an item of the merged segments.\<close>
definition patches_spare :: "tail_scan \<Rightarrow> seg_data list \<Rightarrow> bool" where
  "patches_spare t M = (\<forall>i \<in> fst ` set (ts_pending_patches t). \<forall>s \<in> set M. i \<notin> seg_ids s)"

lemma map_of_minor_folded:
  assumes "lsm_ok c M" "tail_for c h t segs"
  shows "bt_ok (minor_folded t M)" "map_of (minor_folded t M) i = (case map_of (ts_upserts t) i of Some m \<Rightarrow> Some m
     | None \<Rightarrow> (case lsm_view M i of Some m \<Rightarrow> if is_hidden t m then None else Some m | None \<Rightarrow> None))"
proof -
  have tok: "tail_ok t" and st: "settled t" using assms(2) by (simp_all add: tail_for_def)
  let ?live = "insert_all (ts_upserts t) (fold bt_delete (ts_tombstones t) (resolve_segments M))"
  have fld: "minor_folded t M = retain_unmatched (ts_predicate_tombstones t) ?live"
    by (simp add: minor_folded_def slice_items_upserts[OF tok])
  show "bt_ok (minor_folded t M)" by (simp add: fld)
  have "distinct (map fst (ts_upserts t))" using tok by (auto simp: tail_ok_def bt_ok_distinct)
  then have live: "map_of ?live i = (case map_of (ts_upserts t) i of Some m \<Rightarrow> Some m
      | None \<Rightarrow> if i \<in> set (ts_tombstones t) then None else lsm_view M i)"
    by (simp add: map_of_insert_all map_of_fold_delete split: option.split)
  have up: "\<not> matched (ts_predicate_tombstones t) m" if "map_of (ts_upserts t) i = Some m" for m
    using st map_of_SomeD[OF that] unfolding settled_def by force
  have id: "lsm_view M i = Some m \<Longrightarrow> sm_id m = i" for m using keyedD[OF keyed_lsm_view] .
  show "map_of (minor_folded t M) i = (case map_of (ts_upserts t) i of Some m \<Rightarrow> Some m
     | None \<Rightarrow> (case lsm_view M i of Some m \<Rightarrow> if is_hidden t m then None else Some m | None \<Rightarrow> None))"
    unfolding fld by (subst map_of_retain) (use up id in \<open>auto simp: live is_hidden_matched split: option.splits\<close>)
qed

text \<open>What a minor compaction of the \<open>k\<close> newest segments relies on.\<close>
definition minor_pre :: "nat \<Rightarrow> nat \<Rightarrow> nat \<Rightarrow> tail_scan \<Rightarrow> seg_data list \<Rightarrow> bool" where
  "minor_pre c h k t segs = (lsm_ok c segs \<and> tail_for c h t segs \<and> patches_spare t (take k segs))"

lemma minor_preD:
  assumes "minor_pre c h k t segs"
  shows "lsm_ok c segs" "tail_for c h t segs" "patches_spare t (take k segs)" "lsm_ok c (take k segs)"
  using assms split_segments(1)[of c "take k segs" "drop k segs"] by (simp_all add: minor_pre_def)

lemma pending_facts:
  assumes pre: "minor_pre c h k t segs" and p: "map_of (ts_pending_patches t) i = Some y"
  shows "map_of (ts_upserts t) i = None" "i \<notin> set (ts_tombstones t)" "lsm_view (take k segs) i = None" "node_predicates t segs = []"
proof -
  have tok: "tail_ok t" using minor_preD(2)[OF pre] by (simp add: tail_for_def)
  then show "map_of (ts_upserts t) i = None" "i \<notin> set (ts_tombstones t)" using p by (auto simp: tail_ok_def domIff)
  show "node_predicates t segs = []" using minor_preD(2)[OF pre] p by (auto simp: tail_for_def)
  have "\<forall>s \<in> set (take k segs). i \<notin> seg_ids s"
    using minor_preD(3)[OF pre] map_of_SomeD[OF p] by (force simp: patches_spare_def)
  then have "\<not> live_copy (take k segs) i m" for m by (auto simp: live_copy_def)
  then show "lsm_view (take k segs) i = None" using lsm_view_iff[OF minor_preD(4)[OF pre]] by (metis option.exhaust)
qed

lemma minor_fetched_mem:
  assumes pre: "minor_pre c h k t segs"
  shows
  "m \<in> set (minor_fetched t k segs) \<and> sm_id m = i \<longleftrightarrow> map_of (ts_pending_patches t) i \<noteq> None
      \<and> (\<exists>m0. lsm_view segs i = Some m0 \<and> \<not> is_hidden t m0 \<and> m = apply_patches t m0)"
  "distinct (map sm_id (minor_fetched t k segs))"
proof -
  let ?sk = "\<lambda>i. i \<in> set (ts_tombstones t) \<or> map_of (minor_folded t (take k segs)) i \<noteq> None"
  have sk: "\<not> ?sk i" if "map_of (ts_pending_patches t) i \<noteq> None" for i
    using that pending_facts[OF pre] map_of_minor_folded(2)[OF minor_preD(4)[OF pre] minor_preD(2)[OF pre]] by fastforce
  note f = fetched_pending[OF minor_preD(1,2)[OF pre], of _ ?sk]
  show "m \<in> set (minor_fetched t k segs) \<and> sm_id m = i \<longleftrightarrow> map_of (ts_pending_patches t) i \<noteq> None
      \<and> (\<exists>m0. lsm_view segs i = Some m0 \<and> \<not> is_hidden t m0 \<and> m = apply_patches t m0)"
    unfolding minor_fetched_def Let_def by (subst f(1)) (use sk in blast)+
  show "distinct (map sm_id (minor_fetched t k segs))"
    unfolding minor_fetched_def Let_def by (rule f(2)) blast
qed

lemma minor_items_mem:
  assumes pre: "minor_pre c h k t segs"
  shows
  "m \<in> set (map snd (minor_by_id t k segs)) \<and> sm_id m = i \<longleftrightarrow> map_of (minor_folded t (take k segs)) i = Some m \<or>
     map_of (ts_pending_patches t) i \<noteq> None \<and> (\<exists>m0. lsm_view segs i = Some m0 \<and> \<not> is_hidden t m0 \<and> m = apply_patches t m0)"
  "distinct (map sm_id (map snd (minor_by_id t k segs)))"
proof -
  let ?F = "minor_fetched t k segs" and ?G = "minor_folded t (take k segs)"
  note G = map_of_minor_folded[OF minor_preD(4)[OF pre] minor_preD(2)[OF pre]]
  have mo: "map_of (minor_by_id t k segs) i = (case map_of (map (\<lambda>m. (sm_id m, m)) ?F) i of Some m \<Rightarrow> Some m | None \<Rightarrow> map_of ?G i)" for i
    unfolding minor_by_id_def  using minor_fetched_mem(2)[OF pre] by (subst map_of_insert_all) (simp_all add: comp_def)
  have F: "map_of (map (\<lambda>m. (sm_id m, m)) ?F) i = Some m \<longleftrightarrow> m \<in> set ?F \<and> sm_id m = i" for i m
    using minor_fetched_mem(2)[OF pre] by (auto simp: comp_def)
  have excl: "map_of ?G i = None" if "map_of (ts_pending_patches t) i \<noteq> None" for i
    using that pending_facts[OF pre] by (fastforce simp: G)
  have mem: "map_of (minor_by_id t k segs) i = Some m \<longleftrightarrow> map_of ?G i = Some m \<or>
     map_of (ts_pending_patches t) i \<noteq> None \<and> (\<exists>m0. lsm_view segs i = Some m0 \<and> \<not> is_hidden t m0 \<and> m = apply_patches t m0)" for i m
  proof (cases "map_of (map (\<lambda>m. (sm_id m, m)) ?F) i")
    case None
    then have "\<not> (x \<in> set ?F \<and> sm_id x = i)" for x using F[of i x] by simp
    with None show ?thesis unfolding mo minor_fetched_mem(1)[OF pre] by auto
  next
    case (Some a)
    then have a: "a \<in> set ?F \<and> sm_id a = i" "x \<in> set ?F \<and> sm_id x = i \<longleftrightarrow> x = a" for x using F[of i a] F[of i x] by (auto simp del: map_of_eq_Some_iff)
    from a(1) have "map_of ?G i = None" unfolding minor_fetched_mem(1)[OF pre] using excl by blast
    with Some a(2)[of m] show ?thesis unfolding mo minor_fetched_mem(1)[OF pre] by auto
  qed
  have "keyed (map_of (minor_by_id t k segs))"
    using minor_preD(2)[OF pre] keyed_lsm_view[of "take k segs"] keyed_lsm_view[of segs] unfolding keyed_def mem G tail_for_def tail_ok_def
    by (auto split: option.splits if_splits)
  moreover have "bt_ok (minor_by_id t k segs)" unfolding minor_by_id_def  using G(1) by simp
  ultimately show "m \<in> set (map snd (minor_by_id t k segs)) \<and> sm_id m = i \<longleftrightarrow> map_of ?G i = Some m \<or>
     map_of (ts_pending_patches t) i \<noteq> None \<and> (\<exists>m0. lsm_view segs i = Some m0 \<and> \<not> is_hidden t m0 \<and> m = apply_patches t m0)"
    "distinct (map sm_id (map snd (minor_by_id t k segs)))"
    using keyed_btree[of "minor_by_id t k segs"] mem by simp_all
qed

lemma upsert_keys: "tail_ok t \<Longrightarrow> fst ` set (ts_upserts t) = dom (map_of (ts_upserts t))"
  by (simp add: dom_map_of_conv_image_fst)

lemma minor_superseded:
  assumes pre: "minor_pre c h k t segs"
  shows "i \<in> set (st_superseded (minor_tombstones t k segs)) \<longleftrightarrow> i \<in> carried (take k segs) \<or> i \<in> set (ts_tombstones t) \<or>
     (map_of (ts_upserts t) i \<noteq> None \<or> i \<in> sm_id ` set (minor_fetched t k segs)) \<and> (\<exists>s \<in> set segs. i \<in> seg_ids s)"
proof -
  have "i \<in> fst ` set (ts_upserts t) \<longleftrightarrow> map_of (ts_upserts t) i \<noteq> None"
    by (metis domIff dom_map_of_conv_image_fst)
  then show ?thesis by (auto simp: minor_tombstones_def set_segment_ids carried_def)
qed

text \<open>Every older copy of an id the merged segment holds is shadowed.\<close>
lemma minor_shadows:
  assumes pre: "minor_pre c h k t segs" and b: "b \<in> set (drop k segs)" "i \<in> seg_ids b"
    and a: "(\<exists>a \<in> set (take k segs). i \<in> seg_ids a) \<or> map_of (ts_upserts t) i \<noteq> None \<or> i \<in> sm_id ` set (minor_fetched t k segs)"
  shows "i \<in> set (st_superseded (minor_tombstones t k segs)) \<or> killed (kill_map (drop k segs)) (sd_seq_hi b) i"
proof -
  have s: "b \<in> set segs" using b(1) by (rule in_set_dropD)
  have ok: "lsm_ok c (take k segs @ drop k segs)" using minor_preD(1)[OF pre] by simp
  show ?thesis
  proof (cases "\<exists>a \<in> set (take k segs). i \<in> seg_ids a")
    case True
    then obtain a where "a \<in> set (take k segs)" "i \<in> seg_ids a" by blast
    then have "killed (kill_map (take k segs @ drop k segs)) (sd_seq_hi b) i"
      using ok b unfolding lsm_ok_def sorted_wrt_append by blast
    then show ?thesis unfolding split_segments(3)[OF ok b(1)] minor_superseded[OF pre] by blast
  next
    case False
    with a s b(2) show ?thesis unfolding minor_superseded[OF pre] by blast
  qed
qed

lemma minor_item_source:
  assumes pre: "minor_pre c h k t segs" and i: "i \<in> sm_id ` set (map snd (minor_by_id t k segs))"
  shows "(\<exists>a \<in> set (take k segs). i \<in> seg_ids a) \<or> map_of (ts_upserts t) i \<noteq> None \<or> i \<in> sm_id ` set (minor_fetched t k segs)"
proof -
  from i obtain m where m: "m \<in> set (map snd (minor_by_id t k segs)) \<and> sm_id m = i" by blast
  from this[unfolded minor_items_mem(1)[OF pre]] show ?thesis
  proof
    assume "map_of (minor_folded t (take k segs)) i = Some m"
    then have "map_of (ts_upserts t) i \<noteq> None \<or> lsm_view (take k segs) i \<noteq> None"
      unfolding map_of_minor_folded(2)[OF minor_preD(4)[OF pre] minor_preD(2)[OF pre]] by (auto split: option.splits)
    then show ?thesis using lsm_view_iff[OF minor_preD(4)[OF pre], of i] by (auto simp: live_copy_def)
  qed (use minor_fetched_mem(1)[OF pre, of m i] in blast)
qed

lemma minor_push:
  assumes cl: "clustering cl" and pre: "minor_pre c h k t segs" and k: "0 < k" "k \<le> length segs" and ch: "c \<le> h"
  defines "T \<equiv> minor_tombstones t k segs"
  shows "lsm_ok h (minor_segments cl h t k segs)"
    "lsm_view (minor_segments cl h t k segs) i = Some m \<longleftrightarrow>
      (m \<in> set (map snd (minor_by_id t k segs)) \<and> sm_id m = i \<or> (\<exists>s \<in> set (drop k segs). m \<in> set (sd_items s) \<and> sm_id m = i
          \<and> i \<notin> set (st_superseded T) \<and> \<not> killed (kill_map (drop k segs)) (sd_seq_hi s) i))
      \<and> \<not> matched (st_predicates T @ seg_predicates (drop k segs)) m"
proof -
  have ok: "lsm_ok c segs" and okk: "lsm_ok c (take k segs @ drop k segs)" using minor_preD(1)[OF pre] by simp_all
  have le: "\<forall>s \<in> set (drop k segs). sd_seq_hi s < h"
  proof
    fix s assume s: "s \<in> set (drop k segs)"
    obtain a where a: "a \<in> set (take k segs)" using k by (cases segs) (auto simp: take_Cons')
    then have "sd_seq_hi s < sd_seq_hi a" using okk s unfolding lsm_ok_def sorted_wrt_append by blast
    moreover have "sd_seq_hi a \<le> c" using ok in_set_takeD[OF a] by (simp add: lsm_ok_def)
    ultimately show "sd_seq_hi s < h" using ch by simp
  qed
  have sh: "sorted_wrt (\<lambda>a b. \<forall>i \<in> seg_ids a \<inter> seg_ids b. i \<in> set (st_superseded T) \<or> killed (kill_map (drop k segs)) (sd_seq_hi b) i) (drop k segs)"
  proof (rule sorted_wrt_mono_rel)
    show "sorted_wrt (\<lambda>a b. \<forall>i \<in> seg_ids a \<inter> seg_ids b. killed (kill_map (take k segs @ drop k segs)) (sd_seq_hi b) i) (drop k segs)"
      using okk unfolding lsm_ok_def sorted_wrt_append by blast
  next
    fix a b assume "b \<in> set (drop k segs)"
      and "\<forall>i \<in> seg_ids a \<inter> seg_ids b. killed (kill_map (take k segs @ drop k segs)) (sd_seq_hi b) i"
    then show "\<forall>i \<in> seg_ids a \<inter> seg_ids b. i \<in> set (st_superseded T) \<or> killed (kill_map (drop k segs)) (sd_seq_hi b) i"
      unfolding split_segments(3)[OF okk \<open>b \<in> set (drop k segs)\<close>] T_def minor_superseded[OF pre] by blast
  qed
  have pr: "\<forall>(q, p) \<in> set (st_predicates T @ seg_predicates (drop k segs)). q \<le> h"
  proof -
    have "set (seg_predicates (take k segs)) \<union> set (seg_predicates (drop k segs)) = set (seg_predicates segs)"
      by (metis append_take_drop_id seg_predicates_simps(3) set_append)
    then have "set (st_predicates T @ seg_predicates (drop k segs)) = set (seg_predicates segs) \<union> set (ts_predicate_tombstones t)"
      by (auto simp: T_def minor_tombstones_def)
    moreover have "\<forall>(q, p) \<in> set (seg_predicates segs). q \<le> h" using ok ch by (auto simp: lsm_ok_def)
    moreover have "\<forall>(q, p) \<in> set (ts_predicate_tombstones t). q \<le> h" using minor_preD(2)[OF pre] by (simp add: tail_for_def)
    ultimately show ?thesis by (simp add: ball_Un)
  qed
  have sg: "sorted_wrt (\<lambda>a b. sd_seq_hi b < sd_seq_hi a) (drop k segs)"
    "\<forall>s \<in> set (drop k segs). distinct (map fst (sd_types s)) \<and> distinct (map sm_id (sd_items s))"
    using ok by (auto simp: lsm_ok_def sorted_wrt_drop dest: in_set_dropD)
  have sd: "i \<in> set (st_superseded T) \<or> killed (kill_map (drop k segs)) (sd_seq_hi b) i"
    if "b \<in> set (drop k segs)" "i \<in> seg_ids b" "i \<in> sm_id ` set (map snd (minor_by_id t k segs))" for b i
    unfolding T_def by (rule minor_shadows[OF pre that(1,2) minor_item_source[OF pre that(3)]])
  note push = push_segment[OF cl minor_items_mem(2)[OF pre] sg le _ sh pr]
  show "lsm_ok h (minor_segments cl h t k segs)"
    unfolding minor_segments_def T_def[symmetric] by (rule push(1)) (rule sd)
  show "lsm_view (minor_segments cl h t k segs) i = Some m \<longleftrightarrow>
      (m \<in> set (map snd (minor_by_id t k segs)) \<and> sm_id m = i \<or> (\<exists>s \<in> set (drop k segs). m \<in> set (sd_items s) \<and> sm_id m = i
          \<and> i \<notin> set (st_superseded T) \<and> \<not> killed (kill_map (drop k segs)) (sd_seq_hi s) i))
      \<and> \<not> matched (st_predicates T @ seg_predicates (drop k segs)) m"
    unfolding minor_segments_def T_def[symmetric] by (rule push(2)) (rule sd)
qed

lemma minor_correct:
  assumes cl: "clustering cl" and pre: "minor_pre c h k t segs" and k: "0 < k" "k \<le> length segs" and ch: "c \<le> h"
  shows "lsm_view (minor_segments cl h t k segs) = tail_view t (lsm_view segs)"
proof (rule corpus_eqI)
  fix i m
  let ?M = "take k segs" and ?K = "drop k segs" and ?T = "minor_tombstones t k segs"
  let ?kept = "\<lambda>x. \<exists>s \<in> set ?K. x \<in> set (sd_items s) \<and> sm_id x = i \<and> i \<notin> carried ?M \<and> \<not> killed (kill_map ?K) (sd_seq_hi s) i"
  have ok: "lsm_ok c segs" and okk: "lsm_ok c (?M @ ?K)" and t: "tail_for c h t segs" using minor_preD[OF pre] by simp_all
  have np: "st_predicates ?T @ seg_predicates ?K = seg_predicates ?M @ ts_predicate_tombstones t @ seg_predicates ?K"
    by (simp add: minor_tombstones_def)
  have segp: "matched (seg_predicates segs) x \<longleftrightarrow> matched (seg_predicates ?M) x \<or> matched (seg_predicates ?K) x" for x
    by (metis append_take_drop_id seg_predicates_simps(3) matched_simps(2))
  have live: "live_copy segs i x \<longleftrightarrow> live_copy ?M i x \<or> ?kept x" for x using live_copy_split[OF okk] by simp
  let ?N = "m \<in> set (map snd (minor_by_id t k segs)) \<and> sm_id m = i"
  have kept: "(\<exists>s \<in> set ?K. m \<in> set (sd_items s) \<and> sm_id m = i \<and> i \<notin> set (st_superseded ?T) \<and> \<not> killed (kill_map ?K) (sd_seq_hi s) i)
      \<longleftrightarrow> ?kept m \<and> i \<notin> set (st_superseded ?T)" unfolding minor_superseded[OF pre] by blast
  have v: "lsm_view (minor_segments cl h t k segs) i = Some m \<longleftrightarrow> (?N \<or> ?kept m \<and> i \<notin> set (st_superseded ?T))
      \<and> \<not> matched (ts_predicate_tombstones t) m \<and> \<not> matched (seg_predicates segs) m"
    unfolding minor_push(2)[OF cl pre k ch] np kept segp matched_simps by blast
  have gone: "\<not> (?kept x \<and> i \<notin> set (st_superseded ?T))"
    if "(\<exists>a \<in> set ?M. i \<in> seg_ids a) \<or> map_of (ts_upserts t) i \<noteq> None \<or> i \<in> sm_id ` set (minor_fetched t k segs)" for x
    using minor_shadows[OF pre _ _ that] by blast
  note N = minor_items_mem(1)[OF pre, of m i] and G = map_of_minor_folded(2)[OF minor_preD(4)[OF pre] t, of i]
  show "lsm_view (minor_segments cl h t k segs) i = Some m \<longleftrightarrow> tail_view t (lsm_view segs) i = Some m"
  proof (cases "map_of (ts_upserts t) i")
    case (Some x)
    then have "map_of (ts_pending_patches t) i = None" using pending_facts(1)[OF pre] by (metis option.distinct(1) option.exhaust)
    with Some show ?thesis unfolding v N tail_view_iff using gone upsert_unmatched[OF ok t Some] by (auto simp: G)
  next
    case None
    show ?thesis
    proof (cases "map_of (ts_pending_patches t) i")
      case (Some y)
      note p = pending_facts[OF pre Some]
      then have none: "\<not> matched (ts_predicate_tombstones t) x" "\<not> matched (seg_predicates segs) x" for x
        by (simp_all add: node_predicates_def)
      have hid: "\<not> is_hidden t x" if "lsm_view segs i = Some x" for x
        using p(2) none keyedD[OF keyed_lsm_view that] by (simp add: is_hidden_matched)
      have "\<not> (?kept m \<and> i \<notin> set (st_superseded ?T))"
      proof
        assume k: "?kept m \<and> i \<notin> set (st_superseded ?T)"
        then have "lsm_view segs i = Some m" using none by (simp add: lsm_view_iff[OF ok] live)
        then have "apply_patches t m \<in> set (minor_fetched t k segs) \<and> sm_id (apply_patches t m) = i"
          unfolding minor_fetched_mem(1)[OF pre] using Some hid by blast
        then have "i \<in> sm_id ` set (minor_fetched t k segs)" by (metis imageI)
        with gone k show False by blast
      qed
      then show ?thesis using Some None p(3) none unfolding v N tail_view_iff by (auto simp: G)
    next
      case n: None
      have nf: "i \<notin> sm_id ` set (minor_fetched t k segs)" using minor_fetched_mem(1)[OF pre, of _ i] n by blast
      have pat: "apply_patches t x = x" if "lsm_view segs i = Some x" for x
        using n keyedD[OF keyed_lsm_view that] by (simp add: apply_patches_None)
      have "map_of (minor_folded t ?M) i = Some m \<longleftrightarrow> lsm_view ?M i = Some m \<and> \<not> is_hidden t m"
        using None by (auto simp: G split: option.splits)
      then have "map_of (minor_folded t ?M) i = Some m \<longleftrightarrow> live_copy ?M i m \<and> \<not> matched (seg_predicates ?M) m \<and> \<not> is_hidden t m"
        unfolding lsm_view_iff[OF minor_preD(4)[OF pre]] by blast
      moreover have "live_copy ?M i m \<or> ?kept m \<Longrightarrow> is_hidden t m = (i \<in> set (ts_tombstones t) \<or> matched (ts_predicate_tombstones t) m)"
        by (auto simp: is_hidden_matched live_copy_def)
      moreover have "tail_view t (lsm_view segs) i = Some m \<longleftrightarrow> (live_copy ?M i m \<or> ?kept m) \<and> \<not> matched (seg_predicates segs) m \<and> \<not> is_hidden t m"
      proof -
        have "tail_view t (lsm_view segs) i = Some m \<longleftrightarrow> lsm_view segs i = Some m \<and> \<not> is_hidden t m"
          unfolding tail_view_iff using None pat by auto
        then show ?thesis unfolding lsm_view_iff[OF ok] live by blast
      qed
      moreover have "i \<in> set (st_superseded ?T) \<longleftrightarrow> i \<in> carried ?M \<or> i \<in> set (ts_tombstones t)"
        unfolding minor_superseded[OF pre] using None nf by blast
      ultimately show ?thesis unfolding v N using n segp[of m] by auto
    qed
  qed
qed

end
