(* ===== verification/Fold_Run.thy ===== *)
theory Fold_Run
  imports Segment_Folds
begin

text \<open>
  The contract every fold meets, as a locale interpreted for the full rebuild, the flush and the minor compaction, and
  what follows for any sequence of folds of one log; then the properties of the folds and of point reads.
\<close>

section \<open>What every fold promises\<close>

text \<open>A full rebuild drops links to memories that are gone; contents are compared without the derived links.\<close>
definition unlink :: "stored_memory \<Rightarrow> stored_memory" where
  "unlink m = m\<lparr>sm_semantic_out := []\<rparr>"

definition unlinked :: "corpus \<Rightarrow> corpus" where
  "unlinked c = map_option unlink \<circ> c"

definition log_slice :: "nat \<Rightarrow> nat \<Rightarrow> wal_entry list \<Rightarrow> wal_entry list" where
  "log_slice c h log = filter (\<lambda>e. c < we_seq e \<and> we_seq e \<le> h) log"

definition plain_log :: "wal_entry list \<Rightarrow> bool" where
  "plain_log es = (\<forall>e \<in> set es. \<forall>op \<in> set (we_ops e). \<not> is_predicate_delete op)"

lemma unlink_simps [simp]:
  "sm_id (unlink m) = sm_id m" "sm_write_seq (unlink m) = sm_write_seq m" "unlink (m\<lparr>sm_semantic_out := x\<rparr>) = unlink m"
  "unlink (prune_links L m) = unlink m"
  by (simp_all add: unlink_def prune_links_def)

lemma unlink_apply_deltas: "unlink (apply_deltas m ds) = apply_deltas (unlink m) ds"
proof -
  have "unlink (apply_delta d m) = apply_delta d (unlink m)" for d m
    by (cases d) (simp_all add: unlink_def Let_def)
  then show ?thesis by (induction ds arbitrary: m) simp_all
qed

lemma unlink_predicate: "predicate_matches p (unlink m) = predicate_matches p m"
  by (simp add: predicate_matches_def unlink_def)

lemma unlink_unlink [simp]: "unlink (unlink m) = unlink m"
  by (simp add: unlink_def)

lemma unlinked_apply_op: "unlinked (apply_op q op c) = unlinked (apply_op q op (unlinked c))"
proof (rule ext)
  fix i
  show "unlinked (apply_op q op c) i = unlinked (apply_op q op (unlinked c)) i"
  proof (cases op)
    case (Patch j ds)
    then show ?thesis by (cases "c i") (auto simp: unlinked_def unlink_apply_deltas option.map_comp comp_def)
  next
    case (TombstoneWhere p)
    then show ?thesis by (cases "c i") (simp_all add: unlinked_def unlink_predicate)
  qed (simp_all add: unlinked_def option.map_comp comp_def)
qed

lemma unlinked_cong: "unlinked c = unlinked c' \<Longrightarrow> unlinked (apply_op q op c) = unlinked (apply_op q op c')"
  by (metis unlinked_apply_op)

lemma unlinked_replay: "unlinked c = unlinked c' \<Longrightarrow> unlinked (replay es c) = unlinked (replay es c')"
proof -
  have ops: "unlinked c = unlinked c' \<Longrightarrow> unlinked (fold (apply_op q) ops c) = unlinked (fold (apply_op q) ops c')" for q ops c c'
  proof (induction ops arbitrary: c c')
    case (Cons op ops)
    from Cons.IH[OF unlinked_cong[OF Cons.prems]] show ?case by simp
  qed simp
  have "unlinked c = unlinked c' \<Longrightarrow> unlinked (fold apply_entry es c) = unlinked (fold apply_entry es c')" for c c'
  proof (induction es arbitrary: c c')
    case (Cons e es)
    from Cons.IH[OF ops[OF Cons.prems]] show ?case by (simp add: apply_entry_def)
  qed simp
  then show "unlinked c = unlinked c' \<Longrightarrow> ?thesis" unfolding replay_def .
qed

lemma replay_append: "replay (es @ es') c = replay es' (replay es c)"
  by (simp add: replay_def)

text \<open>The contract of a fold of the tail \<open>t\<close> into segments, moving the cursor from \<open>c\<close> to \<open>h\<close>.\<close>
locale fold_contract =
  fixes fld :: "nat \<Rightarrow> tail_scan \<Rightarrow> seg_data list \<Rightarrow> seg_data list"
    and pre :: "nat \<Rightarrow> nat \<Rightarrow> tail_scan \<Rightarrow> seg_data list \<Rightarrow> bool"
  assumes fold_ok: "pre c h t segs \<Longrightarrow> lsm_ok h (fld h t segs)"
    and fold_view: "pre c h t segs \<Longrightarrow> unlinked (lsm_view (fld h t segs)) = unlinked (tail_view t (lsm_view segs))"
begin

lemma fold_replays:
  assumes "pre c h (fold_entries es) segs" "plain_log es" "unlinked (lsm_view segs) = unlinked (replay old Map.empty)"
  shows "unlinked (lsm_view (fld h (fold_entries es) segs)) = unlinked (replay (old @ es) Map.empty)"
proof -
  have "tail_view (fold_entries es) (lsm_view segs) = replay es (lsm_view segs)"
    using assms(2) by (intro fold_entries_view keyed_lsm_view) (simp add: plain_log_def)
  with fold_view[OF assms(1)] unlinked_replay[OF assms(3), of es] show ?thesis by (simp add: replay_append)
qed

end

text \<open>The three folds meet it.\<close>
lemma unlinked_pruned: "unlinked (map_option (prune_links L) \<circ> V) = unlinked V"
  by (rule ext) (simp add: unlinked_def option.map_comp comp_def)

interpretation full_fold: fold_contract "index_segments cl" "\<lambda>c h t segs. clustering cl \<and> tail_ok t \<and> settled t" for cl
proof
  fix c h t segs assume a: "clustering cl \<and> tail_ok t \<and> settled t"
  show "lsm_ok h (index_segments cl h t segs)" using index_view(2) a by blast
  show "unlinked (lsm_view (index_segments cl h t segs)) = unlinked (tail_view t (lsm_view segs))"
    using a by (simp add: index_view(1) unlinked_pruned)
qed

interpretation flush_fold: fold_contract "flush_segments cl" "\<lambda>c h t segs. clustering cl \<and> lsm_ok c segs \<and> tail_for c h t segs \<and> c < h" for cl
  by unfold_locales (use flush_correct in \<open>auto\<close>)

interpretation minor_fold: fold_contract "\<lambda>h t. minor_segments cl h t k"
    "\<lambda>c h t segs. clustering cl \<and> minor_pre c h k t segs \<and> 0 < k \<and> k \<le> length segs \<and> c \<le> h" for cl k
proof
  fix c h t segs assume a: "clustering cl \<and> minor_pre c h k t segs \<and> 0 < k \<and> k \<le> length segs \<and> c \<le> h"
  then show "lsm_ok h (minor_segments cl h t k segs)" using minor_push(1) by blast
  show "unlinked (lsm_view (minor_segments cl h t k segs)) = unlinked (tail_view t (lsm_view segs))"
    using a minor_correct[of cl c h k t segs] by simp
qed

section \<open>Any sequence of folds\<close>

lemma set_bt_insert: "set (bt_insert k v m) \<subseteq> insert (k, v) (set m)"
  by (induction k v m rule: bt_insert.induct) auto

lemma fold_op_after:
  assumes "\<forall>m \<in> snd ` set (ts_upserts t). c < sm_write_seq m" "c < q"
  shows "\<forall>m \<in> snd ` set (ts_upserts (fold_op q op t)). c < sm_write_seq m"
proof (cases op)
  case (Upsert x)
  then show ?thesis using assms set_bt_insert[of "m_id x" _ "ts_upserts t"] by (fastforce simp: Let_def)
next
  case (Patch i ds)
  have "\<forall>m \<in> snd ` set (bt_insert i (apply_deltas x ds) (ts_upserts t)). c < sm_write_seq m" if "map_of (ts_upserts t) i = Some x" for x
    using assms(1) set_bt_insert[of i "apply_deltas x ds" "ts_upserts t"] map_of_SomeD[OF that] by fastforce
  then show ?thesis using Patch assms(1) by (auto split: option.splits)
qed (use assms(1) in \<open>auto simp: bt_delete_def\<close>)

lemma fold_op_plain: "\<not> is_predicate_delete op \<Longrightarrow> ts_predicate_tombstones (fold_op q op t) = ts_predicate_tombstones t"
  by (cases op) (auto simp: Let_def split: option.splits)

lemma fold_entries_plain:
  assumes "plain_log es" "\<forall>e \<in> set es. c < we_seq e"
  shows "ts_predicate_tombstones (fold_entries es) = []" "\<forall>m \<in> snd ` set (ts_upserts (fold_entries es)). c < sm_write_seq m"
proof -
  let ?I = "\<lambda>t. ts_predicate_tombstones t = [] \<and> (\<forall>m \<in> snd ` set (ts_upserts t). c < sm_write_seq m)"
  have ops: "?I t \<Longrightarrow> c < q \<Longrightarrow> \<forall>op \<in> set ops. \<not> is_predicate_delete op \<Longrightarrow> ?I (fold (fold_op q) ops t)" for q ops t
  proof (induction ops arbitrary: t)
    case (Cons op ops)
    have "ts_predicate_tombstones (fold_op q op t) = []" using Cons.prems by (simp add: fold_op_plain)
    then have "?I (fold_op q op t)" using Cons.prems(1,2) fold_op_after[of t c q op] by blast
    from Cons.IH[OF this Cons.prems(2)] Cons.prems(3) show ?case by simp
  qed simp
  have "?I t \<Longrightarrow> plain_log es \<Longrightarrow> \<forall>e \<in> set es. c < we_seq e \<Longrightarrow> ?I (fold fold_entry es t)" for t
  proof (induction es arbitrary: t)
    case (Cons e es)
    have "?I (fold_entry e t)" unfolding fold_entry_def by (rule ops) (use Cons.prems in \<open>auto simp: plain_log_def\<close>)
    from Cons.IH[OF this] Cons.prems(2,3) show ?case by (simp add: plain_log_def)
  qed simp
  from this[of tail_scan_default] assms
  show "ts_predicate_tombstones (fold_entries es) = []" "\<forall>m \<in> snd ` set (ts_upserts (fold_entries es)). c < sm_write_seq m"
    by (simp_all add: fold_entries_def tail_scan_default_def)
qed

lemma log_slice_append:
  assumes "sorted_wrt (\<lambda>a b. we_seq a < we_seq b) log" "a \<le> b" "b \<le> d"
  shows "log_slice a d log = log_slice a b log @ log_slice b d log"
  using assms
proof (induction log)
  case (Cons e log)
  have "we_seq e \<le> b \<or> log_slice a b log = []"
    using Cons.prems(1,3) by (auto simp: log_slice_def filter_empty_conv not_le)
  with Cons show ?case by (auto simp: log_slice_def)
qed (simp add: log_slice_def)

lemma tail_for_plain:
  assumes "plain_log log" "seg_predicates segs = []"
  shows "tail_for c h (fold_entries (log_slice c h log)) segs"
proof -
  have "plain_log (log_slice c h log)" "\<forall>e \<in> set (log_slice c h log). c < we_seq e"
    using assms(1) by (auto simp: plain_log_def log_slice_def)
  note p = fold_entries_plain[OF this]
  show ?thesis using p assms(2) by (simp add: tail_for_def tail_ok_fold_entries settled_def node_predicates_def)
qed

lemma plain_segments:
  assumes "ts_predicate_tombstones t = []" "seg_predicates segs = []"
  shows "seg_predicates (index_segments cl h t segs) = []" "seg_predicates (flush_segments cl h t segs) = []"
    "seg_predicates (minor_segments cl h t k segs) = []"
  using assms by (auto simp: index_segments_def no_tombstones_def flush_segments_def flush_tombstones_def
      minor_segments_def minor_tombstones_def seg_predicates_def dest: in_set_takeD in_set_dropD)

text \<open>The published segments of a namespace whose log is \<open>log\<close>: any sequence of full rebuilds, flushes and minor
  compactions, each over the log between the cursor and a later head.\<close>
inductive fold_run :: "(stored_memory list \<Rightarrow> stored_memory list list) \<Rightarrow> wal_entry list \<Rightarrow> nat \<Rightarrow> seg_data list \<Rightarrow> bool"
  for cl log where
  Start: "fold_run cl log 0 []"
| Full: "fold_run cl log c segs \<Longrightarrow> c \<le> h \<Longrightarrow>
    fold_run cl log h (index_segments cl h (fold_entries (log_slice c h log)) segs)"
| Flush: "fold_run cl log c segs \<Longrightarrow> c < h \<Longrightarrow>
    fold_run cl log h (flush_segments cl h (fold_entries (log_slice c h log)) segs)"
| Minor: "fold_run cl log c segs \<Longrightarrow> c \<le> h \<Longrightarrow> 2 \<le> k \<Longrightarrow> k \<le> length segs \<Longrightarrow>
    patches_spare (fold_entries (log_slice c h log)) (take k segs) \<Longrightarrow>
    fold_run cl log h (minor_segments cl h (fold_entries (log_slice c h log)) k segs)"

text \<open>What holds after any number of folds.\<close>
definition folded :: "wal_entry list \<Rightarrow> nat \<Rightarrow> seg_data list \<Rightarrow> bool" where
  "folded log c segs = (lsm_ok c segs \<and> seg_predicates segs = [] \<and>
     unlinked (lsm_view segs) = unlinked (replay (log_slice 0 c log) Map.empty))"

lemma folded_start: "folded log 0 []"
proof -
  have "log_slice 0 0 log = []" by (auto simp: log_slice_def filter_empty_conv)
  moreover have "lsm_view [] = Map.empty" by (rule ext) (simp add: lsm_view_def)
  ultimately show ?thesis by (simp add: replay_def folded_def)
qed

context fold_contract
begin

lemma folded_step:
  assumes "folded log c segs" "c \<le> h" "sorted_wrt (\<lambda>a b. we_seq a < we_seq b) log" "plain_log log"
    and "tail_for c h (fold_entries (log_slice c h log)) segs \<Longrightarrow> pre c h (fold_entries (log_slice c h log)) segs"
    and "\<And>t. ts_predicate_tombstones t = [] \<Longrightarrow> seg_predicates (fld h t segs) = []"
  shows "folded log h (fld h (fold_entries (log_slice c h log)) segs)"
proof -
  let ?es = "log_slice c h log"
  have es: "plain_log ?es" "\<forall>e \<in> set ?es. c < we_seq e" using assms(4) by (auto simp: plain_log_def log_slice_def)
  have "tail_for c h (fold_entries ?es) segs" using assms(1,4) by (intro tail_for_plain) (simp_all add: folded_def)
  from assms(5)[OF this] have p: "pre c h (fold_entries ?es) segs" .
  have "unlinked (lsm_view (fld h (fold_entries ?es) segs)) = unlinked (replay (log_slice 0 c log @ ?es) Map.empty)"
    using assms(1) by (intro fold_replays[OF p es(1)]) (simp add: folded_def)
  then show ?thesis
    using fold_ok[OF p] assms(6)[OF fold_entries_plain(1)[OF es]] log_slice_append[OF assms(3), of 0 c h] assms(2)
    by (simp add: folded_def)
qed

end


definition one_cluster :: "stored_memory list \<Rightarrow> stored_memory list list" where
  "one_cluster ms = [ms]"

lemma clustering_one [simp]: "clustering one_cluster"
  by (simp add: clustering_def one_cluster_def)


definition sample_item :: "u8 \<Rightarrow> stored_memory" where
  "sample_item i = into_stored (plain_memory (MemoryId [i]) ''old'' [])"

definition sample_segment :: "nat \<Rightarrow> u8 \<Rightarrow> seg_data" where
  "sample_segment h i = new_segment one_cluster h [sample_item i] no_tombstones"

lemma sample_item_simps [simp]:
  "sm_id (sample_item i) = MemoryId [i]" "sm_text (sample_item i) = ''old''" "sm_write_seq (sample_item i) = 0" "sm_memory_type (sample_item i) = 0"
  by (simp_all add: sample_item_def into_stored_def plain_memory_def)

lemma sample_segment_simps [simp]:
  "sd_seq_hi (sample_segment h i) = h" "sd_items (sample_segment h i) = [sample_item i]" "sd_tomb (sample_segment h i) = no_tombstones"
  "map fst (sd_types (sample_segment h i)) = [0]" "st_superseded no_tombstones = []" "st_predicates no_tombstones = []"
  by (simp_all add: sample_segment_def sd_items_def group_by_type_def bt_group_def bt_push_def one_cluster_def new_segment_def no_tombstones_def)

lemma sample_segments_ok: "lsm_ok 3 [sample_segment 3 1, sample_segment 2 2]"
  by (simp add: lsm_ok_def)

lemma kill_map_sample [simp]: "kill_map [sample_segment 3 1, sample_segment 2 2] = Map.empty"
  by (simp add: kill_map_def)

lemma killed_Nil [simp]: "killed (kill_map []) h i = False"
  by (simp add: killed_kill_map)

lemma killed_empty [simp]: "killed Map.empty h i = False"
  by (simp add: killed_def)

lemma resolve_sample: "resolve_segments [sample_segment 3 1, sample_segment 2 2]
    = [(MemoryId [1], sample_item 1), (MemoryId [2], sample_item 2)]"
  by (simp add: resolve_segments_def retain_unmatched_def merge_item_def less_memory_id_def)

lemma lsm_view_sample: "lsm_view [sample_segment 3 1, sample_segment 2 2] (MemoryId [1]) = Some (sample_item 1)"
  by (simp flip: map_of_resolve add: resolve_sample)

section \<open>Properties\<close>





text \<open>A run of length \<open>k\<close> that may be merged.\<close>
definition run_fits :: "nat list \<Rightarrow> nat \<Rightarrow> bool" where
  "run_fits dcs k = (2 \<le> k \<and> k < length dcs \<and> sum_list (take k dcs) \<le> dcs ! k)"

text \<open>The tiering rule returns the longest run of the newest segments, at least two, whose combined size fits under
  the first segment it keeps, and nothing exactly when no such run exists.\<close>
theorem minor_run_len_longest:
  "case minor_run_len dcs of
      Some k \<Rightarrow> run_fits dcs k \<and> (\<forall>j. run_fits dcs j \<longrightarrow> j \<le> k)
    | None \<Rightarrow> (\<forall>j. \<not> run_fits dcs j)"
proof -
  define P where "P dcs b = (case b of Some k \<Rightarrow> run_fits dcs k \<and> (\<forall>j. run_fits dcs j \<longrightarrow> j \<le> k)
    | None \<Rightarrow> (\<forall>j. \<not> run_fits dcs j))" for dcs b
  have snoc: "run_fits (pre @ [dc]) j \<longleftrightarrow> run_fits pre j \<or> j = length pre \<and> 2 \<le> j \<and> sum_list pre \<le> dc" for pre dc j
    by (cases "j < length pre") (auto simp: run_fits_def nth_append)
  have lt: "run_fits pre j \<Longrightarrow> j < length pre" for pre j by (simp add: run_fits_def)
  have "P pre best \<Longrightarrow> P (pre @ ds) (run_len_from (length pre) (sum_list pre) best ds)" for pre best ds
  proof (induction ds arbitrary: pre best)
    case (Cons dc ds)
    have "P (pre @ [dc]) (if MINOR_COMPACT_MIN_RUN \<le> length pre \<and> sum_list pre \<le> dc then Some (length pre) else best)"
      using Cons.prems lt[of pre]
      by (auto simp: P_def snoc MINOR_COMPACT_MIN_RUN_def less_imp_le split: option.splits)
    from Cons.IH[OF this] show ?case by simp
  qed simp
  from this[of "[]" None dcs] have "P dcs (minor_run_len dcs)" by (simp add: P_def minor_run_len_def run_fits_def)
  then show ?thesis by (simp add: P_def)
qed

theorem minor_run_len_longest_witness:
  "minor_run_len [512, 1056, 1536, 16896] = Some 3 \<and> run_fits [512, 1056, 1536, 16896] 3"
proof -
  have "minor_run_len [512, 1056, 1536, 16896] = Some 3"
    by (simp add: minor_run_len_def MINOR_COMPACT_MIN_RUN_def)
  with minor_run_len_longest[of "[512, 1056, 1536, 16896]"] show ?thesis by simp
qed

text \<open>A minor compaction loses acknowledged patches: a patch of a memory that lives in a merged segment is neither
  applied to the merged copy nor kept in the log past the new cursor, so the published segments show the old text where
  the log (and a full rebuild of the same state) shows the patched one.\<close>
theorem minor_compact_loses_patch:
  "\<exists>segs es i m. lsm_ok 3 segs \<and> lsm_view (minor_segments one_cluster 4 (fold_entries es) 2 segs) i = Some m \<and> sm_text m = ''old''
     \<and> (\<exists>m'. replay es (lsm_view segs) i = Some m' \<and> sm_text m' = ''new'')
     \<and> (\<exists>m'. lsm_view (index_segments one_cluster 4 (fold_entries es) segs) i = Some m' \<and> sm_text m' = ''new'')"
proof -
  let ?i = "MemoryId [1]" and ?es = "[wal_entry_new 4 [Patch (MemoryId [1]) [SetText ''new'']]]"
  let ?segs = "[sample_segment 3 1, sample_segment 2 2]" and ?t = "fold_entries ?es"
  have t: "ts_tombstones ?t = []" "ts_upserts ?t = []" "ts_pending_patches ?t = [(?i, [SetText ''new''])]" "ts_predicate_tombstones ?t = []"
    by (simp_all add: fold_entries_def fold_entry_def wal_entry_new_def tail_scan_default_def)
  have "minor_folded ?t ?segs = [(?i, sample_item 1), (MemoryId [2], sample_item 2)]"
    by (simp add: minor_folded_def t resolve_sample slice_items_def insert_all_def retain_unmatched_def)
  then have f: "minor_fetched ?t 2 ?segs = []" and fo: "minor_folded ?t (take 2 ?segs) = [(?i, sample_item 1), (MemoryId [2], sample_item 2)]"
    by (simp_all add: minor_fetched_def patch_only_def t node_get_many_def Let_def)
  have by_id: "minor_by_id ?t 2 ?segs = [(?i, sample_item 1), (MemoryId [2], sample_item 2)]"
    unfolding minor_by_id_def f fo by (simp add: insert_all_def)
  have "minor_tombstones ?t 2 ?segs = no_tombstones"
    unfolding minor_tombstones_def f t by (simp add: segment_ids_def sort_dedup_def no_tombstones_def)
  then have "lsm_view (minor_segments one_cluster 4 ?t 2 ?segs) ?i = Some (sample_item 1)"
    by (simp add: minor_segments_def by_id lsm_view_single)
  moreover have "replay ?es (lsm_view ?segs) ?i = Some (apply_deltas (sample_item 1) [SetText ''new''])"
    by (simp add: replay_def apply_entry_def wal_entry_new_def lsm_view_sample)
  moreover have "lsm_view (index_segments one_cluster 4 ?t ?segs) ?i
      = map_option (prune_links (dom (tail_view ?t (lsm_view ?segs)))) (Some (apply_deltas (sample_item 1) [SetText ''new'']))"
    unfolding index_view(1)[OF clustering_one tail_ok_fold_entries[of ?es], unfolded settled_def t, simplified]
    by (simp add: tail_view_def t lsm_view_sample is_hidden_def apply_patches_def)
  ultimately show ?thesis using sample_segments_ok by (fastforce simp: prune_links_def)
qed

text \<open>A snapshot does not apply pending patches: after an acknowledged patch of an indexed memory a point read still
  returns the old text, where the log says the new one, until a later fold rewrites the memory.\<close>
theorem snapshot_ignores_pending_patch:
  "\<exists>segs es i m m'. lsm_ok 3 segs \<and> node_get_many (fold_entries es) segs [i] = [m] \<and> sm_text m = ''old''
     \<and> replay es (lsm_view segs) i = Some m' \<and> sm_text m' = ''new''"
proof -
  let ?i = "MemoryId [1]" and ?es = "[wal_entry_new 4 [Patch (MemoryId [1]) [SetText ''new'']]]"
  let ?segs = "[sample_segment 3 1, sample_segment 2 2]" and ?t = "fold_entries ?es"
  have t: "ts_tombstones ?t = []" "ts_upserts ?t = []" "ts_predicate_tombstones ?t = []"
    by (simp_all add: fold_entries_def fold_entry_def wal_entry_new_def tail_scan_default_def)
  have "node_get_many ?t ?segs [?i] = [sample_item 1]"
    unfolding node_get_many_view[OF sample_segments_ok tail_ok_fold_entries]
    by (simp add: map_filter_simps node_view_def t lsm_view_sample is_hidden_def)
  moreover have "replay ?es (lsm_view ?segs) ?i = Some (apply_deltas (sample_item 1) [SetText ''new''])"
    by (simp add: replay_def apply_entry_def wal_entry_new_def lsm_view_sample)
  ultimately show ?thesis using sample_segments_ok by fastforce
qed

end
