(* ===== verification/Graph_Retrieval.thy ===== *)
theory Graph_Retrieval
  imports Ivf_Index
begin

text \<open>
  Link expansion (\<open>mlake-graph/src/scorer.rs\<close>, \<open>retriever.rs\<close>): the scores of the arms, their accumulator, the one-hop
  expansion from the seeds and the ranking.  The trait the retriever reads through is a record of functions.  Hash maps
  are key-sorted lists: only lookups and a final sort observe them.  Counts are \<open>u32\<close> and bounded by the caps.
\<close>

section \<open>Scores\<close>

text \<open>\<open>f32::tanh\<close>, the value of an \<open>f16\<close> weight and of an \<open>f32\<close> bit pattern.\<close>
record 'f edge_arith =
  f_tanh :: "'f \<Rightarrow> 'f"
  half_to :: "weight \<Rightarrow> 'f"
  single_to :: "f32 \<Rightarrow> 'f"

definition entity_score :: "('f, 'd) arith \<Rightarrow> 'f edge_arith \<Rightarrow> nat \<Rightarrow> 'f" where
  "entity_score A E shared_count = f_tanh E (fmul A (of_usize A shared_count) (lit A (1 / 2)))"

definition temporal_score :: "('f, 'd) arith \<Rightarrow> 'f edge_arith \<Rightarrow> nat \<Rightarrow> 'f" where
  "temporal_score A E neighbour_count = fmul A (lit A (1 / 2)) (f_tanh E (fmul A (of_usize A neighbour_count) (lit A (1 / 2))))"

definition max_weight :: "('f, 'd) arith \<Rightarrow> 'f \<Rightarrow> 'f \<Rightarrow> 'f" where
  "max_weight A current candidate = fmax A current candidate"

record 'f score_accumulator =
  sa_entity :: "(memory_id, 'f) btree"
  sa_semantic :: "(memory_id, 'f) btree"
  sa_causal :: "(memory_id, 'f) btree"
  sa_temporal :: "(memory_id, 'f) btree"

definition acc_new :: "'f score_accumulator" where
  "acc_new = \<lparr>sa_entity = [], sa_semantic = [], sa_causal = [], sa_temporal = []\<rparr>"

definition add_entity :: "('f, 'd) arith \<Rightarrow> 'f edge_arith \<Rightarrow> memory_id \<Rightarrow> nat \<Rightarrow> 'f score_accumulator \<Rightarrow> 'f score_accumulator" where
  "add_entity A E i n acc = acc\<lparr>sa_entity := bt_insert i (entity_score A E n) (sa_entity acc)\<rparr>"

text \<open>\<open>let e = map.entry(id).or_insert(0.0); *e = max_weight(*e, weight)\<close>.\<close>
definition keep_max :: "('f, 'd) arith \<Rightarrow> memory_id \<Rightarrow> 'f \<Rightarrow> (memory_id, 'f) btree \<Rightarrow> (memory_id, 'f) btree" where
  "keep_max A i w m = bt_insert i (max_weight A (case map_of m i of Some e \<Rightarrow> e | None \<Rightarrow> lit A 0) w) m"

definition add_semantic :: "('f, 'd) arith \<Rightarrow> memory_id \<Rightarrow> 'f \<Rightarrow> 'f score_accumulator \<Rightarrow> 'f score_accumulator" where
  "add_semantic A i w acc = acc\<lparr>sa_semantic := keep_max A i w (sa_semantic acc)\<rparr>"

definition add_causal :: "('f, 'd) arith \<Rightarrow> memory_id \<Rightarrow> 'f \<Rightarrow> 'f score_accumulator \<Rightarrow> 'f score_accumulator" where
  "add_causal A i w acc = acc\<lparr>sa_causal := keep_max A i w (sa_causal acc)\<rparr>"

definition add_temporal :: "('f, 'd) arith \<Rightarrow> 'f edge_arith \<Rightarrow> memory_id \<Rightarrow> nat \<Rightarrow> 'f score_accumulator \<Rightarrow> 'f score_accumulator" where
  "add_temporal A E i n acc = acc\<lparr>sa_temporal := bt_insert i (temporal_score A E n) (sa_temporal acc)\<rparr>"

text \<open>\<open>*all.entry(id).or_insert(0.0) += s\<close> for every entry of one arm.\<close>
definition add_arm :: "('f, 'd) arith \<Rightarrow> (memory_id, 'f) btree \<Rightarrow> (memory_id, 'f) btree \<Rightarrow> (memory_id, 'f) btree" where
  "add_arm A arm all = fold (\<lambda>(i, s) m. bt_insert i (fadd A (case map_of m i of Some x \<Rightarrow> x | None \<Rightarrow> lit A 0) s) m) arm all"

definition merged :: "('f, 'd) arith \<Rightarrow> 'f score_accumulator \<Rightarrow> (memory_id, 'f) btree" where
  "merged A acc = add_arm A (sa_temporal acc) (add_arm A (sa_causal acc) (add_arm A (sa_semantic acc) (add_arm A (sa_entity acc) [])))"

definition rank_le :: "('f, 'd) arith \<Rightarrow> memory_id \<times> 'f \<Rightarrow> memory_id \<times> 'f \<Rightarrow> bool" where
  "rank_le A a b = (flt A (snd b) (snd a) \<or> \<not> flt A (snd a) (snd b) \<and> fst a \<le> fst b)"

definition ranked :: "('f, 'd) arith \<Rightarrow> 'f score_accumulator \<Rightarrow> memory_id list \<Rightarrow> nat \<Rightarrow> (memory_id \<times> 'f) list" where
  "ranked A acc seeds budget = take budget (sort_by (rank_le A) (filter (\<lambda>(i, _). i \<notin> set seeds) (merged A acc)))"

section \<open>Expansion\<close>

text \<open>The trait \<open>GraphSource\<close>.\<close>
record graph_source =
  gs_entity_candidates :: "entity_id \<Rightarrow> u8 option \<Rightarrow> nat \<Rightarrow> memory_id list"
  gs_exists :: "memory_id \<Rightarrow> bool"
  gs_incoming :: "memory_id \<Rightarrow> in_edge list"
  gs_temporal_candidates :: "memory_id \<Rightarrow> nat \<Rightarrow> memory_id list"

record graph_params =
  gp_per_entity_cap :: nat
  gp_budget :: nat
  gp_include_entity_arm :: bool
  gp_include_temporal_arm :: bool
  gp_per_temporal_cap :: nat

definition graph_params_default :: graph_params where
  "graph_params_default = \<lparr>gp_per_entity_cap = 200, gp_budget = 50, gp_include_entity_arm = True,
     gp_include_temporal_arm = True, gp_per_temporal_cap = 200\<rparr>"

text \<open>\<open>if !seed_set.contains(&id) { *map.entry(id).or_insert(0) += 1 }\<close>.\<close>
definition tally_id :: "memory_id list \<Rightarrow> memory_id \<Rightarrow> (memory_id, nat) btree \<Rightarrow> (memory_id, nat) btree" where
  "tally_id seeds i m = (if i \<in> set seeds then m else bt_insert i ((case map_of m i of Some n \<Rightarrow> n | None \<Rightarrow> 0) + 1) m)"

definition seed_entities :: "stored_memory list \<Rightarrow> entity_id list" where
  "seed_entities seeds = sort_dedup (concat (map sm_entity_ids seeds))"

definition expand_entities ::
    "('f, 'd) arith \<Rightarrow> 'f edge_arith \<Rightarrow> graph_source \<Rightarrow> stored_memory list \<Rightarrow> u8 option \<Rightarrow> nat \<Rightarrow> 'f score_accumulator \<Rightarrow> 'f score_accumulator" where
  "expand_entities A E src seeds memory_type cap acc =
     (let shared = fold (\<lambda>e. fold (tally_id (map sm_id seeds)) (gs_entity_candidates src e memory_type cap)) (seed_entities seeds) []
      in fold (\<lambda>(i, n). add_entity A E i n) shared acc)"

definition expand_temporal ::
    "('f, 'd) arith \<Rightarrow> 'f edge_arith \<Rightarrow> graph_source \<Rightarrow> stored_memory list \<Rightarrow> nat \<Rightarrow> 'f score_accumulator \<Rightarrow> 'f score_accumulator" where
  "expand_temporal A E src seeds cap acc =
     (let near = fold (\<lambda>s. fold (tally_id (map sm_id seeds)) (gs_temporal_candidates src (sm_id s) cap)) seeds []
      in fold (\<lambda>(i, n). add_temporal A E i n) near acc)"

definition expand_semantic :: "('f, 'd) arith \<Rightarrow> 'f edge_arith \<Rightarrow> graph_source \<Rightarrow> stored_memory list \<Rightarrow> 'f score_accumulator \<Rightarrow> 'f score_accumulator" where
  "expand_semantic A E src seeds acc = fold (\<lambda>s a.
     let a = fold (\<lambda>e a. if gs_exists src (se_target e) then add_semantic A (se_target e) (half_to E (se_weight e)) a else a) (sm_semantic_out s) a
     in fold (\<lambda>e a. if ie_kind e = SemanticEdge \<and> gs_exists src (ie_source e)
                then add_semantic A (ie_source e) (single_to E (ie_weight e)) a else a) (gs_incoming src (sm_id s)) a) seeds acc"

definition is_causal :: "edge_kind \<Rightarrow> bool" where
  "is_causal k = (case k of CausalEdge _ \<Rightarrow> True | SemanticEdge \<Rightarrow> False)"

definition expand_causal :: "('f, 'd) arith \<Rightarrow> 'f edge_arith \<Rightarrow> graph_source \<Rightarrow> stored_memory list \<Rightarrow> 'f score_accumulator \<Rightarrow> 'f score_accumulator" where
  "expand_causal A E src seeds acc = fold (\<lambda>s a.
     let a = fold (\<lambda>e a. if gs_exists src (ce_target e) then add_causal A (ce_target e) (half_to E (ce_weight e)) a else a) (sm_causal_out s) a
     in fold (\<lambda>e a. if is_causal (ie_kind e) \<and> gs_exists src (ie_source e)
                then add_causal A (ie_source e) (single_to E (ie_weight e)) a else a) (gs_incoming src (sm_id s)) a) seeds acc"

definition graph_retrieve :: "('f, 'd) arith \<Rightarrow> 'f edge_arith \<Rightarrow> graph_source \<Rightarrow> stored_memory list \<Rightarrow> graph_params \<Rightarrow> (memory_id \<times> 'f) list" where
  "graph_retrieve A E src seeds ps =
     (if seeds = [] then []
      else let memory_type = Some (sm_memory_type (hd seeds));
               acc = acc_new;
               acc = (if gp_include_entity_arm ps then expand_entities A E src seeds memory_type (gp_per_entity_cap ps) acc else acc);
               acc = expand_semantic A E src seeds acc;
               acc = expand_causal A E src seeds acc;
               acc = (if gp_include_temporal_arm ps then expand_temporal A E src seeds (gp_per_temporal_cap ps) acc else acc)
           in ranked A acc (map sm_id seeds) (gp_budget ps))"

section \<open>Facts\<close>

interpretation rank_ranking: ranking "rank_le real_arith"
  by unfold_locales (auto simp: rank_le_def)

abbreviation opt0 :: "real option \<Rightarrow> real" where
  "opt0 x \<equiv> (case x of Some v \<Rightarrow> v | None \<Rightarrow> 0)"

lemma bt_ok_fold_insert: "bt_ok m \<Longrightarrow> bt_ok (fold (\<lambda>x m. bt_insert (k x) (v x m) m) xs m)"
  by (induction xs arbitrary: m) auto

lemma bt_ok_add_arm [simp]: "bt_ok m \<Longrightarrow> bt_ok (add_arm A arm m)"
  unfolding add_arm_def split_beta by (rule bt_ok_fold_insert)

lemma map_of_add_arm:
  "distinct (map fst arm) \<Longrightarrow> map_of (add_arm real_arith arm m) i =
     (case map_of arm i of None \<Rightarrow> map_of m i | Some s \<Rightarrow> Some (opt0 (map_of m i) + s))"
  unfolding add_arm_def
proof (induction arm arbitrary: m)
  case (Cons p arm)
  obtain j s where p: "p = (j, s)" by fastforce
  have "map_of arm j = None" "distinct (map fst arm)" using Cons.prems by (auto simp: p map_of_eq_None_iff)
  with Cons.IH[of "bt_insert j (opt0 (map_of m j) + s) m"] show ?case by (auto simp: p simp del: map_of_eq_Some_iff split: option.splits)
qed simp

text \<open>The sum of the four arms, for an id at least one arm names.\<close>
lemma map_of_merged:
  assumes "bt_ok (sa_entity acc)" "bt_ok (sa_semantic acc)" "bt_ok (sa_causal acc)" "bt_ok (sa_temporal acc)"
  defines "arms \<equiv> \<lambda>i. [map_of (sa_entity acc) i, map_of (sa_semantic acc) i, map_of (sa_causal acc) i, map_of (sa_temporal acc) i]"
  shows "map_of (merged real_arith acc) i = (if list_all ((=) None) (arms i) then None else Some (sum_list (map opt0 (arms i))))"
  using assms(1-4) unfolding merged_def arms_def
  by (simp add: map_of_add_arm bt_ok_distinct split: option.split)

text \<open>The strongest of the recorded weights, zero included.\<close>
definition strongest :: "(memory_id \<times> real) list \<Rightarrow> memory_id \<Rightarrow> real" where
  "strongest es i = Max (insert 0 (snd ` {e \<in> set es. fst e = i}))"

lemma map_of_keep_max:
  "bt_ok m \<Longrightarrow> map_of (fold (\<lambda>(j, w). keep_max real_arith j w) es m) i =
     (if i \<in> fst ` set es then Some (Max (insert (opt0 (map_of m i)) (snd ` {e \<in> set es. fst e = i}))) else map_of m i)
   \<and> bt_ok (fold (\<lambda>(j, w). keep_max real_arith j w) es m)"
proof (induction es arbitrary: m)
  case (Cons e es)
  obtain j w where e: "e = (j, w)" by fastforce
  have ok: "bt_ok (keep_max real_arith j w m)" using Cons.prems by (simp add: keep_max_def)
  have l: "map_of (keep_max real_arith j w m) i = (if i = j then Some (max (opt0 (map_of m i)) w) else map_of m i)"
    by (auto simp: keep_max_def max_weight_def split: option.split)
  have fin: "finite (snd ` {e \<in> set es. fst e = i})" by simp
  have ins: "snd ` {e' \<in> set (e # es). fst e' = i} = (if i = j then insert w (snd ` {e \<in> set es. fst e = i}) else snd ` {e \<in> set es. fst e = i})"
    by (force simp: e)
  have mx: "Max (insert (max a w) F) = Max (insert a (insert w F))" if "finite F" for a :: real and F
    using that by (cases "F = {}") (auto simp: max.assoc)
  have F0: "i \<notin> fst ` set es \<Longrightarrow> snd ` {e \<in> set es. fst e = i} = {}" by force
  have goal: "fold (\<lambda>(j, w). keep_max real_arith j w) (e # es) m = fold (\<lambda>(j, w). keep_max real_arith j w) es (keep_max real_arith j w m)" by (simp add: e)
  have mem: "i \<in> fst ` set (e # es) \<longleftrightarrow> i = j \<or> i \<in> fst ` set es" by (auto simp: e)
  note IH = Cons.IH[OF ok, unfolded l]
  show ?case
  proof (cases "i = j")
    case True
    then show ?thesis unfolding goal ins mem using conjunct2[OF IH] conjunct1[OF IH] mx[OF fin] F0
      by (cases "i \<in> fst ` set es") (simp_all only: if_True simp_thms option.case, simp_all)
  next
    case False
    then show ?thesis unfolding goal ins mem using IH by (simp only: if_False simp_thms)
  qed
qed simp

lemma bt_ok_tally: "bt_ok m \<Longrightarrow> bt_ok (fold (tally_id seeds) ids m)"
  by (induction ids arbitrary: m) (auto simp: tally_id_def)

lemma map_of_tally:
  "map_of (fold (tally_id seeds) ids m) i = (if i \<in> set seeds \<or> i \<notin> set ids then map_of m i
     else Some ((case map_of m i of Some n \<Rightarrow> n | None \<Rightarrow> 0) + count_list ids i))"
  by (induction ids arbitrary: m) (auto simp: tally_id_def split: option.splits)

lemma tally_nested: "fold (\<lambda>e. fold (tally_id seeds) (f e)) es m = fold (tally_id seeds) (concat (map f es)) m"
  by (induction es arbitrary: m) auto

lemma map_of_scored:
  assumes "bt_ok shared" "bt_ok m"
  shows "map_of (fold (\<lambda>(j, n). bt_insert j (g n)) shared m) i = (case map_of shared i of Some n \<Rightarrow> Some (g n) | None \<Rightarrow> map_of m i)
    \<and> bt_ok (fold (\<lambda>(j, n). bt_insert j (g n)) shared m)"
  using bt_ok_distinct[OF assms(1)] assms(2)
proof (induction shared arbitrary: m)
  case (Cons p ps)
  obtain j n where p: "p = (j, n)" by fastforce
  have "map_of ps j = None" "distinct (map fst ps)" using Cons.prems by (auto simp: p map_of_eq_None_iff)
  with Cons.IH[of "bt_insert j (g n) m"] Cons.prems(2) show ?case by (auto simp: p simp del: map_of_eq_Some_iff split: option.splits)
qed simp

section \<open>Specification\<close>

definition exact_edges :: "real edge_arith \<Rightarrow> bool" where
  "exact_edges E = (f_tanh E = tanh)"

text \<open>The live links of a kind between the seeds and a candidate, in both directions, with their weights.\<close>
definition semantic_edges :: "real edge_arith \<Rightarrow> graph_source \<Rightarrow> stored_memory list \<Rightarrow> (memory_id \<times> real) list" where
  "semantic_edges E src seeds = concat (map (\<lambda>s.
     map (\<lambda>e. (se_target e, half_to E (se_weight e))) (filter (\<lambda>e. gs_exists src (se_target e)) (sm_semantic_out s))
     @ map (\<lambda>e. (ie_source e, single_to E (ie_weight e))) (filter (\<lambda>e. ie_kind e = SemanticEdge \<and> gs_exists src (ie_source e)) (gs_incoming src (sm_id s)))) seeds)"

definition causal_edges :: "real edge_arith \<Rightarrow> graph_source \<Rightarrow> stored_memory list \<Rightarrow> (memory_id \<times> real) list" where
  "causal_edges E src seeds = concat (map (\<lambda>s.
     map (\<lambda>e. (ce_target e, half_to E (ce_weight e))) (filter (\<lambda>e. gs_exists src (ce_target e)) (sm_causal_out s))
     @ map (\<lambda>e. (ie_source e, single_to E (ie_weight e))) (filter (\<lambda>e. is_causal (ie_kind e) \<and> gs_exists src (ie_source e)) (gs_incoming src (sm_id s)))) seeds)"

definition entity_reach :: "graph_source \<Rightarrow> stored_memory list \<Rightarrow> graph_params \<Rightarrow> memory_id list" where
  "entity_reach src seeds ps = (if gp_include_entity_arm ps then
     concat (map (\<lambda>e. gs_entity_candidates src e (Some (sm_memory_type (hd seeds))) (gp_per_entity_cap ps)) (seed_entities seeds)) else [])"

definition temporal_reach :: "graph_source \<Rightarrow> stored_memory list \<Rightarrow> graph_params \<Rightarrow> memory_id list" where
  "temporal_reach src seeds ps = (if gp_include_temporal_arm ps then
     concat (map (\<lambda>s. gs_temporal_candidates src (sm_id s) (gp_per_temporal_cap ps)) seeds) else [])"

definition reached :: "real edge_arith \<Rightarrow> graph_source \<Rightarrow> stored_memory list \<Rightarrow> graph_params \<Rightarrow> memory_id set" where
  "reached E src seeds ps = (set (entity_reach src seeds ps) \<union> fst ` set (semantic_edges E src seeds)
     \<union> fst ` set (causal_edges E src seeds) \<union> set (temporal_reach src seeds ps)) - sm_id ` set seeds"

definition activation :: "real edge_arith \<Rightarrow> graph_source \<Rightarrow> stored_memory list \<Rightarrow> graph_params \<Rightarrow> memory_id \<Rightarrow> real" where
  "activation E src seeds ps i = tanh (count_list (entity_reach src seeds ps) i / 2)
     + strongest (semantic_edges E src seeds) i + strongest (causal_edges E src seeds) i
     + tanh (count_list (temporal_reach src seeds ps) i / 2) / 2"

section \<open>The expansions meet it\<close>

lemma fold_filtered: "fold (\<lambda>e a. if P e then g (f e) a else a) es a = fold g (map f (filter P es)) a"
  by (induction es arbitrary: a) auto

lemma fold_concat_map: "fold (\<lambda>s a. fold g (h2 s) (fold g (h1 s) a)) ss a = fold g (concat (map (\<lambda>s. h1 s @ h2 s) ss)) a"
  by (induction ss arbitrary: a) auto

lemma expand_semantic_edges:
  "expand_semantic real_arith E src seeds acc = acc\<lparr>sa_semantic := fold (\<lambda>(i, w). keep_max real_arith i w) (semantic_edges E src seeds) (sa_semantic acc)\<rparr>"
proof -
  have "expand_semantic real_arith E src seeds acc = fold (\<lambda>(i, w). add_semantic real_arith i w) (semantic_edges E src seeds) acc"
    unfolding expand_semantic_def semantic_edges_def Let_def fold_concat_map[symmetric]
    unfolding fold_filtered[symmetric] prod.case ..
  moreover have "fold (\<lambda>(i, w). add_semantic real_arith i w) es acc = acc\<lparr>sa_semantic := fold (\<lambda>(i, w). keep_max real_arith i w) es (sa_semantic acc)\<rparr>" for es
    by (induction es arbitrary: acc) (auto simp: add_semantic_def)
  ultimately show ?thesis by simp
qed

lemma expand_causal_edges:
  "expand_causal real_arith E src seeds acc = acc\<lparr>sa_causal := fold (\<lambda>(i, w). keep_max real_arith i w) (causal_edges E src seeds) (sa_causal acc)\<rparr>"
proof -
  have "expand_causal real_arith E src seeds acc = fold (\<lambda>(i, w). add_causal real_arith i w) (causal_edges E src seeds) acc"
    unfolding expand_causal_def causal_edges_def Let_def fold_concat_map[symmetric]
    unfolding fold_filtered[symmetric] prod.case ..
  moreover have "fold (\<lambda>(i, w). add_causal real_arith i w) es acc = acc\<lparr>sa_causal := fold (\<lambda>(i, w). keep_max real_arith i w) es (sa_causal acc)\<rparr>" for es
    by (induction es arbitrary: acc) (auto simp: add_causal_def)
  ultimately show ?thesis by simp
qed

definition scored :: "real edge_arith \<Rightarrow> graph_source \<Rightarrow> stored_memory list \<Rightarrow> graph_params \<Rightarrow> real score_accumulator" where
  "scored E src seeds ps = \<lparr>
     sa_entity = fold (\<lambda>(i, n). bt_insert i (entity_score real_arith E n)) (fold (tally_id (map sm_id seeds)) (entity_reach src seeds ps) []) [],
     sa_semantic = fold (\<lambda>(i, w). keep_max real_arith i w) (semantic_edges E src seeds) [],
     sa_causal = fold (\<lambda>(i, w). keep_max real_arith i w) (causal_edges E src seeds) [],
     sa_temporal = fold (\<lambda>(i, n). bt_insert i (temporal_score real_arith E n)) (fold (tally_id (map sm_id seeds)) (temporal_reach src seeds ps) []) []\<rparr>"

lemma add_entity_fold: "fold (\<lambda>(i, n). add_entity A E i n) xs acc = acc\<lparr>sa_entity := fold (\<lambda>(i, n). bt_insert i (entity_score A E n)) xs (sa_entity acc)\<rparr>"
  by (induction xs arbitrary: acc) (auto simp: add_entity_def)

lemma add_temporal_fold: "fold (\<lambda>(i, n). add_temporal A E i n) xs acc = acc\<lparr>sa_temporal := fold (\<lambda>(i, n). bt_insert i (temporal_score A E n)) xs (sa_temporal acc)\<rparr>"
  by (induction xs arbitrary: acc) (auto simp: add_temporal_def)

lemma graph_retrieve_scored:
  "seeds \<noteq> [] \<Longrightarrow> graph_retrieve real_arith E src seeds ps = ranked real_arith (scored E src seeds ps) (map sm_id seeds) (gp_budget ps)"
  by (simp add: graph_retrieve_def Let_def expand_entities_def expand_temporal_def tally_nested add_entity_fold add_temporal_fold
      expand_semantic_edges expand_causal_edges scored_def entity_reach_def temporal_reach_def acc_new_def)

lemma scored_arms:
  assumes "exact_edges E" "i \<notin> sm_id ` set seeds"
  shows "map_of (sa_entity (scored E src seeds ps)) i = (if i \<in> set (entity_reach src seeds ps) then Some (tanh (count_list (entity_reach src seeds ps) i / 2)) else None)"
    and "map_of (sa_semantic (scored E src seeds ps)) i = (if i \<in> fst ` set (semantic_edges E src seeds) then Some (strongest (semantic_edges E src seeds) i) else None)"
    and "map_of (sa_causal (scored E src seeds ps)) i = (if i \<in> fst ` set (causal_edges E src seeds) then Some (strongest (causal_edges E src seeds) i) else None)"
    and "map_of (sa_temporal (scored E src seeds ps)) i = (if i \<in> set (temporal_reach src seeds ps) then Some (tanh (count_list (temporal_reach src seeds ps) i / 2) / 2) else None)"
  using assms
  by (simp_all add: scored_def map_of_scored bt_ok_tally map_of_tally map_of_keep_max strongest_def entity_score_def temporal_score_def exact_edges_def
      conjunct1[OF map_of_keep_max] conjunct1[OF map_of_scored] of_rat_divide)

lemma scored_ok:
  "bt_ok (sa_entity (scored E src seeds ps))" "bt_ok (sa_semantic (scored E src seeds ps))"
  "bt_ok (sa_causal (scored E src seeds ps))" "bt_ok (sa_temporal (scored E src seeds ps))"
  by (simp_all add: scored_def conjunct2[OF map_of_scored] bt_ok_tally conjunct2[OF map_of_keep_max])

lemma strongest_none: "i \<notin> fst ` set es \<Longrightarrow> strongest es i = 0"
proof -
  assume "i \<notin> fst ` set es"
  then have F: "snd ` {e \<in> set es. fst e = i} = {}" by force
  show "strongest es i = 0" unfolding strongest_def F by simp
qed

lemma map_of_merged_scored:
  assumes "exact_edges E" "i \<notin> sm_id ` set seeds"
  shows "map_of (merged real_arith (scored E src seeds ps)) i = (if i \<in> reached E src seeds ps then Some (activation E src seeds ps i) else None)"
  unfolding map_of_merged[OF scored_ok] scored_arms[OF assms] reached_def activation_def
  using assms(2) by (auto simp: strongest_none count_list_0_iff)

lemma graph_retrieve_top:
  assumes "exact_edges E" "seeds \<noteq> []"
  shows "top_of (rank_le real_arith) (gp_budget ps) ((\<lambda>i. (i, activation E src seeds ps i)) ` reached E src seeds ps)
    (graph_retrieve real_arith E src seeds ps)"
proof -
  let ?m = "merged real_arith (scored E src seeds ps)"
  let ?L = "filter (\<lambda>(i, _). i \<notin> set (map sm_id seeds)) ?m"
  have ok: "bt_ok ?m" by (simp add: merged_def)
  have not_seed: "i \<in> reached E src seeds ps \<Longrightarrow> i \<notin> sm_id ` set seeds" for i by (simp add: reached_def)
  have "(i, s) \<in> set ?L \<longleftrightarrow> i \<notin> sm_id ` set seeds \<and> map_of ?m i = Some s" for i s
    using bt_ok_distinct[OF ok] by (auto simp: map_of_eq_Some_iff)
  then have "(i, s) \<in> set ?L \<longleftrightarrow> i \<in> reached E src seeds ps \<and> s = activation E src seeds ps i" for i s
    using map_of_merged_scored[OF assms(1), of i seeds src ps] not_seed[of i] by (auto split: if_splits)
  then have "set ?L = (\<lambda>i. (i, activation E src seeds ps i)) ` reached E src seeds ps" by (auto simp del: set_filter)
  moreover have "distinct ?L" using bt_ok_distinct[OF ok] by (metis distinct_filter distinct_map)
  ultimately show ?thesis
    using rank_ranking.top_of_sort_by[of ?L "gp_budget ps"] by (simp add: graph_retrieve_scored[OF assms(2)] ranked_def)
qed


text \<open>With edge weights between 0 and 1 every activation lies between 0 and 3.5, each arm but the temporal one adding
  at most 1 and the temporal one less than a half.\<close>
theorem graph_activation_bounds:
  assumes "exact_edges E" "seeds \<noteq> []" "(i, a) \<in> set (graph_retrieve real_arith E src seeds ps)"
    and "\<And>w. 0 \<le> half_to E w \<and> half_to E w \<le> 1" "\<And>w. 0 \<le> single_to E w \<and> single_to E w \<le> 1"
  shows "0 \<le> a \<and> a < 7 / 2"
proof -
  have "(i, a) \<in> (\<lambda>i. (i, activation E src seeds ps i)) ` reached E src seeds ps"
    using graph_retrieve_top[OF assms(1,2)] assms(3) unfolding top_of_def by blast
  then have a: "a = activation E src seeds ps i" by auto
  have s: "0 \<le> strongest es i \<and> strongest es i \<le> 1" if "\<forall>e \<in> set es. 0 \<le> snd e \<and> snd e \<le> 1" for es
    unfolding strongest_def using that by (auto simp: Max_ge_iff)
  have "0 \<le> strongest (semantic_edges E src seeds) i \<and> strongest (semantic_edges E src seeds) i \<le> 1"
    by (rule s) (auto simp: semantic_edges_def assms(4,5))
  moreover have "0 \<le> strongest (causal_edges E src seeds) i \<and> strongest (causal_edges E src seeds) i \<le> 1"
    by (rule s) (auto simp: causal_edges_def assms(4,5))
  moreover have t: "0 \<le> tanh (real n / 2) \<and> tanh (real n / 2) < 1" for n by (simp add: tanh_real_lt_1)
  ultimately show ?thesis
    using t[of "count_list (entity_reach src seeds ps) i"] t[of "count_list (temporal_reach src seeds ps) i"]
    unfolding a activation_def by linarith
qed

section \<open>Witnesses\<close>

definition sample_edges_arith :: "real edge_arith" where
  "sample_edges_arith = \<lparr>f_tanh = tanh, half_to = (\<lambda>w. 1), single_to = (\<lambda>w. 1)\<rparr>"

definition sample_source :: graph_source where
  "sample_source = \<lparr>gs_entity_candidates = (\<lambda>e t c. []), gs_exists = (\<lambda>i. True),
     gs_incoming = (\<lambda>i. [\<lparr>ie_source = MemoryId [2], ie_kind = SemanticEdge, ie_weight = 0\<rparr>]), gs_temporal_candidates = (\<lambda>i c. [])\<rparr>"

definition sample_seed :: stored_memory where
  "sample_seed = into_stored (plain_memory (MemoryId [1]) ''seed'' [])"

lemma sample_reach: "reached sample_edges_arith sample_source [sample_seed] graph_params_default = {MemoryId [2]}"
    "activation sample_edges_arith sample_source [sample_seed] graph_params_default (MemoryId [2]) = 1"
  by (auto simp: reached_def activation_def entity_reach_def semantic_edges_def causal_edges_def temporal_reach_def seed_entities_def sort_dedup_def
      sample_edges_arith_def sample_source_def sample_seed_def into_stored_def plain_memory_def graph_params_default_def is_causal_def strongest_def)

lemma sample_budget: "gp_budget graph_params_default = 50"
  by (simp add: graph_params_default_def)


theorem graph_activation_bounds_witness: "0 \<le> (1 :: real) \<and> (1 :: real) < 7 / 2 \<and>
   (MemoryId [2], 1) \<in> set (graph_retrieve real_arith sample_edges_arith sample_source [sample_seed] graph_params_default)"
proof -
  have e: "exact_edges sample_edges_arith" by (simp add: exact_edges_def sample_edges_arith_def)
  have m: "(MemoryId [2], 1) \<in> set (graph_retrieve real_arith sample_edges_arith sample_source [sample_seed] graph_params_default)"
    using graph_retrieve_top[OF e, of "[sample_seed]" graph_params_default sample_source]
    unfolding sample_reach by (auto simp: top_of_def sample_reach sample_budget length_Suc_conv)
  from graph_activation_bounds[OF e _ this] m show ?thesis by (simp add: sample_edges_arith_def)
qed

end
