(* ===== verification/Fusion.thy ===== *)
theory Fusion
  imports Graph_Retrieval
begin

text \<open>
  Reciprocal rank fusion (\<open>mlake-index/src/fusion.rs\<close>) and the fusion of a query's raw hits (\<open>fuse_raw\<close> of
  \<open>query_node.rs\<close>).  Hash maps are key-sorted lists: only lookups and the final sort observe them.
\<close>

section \<open>Definitions\<close>

definition DEFAULT_RRF_K :: nat where "DEFAULT_RRF_K = 60"

record ranked_arm =
  ra_name :: string
  ra_ranking :: "memory_id list"

record 'f fused_hit =
  fh_id :: memory_id
  fh_score :: 'f
  fh_contributions :: "(string \<times> 'f) list"

text \<open>One visit of the inner loop: both maps are updated with the contribution of this rank.\<close>
definition rrf_visit :: "('f, 'd) arith \<Rightarrow> 'f \<Rightarrow> 'f \<Rightarrow> string \<Rightarrow> nat \<times> memory_id \<Rightarrow>
    (memory_id, 'f) btree \<times> (memory_id, (string \<times> 'f) list) btree \<Rightarrow> (memory_id, 'f) btree \<times> (memory_id, (string \<times> 'f) list) btree" where
  "rrf_visit A weight k name = (\<lambda>(rank, i) (scores, contribs).
     let contribution = fdiv A weight (fadd A (fadd A k (of_usize A rank)) (lit A 1))
     in (bt_insert i (fadd A (case map_of scores i of Some s \<Rightarrow> s | None \<Rightarrow> lit A 0) contribution) scores,
         bt_insert i ((case map_of contribs i of Some cs \<Rightarrow> cs | None \<Rightarrow> []) @ [(name, contribution)]) contribs))"

definition rrf_collect :: "(memory_id, 'f) btree \<times> (memory_id, (string \<times> 'f) list) btree \<Rightarrow> 'f fused_hit list" where
  "rrf_collect st = map (\<lambda>(i, s). \<lparr>fh_id = i, fh_score = s,
     fh_contributions = (case map_of (snd st) i of Some cs \<Rightarrow> cs | None \<Rightarrow> [])\<rparr>) (fst st)"

definition fused_le :: "('f, 'd) arith \<Rightarrow> 'f fused_hit \<Rightarrow> 'f fused_hit \<Rightarrow> bool" where
  "fused_le A a b = (flt A (fh_score b) (fh_score a) \<or> \<not> flt A (fh_score a) (fh_score b) \<and> fh_id a \<le> fh_id b)"

definition rrf :: "('f, 'd) arith \<Rightarrow> ranked_arm list \<Rightarrow> 'f \<Rightarrow> nat \<Rightarrow> 'f fused_hit list" where
  "rrf A arms k top_k = (let st = fold (\<lambda>arm. fold (rrf_visit A (lit A 1) k (ra_name arm)) (enumerate 0 (ra_ranking arm))) arms ([], [])
     in take top_k (sort_by (fused_le A) (rrf_collect st)))"

definition weighted_rrf :: "('f, 'd) arith \<Rightarrow> (ranked_arm \<times> 'f) list \<Rightarrow> 'f \<Rightarrow> nat \<Rightarrow> 'f fused_hit list" where
  "weighted_rrf A arms k top_k = (let st = fold (\<lambda>(arm, weight). fold (rrf_visit A weight k (ra_name arm)) (enumerate 0 (ra_ranking arm))) arms ([], [])
     in take top_k (sort_by (fused_le A) (rrf_collect st)))"

subsection \<open>Raw hits\<close>

record 'f arm_score =
  as_rank :: nat
  as_score :: 'f

record 'f raw_hit =
  rh_id :: memory_id
  rh_dense :: "'f arm_score option"
  rh_text :: "'f arm_score option"
  rh_graph :: "'f arm_score option"
  rh_temporal :: "'f arm_score option"
  rh_memory :: "stored_memory option"

definition raw_hit_new :: "memory_id \<Rightarrow> 'f raw_hit" where
  "raw_hit_new i = \<lparr>rh_id = i, rh_dense = None, rh_text = None, rh_graph = None, rh_temporal = None, rh_memory = None\<rparr>"

record 'f query_config =
  qc_nprobe :: nat
  qc_rrf_k :: 'f
  qc_vector_weight :: 'f
  qc_fts_weight :: 'f
  qc_graph_weight :: 'f
  qc_arm_depth :: nat
  qc_graph_seed_min_similarity :: 'f

text \<open>The hits an arm produced, by their rank in it.\<close>
definition arm_ranking :: "('f raw_hit \<Rightarrow> 'f arm_score option) \<Rightarrow> 'f raw_hit list \<Rightarrow> memory_id list" where
  "arm_ranking arm raw = map rh_id (sort_key (\<lambda>h. as_rank (the (arm h))) (filter (\<lambda>h. arm h \<noteq> None) raw))"

text \<open>\<open>eps\<close> is \<open>f32::EPSILON\<close>.\<close>
definition fuse_raw :: "('f, 'd) arith \<Rightarrow> 'f \<Rightarrow> 'f raw_hit list \<Rightarrow> nat \<Rightarrow> 'f query_config \<Rightarrow> 'f fused_hit list" where
  "fuse_raw A eps raw top_k config =
     (let vector = arm_ranking rh_dense raw; fts = arm_ranking rh_text raw; graph = arm_ranking rh_graph raw;
          arms = (if vector \<noteq> [] then [(\<lparr>ra_name = ''vector'', ra_ranking = vector\<rparr>, qc_vector_weight config)] else [])
               @ (if fts \<noteq> [] then [(\<lparr>ra_name = ''fts'', ra_ranking = fts\<rparr>, qc_fts_weight config)] else [])
               @ (if graph \<noteq> [] then [(\<lparr>ra_name = ''graph'', ra_ranking = graph\<rparr>, qc_graph_weight config)] else [])
      in if length arms = 1 \<and> flt A (fabs A (fsub A (qc_vector_weight config) (qc_fts_weight config))) eps
         then rrf A [fst (hd arms)] (qc_rrf_k config) top_k
         else weighted_rrf A arms (qc_rrf_k config) top_k)"

section \<open>Facts\<close>

text \<open>Every contribution of every arm, in the order they are added.\<close>
definition visits :: "(ranked_arm \<times> real) list \<Rightarrow> real \<Rightarrow> (memory_id \<times> string \<times> real) list" where
  "visits arms k = concat (map (\<lambda>(arm, w). map (\<lambda>(r, i). (i, ra_name arm, w / (k + real r + 1))) (enumerate 0 (ra_ranking arm))) arms)"

definition contributions_of :: "(memory_id \<times> string \<times> real) list \<Rightarrow> memory_id \<Rightarrow> (string \<times> real) list" where
  "contributions_of vs i = map snd (filter (\<lambda>v. fst v = i) vs)"

text \<open>What fusion makes of an id.\<close>
definition fused :: "(ranked_arm \<times> real) list \<Rightarrow> real \<Rightarrow> memory_id \<Rightarrow> real fused_hit" where
  "fused arms k i = (let cs = contributions_of (visits arms k) i in
     \<lparr>fh_id = i, fh_score = sum_list (map snd cs), fh_contributions = cs\<rparr>)"

interpretation fused_ranking: ranking "fused_le real_arith"
  by unfold_locales (auto simp: fused_le_def)

definition add_visit :: "memory_id \<times> string \<times> real \<Rightarrow> (memory_id, real) btree \<times> (memory_id, (string \<times> real) list) btree \<Rightarrow> (memory_id, real) btree \<times> (memory_id, (string \<times> real) list) btree" where
  "add_visit = (\<lambda>(i, n, c) (sc, cs). (bt_insert i ((case map_of sc i of Some s \<Rightarrow> s | None \<Rightarrow> 0) + c) sc,
     bt_insert i ((case map_of cs i of Some x \<Rightarrow> x | None \<Rightarrow> []) @ [(n, c)]) cs))"

lemma add_visit_simp: "add_visit (i, n, c) (sc, cs) = (bt_insert i ((case map_of sc i of Some s \<Rightarrow> s | None \<Rightarrow> 0) + c) sc,
     bt_insert i ((case map_of cs i of Some x \<Rightarrow> x | None \<Rightarrow> []) @ [(n, c)]) cs)"
  by (simp add: add_visit_def)

lemma rrf_visit_real: "rrf_visit real_arith w k name (r, i) = add_visit (i, name, w / (k + real r + 1))"
  by (auto simp: rrf_visit_def add_visit_def Let_def split: option.split intro!: ext)

lemma fold_visits:
  "fold (\<lambda>(arm, w). fold (rrf_visit real_arith w k (ra_name arm)) (enumerate 0 (ra_ranking arm))) arms st = fold add_visit (visits arms k) st"
proof (induction arms arbitrary: st)
  case (Cons a arms)
  have "fold (rrf_visit real_arith w k n) es st = fold add_visit (map (\<lambda>(r, i). (i, n, w / (k + real r + 1))) es) st" for w n es st
    by (induction es arbitrary: st) (auto simp: rrf_visit_real)
  with Cons show ?case by (cases a) (simp add: visits_def)
qed (simp add: visits_def)

lemma add_visits:
  assumes "st = fold add_visit vs ([], [])"
  shows "bt_ok (fst st) \<and> bt_ok (snd st)
    \<and> map_of (fst st) i = (if i \<in> fst ` set vs then Some (sum_list (map snd (contributions_of vs i))) else None)
    \<and> map_of (snd st) i = (if i \<in> fst ` set vs then Some (contributions_of vs i) else None)"
  using assms
proof (induction vs arbitrary: st rule: rev_induct)
  case (snoc v vs)
  obtain j n c where v: "v = (j, n, c)" using prod_cases3 by blast
  have co: "contributions_of (vs @ [v]) i = contributions_of vs i @ (if i = j then [(n, c)] else [])" by (simp add: contributions_of_def v)
  have em: "j \<notin> fst ` set vs \<Longrightarrow> contributions_of vs j = []" by (force simp: contributions_of_def filter_empty_conv)
  obtain sc cs where st0: "fold add_visit vs ([], []) = (sc, cs)" by fastforce
  have st: "st = (bt_insert j ((case map_of sc j of Some s \<Rightarrow> s | None \<Rightarrow> 0) + c) sc,
      bt_insert j ((case map_of cs j of Some x \<Rightarrow> x | None \<Rightarrow> []) @ [(n, c)]) cs)"
    using snoc.prems by (simp add: st0 v add_visit_simp)
  have m: "i \<in> fst ` set (vs @ [v]) \<longleftrightarrow> i = j \<or> i \<in> fst ` set vs" by (auto simp: v)
  note IH = snoc.IH[OF st0[symmetric], unfolded fst_conv snd_conv]
  show ?case
  proof (cases "i = j")
    case True
    then show ?thesis using IH em unfolding st co m by (cases "j \<in> fst ` set vs") simp_all
  next
    case False
    then show ?thesis using IH unfolding st co m by simp
  qed
qed simp

lemma weighted_rrf_top:
  "top_of (fused_le real_arith) n (fused arms k ` (\<Union>a \<in> fst ` set arms. set (ra_ranking a))) (weighted_rrf real_arith arms k n)"
proof -
  define st where "st = fold add_visit (visits arms k) ([], [])"
  note av = add_visits[OF st_def]
  have ids: "fst ` set (visits arms k) = (\<Union>a \<in> fst ` set arms. set (ra_ranking a))"
  proof -
    have e: "fst ` set (map (\<lambda>(r, i). (i, n, w / (k + real r + 1))) (enumerate 0 xs)) = set xs" for n w and xs :: "memory_id list"
    proof -
      have "fst ` set (map (\<lambda>(r, i). (i, n, w / (k + real r + 1))) (enumerate 0 xs)) = set (map snd (enumerate 0 xs))"
        by (simp only: set_map[symmetric] map_map) (simp only: comp_def split_beta fst_conv)
      then show ?thesis by simp
    qed
    define g where "g = (\<lambda>(arm :: ranked_arm, w). map (\<lambda>(r, i). (i, ra_name arm, w / (k + real r + 1))) (enumerate 0 (ra_ranking arm)))"
    have g: "fst ` set (g p) = set (ra_ranking (fst p))" for p using e by (cases p) (simp add: g_def)
    have "fst ` set (visits arms k) = (\<Union>p \<in> set arms. fst ` set (g p))" by (simp add: visits_def g_def[symmetric] image_UN)
    then show ?thesis by (simp add: g)
  qed
  have ok: "distinct (map fst (fst st))" using av by (simp add: bt_ok_distinct)
  have mem: "(i, s) \<in> set (fst st) \<longleftrightarrow> map_of (fst st) i = Some s" for i s using ok by simp
  have "set (rrf_collect st) = fused arms k ` fst ` set (visits arms k)"
  proof (rule set_eqI)
    fix h
    have "h \<in> set (rrf_collect st) \<longleftrightarrow> (\<exists>i s. map_of (fst st) i = Some s \<and> h = \<lparr>fh_id = i, fh_score = s,
        fh_contributions = (case map_of (snd st) i of Some cs \<Rightarrow> cs | None \<Rightarrow> [])\<rparr>)"
      unfolding rrf_collect_def mem[symmetric] by force
    also have "\<dots> \<longleftrightarrow> (\<exists>i \<in> fst ` set (visits arms k). h = fused arms k i)"
      using av by (auto simp: fused_def Let_def simp del: map_of_eq_Some_iff)
    finally show "h \<in> set (rrf_collect st) \<longleftrightarrow> h \<in> fused arms k ` fst ` set (visits arms k)" by blast
  qed
  moreover have "map fh_id (rrf_collect st) = map fst (fst st)" by (simp add: rrf_collect_def split_beta)
  then have "distinct (rrf_collect st)" using ok by (metis distinct_map)
  ultimately show ?thesis using fused_ranking.top_of_sort_by[of "rrf_collect st" n]
    by (simp add: weighted_rrf_def fold_visits st_def[symmetric] ids)
qed


text \<open>Plain fusion is weighted fusion with unit weights, in any arithmetic, rounding included.\<close>
theorem rrf_is_weighted: "rrf A arms k top_k = weighted_rrf A (map (\<lambda>a. (a, lit A 1)) arms) k top_k"
proof -
  have "fold (\<lambda>arm. fold (rrf_visit A (lit A 1) k (ra_name arm)) (enumerate 0 (ra_ranking arm))) arms st
      = fold (\<lambda>(arm, weight). fold (rrf_visit A weight k (ra_name arm)) (enumerate 0 (ra_ranking arm))) (map (\<lambda>a. (a, lit A 1)) arms) st" for st
    by (induction arms arbitrary: st) auto
  then show ?thesis by (simp add: rrf_def weighted_rrf_def)
qed

end
