(* ===== verification/Temporal.thy ===== *)
theory Temporal
  imports Ivf_Index
begin

text \<open>
  The scoring functions of the temporal arm (\<open>mlake-index/src/temporal.rs\<close>): the scoring date, the proximity to a window,
  the spread to a neighbour, and the choice of entry points that covers the window.  Dates are \<open>i64\<close> and their sums wrap,
  as in a release build; the \<open>f64\<close> operations are a record, as \<open>arith\<close> is for \<open>f32\<close>.
\<close>

section \<open>Definitions\<close>

definition i64_wrap :: "int \<Rightarrow> int" where
  "i64_wrap x = (x + 2 ^ 63) mod 2 ^ 64 - 2 ^ 63"

text \<open>\<open>x / 2\<close> on \<open>i64\<close>, which truncates.\<close>
definition halve :: "int \<Rightarrow> int" where
  "halve x = (if x < 0 then - ((- x) div 2) else x div 2)"

record ('f, 'd) time_arith =
  ta_of_i64 :: "int \<Rightarrow> 'd"
  ta_lit :: "nat \<Rightarrow> 'd"
  ta_div :: "'d \<Rightarrow> 'd \<Rightarrow> 'd"
  ta_mul :: "'d \<Rightarrow> 'd \<Rightarrow> 'd"
  ta_sub :: "'d \<Rightarrow> 'd \<Rightarrow> 'd"
  ta_min :: "'d \<Rightarrow> 'd \<Rightarrow> 'd"
  ta_le :: "'d \<Rightarrow> 'd \<Rightarrow> bool"
  ta_as_isize :: "'d \<Rightarrow> int"
  ta_narrow :: "'d \<Rightarrow> 'f"

definition best_date :: "millis option \<Rightarrow> millis option \<Rightarrow> millis option \<Rightarrow> millis option" where
  "best_date os oe ma = (case (os, oe) of
     (Some s, Some e) \<Rightarrow> Some (i64_wrap (s + halve (i64_wrap (e - s))))
   | (Some s, None) \<Rightarrow> Some s
   | (None, Some e) \<Rightarrow> Some e
   | (None, None) \<Rightarrow> ma)"

definition window_mid :: "millis \<Rightarrow> millis \<Rightarrow> millis" where
  "window_mid lo hi = i64_wrap (lo + halve (i64_wrap (hi - lo)))"

definition temporal_proximity :: "('f, 'd) time_arith \<Rightarrow> ('f, 'd) arith \<Rightarrow> millis \<Rightarrow> millis \<Rightarrow> millis \<Rightarrow> 'f" where
  "temporal_proximity T A date lo hi =
     (let half_span = ta_div T (ta_of_i64 T (i64_wrap (hi - lo))) (ta_lit T 2) in
      if ta_le T half_span (ta_lit T 0) then lit A 1
      else let ratio = ta_min T (ta_div T (ta_of_i64 T (i64_wrap \<bar>i64_wrap (date - window_mid lo hi)\<bar>)) half_span) (ta_lit T 1)
           in ta_narrow T (ta_sub T (ta_lit T 1) ratio))"

definition causal_boost :: "('f, 'd) arith \<Rightarrow> bool \<Rightarrow> bool \<Rightarrow> 'f" where
  "causal_boost A is_strong is_weak = (if is_strong then lit A 2 else if is_weak then lit A (3 / 2) else lit A 1)"

definition propagate :: "('f, 'd) arith \<Rightarrow> 'f \<Rightarrow> 'f \<Rightarrow> 'f \<Rightarrow> 'f \<Rightarrow> 'f" where
  "propagate A neighbor_proximity parent_score weight boost =
     fmax A neighbor_proximity (fmul A (fmul A (fmul A parent_score weight) boost) (lit A (7 / 10)))"

record 'f candidate =
  ca_id :: memory_id
  ca_similarity :: 'f
  ca_effective_ts :: "millis option"

text \<open>Descending similarity, then id.\<close>
definition cand_le :: "('f, 'd) arith \<Rightarrow> 'f candidate \<Rightarrow> 'f candidate \<Rightarrow> bool" where
  "cand_le A a b = (flt A (ca_similarity b) (ca_similarity a)
     \<or> \<not> flt A (ca_similarity a) (ca_similarity b) \<and> ca_id a \<le> ca_id b)"

definition time_bucket :: "('f, 'd) time_arith \<Rightarrow> millis \<Rightarrow> millis \<Rightarrow> nat \<Rightarrow> 'f candidate \<Rightarrow> nat" where
  "time_bucket T lo hi n c = (let span = ta_of_i64 T (i64_wrap (hi - lo)) in
     case ca_effective_ts c of
       None \<Rightarrow> 0
     | Some d \<Rightarrow> if \<not> ta_le T span (ta_lit T 0) then
           nat (max 0 (min (int n - 1) (ta_as_isize T (ta_mul T (ta_div T (ta_of_i64 T (i64_wrap (d - lo))) span) (ta_lit T n)))))
         else 0)"

text \<open>The \<open>tier\<close>-th best of every bucket that has one, by similarity.\<close>
definition tier_rows :: "('c \<Rightarrow> 'c \<Rightarrow> bool) \<Rightarrow> 'c list list \<Rightarrow> nat \<Rightarrow> 'c list" where
  "tier_rows le buckets tier = sort_by le (map (\<lambda>b. b ! tier) (filter (\<lambda>b. tier < length b) buckets))"

function coverage_loop :: "('c \<Rightarrow> 'c \<Rightarrow> bool) \<Rightarrow> nat \<Rightarrow> 'c list list \<Rightarrow> nat \<Rightarrow> 'c list \<Rightarrow> 'c list" where
  "coverage_loop le limit buckets tier selected =
     (if length selected < limit \<and> list_ex (\<lambda>b. tier < length b) buckets
      then coverage_loop le limit buckets (tier + 1) (selected @ take (limit - length selected) (tier_rows le buckets tier))
      else selected)"
  by pat_completeness auto
termination
proof (relation "measure (\<lambda>(le, limit, buckets, tier, selected). limit - length selected)", simp)
  fix le :: "'c \<Rightarrow> 'c \<Rightarrow> bool" and limit tier and buckets :: "'c list list" and selected :: "'c list"
  assume a: "length selected < limit \<and> list_ex (\<lambda>b. tier < length b) buckets"
  then have "filter (\<lambda>b. tier < length b) buckets \<noteq> []" by (auto simp: list_ex_iff filter_empty_conv)
  with a show "((le, limit, buckets, tier + 1, selected @ take (limit - length selected) (tier_rows le buckets tier)),
      le, limit, buckets, tier, selected) \<in> measure (\<lambda>(le, limit, buckets, tier, selected). limit - length selected)"
    by (cases "filter (\<lambda>b. tier < length b) buckets") (auto simp: tier_rows_def)
qed

declare coverage_loop.simps [simp del]

definition select_with_temporal_coverage ::
    "('f, 'd) time_arith \<Rightarrow> ('f, 'd) arith \<Rightarrow> 'f candidate list \<Rightarrow> millis \<Rightarrow> millis \<Rightarrow> nat \<Rightarrow> nat \<Rightarrow> 'f candidate list" where
  "select_with_temporal_coverage T A pool lo hi limit n_buckets =
     (if length pool \<le> limit then pool
      else let n = max 1 n_buckets;
               buckets = bt_group (time_bucket T lo hi n) (sort_by (cand_le A) pool)
           in coverage_loop (cand_le A) limit (map snd buckets) 0 [])"

definition TEMPORAL_POOL_SIZE :: nat where "TEMPORAL_POOL_SIZE = 60"
definition TEMPORAL_ENTRY_POINTS :: nat where "TEMPORAL_ENTRY_POINTS = 10"
definition TEMPORAL_COVERAGE_BUCKETS :: nat where "TEMPORAL_COVERAGE_BUCKETS = 8"
definition TEMPORAL_WINDOW_CAP :: nat where "TEMPORAL_WINDOW_CAP = 256"
definition NO_DATE_ENTRY :: rat where "NO_DATE_ENTRY = 1 / 2"
definition NO_DATE_NEIGHBOR :: rat where "NO_DATE_NEIGHBOR = 3 / 10"

section \<open>Dates and scores\<close>

lemma i64_wrap_id: "- (2 ^ 63) \<le> x \<Longrightarrow> x < 2 ^ 63 \<Longrightarrow> i64_wrap x = x"
  by (simp add: i64_wrap_def)

definition is_i64_date :: "int \<Rightarrow> bool" where
  "is_i64_date x = (- (2 ^ 63) \<le> x \<and> x < 2 ^ 63)"

definition real_time :: "(real, real) time_arith" where
  "real_time = \<lparr>ta_of_i64 = of_int, ta_lit = of_nat, ta_div = (/), ta_mul = (*), ta_sub = (-), ta_min = min, ta_le = (\<le>),
     ta_as_isize = (\<lambda>x. if x < 0 then - \<lfloor>- x\<rfloor> else \<lfloor>x\<rfloor>), ta_narrow = id\<rparr>"

lemma real_time_simps [simp]:
  "ta_of_i64 real_time = of_int" "ta_lit real_time = of_nat" "ta_div real_time = (/)" "ta_mul real_time = (*)" "ta_sub real_time = (-)"
  "ta_min real_time = min" "ta_le real_time = (\<le>)" "ta_narrow real_time = id"
  by (simp_all add: real_time_def)

lemma window_mid_between:
  assumes "is_i64_date lo" "is_i64_date hi" "lo \<le> hi" "hi - lo < 2 ^ 63"
  shows "window_mid lo hi = lo + (hi - lo) div 2" "lo \<le> window_mid lo hi" "window_mid lo hi \<le> hi"
proof -
  have "i64_wrap (hi - lo) = hi - lo" using assms by (intro i64_wrap_id) (auto simp: is_i64_date_def)
  moreover have "i64_wrap (lo + (hi - lo) div 2) = lo + (hi - lo) div 2" using assms by (intro i64_wrap_id) (auto simp: is_i64_date_def)
  ultimately show 1: "window_mid lo hi = lo + (hi - lo) div 2" using assms(3) by (simp add: window_mid_def halve_def)
  show "lo \<le> window_mid lo hi" "window_mid lo hi \<le> hi" unfolding 1 using assms(3) by auto
qed

lemma temporal_proximity_exact:
  assumes "is_i64_date lo" "is_i64_date hi" "lo < hi" "hi - lo < 2 ^ 63" "\<bar>date - window_mid lo hi\<bar> < 2 ^ 63"
  shows "temporal_proximity real_time real_arith date lo hi = max 0 (1 - \<bar>real_of_int (date - window_mid lo hi)\<bar> / (real_of_int (hi - lo) / 2))"
proof -
  have w: "i64_wrap (hi - lo) = hi - lo" using assms by (intro i64_wrap_id) (auto simp: is_i64_date_def)
  have d: "i64_wrap (date - window_mid lo hi) = date - window_mid lo hi" using assms(5) by (intro i64_wrap_id) auto
  have a: "i64_wrap \<bar>date - window_mid lo hi\<bar> = \<bar>date - window_mid lo hi\<bar>" using assms(5) by (intro i64_wrap_id) auto
  show ?thesis using assms(3)
    by (simp add: temporal_proximity_def w d a Let_def min_def max_def)
qed

section \<open>Covering the window\<close>

lemma coverage_loop_tiers:
  assumes "length selected \<le> limit" "\<forall>b \<in> set buckets. length b \<le> mx"
  shows "coverage_loop le limit buckets tier selected =
    selected @ take (limit - length selected) (concat (map (tier_rows le buckets) [tier..<mx]))"
  using assms
proof (induction le limit buckets tier selected rule: coverage_loop.induct)
  case (1 le limit buckets tier selected)
  have empty: "tier_rows le buckets t = []" if "\<not> list_ex (\<lambda>b. tier < length b) buckets" "tier \<le> t" for t
  proof -
    have f: "filter (\<lambda>b. t < length b) buckets = []" using that by (auto simp: list_ex_iff filter_empty_conv)
    show ?thesis unfolding tier_rows_def f by (simp add: sort_by_def)
  qed
  show ?case
  proof (cases "length selected < limit \<and> list_ex (\<lambda>b. tier < length b) buckets")
    case True
    then have "tier < mx" using 1(3) by (auto simp: list_ex_iff)
    then have "[tier..<mx] = tier # [tier + 1..<mx]" by (simp add: upt_conv_Cons)
    moreover have "length (selected @ take (limit - length selected) (tier_rows le buckets tier)) \<le> limit" using 1(2) by simp
    ultimately show ?thesis
      using 1(1)[OF True _ 1(3)] True by (subst coverage_loop.simps) (simp add: min_def split: if_splits)
  next
    case False
    have "concat (map (tier_rows le buckets) [tier..<mx]) = []" if "\<not> list_ex (\<lambda>b. tier < length b) buckets"
      using empty[OF that] by simp
    with False 1(2) show ?thesis by (subst coverage_loop.simps) auto
  qed
qed

lemma mset_tiers: "\<forall>b \<in> set bs. length b \<le> mx \<Longrightarrow> mset (concat (map (tier_rows le bs) [0..<mx])) = mset (concat bs)"
proof (induction bs)
  case (Cons b bs)
  have "mset (tier_rows le (b # bs) t) = (if t < length b then {#b ! t#} else {#}) + mset (tier_rows le bs t)" for t
    by (simp add: tier_rows_def)
  then have ms: "mset (concat (map (tier_rows le (b # bs)) ts)) =
      mset (map ((!) b) (filter (\<lambda>t. t < length b) ts)) + mset (concat (map (tier_rows le bs) ts))" for ts
    by (induction ts) auto
  have fl: "filter (\<lambda>t. t < length b) [0..<mx] = [0..<length b]"
  proof -
    have "length b \<le> mx" using Cons.prems by simp
    then have "[0..<mx] = [0..<length b] @ [length b..<mx]" by (metis le0 le_add_diff_inverse upt_add_eq_append)
    then show ?thesis by simp
  qed
  show ?case unfolding ms fl map_nth using Cons by simp
qed (induction mx, auto simp: tier_rows_def sort_by_def)

interpretation cand_ranking: ranking "cand_le real_arith"
  by unfold_locales (auto simp: cand_le_def)

text \<open>A candidate's place among the pool's candidates of its own slice of the window, best first.\<close>
definition slice_rank :: "('c \<Rightarrow> 'c \<Rightarrow> bool) \<Rightarrow> ('c \<Rightarrow> nat) \<Rightarrow> 'c list \<Rightarrow> 'c \<Rightarrow> nat" where
  "slice_rank le bucket pool c = length (takeWhile (\<lambda>d. d \<noteq> c) (filter (\<lambda>d. bucket d = bucket c) (sort_by le pool)))"

lemma takeWhile_index: "distinct xs \<Longrightarrow> t < length xs \<Longrightarrow> length (takeWhile (\<lambda>d. d \<noteq> xs ! t) xs) = t"
proof (induction xs arbitrary: t)
  case (Cons x xs)
  then show ?case by (cases t) (auto simp: nth_eq_iff_index_eq)
qed simp

lemma in_tier_rank:
  assumes "distinct pool" "z \<in> set (tier_rows le (map snd (bt_group bucket (sort_by le pool))) t)"
  shows "slice_rank le bucket pool z = t"
proof -
  let ?s = "sort_by le pool"
  have ds: "distinct ?s" using assms(1) by (metis mset_eq_imp_distinct_iff mset_sort_by)
  from assms(2) obtain k b where b: "(k, b) \<in> set (bt_group bucket ?s)" "t < length b" "z = b ! t"
    by (auto simp: tier_rows_def)
  have "map_of (bt_group bucket ?s) k = Some b"
    using b(1) bt_ok_distinct[OF conjunct1[OF bt_group_ok[of bucket ?s]]] by simp
  then have bk: "b = filter (\<lambda>x. bucket x = k) ?s" by (auto simp: map_of_bt_group Let_def simp del: map_of_eq_Some_iff split: if_splits)
  have "z \<in> set b" using b(2,3) by simp
  then have "bucket z = k" unfolding bk by simp
  then have "filter (\<lambda>d. bucket d = bucket z) ?s = b" by (simp add: bk)
  moreover have "distinct b" using ds by (simp add: bk)
  ultimately show ?thesis using takeWhile_index[of b t] b(2,3) by (simp add: slice_rank_def)
qed

lemma sorted_tiers:
  assumes "\<And>t z. z \<in> set (row t) \<Longrightarrow> rank z = t" "\<And>t. sorted_wrt le (row t)"
  shows "sorted_wrt (\<lambda>a b. rank a < rank b \<or> rank a = rank b \<and> le a b) (concat (map row [lo..<hi]))"
proof (induction hi)
  case (Suc hi)
  have "sorted_wrt (\<lambda>a b. rank a < rank b \<or> rank a = rank b \<and> le a b) (row hi)"
    using assms(2)[of hi] by (rule sorted_wrt_mono_rel[rotated]) (use assms(1) in auto)
  moreover have "rank x < hi" if "x \<in> set (concat (map row [lo..<hi]))" for x using that assms(1) by auto
  ultimately show ?case using Suc assms(1)[of _ hi] by (auto simp: sorted_wrt_append)
qed simp

section \<open>Properties\<close>

text \<open>C24. When the pool is larger than the limit, entry-point selection returns exactly \<open>limit\<close> candidates of the pool and covers
  the window fairly: whatever it leaves out ranks no better within its own slice of the window than anything it takes, so
  no slice gives a second candidate before every populated slice gave its best; ties between slices go to the more similar.\<close>
theorem coverage_selection_fair:
  fixes pool :: "real candidate list"
  assumes "distinct pool" "limit < length pool"
  shows "let r = select_with_temporal_coverage T real_arith pool lo hi limit n;
             rank = slice_rank (cand_le real_arith) (time_bucket T lo hi (max 1 n)) pool
         in mset r \<subseteq># mset pool \<and> length r = limit
            \<and> (\<forall>x \<in> set r. \<forall>y \<in> set pool - set r. rank x < rank y \<or> rank x = rank y \<and> cand_le real_arith x y)"
proof -
  let ?le = "cand_le real_arith :: real candidate \<Rightarrow> real candidate \<Rightarrow> bool" and ?b = "time_bucket T lo hi (max 1 n)"
  let ?bs = "map snd (bt_group ?b (sort_by ?le pool))" and ?rank = "slice_rank ?le ?b pool"
  define mx where "mx = length pool"
  define C where "C = concat (map (tier_rows ?le ?bs) [0..<mx])"
  have cb: "mset (concat ?bs) = mset pool" using bt_group_ok[of ?b "sort_by ?le pool"] by simp
  have "length b \<le> mx" if "b \<in> set ?bs" for b
  proof -
    have "length b \<le> length (concat ?bs)" unfolding length_concat using that by (intro member_le_sum_list) auto
    also have "\<dots> = mx" using cb unfolding mx_def by (metis size_mset)
    finally show ?thesis .
  qed
  then have mx: "\<forall>b \<in> set ?bs. length b \<le> mx" by blast
  have C: "mset C = mset pool" unfolding C_def using mset_tiers[OF mx, of ?le] cb by simp
  have r: "select_with_temporal_coverage T real_arith pool lo hi limit n = take limit C"
    using assms(2) coverage_loop_tiers[OF _ mx, of "[]" limit ?le 0]
    by (simp add: select_with_temporal_coverage_def Let_def C_def)
  have so: "sorted_wrt (\<lambda>a b. ?rank a < ?rank b \<or> ?rank a = ?rank b \<and> ?le a b) C"
    unfolding C_def by (rule sorted_tiers) (use in_tier_rank[OF assms(1)] in \<open>auto simp: tier_rows_def intro: cand_ranking.sorted_sort_by\<close>)
  have "length C = length pool" using C by (metis size_mset)
  then have "length (take limit C) = limit" using assms(2) by simp
  moreover have "mset (take limit C) \<subseteq># mset pool" unfolding C[symmetric] by (metis append_take_drop_id mset_append mset_subset_eq_add_left)
  moreover have "?rank x < ?rank y \<or> ?rank x = ?rank y \<and> ?le x y"
    if "x \<in> set (take limit C)" "y \<in> set pool - set (take limit C)" for x y
  proof -
    have "y \<in> set C" using that(2) C by (metis DiffD1 mset_eq_setD)
    then have "y \<in> set (drop limit C)" using that(2) by (metis DiffD2 Un_iff append_take_drop_id set_append)
    moreover have "sorted_wrt (\<lambda>a b. ?rank a < ?rank b \<or> ?rank a = ?rank b \<and> ?le a b) (take limit C @ drop limit C)" using so by simp
    ultimately show ?thesis using that(1) unfolding sorted_wrt_append by blast
  qed
  ultimately show ?thesis by (simp add: r Let_def)
qed

text \<open>Over a window and a date whose differences fit \<open>i64\<close>, temporal proximity lies between 0 and 1, is 1 at the midpoint, 0 outside
  the window and at its end, and decreases with the distance from the midpoint; a window of no width scores 1.\<close>
theorem temporal_proximity_shape:
  assumes "is_i64_date lo" "is_i64_date hi" "lo < hi" "hi - lo < 2 ^ 63" "\<bar>d - window_mid lo hi\<bar> < 2 ^ 63" "\<bar>e - window_mid lo hi\<bar> < 2 ^ 63"
  defines "prox \<equiv> \<lambda>x. temporal_proximity real_time real_arith x lo hi"
  shows "0 \<le> prox d \<and> prox d \<le> 1 \<and> prox (lo + (hi - lo) div 2) = 1 \<and> (d < lo \<or> hi \<le> d \<longrightarrow> prox d = 0)
    \<and> (\<bar>d - (lo + (hi - lo) div 2)\<bar> \<le> \<bar>e - (lo + (hi - lo) div 2)\<bar> \<longrightarrow> prox e \<le> prox d)"
proof -
  let ?mid = "lo + (hi - lo) div 2" and ?h = "real_of_int (hi - lo) / 2"
  have mid: "window_mid lo hi = ?mid" using window_mid_between(1)[OF assms(1,2) less_imp_le[OF assms(3)] assms(4)] .
  have h: "0 < ?h" using assms(3) by simp
  have p: "prox x = max 0 (1 - real_of_int \<bar>x - ?mid\<bar> / ?h)" if "\<bar>x - window_mid lo hi\<bar> < 2 ^ 63" for x
    using temporal_proximity_exact[OF assms(1-4) that] unfolding prox_def mid by simp
  have far: "?h \<le> real_of_int \<bar>d - ?mid\<bar>" if "d < lo \<or> hi \<le> d"
  proof -
    define m where "m = (hi - lo) div 2"
    have "2 * m \<le> hi - lo" "hi - lo \<le> 2 * m + 1" unfolding m_def by linarith+
    then have "hi - lo \<le> 2 * \<bar>d - (lo + m)\<bar>" using that assms(3) by (auto simp: abs_if)
    then have "hi - lo \<le> 2 * \<bar>d - ?mid\<bar>" by (simp add: m_def)
    then have "real_of_int (hi - lo) \<le> real_of_int (2 * \<bar>d - ?mid\<bar>)" by (simp only: of_int_le_iff)
    then show ?thesis by simp
  qed
  define qd qe where "qd = real_of_int \<bar>d - ?mid\<bar> / ?h" and "qe = real_of_int \<bar>e - ?mid\<bar> / ?h"
  have pd: "prox d = max 0 (1 - qd)" and pe: "prox e = max 0 (1 - qe)" using p[OF assms(5)] p[OF assms(6)] by (simp_all only: qd_def qe_def)
  have "0 \<le> qd" using h by (simp add: qd_def)
  then have "0 \<le> prox d" "prox d \<le> 1" unfolding pd by simp_all
  moreover have "prox ?mid = 1" using p[of ?mid] mid by simp
  moreover have "prox d = 0" if "d < lo \<or> hi \<le> d"
  proof -
    have "1 \<le> qd" using far[OF that] h unfolding qd_def by (simp only: pos_le_divide_eq mult_1)
    then show ?thesis unfolding pd by simp
  qed
  moreover have "prox e \<le> prox d" if "\<bar>d - ?mid\<bar> \<le> \<bar>e - ?mid\<bar>"
  proof -
    have "qd \<le> qe" unfolding qd_def qe_def using that h by (intro divide_right_mono) simp_all
    then show ?thesis unfolding pd pe by simp
  qed
  ultimately show ?thesis by blast
qed

definition sample_cand :: "u8 \<Rightarrow> rat \<Rightarrow> int \<Rightarrow> real candidate" where
  "sample_cand i s t = \<lparr>ca_id = MemoryId [i], ca_similarity = of_rat s, ca_effective_ts = Some t\<rparr>"

theorem coverage_selection_fair_witness:
  "length (select_with_temporal_coverage real_time real_arith [sample_cand 1 9 0, sample_cand 2 8 5, sample_cand 3 7 70, sample_cand 4 6 75] 0 80 2 8) = 2"
  using coverage_selection_fair[of "[sample_cand 1 9 0, sample_cand 2 8 5, sample_cand 3 7 70, sample_cand 4 6 75]" 2 real_time 0 80 8]
  by (simp add: Let_def) (simp add: sample_cand_def)

theorem temporal_proximity_shape_witness: "temporal_proximity real_time real_arith 50 0 100 = 1 \<and> temporal_proximity real_time real_arith 100 0 100 = 0"
proof -
  have m: "window_mid 0 100 = 50" by (simp add: window_mid_def i64_wrap_def halve_def)
  from temporal_proximity_shape[of 0 100 100 100] show ?thesis by (simp add: is_i64_date_def m)
qed

end
