(* ===== verification/Generation.thy ===== *)
theory Generation
  imports Vector_Bytes Commit_Run Segments Fusion Temporal
begin

text \<open>
  Reading and writing a segment's files (\<open>mlake-index/src/generation.rs\<close>): object keys, the delete overlay, statistics,
  cluster summaries, and the files of one fact type.  Writes of one batch are issued concurrently in the code; their keys
  are distinct, so the model issues them in order.  \<open>rkyv\<close> and \<open>serde_json\<close> encodings, the full-text split and the
  tokenizer are third-party: they are the fields of \<open>build_env\<close>.
\<close>

section \<open>Definitions\<close>

text \<open>A panic unwinds like an error that nothing catches.\<close>
datatype fold_error = Failed index_error | Panicked

record stats =
  st_doc_count :: nat
  st_cluster_count :: nat
  st_semantic_edge_count :: nat
  st_causal_edge_count :: nat
  st_meta_counts :: "(string, (string, nat) btree) btree"

record cluster_tag_summary =
  ct_tags :: "string list"
  ct_has_untagged :: bool
  ct_updated_range :: "(millis \<times> millis) option"

text \<open>\<open>be_ceil\<close> is \<open>f32::ceil\<close> followed by \<open>as usize\<close>.\<close>
record 'd build_env =
  be_arith :: "(f32, 'd) arith"
  be_edges :: "f32 edge_arith"
  be_to_half :: "f32 \<Rightarrow> weight"
  be_time :: "(f32, 'd) time_arith"
  be_ceil :: "f32 \<Rightarrow> nat"
  be_cluster :: "cluster_file codec"
  be_write_centroids :: "f32 centroids \<Rightarrow> bytes"
  be_read_centroids :: "bytes \<Rightarrow> f32 centroids option"
  be_write_tombstones :: "segment_tombstones \<Rightarrow> bytes"
  be_read_tombstones :: "bytes \<Rightarrow> segment_tombstones option"
  be_write_payload :: "stored_memory \<Rightarrow> bytes"
  be_read_payload :: "bytes \<Rightarrow> stored_memory option"
  be_summary :: "cluster_tag_summary list codec"
  be_stats :: "stats codec"
  be_fts :: "(memory_id \<times> string \<times> string list) list \<Rightarrow> bytes option"
  be_fts_opens :: "bytes \<Rightarrow> bool"
  be_fts_search :: "bytes \<Rightarrow> string \<Rightarrow> nat \<Rightarrow> tag_filter \<Rightarrow> (memory_id \<times> f32) list"
  be_tokenizer_hash :: string
  be_manifest :: "manifest codec"
  be_entry :: "wal_entry codec"

subsection \<open>Keys\<close>

definition centroids_key :: "string \<Rightarrow> string" where "centroids_key p = p @ ''/centroids.bin''"
definition cluster_key :: "string \<Rightarrow> nat \<Rightarrow> string" where "cluster_key p i = p @ ''/cluster-'' @ show_nat i @ ''.bin''"
definition vector_key :: "string \<Rightarrow> nat \<Rightarrow> string" where "vector_key p i = p @ ''/cluster-'' @ show_nat i @ ''.vec''"
definition fts_key :: "string \<Rightarrow> string" where "fts_key p = p @ ''/fts/split.bin''"
definition radj_idx_key :: "string \<Rightarrow> string" where "radj_idx_key p = p @ ''/radj.idx''"
definition radj_data_key :: "string \<Rightarrow> string" where "radj_data_key p = p @ ''/radj.data''"
definition pk_idx_key :: "string \<Rightarrow> string" where "pk_idx_key p = p @ ''/pk.idx''"
definition pk_data_key :: "string \<Rightarrow> string" where "pk_data_key p = p @ ''/pk.data''"
definition stats_key :: "string \<Rightarrow> string" where "stats_key p = p @ ''/stats.json''"
definition tag_summary_key :: "string \<Rightarrow> string" where "tag_summary_key p = p @ ''/tags.json''"
definition entity_idx_key :: "string \<Rightarrow> string" where "entity_idx_key p = p @ ''/entity.idx''"
definition entity_data_key :: "string \<Rightarrow> string" where "entity_data_key p = p @ ''/entity.data''"
definition time_idx_key :: "string \<Rightarrow> string" where "time_idx_key p = p @ ''/time.idx''"
definition time_data_key :: "string \<Rightarrow> string" where "time_data_key p = p @ ''/time.data''"
definition created_idx_key :: "string \<Rightarrow> string" where "created_idx_key p = p @ ''/created.idx''"
definition created_data_key :: "string \<Rightarrow> string" where "created_data_key p = p @ ''/created.data''"
definition payload_idx_key :: "string \<Rightarrow> string" where "payload_idx_key p = p @ ''/payload.idx''"
definition payload_data_key :: "string \<Rightarrow> string" where "payload_data_key p = p @ ''/payload.data''"
definition rerank_idx_key :: "string \<Rightarrow> string" where "rerank_idx_key p = p @ ''/rerank.idx''"
definition rerank_data_key :: "string \<Rightarrow> string" where "rerank_data_key p = p @ ''/rerank.data''"
definition tombstones_key :: "string \<Rightarrow> string" where "tombstones_key p = p @ ''/tombstones.bin''"

definition attempt_prefix :: "string \<Rightarrow> string \<Rightarrow> string" where
  "attempt_prefix ns seg_id = segment_prefix ns seg_id"

abbreviation fstore :: "(store_error + 'a) io \<Rightarrow> (fold_error + 'a) io" where
  "fstore \<equiv> io_map_err (\<lambda>e. Failed (IStore e))"

subsection \<open>Delete overlays\<close>

definition write_tombstones :: "'d build_env \<Rightarrow> string \<Rightarrow> segment_tombstones \<Rightarrow> (fold_error + string) io" where
  "write_tombstones env seg_prefix t =
     (if st_superseded t = [] \<and> st_predicates t = [] then Ret (Inr [])
      else io_try (fstore (store_put (tombstones_key seg_prefix) (be_write_tombstones env t)))
             (\<lambda>_. Ret (Inr (tombstones_key seg_prefix))))"

definition read_tombstones :: "'d build_env \<Rightarrow> string \<Rightarrow> (fold_error + segment_tombstones) io" where
  "read_tombstones env p =
     (if p = [] then Ret (Inr no_tombstones)
      else io_try (fstore (store_get_immutable p)) (\<lambda>bs.
        Ret (Inr (case be_read_tombstones env bs of Some t \<Rightarrow> t | None \<Rightarrow> no_tombstones))))"

subsection \<open>Statistics and summaries\<close>

text \<open>\<open>*out.entry(k).or_default().entry(v).or_insert(0) += 1\<close>.\<close>
definition count_value :: "string \<Rightarrow> string \<Rightarrow> (string, (string, nat) btree) btree \<Rightarrow> (string, (string, nat) btree) btree" where
  "count_value k v out = (let inner = (case map_of out k of Some m \<Rightarrow> m | None \<Rightarrow> []) in
     bt_insert k (bt_insert v ((case map_of inner v of Some n \<Rightarrow> n | None \<Rightarrow> 0) + 1) inner) out)"

definition build_meta_counts :: "stored_memory list \<Rightarrow> string list \<Rightarrow> (string, (string, nat) btree) btree" where
  "build_meta_counts items keys =
     (if keys = [] then []
      else fold (\<lambda>m. fold (\<lambda>(k, v) out. if k \<in> set keys then count_value k v out else out) (sm_metadata m)) items [])"

definition admits_window :: "cluster_tag_summary \<Rightarrow> millis option \<Rightarrow> millis option \<Rightarrow> bool" where
  "admits_window s lo_bound hi_bound =
     (if lo_bound = None \<and> hi_bound = None then True
      else case ct_updated_range s of
        None \<Rightarrow> True
      | Some (lo, hi) \<Rightarrow> if hi < lo then False
          else (case lo_bound of None \<Rightarrow> True | Some f \<Rightarrow> f < hi) \<and> (case hi_bound of None \<Rightarrow> True | Some t \<Rightarrow> lo < t))"

definition range_of :: "millis option list \<Rightarrow> (millis \<times> millis) option" where
  "range_of updated = Some (foldl (\<lambda>(lo, hi) u. (min lo u, max hi u)) (I64_MAX, I64_MIN) (List.map_filter id updated))"

definition summarize_cluster :: "stored_memory list \<Rightarrow> cluster_tag_summary" where
  "summarize_cluster ms = \<lparr>ct_tags = sort_dedup (concat (map sm_tags ms)), ct_has_untagged = list_ex (\<lambda>m. sm_tags m = []) ms,
     ct_updated_range = range_of (map (\<lambda>m. updated_at (sm_timestamps m)) ms)\<rparr>"

subsection \<open>Files of a fact type\<close>

definition write_cluster_file :: "'d build_env \<Rightarrow> string \<Rightarrow> nat \<Rightarrow> cluster_file \<Rightarrow> (fold_error + string) io" where
  "write_cluster_file env p i f = (case cluster_to_bytes (be_cluster env) f of
     Inl e \<Rightarrow> Ret (Inl (Failed (ICore e)))
   | Inr bs \<Rightarrow> io_try (fstore (store_put (cluster_key p i) bs)) (\<lambda>_. Ret (Inr (cluster_key p i))))"

definition write_vector_block :: "string \<Rightarrow> nat \<Rightarrow> bytes \<Rightarrow> (fold_error + string) io" where
  "write_vector_block p i bs = io_try (fstore (store_put (vector_key p i) bs)) (\<lambda>_. Ret (Inr (vector_key p i)))"

text \<open>The tables of one fact type, each an index and a data object.\<close>
record table_pairs =
  tp_radj :: "bytes \<times> bytes"
  tp_pk :: "bytes \<times> bytes"
  tp_entity :: "bytes \<times> bytes"
  tp_time :: "bytes \<times> bytes"
  tp_created :: "bytes \<times> bytes"
  tp_payload :: "bytes \<times> bytes"
  tp_rerank :: "bytes \<times> bytes"

definition generation_puts :: "'d build_env \<Rightarrow> string \<Rightarrow> f32 centroids \<Rightarrow> bytes \<Rightarrow> bytes \<Rightarrow> bytes \<Rightarrow> table_pairs \<Rightarrow> (string \<times> bytes) list" where
  "generation_puts env p centroids fts_split tagb statb t =
     [(centroids_key p, centroids_to_bytes (be_write_centroids env) centroids), (tag_summary_key p, tagb), (fts_key p, fts_split),
      (radj_idx_key p, fst (tp_radj t)), (radj_data_key p, snd (tp_radj t)), (pk_idx_key p, fst (tp_pk t)), (pk_data_key p, snd (tp_pk t)),
      (stats_key p, statb), (entity_idx_key p, fst (tp_entity t)), (entity_data_key p, snd (tp_entity t)),
      (time_idx_key p, fst (tp_time t)), (time_data_key p, snd (tp_time t)), (created_idx_key p, fst (tp_created t)),
      (created_data_key p, snd (tp_created t)), (payload_idx_key p, fst (tp_payload t)), (payload_data_key p, snd (tp_payload t)),
      (rerank_idx_key p, fst (tp_rerank t)), (rerank_data_key p, snd (tp_rerank t))]"

definition generation_files_at :: "string \<Rightarrow> string list \<Rightarrow> string list \<Rightarrow> generation_files" where
  "generation_files_at p cluster_paths vector_paths = \<lparr>gf_pk = pk_idx_key p, gf_centroids = centroids_key p, gf_clusters = cluster_paths,
     gf_vectors = vector_paths, gf_radj_data = radj_data_key p, gf_radj_idx = radj_idx_key p, gf_fts_split = fts_key p,
     gf_stats = stats_key p, gf_pk_data = pk_data_key p, gf_tag_summary = tag_summary_key p, gf_entity_idx = entity_idx_key p,
     gf_entity_data = entity_data_key p, gf_time_idx = time_idx_key p, gf_time_data = time_data_key p,
     gf_created_idx = created_idx_key p, gf_created_data = created_data_key p, gf_payload_idx = payload_idx_key p,
     gf_payload_data = payload_data_key p, gf_rerank_idx = rerank_idx_key p, gf_rerank_data = rerank_data_key p\<rparr>"

definition put_all :: "(string \<times> bytes) list \<Rightarrow> (fold_error + unit) io" where
  "put_all puts = io_try (io_try_map (\<lambda>(k, b). fstore (store_put k b)) puts) (\<lambda>_. Ret (Inr ()))"

definition write_generation :: "'d build_env \<Rightarrow> string \<Rightarrow> f32 centroids \<Rightarrow> string list \<Rightarrow> string list \<Rightarrow> bytes \<Rightarrow> table_pairs
    \<Rightarrow> cluster_tag_summary list \<Rightarrow> nat \<Rightarrow> nat \<Rightarrow> nat \<Rightarrow> (string, (string, nat) btree) btree \<Rightarrow> (fold_error + generation_files) io" where
  "write_generation env p centroids cluster_paths vector_paths fts_split tables summary doc_count n_semantic n_causal meta =
     (let stats = \<lparr>st_doc_count = doc_count, st_cluster_count = length cluster_paths, st_semantic_edge_count = n_semantic,
            st_causal_edge_count = n_causal, st_meta_counts = meta\<rparr>
      in case encode (be_summary env) summary of None \<Rightarrow> Ret (Inl (Failed IJson)) | Some tagb \<Rightarrow>
         case encode (be_stats env) stats of None \<Rightarrow> Ret (Inl (Failed IJson)) | Some statb \<Rightarrow>
         io_try (put_all (generation_puts env p centroids fts_split tagb statb tables))
           (\<lambda>_. Ret (Inr (generation_files_at p cluster_paths vector_paths))))"

record generation =
  gn_generation :: nat
  gn_centroids :: "f32 centroids"
  gn_clusters :: "stored_memory list list"

text \<open>\<open>for (j, item) in items: item.vector = block.decode(j)\<close>.\<close>
definition rejoin :: "(f32, 'd) arith \<Rightarrow> vector_block \<Rightarrow> stored_memory list \<Rightarrow> stored_memory list" where
  "rejoin A b items = map (\<lambda>(j, m). m\<lparr>sm_vector := vb_decode A b j\<rparr>) (enumerate 0 items)"

text \<open>The loop over the fetched cluster objects; \<open>vs\<close> are the vector objects not yet used.\<close>
fun join_clusters :: "'d build_env \<Rightarrow> bytes list \<Rightarrow> bytes list \<Rightarrow> core_error + stored_memory list list" where
  "join_clusters env [] vs = Inr []"
| "join_clusters env (c # cs) vs = (case cluster_from_bytes (be_cluster env) c of Inl e \<Rightarrow> Inl e | Inr f \<Rightarrow>
     (case vs of [] \<Rightarrow> Inl Decode | v # vs' \<Rightarrow>
      (case vb_from_bytes (be_arith env) v of Inl e \<Rightarrow> Inl e | Inr b \<Rightarrow>
       if length (vb_ids b) \<noteq> length (cf_items f) then Inl Decode
       else (case join_clusters env cs vs' of Inl e \<Rightarrow> Inl e | Inr rest \<Rightarrow> Inr (rejoin (be_arith env) b (cf_items f) # rest)))))"

definition get_bytes :: "string \<Rightarrow> (fold_error + bytes) io" where
  "get_bytes p = io_try (fstore (store_get p)) (\<lambda>v. Ret (Inr (v_bytes v)))"

definition read_generation :: "'d build_env \<Rightarrow> generation_files \<Rightarrow> nat \<Rightarrow> (fold_error + generation) io" where
  "read_generation env files gen =
     io_try (get_bytes (gf_centroids files)) (\<lambda>cb.
     case centroids_from_bytes (be_read_centroids env) cb of Inl e \<Rightarrow> Ret (Inl (Failed (ICore e))) | Inr centroids \<Rightarrow>
     io_try (io_try_map get_bytes (gf_clusters files)) (\<lambda>cluster_objects.
     io_try (io_try_map get_bytes (gf_vectors files)) (\<lambda>vector_objects.
     Ret (case join_clusters env cluster_objects vector_objects of
        Inl e \<Rightarrow> Inl (Failed (ICore e))
      | Inr clusters \<Rightarrow> Inr \<lparr>gn_generation = gen, gn_centroids = centroids, gn_clusters = clusters\<rparr>))))"

definition read_fts_split :: "'d build_env \<Rightarrow> generation_files \<Rightarrow> (fold_error + bytes) io" where
  "read_fts_split env files = io_try (get_bytes (gf_fts_split files)) (\<lambda>bs.
     Ret (if be_fts_opens env bs then Inr bs else Inl (Failed (ICore Decode))))"

end
