(* ===== verification/Query_Node.thy ===== *)
theory Query_Node
  imports Generation
begin

text \<open>
  The stateless query node (\<open>mlake-index/src/query_node.rs\<close>): the snapshot of a namespace, opening and reopening it, point
  reads, counters, the two scans and the cluster summaries' pruning.  A snapshot holds what the manifest's segments
  published, opened table by table, and the un-indexed tail.  Reads the code issues concurrently are issued in order;
  \<open>Arc\<close> sharing, metrics, spans and the lazily cached tail full-text index do not change a result and are left out.
  Hash sets are duplicate-free lists, hash maps read by key are maps.
\<close>

section \<open>Definitions\<close>

subsection \<open>Snapshot state\<close>

record updated_window =
  uw_from :: "millis option"
  uw_to :: "millis option"

definition uw_is_noop :: "updated_window \<Rightarrow> bool" where
  "uw_is_noop w = (uw_from w = None \<and> uw_to w = None)"

definition uw_admits :: "updated_window \<Rightarrow> millis option \<Rightarrow> bool" where
  "uw_admits w u = (if uw_is_noop w then True
     else case u of None \<Rightarrow> False
     | Some u \<Rightarrow> (case uw_from w of None \<Rightarrow> True | Some f \<Rightarrow> f < u) \<and> (case uw_to w of None \<Rightarrow> True | Some t \<Rightarrow> u < t))"

record segment_state =
  ss_id :: string
  ss_seq_hi :: nat
  ss_centroids :: "f32 centroids"
  ss_cluster_paths :: "string list"
  ss_vector_paths :: "string list"
  ss_tag_summary :: "cluster_tag_summary list"
  ss_gen_fts :: bytes
  ss_radj :: typed_table
  ss_pk :: typed_table
  ss_entity :: typed_table
  ss_time :: typed_table
  ss_created :: typed_table
  ss_payload :: typed_table
  ss_rerank :: typed_table
  ss_doc_count :: nat
  ss_stats_path :: string

record fact_type =
  ft_segments :: "segment_state list"
  ft_tail_items :: "stored_memory list"
  ft_doc_count :: nat

record query_node =
  qn_ns :: string
  qn_per_type :: "(u8, fact_type) btree"
  qn_newly_loaded :: "(u8 \<times> string) list"
  qn_tombstones :: "memory_id list"
  qn_seg_superseded :: "memory_id \<rightharpoonup> nat"
  qn_predicate_tombstones :: "(nat \<times> predicate) list"
  qn_seg_predicate_tombstones :: "(nat \<times> predicate) list"
  qn_through_seq :: nat
  qn_wal_index_cursor :: nat
  qn_manifest_etag :: "etag option"
  qn_generation :: nat

abbreviation fidx :: "(index_error + 'a) io \<Rightarrow> (fold_error + 'a) io" where
  "fidx \<equiv> io_map_err Failed"

abbreviation fwal :: "(wal_error + 'a) io \<Rightarrow> (fold_error + 'a) io" where
  "fwal \<equiv> io_map_err (\<lambda>e. Failed (IWal e))"

abbreviation fres :: "index_error + 'a \<Rightarrow> (fold_error + 'a) io" where
  "fres r \<equiv> Ret (map_sum Failed id r)"

abbreviation fcore :: "core_error + 'a \<Rightarrow> (fold_error + 'a) io" where
  "fcore r \<equiv> Ret (map_sum (\<lambda>e. Failed (ICore e)) id r)"

text \<open>A computation that panics instead of returning.\<close>
abbreviation fpanic :: "'a option \<Rightarrow> (fold_error + 'a) io" where
  "fpanic r \<equiv> Ret (case r of None \<Rightarrow> Inl Panicked | Some x \<Rightarrow> Inr x)"

text \<open>A loop that threads a state through programs and stops at the first error.\<close>
fun io_try_fold :: "('x \<Rightarrow> 's \<Rightarrow> ('e + 's) io) \<Rightarrow> 'x list \<Rightarrow> 's \<Rightarrow> ('e + 's) io" where
  "io_try_fold f [] s = Ret (Inr s)"
| "io_try_fold f (x # xs) s = io_try (f x s) (io_try_fold f xs)"

subsection \<open>Visibility\<close>

definition hidden :: "query_node \<Rightarrow> stored_memory \<Rightarrow> bool" where
  "hidden n m = (sm_id m \<in> set (qn_tombstones n)
     \<or> list_ex (\<lambda>(seq, p). sm_write_seq m < seq \<and> predicate_matches p m) (qn_predicate_tombstones n))"

definition superseded :: "query_node \<Rightarrow> memory_id \<Rightarrow> nat \<Rightarrow> bool" where
  "superseded n i seg_seq_hi = (i \<in> set (qn_tombstones n)
     \<or> (case qn_seg_superseded n i of Some s \<Rightarrow> seg_seq_hi < s | None \<Rightarrow> False))"

subsection \<open>Opening a snapshot\<close>

definition get_imm :: "string \<Rightarrow> (fold_error + bytes) io" where
  "get_imm p = fstore (store_get_immutable p)"

definition get_imm_opt :: "string \<Rightarrow> (fold_error + bytes) io" where
  "get_imm_opt p = (if p = [] then Ret (Inr []) else get_imm p)"

text \<open>An absent index opens as the empty table.\<close>
definition open_or_empty :: "bytes \<Rightarrow> string \<Rightarrow> index_error + typed_table" where
  "open_or_empty idx p = (if idx = [] then table_open (replicate 16 0) [] else table_open idx p)"

definition load_segment :: "'d build_env \<Rightarrow> segment \<Rightarrow> fact_type_index \<Rightarrow> (fold_error + segment_state) io" where
  "load_segment env seg fti = (let files = fi_files fti in
     io_try (get_imm (gf_centroids files)) (\<lambda>centroids_bytes.
     io_try (get_imm_opt (gf_tag_summary files)) (\<lambda>tag_bytes.
     io_try (get_imm (gf_radj_idx files)) (\<lambda>radj_idx.
     io_try (get_imm (gf_pk files)) (\<lambda>pk_idx.
     io_try (get_imm_opt (gf_entity_idx files)) (\<lambda>entity_idx.
     io_try (get_imm_opt (gf_time_idx files)) (\<lambda>time_idx.
     io_try (get_imm_opt (gf_created_idx files)) (\<lambda>created_idx.
     io_try (get_imm_opt (gf_payload_idx files)) (\<lambda>payload_idx.
     io_try (read_fts_split env files) (\<lambda>gen_fts.
     io_try (fres (table_open pk_idx (gf_pk_data files))) (\<lambda>pk.
     io_try (fres (open_or_empty entity_idx (gf_entity_data files))) (\<lambda>entity.
     io_try (fres (open_or_empty time_idx (gf_time_data files))) (\<lambda>time.
     io_try (fres (open_or_empty created_idx (gf_created_data files))) (\<lambda>created.
     io_try (if gf_rerank_idx files = [] then fres (open_or_empty [] [])
             else io_try (get_imm (gf_rerank_idx files)) (\<lambda>b. fres (table_open b (gf_rerank_data files)))) (\<lambda>rerank.
     io_try (fres (open_or_empty payload_idx (gf_payload_data files))) (\<lambda>payload.
     io_try (fcore (centroids_from_bytes (be_read_centroids env) centroids_bytes)) (\<lambda>centroids.
     io_try (fres (table_open radj_idx (gf_radj_data files))) (\<lambda>radj.
     Ret (Inr \<lparr>ss_id = sg_id seg, ss_seq_hi = sg_seq_hi seg, ss_centroids = centroids,
       ss_cluster_paths = gf_clusters files, ss_vector_paths = gf_vectors files,
       ss_tag_summary = (if tag_bytes = [] then [] else case decode (be_summary env) tag_bytes of Some s \<Rightarrow> s | None \<Rightarrow> []),
       ss_gen_fts = gen_fts, ss_radj = radj, ss_pk = pk, ss_entity = entity, ss_time = time, ss_created = created,
       ss_payload = payload, ss_rerank = rerank, ss_doc_count = unat (table_record_count pk),
       ss_stats_path = gf_stats files\<rparr>)))))))))))))))))))"

text \<open>The loaded segments that index a fact type, newest first, each with a flag for a fresh load.\<close>
definition load_type_segments ::
    "'d build_env \<Rightarrow> (u8 \<times> string \<Rightarrow> segment_state option) \<Rightarrow> u8 \<Rightarrow> segment list \<Rightarrow> (fold_error + (segment_state \<times> bool) list) io" where
  "load_type_segments env reuse ft segs = io_try_map (\<lambda>(seg, fti). case reuse (ft, sg_id seg) of
       Some reused \<Rightarrow> Ret (Inr (reused, False))
     | None \<Rightarrow> io_try (load_segment env seg fti) (\<lambda>s. Ret (Inr (s, True))))
     (List.map_filter (\<lambda>seg. map_option (Pair seg) (sg_index seg ft)) segs)"

definition ids_in_segments :: "segment_state list \<Rightarrow> memory_id list \<Rightarrow> (fold_error + memory_id list) io" where
  "ids_in_segments segments ids = (if ids = [] then Ret (Inr [])
     else io_try (io_try_map (\<lambda>s. fidx (pk_lookup_batch (ss_pk s) ids)) segments) (\<lambda>maps.
       Ret (Inr (filter (\<lambda>i. list_ex (\<lambda>m. m i \<noteq> None) maps) ids))))"

text \<open>The live count of one type: indexed records, less the deletes that hit one, plus the tail items that hit none.\<close>
definition count_type :: "memory_id list \<Rightarrow> stored_memory list \<Rightarrow> segment_state list \<Rightarrow> (fold_error + fact_type) io" where
  "count_type tombstones items segments =
     io_try (ids_in_segments segments (tombstones @ map sm_id items)) (\<lambda>in_segment.
       Ret (Inr \<lparr>ft_segments = segments, ft_tail_items = items,
         ft_doc_count = sum_list (map ss_doc_count segments) - length (filter (\<lambda>t. t \<in> set in_segment) tombstones)
           + length (filter (\<lambda>m. sm_id m \<notin> set in_segment) items)\<rparr>))"

definition tail_of :: "(u8, stored_memory list) btree \<Rightarrow> u8 \<Rightarrow> stored_memory list" where
  "tail_of tail_by_ft ft = (case map_of tail_by_ft ft of Some ms \<Rightarrow> ms | None \<Rightarrow> [])"

text \<open>The delete overlays of the manifest's segments.\<close>
definition read_overlays :: "'d build_env \<Rightarrow> segment list \<Rightarrow> (fold_error + (nat \<times> segment_tombstones) list) io" where
  "read_overlays env segs = io_try_map (\<lambda>seg. io_try (read_tombstones env (sg_tombstones seg)) (\<lambda>t. Ret (Inr (sg_seq_hi seg, t)))) segs"

definition superseded_map :: "(nat \<times> segment_tombstones) list \<Rightarrow> (memory_id \<rightharpoonup> nat)" where
  "superseded_map overlays = fold (\<lambda>(hi, t). fold (add_kill hi) (st_superseded t)) overlays Map.empty"

definition open_with_reuse ::
    "'d build_env \<Rightarrow> (u8 \<times> string \<Rightarrow> segment_state option) \<Rightarrow> string \<Rightarrow> (fold_error + query_node) io" where
  "open_with_reuse env reuse ns =
     io_try (fwal (read_manifest (be_manifest env) ns)) (\<lambda>(manifest, manifest_etag).
     io_try (fwal (resolve_head ns)) (\<lambda>head.
     io_try (fwal (wal_scan_up_to (be_entry env) ns (mf_wal_index_cursor manifest) head)) (\<lambda>scan.
     let tombstones = remdups (ts_tombstones scan);
         tail_by_ft = bt_group sm_memory_type (map snd (ts_upserts scan)) in
     io_try (read_overlays env (mf_segments manifest)) (\<lambda>overlays.
     let seg_preds = concat (map (\<lambda>(_, t). st_predicates t) overlays) in
     io_try (io_try_map (\<lambda>ft.
         io_try (load_type_segments env reuse ft (mf_segments manifest)) (\<lambda>loaded.
         io_try (count_type tombstones (tail_of tail_by_ft ft) (map fst loaded)) (\<lambda>t.
           Ret (Inr (ft, t, map (\<lambda>(s, _). (ft, ss_id s)) (filter snd loaded))))))
       (sort_dedup (mf_memory_types manifest @ map fst tail_by_ft))) (\<lambda>types.
     Ret (Inr \<lparr>qn_ns = ns, qn_per_type = map (\<lambda>(ft, t, _). (ft, t)) types,
       qn_newly_loaded = concat (map (\<lambda>(_, _, fresh). fresh) types),
       qn_tombstones = tombstones, qn_seg_superseded = superseded_map overlays,
       qn_predicate_tombstones = ts_predicate_tombstones scan @ seg_preds, qn_seg_predicate_tombstones = seg_preds,
       qn_through_seq = head, qn_wal_index_cursor = mf_wal_index_cursor manifest, qn_manifest_etag = manifest_etag,
       qn_generation = mf_version manifest\<rparr>))))))"

definition node_open :: "'d build_env \<Rightarrow> string \<Rightarrow> (fold_error + query_node) io" where
  "node_open env ns = open_with_reuse env (\<lambda>_. None) ns"

definition reopen_after_fold :: "'d build_env \<Rightarrow> query_node \<Rightarrow> (fold_error + query_node) io" where
  "reopen_after_fold env n = open_with_reuse env
     (map_of (concat (map (\<lambda>(ft, f). map (\<lambda>s. ((ft, ss_id s), s)) (rev (ft_segments f))) (qn_per_type n)))) (qn_ns n)"

definition reopen_extending_tail :: "'d build_env \<Rightarrow> query_node \<Rightarrow> nat \<Rightarrow> (fold_error + query_node) io" where
  "reopen_extending_tail env n new_head =
     io_try (fwal (wal_scan_up_to (be_entry env) (qn_ns n) (qn_wal_index_cursor n) new_head)) (\<lambda>scan.
     let tombstones = remdups (ts_tombstones scan);
         tail_by_ft = bt_group sm_memory_type (map snd (ts_upserts scan)) in
     io_try (io_try_map (\<lambda>ft.
         io_try (count_type tombstones (tail_of tail_by_ft ft)
             (case map_of (qn_per_type n) ft of Some f \<Rightarrow> ft_segments f | None \<Rightarrow> [])) (\<lambda>t. Ret (Inr (ft, t))))
       (sort_dedup (map fst (qn_per_type n) @ map fst tail_by_ft))) (\<lambda>types.
     Ret (Inr \<lparr>qn_ns = qn_ns n, qn_per_type = types, qn_newly_loaded = [],
       qn_tombstones = tombstones, qn_seg_superseded = qn_seg_superseded n,
       qn_predicate_tombstones = ts_predicate_tombstones scan @ qn_seg_predicate_tombstones n,
       qn_seg_predicate_tombstones = qn_seg_predicate_tombstones n,
       qn_through_seq = new_head, qn_wal_index_cursor = qn_wal_index_cursor n, qn_manifest_etag = qn_manifest_etag n,
       qn_generation = qn_generation n\<rparr>)))"

subsection \<open>Counters and layout\<close>

definition node_doc_count :: "query_node \<Rightarrow> nat" where
  "node_doc_count n = sum_list (map (\<lambda>(_, t). ft_doc_count t) (qn_per_type n))"

definition tail_len :: "query_node \<Rightarrow> nat" where
  "tail_len n = sum_list (map (\<lambda>(_, t). length (ft_tail_items t)) (qn_per_type n))"

definition doc_count_of :: "query_node \<Rightarrow> u8 \<Rightarrow> nat" where
  "doc_count_of n t = (case map_of (qn_per_type n) t of Some f \<Rightarrow> ft_doc_count f | None \<Rightarrow> 0)"

definition node_memory_types :: "query_node \<Rightarrow> u8 list" where
  "node_memory_types n = map fst (qn_per_type n)"

definition cluster_count_of :: "query_node \<Rightarrow> u8 \<Rightarrow> nat" where
  "cluster_count_of n t = (case map_of (qn_per_type n) t of
     Some f \<Rightarrow> sum_list (map (\<lambda>s. length (ss_cluster_paths s)) (ft_segments f)) | None \<Rightarrow> 0)"

record cluster_layout =
  cl_dim :: nat
  cl_centroids :: "f32 list list"
  cl_sizes :: "nat list"
  cl_tag_summary :: "cluster_tag_summary list"

definition first_segment :: "query_node \<Rightarrow> u8 \<Rightarrow> segment_state option" where
  "first_segment n t = Option.bind (map_of (qn_per_type n) t) (\<lambda>f. case ft_segments f of [] \<Rightarrow> None | s # _ \<Rightarrow> Some s)"

definition node_cluster_layout :: "query_node \<Rightarrow> u8 \<Rightarrow> cluster_layout option" where
  "node_cluster_layout n t = map_option (\<lambda>s. \<lparr>cl_dim = cn_dim (ss_centroids s), cl_centroids = cn_vectors (ss_centroids s),
     cl_sizes = cn_sizes (ss_centroids s), cl_tag_summary = ss_tag_summary s\<rparr>) (first_segment n t)"

definition MAX_CLUSTER_READS :: nat where "MAX_CLUSTER_READS = 64"

definition sample_members :: "'d build_env \<Rightarrow> query_node \<Rightarrow> u8 \<Rightarrow> nat \<Rightarrow> (fold_error + (nat \<times> stored_memory) list) io" where
  "sample_members env n t budget = (case first_segment n t of None \<Rightarrow> Ret (Inr []) | Some s \<Rightarrow>
     let total = length (ss_cluster_paths s) in
     if budget = 0 \<or> total = 0 then Ret (Inr [])
     else let reads = min (min total MAX_CLUSTER_READS) budget;
              picks = map (\<lambda>i. i * total div reads) [0..<reads];
              per_cluster = max (budget div reads) 1
       in io_try (io_try_map (\<lambda>c. io_try (get_imm (ss_cluster_paths s ! c)) (\<lambda>blob.
              io_try (fcore (cluster_from_bytes (be_cluster env) blob)) (\<lambda>f. Ret (Inr (c, f))))) picks) (\<lambda>fetched.
            Ret (Inr (concat (map (\<lambda>(c, f). map (Pair c)
              (filter (\<lambda>m. sm_id m \<notin> set (qn_tombstones n)) (take per_cluster (cf_items f)))) fetched)))))"

definition expected_dim :: "fact_type \<Rightarrow> nat option" where
  "expected_dim f = (case find (\<lambda>s. cn_vectors (ss_centroids s) \<noteq> [] \<and> 0 < cn_dim (ss_centroids s)) (ft_segments f) of
     Some s \<Rightarrow> Some (cn_dim (ss_centroids s))
   | None \<Rightarrow> find (\<lambda>k. 0 < k) (map (\<lambda>m. length (sm_vector m)) (ft_tail_items f)))"

subsection \<open>Fetching clusters\<close>

text \<open>One cluster's pair of objects, joined member by member.\<close>
definition fetch_pair :: "'d build_env \<Rightarrow> string \<times> string \<Rightarrow> (fold_error + stored_memory list) io" where
  "fetch_pair env ps = io_try (get_imm (fst ps)) (\<lambda>blob. io_try (get_imm (snd ps)) (\<lambda>vblob.
     io_try (fcore (cluster_from_bytes (be_cluster env) blob)) (\<lambda>f.
     io_try (fcore (vb_from_bytes (be_arith env) vblob)) (\<lambda>block.
       if length (vb_ids block) \<noteq> length (cf_items f) then Ret (Inl (Failed (ICore Decode)))
       else Ret (Inr (rejoin (be_arith env) block (cf_items f)))))))"

definition cluster_pair :: "segment_state \<Rightarrow> nat \<Rightarrow> (string \<times> string) option" where
  "cluster_pair s c = (if c < length (ss_cluster_paths s) \<and> c < length (ss_vector_paths s)
     then Some (ss_cluster_paths s ! c, ss_vector_paths s ! c) else None)"

definition fetch_clusters :: "'d build_env \<Rightarrow> query_node \<Rightarrow> segment_state \<Rightarrow> nat list \<Rightarrow> (fold_error + stored_memory list) io" where
  "fetch_clusters env n s cluster_ids =
     io_try (io_try_map (fetch_pair env) (List.map_filter (cluster_pair s) cluster_ids)) (\<lambda>per_cluster.
       Ret (Inr (filter (\<lambda>m. \<not> hidden n m \<and> \<not> superseded n (sm_id m) (ss_seq_hi s)) (concat per_cluster))))"

definition fetch_vector_blocks :: "'d build_env \<Rightarrow> segment_state \<Rightarrow> nat list \<Rightarrow> (fold_error + vector_block list) io" where
  "fetch_vector_blocks env s cluster_ids = io_try_map (\<lambda>p. io_try (get_imm p) (\<lambda>blob. fcore (vb_from_bytes (be_arith env) blob)))
     (List.map_filter (\<lambda>c. if c < length (ss_vector_paths s) then Some (ss_vector_paths s ! c) else None) cluster_ids)"

text \<open>Errors of a warm-up are dropped.\<close>
definition node_warm :: "query_node \<Rightarrow> unit io" where
  "node_warm n = (if qn_newly_loaded n = [] then Ret ()
     else io_bind (io_map store_get_immutable (concat (map (\<lambda>(ft, f). concat (map (\<lambda>s.
         if (ft, ss_id s) \<in> set (qn_newly_loaded n) then ss_cluster_paths s @ ss_vector_paths s else [])
         (ft_segments f))) (qn_per_type n)))) (\<lambda>_. Ret ()))"

subsection \<open>Point reads\<close>

definition node_segment_ids :: "query_node \<Rightarrow> memory_id list \<Rightarrow> (fold_error + memory_id list) io" where
  "node_segment_ids n ids = io_try (io_try_map (\<lambda>s. fidx (pk_lookup_batch (ss_pk s) ids))
       (concat (map (\<lambda>(_, f). ft_segments f) (qn_per_type n)))) (\<lambda>maps.
     Ret (Inr (filter (\<lambda>i. list_ex (\<lambda>m. m i \<noteq> None) maps) (remdups ids))))"

text \<open>\<open>found.entry(id).or_insert(item)\<close>.\<close>
definition or_insert :: "'k \<Rightarrow> 'v \<Rightarrow> ('k \<rightharpoonup> 'v) \<Rightarrow> ('k \<rightharpoonup> 'v)" where
  "or_insert k v m = (if m k = None then m(k \<mapsto> v) else m)"

definition tail_found :: "memory_id list \<Rightarrow> query_node \<Rightarrow> (memory_id \<rightharpoonup> stored_memory)" where
  "tail_found wanted n = fold (\<lambda>(_, f). fold (find_tail wanted) (ft_tail_items f)) (qn_per_type n) Map.empty"

definition found_rows :: "query_node \<Rightarrow> nat \<Rightarrow> memory_id list \<Rightarrow> (memory_id \<rightharpoonup> stored_memory) \<Rightarrow>
    (memory_id \<rightharpoonup> stored_memory) \<Rightarrow> (memory_id \<rightharpoonup> stored_memory)" where
  "found_rows n hi missing rows = fold (\<lambda>i found. case rows i of
     Some m \<Rightarrow> if superseded n i hi then found else or_insert i m found | None \<Rightarrow> found) missing"

definition found_members :: "query_node \<Rightarrow> nat \<Rightarrow> memory_id list \<Rightarrow> stored_memory list \<Rightarrow>
    (memory_id \<rightharpoonup> stored_memory) \<Rightarrow> (memory_id \<rightharpoonup> stored_memory)" where
  "found_members n hi wanted items = fold (\<lambda>m found.
     if sm_id m \<in> set wanted \<and> \<not> superseded n (sm_id m) hi then or_insert (sm_id m) m found else found) items"

definition get_from_segment :: "'d build_env \<Rightarrow> query_node \<Rightarrow> memory_id list \<Rightarrow> bool \<Rightarrow> segment_state \<Rightarrow>
    (memory_id \<rightharpoonup> stored_memory) \<Rightarrow> (fold_error + (memory_id \<rightharpoonup> stored_memory)) io" where
  "get_from_segment env n wanted include_vector s found =
     (let missing = filter (\<lambda>i. found i = None) wanted in
      if missing = [] then Ret (Inr found)
      else if \<not> include_vector then
        io_try (fidx (payload_lookup_batch (be_read_payload env) (ss_payload s) missing)) (\<lambda>rows.
          Ret (Inr (found_rows n (ss_seq_hi s) missing rows found)))
      else io_try (fidx (pk_lookup_batch (ss_pk s) missing)) (\<lambda>by_cluster.
        let clusters = sort_dedup (map unat (List.map_filter by_cluster missing)) in
        if clusters = [] then Ret (Inr found)
        else io_try (fetch_clusters env n s clusters) (\<lambda>items.
          Ret (Inr (found_members n (ss_seq_hi s) wanted items found)))))"

definition get_many :: "'d build_env \<Rightarrow> query_node \<Rightarrow> memory_id list \<Rightarrow> bool \<Rightarrow> (fold_error + stored_memory list) io" where
  "get_many env n ids include_vector =
     (let wanted = remdups (filter (\<lambda>i. i \<notin> set (qn_tombstones n)) ids) in
      if wanted = [] then Ret (Inr [])
      else io_try (io_try_fold (get_from_segment env n wanted include_vector)
               (concat (map (\<lambda>(_, f). ft_segments f) (qn_per_type n))) (tail_found wanted n)) (\<lambda>found.
        Ret (Inr (filter (\<lambda>m. \<not> hidden n m) (List.map_filter found ids)))))"

definition materialize_from_segment :: "'d build_env \<Rightarrow> query_node \<Rightarrow> segment_state \<Rightarrow> memory_id list \<Rightarrow>
    (memory_id \<rightharpoonup> stored_memory) \<Rightarrow> (fold_error + (memory_id \<rightharpoonup> stored_memory)) io" where
  "materialize_from_segment env n s missing into =
     (if missing = [] then Ret (Inr into)
      else if \<not> table_is_empty (ss_payload s) then
        io_try (fidx (payload_lookup_batch (be_read_payload env) (ss_payload s) missing)) (\<lambda>rows.
          Ret (Inr (fold (\<lambda>i into. case rows i of
            Some m \<Rightarrow> if hidden n m \<or> superseded n i (ss_seq_hi s) then into else or_insert i m into | None \<Rightarrow> into) missing into)))
      else io_try (fidx (pk_lookup_batch (ss_pk s) missing)) (\<lambda>by_cluster.
        let clusters = sort_dedup (map unat (List.map_filter by_cluster missing)) in
        if clusters = [] then Ret (Inr into)
        else io_try (fetch_clusters env n s clusters) (\<lambda>items.
          Ret (Inr (fold (\<lambda>m into. if sm_id m \<in> set missing then or_insert (sm_id m) m into else into) items into)))))"

definition materialize_into :: "'d build_env \<Rightarrow> query_node \<Rightarrow> fact_type \<Rightarrow> memory_id list \<Rightarrow>
    (memory_id \<rightharpoonup> stored_memory) \<Rightarrow> (fold_error + (memory_id \<rightharpoonup> stored_memory)) io" where
  "materialize_into env n f ids = io_try_fold (\<lambda>s into.
     materialize_from_segment env n s (filter (\<lambda>i. into i = None \<and> i \<notin> set (qn_tombstones n)) ids) into) (ft_segments f)"

subsection \<open>Aggregates\<close>

text \<open>\<open>*out.entry(k).or_insert(0) += c\<close>.\<close>
definition add_count :: "'k::linorder \<Rightarrow> nat \<Rightarrow> ('k, nat) btree \<Rightarrow> ('k, nat) btree" where
  "add_count k c out = bt_insert k ((case map_of out k of Some n \<Rightarrow> n | None \<Rightarrow> 0) + c) out"

definition walk_types :: "query_node \<Rightarrow> u8 list \<Rightarrow> fact_type list" where
  "walk_types n types = List.map_filter (map_of (qn_per_type n)) (if types = [] then node_memory_types n else types)"

text \<open>A stats object that does not parse counts as empty.\<close>
definition empty_stats :: stats where
  "empty_stats = \<lparr>st_doc_count = 0, st_cluster_count = 0, st_semantic_edge_count = 0, st_causal_edge_count = 0, st_meta_counts = []\<rparr>"

definition read_stats :: "'d build_env \<Rightarrow> segment_state \<Rightarrow> (fold_error + stats) io" where
  "read_stats env s = io_try (get_imm (ss_stats_path s)) (\<lambda>bs.
     Ret (Inr (case decode (be_stats env) bs of Some st \<Rightarrow> st | None \<Rightarrow> empty_stats)))"

definition metadata_counts :: "'d build_env \<Rightarrow> query_node \<Rightarrow> string \<Rightarrow> u8 list \<Rightarrow> (fold_error + (string, nat) btree) io" where
  "metadata_counts env n key types = io_try (io_try_fold (\<lambda>f out.
       io_try (io_try_fold (\<lambda>s out. if ss_stats_path s = [] then Ret (Inr out)
           else io_try (read_stats env s) (\<lambda>st. Ret (Inr (case map_of (st_meta_counts st) key of
             Some values \<Rightarrow> fold (\<lambda>(v, c). add_count v c) values out | None \<Rightarrow> out)))) (ft_segments f) out) (\<lambda>out.
       Ret (Inr (fold (\<lambda>m out. if hidden n m then out else case find (\<lambda>(k, _). k = key) (sm_metadata m) of
           Some (_, v) \<Rightarrow> add_count v 1 out | None \<Rightarrow> out) (ft_tail_items f) out))))
     (walk_types n types) []) (\<lambda>out. Ret (Inr (filter (\<lambda>(_, c). 0 < c) out)))"

record edge_totals =
  et_semantic :: nat
  et_causal :: nat
  et_buckets :: "(millis, nat) btree"

definition segment_edges :: "'d build_env \<Rightarrow> segment_state \<Rightarrow> edge_totals \<Rightarrow> (fold_error + edge_totals) io" where
  "segment_edges env s t =
     io_try (if ss_stats_path s = [] then Ret (Inr t)
       else io_try (read_stats env s) (\<lambda>st. Ret (Inr (t\<lparr>et_semantic := et_semantic t + st_semantic_edge_count st,
              et_causal := et_causal t + st_causal_edge_count st\<rparr>)))) (\<lambda>t.
     if table_is_empty (ss_time s) then Ret (Inr t)
     else io_try (fidx (time_timestamp_counts (ss_time s))) (\<lambda>counts.
       Ret (Inr (t\<lparr>et_buckets := fold (\<lambda>(ts, c). add_count ts c) counts (et_buckets t)\<rparr>))))"

definition tail_edges :: "query_node \<Rightarrow> stored_memory \<Rightarrow> edge_totals \<Rightarrow> edge_totals" where
  "tail_edges n m t = (if hidden n m then t
     else \<lparr>et_semantic = et_semantic t + length (sm_semantic_out m), et_causal = et_causal t + length (sm_causal_out m),
       et_buckets = (case effective_ts (sm_timestamps m) of Some ts \<Rightarrow> add_count ts 1 (et_buckets t) | None \<Rightarrow> et_buckets t)\<rparr>)"

text \<open>The sweep: \<open>lo\<close> and \<open>hi\<close> index the buckets, \<open>sum\<close> is the number of memories between them.  Running past the last
  bucket panics; differences are on \<open>i64\<close>, and the decrement of an empty window wraps on \<open>u64\<close>.\<close>
function advance_lo :: "(millis \<times> nat) list \<Rightarrow> millis \<Rightarrow> nat \<Rightarrow> nat \<Rightarrow> (nat \<times> nat) option" where
  "advance_lo bs bound lo acc = (if length bs \<le> lo then None
     else if fst (bs ! lo) < bound then advance_lo bs bound (Suc lo) (acc - snd (bs ! lo))
     else Some (lo, acc))"
  by pat_completeness auto
termination by (relation "measure (\<lambda>(bs, bound, lo, acc). length bs - lo)") auto

function advance_hi :: "(millis \<times> nat) list \<Rightarrow> millis \<Rightarrow> nat \<Rightarrow> nat \<Rightarrow> nat \<times> nat" where
  "advance_hi bs bound hi acc = (if hi < length bs \<and> fst (bs ! hi) \<le> bound
     then advance_hi bs bound (Suc hi) (acc + snd (bs ! hi)) else (hi, acc))"
  by pat_completeness auto
termination by (relation "measure (\<lambda>(bs, bound, hi, acc). length bs - hi)") auto

declare advance_lo.simps [simp del] advance_hi.simps [simp del]

definition u64_pred :: "nat \<Rightarrow> nat" where
  "u64_pred k = (if k = 0 then 2 ^ 64 - 1 else k - 1)"

fun sweep_links :: "(millis \<times> nat) list \<Rightarrow> (millis \<times> nat) list \<Rightarrow> nat \<Rightarrow> nat \<Rightarrow> nat \<Rightarrow> nat \<Rightarrow> nat option" where
  "sweep_links bs [] lo hi acc temporal = Some temporal"
| "sweep_links bs ((ts, k) # rest) lo hi acc temporal =
     (case advance_lo bs (i64_wrap (ts - TEMPORAL_SPREAD_WINDOW_MS)) lo acc of None \<Rightarrow> None
      | Some (lo, acc) \<Rightarrow> (case advance_hi bs (i64_wrap (ts + TEMPORAL_SPREAD_WINDOW_MS)) hi acc of (hi, acc) \<Rightarrow>
          sweep_links bs rest lo hi acc (temporal + k * min (u64_pred acc) MAX_TEMPORAL_LINKS_PER_UNIT)))"

definition temporal_links :: "(millis \<times> nat) list \<Rightarrow> nat option" where
  "temporal_links buckets = sweep_links buckets buckets 0 0 0 0"

definition link_counts :: "'d build_env \<Rightarrow> query_node \<Rightarrow> u8 list \<Rightarrow> (fold_error + nat \<times> nat \<times> nat) io" where
  "link_counts env n types = io_try (io_try_fold (\<lambda>f t.
       io_try (io_try_fold (segment_edges env) (ft_segments f) t) (\<lambda>t. Ret (Inr (fold (tail_edges n) (ft_tail_items f) t))))
     (walk_types n types) \<lparr>et_semantic = 0, et_causal = 0, et_buckets = []\<rparr>) (\<lambda>t.
     io_try (fpanic (temporal_links (et_buckets t))) (\<lambda>temporal. Ret (Inr (et_semantic t, et_causal t, temporal))))"

text \<open>Adding a segment's posting counts to the totals; both are read by key only.\<close>
definition add_counts :: "('k \<rightharpoonup> nat) \<Rightarrow> ('k \<rightharpoonup> nat) \<Rightarrow> ('k \<rightharpoonup> nat)" where
  "add_counts cs out = (\<lambda>k. case cs k of None \<Rightarrow> out k | Some c \<Rightarrow> Some ((case out k of Some m \<Rightarrow> m | None \<Rightarrow> 0) + c))"

definition node_entity_counts :: "query_node \<Rightarrow> u8 list \<Rightarrow> entity_id list option \<Rightarrow> (fold_error + (entity_id \<rightharpoonup> nat)) io" where
  "node_entity_counts n types entities = io_try (io_try_fold (\<lambda>f out.
       io_try (io_try_fold (\<lambda>s out. if table_is_empty (ss_entity s) then Ret (Inr out)
           else io_try (fidx (entity_counts (ss_entity s) entities)) (\<lambda>cs. Ret (Inr (add_counts cs out)))) (ft_segments f) out) (\<lambda>out.
       Ret (Inr (fold (\<lambda>m out. if hidden n m then out
           else fold (\<lambda>e out. if (case entities of None \<Rightarrow> True | Some w \<Rightarrow> e \<in> set w) then add_counts [e \<mapsto> 1] out else out)
             (sm_entity_ids m) out) (ft_tail_items f) out))))
     (walk_types n types) Map.empty) (\<lambda>out.
     Ret (Inr (\<lambda>e. case out e of Some c \<Rightarrow> if 0 < c then Some c else None | None \<Rightarrow> None)))"

subsection \<open>Scans\<close>

record scan_cursor =
  sc_cluster :: nat
  sc_offset :: nat

text \<open>The clusters of a type in scan order, \<open>None\<close> for the tail.\<close>
definition scan_plan :: "fact_type \<Rightarrow> (segment_state \<times> nat) option list" where
  "scan_plan f = map Some (concat (map (\<lambda>s. map (Pair s) [0..<length (ss_cluster_paths s)]) (ft_segments f))) @ [None]"

definition scan_items :: "'d build_env \<Rightarrow> query_node \<Rightarrow> fact_type \<Rightarrow> (segment_state \<times> nat) option \<Rightarrow> (fold_error + stored_memory list) io" where
  "scan_items env n f c = (case c of
     None \<Rightarrow> Ret (Inr (filter (\<lambda>m. \<not> hidden n m) (ft_tail_items f)))
   | Some (s, lc) \<Rightarrow> io_try (fetch_clusters env n s [lc]) (\<lambda>items.
       Ret (Inr (filter (\<lambda>m. sm_id m \<notin> sm_id ` set (ft_tail_items f) \<and> \<not> hidden n m) items))))"

definition scan_keeps :: "predicate \<Rightarrow> tag_predicate list \<Rightarrow> stored_memory \<Rightarrow> bool" where
  "scan_keeps p groups m = (predicate_matches p m \<and> list_all (\<lambda>g. tag_predicate_matches g (sm_tags m)) groups)"

text \<open>The loop over the remaining clusters of the plan.  An iteration either exhausts its cluster and goes on to the
  next, or fills the page.\<close>
fun scan_loop :: "('c \<Rightarrow> ('e + 'm list) io) \<Rightarrow> nat \<Rightarrow> nat \<Rightarrow> nat \<Rightarrow> 'c list \<Rightarrow> 'm list \<Rightarrow> ('e + 'm list \<times> scan_cursor option) io" where
  "scan_loop fetch limit cluster off [] out = Ret (Inr (out, None))"
| "scan_loop fetch limit cluster off (c # cs) out =
     (if limit \<le> length out then Ret (Inr (out, Some \<lparr>sc_cluster = cluster, sc_offset = off\<rparr>))
      else io_try (fetch c) (\<lambda>matching.
        let k = min (limit - length out) (length matching - off);
            out = out @ take k (drop off matching)
        in if length matching \<le> off + k then scan_loop fetch limit (Suc cluster) 0 cs out
           else Ret (Inr (out, Some \<lparr>sc_cluster = cluster, sc_offset = off + k\<rparr>))))"

definition node_scan :: "'d build_env \<Rightarrow> query_node \<Rightarrow> u8 \<Rightarrow> scan_cursor \<Rightarrow> nat \<Rightarrow> predicate \<Rightarrow> tag_predicate list \<Rightarrow>
    (fold_error + stored_memory list \<times> scan_cursor option) io" where
  "node_scan env n t cursor limit p groups = (case map_of (qn_per_type n) t of None \<Rightarrow> Ret (Inr ([], None))
   | Some f \<Rightarrow> scan_loop (\<lambda>c. io_try (scan_items env n f c) (\<lambda>items. Ret (Inr (filter (scan_keeps p groups) items))))
       limit (sc_cluster cursor) (sc_offset cursor) (drop (sc_cluster cursor) (scan_plan f)) [])"

text \<open>\<open>dedup_by_key\<close>: an element equal in key to the one kept before it is dropped.\<close>
fun dedup_by_key :: "('a \<Rightarrow> 'k) \<Rightarrow> 'a list \<Rightarrow> 'a list" where
  "dedup_by_key key (x # y # zs) = (if key y = key x then dedup_by_key key (x # zs) else x # dedup_by_key key (y # zs))"
| "dedup_by_key key xs = xs"

function chunks :: "nat \<Rightarrow> 'a list \<Rightarrow> 'a list list" where
  "chunks k xs = (if xs = [] then [] else take (max k 1) xs # chunks k (drop (max k 1) xs))"
  by pat_completeness auto
termination by (relation "measure (\<lambda>(k, xs). length xs)") auto

declare chunks.simps [simp del]

type_synonym ordered_cand = "millis \<times> memory_id \<times> u8"

definition ORDERED_CHUNK :: nat where "ORDERED_CHUNK = 256"

definition ordered_cap :: "nat \<Rightarrow> nat" where
  "ordered_cap limit = max (limit * 4) 256"

definition tail_updated :: "fact_type \<Rightarrow> millis \<Rightarrow> (millis \<times> stored_memory) list" where
  "tail_updated f from_ts = List.map_filter (\<lambda>m. case updated_at (sm_timestamps m) of
     Some ts \<Rightarrow> if from_ts \<le> ts then Some (ts, m) else None | None \<Rightarrow> None) (ft_tail_items f)"

definition ordered_candidates :: "query_node \<Rightarrow> u8 list \<Rightarrow> millis \<Rightarrow> nat \<Rightarrow> (fold_error + ordered_cand list) io" where
  "ordered_candidates n types from_ts cap = io_try (io_try_fold (\<lambda>t cands. case map_of (qn_per_type n) t of
       None \<Rightarrow> Ret (Inr cands)
     | Some f \<Rightarrow> io_try (io_try_map (\<lambda>s. fidx (time_after (ss_created s) from_ts cap)) (ft_segments f)) (\<lambda>runs.
         Ret (Inr (cands @ map (\<lambda>(ts, i). (ts, i, t)) (concat runs)
           @ map (\<lambda>(ts, m). (ts, sm_id m, t)) (tail_updated f from_ts)))))
     types []) (\<lambda>cands. Ret (Inr (dedup_by_key (\<lambda>(_, i, _). i) (sort_key (\<lambda>(ts, i, _). (ts, i)) cands))))"

definition ordered_tail :: "query_node \<Rightarrow> u8 list \<Rightarrow> millis \<Rightarrow> (memory_id \<rightharpoonup> stored_memory) \<times> memory_id set" where
  "ordered_tail n types from_ts = (let fs = List.map_filter (map_of (qn_per_type n)) types in
     (fold (\<lambda>f. fold (\<lambda>(_, m) tail. tail(sm_id m \<mapsto> m)) (tail_updated f from_ts)) fs Map.empty,
      sm_id ` set (concat (map ft_tail_items fs))))"

text \<open>The rows of a chunk that are not resident in the tail, from the payload stores.\<close>
definition hydrate_chunk :: "'d build_env \<Rightarrow> query_node \<Rightarrow> u8 list \<Rightarrow> (memory_id \<rightharpoonup> stored_memory) \<Rightarrow> ordered_cand list \<Rightarrow>
    (fold_error + (memory_id \<rightharpoonup> stored_memory)) io" where
  "hydrate_chunk env n types tail_by_id chunk = io_try_fold (\<lambda>t by_id. case map_of (qn_per_type n) t of
       None \<Rightarrow> Ret (Inr by_id)
     | Some f \<Rightarrow> (let want = map (\<lambda>(_, i, _). i) (filter (\<lambda>(_, i, ty). ty = t \<and> tail_by_id i = None) chunk) in
         if want = [] then Ret (Inr by_id)
         else io_try_fold (\<lambda>s by_id. io_try (fidx (payload_lookup_batch (be_read_payload env) (ss_payload s) want)) (\<lambda>rows.
           Ret (Inr (fold (\<lambda>i by_id. case rows i of Some m \<Rightarrow> or_insert i m by_id | None \<Rightarrow> by_id) want by_id)))) (ft_segments f) by_id))
     types Map.empty"

text \<open>The loop over a chunk: \<open>(by_id, out, consumed)\<close>.\<close>
fun ordered_items :: "query_node \<Rightarrow> nat \<Rightarrow> (stored_memory \<Rightarrow> bool) \<Rightarrow> (memory_id \<rightharpoonup> stored_memory) \<Rightarrow> memory_id set \<Rightarrow> ordered_cand list \<Rightarrow>
    (memory_id \<rightharpoonup> stored_memory) \<Rightarrow> stored_memory list \<Rightarrow> nat \<Rightarrow> stored_memory list \<times> nat" where
  "ordered_items n limit keeps tail_by_id tail_ids [] by_id out consumed = (out, consumed)"
| "ordered_items n limit keeps tail_by_id tail_ids ((_, i, _) # cs) by_id out consumed =
     (if limit \<le> length out then (out, Suc consumed)
      else let push = (\<lambda>m. if \<not> hidden n m \<and> keeps m then out @ [m] else out);
               go = ordered_items n limit keeps tail_by_id tail_ids cs
        in case tail_by_id i of
             Some m \<Rightarrow> go by_id (push m) (Suc consumed)
           | None \<Rightarrow> if i \<in> tail_ids then go by_id out (Suc consumed)
               else (case by_id i of Some m \<Rightarrow> go (by_id(i := None)) (push m) (Suc consumed)
                     | None \<Rightarrow> go by_id out (Suc consumed)))"

fun ordered_chunks :: "(ordered_cand list \<Rightarrow> (fold_error + (memory_id \<rightharpoonup> stored_memory)) io) \<Rightarrow>
    (ordered_cand list \<Rightarrow> (memory_id \<rightharpoonup> stored_memory) \<Rightarrow> stored_memory list \<Rightarrow> nat \<Rightarrow> stored_memory list \<times> nat) \<Rightarrow>
    nat \<Rightarrow> ordered_cand list list \<Rightarrow> stored_memory list \<Rightarrow> nat \<Rightarrow> (fold_error + stored_memory list \<times> nat) io" where
  "ordered_chunks hydrate step limit [] out consumed = Ret (Inr (out, consumed))"
| "ordered_chunks hydrate step limit (c # cs) out consumed =
     (if limit \<le> length out then Ret (Inr (out, consumed))
      else io_try (hydrate c) (\<lambda>by_id. case step c by_id out consumed of (out, consumed) \<Rightarrow>
        ordered_chunks hydrate step limit cs out consumed))"

definition ordered_next :: "nat \<Rightarrow> ordered_cand list \<Rightarrow> nat \<Rightarrow> millis option" where
  "ordered_next cap cands consumed = (if length cands \<le> consumed \<and> length cands < cap then None
     else if consumed - 1 < length cands then Some (fst (cands ! (consumed - 1))) else None)"

definition scan_ordered :: "'d build_env \<Rightarrow> query_node \<Rightarrow> u8 list \<Rightarrow> millis \<Rightarrow> nat \<Rightarrow> predicate \<Rightarrow> tag_predicate list \<Rightarrow>
    (fold_error + stored_memory list \<times> millis option) io" where
  "scan_ordered env n types from_ts limit p groups =
     (if limit = 0 then Ret (Inr ([], None))
      else io_try (ordered_candidates n types from_ts (ordered_cap limit)) (\<lambda>cands.
        let (tail_by_id, tail_ids) = ordered_tail n types from_ts in
        io_try (ordered_chunks (hydrate_chunk env n types tail_by_id)
            (ordered_items n limit (scan_keeps p groups) tail_by_id tail_ids) limit (chunks ORDERED_CHUNK cands) [] 0) (\<lambda>(out, consumed).
          Ret (Inr (out, ordered_next (ordered_cap limit) cands consumed)))))"

definition metadata_contains_all :: "(string \<times> string) list \<Rightarrow> (string \<times> string) list \<Rightarrow> bool" where
  "metadata_contains_all metadata required = list_all (\<lambda>kv. kv \<in> set metadata) required"

definition ids_matching :: "'d build_env \<Rightarrow> query_node \<Rightarrow> u8 list \<Rightarrow> (string \<times> string) list \<Rightarrow> tag_filter \<Rightarrow> (fold_error + memory_id list) io" where
  "ids_matching env n types metadata_equals tags =
     (let keeps = (\<lambda>m. tag_filter_matches tags (sm_tags m) \<and> metadata_contains_all (sm_metadata m) metadata_equals) in
      io_try (io_try_map (\<lambda>f.
        io_try (io_try_map (\<lambda>(s, c). fetch_clusters env n s [c])
          (concat (map (\<lambda>s. map (Pair s) [0..<length (ss_cluster_paths s)]) (ft_segments f)))) (\<lambda>per_cluster.
        Ret (Inr (map sm_id (filter (\<lambda>m. sm_id m \<notin> sm_id ` set (ft_tail_items f) \<and> keeps m) (concat per_cluster))
          @ map sm_id (filter (\<lambda>m. sm_id m \<notin> set (qn_tombstones n) \<and> keeps m) (ft_tail_items f))))))
        (walk_types n types)) (\<lambda>ids. Ret (Inr (concat ids))))"

subsection \<open>Which clusters to probe\<close>

definition MIN_NPROBE :: nat where "MIN_NPROBE = 8"
definition MAX_NPROBE :: nat where "MAX_NPROBE = 64"
definition CLUSTER_FRACTION :: nat where "CLUSTER_FRACTION = 2"

definition resolve_nprobe :: "segment_state \<Rightarrow> nat \<Rightarrow> nat" where
  "resolve_nprobe s nprobe = (if 0 < nprobe then nprobe
     else max MIN_NPROBE (min MAX_NPROBE ((length (cn_vectors (ss_centroids s)) + CLUSTER_FRACTION - 1) div CLUSTER_FRACTION)))"

definition cluster_admissible :: "segment_state \<Rightarrow> tag_filter \<Rightarrow> updated_window \<Rightarrow> nat \<Rightarrow> bool" where
  "cluster_admissible s tags updated c = (if c < length (ss_tag_summary s)
     then let sm = ss_tag_summary s ! c in
       (is_noop tags \<or> cluster_admits tags (ct_tags sm) (ct_has_untagged sm)) \<and> admits_window sm (uw_from updated) (uw_to updated)
     else True)"

text \<open>A NaN distance panics in the probe.\<close>
definition select_clusters :: "'d build_env \<Rightarrow> segment_state \<Rightarrow> f32 list \<Rightarrow> nat \<Rightarrow> tag_filter \<Rightarrow> updated_window \<Rightarrow> nat list option" where
  "select_clusters env s query nprobe tags updated =
     (let nprobe = resolve_nprobe s nprobe; A = be_arith env in
      if is_noop tags \<and> uw_is_noop updated \<or> ss_tag_summary s = [] then probe A (ss_centroids s) query nprobe
      else map_option (\<lambda>cs. take (max (nprobe * 4) nprobe) (filter (cluster_admissible s tags updated) cs))
             (probe A (ss_centroids s) query (length (cn_vectors (ss_centroids s)))))"

end
