(* ===== verification/Query_Arms.thy ===== *)
theory Query_Arms
  imports Query_Node
begin

text \<open>
  The arms of a query (\<open>mlake-index/src/query_node.rs\<close>): the two-stage vector search of a segment, its merge with the
  tail, the full-text, graph and temporal arms, the union of their candidates into raw hits, the fused query, and the
  links derived for a write (\<open>indexer.rs\<close>).  The full-text index is third-party: building and searching it are fields of
  \<open>build_env\<close>.
\<close>

section \<open>Definitions\<close>

definition RERANK_REFINE :: nat where "RERANK_REFINE = 16"

record arm_depths =
  ad_vector :: nat
  ad_text :: nat
  ad_graph :: nat
  ad_nprobe :: nat
  ad_graph_seed_min :: f32
  ad_exact_rerank :: bool

subsection \<open>Vector arm\<close>

text \<open>A scanned member: its estimate and the interval its exact score lies in.\<close>
record 'f scan_cand =
  sc_id :: memory_id
  sc_est :: 'f
  sc_lo :: 'f
  sc_hi :: 'f

definition scan_member :: "'d build_env \<Rightarrow> query_node \<Rightarrow> nat \<Rightarrow> tag_filter \<Rightarrow> updated_window \<Rightarrow> vector_block \<Rightarrow> tag_mask \<Rightarrow>
    f32 prepared_query \<Rightarrow> nat \<Rightarrow> f32 scan_cand option" where
  "scan_member env n hi tags updated block mk prepared i =
     (let A = be_arith env; mid = vb_ids block ! i in
      if superseded n mid hi then None
      else if \<not> is_noop tags \<and> vb_has_tags block \<and> \<not> vb_passes block i mk (tf_mode tags) then None
      else if tf_groups tags \<noteq> [] \<and> vb_has_tags block \<and> \<not> groups_match tags (member_tags block i) then None
      else if \<not> passes_updated block i (uw_from updated) (uw_to updated) then None
      else let (lo, up) = score_bounds A block prepared i in
        Some \<lparr>sc_id = mid, sc_est = vb_score A block prepared i, sc_lo = lo, sc_hi = up\<rparr>)"

definition scan_block :: "'d build_env \<Rightarrow> query_node \<Rightarrow> nat \<Rightarrow> f32 list \<Rightarrow> tag_filter \<Rightarrow> updated_window \<Rightarrow> vector_block \<Rightarrow>
    core_error + f32 scan_cand list" where
  "scan_block env n hi q tags updated block =
     (let mk = vb_tag_mask block (tf_tags tags) in
      if \<not> is_noop tags \<and> vb_has_tags block \<and> \<not> any_can_pass block mk (tf_mode tags) then Inr []
      else if \<not> any_can_pass_updated block (uw_from updated) (uw_to updated) then Inr []
      else case vb_prepare (be_arith env) block q of Inl e \<Rightarrow> Inl e
        | Inr prepared \<Rightarrow> Inr (List.map_filter (scan_member env n hi tags updated block mk prepared) [0..<length (vb_ids block)]))"

fun scan_blocks :: "'d build_env \<Rightarrow> query_node \<Rightarrow> nat \<Rightarrow> f32 list \<Rightarrow> tag_filter \<Rightarrow> updated_window \<Rightarrow> vector_block list \<Rightarrow>
    core_error + f32 scan_cand list" where
  "scan_blocks env n hi q tags updated [] = Inr []"
| "scan_blocks env n hi q tags updated (b # bs) = res_bind (scan_block env n hi q tags updated b) (\<lambda>cs.
     res_bind (scan_blocks env n hi q tags updated bs) (\<lambda>rest. Inr (cs @ rest)))"

text \<open>Descending by a key, incomparable keys counting as equal.\<close>
definition desc_by :: "('f, 'd) arith \<Rightarrow> ('a \<Rightarrow> 'f) \<Rightarrow> 'a \<Rightarrow> 'a \<Rightarrow> bool" where
  "desc_by A key a b = (\<not> flt A (key a) (key b))"

definition rank_scored :: "('f, 'd) arith \<Rightarrow> (memory_id \<times> 'f) list \<Rightarrow> (memory_id \<times> 'f) list" where
  "rank_scored A hits = sort_by (rank_le A) hits"

text \<open>The candidates whose interval reaches the \<open>k\<close>-th best lower bound, at most \<open>k * RERANK_REFINE\<close> of them by
  estimate; which of equal estimates survive the selection is not specified, and here it is the earlier ones.\<close>
definition contenders :: "('f, 'd) arith \<Rightarrow> nat \<Rightarrow> 'f scan_cand list \<Rightarrow> 'f scan_cand list" where
  "contenders A depth cands =
     (let k = max depth 1;
          los = sort_by (desc_by A id) (map sc_lo cands);
          tau = (if k - 1 < length los then los ! (k - 1) else f_ninf A);
          cs = filter (\<lambda>c. fle A tau (sc_hi c)) cands;
          cap = k * RERANK_REFINE
      in if cap < length cs then take cap (sort_by (desc_by A sc_est) cs) else cs)"

text \<open>Stage two: the exact score of a contender whose row was found, its estimate otherwise.\<close>
definition rescore :: "('f, 'd) arith \<Rightarrow> ('f list \<Rightarrow> 'f option) \<Rightarrow> (memory_id \<rightharpoonup> 'f list) \<Rightarrow> 'f scan_cand list \<Rightarrow> (memory_id \<times> 'f) list option" where
  "rescore A score exact cs = map_option (rank_scored A) (option_all (map (\<lambda>c. case exact (sc_id c) of
     Some v \<Rightarrow> map_option (Pair (sc_id c)) (score v) | None \<Rightarrow> Some (sc_id c, sc_est c)) cs))"

definition vector_arm_segment :: "'d build_env \<Rightarrow> query_node \<Rightarrow> segment_state \<Rightarrow> f32 list \<Rightarrow> nat \<Rightarrow> nat \<Rightarrow> tag_filter \<Rightarrow> updated_window \<Rightarrow>
    bool \<Rightarrow> (fold_error + (memory_id \<times> f32) list) io" where
  "vector_arm_segment env n s q depth nprobe tags updated exact_rerank =
     (let A = be_arith env in
      if cn_vectors (ss_centroids s) = [] then Ret (Inr [])
      else io_try (fpanic (select_clusters env s q nprobe tags updated)) (\<lambda>probed.
        io_try (fetch_vector_blocks env s probed) (\<lambda>blocks.
        io_try (fcore (scan_blocks env n (ss_seq_hi s) q tags updated blocks)) (\<lambda>cands.
        if \<not> exact_rerank then Ret (Inr (take depth (rank_scored A (map (\<lambda>c. (sc_id c, sc_est c)) cands))))
        else let cs = contenders A depth cands in
          io_try (if table_is_empty (ss_rerank s) \<or> cs = [] then Ret (Inr Map.empty)
                  else fidx (rerank_lookup_batch (ss_rerank s) (map sc_id cs))) (\<lambda>exact.
          fpanic (rescore A (cosine_opt A q) exact cs))))))"

text \<open>The tail's own scores.\<close>
definition tail_scored :: "'d build_env \<Rightarrow> query_node \<Rightarrow> fact_type \<Rightarrow> f32 list \<Rightarrow> tag_filter \<Rightarrow> updated_window \<Rightarrow> (memory_id \<times> f32) list option" where
  "tail_scored env n f q tags updated = option_all (map (\<lambda>m. map_option (Pair (sm_id m)) (cosine_opt (be_arith env) q (sm_vector m)))
     (filter (\<lambda>m. tag_filter_matches tags (sm_tags m) \<and> groups_match tags (sm_tags m)
        \<and> uw_admits updated (updated_at (sm_timestamps m)) \<and> \<not> hidden n m) (ft_tail_items f)))"

text \<open>\<open>merged.entry(id).or_insert(score)\<close> for each source in order.\<close>
definition merge_scored :: "(memory_id \<times> 'f) list \<Rightarrow> (memory_id, 'f) btree \<Rightarrow> (memory_id, 'f) btree" where
  "merge_scored hits into = fold (\<lambda>(i, x) m. if map_of m i = None then bt_insert i x m else m) hits into"

definition dense_arm :: "'d build_env \<Rightarrow> query_node \<Rightarrow> fact_type \<Rightarrow> f32 list \<Rightarrow> tag_filter \<Rightarrow> arm_depths \<Rightarrow> updated_window \<Rightarrow>
    (fold_error + (memory_id \<times> f32) list) io" where
  "dense_arm env n f q tags depths updated =
     io_try (fpanic (tail_scored env n f q tags updated)) (\<lambda>tail.
     io_try (io_try_fold (\<lambda>s merged. io_try (vector_arm_segment env n s q (ad_vector depths) (ad_nprobe depths) tags updated
         (ad_exact_rerank depths)) (\<lambda>scored. Ret (Inr (merge_scored scored merged)))) (ft_segments f) (merge_scored tail [])) (\<lambda>merged.
     Ret (Inr (take (ad_vector depths) (rank_scored (be_arith env) merged)))))"

text \<open>The winners, the tail's from memory and the others from the segments.\<close>
definition dense_hits :: "'d build_env \<Rightarrow> query_node \<Rightarrow> fact_type \<Rightarrow> (memory_id \<times> f32) list \<Rightarrow>
    (fold_error + (memory_id \<rightharpoonup> stored_memory)) io" where
  "dense_hits env n f hits = materialize_into env n f (map fst hits)
     (fold (\<lambda>m into. if sm_id m \<in> fst ` set hits then into(sm_id m \<mapsto> m) else into) (ft_tail_items f) Map.empty)"

subsection \<open>Full-text arm\<close>

definition fts_merge :: "('f, 'd) arith \<Rightarrow> nat \<Rightarrow> (memory_id \<times> 'f) list \<Rightarrow> (memory_id \<times> 'f) list" where
  "fts_merge A depth hits = take depth (dedup_by_key fst (rank_scored A hits))"

definition fts_arm :: "'d build_env \<Rightarrow> query_node \<Rightarrow> fact_type \<Rightarrow> string \<Rightarrow> nat \<Rightarrow> tag_filter \<Rightarrow> (memory_id \<times> f32) list option" where
  "fts_arm env n f query depth tags =
     (let live = filter (\<lambda>(i, _). i \<notin> set (qn_tombstones n)) in
      map_option (\<lambda>tail. fts_merge (be_arith env) depth (tail
          @ concat (map (\<lambda>s. live (be_fts_search env (ss_gen_fts s) query depth tags)) (ft_segments f))))
        (if ft_tail_items f = [] then Some []
         else map_option (\<lambda>split. live (be_fts_search env split query depth tags))
           (be_fts env (map (\<lambda>m. (sm_id m, fts_text m, sm_tags m)) (ft_tail_items f)))))"

subsection \<open>Graph arm\<close>

text \<open>\<open>incoming.entry(id).or_default().extend(edges)\<close> over the segments.\<close>
definition extend_map :: "('k \<rightharpoonup> 'v list) list \<Rightarrow> ('k \<rightharpoonup> 'v list)" where
  "extend_map ms = (\<lambda>k. if list_ex (\<lambda>m. m k \<noteq> None) ms
     then Some (concat (map (\<lambda>m. case m k of Some vs \<Rightarrow> vs | None \<Rightarrow> []) ms)) else None)"

definition lazy_graph_source :: "query_node \<Rightarrow> (entity_id \<rightharpoonup> memory_id list) \<Rightarrow> (memory_id \<rightharpoonup> in_edge list) \<Rightarrow>
    (memory_id \<rightharpoonup> memory_id list) \<Rightarrow> graph_source" where
  "lazy_graph_source n entity_index incoming temporal =
     (let live = filter (\<lambda>i. i \<notin> set (qn_tombstones n)); opt = (\<lambda>r. case r of Some xs \<Rightarrow> xs | None \<Rightarrow> []) in
      \<lparr>gs_entity_candidates = (\<lambda>e _ cap. take cap (live (opt (entity_index e)))),
       gs_exists = (\<lambda>i. i \<notin> set (qn_tombstones n)),
       gs_incoming = (\<lambda>i. case incoming i of Some es \<Rightarrow> es | None \<Rightarrow> []),
       gs_temporal_candidates = (\<lambda>i cap. take cap (live (opt (temporal i))))\<rparr>)"

definition seed_window :: "stored_memory \<Rightarrow> (memory_id \<times> millis \<times> millis) option" where
  "seed_window m = map_option (\<lambda>ts. (sm_id m, i64_wrap (ts - TEMPORAL_SPREAD_WINDOW_MS), i64_wrap (ts + TEMPORAL_SPREAD_WINDOW_MS)))
     (effective_ts (sm_timestamps m))"

definition in_window :: "millis \<Rightarrow> millis \<Rightarrow> stored_memory \<Rightarrow> bool" where
  "in_window lo hi m = (case effective_ts (sm_timestamps m) of Some ts \<Rightarrow> lo \<le> ts \<and> ts \<le> hi | None \<Rightarrow> False)"

definition time_window_ids :: "fact_type \<Rightarrow> millis \<Rightarrow> millis \<Rightarrow> nat \<Rightarrow> (fold_error + memory_id list) io" where
  "time_window_ids f lo hi cap = io_try (io_try_map (\<lambda>s. fidx (time_in_window (ss_time s) lo hi cap))
     (filter (\<lambda>s. \<not> table_is_empty (ss_time s)) (ft_segments f))) (\<lambda>runs.
     Ret (Inr (concat runs @ map sm_id (filter (in_window lo hi) (ft_tail_items f)))))"

definition seed_neighbours :: "fact_type \<Rightarrow> memory_id \<times> millis \<times> millis \<Rightarrow> (fold_error + memory_id \<times> memory_id list) io" where
  "seed_neighbours f w = (case w of (sid, lo, hi) \<Rightarrow>
     io_try (time_window_ids f lo hi (gp_per_temporal_cap graph_params_default)) (\<lambda>ids.
       Ret (Inr (sid, sort_dedup (filter (\<lambda>i. i \<noteq> sid) ids)))))"

definition graph_arm :: "'d build_env \<Rightarrow> query_node \<Rightarrow> fact_type \<Rightarrow> memory_id list \<Rightarrow> (memory_id \<rightharpoonup> stored_memory) \<Rightarrow> nat \<Rightarrow> tag_filter \<Rightarrow>
    (fold_error + (memory_id \<times> f32) list) io" where
  "graph_arm env n f vector_ranking by_id depth tags =
     (let seeds = List.map_filter by_id (take 20 vector_ranking) in
      if seeds = [] then Ret (Inr [])
      else let seed_ids = map sm_id seeds; ents = remdups (concat (map sm_entity_ids seeds)) in
        io_try (io_try_map (\<lambda>s. io_try (fidx (radj_incoming_batch (ss_radj s) seed_ids)) (\<lambda>inc.
            io_try (fidx (entity_candidates_batch (ss_entity s) ents (gp_per_entity_cap graph_params_default))) (\<lambda>es.
              Ret (Inr (inc, es))))) (ft_segments f)) (\<lambda>per_segment.
        io_try (io_try_map (seed_neighbours f) (List.map_filter seed_window seeds)) (\<lambda>temporal.
        let source = lazy_graph_source n (extend_map (map snd per_segment)) (extend_map (map fst per_segment)) (map_of temporal);
            ranked = graph_retrieve (be_arith env) (be_edges env) source seeds (graph_params_default\<lparr>gp_budget := depth\<rparr>)
        in if admits_all tags then Ret (Inr ranked)
           else let ranked_ids = filter (\<lambda>i. by_id i = None) (map fst ranked) in
             io_try (io_try_fold (\<lambda>s by_id. io_try (fidx (payload_lookup_batch (be_read_payload env) (ss_payload s) ranked_ids)) (\<lambda>rows.
                 Ret (Inr (fold (\<lambda>i by_id. case rows i of Some m \<Rightarrow> or_insert i m by_id | None \<Rightarrow> by_id) ranked_ids by_id))))
               (ft_segments f) by_id) (\<lambda>by_id.
             Ret (Inr (filter (\<lambda>(i, _). case by_id i of
               Some m \<Rightarrow> tag_filter_matches tags (sm_tags m) \<and> groups_match tags (sm_tags m) | None \<Rightarrow> False) ranked))))))"

subsection \<open>Temporal arm\<close>

definition prox_of :: "'d build_env \<Rightarrow> millis \<Rightarrow> millis \<Rightarrow> rat \<Rightarrow> stored_memory \<Rightarrow> f32" where
  "prox_of env lo hi undated m = (let t = sm_timestamps m; A = be_arith env in
     case best_date (occurred_start t) (occurred_end t) (mentioned_at t) of
       Some d \<Rightarrow> temporal_proximity (be_time env) A d lo hi | None \<Rightarrow> lit A undated)"

definition temporal_pool :: "'d build_env \<Rightarrow> f32 list \<Rightarrow> tag_filter \<Rightarrow> (memory_id \<rightharpoonup> stored_memory) \<Rightarrow> memory_id list \<Rightarrow> f32 candidate list option" where
  "temporal_pool env query tags materialized window_ids =
     map_option (\<lambda>pool. take TEMPORAL_POOL_SIZE (sort_by (cand_le (be_arith env)) pool))
       (option_all (map (\<lambda>(i, m). map_option (\<lambda>x. \<lparr>ca_id = i, ca_similarity = x, ca_effective_ts = effective_ts (sm_timestamps m)\<rparr>)
            (cosine_opt (be_arith env) query (sm_vector m)))
          (filter (\<lambda>(_, m). tag_filter_matches tags (sm_tags m) \<and> groups_match tags (sm_tags m))
            (List.map_filter (\<lambda>i. map_option (Pair i) (materialized i)) window_ids))))"

definition causal_boost_of :: "('f, 'd) arith \<Rightarrow> link_type \<Rightarrow> 'f" where
  "causal_boost_of A t = causal_boost A (t = Causes \<or> t = CausedBy) (t = Enables \<or> t = Prevents)"

definition edge_boost :: "('f, 'd) arith \<Rightarrow> edge_kind \<Rightarrow> 'f" where
  "edge_boost A k = (case k of SemanticEdge \<Rightarrow> lit A 1 | CausalEdge t \<Rightarrow> causal_boost_of A t)"

text \<open>The links of a seed: neighbour, weight, boost.\<close>
definition seed_links :: "'d build_env \<Rightarrow> (memory_id \<rightharpoonup> stored_memory) \<Rightarrow> (memory_id \<rightharpoonup> in_edge list) \<Rightarrow> memory_id \<Rightarrow> (memory_id \<times> f32 \<times> f32) list" where
  "seed_links env materialized incoming seed = (let A = be_arith env; half = half_to (be_edges env) in
     (case materialized seed of None \<Rightarrow> [] | Some m \<Rightarrow>
        map (\<lambda>e. (se_target e, half (se_weight e), lit A 1)) (sm_semantic_out m)
      @ map (\<lambda>e. (ce_target e, half (ce_weight e), causal_boost_of A (ce_link_type e))) (sm_causal_out m))
     @ map (\<lambda>e. (ie_source e, single_to (be_edges env) (ie_weight e), edge_boost A (ie_kind e)))
         (case incoming seed of Some es \<Rightarrow> es | None \<Rightarrow> []))"

text \<open>One link: an id already scored is skipped.\<close>
definition spread_link :: "('f, 'd) arith \<Rightarrow> (memory_id \<Rightarrow> 'f option) \<Rightarrow> memory_id \<times> 'f \<times> 'f \<Rightarrow> (memory_id, 'f) btree \<Rightarrow> (memory_id, 'f) btree" where
  "spread_link A prox link scores = (case link of (nid, weight, boost) \<Rightarrow>
     if map_of scores nid \<noteq> None then scores
     else case prox nid of None \<Rightarrow> scores
       | Some p \<Rightarrow> bt_insert nid (fmax A (lit A 0) (propagate A p (lit A 1) weight boost)) scores)"

definition temporal_arm :: "'d build_env \<Rightarrow> query_node \<Rightarrow> fact_type \<Rightarrow> f32 list \<Rightarrow> millis \<Rightarrow> millis \<Rightarrow> tag_filter \<Rightarrow>
    (memory_id \<rightharpoonup> stored_memory) \<Rightarrow> (fold_error + (memory_id, f32) btree \<times> (memory_id \<rightharpoonup> stored_memory)) io" where
  "temporal_arm env n f query lo hi tags materialized =
     (let A = be_arith env; live = (\<lambda>i. i \<notin> set (qn_tombstones n)) in
      io_try (time_window_ids f lo hi TEMPORAL_WINDOW_CAP) (\<lambda>ids.
      let window_ids = filter live ids in
      if window_ids = [] then Ret (Inr ([], materialized))
      else io_try (materialize_into env n f window_ids materialized) (\<lambda>materialized.
        io_try (fpanic (temporal_pool env query tags materialized window_ids)) (\<lambda>pool.
        let entry_points = select_with_temporal_coverage (be_time env) A pool lo hi TEMPORAL_ENTRY_POINTS TEMPORAL_COVERAGE_BUCKETS;
            seeds = filter (\<lambda>i. materialized i \<noteq> None) (map ca_id entry_points);
            scores = fold (\<lambda>i. bt_insert i (prox_of env lo hi NO_DATE_ENTRY (the (materialized i)))) seeds []
        in if seeds = [] then Ret (Inr (scores, materialized))
           else io_try (io_try_map (\<lambda>s. fidx (radj_incoming_batch (ss_radj s) seeds)) (ft_segments f)) (\<lambda>incs.
             let links = concat (map (seed_links env materialized (extend_map incs)) seeds) in
             io_try (materialize_into env n f (map fst links) materialized) (\<lambda>materialized.
             let prox = (\<lambda>i. case materialized i of
                   Some m \<Rightarrow> if live i \<and> tag_filter_matches tags (sm_tags m) \<and> groups_match tags (sm_tags m)
                     then Some (prox_of env lo hi NO_DATE_NEIGHBOR m) else None
                 | None \<Rightarrow> None)
             in Ret (Inr (fold (spread_link A prox) links scores, materialized))))))))"

subsection \<open>The query\<close>

record arms =
  ar_vector :: "(memory_id \<times> f32) list"
  ar_fts :: "(memory_id \<times> f32) list"
  ar_graph :: "(memory_id \<times> f32) list"
  ar_materialized :: "memory_id \<rightharpoonup> stored_memory"

definition tail_probed :: "tag_filter \<Rightarrow> fact_type \<Rightarrow> (memory_id \<rightharpoonup> stored_memory)" where
  "tail_probed tags f = map_of (map (\<lambda>m. (sm_id m, m))
     (filter (\<lambda>m. tag_filter_matches tags (sm_tags m) \<and> groups_match tags (sm_tags m)) (ft_tail_items f)))"

definition run_arms :: "'d build_env \<Rightarrow> query_node \<Rightarrow> fact_type \<Rightarrow> f32 list option \<Rightarrow> string option \<Rightarrow> tag_filter \<Rightarrow> arm_depths \<Rightarrow>
    updated_window \<Rightarrow> (fold_error + arms) io" where
  "run_arms env n f vector query_text tags depths updated =
     (let A = be_arith env in
      io_try (case vector of
         Some q \<Rightarrow> if 0 < ad_vector depths
           then io_try (dense_arm env n f q tags depths updated) (\<lambda>scored.
                io_try (dense_hits env n f scored) (\<lambda>probed. Ret (Inr (scored, probed))))
           else Ret (Inr ([], tail_probed tags f))
       | None \<Rightarrow> Ret (Inr ([], tail_probed tags f)))
       (\<lambda>(vector_scored, probed).
      io_try (case query_text of
         Some t \<Rightarrow> if t \<noteq> [] \<and> 0 < ad_text depths then fpanic (fts_arm env n f t (ad_text depths) tags) else Ret (Inr [])
       | None \<Rightarrow> Ret (Inr [])) (\<lambda>fts_scored.
      io_try (if 0 < ad_graph depths \<and> vector_scored \<noteq> [] then
          (let seed_ids = map fst (filter (\<lambda>(_, x). fle A (ad_graph_seed_min depths) x) vector_scored) in
           if seed_ids = [] then Ret (Inr []) else graph_arm env n f seed_ids probed (ad_graph depths) tags)
        else Ret (Inr [])) (\<lambda>graph_scored.
      Ret (Inr \<lparr>ar_vector = vector_scored, ar_fts = fts_scored, ar_graph = graph_scored, ar_materialized = probed\<rparr>)))))"

text \<open>The arms' candidates by id; a later entry of the same arm for the same id replaces the earlier one.\<close>
definition fill :: "(memory_id \<times> 'f) list \<Rightarrow> ('f arm_score \<Rightarrow> 'f raw_hit \<Rightarrow> 'f raw_hit) \<Rightarrow> (memory_id, 'f raw_hit) btree \<Rightarrow> (memory_id, 'f raw_hit) btree" where
  "fill hits put by_id = fold (\<lambda>(rank, i, x) by_id.
     bt_insert i (put \<lparr>as_rank = rank, as_score = x\<rparr> (case map_of by_id i of Some h \<Rightarrow> h | None \<Rightarrow> raw_hit_new i)) by_id) (enumerate 0 hits) by_id"

definition fill_arms :: "arms \<Rightarrow> (memory_id \<times> f32) list \<Rightarrow> (memory_id, f32 raw_hit) btree" where
  "fill_arms a temporal = fill temporal (\<lambda>s h. h\<lparr>rh_temporal := Some s\<rparr>) (fill (ar_graph a) (\<lambda>s h. h\<lparr>rh_graph := Some s\<rparr>)
     (fill (ar_fts a) (\<lambda>s h. h\<lparr>rh_text := Some s\<rparr>) (fill (ar_vector a) (\<lambda>s h. h\<lparr>rh_dense := Some s\<rparr>) [])))"

text \<open>Rows for the hits not yet in hand.\<close>
definition hydrate_missing :: "'d build_env \<Rightarrow> fact_type \<Rightarrow> memory_id list \<Rightarrow> (memory_id \<rightharpoonup> stored_memory) \<Rightarrow>
    (fold_error + (memory_id \<rightharpoonup> stored_memory)) io" where
  "hydrate_missing env f missing materialized = (if missing = [] then Ret (Inr materialized)
     else io_try_fold (\<lambda>s into. io_try (fidx (payload_lookup_batch (be_read_payload env) (ss_payload s) missing)) (\<lambda>rows.
       Ret (Inr (fold (\<lambda>i into. case rows i of Some m \<Rightarrow> or_insert i m into | None \<Rightarrow> into) missing into)))) (ft_segments f) materialized)"

definition attach :: "tag_filter \<Rightarrow> (memory_id \<rightharpoonup> stored_memory) \<Rightarrow> (memory_id, f32 raw_hit) btree \<Rightarrow> f32 raw_hit list" where
  "attach tags materialized by_id = filter (\<lambda>h. case rh_memory h of
       None \<Rightarrow> False | Some m \<Rightarrow> tf_groups tags = [] \<or> groups_match tags (sm_tags m))
     (map (\<lambda>(i, h). h\<lparr>rh_memory := materialized i\<rparr>) by_id)"

text \<open>The check of the query vector's dimension, before any arm runs.\<close>
definition dim_mismatch :: "f32 list option \<Rightarrow> fact_type \<Rightarrow> core_error option" where
  "dim_mismatch vector f = (case (vector, expected_dim f) of
     (Some q, Some d) \<Rightarrow> if q \<noteq> [] \<and> length q \<noteq> d then Some (DimMismatch d (length q)) else None
   | _ \<Rightarrow> None)"

definition query_raw_metered :: "'d build_env \<Rightarrow> query_node \<Rightarrow> u8 \<Rightarrow> f32 list option \<Rightarrow> string option \<Rightarrow> tag_filter \<Rightarrow> arm_depths \<Rightarrow>
    (millis \<times> millis) option \<Rightarrow> updated_window \<Rightarrow> (fold_error + f32 raw_hit list) io" where
  "query_raw_metered env n t vector query_text tags depths temporal_window updated =
     (case map_of (qn_per_type n) t of None \<Rightarrow> Ret (Inr [])
      | Some f \<Rightarrow> (case dim_mismatch vector f of Some e \<Rightarrow> Ret (Inl (Failed (ICore e)))
        | None \<Rightarrow> io_try (run_arms env n f vector query_text tags depths updated) (\<lambda>a.
          io_try (case (vector, temporal_window) of
              (Some q, Some (lo, hi)) \<Rightarrow> io_try (temporal_arm env n f q lo hi tags (ar_materialized a)) (\<lambda>(scores, materialized).
                 Ret (Inr (rank_scored (be_arith env) scores, materialized)))
            | _ \<Rightarrow> Ret (Inr ([], ar_materialized a))) (\<lambda>(temporal, materialized).
          let by_id = filter (\<lambda>(i, _). i \<notin> set (qn_tombstones n)) (fill_arms a temporal) in
          io_try (hydrate_missing env f (filter (\<lambda>i. materialized i = None) (map fst by_id)) materialized) (\<lambda>materialized.
          Ret (Inr (attach tags materialized by_id)))))))"

definition node_query :: "'d build_env \<Rightarrow> f32 \<Rightarrow> query_node \<Rightarrow> u8 \<Rightarrow> f32 list option \<Rightarrow> string option \<Rightarrow> tag_filter \<Rightarrow> nat \<Rightarrow> f32 query_config \<Rightarrow>
    (fold_error + f32 fused_hit list) io" where
  "node_query env eps n t vector query_text tags top_k config = (let A = be_arith env in
     io_try (query_raw_metered env n t vector query_text tags
       \<lparr>ad_vector = qc_arm_depth config, ad_text = qc_arm_depth config,
        ad_graph = (if flt A (lit A 0) (qc_graph_weight config) then qc_arm_depth config else 0),
        ad_nprobe = qc_nprobe config, ad_graph_seed_min = qc_graph_seed_min_similarity config, ad_exact_rerank = True\<rparr>
       None \<lparr>uw_from = None, uw_to = None\<rparr>) (\<lambda>raw. Ret (Inr (fuse_raw A eps raw top_k config))))"

subsection \<open>Links derived for a write\<close>

definition SEMANTIC_LINK_THRESHOLD :: rat where "SEMANTIC_LINK_THRESHOLD = 7 / 10"
definition DEFAULT_GRAPH_SEED_MIN_SIMILARITY :: rat where "DEFAULT_GRAPH_SEED_MIN_SIMILARITY = 3 / 10"

text \<open>The committed neighbours of a new memory.\<close>
definition query_neighbours :: "'d build_env \<Rightarrow> query_node \<Rightarrow> memory \<Rightarrow> (fold_error + (memory_id \<times> f32) list) io" where
  "query_neighbours env n m = (let A = be_arith env in
     if m_vector m = [] then Ret (Inr [])
     else io_try (query_raw_metered env n (m_memory_type m) (Some (m_vector m)) None (tag_filter_new [] Any)
         \<lparr>ad_vector = MAX_SEMANTIC_OUT + 4, ad_text = 0, ad_graph = 0, ad_nprobe = 8,
          ad_graph_seed_min = lit A DEFAULT_GRAPH_SEED_MIN_SIMILARITY, ad_exact_rerank = False\<rparr>
         None \<lparr>uw_from = None, uw_to = None\<rparr>) (\<lambda>raw.
       Ret (Inr (List.map_filter (\<lambda>h. case rh_dense h of
           Some d \<Rightarrow> if rh_id h \<noteq> m_id m \<and> fle A (lit A SEMANTIC_LINK_THRESHOLD) (as_score d) then Some (rh_id h, as_score d) else None
         | None \<Rightarrow> None) raw))))"

text \<open>The neighbours in the same batch; comparing vectors of different lengths panics.\<close>
definition batch_neighbours :: "('f, 'd) arith \<Rightarrow> (memory_id \<times> u8 \<times> 'f list) list \<Rightarrow> nat \<Rightarrow> (memory_id \<times> 'f) list option" where
  "batch_neighbours A ms i = (case ms ! i of (_, ty, v) \<Rightarrow>
     map_option (filter (\<lambda>(_, x). fle A (lit A SEMANTIC_LINK_THRESHOLD) x))
       (option_all (map (\<lambda>j. case ms ! j of (jid, _, w) \<Rightarrow> map_option (Pair jid) (cosine_prenorm_both A v (norm A v) w (norm A w)))
         (filter (\<lambda>j. j \<noteq> i \<and> fst (snd (ms ! j)) = ty \<and> snd (snd (ms ! j)) \<noteq> []) [0..<length ms]))))"

definition derive_one :: "'d build_env \<Rightarrow> memory list \<Rightarrow> nat \<times> (memory_id \<times> f32) list \<Rightarrow> memory option" where
  "derive_one env ms p = (case p of (i, neigh) \<Rightarrow> let m = ms ! i in
     if m_vector m = [] then Some m
     else map_option (\<lambda>batch. m\<lparr>m_semantic_out := map (\<lambda>(j, x). \<lparr>se_target = j, se_weight = be_to_half env x\<rparr>)
         (take MAX_SEMANTIC_OUT (rank_scored (be_arith env) (neigh @ batch)))\<rparr>)
       (batch_neighbours (be_arith env) (map (\<lambda>m. (m_id m, m_memory_type m, m_vector m)) ms) i))"

definition derive_links_for_write :: "'d build_env \<Rightarrow> query_node \<Rightarrow> memory list \<Rightarrow> (fold_error + memory list) io" where
  "derive_links_for_write env n ms = io_try (io_try_map (query_neighbours env n) ms) (\<lambda>neighs.
     fpanic (option_all (map (derive_one env ms) (enumerate 0 neighs))))"

end
