(* ===== verification/Indexer.thy ===== *)
theory Indexer
  imports Query_Arms
begin

text \<open>
  The fold handlers (\<open>mlake-index/src/indexer.rs\<close>): building one fact type's files, the full rebuild, the flush, the minor
  compaction, and the choice between them, as programs over the object store.  They compute what \<open>Segments\<close> describes on
  decoded data.  The random segment id is an argument; phase timings are left out.
\<close>

section \<open>Definitions\<close>

record index_options =
  io_seed :: u64
  io_vector_codec :: vector_codec
  io_indexed_metadata_keys :: "string list"

definition index_options_default :: index_options where
  "index_options_default = \<lparr>io_seed = 42, io_vector_codec = Binary, io_indexed_metadata_keys = []\<rparr>"

record index_outcome =
  out_generation :: nat
  out_doc_count :: nat
  out_published :: bool

definition DEFAULT_STREAMING_THRESHOLD_DOCS :: nat where "DEFAULT_STREAMING_THRESHOLD_DOCS = 4000000"
definition NOMINAL_DOC_BYTES :: nat where "NOMINAL_DOC_BYTES = 2048"

subsection \<open>Clustering\<close>

text \<open>One oversized cluster: a 2-means over its members replaces its centroid and appends another.\<close>
definition split_cluster :: "(f32, 'd) arith \<Rightarrow> stored_memory list \<Rightarrow> u64 \<Rightarrow> nat \<Rightarrow> nat list \<Rightarrow> nat \<Rightarrow>
    f32 centroids \<times> nat list \<Rightarrow> (f32 centroids \<times> nat list) option" where
  "split_cluster A items seed threshold counts i st = (case st of (centroids, assignments) \<Rightarrow>
     if counts ! i \<le> threshold \<or> counts ! i < 2 then Some st
     else let members = filter (\<lambda>j. assignments ! j = i) [0..<length items] in
       case train A (map (\<lambda>j. sm_vector (items ! j)) members) 2 10 seed of None \<Rightarrow> None
       | Some sub \<Rightarrow> if length sub < 2 then Some st
           else let (new_idx, c) = centroids_push (sub ! 1) centroids;
                    c = c\<lparr>cn_vectors := (cn_vectors c)[i := sub ! 0]\<rparr>
             in Some (c, fold (\<lambda>j a. a[j := if flt A (sq_dist A (sm_vector (items ! j)) (sub ! 1)) (sq_dist A (sm_vector (items ! j)) (sub ! 0))
                  then new_idx else i]) members assignments))"

definition local_split :: "'d build_env \<Rightarrow> stored_memory list \<Rightarrow> u64 \<Rightarrow> f32 centroids \<times> nat list \<Rightarrow> (f32 centroids \<times> nat list) option" where
  "local_split env items seed st = (let A = be_arith env; k = length (cn_vectors (fst st)) in
     if k = 0 \<or> items = [] then Some st
     else let threshold = be_ceil env (fmul A (lit A 8) (fdiv A (of_usize A (length items)) (of_usize A k)))
       in try_fold (split_cluster A items seed threshold (tally k (snd st))) [0..<k] st)"

text \<open>The clusters of a type: trained centroids, nearest assignment, split, and the members by cluster.\<close>
definition cluster_items :: "'d build_env \<Rightarrow> u64 \<Rightarrow> stored_memory list \<Rightarrow> (f32 centroids \<times> stored_memory list list) option" where
  "cluster_items env seed items = (let A = be_arith env in
     case train_centroids A (map sm_vector items) seed of None \<Rightarrow> None
     | Some centroids \<Rightarrow>
         let assignments = (if cn_vectors centroids = [] then replicate (length items) 0
               else map (\<lambda>m. centroids_assign A centroids (sm_vector m)) items)
         in case local_split env items seed (centroids, assignments) of None \<Rightarrow> None
            | Some (centroids, assignments) \<Rightarrow> Some (centroids,
                foldl (\<lambda>cs (m, c). cs[c := cs ! c @ [m]]) (replicate (max (length (cn_vectors centroids)) 1) []) (zip items assignments)))"

subsection \<open>Building one fact type\<close>

definition member_update_time :: "stored_memory \<Rightarrow> millis" where
  "member_update_time m = (case updated_at (sm_timestamps m) of Some t \<Rightarrow> t | None \<Rightarrow> UPDATED_UNKNOWN)"

text \<open>The vector block of a cluster; a member without an embedding is padded with zeros.\<close>
definition cluster_block :: "'d build_env \<Rightarrow> vector_codec \<Rightarrow> nat \<Rightarrow> stored_memory list \<Rightarrow> core_error + vector_block" where
  "cluster_block env codec vector_dim ms = encode_with_columns (be_arith env) codec vector_dim (map sm_id ms)
     (map (\<lambda>m. if sm_vector m = [] then replicate vector_dim (lit (be_arith env) 0) else sm_vector m) ms)
     (Some (map sm_tags ms)) (map member_update_time ms)"

definition cluster_payload :: "nat \<Rightarrow> stored_memory list \<Rightarrow> cluster_file" where
  "cluster_payload i ms = \<lparr>cf_centroid_id = of_nat i, cf_items = map strip_vector ms\<rparr>"

text \<open>All blocks are encoded before the first write.\<close>
fun encode_blocks :: "'d build_env \<Rightarrow> vector_codec \<Rightarrow> nat \<Rightarrow> stored_memory list list \<Rightarrow> core_error + bytes list" where
  "encode_blocks env codec vector_dim [] = Inr []"
| "encode_blocks env codec vector_dim (ms # rest) = res_bind (cluster_block env codec vector_dim ms) (\<lambda>b.
     res_bind (encode_blocks env codec vector_dim rest) (\<lambda>bs. Inr (vb_to_bytes b # bs)))"

definition write_pair :: "'d build_env \<Rightarrow> string \<Rightarrow> nat \<times> stored_memory list \<times> bytes \<Rightarrow> (fold_error + string \<times> string) io" where
  "write_pair env p w = (case w of (i, ms, b) \<Rightarrow>
     io_try (write_cluster_file env p i (cluster_payload i ms)) (\<lambda>c.
     io_try (write_vector_block p i b) (\<lambda>v. Ret (Inr (c, v)))))"

definition pk_entries :: "stored_memory list list \<Rightarrow> (memory_id \<times> u32) list" where
  "pk_entries clusters = concat (map (\<lambda>(ci, ms). map (\<lambda>m. (sm_id m, of_nat ci)) ms) (enumerate 0 clusters))"

definition radj_pairs :: "'d build_env \<Rightarrow> stored_memory list \<Rightarrow> (memory_id \<times> in_edge) list" where
  "radj_pairs env items = concat (map (\<lambda>m.
       map (\<lambda>e. (se_target e, \<lparr>ie_source = sm_id m, ie_kind = SemanticEdge, ie_weight = half_to (be_edges env) (se_weight e)\<rparr>)) (sm_semantic_out m)
     @ map (\<lambda>e. (ce_target e, \<lparr>ie_source = sm_id m, ie_kind = CausalEdge (ce_link_type e), ie_weight = half_to (be_edges env) (ce_weight e)\<rparr>))
         (sm_causal_out m)) items)"

definition entity_pairs :: "stored_memory list \<Rightarrow> (entity_id \<times> memory_id) list" where
  "entity_pairs items = concat (map (\<lambda>m. map (\<lambda>e. (e, sm_id m)) (sm_entity_ids m)) items)"

definition time_pairs :: "stored_memory list \<Rightarrow> (millis \<times> memory_id) list" where
  "time_pairs items = List.map_filter (\<lambda>m. map_option (\<lambda>ts. (ts, sm_id m)) (effective_ts (sm_timestamps m))) items"

definition created_pairs :: "stored_memory list \<Rightarrow> (millis \<times> memory_id) list" where
  "created_pairs items = List.map_filter (\<lambda>m. map_option (\<lambda>ts. (ts, sm_id m)) (updated_at (sm_timestamps m))) items"

definition build_tables :: "'d build_env \<Rightarrow> stored_memory list \<Rightarrow> stored_memory list list \<Rightarrow> table_pairs" where
  "build_tables env items clusters = \<lparr>tp_radj = radj_build (radj_pairs env items), tp_pk = pk_build (pk_entries clusters),
     tp_entity = entity_build (entity_pairs items), tp_time = time_build (time_pairs items), tp_created = time_build (created_pairs items),
     tp_payload = payload_build (be_write_payload env) items, tp_rerank = rerank_build items\<rparr>"

definition type_prefix :: "string \<Rightarrow> string \<Rightarrow> u8 \<Rightarrow> string" where
  "type_prefix ns seg_id t = segment_prefix ns seg_id @ ''/mt'' @ show_nat (unat t)"

definition build_memory_type_index :: "'d build_env \<Rightarrow> index_options \<Rightarrow> string \<Rightarrow> string \<Rightarrow> u8 \<times> stored_memory list \<Rightarrow>
    (fold_error + u8 \<times> fact_type_index) io" where
  "build_memory_type_index env opts ns seg_id ti = (case ti of (t, items) \<Rightarrow>
     io_try (fcore (uniform_dim (map sm_vector items))) (\<lambda>d.
     io_try (fpanic (cluster_items env (io_seed opts) items)) (\<lambda>(centroids, clusters).
     let p = type_prefix ns seg_id t in
     io_try (fcore (encode_blocks env (io_vector_codec opts) (case d of Some k \<Rightarrow> k | None \<Rightarrow> 0) clusters)) (\<lambda>blocks.
     io_try (io_try_map (write_pair env p) (enumerate 0 (zip clusters blocks))) (\<lambda>paths.
     io_try (Ret (case be_fts env (map (\<lambda>m. (sm_id m, fts_text m, sm_tags m)) items) of
         Some split \<Rightarrow> Inr split | None \<Rightarrow> Inl (Failed (ICore Encode)))) (\<lambda>fts_split.
     io_try (write_generation env p centroids (map fst paths) (map snd paths) fts_split (build_tables env items clusters)
         (map summarize_cluster clusters) (length items) (sum_list (map (\<lambda>m. length (sm_semantic_out m)) items))
         (sum_list (map (\<lambda>m. length (sm_causal_out m)) items)) (build_meta_counts items (io_indexed_metadata_keys opts))) (\<lambda>files.
     Ret (Inr (t, \<lparr>fi_files = files, fi_train_count = length items\<rparr>)))))))))"

definition build_indexes :: "'d build_env \<Rightarrow> index_options \<Rightarrow> string \<Rightarrow> string \<Rightarrow> stored_memory list \<Rightarrow>
    (fold_error + (u8, fact_type_index) btree) io" where
  "build_indexes env opts ns seg_id items = io_try_map (build_memory_type_index env opts ns seg_id) (group_by_type items)"

subsection \<open>Publishing\<close>

definition publish :: "'d build_env \<Rightarrow> string \<Rightarrow> etag option \<Rightarrow> manifest \<Rightarrow> nat \<Rightarrow> (fold_error + index_outcome) io" where
  "publish env ns etag nxt docs =
     (let outcome = (\<lambda>b. \<lparr>out_generation = mf_version nxt, out_doc_count = docs, out_published = b\<rparr>) in
      case etag of None \<Rightarrow> Ret (Inr (outcome False))
      | Some e \<Rightarrow> io_bind (swap_manifest (be_manifest env) ns e nxt) (\<lambda>r. Ret (case r of
          Inr _ \<Rightarrow> Inr (outcome True)
        | Inl e \<Rightarrow> if wal_is_conflict e then Inr (outcome False) else Inl (Failed (IWal e)))))"

definition advance :: "manifest \<Rightarrow> nat \<Rightarrow> segment list \<Rightarrow> segment list \<Rightarrow> manifest" where
  "advance m head prev segs = m\<lparr>mf_version := mf_version m + 1, mf_wal_index_cursor := head, mf_wal_head := head,
     mf_prev_wal_index_cursor := mf_wal_index_cursor m, mf_prev_segments := prev, mf_segments := segs\<rparr>"

subsection \<open>Reading the segments of a fold\<close>

definition read_types :: "'d build_env \<Rightarrow> nat \<Rightarrow> segment \<Rightarrow> (fold_error + (u8, stored_memory list list) btree) io" where
  "read_types env version seg = io_try_map (\<lambda>(t, fti). io_try (read_generation env (fi_files fti) version) (\<lambda>g.
     Ret (Inr (t, gn_clusters g)))) (sg_indexes seg)"

definition read_seg_data :: "'d build_env \<Rightarrow> nat \<Rightarrow> segment list \<Rightarrow> (fold_error + seg_data list) io" where
  "read_seg_data env version segs = io_try (read_overlays env segs) (\<lambda>overlays.
     io_try (io_try_map (read_types env version) segs) (\<lambda>types.
     Ret (Inr (map (\<lambda>((hi, tomb), ts). \<lparr>sd_seq_hi = hi, sd_types = ts, sd_tomb = tomb\<rparr>) (zip overlays types)))))"

subsection \<open>The full rebuild\<close>

definition index_ns :: "'d build_env \<Rightarrow> index_options \<Rightarrow> string \<Rightarrow> string \<Rightarrow> (fold_error + index_outcome) io" where
  "index_ns env opts ns seg_id =
     io_try (fwal (read_manifest (be_manifest env) ns)) (\<lambda>(manifest, etag).
     io_try (fwal (wal_head ns)) (\<lambda>head.
     let opts = opts\<lparr>io_indexed_metadata_keys := mf_indexed_metadata_keys manifest\<rparr> in
     io_try (read_seg_data env (mf_version manifest) (mf_segments manifest)) (\<lambda>segs.
     io_try (fwal (wal_scan (be_entry env) ns (mf_wal_index_cursor manifest) (Some head))) (\<lambda>scan.
     let items = index_items scan segs in
     io_try (build_indexes env opts ns seg_id items) (\<lambda>indexes.
     let segment = \<lparr>sg_id = seg_id, sg_level = 0, sg_seq_lo = 0, sg_seq_hi = head, sg_doc_count = length items,
           sg_indexes = indexes, sg_tombstones = []\<rparr>
     in publish env ns etag ((advance manifest head (mf_segments manifest) [segment])\<lparr>mf_tokenizer_config_hash := be_tokenizer_hash env\<rparr>)
          (length items))))))"

subsection \<open>The flush\<close>

text \<open>Patched items of older segments, read through the snapshot and patched again.\<close>
definition fetch_patched :: "'d build_env \<Rightarrow> query_node \<Rightarrow> tail_scan \<Rightarrow> memory_id list \<Rightarrow> (fold_error + stored_memory list) io" where
  "fetch_patched env node scan ids = (if ids = [] then Ret (Inr [])
     else io_try (get_many env node ids True) (\<lambda>ms. Ret (Inr (map (apply_patches scan) ms))))"

definition flush :: "'d build_env \<Rightarrow> index_options \<Rightarrow> string \<Rightarrow> string \<Rightarrow> (fold_error + index_outcome) io" where
  "flush env opts ns seg_id =
     io_try (fwal (read_manifest (be_manifest env) ns)) (\<lambda>(manifest, etag).
     io_try (fwal (wal_head ns)) (\<lambda>head.
     if head \<le> mf_wal_index_cursor manifest
     then Ret (Inr \<lparr>out_generation = mf_version manifest, out_doc_count = 0, out_published = False\<rparr>)
     else let cursor = mf_wal_index_cursor manifest in
     io_try (fwal (wal_scan (be_entry env) ns cursor (Some head))) (\<lambda>scan.
     io_try (node_open env ns) (\<lambda>node.
     io_try (fetch_patched env node scan (patch_only scan (\<lambda>i. i \<in> fst ` set (ts_upserts scan)))) (\<lambda>fetched.
     let items = map snd (slice_items scan) @ fetched in
     io_try (node_segment_ids node (map fst (ts_upserts scan) @ map sm_id fetched)) (\<lambda>reupserts.
     let tomb = \<lparr>st_superseded = sort_dedup (ts_tombstones scan @ reupserts), st_predicates = ts_predicate_tombstones scan\<rparr>;
         opts = opts\<lparr>io_indexed_metadata_keys := mf_indexed_metadata_keys manifest\<rparr> in
     io_try (build_indexes env opts ns seg_id items) (\<lambda>indexes.
     io_try (write_tombstones env (segment_prefix ns seg_id) tomb) (\<lambda>tomb_path.
     let segment = \<lparr>sg_id = seg_id, sg_level = 0, sg_seq_lo = cursor + 1, sg_seq_hi = head, sg_doc_count = length items,
           sg_indexes = indexes, sg_tombstones = tomb_path\<rparr>
     in publish env ns etag (advance manifest head [] (segment # mf_segments manifest)) (length items)))))))))"

subsection \<open>The minor compaction\<close>

definition minor_compact_prefix :: "segment list \<Rightarrow> nat option" where
  "minor_compact_prefix segments = minor_run_len (map sg_doc_count segments)"

definition minor_compact :: "'d build_env \<Rightarrow> index_options \<Rightarrow> string \<Rightarrow> string \<Rightarrow> nat \<Rightarrow> (fold_error + index_outcome) io" where
  "minor_compact env opts ns seg_id merge_len =
     io_try (fwal (read_manifest (be_manifest env) ns)) (\<lambda>(manifest, etag).
     io_try (fwal (wal_head ns)) (\<lambda>head.
     let cursor = mf_wal_index_cursor manifest in
     if merge_len < 2 \<or> length (mf_segments manifest) < merge_len then flush env opts ns seg_id
     else let opts = opts\<lparr>io_indexed_metadata_keys := mf_indexed_metadata_keys manifest\<rparr>;
              merged_segs = take merge_len (mf_segments manifest) in
     io_try (read_seg_data env (mf_version manifest) merged_segs) (\<lambda>segs.
     io_try (fwal (wal_scan (be_entry env) ns cursor (Some head))) (\<lambda>scan.
     let folded = minor_folded scan segs in
     io_try (node_open env ns) (\<lambda>node.
     io_try (fetch_patched env node scan (patch_only scan (\<lambda>i.
         i \<in> set (ts_tombstones scan) \<or> i \<in> fst ` set (ts_upserts scan) \<or> map_of folded i \<noteq> None))) (\<lambda>fetched.
     let by_id = insert_all (map (\<lambda>m. (sm_id m, m)) fetched) folded; items = map snd by_id in
     io_try (node_segment_ids node (ts_tombstones scan @ map fst (ts_upserts scan) @ map sm_id fetched)) (\<lambda>in_segments.
     let tomb = \<lparr>st_superseded = sort_dedup (concat (map (\<lambda>s. st_superseded (sd_tomb s)) segs) @ ts_tombstones scan @ in_segments),
           st_predicates = seg_predicates segs @ ts_predicate_tombstones scan\<rparr> in
     io_try (build_indexes env opts ns seg_id items) (\<lambda>indexes.
     io_try (write_tombstones env (segment_prefix ns seg_id) tomb) (\<lambda>tomb_path.
     let segment = \<lparr>sg_id = seg_id, sg_level = 0, sg_seq_lo = Min (set (map sg_seq_lo merged_segs)), sg_seq_hi = head,
           sg_doc_count = length items, sg_indexes = indexes, sg_tombstones = tomb_path\<rparr>
     in publish env ns etag (advance manifest head (mf_segments manifest) (segment # drop merge_len (mf_segments manifest)))
          (length items))))))))))"

subsection \<open>Choosing the fold\<close>

text \<open>The tail's object sizes, page by page; every page but the last starts past the one before and not past the head, so
  one page per sequence is enough.\<close>
fun tail_bytes_from :: "nat \<Rightarrow> string \<Rightarrow> nat \<Rightarrow> nat \<Rightarrow> nat \<Rightarrow> (wal_error + nat) io" where
  "tail_bytes_from 0 ns head start acc = Ret (Inr acc)"
| "tail_bytes_from (Suc fuel) ns head start acc = io_try (list_wal ns start 100000) (\<lambda>(objs, nxt).
     let acc = acc + sum_list (map wo_size_bytes (filter (\<lambda>ob. wo_seq ob \<le> head) objs)) in
     case nxt of Some s \<Rightarrow> if s \<le> head then tail_bytes_from fuel ns head s acc else Ret (Inr acc) | None \<Rightarrow> Ret (Inr acc))"

definition estimate_corpus_docs :: "'d build_env \<Rightarrow> string \<Rightarrow> (fold_error + nat) io" where
  "estimate_corpus_docs env ns =
     io_try (fwal (read_manifest (be_manifest env) ns)) (\<lambda>(manifest, _).
     io_try (fwal (wal_head ns)) (\<lambda>head.
     io_try (fwal (tail_bytes_from (Suc head) ns head (mf_wal_index_cursor manifest + 1) 0)) (\<lambda>n.
     Ret (Inr (mf_doc_count manifest + n div NOMINAL_DOC_BYTES)))))"

text \<open>The rebuild in external memory enters as \<open>streaming\<close>.\<close>
definition fold_ns :: "'d build_env \<Rightarrow> (fold_error + index_outcome) io \<Rightarrow> index_options \<Rightarrow> string \<Rightarrow> string \<Rightarrow> nat \<Rightarrow> (fold_error + index_outcome) io" where
  "fold_ns env streaming opts ns seg_id threshold =
     io_try (fwal (read_manifest (be_manifest env) ns)) (\<lambda>(manifest, _).
     if mf_segments manifest = [] \<or> COMPACT_FANOUT \<le> length (mf_segments manifest) then
       io_try (estimate_corpus_docs env ns) (\<lambda>corpus. if threshold \<le> corpus then streaming else index_ns env opts ns seg_id)
     else case minor_compact_prefix (mf_segments manifest) of
       Some k \<Rightarrow> minor_compact env opts ns seg_id k
     | None \<Rightarrow> flush env opts ns seg_id)"

end
