(* ===== verification/Gc.thy ===== *)
theory Gc
  imports Commit_Run SsTable
begin

text \<open>
  Garbage collection (\<open>mlake-index/src/gc.rs\<close>): the sweep of unreferenced segment files and folded WAL entries of a
  namespace, and the expiry of observability objects.  Durations are milliseconds within chrono's range.
\<close>

section \<open>Definitions\<close>

text \<open>\<open>haystack.contains(needle)\<close>.\<close>
fun contains :: "string \<Rightarrow> string \<Rightarrow> bool" where
  "contains [] needle = (needle = [])"
| "contains (c # cs) needle = (is_prefix needle (c # cs) \<or> contains cs needle)"

definition DEFAULT_MIN_AGE :: nat where "DEFAULT_MIN_AGE = 15 * 60 * 1000"

record gc_outcome =
  go_generation_files_deleted :: nat
  go_wal_entries_deleted :: nat

text \<open>The guards of the two loops, negated: the entries that are deleted.\<close>
definition seg_collectable :: "string \<Rightarrow> manifest \<Rightarrow> millis \<Rightarrow> path \<times> millis \<Rightarrow> bool" where
  "seg_collectable ns m cutoff e = (is_prefix (ns @ ''/'') (fst e) \<and> contains (fst e) ''/seg-''
     \<and> fst e \<notin> set (all_referenced_paths m) \<and> \<not> cutoff < snd e)"

definition wal_collectable :: "manifest \<Rightarrow> millis \<Rightarrow> path \<times> millis \<Rightarrow> bool" where
  "wal_collectable m cutoff e = (case parse_wal_seq (fst e) of
     None \<Rightarrow> False
   | Some seq \<Rightarrow> \<not> mf_prev_wal_index_cursor m < seq \<and> \<not> cutoff < snd e)"

text \<open>One loop over a listing: delete what the guard lets through, counting.\<close>
fun sweep :: "('x \<Rightarrow> bool) \<Rightarrow> ('x \<Rightarrow> path) \<Rightarrow> 'x list \<Rightarrow> nat \<Rightarrow> (store_error + nat) io" where
  "sweep c key [] n = Ret (Inr n)"
| "sweep c key (x # xs) n = (if c x then io_try (store_delete (key x)) (\<lambda>_. sweep c key xs (n + 1)) else sweep c key xs n)"

text \<open>Both loops, after the manifest was read and the cutoff fixed.\<close>
definition gc_sweeps :: "string \<Rightarrow> manifest \<Rightarrow> millis \<Rightarrow> (store_error + gc_outcome) io" where
  "gc_sweeps ns manifest cutoff =
     io_try (store_list_with_age ns) (\<lambda>listed.
     io_try (sweep (seg_collectable ns manifest cutoff) fst listed 0) (\<lambda>files.
     io_try (store_list_with_age (ns @ ''/wal/'')) (\<lambda>wal_listed.
     io_try (sweep (wal_collectable manifest cutoff) fst wal_listed 0) (\<lambda>entries.
     Ret (Inr \<lparr>go_generation_files_deleted = files, go_wal_entries_deleted = entries\<rparr>)))))"

definition gc_with_min_age :: "manifest codec \<Rightarrow> string \<Rightarrow> nat \<Rightarrow> (index_error + gc_outcome) io" where
  "gc_with_min_age mc ns min_age =
     io_try (io_map_err IWal (read_manifest mc ns)) (\<lambda>(manifest, _).
     io_bind io_now (\<lambda>now. io_map_err IStore (gc_sweeps ns manifest (now - int min_age))))"

definition gc :: "manifest codec \<Rightarrow> string \<Rightarrow> (index_error + gc_outcome) io" where
  "gc mc ns = gc_with_min_age mc ns DEFAULT_MIN_AGE"

subsection \<open>Observability objects\<close>

definition DEFAULT_TRACE_RETENTION :: nat where "DEFAULT_TRACE_RETENTION = 24 * 60 * 60 * 1000"
definition DEFAULT_ROLLUP_STALE :: nat where "DEFAULT_ROLLUP_STALE = 60 * 60 * 1000"
definition OBS_TRACES_PREFIX :: string where "OBS_TRACES_PREFIX = ''_obs/traces/''"
definition OBS_ROLLUP_PREFIX :: string where "OBS_ROLLUP_PREFIX = ''_obs/rollup/''"

record obs_gc_outcome =
  oo_trace_objects_deleted :: nat
  oo_hour_buckets_deleted :: nat
  oo_rollups_deleted :: nat

definition trim_end_slash :: "string \<Rightarrow> string" where
  "trim_end_slash p = rev (dropWhile (\<lambda>c. c = CHR ''/'') (rev p))"

definition bucket_of :: "path \<Rightarrow> string" where
  "bucket_of hour_prefix = last_segment (trim_end_slash hour_prefix)"

definition expired_bucket :: "string \<Rightarrow> path \<Rightarrow> bool" where
  "expired_bucket cutoff_bucket hour_prefix =
     (\<not> (length (bucket_of hour_prefix) \<noteq> 10 \<or> cutoff_bucket \<le> bucket_of hour_prefix))"

text \<open>The two inner loops of the trace sweep, with the counters of objects and buckets.\<close>
fun sweep_hours :: "string \<Rightarrow> path list \<Rightarrow> nat \<times> nat \<Rightarrow> (store_error + nat \<times> nat) io" where
  "sweep_hours cutoff [] n = Ret (Inr n)"
| "sweep_hours cutoff (h # hs) (objs, buckets) =
     (if expired_bucket cutoff h then
        io_try (store_list h) (\<lambda>paths.
        io_try (sweep (\<lambda>_. True) (\<lambda>p. p) paths objs) (\<lambda>objs'. sweep_hours cutoff hs (objs', buckets + 1)))
      else sweep_hours cutoff hs (objs, buckets))"

fun sweep_nodes :: "string \<Rightarrow> path list \<Rightarrow> nat \<times> nat \<Rightarrow> (store_error + nat \<times> nat) io" where
  "sweep_nodes cutoff [] n = Ret (Inr n)"
| "sweep_nodes cutoff (d # ds) n =
     io_try (store_list_prefixes d) (\<lambda>hours. io_try (sweep_hours cutoff hours n) (sweep_nodes cutoff ds))"

text \<open>\<open>fmt\<close> is chrono's \<open>format("%Y%m%d%H")\<close>.\<close>
definition gc_traces :: "(millis \<Rightarrow> string) \<Rightarrow> nat \<Rightarrow> nat \<Rightarrow> (index_error + obs_gc_outcome) io" where
  "gc_traces fmt retention rollup_stale = io_bind io_now (\<lambda>now.
     io_map_err IStore (io_try (store_list_prefixes OBS_TRACES_PREFIX) (\<lambda>nodes.
       io_try (sweep_nodes (fmt (now - int retention)) nodes (0, 0)) (\<lambda>(objs, buckets).
       io_try (store_list_with_age OBS_ROLLUP_PREFIX) (\<lambda>rollups.
       io_try (sweep (\<lambda>e. \<not> now - int rollup_stale < snd e) fst rollups 0) (\<lambda>n.
       Ret (Inr \<lparr>oo_trace_objects_deleted = objs, oo_hour_buckets_deleted = buckets, oo_rollups_deleted = n\<rparr>)))))))"

section \<open>Fault-free runs\<close>

abbreviation drop_obj :: "path \<Rightarrow> obj_store \<Rightarrow> obj_store" where
  "drop_obj p s \<equiv> (case lookup_obj s p of None \<Rightarrow> s | Some _ \<Rightarrow> remove_obj p s)"

lemma lookup_drop_objs: "lookup_obj (fold drop_obj ps s) p = (if p \<in> set ps then None else lookup_obj s p)"
  by (induction ps arbitrary: s) (auto split: option.split)

lemma bt_store_drop_objs [simp]: "bt_store s \<Longrightarrow> bt_store (fold drop_obj ps s)"
  by (induction ps arbitrary: s) (auto simp: bt_store_def remove_obj_def split: option.split)

lemma clock_drop_objs [simp]: "clock (fold drop_obj ps s) = clock s"
  by (induction ps arbitrary: s) (auto simp: remove_obj_def split: option.split)

lemma run_sweep: "run (sweep c key xs n) s = (Inr (n + length (filter c xs)), fold drop_obj (map key (filter c xs)) s)"
  by (induction c key xs n arbitrary: s rule: sweep.induct) (auto simp: io_simps)

lemma run_list_with_age:
  "run (store_list_with_age pre) s = (Inr (sort_key fst (map (\<lambda>m. (om_location m, om_last_modified m)) (list_objects pre s))), s)"
  by (simp add: store_list_with_age_def os_list_def io_simps)

text \<open>The listed objects with their age, in the order of the sweep.\<close>
definition aged :: "path \<Rightarrow> obj_store \<Rightarrow> (path \<times> millis) list" where
  "aged pre s = sort_key fst (map (\<lambda>m. (om_location m, om_last_modified m)) (list_objects pre s))"

lemma mem_aged:
  assumes "bt_store s"
  shows "(p, t) \<in> set (aged pre s) \<longleftrightarrow> under_prefix pre p \<and> (\<exists>ob. lookup_obj s p = Some ob \<and> ob_modified ob = t)"
proof -
  have "distinct (map fst (objects s))" using assms by (simp add: bt_store_def bt_ok_distinct)
  then have l: "lookup_obj s p = Some ob \<longleftrightarrow> (p, ob) \<in> set (objects s)" for ob by (simp add: lookup_obj_def)
  show ?thesis by (force simp: aged_def list_objects_def l)
qed

lemma mem_swept:
  assumes "bt_store s"
  shows "p \<in> set (map fst (filter c (aged pre s))) \<longleftrightarrow> under_prefix pre p \<and> (\<exists>ob. lookup_obj s p = Some ob \<and> c (p, ob_modified ob))"
proof -
  have "p \<in> set (map fst (filter c (aged pre s))) \<longleftrightarrow> (\<exists>t. (p, t) \<in> set (aged pre s) \<and> c (p, t))" by force
  then show ?thesis unfolding mem_aged[OF assms] by blast
qed

lemma run_now [simp]: "run io_now s = (clock s, s)"
  by (simp add: io_now_def)

lemma run_gc:
  assumes "run (read_manifest mc ns) s = (Inr (m, e), s)"
  shows "run (gc_with_min_age mc ns age) s =
    (let co = clock s - int age; ps = map fst (filter (seg_collectable ns m co) (aged ns s));
         s1 = fold drop_obj ps s; qs = map fst (filter (wal_collectable m co) (aged (ns @ ''/wal/'') s1))
     in (Inr \<lparr>go_generation_files_deleted = length ps, go_wal_entries_deleted = length qs\<rparr>, fold drop_obj qs s1))"
  by (simp add: gc_with_min_age_def gc_sweeps_def io_simps assms run_list_with_age run_sweep aged_def[symmetric] Let_def)

text \<open>The garbage of a namespace at an instant: segment files under it that neither the current nor the previous generation
  of the manifest names, and log entries at or below the previous generation's cursor, both older than the floor.\<close>
definition garbage :: "string \<Rightarrow> manifest \<Rightarrow> millis \<Rightarrow> obj_store \<Rightarrow> path \<Rightarrow> bool" where
  "garbage ns m cutoff s p = (\<exists>ob. lookup_obj s p = Some ob \<and> ob_modified ob \<le> cutoff
     \<and> (is_prefix (ns @ ''/'') p \<and> contains p ''/seg-'' \<and> p \<notin> set (all_referenced_paths m)
        \<or> under_prefix (ns @ ''/wal/'') p \<and> (\<exists>q. parse_wal_seq p = Some q \<and> q \<le> mf_prev_wal_index_cursor m)))"

lemma under_ns:
  assumes "CHR ''/'' \<notin> set ns" "ns \<noteq> []"
  shows "under_prefix ns p \<longleftrightarrow> is_prefix (ns @ ''/'') p"
proof -
  have "last ns \<noteq> CHR ''/''" using assms last_in_set by metis
  then show ?thesis using assms(2) by (simp add: under_prefix_def strip_slash_def)
qed

lemma contains_iff: "contains hay needle \<longleftrightarrow> (\<exists>xs ys. hay = xs @ needle @ ys)"
proof (induction hay)
  case (Cons c cs)
  have "is_prefix needle (c # cs) \<longleftrightarrow> (\<exists>ys. c # cs = needle @ ys)"
    by (metis append_take_drop_id append_eq_conv_conj is_prefix_def)
  then show ?case using Cons.IH by (auto simp: Cons_eq_append_conv) 
qed auto

lemma is_prefix_iff: "is_prefix xs ys \<longleftrightarrow> (\<exists>zs. ys = xs @ zs)"
  by (metis append_take_drop_id append_eq_conv_conj is_prefix_def)

lemma gc_run_lookup:
  assumes "run (read_manifest mc ns) s = (Inr (m, e), s)" "bt_store s" "CHR ''/'' \<notin> set ns" "ns \<noteq> []"
  shows "lookup_obj (snd (run (gc_with_min_age mc ns age) s)) p
    = (if garbage ns m (clock s - int age) s p then None else lookup_obj s p)"
proof -
  let ?co = "clock s - int age"
  define ps where "ps = map fst (filter (seg_collectable ns m ?co) (aged ns s))"
  define s1 where "s1 = fold drop_obj ps s"
  define qs where "qs = map fst (filter (wal_collectable m ?co) (aged (ns @ ''/wal/'') s1))"
  have b1: "bt_store s1" using assms(2) by (simp add: s1_def)
  have ps: "p \<in> set ps \<longleftrightarrow> (\<exists>ob. lookup_obj s p = Some ob \<and> seg_collectable ns m ?co (p, ob_modified ob))"
    unfolding ps_def mem_swept[OF assms(2)] under_ns[OF assms(3,4)] by (auto simp: seg_collectable_def)
  have l1: "lookup_obj s1 p = (if p \<in> set ps then None else lookup_obj s p)" by (simp add: s1_def lookup_drop_objs)
  have qs: "p \<in> set qs \<longleftrightarrow> under_prefix (ns @ ''/wal/'') p \<and> (\<exists>ob. lookup_obj s1 p = Some ob \<and> wal_collectable m ?co (p, ob_modified ob))"
    unfolding qs_def mem_swept[OF b1] by blast
  have "lookup_obj (snd (run (gc_with_min_age mc ns age) s)) p = (if p \<in> set qs then None else lookup_obj s1 p)"
    by (simp add: run_gc[OF assms(1)] Let_def ps_def[symmetric] s1_def[symmetric] qs_def[symmetric] lookup_drop_objs)
  also have "\<dots> = (if garbage ns m ?co s p then None else lookup_obj s p)"
    unfolding qs l1 ps garbage_def
    by (cases "lookup_obj s p") (auto simp: seg_collectable_def wal_collectable_def not_less split: option.splits)
  finally show ?thesis .
qed

section \<open>Any interleaving\<close>

abbreviation no_delete :: "request \<Rightarrow> bool" where
  "no_delete q \<equiv> (\<forall>p. q \<noteq> ReqDelete p)"

lemma io_all_mono: "io_all Q m \<Longrightarrow> (\<And>q. Q q \<Longrightarrow> R q) \<Longrightarrow> io_all R m"
  by (induction m) auto

lemma sweep_deletes: "io_all (\<lambda>q. \<exists>x \<in> set xs. c x \<and> q = ReqDelete (key x)) (sweep c key xs n)"
proof (induction xs arbitrary: n)
  case (Cons x xs)
  have "io_all (\<lambda>q. \<exists>y \<in> set (x # xs). c y \<and> q = ReqDelete (key y)) (sweep c key xs n')" for n'
    by (rule io_all_mono[OF Cons.IH]) auto
  then show ?case by (auto intro!: io_all_try)
qed simp

lemma follows_list_with_age:
  assumes "follows (store_list_with_age pre) es (Inr l)"
  obtains ms where "es = [(ReqList pre, RspList (Inr ms))]" "set l = (\<lambda>m. (om_location m, om_last_modified m)) ` set ms"
  using assms by (auto simp: store_list_with_age_def os_list_def split: response.splits sum.splits)

lemma read_manifest_gets: "io_all (\<lambda>q. q = ReqGet (manifest_path ns) None) (read_manifest mc ns)"
  by (simp add: read_manifest_def)

lemma list_with_age_lists: "io_all (\<lambda>q. q = ReqList pre) (store_list_with_age pre)"
  by (simp add: store_list_with_age_def os_list_def split: response.split)

lemma follows_map_err: "follows (io_map_err f m) es x \<longleftrightarrow> (\<exists>y. follows m es y \<and> x = (case y of Inl e \<Rightarrow> Inl (f e) | Inr v \<Rightarrow> Inr v))"
  by (auto simp: io_map_err_def follows_bind)

lemma follows_map_err_Inr [simp]: "follows (io_map_err f m) es (Inr v) \<longleftrightarrow> follows m es (Inr v)"
  unfolding follows_map_err by (auto split: sum.split_asm)

lemma follows_try_Inr:
  "follows (io_try m f) es (Inr z) \<longleftrightarrow> (\<exists>es1 es2 y. es = es1 @ es2 \<and> follows m es1 (Inr y) \<and> follows (f y) es2 (Inr z))"
  by (simp add: follows_try)

lemma follows_now: "follows io_now es t \<Longrightarrow> \<exists>r. es = [(ReqNow, r)] \<and> t = (case r of RspNow u \<Rightarrow> u | _ \<Rightarrow> 0)"
  by (auto simp: io_now_def split: response.splits)

lemma follows_read_manifest:
  assumes "follows (read_manifest mc ns) es (Inr (m, e))"
  obtains bs where "es = [(ReqGet (manifest_path ns) None, RspGet (Inr (bs, e)))]" "manifest_from_bytes mc bs = Inr m"
proof -
  let ?f = "\<lambda>v. Ret (case manifest_from_bytes mc (v_bytes v) of Inl e \<Rightarrow> Inl (WCore e) | Inr m \<Rightarrow> Inr (m, v_etag v))"
  from assms have "\<exists>es1 es2 v. es = es1 @ es2 \<and> follows (store_get (manifest_path ns)) es1 (Inr v) \<and> follows (?f v) es2 (Inr (m, e))"
    unfolding read_manifest_def follows_try_Inr follows_map_err_Inr .
  then obtain es1 es2 v where v: "es = es1 @ es2" "follows (store_get (manifest_path ns)) es1 (Inr v)" "follows (?f v) es2 (Inr (m, e))"
    by (elim exE conjE)
  moreover from v(2) obtain bs where "es1 = [(ReqGet (manifest_path ns) None, RspGet (Inr (bs, v_etag v)))]" "v_bytes v = bs"
    by (auto simp: store_get_def os_get_def split: response.splits sum.splits os_error.splits)
  ultimately show ?thesis using that by (auto split: sum.splits)
qed

lemma delete_in_try:
  assumes "follows (io_try m f) es x" "d \<in> set es"
  shows "(\<exists>es1 y. follows m es1 y \<and> d \<in> set es1 \<and> set es1 \<subseteq> set es)
     \<or> (\<exists>es1 es2 y. es = es1 @ es2 \<and> follows m es1 (Inr y) \<and> follows (f y) es2 x \<and> d \<in> set es2)"
  using assms unfolding follows_try by auto

lemma list_no_delete: "follows (store_list_with_age pre) es x \<Longrightarrow> (ReqDelete p, r) \<notin> set es"
  using follows_io_all[OF _ list_with_age_lists] by force

lemma sweep_delete: "follows (sweep c key xs n) es x \<Longrightarrow> (ReqDelete p, r) \<in> set es \<Longrightarrow> \<exists>y \<in> set xs. c y \<and> key y = p"
  using follows_io_all[OF _ sweep_deletes] by fastforce

definition permitted :: "string \<Rightarrow> manifest \<Rightarrow> millis \<Rightarrow> path \<Rightarrow> path \<Rightarrow> millis \<Rightarrow> bool" where
  "permitted ns m co pre p t = (pre = ns \<and> seg_collectable ns m co (p, t) \<or> pre = ns @ ''/wal/'' \<and> wal_collectable m co (p, t))"

lemma listed_permitted:
  assumes "follows (store_list_with_age pre) es1 (Inr l)" "y \<in> set l" "permitted ns m co pre (fst y) (snd y)" "set es1 \<subseteq> set es"
  shows "\<exists>pre ms ob. (ReqList pre, RspList (Inr ms)) \<in> set es \<and> ob \<in> set ms \<and> om_location ob = fst y
     \<and> permitted ns m co pre (fst y) (om_last_modified ob)"
proof -
  from follows_list_with_age[OF assms(1)] obtain ms where
    "es1 = [(ReqList pre, RspList (Inr ms))]" "set l = (\<lambda>m. (om_location m, om_last_modified m)) ` set ms" by blast
  with assms(2-4) show ?thesis by (intro exI[of _ pre] exI[of _ ms]) auto
qed

lemma gc_sweeps_deletes:
  assumes "follows (gc_sweeps ns m co) es x" "(ReqDelete p, r) \<in> set es"
  shows "\<exists>pre ms ob. (ReqList pre, RspList (Inr ms)) \<in> set es \<and> ob \<in> set ms \<and> om_location ob = p
     \<and> permitted ns m co pre p (om_last_modified ob)"
proof -
  let ?d = "(ReqDelete p, r)"
  from delete_in_try[OF assms(1)[unfolded gc_sweeps_def] assms(2)] list_no_delete obtain e1 f1 l where
    1: "es = e1 @ f1" "follows (store_list_with_age ns) e1 (Inr l)" "?d \<in> set f1" and
    2: "follows (io_try (sweep (seg_collectable ns m co) fst l 0) (\<lambda>files.
     io_try (store_list_with_age (ns @ ''/wal/'')) (\<lambda>wal_listed.
     io_try (sweep (wal_collectable m co) fst wal_listed 0) (\<lambda>entries.
     Ret (Inr \<lparr>go_generation_files_deleted = files, go_wal_entries_deleted = entries\<rparr>))))) f1 x" by blast
  from delete_in_try[OF 2 1(3)] show ?thesis
  proof (elim disjE exE conjE)
    fix e2 y assume "follows (sweep (seg_collectable ns m co) fst l 0) e2 y" "?d \<in> set e2"
    from sweep_delete[OF this] obtain z where "z \<in> set l" "seg_collectable ns m co z" "fst z = p" by blast
    moreover from this have "permitted ns m co ns (fst z) (snd z)" by (auto simp: permitted_def)
    ultimately show ?thesis using listed_permitted[OF 1(2), of z ns m co es] 1(1) by simp
  next
    fix e2 f2 n assume f2: "f1 = e2 @ f2" "?d \<in> set f2" and
      3: "follows (io_try (store_list_with_age (ns @ ''/wal/'')) (\<lambda>wal_listed.
        io_try (sweep (wal_collectable m co) fst wal_listed 0) (\<lambda>entries.
        Ret (Inr \<lparr>go_generation_files_deleted = n, go_wal_entries_deleted = entries\<rparr>)))) f2 x"
    from delete_in_try[OF 3 f2(2)] list_no_delete obtain e3 f3 w where
      4: "f2 = e3 @ f3" "follows (store_list_with_age (ns @ ''/wal/'')) e3 (Inr w)" "?d \<in> set f3" and
      5: "follows (io_try (sweep (wal_collectable m co) fst w 0) (\<lambda>entries.
        Ret (Inr \<lparr>go_generation_files_deleted = n, go_wal_entries_deleted = entries\<rparr>))) f3 x" by blast
    from delete_in_try[OF 5 4(3)] obtain e4 y where "follows (sweep (wal_collectable m co) fst w 0) e4 y" "?d \<in> set e4" by auto
    from sweep_delete[OF this] obtain z where "z \<in> set w" "wal_collectable m co z" "fst z = p" by blast
    moreover from this have "permitted ns m co (ns @ ''/wal/'') (fst z) (snd z)" by (auto simp: permitted_def)
    ultimately show ?thesis using listed_permitted[OF 4(2), of z ns m co es] 1(1) f2(1) 4(1) by auto
  qed
qed

lemma listing_sound: "history s es s' \<Longrightarrow> (ReqList pre, RspList (Inr ms)) \<in> set es \<Longrightarrow> ob \<in> set ms \<Longrightarrow> under_prefix pre (om_location ob)"
proof (induction rule: history.induct)
  case (Cons s e s' es s'')
  have "store_step s e s' \<Longrightarrow> e = (ReqList pre, RspList (Inr ms)) \<Longrightarrow> under_prefix pre (om_location ob)"
    by (induction rule: store_step.induct) (use Cons.prems(2) in \<open>auto simp: list_objects_def\<close>)
  with Cons show ?case by auto
qed simp

text \<open>Segment files carry the namespace's segment prefix.\<close>
definition refs_under :: "string \<Rightarrow> manifest \<Rightarrow> bool" where
  "refs_under ns m = (\<forall>p \<in> set (all_referenced_paths m). is_prefix (ns @ ''/seg-'') p)"

lemma not_under_wal: "is_prefix (ns @ ''/seg-'') p \<Longrightarrow> \<not> under_prefix (ns @ ''/wal/'') p"
  by (auto simp: under_prefix_def is_prefix_iff strip_slash_def butlast_append)

lemma contains_append: "contains a n \<Longrightarrow> contains (a @ b) n"
  by (metis append_assoc contains_iff)

lemma contains_skip: "CHR ''/'' \<notin> set a \<Longrightarrow> contains (a @ CHR ''/'' # b) ''/seg-'' \<longleftrightarrow> is_prefix ''seg-'' b \<or> contains b ''/seg-''"
  by (induction a) (auto simp: is_prefix_def)

lemma contains_no_slash [simp]: "CHR ''/'' \<notin> set b \<Longrightarrow> \<not> contains b ''/seg-''"
  by (auto simp: contains_iff)

lemma system_paths_no_seg:
  assumes "CHR ''/'' \<notin> set ns"
  shows "\<not> contains (manifest_path ns) ''/seg-''" "\<not> contains (wal_head_pointer_path ns) ''/seg-''" "\<not> contains (wal_path ns q) ''/seg-''"
proof -
  have dig: "\<exists>d < 10. c = digit_char d" if "c \<in> set (show_padded 20 q)" for c
    using that set_show_nat[of c q] by (auto simp: show_padded_def Let_def intro: exI[of _ 0])
  have ns: "digit_char d \<noteq> CHR ''s''" if "d < 10" for d
  proof
    assume "digit_char d = CHR ''s''"
    then have "(of_char (digit_char d) :: nat) = 115" by simp
    with of_char_digit_char[OF that] that show False by simp
  qed
  have d: "CHR ''/'' \<notin> set (show_padded 20 q)" using dig digit_char_props(2) by metis
  have "\<not> is_prefix ''seg-'' (show_padded 20 q @ ''.bin'')"
  proof (cases "show_padded 20 q")
    case (Cons c cs)
    then have "c \<noteq> CHR ''s''" using dig[of c] ns by auto
    then show ?thesis using Cons by (simp add: is_prefix_def)
  qed (simp add: is_prefix_def)
  moreover show "\<not> contains (manifest_path ns) ''/seg-''" "\<not> contains (wal_head_pointer_path ns) ''/seg-''"
    using assms by (simp_all add: manifest_path_def wal_head_pointer_path_def contains_skip is_prefix_def)
  ultimately have "\<not> contains (''wal'' @ CHR ''/'' # (show_padded 20 q @ ''.bin'')) ''/seg-''"
    using d by (subst contains_skip) simp_all
  then show "\<not> contains (wal_path ns q) ''/seg-''"
    using assms by (simp add: wal_path_def contains_skip is_prefix_def)
qed

lemma system_paths_no_seq: "parse_wal_seq (manifest_path ns) = None" "parse_wal_seq (wal_head_pointer_path ns) = None"
  by (simp_all add: parse_wal_seq_def manifest_path_def wal_head_pointer_path_def last_segment_append strip_suffix_def)

lemma now_answer: "history s es s' \<Longrightarrow> (ReqNow, r) \<in> set es \<Longrightarrow> \<exists>t. r = RspNow t"
proof (induction rule: history.induct)
  case (Cons s e s' es s'')
  have "store_step s e s' \<Longrightarrow> e = (ReqNow, r) \<Longrightarrow> \<exists>t. r = RspNow t"
    by (induction rule: store_step.induct) auto
  with Cons show ?case by auto
qed simp

lemma gc_deletes:
  assumes "follows (gc_with_min_age mc ns age) es x" "(ReqDelete p, r) \<in> set es"
  shows "\<exists>m bs e now rn pre ms ob. (ReqGet (manifest_path ns) None, RspGet (Inr (bs, e))) \<in> set es \<and> manifest_from_bytes mc bs = Inr m
    \<and> (ReqNow, rn) \<in> set es \<and> now = (case rn of RspNow t \<Rightarrow> t | _ \<Rightarrow> 0)
    \<and> (ReqList pre, RspList (Inr ms)) \<in> set es \<and> ob \<in> set ms \<and> om_location ob = p
    \<and> permitted ns m (now - int age) pre p (om_last_modified ob)"
proof -
  have nd: "(ReqDelete p, r) \<notin> set e1" if "follows (io_map_err IWal (read_manifest mc ns)) e1 y" for e1 y
    using follows_io_all[OF that io_all_map_err[OF read_manifest_gets]] by fastforce
  from delete_in_try[OF assms[unfolded gc_with_min_age_def]] nd obtain e1 f1 m e where
    1: "es = e1 @ f1" "follows (io_map_err IWal (read_manifest mc ns)) e1 (Inr (m, e))" "(ReqDelete p, r) \<in> set f1" and
    2: "follows (io_bind io_now (\<lambda>now. io_map_err IStore (gc_sweeps ns m (now - int age)))) f1 x"
    by (metis (no_types, lifting) case_prod_beta prod.collapse)
  from 1(2) obtain bs where m: "e1 = [(ReqGet (manifest_path ns) None, RspGet (Inr (bs, e)))]" "manifest_from_bytes mc bs = Inr m"
    unfolding follows_map_err_Inr by (rule follows_read_manifest)
  from 2 obtain e2 f2 now where 3: "f1 = e2 @ f2" "follows io_now e2 now" "follows (io_map_err IStore (gc_sweeps ns m (now - int age))) f2 x"
    unfolding follows_bind by metis
  from follows_now[OF 3(2)] obtain rn where rn: "e2 = [(ReqNow, rn)]" "now = (case rn of RspNow t \<Rightarrow> t | _ \<Rightarrow> 0)" by blast
  from 3(3) obtain y where "follows (gc_sweeps ns m (now - int age)) f2 y" unfolding follows_map_err by metis
  moreover have "(ReqDelete p, r) \<in> set f2" using 1(3) 3(1) rn(1) by simp
  ultimately have "\<exists>pre ms ob. (ReqList pre, RspList (Inr ms)) \<in> set f2 \<and> ob \<in> set ms \<and> om_location ob = p
     \<and> permitted ns m (now - int age) pre p (om_last_modified ob)" by (rule gc_sweeps_deletes)
  then show ?thesis using 1(1) 3(1) m rn by (intro exI[of _ m] exI[of _ bs] exI[of _ e] exI[of _ now] exI[of _ rn]) auto
qed

section \<open>Observability sweep\<close>

lemma follows_list:
  assumes "follows (store_list pre) es (Inr l)"
  obtains ms where "es = [(ReqList pre, RspList (Inr ms))]" "set l = om_location ` set ms"
  using assms by (auto simp: store_list_def os_list_def split: response.splits sum.splits)

lemma lists_no_delete:
  shows "follows (store_list pre) es x \<Longrightarrow> (ReqDelete p, r) \<notin> set es"
    and "follows (store_list_prefixes pre) es' x' \<Longrightarrow> (ReqDelete p, r) \<notin> set es'"
proof -
  have l: "io_all no_delete (store_list pre)" "io_all no_delete (store_list_prefixes pre)"
    by (simp_all add: store_list_prefixes_def os_list_delim_def split: response.split)
  show "follows (store_list pre) es x \<Longrightarrow> (ReqDelete p, r) \<notin> set es"
    by (rule notI) (drule (1) follows_io_all[OF _ l(1)], simp)
  show "follows (store_list_prefixes pre) es' x' \<Longrightarrow> (ReqDelete p, r) \<notin> set es'"
    by (rule notI) (drule (1) follows_io_all[OF _ l(2)], simp)
qed

text \<open>\<open>p\<close> was listed in an expired bucket.\<close>
definition in_expired :: "string \<Rightarrow> event list \<Rightarrow> path \<Rightarrow> bool" where
  "in_expired c es p = (\<exists>h ms. expired_bucket c h \<and> (ReqList h, RspList (Inr ms)) \<in> set es \<and> p \<in> om_location ` set ms)"

lemma in_expired_mono: "in_expired c es p \<Longrightarrow> set es \<subseteq> set es' \<Longrightarrow> in_expired c es' p"
  unfolding in_expired_def by blast

lemma sweep_hours_deletes:
  "follows (sweep_hours c hs n) es x \<Longrightarrow> (ReqDelete p, r) \<in> set es \<Longrightarrow> in_expired c es p"
proof (induction c hs n arbitrary: es rule: sweep_hours.induct)
  case (2 c h hs objs buckets)
  show ?case
  proof (cases "expired_bucket c h")
    case True
    note f = 2(3)[unfolded sweep_hours.simps if_P[OF True]]
    from delete_in_try[OF f 2(4)] lists_no_delete(1) obtain e1 f1 l where
      1: "es = e1 @ f1" "follows (store_list h) e1 (Inr l)" "(ReqDelete p, r) \<in> set f1" and
      g: "follows (io_try (sweep (\<lambda>_. True) (\<lambda>p. p) l objs) (\<lambda>objs'. sweep_hours c hs (objs', buckets + 1))) f1 x" by blast
    from delete_in_try[OF g 1(3)] show ?thesis
    proof (elim disjE exE conjE)
      fix e2 y assume "follows (sweep (\<lambda>_. True) (\<lambda>p. p) l objs) e2 y" "(ReqDelete p, r) \<in> set e2"
      from sweep_delete[OF this] have "p \<in> set l" by simp
      moreover obtain ms where "e1 = [(ReqList h, RspList (Inr ms))]" "set l = om_location ` set ms"
        by (rule follows_list[OF 1(2)])
      ultimately show ?thesis using 1(1) True unfolding in_expired_def by (intro exI[of _ h] exI[of _ ms]) auto
    next
      fix e2 f2 n' assume "f1 = e2 @ f2" "follows (sweep_hours c hs (n', buckets + 1)) f2 x" "(ReqDelete p, r) \<in> set f2"
      from in_expired_mono[OF 2(1)[OF True this(2,3)], of es] this(1) 1(1) show ?thesis by auto
    qed
  qed (use 2 in auto)
qed simp

lemma sweep_nodes_deletes:
  "follows (sweep_nodes c ds n) es x \<Longrightarrow> (ReqDelete p, r) \<in> set es \<Longrightarrow> in_expired c es p"
proof (induction c ds n arbitrary: es rule: sweep_nodes.induct)
  case (2 c d ds n)
  from delete_in_try[OF 2(2)[unfolded sweep_nodes.simps] 2(3)] lists_no_delete(2) obtain e1 f1 hs where
    1: "es = e1 @ f1" "(ReqDelete p, r) \<in> set f1" and
    g: "follows (io_try (sweep_hours c hs n) (sweep_nodes c ds)) f1 x" by blast
  from delete_in_try[OF g 1(2)] have "in_expired c f1 p"
  proof (elim disjE exE conjE)
    fix e2 y assume "follows (sweep_hours c hs n) e2 y" "(ReqDelete p, r) \<in> set e2" "set e2 \<subseteq> set f1"
    from in_expired_mono[OF sweep_hours_deletes[OF this(1,2)] this(3)] show ?thesis .
  next
    fix e2 f2 n' assume "f1 = e2 @ f2" "follows (sweep_nodes c ds n') f2 x" "(ReqDelete p, r) \<in> set f2"
    from in_expired_mono[OF 2(1)[OF this(2,3)]] this(1) show ?thesis by simp
  qed
  then show ?case using 1(1) by (auto elim: in_expired_mono)
qed simp

text \<open>The observability sweep deletes only objects listed in a bucket named before the cutoff hour, and rollups listed as
  not refreshed since the staleness limit.\<close>
lemma gc_traces_deletes:
  assumes "follows (gc_traces fmt retention stale) es x" "(ReqDelete p, r) \<in> set es"
  shows "\<exists>now. in_expired (fmt (now - int retention)) es p
    \<or> (\<exists>ms ob. (ReqList OBS_ROLLUP_PREFIX, RspList (Inr ms)) \<in> set es \<and> ob \<in> set ms \<and> om_location ob = p \<and> om_last_modified ob \<le> now - int stale)"
proof -
  from assms(1) obtain e0 f0 now where 0: "es = e0 @ f0" "follows io_now e0 now" and
    "follows (io_map_err IStore (io_try (store_list_prefixes OBS_TRACES_PREFIX) (\<lambda>nodes.
       io_try (sweep_nodes (fmt (now - int retention)) nodes (0, 0)) (\<lambda>(objs, buckets).
       io_try (store_list_with_age OBS_ROLLUP_PREFIX) (\<lambda>rollups.
       io_try (sweep (\<lambda>e. \<not> now - int stale < snd e) fst rollups 0) (\<lambda>n.
       Ret (Inr \<lparr>oo_trace_objects_deleted = objs, oo_hour_buckets_deleted = buckets, oo_rollups_deleted = n\<rparr>))))))) f0 x"
    unfolding gc_traces_def follows_bind by metis
  then obtain y where f: "follows (io_try (store_list_prefixes OBS_TRACES_PREFIX) (\<lambda>nodes.
       io_try (sweep_nodes (fmt (now - int retention)) nodes (0, 0)) (\<lambda>(objs, buckets).
       io_try (store_list_with_age OBS_ROLLUP_PREFIX) (\<lambda>rollups.
       io_try (sweep (\<lambda>e. \<not> now - int stale < snd e) fst rollups 0) (\<lambda>n.
       Ret (Inr \<lparr>oo_trace_objects_deleted = objs, oo_hour_buckets_deleted = buckets, oo_rollups_deleted = n\<rparr>)))))) f0 y"
    unfolding follows_map_err by metis
  have d0: "(ReqDelete p, r) \<in> set f0" using assms(2) 0(1) follows_now[OF 0(2)] by auto
  from delete_in_try[OF f d0] lists_no_delete(2) obtain e1 f1 nodes where 1: "f0 = e1 @ f1" "(ReqDelete p, r) \<in> set f1" and
    g: "follows (io_try (sweep_nodes (fmt (now - int retention)) nodes (0, 0)) (\<lambda>(objs, buckets).
       io_try (store_list_with_age OBS_ROLLUP_PREFIX) (\<lambda>rollups.
       io_try (sweep (\<lambda>e. \<not> now - int stale < snd e) fst rollups 0) (\<lambda>n.
       Ret (Inr \<lparr>oo_trace_objects_deleted = objs, oo_hour_buckets_deleted = buckets, oo_rollups_deleted = n\<rparr>))))) f1 y" by blast
  from delete_in_try[OF g 1(2)] show ?thesis
  proof (elim disjE exE conjE)
    fix e2 z assume "follows (sweep_nodes (fmt (now - int retention)) nodes (0, 0)) e2 z" "(ReqDelete p, r) \<in> set e2" "set e2 \<subseteq> set f1"
    from in_expired_mono[OF sweep_nodes_deletes[OF this(1,2)], of es] this(3) 0(1) 1(1) show ?thesis by auto
  next
    fix e2 f2 nn assume f2: "f1 = e2 @ f2" "(ReqDelete p, r) \<in> set f2" and
      "follows (case nn of (objs, buckets) \<Rightarrow> io_try (store_list_with_age OBS_ROLLUP_PREFIX) (\<lambda>rollups.
       io_try (sweep (\<lambda>e. \<not> now - int stale < snd e) fst rollups 0) (\<lambda>n.
       Ret (Inr \<lparr>oo_trace_objects_deleted = objs, oo_hour_buckets_deleted = buckets, oo_rollups_deleted = n\<rparr>)))) f2 y"
    then obtain objs buckets where k: "follows (io_try (store_list_with_age OBS_ROLLUP_PREFIX) (\<lambda>rollups.
       io_try (sweep (\<lambda>e. \<not> now - int stale < snd e) fst rollups 0) (\<lambda>n.
       Ret (Inr \<lparr>oo_trace_objects_deleted = objs, oo_hour_buckets_deleted = buckets, oo_rollups_deleted = n\<rparr>)))) f2 y"
      by (cases nn) simp
    from delete_in_try[OF k f2(2)] list_no_delete obtain e3 f3 l where 3: "f2 = e3 @ f3" "follows (store_list_with_age OBS_ROLLUP_PREFIX) e3 (Inr l)" "(ReqDelete p, r) \<in> set f3" and
      h: "follows (io_try (sweep (\<lambda>e. \<not> now - int stale < snd e) fst l 0) (\<lambda>n.
       Ret (Inr \<lparr>oo_trace_objects_deleted = objs, oo_hour_buckets_deleted = buckets, oo_rollups_deleted = n\<rparr>))) f3 y" by blast
    from delete_in_try[OF h 3(3)] obtain e4 z where "follows (sweep (\<lambda>e. \<not> now - int stale < snd e) fst l 0) e4 z" "(ReqDelete p, r) \<in> set e4" by auto
    from sweep_delete[OF this] obtain e where "e \<in> set l" "\<not> now - int stale < snd e" "fst e = p" by blast
    moreover obtain ms where ms: "e3 = [(ReqList OBS_ROLLUP_PREFIX, RspList (Inr ms))]" "set l = (\<lambda>m. (om_location m, om_last_modified m)) ` set ms"
      by (rule follows_list_with_age[OF 3(2)])
    ultimately obtain ob where "ob \<in> set ms" "om_location ob = p" "om_last_modified ob \<le> now - int stale" by auto
    moreover have "(ReqList OBS_ROLLUP_PREFIX, RspList (Inr ms)) \<in> set es" using 0(1) 1(1) f2(1) 3(1) ms(1) by simp
    ultimately show ?thesis by blast
  qed
qed

section \<open>Properties\<close>

text \<open>C20. A fault-free collection removes exactly the garbage: afterwards every unreferenced segment file and every log
  entry at or below the previous cursor is gone if it is older than the floor, and every other object is untouched; in
  particular every file of the current and the previous generation, the manifest, the head pointer, and every log entry
  above the previous generation's cursor.\<close>
theorem gc_removes_exactly_garbage:
  assumes "run (read_manifest mc ns) s = (Inr (m, e), s)" "bt_store s" "CHR ''/'' \<notin> set ns" "ns \<noteq> []" "refs_under ns m"
  shows "\<exists>out s'. run (gc_with_min_age mc ns age) s = (Inr out, s')
    \<and> (\<forall>p. lookup_obj s' p = (if garbage ns m (clock s - int age) s p then None else lookup_obj s p))
    \<and> (\<forall>p \<in> set (all_referenced_paths m) \<union> {manifest_path ns, wal_head_pointer_path ns}
            \<union> wal_path ns ` {q. mf_prev_wal_index_cursor m < q \<and> q < U64_LIMIT}. lookup_obj s' p = lookup_obj s p)"
proof -
  obtain out s' where r: "run (gc_with_min_age mc ns age) s = (Inr out, s')" by (simp add: run_gc[OF assms(1)] Let_def)
  have g: "\<not> garbage ns m (clock s - int age) s p" if "p \<in> set (all_referenced_paths m) \<union> {manifest_path ns, wal_head_pointer_path ns}
      \<union> wal_path ns ` {q. mf_prev_wal_index_cursor m < q \<and> q < U64_LIMIT}" for p
    using that assms(5) not_under_wal[of ns p] system_paths_no_seg[OF assms(3)] system_paths_no_seq[of ns]
    by (auto simp: garbage_def refs_under_def parse_wal_path)
  have l: "lookup_obj s' p = (if garbage ns m (clock s - int age) s p then None else lookup_obj s p)" for p
    using gc_run_lookup[OF assms(1-4), of age p] r by simp
  from g have "\<forall>p \<in> set (all_referenced_paths m) \<union> {manifest_path ns, wal_head_pointer_path ns}
      \<union> wal_path ns ` {q. mf_prev_wal_index_cursor m < q \<and> q < U64_LIMIT}. lookup_obj s' p = lookup_obj s p" unfolding l by simp
  with r l show ?thesis by blast
qed

text \<open>C21. In any interleaving with other processes and under any request failures, whatever a collection deletes is
  garbage of a manifest it read itself: not the manifest, not the head pointer, no log entry above that manifest's previous
  cursor, no file that manifest references, and nothing its listing showed to be younger than the floor.\<close>
theorem gc_deletes_only_garbage:
  assumes "history s (map snd h) s'" "follows (gc_with_min_age mc ns age) (issued_by i h) x" "(i, ReqDelete p, r) \<in> set h" "CHR ''/'' \<notin> set ns"
  shows "\<exists>bs e m now pre ms ob. (i, ReqGet (manifest_path ns) None, RspGet (Inr (bs, e))) \<in> set h \<and> manifest_from_bytes mc bs = Inr m
    \<and> p \<noteq> manifest_path ns \<and> p \<noteq> wal_head_pointer_path ns
    \<and> (\<forall>q. mf_prev_wal_index_cursor m < q \<and> q < U64_LIMIT \<longrightarrow> p \<noteq> wal_path ns q)
    \<and> (refs_under ns m \<longrightarrow> p \<notin> set (all_referenced_paths m))
    \<and> (i, ReqNow, RspNow now) \<in> set h \<and> (i, ReqList pre, RspList (Inr ms)) \<in> set h \<and> ob \<in> set ms
    \<and> om_location ob = p \<and> om_last_modified ob \<le> now - int age"
proof -
  have "(ReqDelete p, r) \<in> set (issued_by i h)" using assms(3) by (simp add: issued_by_mem)
  from gc_deletes[OF assms(2) this] obtain m bs e now rn pre ms ob where
    d: "(i, ReqGet (manifest_path ns) None, RspGet (Inr (bs, e))) \<in> set h" "manifest_from_bytes mc bs = Inr m"
      "(i, ReqNow, rn) \<in> set h" "now = (case rn of RspNow t \<Rightarrow> t | _ \<Rightarrow> 0)"
      "(i, ReqList pre, RspList (Inr ms)) \<in> set h" "ob \<in> set ms" "om_location ob = p"
      "permitted ns m (now - int age) pre p (om_last_modified ob)" by (auto simp: issued_by_mem)
  have "(ReqNow, rn) \<in> set (map snd h)" using d(3) by force
  from now_answer[OF assms(1) this] d(4) have rn: "rn = RspNow now" by auto
  have "(ReqList pre, RspList (Inr ms)) \<in> set (map snd h)" using d(5) by force
  from listing_sound[OF assms(1) this d(6)] d(7) have u: "under_prefix pre p" by simp
  have "p \<noteq> manifest_path ns \<and> p \<noteq> wal_head_pointer_path ns
    \<and> (\<forall>q. mf_prev_wal_index_cursor m < q \<and> q < U64_LIMIT \<longrightarrow> p \<noteq> wal_path ns q)
    \<and> (refs_under ns m \<longrightarrow> p \<notin> set (all_referenced_paths m)) \<and> om_last_modified ob \<le> now - int age"
    using d(8) u system_paths_no_seg[OF assms(4)] system_paths_no_seq[of ns] not_under_wal[of ns p]
    by (auto simp: permitted_def seg_collectable_def wal_collectable_def refs_under_def parse_wal_path split: option.splits)
  with d(1,2,3,5,6,7) rn show ?thesis by blast
qed

text \<open>The test for segment files looks for \<open>/seg-\<close> anywhere in the key, and namespace names are only checked for a leading
  underscore: a collection of a namespace whose own name contains \<open>/seg-\<close> deletes the namespace's manifest once it is
  older than the floor.\<close>
theorem gc_deletes_own_manifest:
  assumes "run (read_manifest mc ns) s = (Inr (m, e), s)" "bt_store s" "contains ns ''/seg-''" "last ns \<noteq> CHR ''/''"
    and "manifest_path ns \<notin> set (all_referenced_paths m)" "lookup_obj s (manifest_path ns) = Some ob" "ob_modified ob \<le> clock s - int age"
  shows "lookup_obj (snd (run (gc_with_min_age mc ns age) s)) (manifest_path ns) = None"
proof -
  let ?co = "clock s - int age"
  define ps where "ps = map fst (filter (seg_collectable ns m ?co) (aged ns s))"
  have "ns \<noteq> []" using assms(3) by auto
  then have "under_prefix ns (manifest_path ns)" using assms(4) by (simp add: under_prefix_def strip_slash_def manifest_path_def is_prefix_def)
  moreover have "contains (manifest_path ns) ''/seg-''" unfolding manifest_path_def by (rule contains_append[OF assms(3)])
  ultimately have "manifest_path ns \<in> set ps"
    unfolding ps_def mem_swept[OF assms(2)] using assms(5-7)
    by (simp add: seg_collectable_def manifest_path_def is_prefix_def)
  then show ?thesis by (simp add: run_gc[OF assms(1)] Let_def lookup_drop_objs ps_def[symmetric])
qed

section \<open>Witnesses\<close>

definition sample_gc_store :: "string \<Rightarrow> path \<Rightarrow> obj_store" where
  "sample_gc_store ns p = write_obj p [1] (write_obj (manifest_path ns) [9] empty_store)"

definition sample_gc_codec :: "manifest codec" where
  "sample_gc_codec = table_codec [(manifest_empty ''h'' [], [9])]"

lemma sample_gc_read: "p \<noteq> manifest_path ns \<Longrightarrow>
    run (read_manifest sample_gc_codec ns) (sample_gc_store ns p) = (Inr (manifest_empty ''h'' [], Some (tag_etag 0)), sample_gc_store ns p)"
  by (simp add: read_manifest_def sample_gc_store_def sample_gc_codec_def io_simps manifest_from_bytes_def table_codec_def
      manifest_empty_def empty_store_def)

lemma sample_gc_ok: "bt_store (sample_gc_store ns p)" "refs_under ns (manifest_empty ''h'' [])" "clock (sample_gc_store ns p) = 0"
  by (simp_all add: bt_store_def sample_gc_store_def write_obj_def empty_store_def refs_under_def all_referenced_paths_def manifest_empty_def neq_iff)

lemma run_removed: "lookup_obj s p \<noteq> None \<Longrightarrow> lookup_obj (snd (run g s)) p = None \<Longrightarrow> \<exists>r. (ReqDelete p, r) \<in> set (trace g s)"
proof (induction g arbitrary: s)
  case (Call q k)
  obtain r s' where e: "os_exec q s = (r, s')" by fastforce
  show ?case
  proof (cases "q = ReqDelete p")
    case False
    then have "lookup_obj s' p \<noteq> None" using os_exec_keeps_present[OF e] Call.prems(1) by blast
    from Call.IH[OF rangeI this] Call.prems(2) e show ?thesis by auto
  qed (use e in auto)
qed simp

lemma gc_sample:
  "lookup_obj (snd (run (gc_with_min_age sample_gc_codec ''n'' 0) (sample_gc_store ''n'' ''n/seg-x/pk.idx''))) ''n/seg-x/pk.idx'' = None"
proof -
  let ?p = "''n/seg-x/pk.idx''" and ?s = "sample_gc_store ''n'' ''n/seg-x/pk.idx''"
  have r: "run (read_manifest sample_gc_codec ''n'') ?s = (Inr (manifest_empty ''h'' [], Some (tag_etag 0)), ?s)"
    by (rule sample_gc_read) (simp add: manifest_path_def)
  have ob: "lookup_obj ?s ?p = Some \<lparr>ob_bytes = [1], ob_tag = 1, ob_modified = 0\<rparr>"
    by (simp add: sample_gc_store_def) (simp add: write_obj_def empty_store_def)
  show ?thesis unfolding gc_run_lookup[OF r sample_gc_ok(1), simplified]
    by (simp add: garbage_def ob is_prefix_def all_referenced_paths_def manifest_empty_def sample_gc_ok(3))
qed

theorem gc_removes_exactly_garbage_witness:
  "lookup_obj (snd (run (gc_with_min_age sample_gc_codec ''n'' 0) (sample_gc_store ''n'' ''n/seg-x/pk.idx''))) ''n/seg-x/pk.idx'' = None
   \<and> lookup_obj (snd (run (gc_with_min_age sample_gc_codec ''n'' 5) (sample_gc_store ''n'' ''n/seg-x/pk.idx''))) ''n/seg-x/pk.idx'' \<noteq> None"
proof -
  let ?p = "''n/seg-x/pk.idx''" and ?s = "sample_gc_store ''n'' ''n/seg-x/pk.idx''"
  have r: "run (read_manifest sample_gc_codec ''n'') ?s = (Inr (manifest_empty ''h'' [], Some (tag_etag 0)), ?s)"
    by (rule sample_gc_read) (simp add: manifest_path_def)
  have l: "lookup_obj (snd (run (gc_with_min_age sample_gc_codec ''n'' age) ?s)) ?p
      = (if garbage ''n'' (manifest_empty ''h'' []) (0 - int age) ?s ?p then None else lookup_obj ?s ?p)" for age
    using gc_removes_exactly_garbage[OF r sample_gc_ok(1) _ _ sample_gc_ok(2), of age] by (auto simp: sample_gc_ok(3))
  have ob: "lookup_obj ?s ?p = Some \<lparr>ob_bytes = [1], ob_tag = 1, ob_modified = 0\<rparr>"
    by (simp add: sample_gc_store_def) (simp add: write_obj_def empty_store_def)
  show ?thesis unfolding l
    by (simp add: garbage_def ob is_prefix_def all_referenced_paths_def manifest_empty_def)
qed

theorem gc_deletes_own_manifest_witness:
  "lookup_obj (snd (run (gc_with_min_age sample_gc_codec ''a/seg-b'' 0) (sample_gc_store ''a/seg-b'' ''x''))) ''a/seg-b/manifest.json'' = None"
proof -
  let ?ns = "''a/seg-b''" and ?s = "sample_gc_store ''a/seg-b'' ''x''"
  have r: "run (read_manifest sample_gc_codec ?ns) ?s = (Inr (manifest_empty ''h'' [], Some (tag_etag 0)), ?s)"
    by (rule sample_gc_read) (simp add: manifest_path_def)
  have ob: "lookup_obj ?s (manifest_path ?ns) = Some \<lparr>ob_bytes = [9], ob_tag = 0, ob_modified = 0\<rparr>"
    by (simp add: sample_gc_store_def) (simp add: write_obj_def empty_store_def manifest_path_def)
  have "lookup_obj (snd (run (gc_with_min_age sample_gc_codec ?ns 0) ?s)) (manifest_path ?ns) = None"
    by (rule gc_deletes_own_manifest[OF r sample_gc_ok(1) _ _ _ ob])
      (simp_all add: is_prefix_def all_referenced_paths_def manifest_empty_def sample_gc_ok(3))
  then show ?thesis by (simp add: manifest_path_def)
qed

theorem gc_deletes_only_garbage_witness:
  "\<exists>h r bs e m. (0, ReqDelete ''n/seg-x/pk.idx'', r) \<in> set h
     \<and> (0 :: nat, ReqGet (manifest_path ''n'') None, RspGet (Inr (bs, e))) \<in> set h \<and> manifest_from_bytes sample_gc_codec bs = Inr m"
proof -
  let ?p = "''n/seg-x/pk.idx''" and ?s = "sample_gc_store ''n'' ''n/seg-x/pk.idx''" and ?g = "gc_with_min_age sample_gc_codec ''n'' 0"
  let ?h = "map (Pair (0 :: nat)) (trace ?g ?s)"
  have 1: "history ?s (map snd ?h) (snd (run ?g ?s))" by (simp add: comp_def history_trace)
  have 2: "follows ?g (issued_by 0 ?h) (fst (run ?g ?s))" using follows_trace[of ?g ?s] by (simp add: issued_by_def filter_map comp_def)
  obtain r where "(ReqDelete ?p, r) \<in> set (trace ?g ?s)"
    using run_removed[of ?s ?p ?g] gc_sample by (auto simp: sample_gc_store_def)
  then have d: "(0, ReqDelete ?p, r) \<in> set ?h" by auto
  from gc_deletes_only_garbage[OF 1 2 d] obtain bs e m where
    "(0, ReqGet (manifest_path ''n'') None, RspGet (Inr (bs, e))) \<in> set ?h" "manifest_from_bytes sample_gc_codec bs = Inr m" by auto
  with d show ?thesis by (intro exI conjI)
qed

end
