(* ===== verification/Fold_Safety.thy ===== *)
theory Fold_Safety
  imports Indexer Gc
begin

text \<open>
  What the programs of the query node and of the folds may ask of the object store.  \<open>request_policy\<close> is the interface of a
  policy on requests that admits reads: every reading operation respects it.  \<open>fold_policy\<close> extends it with the writes a fold
  needs.  The properties are its instances, and that a published manifest only names files the fold has written.
\<close>

section \<open>Programs that only read\<close>

definition is_read :: "request \<Rightarrow> bool" where
  "is_read q = (case q of ReqPut _ _ _ \<Rightarrow> False | ReqDelete _ \<Rightarrow> False | _ \<Rightarrow> True)"

lemma is_read_simps [simp]: "is_read (ReqGet p e)" "is_read (ReqGetRanges p rs)" "is_read (ReqList p)" "is_read (ReqListDelim p)"
    "is_read (ReqHead p)" "is_read ReqNow" "is_read (ReqCacheGet k)" "is_read (ReqCachePut k b)"
    "\<not> is_read (ReqPut p b m)" "\<not> is_read (ReqDelete p)"
  by (simp_all add: is_read_def)

lemma io_all_try_fold [simp]: "(\<And>x s. io_all P (f x s)) \<Longrightarrow> io_all P (io_try_fold f xs s)"
  by (induction xs arbitrary: s) auto

lemma io_all_try_map_set: "(\<And>x. x \<in> set xs \<Longrightarrow> io_all P (f x)) \<Longrightarrow> io_all P (io_try_map f xs)"
  by (induction xs) auto

text \<open>A policy on requests that admits every read: the reading operations respect it whatever it says of writes.\<close>
locale request_policy =
  fixes P :: "request \<Rightarrow> bool"
  assumes admits_reads: "is_read q \<Longrightarrow> P q"
begin

lemma store_reads [simp]: "io_all P (store_get p)" "io_all P (store_get_immutable p)" "io_all P (store_list p)" "io_all P (store_list_with_size p)"
  by (auto simp: store_get_immutable_def cache_get_def cache_put_def store_list_with_size_def os_list_def admits_reads
      split: response.split option.split)

lemma get_ranges_reads [simp]: "io_all P (store_get_ranges p rs)"
  by (rule io_all_mono[OF io_all_get_ranges]) (auto simp: range_request_def admits_reads split: request.splits)

lemma fetch_blocks_reads [simp]: "io_all P (fetch_blocks p rs)"
  by (simp add: fetch_blocks_def)

lemma scan_forward_reads [simp]: "io_all P (scan_forward_loop ix p lo cap i out)"
  by (rule io_all_mono[OF io_all_scan_forward_loop]) (auto simp: range_request_def admits_reads split: request.splits)

lemma sstable_reads [simp]: "io_all P (sstable_get ix p k)" "io_all P (sstable_get_many ix p ks)" "io_all P (sstable_scan_range ix p lo hi)"
    "io_all P (sstable_scan_forward ix p lo cap)"
  by (auto simp: sstable_get_def sstable_get_many_def sstable_scan_range_def sstable_scan_forward_def Let_def
      split: option.split prod.split)

lemma table_reads [simp]: "io_all P (pk_lookup_batch t ids)" "io_all P (payload_lookup_batch r t ids)" "io_all P (rerank_lookup_batch t ids)"
    "io_all P (radj_incoming_batch t ids)" "io_all P (entity_candidates_batch t es cap)" "io_all P (entity_counts t eo)"
    "io_all P (time_in_window t lo hi cap)" "io_all P (time_after t lo cap)" "io_all P (time_timestamp_counts t)"
  by (auto simp: pk_lookup_batch_def payload_lookup_batch_def rerank_lookup_batch_def radj_incoming_batch_def entity_candidates_batch_def
      entity_counts_def time_in_window_def time_after_def time_timestamp_counts_def table_get_many_def split: option.split)

lemma wal_reads [simp]: "io_all P (read_manifest mc ns)" "io_all P (wal_head ns)" "io_all P (resolve_head ns)" "io_all P (wal_scan wc ns a t)"
    "io_all P (wal_scan_up_to wc ns a h)" "io_all P (list_wal ns s l)"
  by (auto simp: read_manifest_def wal_head_def resolve_head_def read_head_pointer_def wal_scan_def wal_scan_up_to_def fetch_slot_def list_wal_def
      Let_def split: option.split)

lemma generation_reads [simp]: "io_all P (get_imm p)" "io_all P (get_imm_opt p)" "io_all P (get_bytes p)" "io_all P (read_tombstones env p)"
    "io_all P (read_fts_split env files)" "io_all P (read_generation env files v)"
  by (auto simp: get_imm_def get_imm_opt_def get_bytes_def read_tombstones_def read_fts_split_def read_generation_def split: sum.split)

lemma open_reads [simp]: "io_all P (load_segment env seg fti)" "io_all P (load_type_segments env reuse t segs)"
    "io_all P (ids_in_segments ss ids)" "io_all P (count_type ts items ss)" "io_all P (read_overlays env segs)"
proof -
  show load: "io_all P (load_segment env seg fti)" for seg fti
    unfolding load_segment_def Let_def by (intro io_all_try) (simp_all split: if_split)
  show "io_all P (load_type_segments env reuse t segs)"
    by (auto simp: load_type_segments_def load split: option.split prod.split)
  show i: "io_all P (ids_in_segments ss ids)" for ids by (simp add: ids_in_segments_def)
  show "io_all P (count_type ts items ss)" by (simp add: count_type_def i)
  show "io_all P (read_overlays env segs)" by (simp add: read_overlays_def)
qed

lemma snapshot_reads [simp]: "io_all P (open_with_reuse env reuse ns)" "io_all P (node_open env ns)" "io_all P (reopen_after_fold env n)"
    "io_all P (reopen_extending_tail env n h)"
  by (simp_all add: open_with_reuse_def node_open_def reopen_after_fold_def reopen_extending_tail_def Let_def split_beta)

lemma fetch_reads [simp]: "io_all P (fetch_clusters env n s cs)" "io_all P (fetch_vector_blocks env s cs)" "io_all P (read_stats env s)"
  by (auto simp: fetch_clusters_def fetch_pair_def fetch_vector_blocks_def read_stats_def)

lemma point_reads [simp]: "io_all P (node_segment_ids n ids)" "io_all P (get_many env n ids v)" "io_all P (materialize_into env n f ids into)"
    "io_all P (hydrate_missing env f ids into)" "io_all P (dense_hits env n f hits)"
proof -
  have "io_all P (get_from_segment env n ws v s fd)" for ws s fd by (simp add: get_from_segment_def Let_def)
  then show "io_all P (get_many env n ids v)" by (simp add: get_many_def Let_def)
  have "io_all P (materialize_from_segment env n s ms into)" for s ms into by (simp add: materialize_from_segment_def Let_def)
  then show m: "io_all P (materialize_into env n f ids into)" for ids into by (simp add: materialize_into_def)
  show "io_all P (dense_hits env n f hits)" by (simp add: dense_hits_def m)
qed (simp_all add: node_segment_ids_def hydrate_missing_def)

lemma aggregate_reads [simp]: "io_all P (metadata_counts env n key ts)" "io_all P (link_counts env n ts)" "io_all P (node_entity_counts n ts es)"
    "io_all P (sample_members env n t b)" "io_all P (ids_matching env n ts kv tags)"
  by (auto simp: metadata_counts_def link_counts_def segment_edges_def node_entity_counts_def sample_members_def ids_matching_def Let_def
      split: option.split prod.split)

lemma scan_loop_reads: "(\<And>c. io_all P (fetch c)) \<Longrightarrow> io_all P (scan_loop fetch limit cl off cs out)"
  by (induction cs arbitrary: cl off out) (auto simp: Let_def)

lemma ordered_chunks_reads: "(\<And>c. io_all P (hyd c)) \<Longrightarrow> io_all P (ordered_chunks hyd step limit cs out consumed)"
  by (induction cs arbitrary: out consumed) (auto split: prod.split)

lemma scan_reads [simp]: "io_all P (node_scan env n t cur limit p gs)" "io_all P (scan_ordered env n ts from_ts limit p gs)"
proof -
  have "io_all P (scan_items env n f c)" for f c by (auto simp: scan_items_def split: option.split prod.split)
  then show "io_all P (node_scan env n t cur limit p gs)" by (auto simp: node_scan_def intro!: scan_loop_reads split: option.split)
  have "io_all P (ordered_candidates n ts from_ts cap)" for cap by (auto simp: ordered_candidates_def split: option.split)
  moreover have "io_all P (hydrate_chunk env n ts tl c)" for tl c by (auto simp: hydrate_chunk_def Let_def split: option.split)
  ultimately show "io_all P (scan_ordered env n ts from_ts limit p gs)"
    by (auto simp: scan_ordered_def ordered_chunks_reads split: prod.split)
qed

lemma vector_reads [simp]: "io_all P (vector_arm_segment env n s q d np tags w ex)" "io_all P (dense_arm env n f q tags depths w)"
proof -
  show v: "io_all P (vector_arm_segment env n s q d np tags w ex)" for s d np ex
    by (simp add: vector_arm_segment_def Let_def)
  show "io_all P (dense_arm env n f q tags depths w)" by (simp add: dense_arm_def v)
qed

lemma arm_reads [simp]: "io_all P (time_window_ids f lo hi cap)" "io_all P (graph_arm env n f ids by_id d tags)"
    "io_all P (temporal_arm env n f q lo hi tags mat)"
proof -
  show t: "io_all P (time_window_ids f lo hi cap)" for lo hi cap by (simp add: time_window_ids_def)
  show "io_all P (graph_arm env n f ids by_id d tags)"
    by (simp add: graph_arm_def seed_neighbours_def t Let_def split: prod.split)
  show "io_all P (temporal_arm env n f q lo hi tags mat)" by (simp add: temporal_arm_def t Let_def)
qed

lemma query_reads [simp]: "io_all P (run_arms env n f v qt tags depths w)" "io_all P (query_raw_metered env n t v qt tags depths tw w)"
    "io_all P (node_query env eps n t v qt tags k c)" "io_all P (derive_links_for_write env n ms)"
proof -
  show r: "io_all P (run_arms env n f v qt tags depths w)" for f v qt tags depths w
    unfolding run_arms_def Let_def by (intro io_all_try) (auto split: option.split prod.split)
  show q: "io_all P (query_raw_metered env n t v qt tags depths tw w)" for t v qt tags depths tw w
    by (auto simp: query_raw_metered_def r Let_def split: option.split prod.split)
  show "io_all P (node_query env eps n t v qt tags k c)" by (simp add: node_query_def q Let_def)
  show "io_all P (derive_links_for_write env n ms)" by (simp add: derive_links_for_write_def query_neighbours_def q Let_def)
qed

lemma warm_reads [simp]: "io_all P (node_warm n)"
  by (simp add: node_warm_def)

end

interpretation reading: request_policy is_read
  by unfold_locales

section \<open>What a fold may write\<close>

text \<open>Besides reading, a fold writes objects under its own segment prefix and swaps the manifest against a version.\<close>
definition fold_request :: "string \<Rightarrow> string \<Rightarrow> request \<Rightarrow> bool" where
  "fold_request ns seg_id q = (case q of
     ReqPut p _ Overwrite \<Rightarrow> is_prefix (segment_prefix ns seg_id @ ''/'') p
   | ReqPut p _ (Update _) \<Rightarrow> p = manifest_path ns
   | _ \<Rightarrow> is_read q)"

locale fold_policy = request_policy +
  fixes ns seg_id :: string
  assumes own_file: "P (ReqPut (segment_prefix ns seg_id @ CHR ''/'' # k) b Overwrite)"
    and manifest_swap: "P (ReqPut (manifest_path ns) b (Update e))"
begin

lemma put_own: "io_all P (store_put (segment_prefix ns seg_id @ CHR ''/'' # k) b)"
  by (auto simp: store_put_def os_put_def own_file split: response.split)

lemma tombstones_own [simp]: "io_all P (write_tombstones env (segment_prefix ns seg_id) t)"
  using put_own[of "''tombstones.bin''"] by (simp add: write_tombstones_def tombstones_key_def)

lemma put_typed: "io_all P (store_put (type_prefix ns seg_id t @ k) b)"
  using put_own[of "''mt'' @ show_nat (unat t) @ k"] by (simp add: type_prefix_def)

lemma put_all_own: "(\<And>k b. (k, b) \<in> set puts \<Longrightarrow> io_all P (store_put k b)) \<Longrightarrow> io_all P (put_all puts)"
  unfolding put_all_def by (intro io_all_try io_all_try_map_set) (auto split: prod.split)

lemma write_pair_own [simp]: "io_all P (write_pair env (type_prefix ns seg_id t) w)"
  by (auto simp: write_pair_def write_cluster_file_def write_vector_block_def cluster_key_def vector_key_def put_typed split: prod.split sum.split)

lemma generation_puts_own: "(k, b) \<in> set (generation_puts env p c fts tagb statb tb) \<Longrightarrow> \<exists>f. k = p @ f"
  by (auto simp: generation_puts_def centroids_key_def tag_summary_key_def fts_key_def radj_idx_key_def radj_data_key_def pk_idx_key_def
      pk_data_key_def stats_key_def entity_idx_key_def entity_data_key_def time_idx_key_def time_data_key_def created_idx_key_def
      created_data_key_def payload_idx_key_def payload_data_key_def rerank_idx_key_def rerank_data_key_def)

lemma write_generation_own [simp]:
  "io_all P (write_generation env (type_prefix ns seg_id t) c cps vps fts tb sm dc ns' nc meta)"
proof -
  have "io_all P (put_all (generation_puts env (type_prefix ns seg_id t) c fts tagb statb tb))" for tagb statb
    by (rule put_all_own) (auto dest!: generation_puts_own simp: put_typed)
  then show ?thesis by (auto simp: write_generation_def Let_def split: option.split)
qed

lemma build_own [simp]: "io_all P (build_indexes env opts ns seg_id items)"
proof -
  have "io_all P (build_memory_type_index env opts ns seg_id ti)" for ti
    by (auto simp: build_memory_type_index_def Let_def split: prod.split option.split)
  then show ?thesis by (simp add: build_indexes_def)
qed

lemma publish_swaps [simp]: "io_all P (publish env ns etag nxt docs)"
  by (auto simp: publish_def swap_manifest_def manifest_swap Let_def split: option.split)

lemma fold_reads [simp]: "io_all P (read_seg_data env v segs)" "io_all P (fetch_patched env n scan ids)"
  by (auto simp: read_seg_data_def read_types_def fetch_patched_def split: prod.split)

lemma folds_comply: "io_all P (index_ns env opts ns seg_id)" "io_all P (flush env opts ns seg_id)" "io_all P (minor_compact env opts ns seg_id k)"
proof -
  show "io_all P (index_ns env opts ns seg_id)" by (simp add: index_ns_def Let_def split_beta)
  show f: "io_all P (flush env opts ns seg_id)" by (simp add: flush_def Let_def split_beta)
  show "io_all P (minor_compact env opts ns seg_id k)" by (simp add: minor_compact_def f Let_def split_beta)
qed

end

interpretation folding: fold_policy "fold_request ns seg_id" ns seg_id for ns seg_id
proof
  show "is_read q \<Longrightarrow> fold_request ns seg_id q" for q by (cases q) (simp_all add: fold_request_def)
qed (simp_all add: fold_request_def is_prefix_def)

section \<open>A published manifest is backed by files\<close>

definition wrote :: "event list \<Rightarrow> path \<Rightarrow> bool" where
  "wrote es p = (\<exists>b e. (ReqPut p b Overwrite, RspPut (Inr e)) \<in> set es)"

lemma wrote_append [simp]: "wrote (es @ fs) p \<longleftrightarrow> wrote es p \<or> wrote fs p"
  by (auto simp: wrote_def)

lemma wrote_mono: "wrote es p \<Longrightarrow> set es \<subseteq> set fs \<Longrightarrow> wrote fs p"
  by (auto simp: wrote_def)

lemma follows_put: "follows (store_put p b) es (Inr e) \<Longrightarrow> wrote es p"
  by (auto simp: store_put_def os_put_def wrote_def split: response.splits sum.splits)

text \<open>Each element's program ran on a part of the events.\<close>
lemma follows_try_map:
  "follows (io_try_map f xs) es (Inr ys) \<Longrightarrow> list_all2 (\<lambda>x y. \<exists>fs. set fs \<subseteq> set es \<and> follows (f x) fs (Inr y)) xs ys"
proof (induction xs arbitrary: es ys)
  case Nil then show ?case by simp
next
  case (Cons x xs)
  from Cons.prems obtain es1 es2 y zs where *: "es = es1 @ es2" "follows (f x) es1 (Inr y)" "follows (io_try_map f xs) es2 (Inr zs)" "ys = y # zs"
    unfolding io_try_map.simps follows_try_Inr by auto
  have "list_all2 (\<lambda>x y. \<exists>fs. set fs \<subseteq> set es2 \<and> follows (f x) fs (Inr y)) xs zs" by (rule Cons.IH[OF *(3)])
  then have "list_all2 (\<lambda>x y. \<exists>fs. set fs \<subseteq> set es \<and> follows (f x) fs (Inr y)) xs zs"
    by (rule list_all2_mono) (auto simp: *(1))
  moreover have "set es1 \<subseteq> set es" by (simp add: *(1))
  ultimately show ?case using *(2) by (auto simp: *(4))
qed

lemma follows_try_map_in:
  assumes "follows (io_try_map f xs) es (Inr ys)" "x \<in> set xs"
  obtains fs y where "set fs \<subseteq> set es" "follows (f x) fs (Inr y)"
proof -
  from assms(2) obtain i where "i < length xs" "xs ! i = x" by (auto simp: in_set_conv_nth)
  then show thesis using list_all2_nthD[OF follows_try_map[OF assms(1)]] that by blast
qed

lemma follows_try_map_out:
  assumes "follows (io_try_map f xs) es (Inr ys)" "y \<in> set ys"
  obtains fs x where "set fs \<subseteq> set es" "follows (f x) fs (Inr y)"
proof -
  from assms(2) obtain i where "i < length ys" "ys ! i = y" by (auto simp: in_set_conv_nth)
  then show thesis using list_all2_nthD2[OF follows_try_map[OF assms(1)]] that by blast
qed

lemma follows_put_all:
  assumes "follows (put_all puts) es (Inr u)" "k \<in> fst ` set puts"
  shows "wrote es k"
proof -
  from assms(1) obtain es1 ys where e: "set es1 \<subseteq> set es" "follows (io_try_map (\<lambda>(k, b). fstore (store_put k b)) puts) es1 (Inr ys)"
    unfolding put_all_def follows_try_Inr by auto
  from assms(2) obtain b where b: "(k, b) \<in> set puts" by auto
  from e(2) b obtain fs y where f: "set fs \<subseteq> set es1" "follows (store_put k b) fs (Inr y)"
    by (rule follows_try_map_in) (simp only: prod.case follows_map_err_Inr)
  show ?thesis by (rule wrote_mono[OF follows_put[OF f(2)] order_trans[OF f(1) e(1)]])
qed

lemma all_paths_at: "set (gf_all_paths (generation_files_at p cps vps)) \<subseteq> set cps \<union> set vps \<union> fst ` set (generation_puts env p c fts tagb statb tb)"
  unfolding gf_all_paths_def generation_files_at_def generation_puts_def
  by (rule subset_trans[OF filter_is_subset], simp, blast)

lemma follows_write_generation:
  assumes "follows (write_generation env p c cps vps fts tb sm dc ns' nc meta) es (Inr files)"
  shows "\<forall>k \<in> set (gf_all_paths files). k \<in> set cps \<or> k \<in> set vps \<or> wrote es k"
proof -
  from assms obtain tagb statb where *: "follows (put_all (generation_puts env p c fts tagb statb tb)) es (Inr ())"
      "files = generation_files_at p cps vps"
    unfolding write_generation_def Let_def by (auto simp: follows_try_Inr split: option.splits)
  show ?thesis using all_paths_at[of p cps vps env c fts tagb statb tb] follows_put_all[OF *(1)] by (auto simp: *(2))
qed

lemma follows_write_pair: "follows (write_pair env p w) es (Inr (c, v)) \<Longrightarrow> wrote es c \<and> wrote es v"
  by (auto simp: write_pair_def write_cluster_file_def write_vector_block_def follows_try_Inr dest: follows_put split: prod.splits sum.splits)

lemma follows_build_type:
  assumes "follows (build_memory_type_index env opts ns seg_id ti) es (Inr (t, fti))"
  shows "\<forall>p \<in> set (fi_all_paths fti). wrote es p"
proof -
  obtain t' items where ti: "ti = (t', items)" by fastforce
  let ?p = "type_prefix ns seg_id t'"
  from assms obtain ps ws es1 es2 c fts tb sm dc a b meta where *:
    "set es1 \<subseteq> set es" "follows (io_try_map (write_pair env ?p) ws) es1 (Inr ps)"
    "set es2 \<subseteq> set es" "follows (write_generation env ?p c (map fst ps) (map snd ps) fts tb sm dc a b meta) es2 (Inr (fi_files fti))"
    unfolding build_memory_type_index_def ti prod.case Let_def follows_try_Inr
    by (elim exE conjE) (simp add: follows_try_Inr split_beta, elim exE conjE, simp, blast)
  have w: "wrote es1 (fst q) \<and> wrote es1 (snd q)" if "q \<in> set ps" for q
  proof -
    from *(2) that obtain fs x where f: "set fs \<subseteq> set es1" "follows (write_pair env ?p x) fs (Inr q)" by (rule follows_try_map_out)
    have "wrote fs (fst q) \<and> wrote fs (snd q)" using follows_write_pair[of env ?p x fs "fst q" "snd q"] f(2) by simp
    then show ?thesis using f(1) by (blast intro: wrote_mono)
  qed
  show ?thesis
  proof
    fix k assume "k \<in> set (fi_all_paths fti)"
    with follows_write_generation[OF *(4)] consider "k \<in> fst ` set ps" | "k \<in> snd ` set ps" | "wrote es2 k"
      by (auto simp: fi_all_paths_def)
    then show "wrote es k" using w *(1,3) by cases (blast intro: wrote_mono)+
  qed
qed

lemma follows_build_indexes:
  assumes "follows (build_indexes env opts ns seg_id items) es (Inr ixs)" "(t, fti) \<in> set ixs" "p \<in> set (fi_all_paths fti)"
  shows "wrote es p"
proof -
  from assms(1)[unfolded build_indexes_def] assms(2) obtain fs ti
    where "set fs \<subseteq> set es" "follows (build_memory_type_index env opts ns seg_id ti) fs (Inr (t, fti))"
    by (rule follows_try_map_out)
  with follows_build_type[of env opts ns seg_id ti fs t fti] assms(3) show ?thesis by (blast intro: wrote_mono)
qed

lemma follows_write_tombstones: "follows (write_tombstones env p t) es (Inr k) \<Longrightarrow> k = [] \<or> wrote es k"
  by (auto simp: write_tombstones_def follows_try_Inr dest: follows_put split: if_splits)

text \<open>\<open>yields m Q\<close>: whenever \<open>m\<close> returns a value, the events and the value satisfy \<open>Q\<close>.\<close>
definition yields :: "('e + 'a) io \<Rightarrow> (event list \<Rightarrow> 'a \<Rightarrow> bool) \<Rightarrow> bool" where
  "yields m Q = (\<forall>es x. follows m es (Inr x) \<longrightarrow> Q es x)"

lemma yields_any: "yields m (\<lambda>_ _. True)"
  by (simp add: yields_def)

lemma yields_try:
  assumes "yields m Q" "\<And>x es1. Q es1 x \<Longrightarrow> yields (f x) (\<lambda>es2 y. R (es1 @ es2) y)"
  shows "yields (io_try m f) R"
  using assms unfolding yields_def follows_try_Inr by blast

lemma yields_skip: "(\<And>x es1. yields (f x) (\<lambda>es2 y. R (es1 @ es2) y)) \<Longrightarrow> yields (io_try m f) R"
  by (rule yields_try[OF yields_any])

definition read_event :: "'d build_env \<Rightarrow> string \<Rightarrow> event list \<Rightarrow> manifest \<times> etag option \<Rightarrow> bool" where
  "read_event env ns es r = (\<exists>bs. (ReqGet (manifest_path ns) None, RspGet (Inr (bs, snd r))) \<in> set es
     \<and> manifest_from_bytes (be_manifest env) bs = Inr (fst r))"

lemma yields_read_manifest: "yields (fwal (read_manifest (be_manifest env) ns)) (read_event env ns)"
  unfolding yields_def follows_map_err_Inr read_event_def by (fastforce elim: follows_read_manifest)

lemma yields_build_indexes: "yields (build_indexes env opts ns seg_id items) (\<lambda>es ixs. \<forall>i \<in> set ixs. \<forall>p \<in> set (fi_all_paths (snd i)). wrote es p)"
  unfolding yields_def by (fastforce dest: follows_build_indexes)

lemma yields_write_tombstones: "yields (write_tombstones env p t) (\<lambda>es k. k = [] \<or> wrote es k)"
  unfolding yields_def using follows_write_tombstones by blast

text \<open>What a successful publication leaves in the history: the manifest it read under a version, and a conditional put of
  the next one against that version, which lists a new segment in front of segments of the old one and names for the
  new segment only objects this run wrote.\<close>
definition publication :: "'d build_env \<Rightarrow> string \<Rightarrow> string \<Rightarrow> nat \<Rightarrow> event list \<Rightarrow> bool" where
  "publication env ns seg_id docs es = (\<exists>bs e m nxt b e' s k.
     (ReqGet (manifest_path ns) None, RspGet (Inr (bs, Some e))) \<in> set es \<and> manifest_from_bytes (be_manifest env) bs = Inr m
     \<and> encode (be_manifest env) nxt = Some b \<and> (ReqPut (manifest_path ns) b (Update e), RspPut (Inr e')) \<in> set es
     \<and> mf_version nxt = mf_version m + 1 \<and> mf_prev_wal_index_cursor nxt = mf_wal_index_cursor m
     \<and> mf_segments nxt = s # drop k (mf_segments m) \<and> sg_id s = seg_id \<and> sg_doc_count s = docs \<and> sg_seq_hi s = mf_wal_index_cursor nxt
     \<and> set (mf_prev_segments nxt) \<subseteq> set (mf_segments m) \<and> (\<forall>p \<in> set (sg_all_paths s). wrote es p))"

lemma follows_publish:
  assumes "follows (publish env ns etag nxt docs) es (Inr out)" "out_published out"
  obtains e b e' where "etag = Some e" "encode (be_manifest env) nxt = Some b"
    "(ReqPut (manifest_path ns) b (Update e), RspPut (Inr e')) \<in> set es" "out_doc_count out = docs"
proof -
  from assms obtain e where e: "etag = Some e" by (auto simp: publish_def Let_def split: option.splits)
  from assms(1) obtain y where y: "follows (swap_manifest (be_manifest env) ns e nxt) es y"
      "(case y of Inr _ \<Rightarrow> Inr \<lparr>out_generation = mf_version nxt, out_doc_count = docs, out_published = True\<rparr>
        | Inl e \<Rightarrow> if wal_is_conflict e then Inr \<lparr>out_generation = mf_version nxt, out_doc_count = docs, out_published = False\<rparr>
            else Inl (Failed (IWal e))) = Inr out"
    unfolding publish_def Let_def e option.case follows_bind by auto
  from y assms(2) obtain r where r: "follows (swap_manifest (be_manifest env) ns e nxt) es (Inr r)" "out_doc_count out = docs"
    by (auto split: sum.splits if_splits)
  from r(1) obtain b es2 x where b: "encode (be_manifest env) nxt = Some b" "set es2 \<subseteq> set es"
      "follows (store_cas_swap (manifest_path ns) e b) es2 (Inr x)"
    by (auto simp: swap_manifest_def follows_try_Inr split: option.splits)
  from b(3) obtain e' where "(ReqPut (manifest_path ns) b (Update e), RspPut (Inr e')) \<in> set es2"
    by (auto simp: store_cas_swap_def os_put_def split: response.splits sum.splits os_error.splits)
  with e b(1,2) r(2) show thesis by (intro that) auto
qed

lemma yields_publish:
  assumes m: "read_event env ns es1 (m, etag)" and sub: "set es1 \<subseteq> set fs"
    and nxt: "mf_version nxt = mf_version m + 1" "mf_prev_wal_index_cursor nxt = mf_wal_index_cursor m"
      "mf_segments nxt = s # drop k (mf_segments m)" "sg_id s = seg_id" "sg_doc_count s = docs" "sg_seq_hi s = mf_wal_index_cursor nxt"
      "set (mf_prev_segments nxt) \<subseteq> set (mf_segments m)"
    and wr: "\<And>i p. i \<in> set (sg_indexes s) \<Longrightarrow> p \<in> set (fi_all_paths (snd i)) \<Longrightarrow> wrote fs p" "sg_tombstones s = [] \<or> wrote fs (sg_tombstones s)"
  shows "yields (publish env ns etag nxt docs) (\<lambda>es out. out_published out \<longrightarrow> publication env ns seg_id (out_doc_count out) (fs @ es))"
  unfolding yields_def
proof (intro allI impI)
  fix es out assume f: "follows (publish env ns etag nxt docs) es (Inr out)" and p: "out_published out"
  obtain e b e' where e: "etag = Some e" "encode (be_manifest env) nxt = Some b"
      "(ReqPut (manifest_path ns) b (Update e), RspPut (Inr e')) \<in> set es" "out_doc_count out = docs"
    by (rule follows_publish[OF f p])
  obtain bs where bs: "(ReqGet (manifest_path ns) None, RspGet (Inr (bs, Some e))) \<in> set (fs @ es)" "manifest_from_bytes (be_manifest env) bs = Inr m"
    using m sub e(1) by (auto simp: read_event_def)
  have put: "(ReqPut (manifest_path ns) b (Update e), RspPut (Inr e')) \<in> set (fs @ es)" using e(3) by simp
  have paths: "\<forall>p \<in> set (sg_all_paths s). wrote (fs @ es) p" using wr(2) by (auto simp: sg_all_paths_def dest: wr(1))
  show "publication env ns seg_id (out_doc_count out) (fs @ es)"
    unfolding publication_def using bs put e(2,4) nxt paths by blast
qed

abbreviation publishes :: "'d build_env \<Rightarrow> string \<Rightarrow> string \<Rightarrow> (fold_error + index_outcome) io \<Rightarrow> bool" where
  "publishes env ns seg_id m \<equiv> yields m (\<lambda>es out. out_published out \<longrightarrow> publication env ns seg_id (out_doc_count out) es)"

lemma index_publishes: "publishes env ns seg_id (index_ns env opts ns seg_id)"
  unfolding index_ns_def Let_def
proof (rule yields_try[OF yields_read_manifest], unfold split_paired_all prod.case,
    rule yields_skip, rule yields_skip, rule yields_skip, rule yields_try[OF yields_build_indexes], goal_cases)
  case (1 m etag es1 head es2 segs es3 scan es4 ixs es5)
  show ?case unfolding append_assoc[symmetric]
    by (rule yields_publish[OF 1(1), where k = "length (mf_segments m)"]) (use 1(2) in \<open>auto simp: advance_def\<close>)
qed

lemma flush_publishes: "publishes env ns seg_id (flush env opts ns seg_id)"
  unfolding flush_def Let_def
proof (rule yields_try[OF yields_read_manifest], unfold split_paired_all prod.case, rule yields_skip, goal_cases)
  case (1 m etag es1 head es2)
  show ?case
  proof (cases "head \<le> mf_wal_index_cursor m")
    case True then show ?thesis by (simp add: yields_def)
  next
    case False
    note m = 1
    show ?thesis unfolding if_not_P[OF False]
    proof (rule yields_skip, rule yields_skip, rule yields_skip, rule yields_skip, rule yields_try[OF yields_build_indexes],
        rule yields_try[OF yields_write_tombstones], goal_cases)
      case (1 scan es3 node es4 fetched es5 reup es6 ixs es7 tp es8)
      show ?case unfolding append_assoc[symmetric]
        by (rule yields_publish[OF m, where k = 0]) (use 1 in \<open>auto simp: advance_def\<close>)
    qed
  qed
qed

lemma publication_mono: "publication env ns seg_id docs es \<Longrightarrow> set es \<subseteq> set fs \<Longrightarrow> publication env ns seg_id docs fs"
  unfolding publication_def by (elim exE, intro exI) (blast intro: wrote_mono)

lemma publication_append: "publication env ns seg_id docs es \<Longrightarrow> publication env ns seg_id docs (fs @ es)"
  by (erule publication_mono) simp

lemma yields_append: "publishes env ns seg_id m \<Longrightarrow> yields m (\<lambda>es out. out_published out \<longrightarrow> publication env ns seg_id (out_doc_count out) (es1 @ es))"
  unfolding yields_def by (auto intro: publication_append)

lemma minor_publishes: "publishes env ns seg_id (minor_compact env opts ns seg_id k)"
  unfolding minor_compact_def Let_def
proof (rule yields_try[OF yields_read_manifest], unfold split_paired_all prod.case, rule yields_skip, goal_cases)
  case (1 m etag es1 head es2)
  show ?case
  proof (cases "k < 2 \<or> length (mf_segments m) < k")
    case True
    show ?thesis unfolding if_P[OF True] append_assoc[symmetric] by (rule yields_append[OF flush_publishes])
  next
    case False
    note m = 1
    show ?thesis unfolding if_not_P[OF False]
    proof (rule yields_skip, rule yields_skip, rule yields_skip, rule yields_skip, rule yields_skip, rule yields_try[OF yields_build_indexes],
        rule yields_try[OF yields_write_tombstones], goal_cases)
      case (1 segs es3 scan es4 node es5 fetched es6 ins es7 ixs es8 tp es9)
      show ?case unfolding append_assoc[symmetric]
        by (rule yields_publish[OF m, where k = k]) (use 1 in \<open>auto simp: advance_def\<close>)
    qed
  qed
qed

section \<open>Properties\<close>

text \<open>C10. Queries only read.  Opening and reopening a snapshot, point reads, counters, both scans, the search of every arm and the links
  derived for a write issue no put and no delete, whatever the store answers.\<close>
theorem queries_only_read:
  "io_all is_read (node_open env ns) \<and> io_all is_read (reopen_after_fold env n) \<and> io_all is_read (reopen_extending_tail env n h)
   \<and> io_all is_read (get_many env n ids v) \<and> io_all is_read (node_scan env n t cur limit p gs)
   \<and> io_all is_read (scan_ordered env n ts from_ts limit p gs) \<and> io_all is_read (metadata_counts env n key ts)
   \<and> io_all is_read (link_counts env n ts) \<and> io_all is_read (node_entity_counts n ts es) \<and> io_all is_read (ids_matching env n ts kv tags)
   \<and> io_all is_read (query_raw_metered env n t q qt tags depths tw w) \<and> io_all is_read (derive_links_for_write env n ms)"
  by (intro conjI) simp_all

text \<open>C9. A fold touches nothing but its own files and the manifest.  Whatever the store answers, a rebuild, a flush and a minor compaction
  put objects only under the prefix of the segment they build, replace the manifest only against the version they read it at,
  and delete nothing.\<close>
theorem folds_write_only_own_files:
  "io_all (fold_request ns seg_id) (index_ns env opts ns seg_id) \<and> io_all (fold_request ns seg_id) (flush env opts ns seg_id)
   \<and> io_all (fold_request ns seg_id) (minor_compact env opts ns seg_id k)"
  by (intro conjI folding.folds_comply)


subsection \<open>Witnesses\<close>

definition const_arith :: "(f32, unit) arith" where
  "const_arith = \<lparr>lit = (\<lambda>_. 0), of_usize = (\<lambda>_. 0), f_inf = 0, f_ninf = 0, fadd = (\<lambda>_ _. 0), fsub = (\<lambda>_ _. 0), fmul = (\<lambda>_ _. 0),
     fdiv = (\<lambda>_ _. 0), fneg = (\<lambda>_. 0), fabs = (\<lambda>_. 0), fsqrt = (\<lambda>_. 0), fround = (\<lambda>_. 0), flt = (\<lambda>_ _. False), fle = (\<lambda>_ _. True),
     feq = (\<lambda>_ _. True), fmin = (\<lambda>_ _. 0), fmax = (\<lambda>_ _. 0), as_u8 = (\<lambda>_. 0), mul_add = (\<lambda>_ _ _. 0), reduce_add = (\<lambda>_. 0),
     widen = (\<lambda>_. ()), narrow = (\<lambda>_. 0), dzero = (), dadd = (\<lambda>_ _. ()), dmul = (\<lambda>_ _. ()), ddiv = (\<lambda>_ _. ()), dle = (\<lambda>_ _. True),
     d_of_usize = (\<lambda>_. ()), sqrt_round = (\<lambda>_. 1)\<rparr>"

definition const_time :: "(f32, unit) time_arith" where
  "const_time = \<lparr>ta_of_i64 = (\<lambda>_. ()), ta_lit = (\<lambda>_. ()), ta_div = (\<lambda>_ _. ()), ta_mul = (\<lambda>_ _. ()), ta_sub = (\<lambda>_ _. ()),
     ta_min = (\<lambda>_ _. ()), ta_le = (\<lambda>_ _. True), ta_as_isize = (\<lambda>_. 0), ta_narrow = (\<lambda>_. 0)\<rparr>"

definition sample_delete :: wal_entry where
  "sample_delete = wal_entry_new 1 [Tombstone (MemoryId [1])]"

definition sample_flushed :: manifest where
  "sample_flushed = advance (manifest_empty [] []) 1 [] [\<lparr>sg_id = ''s'', sg_level = 0, sg_seq_lo = 1, sg_seq_hi = 1, sg_doc_count = 0,
     sg_indexes = [], sg_tombstones = tombstones_key (segment_prefix ''n'' ''s'')\<rparr>]"

definition sample_env :: "unit build_env" where
  "sample_env = \<lparr>be_arith = const_arith, be_edges = \<lparr>f_tanh = id, half_to = (\<lambda>_. 0), single_to = id\<rparr>, be_to_half = (\<lambda>_. 0),
     be_time = const_time, be_ceil = (\<lambda>_. 0), be_cluster = table_codec [], be_write_centroids = (\<lambda>_. []), be_read_centroids = (\<lambda>_. None),
     be_write_tombstones = (\<lambda>_. [7]), be_read_tombstones = (\<lambda>_. None), be_write_payload = (\<lambda>_. []), be_read_payload = (\<lambda>_. None),
     be_summary = table_codec [], be_stats = table_codec [], be_fts = (\<lambda>_. Some []), be_fts_opens = (\<lambda>_. True), be_fts_search = (\<lambda>_ _ _ _. []),
     be_tokenizer_hash = [], be_manifest = table_codec [(manifest_empty [] [], [1]), (sample_flushed, [3])],
     be_entry = table_codec [(sample_delete, [2])]\<rparr>"

definition sample_log :: obj_store where
  "sample_log = write_obj (wal_path ''n'' 1) [2] (write_obj (manifest_path ''n'') [1] empty_store)"

lemma sample_log_simps [simp]:
  "lookup_obj sample_log (manifest_path ''n'') = Some \<lparr>ob_bytes = [1], ob_tag = 0, ob_modified = 0\<rparr>"
  "lookup_obj sample_log (wal_path ''n'' q) = (if q = 1 then Some \<lparr>ob_bytes = [2], ob_tag = 1, ob_modified = 0\<rparr> else None)"
  "lookup_obj sample_log (wal_head_pointer_path ''n'') = None"
proof -
  show "lookup_obj sample_log (wal_path ''n'' q) = (if q = 1 then Some \<lparr>ob_bytes = [2], ob_tag = 1, ob_modified = 0\<rparr> else None)"
    using wal_path_inj[of "''n''" q 1]
    by (auto simp: sample_log_def lookup_obj_def write_obj_def empty_store_def manifest_path_def wal_path_def)
qed (simp_all add: sample_log_def lookup_obj_def write_obj_def empty_store_def manifest_path_def wal_path_def wal_head_pointer_path_def)

lemma sample_log_clean: "wal_clean ''n'' sample_log" "log_readable (be_entry sample_env) ''n'' sample_log" "listed_head ''n'' sample_log = 1"
proof -
  have "\<not> under_prefix (''n'' @ ''/wal/'') (manifest_path ''n'')"
    by (simp add: under_prefix_def strip_slash_def is_prefix_def manifest_path_def)
  then show "wal_clean ''n'' sample_log"
    by (auto simp: wal_clean_def bt_store_def sample_log_def write_obj_def empty_store_def neq_iff U64_LIMIT_def intro!: exI[of _ 1])
  show "log_readable (be_entry sample_env) ''n'' sample_log"
    by (auto simp: log_readable_def sample_env_def table_codec_def split: if_split_asm)
  have "wal_seqs ''n'' sample_log = {1}" by (auto simp: wal_seqs_def U64_LIMIT_def)
  then show "listed_head ''n'' sample_log = 1" by (simp add: listed_head_def)
qed

lemma sample_runs [simp]:
  "run (read_manifest (be_manifest sample_env) ''n'') sample_log = (Inr (manifest_empty [] [], Some (tag_etag 0)), sample_log)"
  "run (wal_head ''n'') sample_log = (Inr 1, sample_log)"
  "run (wal_scan (be_entry sample_env) ''n'' 0 (Some 1)) sample_log = (Inr (fold_entries [sample_delete]), sample_log)"
  "run (wal_scan_up_to (be_entry sample_env) ''n'' 0 1) sample_log = (Inr (fold_entries [sample_delete]), sample_log)"
proof -
  show "run (read_manifest (be_manifest sample_env) ''n'') sample_log = (Inr (manifest_empty [] [], Some (tag_etag 0)), sample_log)"
    by (simp add: read_manifest_def io_simps manifest_from_bytes_def sample_env_def table_codec_def manifest_empty_def)
  show "run (wal_head ''n'') sample_log = (Inr 1, sample_log)" using run_wal_head[OF sample_log_clean(1)] by (simp add: sample_log_clean(3))
  have "List.map_filter (entry_at (be_entry sample_env) ''n'' sample_log) [0 + 1..<1 + 1] = [sample_delete]"
    by (simp add: entry_at_def sample_env_def table_codec_def List.map_filter_simps)
  with run_scan_up_to[OF sample_log_clean(2), of 0 1]
  show up: "run (wal_scan_up_to (be_entry sample_env) ''n'' 0 1) sample_log = (Inr (fold_entries [sample_delete]), sample_log)" by simp
  show "run (wal_scan (be_entry sample_env) ''n'' 0 (Some 1)) sample_log = (Inr (fold_entries [sample_delete]), sample_log)"
    using run_scans_agree[OF sample_log_clean(1,2), of 1 0] up by (simp add: U64_LIMIT_def)
qed

lemmas sample_runs_Suc [simp] = sample_runs(2-4)[unfolded One_nat_def]

lemma sample_tail: "ts_upserts (fold_entries [sample_delete]) = []" "ts_tombstones (fold_entries [sample_delete]) = [MemoryId [1]]"
    "ts_pending_patches (fold_entries [sample_delete]) = []" "ts_predicate_tombstones (fold_entries [sample_delete]) = []"
  by (simp_all add: fold_entries_def fold_entry_def sample_delete_def wal_entry_new_def tail_scan_default_def bt_delete_def)

lemma sample_open: "\<exists>n. run (node_open sample_env ''n'') sample_log = (Inr n, sample_log) \<and> qn_per_type n = []"
proof -
  have "run (resolve_head ''n'') sample_log = (Inr 1, sample_log)" by (simp add: resolve_head_def io_simps)
  then show ?thesis
    by (simp add: node_open_def open_with_reuse_def io_simps sample_tail Let_def read_overlays_def mf_memory_types_def sort_dedup_def bt_group_def
        manifest_empty_def)
qed

lemma sample_fields: "mf_wal_index_cursor (manifest_empty h ks) = 0" "mf_segments (manifest_empty h ks) = []" "mf_version (manifest_empty h ks) = 0"
  by (simp_all add: manifest_empty_def)

lemma sample_encode: "encode (be_manifest sample_env) sample_flushed = Some [3]"
  by (simp add: sample_env_def table_codec_def sample_flushed_def advance_def manifest_empty_def)

lemma sample_flush: "\<exists>s. run (flush sample_env index_options_default ''n'' ''s'') sample_log
    = (Inr \<lparr>out_generation = 1, out_doc_count = 0, out_published = True\<rparr>, s)"
proof -
  obtain n where n: "run (node_open sample_env ''n'') sample_log = (Inr n, sample_log)" "qn_per_type n = []" using sample_open by blast
  have ne: "manifest_path ''n'' \<noteq> tombstones_key (segment_prefix ''n'' ''s'')"
    by (simp add: manifest_path_def tombstones_key_def segment_prefix_def)
  have "run (flush sample_env index_options_default ''n'' ''s'') sample_log
      = run (publish sample_env ''n'' (Some (tag_etag 0)) sample_flushed 0)
          (write_obj (tombstones_key (segment_prefix ''n'' ''s'')) [7] sample_log)"
    by (simp add: flush_def io_simps n sample_fields sample_tail fetch_patched_def patch_only_def slice_items_def node_segment_ids_def
        build_indexes_def group_by_type_def bt_group_def write_tombstones_def sort_dedup_def sample_flushed_def)
      (simp add: sample_env_def)
  also have "\<dots> = (Inr \<lparr>out_generation = 1, out_doc_count = 0, out_published = True\<rparr>,
      snd (run (publish sample_env ''n'' (Some (tag_etag 0)) sample_flushed 0) (write_obj (tombstones_key (segment_prefix ''n'' ''s'')) [7] sample_log)))"
    using ne by (simp add: publish_def swap_manifest_def io_simps sample_encode lookup_write_obj)
      (simp add: sample_flushed_def advance_def sample_fields)
  finally show ?thesis by blast
qed


end
