(* ===== verification/Cache.thy ===== *)
theory Cache
  imports Text_Format "HOL-Library.AList"
begin

text \<open>
  The local cache of immutable objects (\<open>mlake-store/src/cache.rs\<close>): two tiers with a byte budget each, whose eviction
  rings run CLOCK (or, for measurement, FIFO and LRU).  The directory of blobs is part of the state.  A tier's hash map is
  an association list with distinct keys.  Writing, reading and unlinking a blob may each fail; the outcome is an argument.
  The parts of an operation that run under separate locks are separate definitions, so that any interleaving of several
  threads is a sequence of them (\<open>cache_step\<close>).
\<close>

section \<open>Keys and entries\<close>

datatype eviction_policy = Clock | Fifo | Lru

record cache_key =
  ck_namespace :: string
  ck_path :: string
  ck_etag :: string

definition cache_key_new :: "string \<Rightarrow> string \<Rightarrow> string \<Rightarrow> cache_key" where
  "cache_key_new ns p e = \<lparr>ck_namespace = ns, ck_path = p, ck_etag = e\<rparr>"

definition hex_digit :: "nat \<Rightarrow> char" where
  "hex_digit d = (if d < 10 then char_of (48 + d) else char_of (87 + d))"

fun hex_fixed :: "nat \<Rightarrow> nat \<Rightarrow> string" where
  "hex_fixed 0 n = []"
| "hex_fixed (Suc w) n = hex_fixed w (n div 16) @ [hex_digit (n mod 16)]"

text \<open>FNV-1a over the bytes of the three parts, each closed by a byte no UTF-8 text contains.\<close>
definition fnv_step :: "u64 \<Rightarrow> u8 \<Rightarrow> u64" where
  "fnv_step h b = xor h (ucast b) * 0x100000001b3"

definition key_hash :: "cache_key \<Rightarrow> u64" where
  "key_hash k = fold (\<lambda>part h. fnv_step (fold (\<lambda>b h. fnv_step h b) (ascii_bytes part) h) 0xff)
     [ck_namespace k, ck_path k, ck_etag k] 0xcbf29ce484222325"

definition filename :: "cache_key \<Rightarrow> string" where
  "filename k = hex_fixed 16 (unat (key_hash k)) @ ''.blob''"

record mem_entry =
  me_bytes :: bytes
  me_seq :: nat
  me_referenced :: bool

record disk_entry =
  de_size :: nat
  de_seq :: nat
  de_referenced :: bool

type_synonym slot = "cache_key \<times> nat"

record cache_state =
  cs_mem :: "(cache_key \<times> mem_entry) list"
  cs_mem_ring :: "slot list"
  cs_mem_bytes :: nat
  cs_disk :: "(cache_key \<times> disk_entry) list"
  cs_disk_ring :: "slot list"
  cs_disk_bytes :: nat
  cs_next_seq :: nat

text \<open>The cache handle with its directory: file names and contents.\<close>
record disk_cache =
  dc_state :: cache_state
  dc_mem_budget :: nat
  dc_disk_budget :: nat
  dc_policy :: eviction_policy
  dc_hits :: nat
  dc_misses :: nat
  dc_dir :: "(string \<times> bytes) list"

definition with_policy :: "(string \<times> bytes) list \<Rightarrow> nat \<Rightarrow> nat \<Rightarrow> eviction_policy \<Rightarrow> disk_cache" where
  "with_policy dir mem_budget disk_budget policy =
     \<lparr>dc_state = \<lparr>cs_mem = [], cs_mem_ring = [], cs_mem_bytes = 0, cs_disk = [], cs_disk_ring = [], cs_disk_bytes = 0, cs_next_seq = 0\<rparr>,
      dc_mem_budget = mem_budget, dc_disk_budget = disk_budget, dc_policy = policy, dc_hits = 0, dc_misses = 0, dc_dir = dir\<rparr>"

definition with_budgets :: "(string \<times> bytes) list \<Rightarrow> nat \<Rightarrow> nat \<Rightarrow> disk_cache" where
  "with_budgets dir mem_budget disk_budget = with_policy dir mem_budget disk_budget Clock"

definition disk_cache_new :: "(string \<times> bytes) list \<Rightarrow> nat \<Rightarrow> disk_cache" where
  "disk_cache_new dir capacity = with_budgets dir (capacity div 4) capacity"

section \<open>The hand of a ring\<close>

text \<open>\<open>next_victim\<close> walks the ring.  Its two closures read the tier: the live sequence of a key, and the reference bit,
  which the closure clears as it reads it; the tier is therefore threaded through.\<close>
function next_victim_loop :: "('e \<Rightarrow> nat) \<Rightarrow> ('e \<Rightarrow> bool) \<Rightarrow> ('e \<Rightarrow> 'e) \<Rightarrow> bool \<Rightarrow> nat \<Rightarrow> slot list \<Rightarrow> (cache_key \<times> 'e) list \<Rightarrow>
    slot option \<times> slot list \<times> (cache_key \<times> 'e) list" where
  "next_victim_loop sq rf cl ck chances [] t = (None, [], t)"
| "next_victim_loop sq rf cl ck chances ((key, seq) # ring) t =
     (case map_of t key of
        None \<Rightarrow> next_victim_loop sq rf cl ck chances ring t
      | Some e \<Rightarrow>
          if sq e \<noteq> seq then next_victim_loop sq rf cl ck chances ring t
          else if ck \<and> 0 < chances then
            (let t' = AList.update key (cl e) t in
             if rf e then next_victim_loop sq rf cl ck (chances - 1) (ring @ [(key, seq)]) t'
             else (Some (key, seq), ring, t'))
          else (Some (key, seq), ring, t))"
  by pat_completeness auto
termination by (relation "measure (\<lambda>(_, _, _, _, chances, ring, _). chances + length ring)") auto

definition next_victim :: "('e \<Rightarrow> nat) \<Rightarrow> ('e \<Rightarrow> bool) \<Rightarrow> ('e \<Rightarrow> 'e) \<Rightarrow> bool \<Rightarrow> slot list \<Rightarrow> (cache_key \<times> 'e) list \<Rightarrow>
    slot option \<times> slot list \<times> (cache_key \<times> 'e) list" where
  "next_victim sq rf cl ck ring t = next_victim_loop sq rf cl ck (length ring) ring t"

lemma next_victim_loop_shorter:
  "next_victim_loop sq rf cl ck n ring t = (Some v, ring', t') \<Longrightarrow> length ring' < length ring"
  by (induction sq rf cl ck n ring t rule: next_victim_loop.induct)
     (auto simp: Let_def split: option.splits if_splits)

lemma next_victim_shorter: "next_victim sq rf cl ck ring t = (Some v, ring', t') \<Longrightarrow> length ring' < length ring"
  unfolding next_victim_def by (rule next_victim_loop_shorter)

abbreviation mem_victim :: "eviction_policy \<Rightarrow> slot list \<Rightarrow> (cache_key \<times> mem_entry) list \<Rightarrow> slot option \<times> slot list \<times> (cache_key \<times> mem_entry) list" where
  "mem_victim pol \<equiv> next_victim me_seq me_referenced (me_referenced_update (\<lambda>_. False)) (pol = Clock)"

abbreviation disk_victim :: "eviction_policy \<Rightarrow> slot list \<Rightarrow> (cache_key \<times> disk_entry) list \<Rightarrow> slot option \<times> slot list \<times> (cache_key \<times> disk_entry) list" where
  "disk_victim pol \<equiv> next_victim de_seq de_referenced (de_referenced_update (\<lambda>_. False)) (pol = Clock)"


section \<open>Operations\<close>

definition drop_mem :: "cache_key \<Rightarrow> cache_state \<Rightarrow> cache_state" where
  "drop_mem key s = (case map_of (cs_mem s) key of
     Some e \<Rightarrow> s\<lparr>cs_mem := AList.delete key (cs_mem s), cs_mem_bytes := cs_mem_bytes s - length (me_bytes e)\<rparr>
   | None \<Rightarrow> s)"

definition drop_disk :: "cache_key \<Rightarrow> cache_state \<Rightarrow> cache_state" where
  "drop_disk key s = (case map_of (cs_disk s) key of
     Some e \<Rightarrow> s\<lparr>cs_disk := AList.delete key (cs_disk s), cs_disk_bytes := cs_disk_bytes s - de_size e\<rparr>
   | None \<Rightarrow> s)"

lemma drop_rings [simp]:
  "cs_mem_ring (drop_mem k s) = cs_mem_ring s" "cs_disk_ring (drop_mem k s) = cs_disk_ring s"
  "cs_mem_ring (drop_disk k s) = cs_mem_ring s" "cs_disk_ring (drop_disk k s) = cs_disk_ring s"
  "cs_next_seq (drop_mem k s) = cs_next_seq s" "cs_next_seq (drop_disk k s) = cs_next_seq s"
  "cs_disk (drop_mem k s) = cs_disk s" "cs_disk_bytes (drop_mem k s) = cs_disk_bytes s"
  "cs_mem (drop_disk k s) = cs_mem s" "cs_mem_bytes (drop_disk k s) = cs_mem_bytes s"
  by (simp_all add: drop_mem_def drop_disk_def split: option.split)

function evict_mem :: "nat \<Rightarrow> eviction_policy \<Rightarrow> cache_state \<Rightarrow> cache_state" where
  "evict_mem budget pol s =
     (if cs_mem_bytes s \<le> budget then s
      else case mem_victim pol (cs_mem_ring s) (cs_mem s) of
        (None, ring, mem) \<Rightarrow> s\<lparr>cs_mem_ring := ring, cs_mem := mem\<rparr>
      | (Some (key, _), ring, mem) \<Rightarrow> evict_mem budget pol (drop_mem key (s\<lparr>cs_mem_ring := ring, cs_mem := mem\<rparr>)))"
  by pat_completeness auto
termination
  by (relation "measure (\<lambda>(_, _, s). length (cs_mem_ring s))") (auto dest: next_victim_shorter[OF sym])

text \<open>Evicting a blob from disk unlinks its file (which may fail, silently) and drops the copy in memory.\<close>
definition unlink_blob :: "(string \<Rightarrow> bool) \<Rightarrow> cache_key \<Rightarrow> (string \<times> bytes) list \<Rightarrow> (string \<times> bytes) list" where
  "unlink_blob unlinks key dir = (if unlinks (filename key) then AList.delete (filename key) dir else dir)"

function evict_disk :: "nat \<Rightarrow> eviction_policy \<Rightarrow> (string \<Rightarrow> bool) \<Rightarrow> cache_state \<Rightarrow> (string \<times> bytes) list \<Rightarrow> cache_state \<times> (string \<times> bytes) list" where
  "evict_disk budget pol unlinks s dir =
     (if cs_disk_bytes s \<le> budget then (s, dir)
      else case disk_victim pol (cs_disk_ring s) (cs_disk s) of
        (None, ring, disk) \<Rightarrow> (s\<lparr>cs_disk_ring := ring, cs_disk := disk\<rparr>, dir)
      | (Some (key, _), ring, disk) \<Rightarrow>
          evict_disk budget pol unlinks (drop_mem key (drop_disk key (s\<lparr>cs_disk_ring := ring, cs_disk := disk\<rparr>))) (unlink_blob unlinks key dir))"
  by pat_completeness auto
termination
  by (relation "measure (\<lambda>(_, _, _, s, _). length (cs_disk_ring s))") (auto dest: next_victim_shorter[OF sym])

declare evict_mem.simps [simp del] evict_disk.simps [simp del]

text \<open>The shared-lock half of a lookup: a hit sets the reference bits of both copies, under CLOCK only.\<close>
definition mark_disk :: "cache_key \<Rightarrow> cache_state \<Rightarrow> cache_state" where
  "mark_disk key s = (case map_of (cs_disk s) key of
     Some d \<Rightarrow> s\<lparr>cs_disk := AList.update key (d\<lparr>de_referenced := True\<rparr>) (cs_disk s)\<rparr>
   | None \<Rightarrow> s)"

definition mem_lookup :: "disk_cache \<Rightarrow> cache_key \<Rightarrow> bytes option \<times> disk_cache" where
  "mem_lookup c key = (case map_of (cs_mem (dc_state c)) key of
     None \<Rightarrow> (None, c)
   | Some e \<Rightarrow> (Some (me_bytes e),
       if dc_policy c = Clock
       then c\<lparr>dc_state := mark_disk key ((dc_state c)\<lparr>cs_mem := AList.update key (e\<lparr>me_referenced := True\<rparr>) (cs_mem (dc_state c))\<rparr>)\<rparr>
       else c))"

definition renew :: "cache_key \<Rightarrow> disk_cache \<Rightarrow> disk_cache" where
  "renew key c =
     (let s = dc_state c; seq = cs_next_seq s; s = s\<lparr>cs_next_seq := seq + 1\<rparr>;
          s = (case map_of (cs_mem s) key of
                 Some e \<Rightarrow> s\<lparr>cs_mem := AList.update key (e\<lparr>me_seq := seq\<rparr>) (cs_mem s), cs_mem_ring := cs_mem_ring s @ [(key, seq)]\<rparr>
               | None \<Rightarrow> s);
          s = (case map_of (cs_disk s) key of
                 Some e \<Rightarrow> s\<lparr>cs_disk := AList.update key (e\<lparr>de_seq := seq\<rparr>) (cs_disk s), cs_disk_ring := cs_disk_ring s @ [(key, seq)]\<rparr>
               | None \<Rightarrow> s)
      in c\<lparr>dc_state := s\<rparr>)"

text \<open>\<open>read_blob\<close> with no lock held: a missing file or any failure is a miss.\<close>
definition read_blob :: "bool \<Rightarrow> disk_cache \<Rightarrow> cache_key \<Rightarrow> bytes option" where
  "read_blob readable c key = (if readable then map_of (dc_dir c) (filename key) else None)"

text \<open>Admission of a key into one tier: its old copy is replaced, the new one goes to the back of the ring.\<close>
definition admit_mem :: "cache_key \<Rightarrow> bytes \<Rightarrow> nat \<Rightarrow> cache_state \<Rightarrow> cache_state" where
  "admit_mem key b seq s =
     s\<lparr>cs_mem := AList.update key \<lparr>me_bytes = b, me_seq = seq, me_referenced = False\<rparr> (cs_mem s),
       cs_mem_bytes := (case map_of (cs_mem s) key of Some old \<Rightarrow> cs_mem_bytes s - length (me_bytes old) | None \<Rightarrow> cs_mem_bytes s) + length b,
       cs_mem_ring := cs_mem_ring s @ [(key, seq)]\<rparr>"

definition admit_disk :: "cache_key \<Rightarrow> nat \<Rightarrow> nat \<Rightarrow> bool \<Rightarrow> cache_state \<Rightarrow> cache_state" where
  "admit_disk key len seq ref s =
     s\<lparr>cs_disk := AList.update key \<lparr>de_size = len, de_seq = seq, de_referenced = ref\<rparr> (cs_disk s),
       cs_disk_bytes := (case map_of (cs_disk s) key of Some old \<Rightarrow> cs_disk_bytes s - de_size old | None \<Rightarrow> cs_disk_bytes s) + len,
       cs_disk_ring := cs_disk_ring s @ [(key, seq)]\<rparr>"

text \<open>The write-lock half of a lookup that was answered by a blob.\<close>
definition promote :: "(string \<Rightarrow> bool) \<Rightarrow> cache_key \<Rightarrow> bytes \<Rightarrow> disk_cache \<Rightarrow> disk_cache" where
  "promote unlinks key b c =
     (let s = dc_state c; seq = cs_next_seq s in
      if map_of (cs_mem s) key = None then
        (let s = evict_mem (dc_mem_budget c) (dc_policy c) (admit_mem key b seq (s\<lparr>cs_next_seq := seq + 1\<rparr>)) in
         case map_of (cs_disk s) key of
           Some _ \<Rightarrow> c\<lparr>dc_state := (if dc_policy c = Clock then mark_disk key s else s)\<rparr>
         | None \<Rightarrow> (let (s, dir) = evict_disk (dc_disk_budget c) (dc_policy c) unlinks
                                (admit_disk key (length b) seq (dc_policy c = Clock) s) (dc_dir c)
                    in c\<lparr>dc_state := s, dc_dir := dir\<rparr>))
      else if dc_policy c = Clock then c\<lparr>dc_state := mark_disk key s\<rparr> else c)"

datatype cache_source = MemSource | DiskSource

definition get_source :: "bool \<Rightarrow> (string \<Rightarrow> bool) \<Rightarrow> cache_key \<Rightarrow> disk_cache \<Rightarrow> (bytes \<times> cache_source) option \<times> disk_cache" where
  "get_source readable unlinks key c = (case mem_lookup c key of
     (Some b, c) \<Rightarrow> (let c = c\<lparr>dc_hits := dc_hits c + 1\<rparr> in
                     (Some (b, MemSource), if dc_policy c = Lru then renew key c else c))
   | (None, c) \<Rightarrow> (case read_blob readable c key of
       None \<Rightarrow> (None, c\<lparr>dc_misses := dc_misses c + 1\<rparr>)
     | Some b \<Rightarrow> (Some (b, DiskSource), promote unlinks key b (c\<lparr>dc_hits := dc_hits c + 1\<rparr>))))"

definition cache_get_op :: "bool \<Rightarrow> (string \<Rightarrow> bool) \<Rightarrow> cache_key \<Rightarrow> disk_cache \<Rightarrow> bytes option \<times> disk_cache" where
  "cache_get_op readable unlinks key c = (case get_source readable unlinks key c of (r, c) \<Rightarrow> (map_option fst r, c))"

text \<open>A blob is written to a scratch file and renamed into place: it appears whole, or not at all.\<close>
definition write_blob :: "bool \<Rightarrow> cache_key \<Rightarrow> bytes \<Rightarrow> disk_cache \<Rightarrow> disk_cache" where
  "write_blob writable key b c = (if writable then c\<lparr>dc_dir := AList.update (filename key) b (dc_dir c)\<rparr> else c)"

text \<open>The write-lock half of \<open>put\<close>.\<close>
definition put_admit :: "bool \<Rightarrow> (string \<Rightarrow> bool) \<Rightarrow> cache_key \<Rightarrow> bytes \<Rightarrow> disk_cache \<Rightarrow> disk_cache" where
  "put_admit on_disk unlinks key b c =
     (let s = dc_state c; seq = cs_next_seq s;
          s = evict_mem (dc_mem_budget c) (dc_policy c) (admit_mem key b seq (s\<lparr>cs_next_seq := seq + 1\<rparr>))
      in if on_disk then
           (let (s, dir) = evict_disk (dc_disk_budget c) (dc_policy c) unlinks (admit_disk key (length b) seq False s) (dc_dir c)
            in c\<lparr>dc_state := s, dc_dir := dir\<rparr>)
         else c\<lparr>dc_state := s\<rparr>)"

definition cache_put_op :: "bool \<Rightarrow> (string \<Rightarrow> bool) \<Rightarrow> cache_key \<Rightarrow> bytes \<Rightarrow> disk_cache \<Rightarrow> disk_cache" where
  "cache_put_op writable unlinks key b c = put_admit writable unlinks key b (write_blob writable key b c)"

text \<open>\<open>wipe\<close> empties the tables, then unlinks what the directory lists.  A failing listing ends it with an error after any
  number of unlinks, so \<open>unlinks\<close> covers both.\<close>
definition wipe :: "(string \<Rightarrow> bool) \<Rightarrow> disk_cache \<Rightarrow> disk_cache" where
  "wipe unlinks c = c\<lparr>dc_state := (dc_state c)\<lparr>cs_mem := [], cs_mem_ring := [], cs_mem_bytes := 0,
                                      cs_disk := [], cs_disk_ring := [], cs_disk_bytes := 0\<rparr>,
                      dc_dir := filter (\<lambda>(f, _). \<not> unlinks f) (dc_dir c)\<rparr>"

record cache_entry =
  ce_namespace :: string
  ce_path :: string
  ce_etag :: string
  ce_bytes :: nat
  ce_in_memory :: bool
  ce_on_disk :: bool
  ce_admitted :: nat

definition cache_entry_new :: "cache_key \<Rightarrow> nat \<Rightarrow> bool \<Rightarrow> bool \<Rightarrow> nat \<Rightarrow> cache_entry" where
  "cache_entry_new k n in_memory on_disk admitted =
     \<lparr>ce_namespace = (if CHR ''/'' \<in> set (ck_path k) then takeWhile (\<lambda>ch. ch \<noteq> CHR ''/'') (ck_path k) else []),
      ce_path = ck_path k, ce_etag = ck_etag k, ce_bytes = n, ce_in_memory = in_memory, ce_on_disk = on_disk, ce_admitted = admitted\<rparr>"

definition resident :: "cache_state \<Rightarrow> (cache_key \<times> cache_entry) list" where
  "resident s = fold (\<lambda>(k, e) by_key. case map_of by_key k of
       Some ce \<Rightarrow> AList.update k (ce\<lparr>ce_on_disk := True, ce_admitted := max (ce_admitted ce) (de_seq e)\<rparr>) by_key
     | None \<Rightarrow> AList.update k (cache_entry_new k (de_size e) False True (de_seq e)) by_key)
     (cs_disk s) (map (\<lambda>(k, e). (k, cache_entry_new k (length (me_bytes e)) True False (me_seq e))) (cs_mem s))"

definition newer_first :: "cache_entry \<Rightarrow> cache_entry \<Rightarrow> bool" where
  "newer_first a b = (ce_admitted b < ce_admitted a \<or> (ce_admitted a = ce_admitted b \<and> ce_path a \<le> ce_path b))"

fun insert_entry :: "cache_entry \<Rightarrow> cache_entry list \<Rightarrow> cache_entry list" where
  "insert_entry x [] = [x]"
| "insert_entry x (y # ys) = (if newer_first x y then x # y # ys else y # insert_entry x ys)"

definition entries :: "string option \<Rightarrow> nat \<Rightarrow> disk_cache \<Rightarrow> cache_entry list \<times> nat" where
  "entries namespace limit c =
     (let out = filter (\<lambda>e. case namespace of None \<Rightarrow> True | Some ns \<Rightarrow> ce_namespace e = ns) (map snd (resident (dc_state c)))
      in (take limit (foldr insert_entry out []), length out))"

section \<open>A tier and its ring\<close>

lemma find_filter: "find P xs = (case filter P xs of [] \<Rightarrow> None | x # _ \<Rightarrow> Some x)"
  by (induction xs) auto

text \<open>What eviction relies on: clearing the reference bit changes nothing else of an entry.  \<open>core\<close> is what has to survive.\<close>
locale clock_tier =
  fixes sq :: "'e \<Rightarrow> nat" and rf :: "'e \<Rightarrow> bool" and cl :: "'e \<Rightarrow> 'e" and core :: "'e \<Rightarrow> 'c"
  assumes clear_seq: "sq (cl e) = sq e" and clear_ref: "\<not> rf (cl e)" and clear_core: "core (cl e) = core e"
begin

definition live :: "(cache_key \<times> 'e) list \<Rightarrow> slot \<Rightarrow> bool" where
  "live t s \<longleftrightarrow> (case map_of t (fst s) of None \<Rightarrow> False | Some e \<Rightarrow> sq e = snd s)"

definition unreferenced :: "(cache_key \<times> 'e) list \<Rightarrow> slot \<Rightarrow> bool" where
  "unreferenced t s \<longleftrightarrow> live t s \<and> (case map_of t (fst s) of None \<Rightarrow> False | Some e \<Rightarrow> \<not> rf e)"

text \<open>Every entry has its slot, no slot repeats, and slots carry sequences already handed out.\<close>
definition tier_ok :: "nat \<Rightarrow> slot list \<Rightarrow> (cache_key \<times> 'e) list \<Rightarrow> bool" where
  "tier_ok n ring t \<longleftrightarrow> distinct (map fst t) \<and> distinct ring \<and> (\<forall>k e. map_of t k = Some e \<longrightarrow> (k, sq e) \<in> set ring) \<and>
     (\<forall>s \<in> set ring. snd s < n)"

definition essence :: "(cache_key \<times> 'e) list \<Rightarrow> (cache_key \<times> nat \<times> 'c) list" where
  "essence t = map (\<lambda>(k, e). (k, sq e, core e)) t"

lemma essence_update: "map_of t k = Some e \<Longrightarrow> sq e' = sq e \<Longrightarrow> core e' = core e \<Longrightarrow> essence (AList.update k e' t) = essence t"
  by (induction t) (auto simp: essence_def)

lemma map_of_essence: "map_of (essence t) k = map_option (\<lambda>e. (sq e, core e)) (map_of t k)"
  by (induction t) (auto simp: essence_def)

lemma live_essence: "essence t' = essence t \<Longrightarrow> live t' = live t"
proof
  fix s :: slot assume "essence t' = essence t"
  then have "map_option (\<lambda>e. (sq e, core e)) (map_of t' (fst s)) = map_option (\<lambda>e. (sq e, core e)) (map_of t (fst s))"
    using map_of_essence by metis
  then show "live t' s = live t s"
    by (cases "map_of t' (fst s)"; cases "map_of t (fst s)") (auto simp: live_def)
qed

lemma keys_essence: "map fst (essence t) = map fst t"
  by (simp add: essence_def case_prod_unfold)

text \<open>What the hand returns: a live slot, taken out of the ring, with the other live slots still in it; nothing only when no
  slot is live.\<close>
definition took :: "slot list \<Rightarrow> (cache_key \<times> 'e) list \<Rightarrow> slot option \<Rightarrow> slot list \<Rightarrow> bool" where
  "took ring t v ring' \<longleftrightarrow> distinct ring' \<and> set ring' \<subseteq> set ring \<and>
     (case v of None \<Rightarrow> \<forall>s \<in> set ring. \<not> live t s
      | Some s \<Rightarrow> s \<in> set ring \<and> live t s \<and> s \<notin> set ring' \<and> (\<forall>s' \<in> set ring. live t s' \<and> s' \<noteq> s \<longrightarrow> s' \<in> set ring'))"

lemma next_victim_loop_took:
  "next_victim_loop sq rf cl ck n ring t = (v, ring', t') \<Longrightarrow> distinct ring \<Longrightarrow> took ring t v ring' \<and> essence t' = essence t"
proof (induction "n + length ring" arbitrary: n ring t rule: less_induct)
  case less
  show ?case
  proof (cases ring)
    case Nil
    then show ?thesis using less.prems by (auto simp: took_def)
  next
    case (Cons s rest)
    obtain key seq where s: "s = (key, seq)" by (cases s)
    note ring = Cons[unfolded s]
    show ?thesis
    proof (cases "live t (key, seq)")
      case False
      then have "next_victim_loop sq rf cl ck n rest t = (v, ring', t')"
        using less.prems(1) by (auto simp: ring live_def split: option.splits)
      then have "took rest t v ring' \<and> essence t' = essence t"
        using less.hyps[of n rest t] less.prems(2) by (auto simp: ring)
      then show ?thesis
        using False by (auto simp: ring took_def split: option.splits)
    next
      case True
      then obtain e where e: "map_of t key = Some e" "sq e = seq"
        unfolding live_def by (cases "map_of t key") auto
      let ?t = "AList.update key (cl e) t"
      have es: "essence ?t = essence t"
        using e by (intro essence_update) (simp_all add: clear_seq clear_core)
      show ?thesis
      proof (cases "ck \<and> 0 < n \<and> rf e")
        case True
        then have "next_victim_loop sq rf cl ck (n - 1) (rest @ [(key, seq)]) ?t = (v, ring', t')"
          using less.prems(1) e by (simp add: ring Let_def)
        then have "took (rest @ [(key, seq)]) ?t v ring' \<and> essence t' = essence ?t"
          using less.hyps[of "n - 1" "rest @ [(key, seq)]" ?t] less.prems(2) True by (auto simp: ring)
        then show ?thesis
          using es live_essence[OF es] by (auto simp: ring took_def split: option.splits)
      next
        case F: False
        then have "v = Some (key, seq)" "ring' = rest" "t' = t \<or> t' = ?t"
          using less.prems(1) e by (auto simp: ring Let_def split: if_splits)
        with True less.prems(2) es show ?thesis by (auto simp: ring took_def)
      qed
    qed
  qed
qed

lemma next_victim_took:
  "next_victim sq rf cl ck ring t = (v, ring', t') \<Longrightarrow> distinct ring \<Longrightarrow> took ring t v ring' \<and> essence t' = essence t"
  unfolding next_victim_def by (rule next_victim_loop_took)

lemma live_slot: "tier_ok n ring t \<Longrightarrow> live t s \<Longrightarrow> s \<in> set ring"
  by (cases s; cases "map_of t (fst s)") (auto simp: tier_ok_def live_def simp del: map_of_eq_Some_iff)

lemma next_victim_None:
  assumes "tier_ok n ring t" and "next_victim sq rf cl ck ring t = (None, ring', t')"
  shows "t = []"
proof (rule ccontr)
  assume "t \<noteq> []"
  then obtain k e where "map_of t k = Some e"
    by (metis list.exhaust map_of_Cons_code(2) surj_pair)
  moreover from this have "live t (k, sq e)" by (simp add: live_def)
  ultimately show False
    using assms next_victim_took[OF assms(2)] live_slot[OF assms(1)] by (auto simp: tier_ok_def took_def)
qed

lemma tier_ok_evicted:
  assumes ok: "tier_ok n ring t" and nv: "next_victim sq rf cl ck ring t = (Some (k, q), ring', t')"
  shows "tier_ok n ring' (AList.delete k t')" "map_of t k \<noteq> None"
proof -
  have took: "took ring t (Some (k, q)) ring'" and es: "essence t' = essence t"
    using next_victim_took[OF nv] ok by (auto simp: tier_ok_def)
  have keys: "map fst t' = map fst t" using keys_essence es by metis
  have lv: "live t' = live t" by (rule live_essence[OF es])
  have "(k', sq e) \<in> set ring'" if e: "map_of t' k' = Some e" "k' \<noteq> k" for k' e
  proof -
    have "live t (k', sq e)" using e(1) unfolding lv[symmetric] by (simp add: live_def)
    moreover have "(k', sq e) \<in> set ring"
      using live_slot[OF ok] \<open>live t (k', sq e)\<close> by blast
    ultimately show ?thesis using took e(2) by (auto simp: took_def)
  qed
  then show "tier_ok n ring' (AList.delete k t')"
    using ok took by (auto simp: tier_ok_def took_def keys distinct_delete AList.delete_conv' split: if_splits)
  show "map_of t k \<noteq> None" using took by (auto simp: took_def live_def split: option.splits)
qed

lemma tier_ok_admit: "tier_ok n ring t \<Longrightarrow> sq e = n \<Longrightarrow> tier_ok (Suc n) (ring @ [(k, n)]) (AList.update k e t)"
  by (fastforce simp: tier_ok_def AList.update_conv' distinct_update less_Suc_eq split: if_splits)

lemma tier_ok_mono: "tier_ok n ring t \<Longrightarrow> n \<le> n' \<Longrightarrow> tier_ok n' ring t"
  by (fastforce simp: tier_ok_def)

lemma tier_ok_essence: "essence t' = essence t \<Longrightarrow> tier_ok n ring t \<Longrightarrow> tier_ok n ring t'"
proof -
  assume es: "essence t' = essence t" and ok: "tier_ok n ring t"
  have "(k, sq e) \<in> set ring" if "map_of t' k = Some e" for k e
  proof -
    have "live t (k, sq e)" using that unfolding live_essence[OF es, symmetric] by (simp add: live_def)
    then show ?thesis by (rule live_slot[OF ok])
  qed
  moreover have "map fst t' = map fst t" using keys_essence es by metis
  ultimately show ?thesis using ok by (simp add: tier_ok_def)
qed

lemma tier_ok_delete: "tier_ok n ring t \<Longrightarrow> tier_ok n ring (AList.delete k t)"
  by (auto simp: tier_ok_def distinct_delete AList.delete_conv' split: if_splits)

text \<open>CLOCK's choice: the first live slot whose bit is clear; when every live slot is referenced, the first live slot.\<close>
lemma clock_sweep:
  "distinct (xs @ ys) \<Longrightarrow> length xs \<le> n \<Longrightarrow> \<forall>s \<in> set ys. unreferenced t s \<Longrightarrow>
   fst (next_victim_loop sq rf cl True n (xs @ ys) t) =
     (case find (unreferenced t) xs of Some s \<Rightarrow> Some s
      | None \<Rightarrow> (case ys @ filter (live t) xs of [] \<Rightarrow> None | s # _ \<Rightarrow> Some s))"
proof (induction xs arbitrary: ys n t)
  case Nil
  show ?case
  proof (cases ys)
    case (Cons s ys')
    obtain k q where s: "s = (k, q)" by (cases s)
    have "unreferenced t (k, q)" using Nil.prems(3) Cons s by auto
    then show ?thesis by (auto simp: Cons s unreferenced_def live_def Let_def split: option.splits)
  qed simp
next
  case (Cons s xs)
  obtain k q where s: "s = (k, q)" by (cases s)
  show ?case
  proof (cases "live t s \<and> \<not> unreferenced t s")
    case False
    then show ?thesis
    proof (cases "live t s")
      case True
      with False have "unreferenced t s" by blast
      moreover obtain e where "map_of t k = Some e" "sq e = q" "\<not> rf e"
        using \<open>unreferenced t s\<close> by (auto simp: s unreferenced_def live_def split: option.splits)
      ultimately show ?thesis using Cons.prems(2) by (simp add: s Let_def)
    next
      case False
      then have "next_victim_loop sq rf cl True n ((s # xs) @ ys) t = next_victim_loop sq rf cl True n (xs @ ys) t"
        by (auto simp: s live_def split: option.splits)
      moreover have "\<not> unreferenced t s" using False by (simp add: unreferenced_def)
      moreover have "filter (live t) (s # xs) = filter (live t) xs" using False by simp
      ultimately show ?thesis using Cons.IH[of ys n t] Cons.prems by (simp split: option.split)
    qed
  next
    case True
    then obtain e where e: "map_of t k = Some e" "sq e = q" "rf e"
      by (auto simp: s unreferenced_def live_def split: option.splits)
    let ?t = "AList.update k (cl e) t"
    have lv: "live ?t = live t"
      using e by (intro live_essence essence_update) (simp_all add: clear_seq clear_core)
    have other: "unreferenced ?t s' = unreferenced t s'" if "s' \<noteq> s" for s'
    proof (cases "fst s' = k")
      case True
      then have "\<not> live t s'" using that e s by (cases s') (auto simp: live_def)
      then show ?thesis by (simp add: unreferenced_def lv)
    next
      case False
      then show ?thesis by (simp add: unreferenced_def lv AList.update_conv')
    qed
    have self: "unreferenced ?t s"
      using True by (simp add: unreferenced_def lv s AList.update_conv' clear_ref)
    have f: "find (unreferenced ?t) xs = find (unreferenced t) xs"
    proof (rule find_cong[OF refl])
      fix x assume "x \<in> set xs"
      then have "x \<noteq> s" using Cons.prems(1) by auto
      then show "unreferenced ?t x = unreferenced t x" by (rule other)
    qed
    have "next_victim_loop sq rf cl True n ((s # xs) @ ys) t = next_victim_loop sq rf cl True (n - 1) (xs @ (ys @ [s])) ?t"
      using e Cons.prems(2) by (simp add: s Let_def)
    moreover have "fst (next_victim_loop sq rf cl True (n - 1) (xs @ (ys @ [s])) ?t) =
      (case find (unreferenced ?t) xs of Some s \<Rightarrow> Some s
       | None \<Rightarrow> (case (ys @ [s]) @ filter (live ?t) xs of [] \<Rightarrow> None | s # _ \<Rightarrow> Some s))"
      using Cons.prems self other by (intro Cons.IH) (auto, metis)
    ultimately show ?thesis
      using True by (simp add: f lv split: option.split)
  qed
qed

lemma clock_victim:
  "distinct ring \<Longrightarrow> fst (next_victim sq rf cl True ring t) =
     (case find (unreferenced t) ring of Some s \<Rightarrow> Some s | None \<Rightarrow> find (live t) ring)"
  using clock_sweep[of ring "[]" "length ring" t]
  by (simp add: next_victim_def find_filter split: option.split)

lemma fifo_victim: "fst (next_victim_loop sq rf cl False n ring t) = find (live t) ring"
  by (induction ring) (auto simp: live_def split: option.splits)

end

interpretation mem_tier: clock_tier me_seq me_referenced "me_referenced_update (\<lambda>_. False)" me_bytes
  by unfold_locales simp_all

interpretation disk_tier: clock_tier de_seq de_referenced "de_referenced_update (\<lambda>_. False)" de_size
  by unfold_locales simp_all

section \<open>The invariant of the cache\<close>

definition mem_total :: "(cache_key \<times> mem_entry) list \<Rightarrow> nat" where
  "mem_total t = sum_list (map (\<lambda>(k, e). length (me_bytes e)) t)"

definition disk_total :: "(cache_key \<times> disk_entry) list \<Rightarrow> nat" where
  "disk_total t = sum_list (map (\<lambda>(k, e). de_size e) t)"

text \<open>Rings and counters agree with the tables.\<close>
definition state_ok :: "cache_state \<Rightarrow> bool" where
  "state_ok s \<longleftrightarrow> mem_tier.tier_ok (cs_next_seq s) (cs_mem_ring s) (cs_mem s) \<and> cs_mem_bytes s = mem_total (cs_mem s) \<and>
     disk_tier.tier_ok (cs_next_seq s) (cs_disk_ring s) (cs_disk s) \<and> cs_disk_bytes s = disk_total (cs_disk s)"

definition within_budgets :: "disk_cache \<Rightarrow> bool" where
  "within_budgets c \<longleftrightarrow> cs_mem_bytes (dc_state c) \<le> dc_mem_budget c \<and> cs_disk_bytes (dc_state c) \<le> dc_disk_budget c"

definition cache_ok :: "disk_cache \<Rightarrow> bool" where
  "cache_ok c \<longleftrightarrow> state_ok (dc_state c) \<and> within_budgets c"

lemma sum_delete:
  "distinct (map fst t) \<Longrightarrow> map_of t k = Some e \<Longrightarrow> sum_list (map (\<lambda>(k, e). f e) (AList.delete k t)) + f e = sum_list (map (\<lambda>(k, e). f e) t :: nat list)"
proof (induction t)
  case (Cons p t)
  show ?case
  proof (cases "fst p = k")
    case True
    then have "AList.delete k t = t"
      using Cons.prems(1) by (auto intro!: AList.delete_idem[symmetric] simp: AList.delete_idem)
    then show ?thesis using Cons.prems True by (cases p) auto
  next
    case False
    then show ?thesis using Cons by (cases p) auto
  qed
qed simp

lemma sum_update:
  "distinct (map fst t) \<Longrightarrow> sum_list (map (\<lambda>(k, e). f e) (AList.update k e' t)) =
     (case map_of t k of None \<Rightarrow> sum_list (map (\<lambda>(k, e). f e) t) | Some e \<Rightarrow> sum_list (map (\<lambda>(k, e). f e) t) - f e) + (f e' :: nat)"
  by (induction t) (auto split: option.splits simp: sum_list_map_remove1)

lemma mem_total_essence: "mem_tier.essence t' = mem_tier.essence t \<Longrightarrow> mem_total t' = mem_total t"
proof -
  have "mem_total t = sum_list (map (\<lambda>(k, q, b). length b) (mem_tier.essence t))" for t
    by (simp add: mem_total_def mem_tier.essence_def case_prod_unfold comp_def)
  then show "mem_tier.essence t' = mem_tier.essence t \<Longrightarrow> mem_total t' = mem_total t" by simp
qed

lemma disk_total_essence: "disk_tier.essence t' = disk_tier.essence t \<Longrightarrow> disk_total t' = disk_total t"
proof -
  have "disk_total t = sum_list (map (\<lambda>(k, q, b). b) (disk_tier.essence t))" for t
    by (simp add: disk_total_def disk_tier.essence_def case_prod_unfold comp_def)
  then show "disk_tier.essence t' = disk_tier.essence t \<Longrightarrow> disk_total t' = disk_total t" by simp
qed

lemma total_delete [simp]:
  "distinct (map fst t) \<Longrightarrow> map_of t k = Some e \<Longrightarrow> mem_total (AList.delete k t) = mem_total t - length (me_bytes e)"
  "distinct (map fst u) \<Longrightarrow> map_of u k = Some d \<Longrightarrow> disk_total (AList.delete k u) = disk_total u - de_size d"
  using sum_delete[of t k e "\<lambda>e. length (me_bytes e)"] sum_delete[of u k d de_size]
  by (simp_all add: mem_total_def disk_total_def del: map_of_eq_Some_iff)


lemma state_okD:
  assumes "state_ok s"
  shows "mem_tier.tier_ok (cs_next_seq s) (cs_mem_ring s) (cs_mem s)" "distinct (map fst (cs_mem s))" "cs_mem_bytes s = mem_total (cs_mem s)"
    "disk_tier.tier_ok (cs_next_seq s) (cs_disk_ring s) (cs_disk s)" "distinct (map fst (cs_disk s))" "cs_disk_bytes s = disk_total (cs_disk s)"
  using assms by (simp_all add: state_ok_def mem_tier.tier_ok_def disk_tier.tier_ok_def)

lemma state_ok_drop: "state_ok s \<Longrightarrow> state_ok (drop_mem k s) \<and> state_ok (drop_disk k s)"
  by (frule state_okD(2), frule state_okD(5))
     (auto simp: state_ok_def drop_mem_def drop_disk_def mem_tier.tier_ok_delete disk_tier.tier_ok_delete
           simp del: map_of_eq_Some_iff split: option.split)

lemma state_ok_admit_mem:
  assumes "state_ok s"
  shows "state_ok (admit_mem k b (cs_next_seq s) (s\<lparr>cs_next_seq := cs_next_seq s + 1\<rparr>))"
  using assms state_okD(2)[OF assms] mem_tier.tier_ok_admit[OF state_okD(1)[OF assms]]
    disk_tier.tier_ok_mono[OF state_okD(4)[OF assms], of "Suc (cs_next_seq s)"]
  by (simp add: state_ok_def admit_mem_def mem_total_def sum_update[where f = "\<lambda>e. length (me_bytes e)"] split: option.split)

text \<open>The disk tier is admitted with a sequence that the memory tier already took.\<close>
lemma state_ok_admit_disk:
  assumes "state_ok s" "q < cs_next_seq s" "\<forall>s' \<in> set (cs_disk_ring s). snd s' < q"
  shows "state_ok (admit_disk k n q r s)"
proof -
  have "disk_tier.tier_ok q (cs_disk_ring s) (cs_disk s)"
    using state_okD(4)[OF assms(1)] assms(3) by (simp add: disk_tier.tier_ok_def)
  then have "disk_tier.tier_ok (cs_next_seq s) (cs_disk_ring s @ [(k, q)]) (AList.update k \<lparr>de_size = n, de_seq = q, de_referenced = r\<rparr> (cs_disk s))"
    using assms(2) by (intro disk_tier.tier_ok_mono[OF disk_tier.tier_ok_admit]) simp_all
  then show ?thesis
    using assms(1) state_okD(5)[OF assms(1)]
    by (simp add: state_ok_def admit_disk_def disk_total_def sum_update[where f = de_size] split: option.split)
qed

text \<open>What an eviction of the memory tier keeps.\<close>
definition shrinks_mem :: "cache_state \<Rightarrow> cache_state \<Rightarrow> bool" where
  "shrinks_mem s s' \<longleftrightarrow> cs_next_seq s' = cs_next_seq s \<and> (\<forall>k e'. map_of (cs_mem s') k = Some e' \<longrightarrow>
     (\<exists>e. map_of (cs_mem s) k = Some e \<and> me_bytes e' = me_bytes e))"

definition same_disk :: "cache_state \<Rightarrow> cache_state \<Rightarrow> bool" where
  "same_disk s s' \<longleftrightarrow> cs_disk s' = cs_disk s \<and> cs_disk_ring s' = cs_disk_ring s \<and> cs_disk_bytes s' = cs_disk_bytes s"

lemma shrinks_mem_trans: "shrinks_mem a b \<Longrightarrow> shrinks_mem b c \<Longrightarrow> shrinks_mem a c"
  unfolding shrinks_mem_def by metis

lemma shrinks_mem_refl [simp]: "shrinks_mem s s"
  by (simp add: shrinks_mem_def)

lemma shrinks_mem_drop: "shrinks_mem s (drop_mem k s)"
  by (auto simp: shrinks_mem_def drop_mem_def AList.delete_conv' simp del: map_of_eq_Some_iff split: option.split if_splits)

lemma shrinks_mem_essence: "mem_tier.essence m = mem_tier.essence (cs_mem s) \<Longrightarrow> shrinks_mem s (s\<lparr>cs_mem_ring := r, cs_mem := m\<rparr>)"
  unfolding shrinks_mem_def
proof (simp del: map_of_eq_Some_iff, intro allI impI)
  fix k e' assume es: "mem_tier.essence m = mem_tier.essence (cs_mem s)" and e': "map_of m k = Some e'"
  have "map_option (\<lambda>e. (me_seq e, me_bytes e)) (map_of (cs_mem s) k) = Some (me_seq e', me_bytes e')"
    using mem_tier.map_of_essence[of m k] mem_tier.map_of_essence[of "cs_mem s" k] es e' by simp
  then show "\<exists>e. map_of (cs_mem s) k = Some e \<and> me_bytes e' = me_bytes e" by auto
qed

lemma evict_mem_step:
  assumes ok: "state_ok s" and nv: "mem_victim pol (cs_mem_ring s) (cs_mem s) = (Some (k, q), ring, mem)"
  defines "s' \<equiv> s\<lparr>cs_mem_ring := ring, cs_mem := mem\<rparr>"
  shows "state_ok (drop_mem k s')" "shrinks_mem s (drop_mem k s')" "same_disk s (drop_mem k s')"
proof -
  note t = state_okD[OF ok]
  have es: "mem_tier.essence mem = mem_tier.essence (cs_mem s)"
    using mem_tier.next_victim_took[OF nv] t(1) by (simp add: mem_tier.tier_ok_def)
  have keys: "distinct (map fst mem)" using t(2) mem_tier.keys_essence es by metis
  have "mem_tier.tier_ok (cs_next_seq s) ring (AList.delete k mem)" by (rule mem_tier.tier_ok_evicted(1)[OF t(1) nv])
  moreover have "mem_total mem = mem_total (cs_mem s)" by (rule mem_total_essence[OF es])
  moreover obtain e where "map_of mem k = Some e"
    using mem_tier.tier_ok_evicted(2)[OF t(1) nv] mem_tier.map_of_essence[of mem k] mem_tier.map_of_essence[of "cs_mem s" k] es by force
  ultimately show "state_ok (drop_mem k s')"
    using ok keys by (simp add: s'_def state_ok_def drop_mem_def del: map_of_eq_Some_iff)
  show "shrinks_mem s (drop_mem k s')"
    unfolding s'_def by (rule shrinks_mem_trans[OF shrinks_mem_essence[OF es] shrinks_mem_drop])
  show "same_disk s (drop_mem k s')" by (simp add: same_disk_def s'_def)
qed

lemma evict_mem_ok:
  "state_ok s \<Longrightarrow> state_ok (evict_mem b pol s) \<and> cs_mem_bytes (evict_mem b pol s) \<le> b \<and> shrinks_mem s (evict_mem b pol s) \<and> same_disk s (evict_mem b pol s)"
proof (induction "length (cs_mem_ring s)" arbitrary: s rule: less_induct)
  case less
  note ok = less.prems
  show ?case
  proof (cases "cs_mem_bytes s \<le> b")
    case True
    then show ?thesis using ok by (simp add: evict_mem.simps[of b pol s] same_disk_def)
  next
    case False
    obtain v ring mem where nv: "mem_victim pol (cs_mem_ring s) (cs_mem s) = (v, ring, mem)" by (cases "mem_victim pol (cs_mem_ring s) (cs_mem s)") auto
    have "v \<noteq> None"
    proof
      assume "v = None"
      then have "cs_mem s = []" using mem_tier.next_victim_None[OF state_okD(1)[OF ok]] nv by blast
      then show False using False state_okD(3)[OF ok] by (simp add: mem_total_def)
    qed
    then obtain k q where v: "v = Some (k, q)" by (cases v) auto
    let ?s = "drop_mem k (s\<lparr>cs_mem_ring := ring, cs_mem := mem\<rparr>)"
    note st = evict_mem_step[OF ok nv[unfolded v]]
    have ev: "evict_mem b pol s = evict_mem b pol ?s"
      using False nv v by (subst evict_mem.simps) simp
    have "state_ok (evict_mem b pol ?s) \<and> cs_mem_bytes (evict_mem b pol ?s) \<le> b \<and> shrinks_mem ?s (evict_mem b pol ?s) \<and> same_disk ?s (evict_mem b pol ?s)"
      using less.hyps[OF _ st(1)] next_victim_shorter[OF nv[unfolded v]] by simp
    then show ?thesis
      unfolding ev using st shrinks_mem_trans[OF st(2)] by (simp add: same_disk_def)
  qed
qed

lemma drop_mem_bytes: "cs_mem_bytes (drop_mem k s) \<le> cs_mem_bytes s"
  by (simp add: drop_mem_def split: option.split)

lemma evict_disk_step:
  assumes ok: "state_ok s" and nv: "disk_victim pol (cs_disk_ring s) (cs_disk s) = (Some (k, q), ring, disk)"
  defines "s' \<equiv> drop_mem k (drop_disk k (s\<lparr>cs_disk_ring := ring, cs_disk := disk\<rparr>))"
  shows "state_ok s'" "shrinks_mem s s'" "cs_mem_bytes s' \<le> cs_mem_bytes s"
proof -
  note t = state_okD[OF ok]
  let ?u = "s\<lparr>cs_disk_ring := ring, cs_disk := disk\<rparr>"
  have es: "disk_tier.essence disk = disk_tier.essence (cs_disk s)"
    using disk_tier.next_victim_took[OF nv] t(4) by (simp add: disk_tier.tier_ok_def)
  have keys: "distinct (map fst disk)" using t(5) disk_tier.keys_essence es by metis
  have "disk_tier.tier_ok (cs_next_seq s) ring (AList.delete k disk)" by (rule disk_tier.tier_ok_evicted(1)[OF t(4) nv])
  moreover have "disk_total disk = disk_total (cs_disk s)" by (rule disk_total_essence[OF es])
  moreover obtain e where "map_of disk k = Some e"
    using disk_tier.tier_ok_evicted(2)[OF t(4) nv] disk_tier.map_of_essence[of disk k] disk_tier.map_of_essence[of "cs_disk s" k] es by force
  ultimately have "state_ok (drop_disk k ?u)"
    using ok keys by (simp add: state_ok_def drop_disk_def del: map_of_eq_Some_iff)
  then show "state_ok s'" unfolding s'_def using state_ok_drop by blast
  have "shrinks_mem s (drop_disk k ?u)" by (simp add: shrinks_mem_def)
  then show "shrinks_mem s s'" unfolding s'_def by (rule shrinks_mem_trans[OF _ shrinks_mem_drop])
  show "cs_mem_bytes s' \<le> cs_mem_bytes s"
    unfolding s'_def using drop_mem_bytes[of k "drop_disk k ?u"] by simp
qed

lemma unlink_blob_le: "map_of (unlink_blob u k dir) \<subseteq>\<^sub>m map_of dir"
  by (auto simp: unlink_blob_def map_le_def AList.delete_conv' split: if_splits)

lemma evict_disk_ok:
  assumes "evict_disk b pol u s dir = (s', dir')" "state_ok s"
  shows "state_ok s' \<and> cs_disk_bytes s' \<le> b \<and> shrinks_mem s s' \<and> cs_mem_bytes s' \<le> cs_mem_bytes s \<and> map_of dir' \<subseteq>\<^sub>m map_of dir"
  using assms
proof (induction "length (cs_disk_ring s)" arbitrary: s dir rule: less_induct)
  case less
  note ok = less.prems(2)
  show ?case
  proof (cases "cs_disk_bytes s \<le> b")
    case True
    then show ?thesis using less.prems by (simp add: evict_disk.simps[of b pol u s])
  next
    case False
    obtain v ring disk where nv: "disk_victim pol (cs_disk_ring s) (cs_disk s) = (v, ring, disk)" by (cases "disk_victim pol (cs_disk_ring s) (cs_disk s)") auto
    have "v \<noteq> None"
    proof
      assume "v = None"
      then have "cs_disk s = []" using disk_tier.next_victim_None[OF state_okD(4)[OF ok]] nv by blast
      then show False using False state_okD(6)[OF ok] by (simp add: disk_total_def)
    qed
    then obtain k q where v: "v = Some (k, q)" by (cases v) auto
    let ?s = "drop_mem k (drop_disk k (s\<lparr>cs_disk_ring := ring, cs_disk := disk\<rparr>))"
    note st = evict_disk_step[OF ok nv[unfolded v]]
    have ev: "evict_disk b pol u ?s (unlink_blob u k dir) = (s', dir')"
      using less.prems(1) False nv v by (subst (asm) evict_disk.simps) simp
    then have "state_ok s' \<and> cs_disk_bytes s' \<le> b \<and> shrinks_mem ?s s' \<and> cs_mem_bytes s' \<le> cs_mem_bytes ?s \<and> map_of dir' \<subseteq>\<^sub>m map_of (unlink_blob u k dir)"
      using less.hyps[OF _ ev st(1)] next_victim_shorter[OF nv[unfolded v]] by simp
    then show ?thesis
      using shrinks_mem_trans[OF st(2)] st(3) map_le_trans[OF _ unlink_blob_le] by fastforce
  qed
qed

lemma state_ok_reference:
  "state_ok s \<Longrightarrow> state_ok (mark_disk k s)"
  "state_ok s \<Longrightarrow> map_of (cs_mem s) k = Some e \<Longrightarrow> state_ok (s\<lparr>cs_mem := AList.update k (e\<lparr>me_referenced := True\<rparr>) (cs_mem s)\<rparr>)"
proof -
  assume ok: "state_ok s"
  show "state_ok (mark_disk k s)"
  proof (cases "map_of (cs_disk s) k")
    case (Some d)
    have "disk_tier.essence (AList.update k (d\<lparr>de_referenced := True\<rparr>) (cs_disk s)) = disk_tier.essence (cs_disk s)"
      by (rule disk_tier.essence_update[OF Some]) simp_all
    from disk_tier.tier_ok_essence[OF this] disk_total_essence[OF this] show ?thesis
      using ok Some by (simp add: mark_disk_def state_ok_def)
  qed (use ok in \<open>simp add: mark_disk_def\<close>)
  assume e: "map_of (cs_mem s) k = Some e"
  have "mem_tier.essence (AList.update k (e\<lparr>me_referenced := True\<rparr>) (cs_mem s)) = mem_tier.essence (cs_mem s)"
    by (rule mem_tier.essence_update[OF e]) simp_all
  from mem_tier.tier_ok_essence[OF this] mem_total_essence[OF this]
  show "state_ok (s\<lparr>cs_mem := AList.update k (e\<lparr>me_referenced := True\<rparr>) (cs_mem s)\<rparr>)"
    using ok by (simp add: state_ok_def)
qed

lemma mark_disk_frame [simp]:
  "cs_mem (mark_disk k s) = cs_mem s" "cs_mem_bytes (mark_disk k s) = cs_mem_bytes s" "cs_disk_bytes (mark_disk k s) = cs_disk_bytes s"
  by (simp_all add: mark_disk_def split: option.split)

section \<open>Interleavings\<close>

text \<open>What a thread holds between two of its critical sections: a memory hit it may still have to renew, a blob it has read,
  a blob it has written (or failed to).\<close>
datatype cache_task = Hit cache_key | Loaded cache_key bytes | Written cache_key bytes bool

text \<open>One step of any thread.  \<open>content\<close> gives the bytes of every object of \<open>K\<close>, the objects the process reads and admits;
  the label is an answered lookup.  A task stays available, which allows more than the code does.\<close>
inductive cache_step :: "(cache_key \<Rightarrow> bytes) \<Rightarrow> cache_key set \<Rightarrow> disk_cache \<times> cache_task set \<Rightarrow> (cache_key \<times> bytes) option \<Rightarrow> disk_cache \<times> cache_task set \<Rightarrow> bool"
  for content K where
  step_hit: "k \<in> K \<Longrightarrow> mem_lookup c k = (Some b, c') \<Longrightarrow>
     cache_step content K (c, T) (Some (k, b)) (c'\<lparr>dc_hits := dc_hits c' + 1\<rparr>, insert (Hit k) T)"
| step_renew: "Hit k \<in> T \<Longrightarrow> dc_policy c = Lru \<Longrightarrow> cache_step content K (c, T) None (renew k c, T)"
| step_miss: "cache_step content K (c, T) None (c\<lparr>dc_misses := dc_misses c + 1\<rparr>, T)"
| step_load: "k \<in> K \<Longrightarrow> read_blob r c k = Some b \<Longrightarrow>
     cache_step content K (c, T) (Some (k, b)) (c\<lparr>dc_hits := dc_hits c + 1\<rparr>, insert (Loaded k b) T)"
| step_promote: "Loaded k b \<in> T \<Longrightarrow> cache_step content K (c, T) None (promote u k b c, T)"
| step_write: "k \<in> K \<Longrightarrow> cache_step content K (c, T) None (write_blob w k (content k) c, insert (Written k (content k) w) T)"
| step_admit: "Written k b w \<in> T \<Longrightarrow> cache_step content K (c, T) None (put_admit w u k b c, T)"
| step_wipe: "cache_step content K (c, T) None (wipe u c, T)"

inductive cache_run :: "(cache_key \<Rightarrow> bytes) \<Rightarrow> cache_key set \<Rightarrow> disk_cache \<times> cache_task set \<Rightarrow> (cache_key \<times> bytes) option list \<Rightarrow> disk_cache \<times> cache_task set \<Rightarrow> bool"
  for content K where
  run_done: "cache_run content K x [] x"
| run_step: "cache_run content K x ls y \<Longrightarrow> cache_step content K y l z \<Longrightarrow> cache_run content K x (ls @ [l]) z"

text \<open>The contents: what memory and the directory hold for the objects of \<open>K\<close> is their bytes.\<close>
definition mem_holds :: "(cache_key \<Rightarrow> bytes) \<Rightarrow> cache_key set \<Rightarrow> cache_state \<Rightarrow> bool" where
  "mem_holds content K s \<longleftrightarrow> (\<forall>k e. map_of (cs_mem s) k = Some e \<longrightarrow> k \<in> K \<and> me_bytes e = content k)"

definition holds :: "(cache_key \<Rightarrow> bytes) \<Rightarrow> cache_key set \<Rightarrow> disk_cache \<Rightarrow> bool" where
  "holds content K c \<longleftrightarrow> mem_holds content K (dc_state c) \<and>
     (\<forall>k \<in> K. \<forall>b. map_of (dc_dir c) (filename k) = Some b \<longrightarrow> b = content k)"

definition task_ok :: "(cache_key \<Rightarrow> bytes) \<Rightarrow> cache_key set \<Rightarrow> cache_task \<Rightarrow> bool" where
  "task_ok content K t = (case t of Hit k \<Rightarrow> k \<in> K | Loaded k b \<Rightarrow> k \<in> K \<and> b = content k | Written k b _ \<Rightarrow> k \<in> K \<and> b = content k)"

definition system_ok :: "(cache_key \<Rightarrow> bytes) \<Rightarrow> cache_key set \<Rightarrow> disk_cache \<times> cache_task set \<Rightarrow> bool" where
  "system_ok content K x \<longleftrightarrow> cache_ok (fst x) \<and> holds content K (fst x) \<and> (\<forall>t \<in> snd x. task_ok content K t)"

lemma holds_shrink:
  assumes "holds content K c" "shrinks_mem (dc_state c) (dc_state c')" "map_of (dc_dir c') \<subseteq>\<^sub>m map_of (dc_dir c)"
  shows "holds content K c'"
proof -
  have "mem_holds content K (dc_state c')"
    using assms(1,2) by (fastforce simp: holds_def mem_holds_def shrinks_mem_def simp del: map_of_eq_Some_iff)
  moreover have "map_of (dc_dir c) f = Some b" if "map_of (dc_dir c') f = Some b" for f b
    using assms(3) that by (auto simp: map_le_def dom_def simp del: map_of_eq_Some_iff)
  ultimately show ?thesis using assms(1) unfolding holds_def by blast
qed

text \<open>Both admissions put one object of \<open>K\<close> into the memory tier and evict.\<close>
lemma admit_and_evict_mem:
  fixes s :: cache_state and k :: cache_key and b :: bytes
  defines "s1 \<equiv> admit_mem k b (cs_next_seq s) (s\<lparr>cs_next_seq := cs_next_seq s + 1\<rparr>)"
  assumes ok: "state_ok s" and held: "mem_holds content K s" and "k \<in> K" "b = content k"
  shows "state_ok (evict_mem m pol s1)" "cs_mem_bytes (evict_mem m pol s1) \<le> m" "same_disk s (evict_mem m pol s1)"
    "cs_next_seq (evict_mem m pol s1) = Suc (cs_next_seq s)"
    "mem_holds content K (evict_mem m pol s1)"
proof -
  have ok1: "state_ok s1" unfolding s1_def by (rule state_ok_admit_mem[OF ok])
  note ev = evict_mem_ok[OF ok1, of m pol]
  show "state_ok (evict_mem m pol s1)" "cs_mem_bytes (evict_mem m pol s1) \<le> m" using ev by simp_all
  show "same_disk s (evict_mem m pol s1)" using ev by (simp add: same_disk_def s1_def admit_mem_def)
  show "cs_next_seq (evict_mem m pol s1) = Suc (cs_next_seq s)" using ev by (simp add: shrinks_mem_def s1_def admit_mem_def)
  have "mem_holds content K s1"
    using held assms(4,5) by (auto simp: mem_holds_def s1_def admit_mem_def AList.update_conv' simp del: map_of_eq_Some_iff split: if_splits)
  then show "mem_holds content K (evict_mem m pol s1)"
    using ev by (fastforce simp: mem_holds_def shrinks_mem_def simp del: map_of_eq_Some_iff)
qed

lemma admit_and_evict_disk:
  assumes ok: "state_ok s" and q: "cs_next_seq s = Suc q" "\<forall>x \<in> set (cs_disk_ring s). snd x < q"
    and ev: "evict_disk d pol u (admit_disk k n q r s) dir = (s', dir')"
  shows "state_ok s'" "cs_disk_bytes s' \<le> d" "cs_mem_bytes s' \<le> cs_mem_bytes s" "shrinks_mem s s'" "map_of dir' \<subseteq>\<^sub>m map_of dir"
proof -
  have "state_ok (admit_disk k n q r s)" using q by (intro state_ok_admit_disk[OF ok]) simp_all
  note e = evict_disk_ok[OF ev this]
  show "state_ok s'" "cs_disk_bytes s' \<le> d" "map_of dir' \<subseteq>\<^sub>m map_of dir" using e by simp_all
  show "cs_mem_bytes s' \<le> cs_mem_bytes s" "shrinks_mem s s'" using e by (simp_all add: admit_disk_def shrinks_mem_def)
qed

lemma put_admit_ok:
  assumes ok: "cache_ok c" and h: "holds content K c" and k: "k \<in> K"
  shows "cache_ok (put_admit w u k (content k) c)" "holds content K (put_admit w u k (content k) c)"
proof -
  let ?s = "dc_state c"
  let ?m = "evict_mem (dc_mem_budget c) (dc_policy c) (admit_mem k (content k) (cs_next_seq ?s) (?s\<lparr>cs_next_seq := cs_next_seq ?s + 1\<rparr>))"
  have sok: "state_ok ?s" using ok by (simp add: cache_ok_def)
  have held: "mem_holds content K ?s" using h by (simp add: holds_def)
  note m = admit_and_evict_mem[OF sok held k refl, of "dc_mem_budget c" "dc_policy c"]
  obtain s' dir' where ev: "evict_disk (dc_disk_budget c) (dc_policy c) u (admit_disk k (length (content k)) (cs_next_seq ?s) False ?m) (dc_dir c) = (s', dir')"
    by (cases "evict_disk (dc_disk_budget c) (dc_policy c) u (admit_disk k (length (content k)) (cs_next_seq ?s) False ?m) (dc_dir c)")
  have ring: "\<forall>x \<in> set (cs_disk_ring ?m). snd x < cs_next_seq ?s"
    using m(3) state_okD(4)[OF sok] by (simp add: same_disk_def disk_tier.tier_ok_def)
  note d = admit_and_evict_disk[OF m(1) m(4) ring ev]
  have "cs_disk_bytes ?m \<le> dc_disk_budget c"
    using m(3) ok by (simp add: same_disk_def cache_ok_def within_budgets_def)
  moreover have eq: "put_admit w u k (content k) c = (if w then c\<lparr>dc_state := s', dc_dir := dir'\<rparr> else c\<lparr>dc_state := ?m\<rparr>)"
    using ev by (simp add: put_admit_def Let_def)
  ultimately show "cache_ok (put_admit w u k (content k) c)"
    unfolding eq using m(1,2) d(1,2) order.trans[OF d(3) m(2)] by (simp add: cache_ok_def within_budgets_def)
  have hm: "holds content K (c\<lparr>dc_state := ?m\<rparr>)"
    using h m(5) by (simp add: holds_def)
  have "holds content K (c\<lparr>dc_state := s', dc_dir := dir'\<rparr>)"
    by (rule holds_shrink[OF hm]) (use d in simp_all)
  then show "holds content K (put_admit w u k (content k) c)"
    unfolding eq using hm by simp
qed

lemma mem_holds_mark [simp]: "mem_holds content K (mark_disk k s) = mem_holds content K s"
  by (simp add: mem_holds_def)

lemma promote_ok:
  assumes ok: "cache_ok c" and h: "holds content K c" and k: "k \<in> K"
  shows "cache_ok (promote u k (content k) c) \<and> holds content K (promote u k (content k) c)"
proof (cases "map_of (cs_mem (dc_state c)) k")
  case None
  let ?s = "dc_state c"
  let ?m = "evict_mem (dc_mem_budget c) (dc_policy c) (admit_mem k (content k) (cs_next_seq ?s) (?s\<lparr>cs_next_seq := cs_next_seq ?s + 1\<rparr>))"
  have sok: "state_ok ?s" using ok by (simp add: cache_ok_def)
  have held: "mem_holds content K ?s" using h by (simp add: holds_def)
  note m = admit_and_evict_mem[OF sok held k refl, of "dc_mem_budget c" "dc_policy c"]
  have mok: "cache_ok (c\<lparr>dc_state := ?m\<rparr>)" and hm: "holds content K (c\<lparr>dc_state := ?m\<rparr>)"
    using m h ok by (simp_all add: holds_def cache_ok_def within_budgets_def same_disk_def)
  show ?thesis
  proof (cases "map_of (cs_disk ?m) k")
    case (Some d)
    have "promote u k (content k) c = c\<lparr>dc_state := if dc_policy c = Clock then mark_disk k ?m else ?m\<rparr>"
      unfolding promote_def Let_def by (simp only: None Some if_True option.case simp_thms)
    moreover have "holds content K (c\<lparr>dc_state := mark_disk k ?m\<rparr>)"
      using hm by (simp add: holds_def)
    moreover have "cache_ok (c\<lparr>dc_state := mark_disk k ?m\<rparr>)"
      using mok state_ok_reference(1)[of ?m k] by (simp add: cache_ok_def within_budgets_def)
    ultimately show ?thesis using mok hm by (cases "dc_policy c = Clock") (simp_all only: if_True if_False simp_thms)
  next
    case N: None
    obtain s' dir' where ev: "evict_disk (dc_disk_budget c) (dc_policy c) u (admit_disk k (length (content k)) (cs_next_seq ?s) (dc_policy c = Clock) ?m) (dc_dir c) = (s', dir')"
      by (cases "evict_disk (dc_disk_budget c) (dc_policy c) u (admit_disk k (length (content k)) (cs_next_seq ?s) (dc_policy c = Clock) ?m) (dc_dir c)")
    have ring: "\<forall>x \<in> set (cs_disk_ring ?m). snd x < cs_next_seq ?s"
      using m(3) state_okD(4)[OF sok] by (simp add: same_disk_def disk_tier.tier_ok_def)
    note d = admit_and_evict_disk[OF m(1) m(4) ring ev]
    have eq: "promote u k (content k) c = c\<lparr>dc_state := s', dc_dir := dir'\<rparr>"
      unfolding promote_def Let_def using None N ev by simp
    have "holds content K (c\<lparr>dc_state := s', dc_dir := dir'\<rparr>)"
      by (rule holds_shrink[OF hm]) (use d in simp_all)
    then show ?thesis
      unfolding eq using d(1,2) order.trans[OF d(3) m(2)] by (simp add: cache_ok_def within_budgets_def)
  qed
next
  case (Some e)
  have "holds content K (c\<lparr>dc_state := mark_disk k (dc_state c)\<rparr>)"
    using h by (simp add: holds_def)
  moreover have "promote u k (content k) c = (if dc_policy c = Clock then c\<lparr>dc_state := mark_disk k (dc_state c)\<rparr> else c)"
    using Some by (simp add: promote_def Let_def del: map_of_eq_Some_iff)
  ultimately show ?thesis
    using ok h state_ok_reference(1)[of "dc_state c" k] by (simp add: cache_ok_def within_budgets_def)
qed

lemma mem_lookup_ok:
  assumes ok: "cache_ok c" and h: "holds content K c" and l: "mem_lookup c k = (Some b, c')"
  shows "cache_ok c' \<and> holds content K c' \<and> k \<in> K \<and> b = content k \<and> dc_dir c' = dc_dir c"
proof -
  obtain e where e: "map_of (cs_mem (dc_state c)) k = Some e" "b = me_bytes e"
    using l by (cases "map_of (cs_mem (dc_state c)) k") (auto simp: mem_lookup_def)
  let ?s = "(dc_state c)\<lparr>cs_mem := AList.update k (e\<lparr>me_referenced := True\<rparr>) (cs_mem (dc_state c))\<rparr>"
  have c': "c' = (if dc_policy c = Clock then c\<lparr>dc_state := mark_disk k ?s\<rparr> else c)"
    using l e by (simp add: mem_lookup_def del: map_of_eq_Some_iff)
  have held: "k \<in> K" "me_bytes e = content k" "mem_holds content K (dc_state c)"
    using h e by (auto simp: holds_def mem_holds_def simp del: map_of_eq_Some_iff)
  then have "mem_holds content K (mark_disk k ?s)"
    by (auto simp: mem_holds_def AList.update_conv' simp del: map_of_eq_Some_iff split: if_splits)
  moreover have "state_ok ?s" using ok e state_ok_reference(2) by (simp add: cache_ok_def)
  then have "state_ok (mark_disk k ?s)" by (rule state_ok_reference(1))
  ultimately show ?thesis
    unfolding c' using ok h held e(2) by (simp add: cache_ok_def holds_def within_budgets_def)
qed

lemma renew_ok:
  assumes ok: "cache_ok c" and h: "holds content K c"
  shows "cache_ok (renew k c) \<and> holds content K (renew k c)"
proof -
  let ?s = "dc_state c" and ?q = "cs_next_seq (dc_state c)"
  have sok: "state_ok ?s" using ok by (simp add: cache_ok_def)
  note t = state_okD[OF sok]
  have m: "mem_tier.tier_ok (Suc ?q) (cs_mem_ring ?s @ [(k, ?q)]) (AList.update k (e\<lparr>me_seq := ?q\<rparr>) (cs_mem ?s))"
    and d: "disk_tier.tier_ok (Suc ?q) (cs_disk_ring ?s @ [(k, ?q)]) (AList.update k (x\<lparr>de_seq := ?q\<rparr>) (cs_disk ?s))" for e x
    using mem_tier.tier_ok_admit[OF t(1)] disk_tier.tier_ok_admit[OF t(4)] by simp_all
  have mt: "mem_total (AList.update k (e\<lparr>me_seq := ?q\<rparr>) (cs_mem ?s)) = mem_total (cs_mem ?s)" if "map_of (cs_mem ?s) k = Some e" for e
    using sum_update[OF t(2), of "\<lambda>e. length (me_bytes e)"] sum_delete[OF t(2) that, of "\<lambda>e. length (me_bytes e)"] that
    by (simp add: mem_total_def del: map_of_eq_Some_iff)
  have dt: "disk_total (AList.update k (x\<lparr>de_seq := ?q\<rparr>) (cs_disk ?s)) = disk_total (cs_disk ?s)" if "map_of (cs_disk ?s) k = Some x" for x
    using sum_update[OF t(5), of de_size] sum_delete[OF t(5) that, of de_size] that
    by (simp add: disk_total_def del: map_of_eq_Some_iff)
  have "state_ok (dc_state (renew k c))"
    using m d mt dt t mem_tier.tier_ok_mono[OF t(1), of "Suc ?q"] disk_tier.tier_ok_mono[OF t(4), of "Suc ?q"]
    by (cases "map_of (cs_mem ?s) k"; cases "map_of (cs_disk ?s) k")
       (simp_all add: renew_def Let_def state_ok_def del: map_of_eq_Some_iff)
  moreover have "mem_holds content K (dc_state (renew k c))"
    using h by (cases "map_of (cs_mem ?s) k"; cases "map_of (cs_disk ?s) k")
      (auto simp: renew_def Let_def holds_def mem_holds_def AList.update_conv' simp del: map_of_eq_Some_iff split: if_splits)
  moreover have "dc_dir (renew k c) = dc_dir c" "within_budgets (renew k c) = within_budgets c"
    by (cases "map_of (cs_mem ?s) k"; cases "map_of (cs_disk ?s) k"; simp add: renew_def Let_def within_budgets_def del: map_of_eq_Some_iff)+
  ultimately show ?thesis using ok h by (simp add: cache_ok_def holds_def)
qed

lemma write_blob_ok:
  assumes ok: "cache_ok c" and h: "holds content K c" and k: "k \<in> K" and inj: "inj_on filename K"
  shows "cache_ok (write_blob w k (content k) c) \<and> holds content K (write_blob w k (content k) c)"
proof -
  have "b = content k'" if "k' \<in> K" "map_of (AList.update (filename k) (content k) (dc_dir c)) (filename k') = Some b" for k' b
    using that k inj h by (auto simp: AList.update_conv' holds_def inj_on_def simp del: map_of_eq_Some_iff split: if_splits)
  then show ?thesis
    using ok h by (auto simp: write_blob_def cache_ok_def within_budgets_def holds_def simp del: map_of_eq_Some_iff)
qed

lemma wipe_ok: "cache_ok c \<Longrightarrow> holds content K c \<Longrightarrow> cache_ok (wipe u c) \<and> holds content K (wipe u c)"
  using map_of_filter_keys[of "\<lambda>f. \<not> u f" "dc_dir c"]
  by (auto simp: wipe_def cache_ok_def within_budgets_def holds_def mem_holds_def state_ok_def mem_total_def disk_total_def
       mem_tier.tier_ok_def disk_tier.tier_ok_def case_prod_unfold simp del: map_of_eq_Some_iff split: if_splits)

lemma cache_step_ok:
  assumes "cache_step content K x l y" "system_ok content K x" "inj_on filename K"
  shows "system_ok content K y \<and> (\<forall>k b. l = Some (k, b) \<longrightarrow> b = content k)"
  using assms
proof (cases rule: cache_step.cases)
  case (step_hit k c b c' T)
  then show ?thesis using assms(2) mem_lookup_ok[of c content K k b c']
    by (simp add: system_ok_def task_ok_def cache_ok_def within_budgets_def holds_def)
next
  case (step_renew k T c)
  then show ?thesis using assms(2) renew_ok[of c content K k] by (simp add: system_ok_def)
next
  case (step_miss c T)
  then show ?thesis using assms(2) by (simp add: system_ok_def cache_ok_def within_budgets_def holds_def)
next
  case (step_load k r c b T)
  then have "b = content k"
    using assms(2) by (auto simp: system_ok_def holds_def read_blob_def simp del: map_of_eq_Some_iff split: if_splits)
  with step_load show ?thesis using assms(2)
    by (simp add: system_ok_def task_ok_def cache_ok_def within_budgets_def holds_def)
next
  case (step_promote k b T c u)
  then have "k \<in> K" "b = content k" using assms(2) by (auto simp: system_ok_def task_ok_def)
  with step_promote show ?thesis using assms(2) promote_ok[of c content K k u] by (simp add: system_ok_def)
next
  case (step_write k c T w)
  then show ?thesis using assms(2) write_blob_ok[OF _ _ _ assms(3), of c content k w] by (simp add: system_ok_def task_ok_def)
next
  case (step_admit k b w T c u)
  then have "k \<in> K" "b = content k" using assms(2) by (auto simp: system_ok_def task_ok_def)
  with step_admit show ?thesis using assms(2) put_admit_ok[of c content K k w u] by (simp add: system_ok_def)
next
  case (step_wipe c T u)
  then show ?thesis using assms(2) wipe_ok[of c content K u] by (simp add: system_ok_def)
qed

lemma cache_run_ok:
  "cache_run content K x ls y \<Longrightarrow> system_ok content K x \<Longrightarrow> inj_on filename K \<Longrightarrow>
   system_ok content K y \<and> (\<forall>k b. Some (k, b) \<in> set ls \<longrightarrow> b = content k)"
proof (induction rule: cache_run.induct)
  case (run_step x ls y l z)
  have y: "system_ok content K y" "\<forall>k b. Some (k, b) \<in> set ls \<longrightarrow> b = content k"
    using run_step.IH run_step.prems by blast+
  note z = cache_step_ok[OF run_step.hyps(2) y(1) run_step.prems(2)]
  show ?case
  proof (intro conjI allI impI)
    show "system_ok content K z" using z by blast
    fix k b assume "Some (k, b) \<in> set (ls @ [l])"
    then consider "Some (k, b) \<in> set ls" | "l = Some (k, b)" by auto
    then show "b = content k" using y(2) z by cases blast+
  qed
qed simp

lemma fresh_system_ok:
  assumes "\<And>k b. k \<in> K \<Longrightarrow> map_of dir (filename k) = Some b \<Longrightarrow> b = content k"
  shows "system_ok content K (with_policy dir m d pol, {})"
proof -
  have "holds content K (with_policy dir m d pol)"
    using assms unfolding holds_def by (simp add: mem_holds_def with_policy_def del: map_of_eq_Some_iff)
  then show ?thesis
    by (simp add: system_ok_def cache_ok_def within_budgets_def state_ok_def with_policy_def
        mem_total_def disk_total_def mem_tier.tier_ok_def disk_tier.tier_ok_def)
qed

section \<open>Properties\<close>

text \<open>The operations, each run by one thread alone, are runs of these steps.\<close>
lemma cache_put_op_run:
  assumes "k \<in> K"
  shows "cache_run content K (c, T) [None, None] (cache_put_op w u k (content k) c, insert (Written k (content k) w) T)"
proof -
  have "cache_run content K (c, T) ([] @ [None]) (write_blob w k (content k) c, insert (Written k (content k) w) T)"
    by (rule run_step[OF run_done step_write[OF assms]])
  then have "cache_run content K (c, T) (([] @ [None]) @ [None]) (put_admit w u k (content k) (write_blob w k (content k) c), insert (Written k (content k) w) T)"
    by (rule run_step) (rule step_admit, simp)
  then show ?thesis by (simp add: cache_put_op_def)
qed

lemma get_source_run:
  assumes k: "k \<in> K" and g: "get_source r u k c = (res, c')"
  shows "\<exists>ls T'. cache_run content K (c, T) ls (c', T') \<and> (\<forall>b src. res = Some (b, src) \<longrightarrow> Some (k, b) \<in> set ls)"
proof -
  obtain hit c1 where l: "mem_lookup c k = (hit, c1)" by (cases "mem_lookup c k")
  show ?thesis
  proof (cases hit)
    case (Some b)
    let ?c = "c1\<lparr>dc_hits := dc_hits c1 + 1\<rparr>"
    have r1: "cache_run content K (c, T) ([] @ [Some (k, b)]) (?c, insert (Hit k) T)"
      using l Some by (intro run_step[OF run_done] step_hit[OF k]) simp
    have res: "res = Some (b, MemSource)" "c' = (if dc_policy ?c = Lru then renew k ?c else ?c)"
      using g l Some by (auto simp: get_source_def Let_def)
    show ?thesis
    proof (cases "dc_policy ?c = Lru")
      case True
      have "cache_run content K (c, T) (([] @ [Some (k, b)]) @ [None]) (renew k ?c, insert (Hit k) T)"
        by (rule run_step[OF r1]) (rule step_renew[OF _ True], simp)
      then show ?thesis using res True by (intro exI[of _ "([] @ [Some (k, b)]) @ [None]"] exI[of _ "insert (Hit k) T"]) simp
    next
      case False
      then show ?thesis using res r1 by (intro exI[of _ "[] @ [Some (k, b)]"] exI[of _ "insert (Hit k) T"]) simp
    qed
  next
    case None
    then have c1: "c1 = c" using l by (cases "map_of (cs_mem (dc_state c)) k") (auto simp: mem_lookup_def)
    show ?thesis
    proof (cases "read_blob r c k")
      case N: None
      have "cache_run content K (c, T) ([] @ [None]) (c\<lparr>dc_misses := dc_misses c + 1\<rparr>, T)"
        by (rule run_step[OF run_done step_miss])
      then show ?thesis using g l None N c1 by (intro exI[of _ "[] @ [None]"] exI[of _ T]) (auto simp: get_source_def)
    next
      case (Some b)
      let ?c = "c\<lparr>dc_hits := dc_hits c + 1\<rparr>"
      have "cache_run content K (c, T) ([] @ [Some (k, b)]) (?c, insert (Loaded k b) T)"
        by (rule run_step[OF run_done step_load[OF k Some]])
      then have "cache_run content K (c, T) (([] @ [Some (k, b)]) @ [None]) (promote u k b ?c, insert (Loaded k b) T)"
        by (rule run_step) (rule step_promote, simp)
      then show ?thesis
        using g l None Some c1 by (intro exI[of _ "([] @ [Some (k, b)]) @ [None]"] exI[of _ "insert (Loaded k b) T"]) (auto simp: get_source_def)
    qed
  qed
qed


definition sample_key :: cache_key where
  "sample_key = cache_key_new [] ''ns/seg-1/pk.idx'' ''immutable''"


text \<open>The hand of the memory ring evicts the oldest admitted entry that was not used since the hand last passed it,
  and only when every entry was used the oldest admitted one; under FIFO it is always the oldest.\<close>
theorem eviction_gives_second_chance:
  assumes "state_ok s"
  shows "fst (mem_victim Clock (cs_mem_ring s) (cs_mem s)) =
      (case find (mem_tier.unreferenced (cs_mem s)) (cs_mem_ring s) of Some v \<Rightarrow> Some v | None \<Rightarrow> find (mem_tier.live (cs_mem s)) (cs_mem_ring s)) \<and>
    fst (mem_victim Fifo (cs_mem_ring s) (cs_mem s)) = find (mem_tier.live (cs_mem s)) (cs_mem_ring s)"
  using mem_tier.clock_victim[of "cs_mem_ring s" "cs_mem s"] mem_tier.fifo_victim[of "length (cs_mem_ring s)" "cs_mem_ring s" "cs_mem s"] state_okD(1)[OF assms]
  by (simp add: mem_tier.tier_ok_def next_victim_def)

text \<open>Two entries, the older one referenced: CLOCK takes the younger, FIFO the older.\<close>
definition sample_state :: cache_state where
  "sample_state = \<lparr>cs_mem = [(sample_key, \<lparr>me_bytes = [1], me_seq = 0, me_referenced = True\<rparr>),
       (sample_key\<lparr>ck_path := ''ns/x''\<rparr>, \<lparr>me_bytes = [2, 3], me_seq = 1, me_referenced = False\<rparr>)],
     cs_mem_ring = [(sample_key, 0), (sample_key\<lparr>ck_path := ''ns/x''\<rparr>, 1)], cs_mem_bytes = 3,
     cs_disk = [], cs_disk_ring = [], cs_disk_bytes = 0, cs_next_seq = 2\<rparr>"

theorem eviction_gives_second_chance_witness:
  "fst (mem_victim Clock (cs_mem_ring sample_state) (cs_mem sample_state)) = Some (sample_key\<lparr>ck_path := ''ns/x''\<rparr>, 1) \<and>
   fst (mem_victim Fifo (cs_mem_ring sample_state) (cs_mem sample_state)) = Some (sample_key, 0)"
proof -
  have "state_ok sample_state"
    by (simp add: state_ok_def sample_state_def sample_key_def cache_key_new_def mem_tier.tier_ok_def disk_tier.tier_ok_def mem_total_def disk_total_def)
  from eviction_gives_second_chance[OF this] show ?thesis
    by (simp add: sample_state_def sample_key_def cache_key_new_def mem_tier.unreferenced_def mem_tier.live_def)
qed

text \<open>A put that fits the free space of both budgets is answered from memory by the next lookup, whatever fails on disk, and
  evicts nothing: every other object in memory is still answered from memory.\<close>
theorem cache_put_get:
  assumes "cs_mem_bytes (dc_state c) + length b \<le> dc_mem_budget c" "cs_disk_bytes (dc_state c) + length b \<le> dc_disk_budget c"
  shows "fst (get_source r u' k (cache_put_op w u k b c)) = Some (b, MemSource) \<and>
    (\<forall>k' e. k' \<noteq> k \<and> map_of (cs_mem (dc_state c)) k' = Some e \<longrightarrow> fst (get_source r u' k' (cache_put_op w u k b c)) = Some (me_bytes e, MemSource))"
proof -
  let ?s = "dc_state (write_blob w k b c)"
  have s: "?s = dc_state c" "dc_mem_budget (write_blob w k b c) = dc_mem_budget c" "dc_disk_budget (write_blob w k b c) = dc_disk_budget c"
    by (simp_all add: write_blob_def)
  let ?m = "admit_mem k b (cs_next_seq ?s) (?s\<lparr>cs_next_seq := cs_next_seq ?s + 1\<rparr>)"
  have m: "evict_mem (dc_mem_budget c) pol ?m = ?m" for pol
    using assms(1) by (subst evict_mem.simps) (auto simp: admit_mem_def s split: option.split)
  have d: "evict_disk (dc_disk_budget c) pol u (admit_disk k (length b) q False ?m) dir = (admit_disk k (length b) q False ?m, dir)" for pol q dir
    using assms(2) by (subst evict_disk.simps) (auto simp: admit_disk_def admit_mem_def s split: option.split)
  have "cs_mem (dc_state (cache_put_op w u k b c)) =
      AList.update k \<lparr>me_bytes = b, me_seq = cs_next_seq (dc_state c), me_referenced = False\<rparr> (cs_mem (dc_state c))"
    unfolding cache_put_op_def put_admit_def Let_def s(2,3) m d by (simp add: admit_mem_def admit_disk_def write_blob_def)
  then show ?thesis
    by (simp add: get_source_def mem_lookup_def Let_def AList.update_conv' del: map_of_eq_Some_iff)
qed

theorem cache_put_get_witness:
  "fst (get_source False (\<lambda>_. True) sample_key (cache_put_op False (\<lambda>_. True) sample_key [1, 2, 3] (with_budgets [] 4 4))) = Some ([1, 2, 3], MemSource)"
  using cache_put_get[of "with_budgets [] 4 4" "[1, 2, 3]"] by (simp add: with_budgets_def with_policy_def)

lemma hex_digit_inj: "a < 16 \<Longrightarrow> b < 16 \<Longrightarrow> hex_digit a = hex_digit b \<Longrightarrow> a = b"
  by (auto simp: hex_digit_def char_of_eq_iff take_bit_eq_mod split: if_splits)

lemma hex_fixed_inj: "a < 16 ^ w \<Longrightarrow> b < 16 ^ w \<Longrightarrow> hex_fixed w a = hex_fixed w b \<Longrightarrow> a = b"
proof (induction w arbitrary: a b)
  case (Suc w)
  have "a div 16 = b div 16"
    using Suc.prems by (intro Suc.IH) (auto simp: less_mult_imp_div_less mult.commute)
  moreover have "a mod 16 = b mod 16"
    using Suc.prems(3) by (intro hex_digit_inj) auto
  ultimately show ?case by (metis div_mult_mod_eq)
qed simp

lemma zero_blob: "''0000000000000000.blob'' = hex_fixed 16 0 @ ''.blob''"
  by code_simp

text \<open>Blobs left by an earlier process are not counted until they are read: a cache opened over a directory with an old
  blob exceeds its disk budget on disk while its counter is within it.\<close>
theorem restart_overcommits_disk:
  "let c = cache_put_op True (\<lambda>_. True) sample_key [1, 2, 3] (with_budgets [(''0000000000000000.blob'', replicate 10 0)] 8 8)
   in dc_disk_budget c = 8 \<and> cs_disk_bytes (dc_state c) = 3 \<and> sum_list (map (\<lambda>(f, b). length b) (dc_dir c)) = 13"
proof -
  have "key_hash sample_key \<noteq> 0"
    by (simp add: key_hash_def sample_key_def cache_key_new_def fnv_step_def ascii_bytes_def)
  then have "filename sample_key \<noteq> ''0000000000000000.blob''"
    using hex_fixed_inj[of "unat (key_hash sample_key)" 16 0] unat_lt[of "key_hash sample_key"]
    by (auto simp: filename_def zero_blob unat_eq_0)
  then show ?thesis
    by (simp add: Let_def cache_put_op_def put_admit_def write_blob_def with_budgets_def with_policy_def admit_mem_def admit_disk_def
        evict_mem.simps evict_disk.simps)
qed

end
