(* ===== verification/Spill.thy ===== *)
theory Spill
  imports Core_Memory "HOL-Library.Multiset"
begin

text \<open>
  The external merge sort and the item spill of the rebuild in bounded memory (\<open>mlake-index/src/spill.rs\<close>).  A temporary
  file is the bytes written to it; failures of the local disk, which only abort the rebuild, are left out, while every
  failure to read back a record is a branch.  The heap of the merge is a list in the order in which it is popped.
\<close>

section \<open>Definitions\<close>

datatype spill_error = UnexpectedEof | RunOutOfRange

type_synonym pair = "bytes \<times> bytes"

text \<open>\<open>read_exact\<close> of \<open>n\<close> bytes.\<close>
definition read_exact :: "nat \<Rightarrow> bytes \<Rightarrow> (bytes \<times> bytes) option" where
  "read_exact n bs = (if length bs < n then None else Some (take n bs, drop n bs))"

text \<open>A block of bytes behind its length in four bytes, little endian.\<close>
definition framed :: "bytes \<Rightarrow> bytes" where
  "framed bs = to_le 4 (length bs) @ bs"

definition read_framed :: "bytes \<Rightarrow> (bytes \<times> bytes) option" where
  "read_framed bs = (case read_exact 4 bs of None \<Rightarrow> None | Some (len, rest) \<Rightarrow> read_exact (from_le len) rest)"

subsection \<open>Item spill\<close>

record item_spill =
  is_file :: bytes
  is_count :: nat

definition item_spill_new :: item_spill where
  "item_spill_new = \<lparr>is_file = [], is_count = 0\<rparr>"

definition item_spill_push :: "(stored_memory \<Rightarrow> bytes) \<Rightarrow> stored_memory \<Rightarrow> item_spill \<Rightarrow> item_spill" where
  "item_spill_push w m s = \<lparr>is_file = is_file s @ framed (w m), is_count = is_count s + 1\<rparr>"

record item_spill_reader =
  ir_rest :: bytes
  ir_remaining :: nat

definition into_reader :: "item_spill \<Rightarrow> item_spill_reader" where
  "into_reader s = \<lparr>ir_rest = is_file s, ir_remaining = is_count s\<rparr>"

text \<open>A record that is cut short leaves the reader where it is; one that does not decode is skipped.\<close>
definition item_spill_next :: "(bytes \<Rightarrow> stored_memory option) \<Rightarrow> item_spill_reader \<Rightarrow> stored_memory option \<times> item_spill_reader" where
  "item_spill_next r rd =
     (if ir_remaining rd = 0 then (None, rd)
      else case read_framed (ir_rest rd) of None \<Rightarrow> (None, rd)
      | Some (buf, rest) \<Rightarrow> (r buf, \<lparr>ir_rest = rest, ir_remaining = ir_remaining rd - 1\<rparr>))"

subsection \<open>External sort\<close>

text \<open>One record of a run file: the key, then the framed value.  At the end of the file fewer than 16 bytes remain.\<close>
definition run_read_next :: "bytes \<Rightarrow> spill_error + (pair \<times> bytes) option" where
  "run_read_next bs = (case read_exact 16 bs of None \<Rightarrow> Inr None
     | Some (key, rest) \<Rightarrow> (case read_framed rest of None \<Rightarrow> Inl UnexpectedEof | Some (val, rest) \<Rightarrow> Inr (Some ((key, val), rest))))"

record heap_item =
  hi_key :: bytes
  hi_value :: bytes
  hi_run :: nat

text \<open>The heap order: the smaller key first, then the smaller run.\<close>
definition heap_before :: "heap_item \<Rightarrow> heap_item \<Rightarrow> bool" where
  "heap_before a b = (hi_key a < hi_key b \<or> (hi_key a = hi_key b \<and> hi_run a \<le> hi_run b))"

fun heap_push :: "heap_item \<Rightarrow> heap_item list \<Rightarrow> heap_item list" where
  "heap_push x [] = [x]"
| "heap_push x (y # ys) = (if heap_before x y then x # y # ys else y # heap_push x ys)"

record external_sort =
  es_buf :: "pair list"
  es_buf_bytes :: nat
  es_cap_bytes :: nat
  es_runs :: "bytes list"

definition external_sort_new :: "nat \<Rightarrow> external_sort" where
  "external_sort_new cap = \<lparr>es_buf = [], es_buf_bytes = 0, es_cap_bytes = max cap 4096, es_runs = []\<rparr>"

definition run_bytes :: "pair list \<Rightarrow> bytes" where
  "run_bytes kvs = concat (map (\<lambda>(k, v). k @ framed v) kvs)"

definition es_spill :: "external_sort \<Rightarrow> external_sort" where
  "es_spill s = (if es_buf s = [] then s
     else s\<lparr>es_buf := [], es_buf_bytes := 0, es_runs := es_runs s @ [run_bytes (sort_key fst (es_buf s))]\<rparr>)"

definition es_add :: "bytes \<Rightarrow> bytes \<Rightarrow> external_sort \<Rightarrow> external_sort" where
  "es_add key value s =
     (let s = s\<lparr>es_buf_bytes := es_buf_bytes s + 20 + length value, es_buf := es_buf s @ [(key, value)]\<rparr>
      in if es_cap_bytes s \<le> es_buf_bytes s then es_spill s else s)"

datatype merge = InMemory "pair list" | Runs "bytes list" "heap_item list"

fun open_runs :: "nat \<Rightarrow> bytes list \<Rightarrow> heap_item list \<Rightarrow> spill_error + bytes list \<times> heap_item list" where
  "open_runs i [] heap = Inr ([], heap)"
| "open_runs i (f # fs) heap = (case run_read_next f of Inl e \<Rightarrow> Inl e
     | Inr first \<Rightarrow> (case (case first of Some ((key, value), rest) \<Rightarrow> (rest, heap_push \<lparr>hi_key = key, hi_value = value, hi_run = i\<rparr> heap)
           | None \<Rightarrow> (f, heap)) of (r, heap) \<Rightarrow>
         (case open_runs (Suc i) fs heap of Inl e \<Rightarrow> Inl e | Inr (rs, heap) \<Rightarrow> Inr (r # rs, heap))))"

definition es_finish :: "external_sort \<Rightarrow> spill_error + merge" where
  "es_finish s = (if es_runs s = [] then Inr (InMemory (sort_key fst (es_buf s)))
     else case open_runs 0 (es_runs (es_spill s)) [] of Inl e \<Rightarrow> Inl e | Inr (readers, heap) \<Rightarrow> Inr (Runs readers heap))"

fun merge_next :: "merge \<Rightarrow> spill_error + (pair \<times> merge) option" where
  "merge_next (InMemory []) = Inr None"
| "merge_next (InMemory (x # xs)) = Inr (Some (x, InMemory xs))"
| "merge_next (Runs readers []) = Inr None"
| "merge_next (Runs readers (first_item # heap)) =
     (if length readers \<le> hi_run first_item then Inl RunOutOfRange
      else case run_read_next (readers ! hi_run first_item) of Inl e \<Rightarrow> Inl e
      | Inr None \<Rightarrow> Inr (Some ((hi_key first_item, hi_value first_item), Runs readers heap))
      | Inr (Some ((key, value), rest)) \<Rightarrow> Inr (Some ((hi_key first_item, hi_value first_item),
          Runs (readers[hi_run first_item := rest]) (heap_push \<lparr>hi_key = key, hi_value = value, hi_run = hi_run first_item\<rparr> heap))))"

fun merge_size :: "merge \<Rightarrow> nat" where
  "merge_size (InMemory xs) = length xs"
| "merge_size (Runs readers heap) = sum_list (map length readers) + length heap"

lemma length_heap_push [simp]: "length (heap_push x h) = Suc (length h)"
  by (induction h) auto

lemma run_read_next_shorter: "run_read_next bs = Inr (Some (kv, rest)) \<Longrightarrow> length rest < length bs"
  by (auto simp: run_read_next_def read_framed_def read_exact_def intro!: diff_less split: option.splits if_splits)

lemma sum_list_update_less: "i < length xs \<Longrightarrow> length r < length (xs ! i) \<Longrightarrow> sum_list (map length (xs[i := r])) < sum_list (map length xs)"
proof (induction xs arbitrary: i)
  case (Cons x xs)
  then show ?case by (cases i) auto
qed simp

lemma merge_next_smaller: "merge_next m = Inr (Some (x, m')) \<Longrightarrow> merge_size m' < merge_size m"
  by (induction m rule: merge_next.induct)
     (auto split: if_splits sum.splits option.splits dest!: run_read_next_shorter intro!: sum_list_update_less)

text \<open>The whole stream, as the loops \<open>while let Some((key, val)) = merge.next()?\<close> consume it.\<close>
function merge_collect :: "merge \<Rightarrow> spill_error + pair list" where
  "merge_collect m = (case merge_next m of Inl e \<Rightarrow> Inl e | Inr None \<Rightarrow> Inr []
     | Inr (Some (x, m')) \<Rightarrow> (case merge_collect m' of Inl e \<Rightarrow> Inl e | Inr xs \<Rightarrow> Inr (x # xs)))"
  by pat_completeness auto
termination by (relation "measure merge_size") (auto intro: merge_next_smaller[OF sym])

declare merge_collect.simps [simp del]

section \<open>Reading back what was written\<close>

definition pair_ok :: "pair \<Rightarrow> bool" where
  "pair_ok kv \<longleftrightarrow> length (fst kv) = 16 \<and> length (snd kv) < 2 ^ 32"

lemma read_framed_framed: "length v < 2 ^ 32 \<Longrightarrow> read_framed (framed v @ rest) = Some (v, rest)"
  by (simp add: read_framed_def framed_def read_exact_def from_le_to_le_id)

lemma run_read_next_Cons: "pair_ok kv \<Longrightarrow> run_read_next (run_bytes (kv # kvs)) = Inr (Some (kv, run_bytes kvs))"
  by (cases kv) (simp add: run_read_next_def run_bytes_def read_exact_def pair_ok_def read_framed_framed)

lemma run_bytes_Nil [simp]: "run_bytes [] = []"
  by (simp add: run_bytes_def)

lemma run_read_next_Nil: "run_read_next [] = Inr None"
  by (simp add: run_read_next_def read_exact_def)

lemma item_spill_next_pushed:
  assumes "r (w m) = Some m" "length (w m) < 2 ^ 32"
  shows "item_spill_next r \<lparr>ir_rest = concat (map (framed \<circ> w) (m # ms)), ir_remaining = length (m # ms)\<rparr> =
    (Some m, \<lparr>ir_rest = concat (map (framed \<circ> w) ms), ir_remaining = length ms\<rparr>)"
  using assms by (simp add: item_spill_next_def read_framed_framed)

lemma item_spill_fold:
  "fold (item_spill_push w) ms s = \<lparr>is_file = is_file s @ concat (map (framed \<circ> w) ms), is_count = is_count s + length ms\<rparr>"
  by (induction ms arbitrary: s) (simp_all add: item_spill_push_def)

section \<open>The merge is a stable sort\<close>

lemma heap_before_linear: "heap_before a b \<or> heap_before b a"
  by (auto simp: heap_before_def)

lemma heap_before_trans: "heap_before a b \<Longrightarrow> heap_before b c \<Longrightarrow> heap_before a c"
  by (auto simp: heap_before_def)

lemma set_heap_push [simp]: "set (heap_push x h) = insert x (set h)"
  by (induction h) auto

lemma distinct_heap_push: "hi_run x \<notin> hi_run ` set h \<Longrightarrow> distinct (map hi_run h) \<Longrightarrow> distinct (map hi_run (heap_push x h))"
  by (induction h) auto

lemma sorted_heap_push: "sorted_wrt heap_before h \<Longrightarrow> sorted_wrt heap_before (heap_push x h)"
  by (induction h) (auto intro: heap_before_trans dest: heap_before_linear[THEN disjE] simp: heap_before_linear,
      (metis heap_before_linear)+)

text \<open>Inserting the first minimal element in front of a stable sort.\<close>
lemma sort_key_first:
  assumes "\<And>y. y \<in> set A \<Longrightarrow> f x < f y" "\<And>y. y \<in> set B \<Longrightarrow> f x \<le> f y"
  shows "sort_key f (A @ x # B) = x # sort_key f (A @ B)"
proof (rule properties_for_sort_key)
  show "mset (x # sort_key f (A @ B)) = mset (A @ x # B)" by simp
  show "sorted (map f (x # sort_key f (A @ B)))" using assms by fastforce
  fix k
  have none: "filter (\<lambda>y. f y = f x) A = []" using assms(1) by (fastforce simp: filter_empty_conv)
  show "filter (\<lambda>y. f k = f y) (x # sort_key f (A @ B)) = filter (\<lambda>y. f k = f y) (A @ x # B)"
  proof (cases "f k = f x")
    case True
    then show ?thesis using none sort_key_stable[of f "f x" "A @ B"] by (simp add: eq_commute[of "f x"])
  next
    case False
    then show ?thesis using sort_key_stable[of f "f k" "A @ B"] by (simp add: eq_commute[of "f k"])
  qed
qed

text \<open>A merge in progress: per run, the pairs not yet delivered; the first of each is in the heap, the others in the file.\<close>
definition head_item :: "nat \<Rightarrow> pair list \<Rightarrow> heap_item" where
  "head_item i l = \<lparr>hi_key = fst (hd l), hi_value = snd (hd l), hi_run = i\<rparr>"

lemma heads_alt:
  "{head_item j (ls ! j) | j. j < length ls \<and> ls ! j \<noteq> [] \<and> Q j} =
   {t. hi_run t < length ls \<and> ls ! hi_run t \<noteq> [] \<and> Q (hi_run t) \<and> t = head_item (hi_run t) (ls ! hi_run t)}"
proof (intro set_eqI iffI)
  fix t assume "t \<in> {head_item j (ls ! j) | j. j < length ls \<and> ls ! j \<noteq> [] \<and> Q j}"
  then obtain j where j: "t = head_item j (ls ! j)" "j < length ls" "ls ! j \<noteq> []" "Q j" by blast
  then have "hi_run t = j" by (simp add: head_item_def)
  with j show "t \<in> {t. hi_run t < length ls \<and> ls ! hi_run t \<noteq> [] \<and> Q (hi_run t) \<and> t = head_item (hi_run t) (ls ! hi_run t)}" by simp
qed blast

lemma heads_update:
  "i < length ls \<Longrightarrow> {head_item j (ls[i := xs] ! j) | j. j < length (ls[i := xs]) \<and> ls[i := xs] ! j \<noteq> []} =
   {head_item j (ls ! j) | j. j < length ls \<and> ls ! j \<noteq> [] \<and> j \<noteq> i} \<union> (if xs = [] then {} else {head_item i xs})"
proof -
  assume i: "i < length ls"
  have L: "{head_item j (l ! j) | j. j < length l \<and> l ! j \<noteq> []} =
      {t. hi_run t < length l \<and> l ! hi_run t \<noteq> [] \<and> t = head_item (hi_run t) (l ! hi_run t)}" for l
    using heads_alt[of l "\<lambda>_. True"] by simp
  have "hi_run (head_item i xs) = i" by (simp add: head_item_def)
  then show ?thesis
    unfolding L heads_alt using i by (intro set_eqI, case_tac "hi_run x = i") auto
qed

definition pending :: "pair list list \<Rightarrow> bytes list \<Rightarrow> heap_item list \<Rightarrow> bool" where
  "pending ls readers heap \<longleftrightarrow> readers = map (\<lambda>l. run_bytes (tl l)) ls \<and> sorted_wrt heap_before heap \<and> distinct (map hi_run heap) \<and>
     set heap = {head_item i (ls ! i) | i. i < length ls \<and> ls ! i \<noteq> []} \<and>
     (\<forall>l \<in> set ls. sorted (map fst l) \<and> (\<forall>kv \<in> set l. pair_ok kv))"

lemma concat_update:
  "i < length ls \<Longrightarrow> ls ! i = x # xs \<Longrightarrow> concat ls = concat (take i ls) @ x # (xs @ concat (drop (Suc i) ls)) \<and>
     concat (ls[i := xs]) = concat (take i ls) @ (xs @ concat (drop (Suc i) ls))"
  by (simp add: upd_conv_take_nth_drop) (metis Cons_eq_appendI concat.simps(2) concat_append id_take_nth_drop)

lemma pending_min:
  assumes p: "pending ls readers (t # heap)"
  obtains i xs where "i < length ls" "ls ! i = (hi_key t, hi_value t) # xs" "hi_run t = i"
    "sort_key fst (concat ls) = (hi_key t, hi_value t) # sort_key fst (concat (ls[i := xs]))"
proof -
  obtain i where i: "i < length ls" "ls ! i \<noteq> []" "t = head_item i (ls ! i)"
  proof -
    have "t \<in> {head_item i (ls ! i) | i. i < length ls \<and> ls ! i \<noteq> []}"
      using p unfolding pending_def by (metis list.set_intros(1))
    then show thesis using that by blast
  qed
  define x xs where "x = hd (ls ! i)" "xs = tl (ls ! i)"
  have l: "ls ! i = x # xs" using i(2) by (simp add: x_xs_def)
  have tx: "(hi_key t, hi_value t) = x" "hi_run t = i" using i(3) l by (simp_all add: head_item_def)
  have le: "heap_before t (head_item j (ls ! j))" if "j < length ls" "ls ! j \<noteq> []" for j
  proof -
    have "head_item j (ls ! j) \<in> set (t # heap)" using p that unfolding pending_def by blast
    then show ?thesis using p heap_before_linear[of t t] by (auto simp: pending_def)
  qed
  have bound: "fst x \<le> fst y \<and> (j < i \<longrightarrow> fst x < fst y)" if j: "j < length ls" and y: "y \<in> set (ls ! j)" for j y
  proof -
    have ne: "ls ! j \<noteq> []" using y by auto
    have "fst (hd (ls ! j)) \<le> fst y"
    proof -
      have "sorted (map fst (ls ! j))" using p j by (auto simp: pending_def)
      then show ?thesis using ne y by (cases "ls ! j") auto
    qed
    moreover have "heap_before t (head_item j (ls ! j))" by (rule le[OF j ne])
    ultimately show ?thesis using tx by (auto simp: heap_before_def head_item_def)
  qed
  have "sort_key fst (concat ls) = x # sort_key fst (concat (ls[i := xs]))"
    unfolding conjunct1[OF concat_update[OF i(1) l]] conjunct2[OF concat_update[OF i(1) l]]
  proof (rule sort_key_first)
    fix y assume "y \<in> set (concat (take i ls))"
    then obtain l where "l \<in> set (take i ls)" "y \<in> set l" by auto
    then obtain j where "j < i" "y \<in> set (ls ! j)" using i(1) by (auto simp: in_set_conv_nth[of l])
    then show "fst x < fst y" using bound[of j y] i(1) by auto
  next
    fix y assume "y \<in> set (xs @ concat (drop (Suc i) ls))"
    then consider "y \<in> set xs" | l where "l \<in> set (drop (Suc i) ls)" "y \<in> set l" by auto
    then show "fst x \<le> fst y"
    proof cases
      case 1
      then show ?thesis using bound[of i y] i(1) l by simp
    next
      case 2
      then obtain j where "j < length ls" "l = ls ! j" by (metis in_set_conv_nth in_set_dropD)
      then show ?thesis using bound 2 by blast
    qed
  qed
  with i l tx show thesis by (intro that[of i xs]) simp_all
qed

lemma pending_next:
  assumes p: "pending ls readers (t # heap)" and i: "i < length ls" "ls ! i = (hi_key t, hi_value t) # xs" "hi_run t = i"
  shows "\<exists>readers' heap'. merge_next (Runs readers (t # heap)) = Inr (Some ((hi_key t, hi_value t), Runs readers' heap')) \<and>
    pending (ls[i := xs]) readers' heap'"
proof -
  have rd: "length readers = length ls" "readers ! i = run_bytes xs"
    using p i by (simp_all add: pending_def)
  have srt: "\<forall>l \<in> set (ls[i := xs]). sorted (map fst l) \<and> (\<forall>kv \<in> set l. pair_ok kv)"
  proof
    fix l assume "l \<in> set (ls[i := xs])"
    then consider "l = xs" | "l \<in> set ls" by (meson insertE set_update_subset_insert subsetD)
    moreover have "(hi_key t, hi_value t) # xs \<in> set ls" using i nth_mem by metis
    ultimately show "sorted (map fst l) \<and> (\<forall>kv \<in> set l. pair_ok kv)" using p by cases (fastforce simp: pending_def)+
  qed
  have heap: "set heap = {head_item j (ls ! j) | j. j < length ls \<and> ls ! j \<noteq> [] \<and> j \<noteq> i}"
  proof -
    have all: "insert t (set heap) = {head_item j (ls ! j) | j. j < length ls \<and> ls ! j \<noteq> []}" using p by (simp add: pending_def)
    have "hi_run t \<notin> hi_run ` set heap" using p by (simp add: pending_def)
    then have "set heap = {head_item j (ls ! j) | j. j < length ls \<and> ls ! j \<noteq> []} - {t}" using all by auto
    moreover have t: "t = head_item i (ls ! i)" using i by (simp add: head_item_def)
    moreover have "head_item j (ls ! j) = t \<longleftrightarrow> j = i" for j using t by (auto simp: head_item_def)
    ultimately show ?thesis by blast
  qed
  show ?thesis
  proof (cases xs)
    case Nil
    have "set heap = {head_item j (ls[i := xs] ! j) | j. j < length (ls[i := xs]) \<and> ls[i := xs] ! j \<noteq> []}"
      unfolding heap heads_update[OF i(1)] using Nil by simp
    moreover have "readers = map (\<lambda>l. run_bytes (tl l)) (ls[i := xs])"
    proof -
      have "readers[i := []] = readers" using rd(2) Nil list_update_id[of readers i] by simp
      then show ?thesis using p Nil by (simp add: pending_def map_update)
    qed
    ultimately have "pending (ls[i := xs]) readers heap" using p srt by (simp add: pending_def)
    then show ?thesis using i(1,3) rd Nil by (auto simp: run_read_next_Nil)
  next
    case (Cons kv ys)
    have ok: "pair_ok kv" using p i Cons nth_mem[OF i(1)] by (auto simp: pending_def)
    let ?item = "\<lparr>hi_key = fst kv, hi_value = snd kv, hi_run = i\<rparr>"
    have "set (heap_push ?item heap) = {head_item j (ls[i := xs] ! j) | j. j < length (ls[i := xs]) \<and> ls[i := xs] ! j \<noteq> []}"
      unfolding set_heap_push heap heads_update[OF i(1)] using Cons by (simp add: head_item_def)
    moreover have "readers[i := run_bytes ys] = map (\<lambda>l. run_bytes (tl l)) (ls[i := xs])"
      using p i Cons by (simp add: pending_def map_update)
    moreover have "distinct (map hi_run (heap_push ?item heap))" "sorted_wrt heap_before (heap_push ?item heap)"
      using p i(3) by (auto simp: pending_def intro!: distinct_heap_push sorted_heap_push)
    ultimately have "pending (ls[i := xs]) (readers[i := run_bytes ys]) (heap_push ?item heap)"
      using srt by (simp add: pending_def)
    then show ?thesis using i(1,3) rd Cons ok run_read_next_Cons[OF ok, of ys] by (cases kv) auto
  qed
qed

lemma merge_collect_pending: "pending ls readers heap \<Longrightarrow> merge_collect (Runs readers heap) = Inr (sort_key fst (concat ls))"
proof (induction "merge_size (Runs readers heap)" arbitrary: ls readers heap rule: less_induct)
  case less
  show ?case
  proof (cases heap)
    case Nil
    then have "concat ls = []" using less.prems by (auto simp: pending_def in_set_conv_nth)
    then show ?thesis by (simp only:) (subst merge_collect.simps, simp add: Nil)
  next
    case (Cons t h)
    obtain i xs where i: "i < length ls" "ls ! i = (hi_key t, hi_value t) # xs" "hi_run t = i"
      and s: "sort_key fst (concat ls) = (hi_key t, hi_value t) # sort_key fst (concat (ls[i := xs]))"
      by (rule pending_min[OF less.prems[unfolded Cons]])
    obtain readers' heap' where nx: "merge_next (Runs readers heap) = Inr (Some ((hi_key t, hi_value t), Runs readers' heap'))"
      and p': "pending (ls[i := xs]) readers' heap'"
      using pending_next[OF less.prems[unfolded Cons] i] Cons by blast
    have "merge_collect (Runs readers' heap') = Inr (sort_key fst (concat (ls[i := xs])))"
      by (rule less.hyps[OF merge_next_smaller[OF nx] p'])
    then show ?thesis using nx s by (subst merge_collect.simps) simp
  qed
qed

lemma open_runs_pending:
  assumes "\<forall>l \<in> set ls. sorted (map fst l) \<and> (\<forall>kv \<in> set l. pair_ok kv)"
    and "\<And>t. t \<in> set heap \<Longrightarrow> hi_run t < i" "sorted_wrt heap_before heap" "distinct (map hi_run heap)"
  shows "\<exists>heap'. open_runs i (map run_bytes ls) heap = Inr (map (\<lambda>l. run_bytes (tl l)) ls, heap') \<and>
    sorted_wrt heap_before heap' \<and> distinct (map hi_run heap') \<and>
    set heap' = set heap \<union> {head_item (i + j) (ls ! j) | j. j < length ls \<and> ls ! j \<noteq> []}"
  using assms
proof (induction ls arbitrary: i heap)
  case (Cons l ls)
  have idx: "{head_item (i + j) ((l # ls) ! j) | j. j < length (l # ls) \<and> (l # ls) ! j \<noteq> []} =
      (if l = [] then {} else {head_item i l}) \<union> {head_item (Suc i + j) (ls ! j) | j. j < length ls \<and> ls ! j \<noteq> []}"
  proof -
    have "(\<exists>j < length (l # ls). (l # ls) ! j \<noteq> [] \<and> t = head_item (i + j) ((l # ls) ! j)) =
        ((l \<noteq> [] \<and> t = head_item i l) \<or> (\<exists>j < length ls. ls ! j \<noteq> [] \<and> t = head_item (Suc i + j) (ls ! j)))" for t
      by (simp add: Ex_less_Suc2)
    moreover have "{head_item (i + j) ((l # ls) ! j) | j. j < length (l # ls) \<and> (l # ls) ! j \<noteq> []} =
        {t. \<exists>j < length (l # ls). (l # ls) ! j \<noteq> [] \<and> t = head_item (i + j) ((l # ls) ! j)}" by blast
    ultimately show ?thesis by auto
  qed
  show ?case
  proof (cases l)
    case Nil
    have "\<And>t. t \<in> set heap \<Longrightarrow> hi_run t < Suc i" using Cons.prems(2) by (simp add: less_SucI)
    from Cons.IH[OF _ this Cons.prems(3,4)] Cons.prems(1)
    obtain heap' where h: "open_runs (Suc i) (map run_bytes ls) heap = Inr (map (\<lambda>l. run_bytes (tl l)) ls, heap')"
      "sorted_wrt heap_before heap'" "distinct (map hi_run heap')"
      "set heap' = set heap \<union> {head_item (Suc i + j) (ls ! j) | j. j < length ls \<and> ls ! j \<noteq> []}" by auto
    then show ?thesis unfolding idx using Nil by (simp add: run_read_next_Nil)
  next
    case C: (Cons kv kvs)
    let ?item = "\<lparr>hi_key = fst kv, hi_value = snd kv, hi_run = i\<rparr>"
    have ok: "pair_ok kv" using Cons.prems(1) C by simp
    have lt: "\<And>t. t \<in> set (heap_push ?item heap) \<Longrightarrow> hi_run t < Suc i" using Cons.prems(2) by (auto simp: less_SucI)
    have "hi_run ?item \<notin> hi_run ` set heap" using Cons.prems(2) by fastforce
    from Cons.IH[OF _ lt sorted_heap_push[OF Cons.prems(3)] distinct_heap_push[OF this Cons.prems(4)]] Cons.prems(1)
    obtain heap' where h: "open_runs (Suc i) (map run_bytes ls) (heap_push ?item heap) = Inr (map (\<lambda>l. run_bytes (tl l)) ls, heap')"
      "sorted_wrt heap_before heap'" "distinct (map hi_run heap')"
      "set heap' = set (heap_push ?item heap) \<union> {head_item (Suc i + j) (ls ! j) | j. j < length ls \<and> ls ! j \<noteq> []}" by auto
    have "open_runs i (map run_bytes (l # ls)) heap = Inr (map (\<lambda>l. run_bytes (tl l)) (l # ls), heap')"
      using h(1) run_read_next_Cons[OF ok, of kvs] C by (cases kv) simp
    then show ?thesis unfolding idx using h C by (auto simp: head_item_def)
  qed
qed simp

lemma sort_sorted_chunks: "sort_key f (concat (map (sort_key f) chunks)) = sort_key f (concat chunks)"
proof (rule properties_for_sort_key)
  show "mset (sort_key f (concat chunks)) = mset (concat (map (sort_key f) chunks))"
    by (induction chunks) simp_all
  fix k
  have "filter (\<lambda>y. f y = f k) (sort_key f l) = filter (\<lambda>y. f y = f k) l" for l by (rule sort_key_stable)
  then show "filter (\<lambda>y. f k = f y) (sort_key f (concat chunks)) = filter (\<lambda>y. f k = f y) (concat (map (sort_key f) chunks))"
    by (simp add: eq_commute[of "f k"] filter_concat comp_def)
qed simp

text \<open>The sort between two additions: the runs are the sorted chunks of what was added, in order.\<close>
definition es_holds :: "pair list \<Rightarrow> external_sort \<Rightarrow> bool" where
  "es_holds kvs s \<longleftrightarrow> (\<exists>chunks. es_runs s = map (\<lambda>c. run_bytes (sort_key fst c)) chunks \<and> concat chunks @ es_buf s = kvs)"

lemma es_holds_spill: "es_holds kvs s \<Longrightarrow> es_holds kvs (es_spill s)"
proof -
  assume "es_holds kvs s"
  then obtain chunks where "es_runs s = map (\<lambda>c. run_bytes (sort_key fst c)) chunks" "concat chunks @ es_buf s = kvs"
    by (auto simp: es_holds_def)
  then show ?thesis
    by (cases "es_buf s = []") (auto simp: es_holds_def es_spill_def intro: exI[of _ "chunks @ [es_buf s]"] exI[of _ chunks])
qed

lemma es_holds_add: "es_holds kvs s \<Longrightarrow> es_holds (kvs @ [(k, v)]) (es_add k v s)"
proof -
  assume "es_holds kvs s"
  then have "es_holds (kvs @ [(k, v)]) (s\<lparr>es_buf_bytes := es_buf_bytes s + 20 + length v, es_buf := es_buf s @ [(k, v)]\<rparr>)"
    by (auto simp: es_holds_def)
  then show ?thesis by (auto simp: es_add_def Let_def intro: es_holds_spill)
qed

lemma es_holds_fold: "es_holds kvs s \<Longrightarrow> es_holds (kvs @ xs) (fold (\<lambda>(k, v). es_add k v) xs s)"
proof (induction xs arbitrary: kvs s)
  case (Cons x xs)
  obtain k v where "x = (k, v)" by (cases x)
  then show ?case using Cons.IH[OF es_holds_add[OF Cons.prems, of k v]] by simp
qed simp

lemma es_spill_buf [simp]: "es_buf (es_spill s) = []"
  by (simp add: es_spill_def)

lemma es_finish_sorts:
  assumes h: "es_holds kvs s" and ok: "\<forall>kv \<in> set kvs. pair_ok kv"
  shows "\<exists>m. es_finish s = Inr m \<and> merge_collect m = Inr (sort_key fst kvs)"
proof (cases "es_runs s = []")
  case True
  have inmem: "merge_collect (InMemory xs) = Inr xs" for xs
    by (induction xs) (subst merge_collect.simps, simp)+
  have "kvs = es_buf s" using h True by (auto simp: es_holds_def)
  then show ?thesis using True by (simp add: es_finish_def inmem)
next
  case False
  obtain chunks where c: "es_runs (es_spill s) = map (\<lambda>c. run_bytes (sort_key fst c)) chunks" "concat chunks = kvs"
    using es_holds_spill[OF h] by (auto simp: es_holds_def)
  define ls where "ls = map (sort_key fst) chunks"
  have runs: "es_runs (es_spill s) = map run_bytes ls" using c by (simp add: ls_def)
  have ls: "\<forall>l \<in> set ls. sorted (map fst l) \<and> (\<forall>kv \<in> set l. pair_ok kv)" using ok c(2) by (auto simp: ls_def)
  from open_runs_pending[OF ls, where heap = "[]" and i = 0] obtain heap where
    o: "open_runs 0 (map run_bytes ls) [] = Inr (map (\<lambda>l. run_bytes (tl l)) ls, heap)" and
    p: "pending ls (map (\<lambda>l. run_bytes (tl l)) ls) heap"
    using ls by (auto simp: pending_def)
  have "merge_collect (Runs (map (\<lambda>l. run_bytes (tl l)) ls) heap) = Inr (sort_key fst (concat ls))"
    by (rule merge_collect_pending[OF p])
  then show ?thesis using False o runs c(2) by (auto simp: es_finish_def ls_def sort_sorted_chunks)
qed

text \<open>C14. Whatever the buffer cap, the external sort of any number of pairs succeeds and delivers exactly the stable sort of
  the pairs by key: ascending keys, and the pairs of one key in the order in which they were added.\<close>
theorem external_sort_correct:
  assumes "\<And>kv. kv \<in> set kvs \<Longrightarrow> length (fst kv) = 16 \<and> length (snd kv) < 2 ^ 32"
  shows "\<exists>m. es_finish (fold (\<lambda>(k, v). es_add k v) kvs (external_sort_new cap)) = Inr m \<and> merge_collect m = Inr (sort_key fst kvs)"
proof (rule es_finish_sorts)
  have "es_holds [] (external_sort_new cap)" by (simp add: es_holds_def external_sort_new_def)
  from es_holds_fold[OF this] show "es_holds kvs (fold (\<lambda>(k, v). es_add k v) kvs (external_sort_new cap))" by simp
qed (use assms in \<open>simp add: pair_ok_def\<close>)

text \<open>Two values larger than the smallest buffer cap, so that both pairs spill and are merged from their runs.\<close>
theorem external_sort_correct_witness:
  "\<exists>m. es_finish (fold (\<lambda>(k, v). es_add k v) [(2 # replicate 15 0, replicate 5000 0), (1 # replicate 15 0, replicate 5000 1)] (external_sort_new 0)) = Inr m \<and>
     merge_collect m = Inr [(1 # replicate 15 0, replicate 5000 1), (2 # replicate 15 0, replicate 5000 0)]"
proof -
  let ?kvs = "[(2 # replicate 15 0, replicate 5000 0), (1 # replicate 15 0, replicate 5000 1)] :: pair list"
  have "\<exists>m. es_finish (fold (\<lambda>(k, v). es_add k v) ?kvs (external_sort_new 0)) = Inr m \<and> merge_collect m = Inr (sort_key fst ?kvs)"
    by (rule external_sort_correct) auto
  then show ?thesis by simp
qed

end
