(* ===== verification/Streaming.thy ===== *)
theory Streaming
  imports Indexer Spill
begin

text \<open>
  The rebuild in bounded memory (\<open>mlake-index/src/streaming.rs\<close>): every source of truth for an id is spilled as an event
  under that id, one external sort groups the events, each group is resolved to the surviving item, and a fact type's
  files are written from external sorts over the survivors.  Work that is local to the process is computed on lists; the
  object store sees the same requests in the same order.  Timing output is left out.
\<close>

section \<open>Definitions\<close>

definition TRAIN_SAMPLE :: nat where "TRAIN_SAMPLE = 50000"
definition ASSIGN_BATCH :: nat where "ASSIGN_BATCH = 8192"

subsection \<open>Budgets\<close>

record fold_budget =
  fb_resolve_mb :: nat
  fb_cluster_mb :: nat
  fb_payload_mb :: nat
  fb_index_mb :: nat
  fb_radj_mb :: nat
  fb_fts_mb :: nat

definition fold_budget_default :: fold_budget where
  "fold_budget_default = \<lparr>fb_resolve_mb = 128, fb_cluster_mb = 256, fb_payload_mb = 128, fb_index_mb = 96, fb_radj_mb = 64, fb_fts_mb = 128\<rparr>"

definition budget_mb :: "(string \<Rightarrow> string option) \<Rightarrow> string \<Rightarrow> nat \<Rightarrow> nat" where
  "budget_mb var name dflt = (case Option.bind (var name) (\<lambda>v. parse_u64 (trim v)) of
     Some v \<Rightarrow> if 0 < v then v else dflt | None \<Rightarrow> dflt)"

definition fold_budget_from_env :: "(string \<Rightarrow> string option) \<Rightarrow> fold_budget" where
  "fold_budget_from_env var = (let d = fold_budget_default in
     \<lparr>fb_resolve_mb = budget_mb var ''MEMLAKE_FOLD_RESOLVE_MB'' (fb_resolve_mb d),
      fb_cluster_mb = budget_mb var ''MEMLAKE_FOLD_CLUSTER_MB'' (fb_cluster_mb d),
      fb_payload_mb = budget_mb var ''MEMLAKE_FOLD_PAYLOAD_MB'' (fb_payload_mb d),
      fb_index_mb = budget_mb var ''MEMLAKE_FOLD_INDEX_MB'' (fb_index_mb d),
      fb_radj_mb = budget_mb var ''MEMLAKE_FOLD_RADJ_MB'' (fb_radj_mb d),
      fb_fts_mb = budget_mb var ''MEMLAKE_FOLD_FTS_MB'' (fb_fts_mb d)\<rparr>)"

definition budget_bytes :: "nat \<Rightarrow> nat" where "budget_bytes mb = mb * 1024 * 1024"

subsection \<open>Reservoir generator\<close>

definition stream_rng_new :: "u64 \<Rightarrow> u64" where
  "stream_rng_new seed = seed XOR 0x9E3779B97F4A7C15"

definition stream_rng_next :: "u64 \<Rightarrow> u64 \<times> u64" where
  "stream_rng_next x = (let x = x XOR push_bit 13 x; x = x XOR drop_bit 7 x; x = x XOR push_bit 17 x in (x, x))"

definition stream_rng_below :: "nat \<Rightarrow> u64 \<Rightarrow> nat \<times> u64" where
  "stream_rng_below n s = (let (v, s) = stream_rng_next s in (unat v mod n, s))"

subsection \<open>Events\<close>

definition EV_PREVGEN :: u8 where "EV_PREVGEN = 0"
definition EV_UPSERT :: u8 where "EV_UPSERT = 1"
definition EV_TOMBSTONE :: u8 where "EV_TOMBSTONE = 2"
definition EV_PATCH :: u8 where "EV_PATCH = 3"

datatype event_kind = EvItem stored_memory | EvTombstone | EvPatch "delta list"

record event =
  ev_seq :: nat
  ev_kind :: event_kind

text \<open>The \<open>rkyv\<close> codec of a list of deltas.\<close>
record delta_codec =
  dc_write :: "delta list \<Rightarrow> bytes"
  dc_read :: "bytes \<Rightarrow> delta list option"

definition encode_item_event :: "'d build_env \<Rightarrow> u8 \<Rightarrow> nat \<Rightarrow> stored_memory \<Rightarrow> bytes" where
  "encode_item_event env tag seq item = tag # to_le 8 seq @ be_write_payload env item"

definition encode_marker_event :: "u8 \<Rightarrow> nat \<Rightarrow> bytes" where
  "encode_marker_event tag seq = tag # to_le 8 seq"

definition encode_patch_event :: "delta_codec \<Rightarrow> nat \<Rightarrow> delta list \<Rightarrow> bytes" where
  "encode_patch_event dc seq deltas = EV_PATCH # to_le 8 seq @ dc_write dc deltas"

definition decode_event :: "'d build_env \<Rightarrow> delta_codec \<Rightarrow> bytes \<Rightarrow> core_error + event" where
  "decode_event env dc val =
     (if length val < 9 then Inl Decode
      else let tag = val ! 0; seq = from_le (slice 1 9 val); body = drop 9 val;
               item = (\<lambda>k. \<lparr>ev_seq = seq, ev_kind = k\<rparr>)
        in if tag = EV_PREVGEN \<or> tag = EV_UPSERT then
             (case be_read_payload env body of Some m \<Rightarrow> Inr (item (EvItem m)) | None \<Rightarrow> Inl Decode)
           else if tag = EV_TOMBSTONE then Inr (item EvTombstone)
           else if tag = EV_PATCH then (case dc_read dc body of Some ds \<Rightarrow> Inr (item (EvPatch ds)) | None \<Rightarrow> Inl Decode)
           else Inl Decode)"

subsection \<open>Resolution\<close>

fun resolve_event :: "event_kind \<Rightarrow> stored_memory option \<Rightarrow> stored_memory option" where
  "resolve_event (EvItem m) base = Some m"
| "resolve_event EvTombstone base = None"
| "resolve_event (EvPatch ds) base = map_option (\<lambda>m. apply_deltas m ds) base"

text \<open>The survivor of one id's events.\<close>
definition resolve_events :: "event list \<Rightarrow> stored_memory option" where
  "resolve_events evs = fold (\<lambda>e. resolve_event (ev_kind e)) (sort_key ev_seq evs) None"

record resolver =
  rs_spills :: "(u8, item_spill) btree"
  rs_samples :: "(u8, f32 list list) btree"
  rs_seen :: "(u8, nat) btree"
  rs_rng :: u64

definition resolver_new :: "u64 \<Rightarrow> resolver" where
  "resolver_new seed = \<lparr>rs_spills = [], rs_samples = [], rs_seen = [], rs_rng = stream_rng_new seed\<rparr>"

text \<open>The reservoir: the first \<open>TRAIN_SAMPLE\<close> vectors, then a random replacement.\<close>
definition sample_vector :: "f32 list \<Rightarrow> u8 \<Rightarrow> resolver \<Rightarrow> resolver" where
  "sample_vector v ft rs =
     (let cnt = (case map_of (rs_seen rs) ft of Some n \<Rightarrow> n | None \<Rightarrow> 0);
          s = (case map_of (rs_samples rs) ft of Some s \<Rightarrow> s | None \<Rightarrow> []);
          (s, rng) = (if length s < TRAIN_SAMPLE then (s @ [v], rs_rng rs)
             else let (j, rng) = stream_rng_below (cnt + 1) (rs_rng rs) in (if j < TRAIN_SAMPLE then s[j := v] else s, rng))
      in rs\<lparr>rs_samples := bt_insert ft s (rs_samples rs), rs_seen := bt_insert ft (cnt + 1) (rs_seen rs), rs_rng := rng\<rparr>)"

definition resolver_emit :: "(stored_memory \<Rightarrow> bytes) \<Rightarrow> stored_memory \<Rightarrow> resolver \<Rightarrow> resolver" where
  "resolver_emit w m rs =
     (let ft = sm_memory_type m;
          rs = (if sm_vector m \<noteq> [] then sample_vector (sm_vector m) ft rs else rs);
          spill = (case map_of (rs_spills rs) ft of Some s \<Rightarrow> s | None \<Rightarrow> item_spill_new)
      in rs\<lparr>rs_spills := bt_insert ft (item_spill_push w m spill) (rs_spills rs)\<rparr>)"

definition resolve_and_emit :: "'d build_env \<Rightarrow> (nat \<times> predicate) list \<Rightarrow> event list \<Rightarrow> resolver \<Rightarrow> resolver" where
  "resolve_and_emit env preds evs rs = (case resolve_events evs of
     None \<Rightarrow> rs
   | Some m \<Rightarrow> if matched preds m then rs else resolver_emit (be_write_payload env) m rs)"

text \<open>The loop over the merged events: \<open>cur\<close> is the id under way with the events read so far.\<close>
fun resolve_stream :: "'d build_env \<Rightarrow> delta_codec \<Rightarrow> (nat \<times> predicate) list \<Rightarrow> (bytes \<times> event list) option \<Rightarrow> pair list \<Rightarrow> resolver \<Rightarrow> core_error + resolver" where
  "resolve_stream env dc preds cur [] rs = Inr (case cur of None \<Rightarrow> rs | Some (_, evs) \<Rightarrow> resolve_and_emit env preds evs rs)"
| "resolve_stream env dc preds cur ((key, val) # recs) rs =
     (let (evs, rs) = (case cur of None \<Rightarrow> ([], rs)
            | Some (k, evs) \<Rightarrow> if k = key then (evs, rs) else ([], resolve_and_emit env preds evs rs))
      in res_bind (decode_event env dc val) (\<lambda>e. resolve_stream env dc preds (Some (key, evs @ [e])) recs rs))"

text \<open>The events of one operation, with its key, and the predicates it adds.\<close>
fun op_events :: "'d build_env \<Rightarrow> delta_codec \<Rightarrow> nat \<Rightarrow> op \<Rightarrow> pair list" where
  "op_events env dc seq (Upsert m) = (let item = (into_stored m)\<lparr>sm_write_seq := seq\<rparr> in
     [(mid_bytes (sm_id item), encode_item_event env EV_UPSERT seq item)])"
| "op_events env dc seq (Tombstone i) = [(mid_bytes i, encode_marker_event EV_TOMBSTONE seq)]"
| "op_events env dc seq (Patch i ds) = [(mid_bytes i, encode_patch_event dc seq ds)]"
| "op_events env dc seq (TombstoneWhere p) = []"
| "op_events env dc seq (Guard g) = []"

fun op_predicates :: "nat \<Rightarrow> op \<Rightarrow> (nat \<times> predicate) list" where
  "op_predicates seq (TombstoneWhere p) = [(seq, p)]"
| "op_predicates seq _ = []"

definition tail_events :: "'d build_env \<Rightarrow> delta_codec \<Rightarrow> (nat \<times> wal_entry) list \<Rightarrow> pair list" where
  "tail_events env dc wl = concat (map (\<lambda>(seq, e). concat (map (op_events env dc seq) (we_ops e))) wl)"

definition tail_predicates :: "(nat \<times> wal_entry) list \<Rightarrow> (nat \<times> predicate) list" where
  "tail_predicates wl = concat (map (\<lambda>(seq, e). concat (map (op_predicates seq) (we_ops e))) wl)"

definition prev_event :: "'d build_env \<Rightarrow> stored_memory \<Rightarrow> pair" where
  "prev_event env m = (mid_bytes (sm_id m), encode_item_event env EV_PREVGEN (sm_write_seq m) m)"

definition sort_pairs :: "nat \<Rightarrow> pair list \<Rightarrow> fold_error + pair list" where
  "sort_pairs cap kvs = (case es_finish (fold (\<lambda>(k, v). es_add k v) kvs (external_sort_new cap)) of
     Inl _ \<Rightarrow> Inl (Failed (ICore Decode))
   | Inr m \<Rightarrow> (case merge_collect m of Inl _ \<Rightarrow> Inl (Failed (ICore Decode)) | Inr xs \<Rightarrow> Inr xs))"

text \<open>Phase one on what was read: the previous items in file order, then the log.\<close>
definition resolve_all :: "'d build_env \<Rightarrow> delta_codec \<Rightarrow> fold_budget \<Rightarrow> u64 \<Rightarrow> stored_memory list \<Rightarrow> (nat \<times> wal_entry) list \<Rightarrow> fold_error + resolver" where
  "resolve_all env dc budget seed prev wl =
     res_bind (sort_pairs (budget_bytes (fb_resolve_mb budget)) (map (prev_event env) prev @ tail_events env dc wl)) (\<lambda>recs.
     case resolve_stream env dc (tail_predicates wl) None recs (resolver_new seed) of
       Inl e \<Rightarrow> Inl (Failed (ICore e)) | Inr rs \<Rightarrow> Inr rs)"

subsection \<open>Building one fact type\<close>

text \<open>The assignment pass reads the spill in batches; an empty batch ends it.\<close>
fun fill_batch :: "(bytes \<Rightarrow> stored_memory option) \<Rightarrow> nat \<Rightarrow> item_spill_reader \<Rightarrow> stored_memory list \<times> item_spill_reader" where
  "fill_batch r 0 rd = ([], rd)"
| "fill_batch r (Suc n) rd = (case item_spill_next r rd of
     (None, rd) \<Rightarrow> ([], rd)
   | (Some m, rd) \<Rightarrow> (let (ms, rd) = fill_batch r n rd in (m # ms, rd)))"

lemma fill_batch_remaining: "fill_batch r n rd = (ms, rd') \<Longrightarrow> ir_remaining rd' + length ms \<le> ir_remaining rd"
proof (induction n arbitrary: rd ms rd')
  case (Suc n)
  obtain x rd1 where nx: "item_spill_next r rd = (x, rd1)" by fastforce
  have le: "ir_remaining rd1 \<le> ir_remaining rd" "x \<noteq> None \<Longrightarrow> ir_remaining rd1 < ir_remaining rd"
    using nx by (auto simp: item_spill_next_def split: if_splits option.splits)
  show ?case
  proof (cases x)
    case None
    then show ?thesis using Suc.prems nx le by auto
  next
    case (Some m)
    obtain ms1 rd2 where fb: "fill_batch r n rd1 = (ms1, rd2)" by fastforce
    then show ?thesis using Suc.IH[OF fb] Suc.prems nx Some le by auto
  qed
qed simp

function read_batches :: "(bytes \<Rightarrow> stored_memory option) \<Rightarrow> item_spill_reader \<Rightarrow> stored_memory list" where
  "read_batches r rd = (case fill_batch r ASSIGN_BATCH rd of
     ([], _) \<Rightarrow> []
   | (ms, rd') \<Rightarrow> ms @ read_batches r rd')"
  by pat_completeness auto
termination
  by (relation "measure (\<lambda>(_, rd). ir_remaining rd)") (auto dest!: fill_batch_remaining[OF sym])

declare read_batches.simps [simp del]

definition assign_item :: "'d build_env \<Rightarrow> f32 centroids \<Rightarrow> stored_memory \<Rightarrow> nat" where
  "assign_item env centroids m = (if cn_vectors centroids = [] then 0 else centroids_assign (be_arith env) centroids (sm_vector m))"

text \<open>Order-preserving key of a cluster: eight zero bytes, then the number big-endian.\<close>
definition cluster_sort_key :: "nat \<Rightarrow> bytes" where
  "cluster_sort_key c = replicate 8 0 @ to_be 8 c"

definition cluster_from_sort_key :: "bytes \<Rightarrow> nat" where
  "cluster_from_sort_key k = from_be (slice 8 16 k)"

text \<open>The pairs fed to each sort, item by item.\<close>
definition cluster_pairs :: "'d build_env \<Rightarrow> f32 centroids \<Rightarrow> stored_memory list \<Rightarrow> pair list" where
  "cluster_pairs env centroids items = map (\<lambda>m. (cluster_sort_key (assign_item env centroids m), be_write_payload env m)) items"

definition stream_pk_pairs :: "'d build_env \<Rightarrow> f32 centroids \<Rightarrow> stored_memory list \<Rightarrow> pair list" where
  "stream_pk_pairs env centroids items = map (\<lambda>m. (mid_bytes (sm_id m), le_word 4 (of_nat (assign_item env centroids m) :: u32))) items"

definition stream_payload_pairs :: "'d build_env \<Rightarrow> stored_memory list \<Rightarrow> pair list" where
  "stream_payload_pairs env items = map (\<lambda>m. (mid_bytes (sm_id m), be_write_payload env (strip_vector m))) items"

definition stream_rerank_pairs :: "stored_memory list \<Rightarrow> pair list" where
  "stream_rerank_pairs items = map (\<lambda>m. (mid_bytes (sm_id m), concat (map (le_word 4) (sm_vector m)))) (filter (\<lambda>m. sm_vector m \<noteq> []) items)"

definition stream_entity_pairs :: "stored_memory list \<Rightarrow> pair list" where
  "stream_entity_pairs items = map (\<lambda>(e, i). (eid_bytes e, mid_bytes i)) (entity_pairs items)"

definition stream_time_pairs :: "(millis \<times> memory_id) list \<Rightarrow> pair list" where
  "stream_time_pairs tms = map (\<lambda>(ts, i). (ts_key ts, mid_bytes i)) tms"

definition causal_pairs :: "'d build_env \<Rightarrow> stored_memory list \<Rightarrow> pair list" where
  "causal_pairs env items = concat (map (\<lambda>m. map (\<lambda>e. (mid_bytes (ce_target e), encode_in_edge
     \<lparr>ie_source = sm_id m, ie_kind = CausalEdge (ce_link_type e), ie_weight = half_to (be_edges env) (ce_weight e)\<rparr>)) (sm_causal_out m)) items)"

definition feed_radj :: "'d build_env \<Rightarrow> stored_memory list \<Rightarrow> pair list" where
  "feed_radj env items = concat (map (\<lambda>m. map (\<lambda>e. (mid_bytes (se_target e), encode_in_edge
     \<lparr>ie_source = sm_id m, ie_kind = SemanticEdge, ie_weight = half_to (be_edges env) (se_weight e)\<rparr>)) (sm_semantic_out m)) items)"

text \<open>The payload file is written before the vector block is encoded.\<close>
definition flush_cluster :: "'d build_env \<Rightarrow> string \<Rightarrow> vector_codec \<Rightarrow> nat \<Rightarrow> nat \<Rightarrow> stored_memory list \<Rightarrow> (fold_error + string \<times> string) io" where
  "flush_cluster env p codec vector_dim c items =
     io_try (write_cluster_file env p c (cluster_payload c items)) (\<lambda>cluster.
     io_try (fcore (cluster_block env codec vector_dim items)) (\<lambda>block.
     io_try (write_vector_block p c (vb_to_bytes block)) (\<lambda>vec. Ret (Inr (cluster, vec)))))"

text \<open>Cluster files from the grouped stream: the paths by cluster and the semantic edges met so far.\<close>
type_synonym cluster_progress = "string list \<times> string list \<times> pair list"

definition flush_group :: "'d build_env \<Rightarrow> string \<Rightarrow> vector_codec \<Rightarrow> nat \<Rightarrow> nat \<Rightarrow> stored_memory list \<Rightarrow> cluster_progress \<Rightarrow>
    (fold_error + cluster_progress) io" where
  "flush_group env p codec vector_dim c items st = (case st of (cps, vps, radj) \<Rightarrow>
     io_try (flush_cluster env p codec vector_dim c items) (\<lambda>(cp, vp). Ret (Inr (cps[c := cp], vps[c := vp], radj @ feed_radj env items))))"

fun write_groups :: "'d build_env \<Rightarrow> string \<Rightarrow> vector_codec \<Rightarrow> nat \<Rightarrow> (nat \<times> stored_memory list) option \<Rightarrow> pair list \<Rightarrow> cluster_progress \<Rightarrow>
    (fold_error + cluster_progress) io" where
  "write_groups env p codec vector_dim cur [] st = (case cur of None \<Rightarrow> Ret (Inr st)
     | Some (cc, items) \<Rightarrow> flush_group env p codec vector_dim cc items st)"
| "write_groups env p codec vector_dim cur ((key, val) # recs) st = (case be_read_payload env val of
     None \<Rightarrow> Ret (Inl (Failed (ICore Decode)))
   | Some m \<Rightarrow> (let c = cluster_from_sort_key key in case cur of
       None \<Rightarrow> write_groups env p codec vector_dim (Some (c, [m])) recs st
     | Some (cc, items) \<Rightarrow>
         if cc = c then write_groups env p codec vector_dim (Some (cc, items @ [m])) recs st
         else io_try (flush_group env p codec vector_dim cc items st) (write_groups env p codec vector_dim (Some (c, [m])) recs)))"

text \<open>A cluster without members still gets its pair of files.\<close>
definition fill_empty :: "'d build_env \<Rightarrow> string \<Rightarrow> vector_codec \<Rightarrow> nat \<Rightarrow> nat \<Rightarrow> cluster_progress \<Rightarrow> (fold_error + cluster_progress) io" where
  "fill_empty env p codec vector_dim c st = (case st of (cps, vps, radj) \<Rightarrow>
     if cps ! c = [] then flush_group env p codec vector_dim c [] st else Ret (Inr st))"

text \<open>Consecutive values of one key are concatenated into one record.\<close>
fun add_groups :: "pair option \<Rightarrow> pair list \<Rightarrow> sstable_builder \<Rightarrow> sstable_builder" where
  "add_groups cur [] b = (case cur of None \<Rightarrow> b | Some (k, v) \<Rightarrow> sstable_add k v b)"
| "add_groups cur ((key, val) # recs) b = (case cur of
     None \<Rightarrow> add_groups (Some (key, val)) recs b
   | Some (k, v) \<Rightarrow> if k = key then add_groups (Some (k, v @ val)) recs b else add_groups (Some (key, val)) recs (sstable_add k v b))"

definition build_sstable_from_merge :: "pair list \<Rightarrow> bytes \<times> bytes" where
  "build_sstable_from_merge recs = sstable_finish (add_groups None recs sstable_new)"

definition stream_table :: "nat \<Rightarrow> pair list \<Rightarrow> fold_error + bytes \<times> bytes" where
  "stream_table cap kvs = res_bind (sort_pairs cap kvs) (\<lambda>recs. Inr (build_sstable_from_merge recs))"

definition per_index_bytes :: "fold_budget \<Rightarrow> nat" where
  "per_index_bytes b = max (budget_bytes (fb_index_mb b) div 3) 4096"

definition stream_tables :: "'d build_env \<Rightarrow> fold_budget \<Rightarrow> f32 centroids \<Rightarrow> stored_memory list \<Rightarrow> pair list \<Rightarrow> fold_error + table_pairs" where
  "stream_tables env b centroids items semantic =
     res_bind (stream_table (per_index_bytes b) (stream_pk_pairs env centroids items)) (\<lambda>pk.
     res_bind (stream_table (budget_bytes (fb_payload_mb b)) (stream_payload_pairs env items)) (\<lambda>payload.
     res_bind (stream_table (budget_bytes (fb_payload_mb b)) (stream_rerank_pairs items)) (\<lambda>rerank.
     res_bind (stream_table (per_index_bytes b) (stream_entity_pairs items)) (\<lambda>entity.
     res_bind (stream_table (per_index_bytes b) (stream_time_pairs (time_pairs items))) (\<lambda>time.
     res_bind (stream_table (per_index_bytes b) (stream_time_pairs (created_pairs items))) (\<lambda>created.
     res_bind (stream_table (budget_bytes (fb_radj_mb b)) (causal_pairs env items @ semantic)) (\<lambda>radj.
     Inr \<lparr>tp_radj = radj, tp_pk = pk, tp_entity = entity, tp_time = time, tp_created = created, tp_payload = payload, tp_rerank = rerank\<rparr>)))))))"

text \<open>The tag and time summary accumulated for one cluster during the pass.\<close>
definition stream_summary :: "stored_memory list \<Rightarrow> cluster_tag_summary" where
  "stream_summary ms = \<lparr>ct_tags = sort_dedup (concat (map sm_tags ms)), ct_has_untagged = list_ex (\<lambda>m. sm_tags m = []) ms,
     ct_updated_range = Some (fold (\<lambda>m r. case updated_at (sm_timestamps m) of None \<Rightarrow> r | Some u \<Rightarrow> (min (fst r) u, max (snd r) u)) ms (I64_MAX, I64_MIN))\<rparr>"

definition members_of :: "'d build_env \<Rightarrow> f32 centroids \<Rightarrow> stored_memory list \<Rightarrow> nat \<Rightarrow> stored_memory list" where
  "members_of env centroids items c = filter (\<lambda>m. assign_item env centroids m = c) items"

definition build_type_streaming :: "'d build_env \<Rightarrow> index_options \<Rightarrow> fold_budget \<Rightarrow> string \<Rightarrow> string \<Rightarrow> u8 \<Rightarrow> item_spill \<Rightarrow> f32 list list \<Rightarrow>
    (fold_error + fact_type_index) io" where
  "build_type_streaming env opts b ns seg_id t spill sample =
     (let A = be_arith env; p = type_prefix ns seg_id t; n = is_count spill; codec = io_vector_codec opts;
          vector_dim = (case sample of [] \<Rightarrow> 0 | v # _ \<Rightarrow> length v)
      in io_try (fpanic (train_centroids_k A sample (centroid_count A n) (io_seed opts))) (\<lambda>centroids.
         let kk = max (length (cn_vectors centroids)) 1;
             items = read_batches (be_read_payload env) (into_reader spill);
             centroids' = centroids\<lparr>cn_sizes := map (\<lambda>c. length (members_of env centroids items c)) [0..<kk]\<rparr>
         in io_try (Ret (sort_pairs (budget_bytes (fb_cluster_mb b)) (cluster_pairs env centroids items))) (\<lambda>recs.
         io_try (write_groups env p codec vector_dim None recs (replicate kk [], replicate kk [], [])) (\<lambda>st.
         io_try (io_try_fold (fill_empty env p codec vector_dim) [0..<kk] st) (\<lambda>(cluster_paths, vector_paths, semantic).
         io_try (Ret (stream_tables env b centroids items semantic)) (\<lambda>tables.
         io_try (Ret (case be_fts env (map (\<lambda>m. (sm_id m, fts_text m, sm_tags m)) items) of
             Some split \<Rightarrow> Inr split | None \<Rightarrow> Inl (Failed (ICore Encode)))) (\<lambda>fts_split.
         io_try (write_generation env p centroids' cluster_paths vector_paths fts_split tables
             (map (\<lambda>c. stream_summary (members_of env centroids items c)) [0..<kk]) n
             (sum_list (map (\<lambda>m. length (sm_semantic_out m)) items)) (sum_list (map (\<lambda>m. length (sm_causal_out m)) items))
             (build_meta_counts items (io_indexed_metadata_keys opts))) (\<lambda>files.
         Ret (Inr \<lparr>fi_files = files, fi_train_count = n\<rparr>)))))))))"

subsection \<open>The rebuild\<close>

text \<open>All sequences in \<open>(after, head]\<close>, listed page by page.\<close>
fun wal_seqs_after :: "nat \<Rightarrow> string \<Rightarrow> nat \<Rightarrow> nat \<Rightarrow> nat list \<Rightarrow> (wal_error + nat list) io" where
  "wal_seqs_after 0 ns head start acc = Ret (Inr acc)"
| "wal_seqs_after (Suc fuel) ns head start acc = io_try (list_wal ns start 100000) (\<lambda>(objs, nxt).
     let acc = acc @ map wo_seq (filter (\<lambda>ob. wo_seq ob \<le> head) objs) in
     case nxt of Some s \<Rightarrow> if s \<le> head then wal_seqs_after fuel ns head s acc else Ret (Inr acc) | None \<Rightarrow> Ret (Inr acc))"

text \<open>Only the first segment of the manifest is read, and its cluster files without their vector blocks.\<close>
definition prev_paths :: "manifest \<Rightarrow> string list" where
  "prev_paths manifest = (case mf_segments manifest of [] \<Rightarrow> []
     | s # _ \<Rightarrow> filter (\<lambda>p. p \<noteq> []) (concat (map (\<lambda>fti. gf_clusters (fi_files fti)) (List.map_filter (sg_index s) (mf_memory_types manifest)))))"

definition read_prev :: "'d build_env \<Rightarrow> string \<Rightarrow> (fold_error + stored_memory list) io" where
  "read_prev env p = io_try (fstore (store_get_immutable p)) (\<lambda>bs.
     io_try (fcore (cluster_from_bytes (be_cluster env) bs)) (\<lambda>cf. Ret (Inr (cf_items cf))))"

definition index_streaming_with_budget :: "'d build_env \<Rightarrow> delta_codec \<Rightarrow> index_options \<Rightarrow> fold_budget \<Rightarrow> string \<Rightarrow> string \<Rightarrow>
    (fold_error + index_outcome) io" where
  "index_streaming_with_budget env dc opts b ns seg_id =
     io_try (fwal (read_manifest (be_manifest env) ns)) (\<lambda>(manifest, etag).
     io_try (fwal (wal_head ns)) (\<lambda>head.
     io_try (fwal (wal_seqs_after (Suc head) ns head (mf_wal_index_cursor manifest + 1) [])) (\<lambda>seqs.
     io_try (io_try_map (read_prev env) (prev_paths manifest)) (\<lambda>prev.
     io_try (io_try_map (\<lambda>s. io_try (fwal (read_wal_entry (be_entry env) ns s)) (\<lambda>e. Ret (Inr (s, e)))) seqs) (\<lambda>wl.
     io_try (Ret (resolve_all env dc b (io_seed opts) (concat prev) wl)) (\<lambda>rs.
     io_try (io_try_map (\<lambda>(t, spill). io_try (build_type_streaming env opts b ns seg_id t spill
         (case map_of (rs_samples rs) t of Some s \<Rightarrow> s | None \<Rightarrow> [])) (\<lambda>fti. Ret (Inr (t, fti)))) (rs_spills rs)) (\<lambda>indexes.
     let docs = sum_list (map (\<lambda>(_, s). is_count s) (rs_spills rs));
         segment = \<lparr>sg_id = seg_id, sg_level = 0, sg_seq_lo = 0, sg_seq_hi = head, sg_doc_count = docs, sg_indexes = indexes, sg_tombstones = []\<rparr>
     in publish env ns etag ((advance manifest head (mf_segments manifest) [segment])\<lparr>mf_tokenizer_config_hash := be_tokenizer_hash env\<rparr>) docs)))))))"

definition index_streaming :: "'d build_env \<Rightarrow> delta_codec \<Rightarrow> index_options \<Rightarrow> (string \<Rightarrow> string option) \<Rightarrow> string \<Rightarrow> string \<Rightarrow> (fold_error + index_outcome) io" where
  "index_streaming env dc opts var ns seg_id = index_streaming_with_budget env dc opts (fold_budget_from_env var) ns seg_id"

text \<open>The choice of a fold with this rebuild in its place.\<close>
definition fold_entry_point :: "'d build_env \<Rightarrow> delta_codec \<Rightarrow> index_options \<Rightarrow> fold_budget \<Rightarrow> string \<Rightarrow> string \<Rightarrow> nat \<Rightarrow> (fold_error + index_outcome) io" where
  "fold_entry_point env dc opts b ns seg_id threshold =
     fold_ns env (index_streaming_with_budget env dc opts b ns seg_id) opts ns seg_id threshold"

end
