(* ===== verification/Stream_Fold.thy ===== *)
theory Stream_Fold
  imports Streaming Fold_Safety
begin

text \<open>
  Correctness of the rebuild in bounded memory: the external sort groups the events of an id, resolving a group is replaying
  the log at that id, the spills read back the survivors, and the tables written from external sorts are those of the
  rebuild in memory.  The last part runs the fold on a namespace with several segments.
\<close>

section \<open>Sorting and grouping\<close>

lemma sort_pairs_sorted: "\<forall>kv \<in> set kvs. pair_ok kv \<Longrightarrow> sort_pairs cap kvs = Inr (sort_key fst kvs)"
proof -
  assume ok: "\<forall>kv \<in> set kvs. pair_ok kv"
  have "es_holds [] (external_sort_new cap)" by (simp add: es_holds_def external_sort_new_def)
  from es_holds_fold[OF this, of kvs] es_finish_sorts[OF _ ok]
  obtain m where "es_finish (fold (\<lambda>(k, v). es_add k v) kvs (external_sort_new cap)) = Inr m" "merge_collect m = Inr (sort_key fst kvs)"
    by fastforce
  then show ?thesis by (simp add: sort_pairs_def)
qed

lemma resolve_stream_from:
  assumes "\<And>k v. (k, v) \<in> set recs \<Longrightarrow> decode_event env dc v = Inr (dec v)" "sorted (k # map fst recs)"
  shows "resolve_stream env dc preds (Some (k, evs)) recs rs = Inr (fold (\<lambda>k'. resolve_and_emit env preds
     ((if k' = k then evs else []) @ map (dec \<circ> snd) (filter (\<lambda>r. fst r = k') recs))) (remdups_adj (k # map fst recs)) rs)"
  using assms
proof (induction recs arbitrary: k evs rs)
  case (Cons r recs)
  obtain k1 v where r: "r = (k1, v)" by (cases r)
  have d: "decode_event env dc v = Inr (dec v)" using Cons.prems(1)[of k1 v] r by simp
  have decs: "\<And>k v. (k, v) \<in> set recs \<Longrightarrow> decode_event env dc v = Inr (dec v)" using Cons.prems(1) by (meson list.set_intros(2))
  have srt: "sorted (k1 # map fst recs)" using Cons.prems(2) r by simp
  show ?case
  proof (cases "k = k1")
    case True
    then show ?thesis
      using Cons.IH[OF decs srt, where evs = "evs @ [dec v]" and rs = rs] d r
      by (auto intro!: fold_cong)
  next
    case False
    then have lt: "k < k1" using Cons.prems(2) r by (simp add: order.strict_iff_order)
    then have none: "filter (\<lambda>r. fst r = k) (r # recs) = []"
      using srt r by (auto simp: filter_empty_conv)
    let ?rs = "resolve_and_emit env preds evs rs"
    have "resolve_stream env dc preds (Some (k, evs)) (r # recs) rs = resolve_stream env dc preds (Some (k1, [dec v])) recs ?rs"
      using d r False by simp
    also have "\<dots> = Inr (fold (\<lambda>k'. resolve_and_emit env preds
        ((if k' = k then evs else []) @ map (dec \<circ> snd) (filter (\<lambda>r. fst r = k') (r # recs)))) (remdups_adj (k1 # map fst recs)) ?rs)"
    proof -
      have "k' \<noteq> k" if "k' \<in> set (remdups_adj (k1 # map fst recs))" for k'
        using that lt srt by auto
      moreover have "resolve_stream env dc preds (Some (k1, [dec v])) recs ?rs = Inr (fold (\<lambda>k'. resolve_and_emit env preds
          ((if k' = k1 then [dec v] else []) @ map (dec \<circ> snd) (filter (\<lambda>r. fst r = k') recs))) (remdups_adj (k1 # map fst recs)) ?rs)"
        by (rule Cons.IH) (use decs srt in auto)
      ultimately show ?thesis using r by (auto intro!: fold_cong)
    qed
    finally show ?thesis using none False r by (simp add: comp_def)
  qed
qed simp

lemma resolve_stream_groups:
  assumes "\<And>k v. (k, v) \<in> set recs \<Longrightarrow> decode_event env dc v = Inr (dec v)" "sorted (map fst recs)"
  shows "resolve_stream env dc preds None recs rs = Inr (fold (\<lambda>k. resolve_and_emit env preds
     (map (dec \<circ> snd) (filter (\<lambda>r. fst r = k) recs))) (remdups_adj (map fst recs)) rs)"
proof (cases recs)
  case (Cons r rest)
  obtain k v where r: "r = (k, v)" by (cases r)
  have d: "decode_event env dc v = Inr (dec v)" using assms(1)[of k v] Cons r by simp
  have "resolve_stream env dc preds None recs rs = resolve_stream env dc preds (Some (k, [dec v])) rest rs"
    using Cons r d by simp
  also have "\<dots> = Inr (fold (\<lambda>k'. resolve_and_emit env preds
     ((if k' = k then [dec v] else []) @ map (dec \<circ> snd) (filter (\<lambda>r. fst r = k') rest))) (remdups_adj (k # map fst rest)) rs)"
    using assms Cons r by (intro resolve_stream_from) auto
  finally show ?thesis using Cons r by (auto intro!: fold_cong)
qed simp

text \<open>The item a group leaves, and the emission of a list of survivors.\<close>
definition survivor :: "(nat \<times> predicate) list \<Rightarrow> event list \<Rightarrow> stored_memory option" where
  "survivor preds evs = (case resolve_events evs of None \<Rightarrow> None | Some m \<Rightarrow> if matched preds m then None else Some m)"

lemma fold_resolve_and_emit:
  "fold (\<lambda>k. resolve_and_emit env preds (f k)) ks rs = fold (resolver_emit (be_write_payload env)) (List.map_filter (\<lambda>k. survivor preds (f k)) ks) rs"
  by (induction ks arbitrary: rs)
     (simp_all add: resolve_and_emit_def survivor_def List.map_filter_simps split: option.split)

section \<open>Spills by type\<close>

definition spill_of :: "(stored_memory \<Rightarrow> bytes) \<Rightarrow> stored_memory list \<Rightarrow> item_spill" where
  "spill_of w ms = fold (item_spill_push w) ms item_spill_new"

lemma map_of_spills_emit:
  "map_of (rs_spills (resolver_emit w m rs)) t = (if t = sm_memory_type m
     then Some (item_spill_push w m (case map_of (rs_spills rs) t of Some s \<Rightarrow> s | None \<Rightarrow> item_spill_new)) else map_of (rs_spills rs) t)"
proof -
  have "rs_spills (sample_vector v ft rs) = rs_spills rs" for v ft
    by (simp add: sample_vector_def Let_def split_beta)
  then show ?thesis by (simp add: resolver_emit_def Let_def)
qed

lemma map_of_spills_fold:
  "map_of (rs_spills (fold (resolver_emit w) ms rs)) t =
     (let mine = filter (\<lambda>m. sm_memory_type m = t) ms in
      if mine = [] then map_of (rs_spills rs) t
      else Some (fold (item_spill_push w) mine (case map_of (rs_spills rs) t of Some s \<Rightarrow> s | None \<Rightarrow> item_spill_new)))"
proof (induction ms arbitrary: rs)
  case (Cons m ms)
  show ?case by (simp only: fold_Cons comp_def Cons.IH) (auto simp: map_of_spills_emit Let_def split: option.split)
qed simp

lemma fill_batch_pushed:
  assumes "\<And>m. m \<in> set ms \<Longrightarrow> r (w m) = Some m \<and> length (w m) < 2 ^ 32"
  shows "fill_batch r n \<lparr>ir_rest = concat (map (framed \<circ> w) ms), ir_remaining = length ms\<rparr> =
    (take n ms, \<lparr>ir_rest = concat (map (framed \<circ> w) (drop n ms)), ir_remaining = length (drop n ms)\<rparr>)"
  using assms
proof (induction n arbitrary: ms)
  case (Suc n)
  show ?case
  proof (cases ms)
    case Nil
    then show ?thesis by (simp add: item_spill_next_def)
  next
    case (Cons m rest)
    have "item_spill_next r \<lparr>ir_rest = concat (map (framed \<circ> w) (m # rest)), ir_remaining = length (m # rest)\<rparr> =
      (Some m, \<lparr>ir_rest = concat (map (framed \<circ> w) rest), ir_remaining = length rest\<rparr>)"
      using Suc.prems Cons by (intro item_spill_next_pushed) auto
    moreover have "fill_batch r n \<lparr>ir_rest = concat (map (framed \<circ> w) rest), ir_remaining = length rest\<rparr> =
      (take n rest, \<lparr>ir_rest = concat (map (framed \<circ> w) (drop n rest)), ir_remaining = length (drop n rest)\<rparr>)"
      using Suc.prems Cons by (intro Suc.IH) auto
    ultimately show ?thesis unfolding Cons by (simp only: fill_batch.simps option.case prod.case Let_def take_Suc_Cons drop_Suc_Cons)
  qed
qed simp

lemma read_batches_pushed:
  assumes "\<And>m. m \<in> set ms \<Longrightarrow> r (w m) = Some m \<and> length (w m) < 2 ^ 32"
  shows "read_batches r \<lparr>ir_rest = concat (map (framed \<circ> w) ms), ir_remaining = length ms\<rparr> = ms"
  using assms
proof (induction "length ms" arbitrary: ms rule: less_induct)
  case less
  show ?case
  proof (cases ms)
    case Nil
    then show ?thesis by (subst read_batches.simps) (simp add: fill_batch_pushed[of "[]", simplified])
  next
    case (Cons m rest)
    have "read_batches r \<lparr>ir_rest = concat (map (framed \<circ> w) (drop ASSIGN_BATCH ms)), ir_remaining = length (drop ASSIGN_BATCH ms)\<rparr> = drop ASSIGN_BATCH ms"
      using less.prems Cons by (intro less.hyps) (auto simp: ASSIGN_BATCH_def dest: in_set_dropD)
    moreover have "fill_batch r ASSIGN_BATCH \<lparr>ir_rest = concat (map (framed \<circ> w) ms), ir_remaining = length ms\<rparr> =
      (take ASSIGN_BATCH ms, \<lparr>ir_rest = concat (map (framed \<circ> w) (drop ASSIGN_BATCH ms)), ir_remaining = length (drop ASSIGN_BATCH ms)\<rparr>)"
      using less.prems by (intro fill_batch_pushed) blast
    moreover have "take ASSIGN_BATCH ms \<noteq> []" using Cons by (simp add: ASSIGN_BATCH_def)
    moreover from this obtain x xs where tk: "take ASSIGN_BATCH ms = x # xs" by (meson neq_Nil_conv)
    ultimately have "read_batches r \<lparr>ir_rest = concat (map (framed \<circ> w) ms), ir_remaining = length ms\<rparr> = (x # xs) @ drop ASSIGN_BATCH ms"
      by (subst read_batches.simps) simp
    then show ?thesis unfolding tk[symmetric] by simp
  qed
qed

lemma spilled_items:
  assumes "\<And>m. m \<in> set ms \<Longrightarrow> r (w m) = Some m \<and> length (w m) < 2 ^ 32"
  shows "read_batches r (into_reader (spill_of w ms)) = ms" "is_count (spill_of w ms) = length ms"
  using read_batches_pushed[OF assms] by (simp_all add: spill_of_def item_spill_fold into_reader_def item_spill_new_def)

section \<open>Resolution is the replay of the log\<close>

text \<open>The events of the sources, before encoding, with their ids.\<close>
fun op_event_list :: "nat \<Rightarrow> op \<Rightarrow> (memory_id \<times> event) list" where
  "op_event_list seq (Upsert m) = [(m_id m, \<lparr>ev_seq = seq, ev_kind = EvItem ((into_stored m)\<lparr>sm_write_seq := seq\<rparr>)\<rparr>)]"
| "op_event_list seq (Tombstone i) = [(i, \<lparr>ev_seq = seq, ev_kind = EvTombstone\<rparr>)]"
| "op_event_list seq (Patch i ds) = [(i, \<lparr>ev_seq = seq, ev_kind = EvPatch ds\<rparr>)]"
| "op_event_list seq _ = []"

definition entry_event_list :: "nat \<times> wal_entry \<Rightarrow> (memory_id \<times> event) list" where
  "entry_event_list se = concat (map (op_event_list (fst se)) (we_ops (snd se)))"

definition source_events :: "stored_memory list \<Rightarrow> (nat \<times> wal_entry) list \<Rightarrow> (memory_id \<times> event) list" where
  "source_events prev wl = map (\<lambda>m. (sm_id m, \<lparr>ev_seq = sm_write_seq m, ev_kind = EvItem m\<rparr>)) prev @ concat (map entry_event_list wl)"

text \<open>An entry without its predicate deletes, which the rebuild applies at the end.\<close>
definition plain_entry :: "wal_entry \<Rightarrow> wal_entry" where
  "plain_entry e = e\<lparr>we_ops := filter (\<lambda>op. \<not> is_predicate_delete op) (we_ops e)\<rparr>"

text \<open>The events of the sources read back.\<close>
definition events_readable :: "'d build_env \<Rightarrow> delta_codec \<Rightarrow> (memory_id \<times> event) list \<Rightarrow> bool" where
  "events_readable env dc evs \<longleftrightarrow> (\<forall>(i, e) \<in> set evs. length (mid_bytes i) = 16 \<and> ev_seq e < 2 ^ 64 \<and> (case ev_kind e of
     EvItem m \<Rightarrow> be_read_payload env (be_write_payload env m) = Some m \<and> length (be_write_payload env m) < 2 ^ 31
   | EvTombstone \<Rightarrow> True
   | EvPatch ds \<Rightarrow> dc_read dc (dc_write dc ds) = Some ds \<and> length (dc_write dc ds) < 2 ^ 31))"

lemma decode_events:
  assumes "q < 2 ^ 64"
  shows "be_read_payload env (be_write_payload env m) = Some m \<Longrightarrow> tag = EV_PREVGEN \<or> tag = EV_UPSERT \<Longrightarrow>
      decode_event env dc (encode_item_event env tag q m) = Inr \<lparr>ev_seq = q, ev_kind = EvItem m\<rparr>"
    and "decode_event env dc (encode_marker_event EV_TOMBSTONE q) = Inr \<lparr>ev_seq = q, ev_kind = EvTombstone\<rparr>"
    and "dc_read dc (dc_write dc ds) = Some ds \<Longrightarrow> decode_event env dc (encode_patch_event dc q ds) = Inr \<lparr>ev_seq = q, ev_kind = EvPatch ds\<rparr>"
  using assms from_le_to_le_id[of q 8]
  by (auto simp: decode_event_def encode_item_event_def encode_marker_event_def encode_patch_event_def slice_def Let_def
      EV_PREVGEN_def EV_UPSERT_def EV_TOMBSTONE_def EV_PATCH_def)

text \<open>A spilled pair stands for an event of the sources.\<close>
definition stands_for :: "'d build_env \<Rightarrow> delta_codec \<Rightarrow> pair \<Rightarrow> memory_id \<times> event \<Rightarrow> bool" where
  "stands_for env dc kv ie \<longleftrightarrow> pair_ok kv \<and> fst kv = mid_bytes (fst ie) \<and> decode_event env dc (snd kv) = Inr (snd ie)"

lemma event_lengths: "length (encode_item_event env tag q m) = 9 + length (be_write_payload env m)"
    "length (encode_marker_event tag q) = 9" "length (encode_patch_event dc q ds) = 9 + length (dc_write dc ds)"
  by (simp_all add: encode_item_event_def encode_marker_event_def encode_patch_event_def)

lemma op_events_stand: "events_readable env dc (op_event_list seq op) \<Longrightarrow> list_all2 (stands_for env dc) (op_events env dc seq op) (op_event_list seq op)"
  by (cases op) (auto simp: events_readable_def stands_for_def pair_ok_def event_lengths decode_events into_stored_def Let_def)

lemma events_readable_append [simp]: "events_readable env dc (a @ b) \<longleftrightarrow> events_readable env dc a \<and> events_readable env dc b"
  by (auto simp: events_readable_def)

lemma events_readable_concat [simp]: "events_readable env dc (concat xss) \<longleftrightarrow> (\<forall>xs \<in> set xss. events_readable env dc xs)"
  by (auto simp: events_readable_def)

lemma list_all2_concat_map: "(\<And>x. x \<in> set xs \<Longrightarrow> list_all2 R (f x) (g x)) \<Longrightarrow> list_all2 R (concat (map f xs)) (concat (map g xs))"
  by (induction xs) (auto intro: list_all2_appendI)

lemma source_events_stand:
  assumes "events_readable env dc (source_events prev wl)"
  shows "list_all2 (stands_for env dc) (map (prev_event env) prev @ tail_events env dc wl) (source_events prev wl)"
proof -
  have "stands_for env dc (prev_event env m) (sm_id m, \<lparr>ev_seq = sm_write_seq m, ev_kind = EvItem m\<rparr>)" if m: "m \<in> set prev" for m
  proof -
    have "events_readable env dc (map (\<lambda>m. (sm_id m, \<lparr>ev_seq = sm_write_seq m, ev_kind = EvItem m\<rparr>)) prev)"
      using assms by (simp add: source_events_def)
    then have "length (mid_bytes (sm_id m)) = 16" "sm_write_seq m < 2 ^ 64" "be_read_payload env (be_write_payload env m) = Some m"
      "length (be_write_payload env m) < 2 ^ 31" using m by (auto simp: events_readable_def)
    then show ?thesis by (simp add: stands_for_def prev_event_def pair_ok_def event_lengths decode_events)
  qed
  then have "list_all2 (stands_for env dc) (map (prev_event env) prev) (map (\<lambda>m. (sm_id m, \<lparr>ev_seq = sm_write_seq m, ev_kind = EvItem m\<rparr>)) prev)"
    by (simp add: list_all2_map1 list_all2_map2 list_all2_same)
  moreover have "list_all2 (stands_for env dc) (tail_events env dc wl) (concat (map entry_event_list wl))"
    unfolding tail_events_def entry_event_list_def
    using assms by (fastforce intro!: list_all2_concat_map op_events_stand simp: source_events_def entry_event_list_def split_beta)
  ultimately show ?thesis by (simp add: source_events_def list_all2_appendI)
qed

lemma stands_for_filter:
  "list_all2 (stands_for env dc) kvs evs \<Longrightarrow>
   map (\<lambda>r. projr (decode_event env dc (snd r))) (filter (\<lambda>r. fst r = mid_bytes i) kvs) = map snd (filter (\<lambda>p. fst p = i) evs)"
  by (induction rule: list_all2_induct) (auto simp: stands_for_def memory_id.expand)

text \<open>Resolving an id's events of an operation is applying the operation at that id.\<close>
abbreviation at_id :: "memory_id \<Rightarrow> (memory_id \<times> event) list \<Rightarrow> stored_memory option \<Rightarrow> stored_memory option" where
  "at_id i evs \<equiv> fold (\<lambda>e. resolve_event (ev_kind e)) (map snd (filter (\<lambda>p. fst p = i) evs))"

lemma at_id_op: "\<not> is_predicate_delete op \<Longrightarrow> at_id i (op_event_list seq op) (c i) = apply_op seq op c i"
  by (cases op) (auto simp: into_stored_def)

lemma at_id_ops: "at_id i (concat (map (op_event_list seq) ops)) (c i) = fold (apply_op seq) (filter (\<lambda>op. \<not> is_predicate_delete op) ops) c i"
proof (induction ops arbitrary: c)
  case (Cons op ops)
  show ?case
  proof (cases "is_predicate_delete op")
    case True
    then have "op_event_list seq op = []" by (cases op) auto
    then show ?thesis using Cons True by simp
  next
    case False
    then show ?thesis using Cons.IH[of "apply_op seq op c"] at_id_op[OF False] by simp
  qed
qed simp

lemma at_id_entries:
  "(\<And>s e. (s, e) \<in> set wl \<Longrightarrow> we_seq e = s) \<Longrightarrow>
   at_id i (concat (map entry_event_list wl)) (c i) = replay (map (plain_entry \<circ> snd) wl) c i"
proof (induction wl arbitrary: c)
  case (Cons se wl)
  obtain s e where se: "se = (s, e)" "we_seq e = s" using Cons.prems[of "fst se" "snd se"] by (cases se) auto
  have "at_id i (entry_event_list se) (c i) = apply_entry (plain_entry e) c i"
    using at_id_ops[of i s "we_ops e" c] se by (simp add: entry_event_list_def apply_entry_def plain_entry_def)
  moreover have "at_id i (concat (map entry_event_list wl)) (apply_entry (plain_entry e) c i) = replay (map (plain_entry \<circ> snd) wl) (apply_entry (plain_entry e) c) i"
    using Cons.prems by (intro Cons.IH) auto
  ultimately show ?case using se by (simp add: replay_def comp_def)
qed (simp add: replay_def)

lemma at_id_prev:
  "distinct (map sm_id prev) \<Longrightarrow> at_id i (map (\<lambda>m. (sm_id m, \<lparr>ev_seq = sm_write_seq m, ev_kind = EvItem m\<rparr>)) prev) None = map_of (map (\<lambda>m. (sm_id m, m)) prev) i"
proof (induction prev)
  case (Cons m prev)
  have "filter (\<lambda>p. fst p = i) (map (\<lambda>m. (sm_id m, \<lparr>ev_seq = sm_write_seq m, ev_kind = EvItem m\<rparr>)) prev) = []" if "i = sm_id m"
    using Cons.prems that by (auto simp: filter_empty_conv) (metis imageI)
  then show ?case using Cons by auto
qed simp

definition stream_corpus :: "stored_memory list \<Rightarrow> (nat \<times> wal_entry) list \<Rightarrow> corpus" where
  "stream_corpus prev wl = replay (map (plain_entry \<circ> snd) wl) (map_of (map (\<lambda>m. (sm_id m, m)) prev))"

lemma at_id_sources:
  assumes "distinct (map sm_id prev)" "\<And>s e. (s, e) \<in> set wl \<Longrightarrow> we_seq e = s"
  shows "at_id i (source_events prev wl) None = stream_corpus prev wl i"
  using at_id_prev[OF assms(1), of i] at_id_entries[OF assms(2), where wl = wl and i = i and c = "map_of (map (\<lambda>m. (sm_id m, m)) prev)"]
  by (simp add: source_events_def stream_corpus_def)

lemma keyed_stream_corpus: "stream_corpus prev wl i = Some m \<Longrightarrow> sm_id m = i"
proof -
  have op: "keyed (apply_op s op c)" if "keyed c" for s op c
    using that by (cases op) (auto simp: keyed_def into_stored_def split: option.splits if_splits)
  have ops: "keyed (fold (apply_op s) ops c)" if "keyed c" for s ops c
    using that by (induction ops arbitrary: c) (auto intro: op)
  have "keyed (replay es c)" if "keyed c" for es c
    using that by (induction es arbitrary: c) (auto simp: replay_def apply_entry_def intro: ops)
  moreover have "keyed (map_of (map (\<lambda>m. (sm_id m, m)) prev))"
    by (auto simp: keyed_def dest!: map_of_SomeD)
  ultimately show "stream_corpus prev wl i = Some m \<Longrightarrow> sm_id m = i"
    unfolding stream_corpus_def by blast
qed

lemma sorted_const: "(\<And>x. x \<in> set xs \<Longrightarrow> x = c) \<Longrightarrow> sorted xs"
  by (induction xs) auto

lemma sorted_entry_events:
  "sorted (map fst wl) \<Longrightarrow> sorted (map (ev_seq \<circ> snd) (concat (map entry_event_list wl)))"
proof -
  have ops: "ev_seq (snd p) = s" if "p \<in> set (op_event_list s op)" for p s op using that by (cases op) auto
  have entry: "ev_seq (snd p) = fst se" if p: "p \<in> set (entry_event_list se)" for p se
  proof -
    obtain op where "p \<in> set (op_event_list (fst se) op)" using p by (auto simp: entry_event_list_def)
    then show ?thesis by (rule ops)
  qed
  then have "sorted (map (ev_seq \<circ> snd) (entry_event_list se))" for se
    by (intro sorted_const[where c = "fst se"]) auto
  then show "sorted (map fst wl) \<Longrightarrow> ?thesis"
    using entry by (induction wl) (auto simp: sorted_append comp_def)
qed

lemma resolve_source_events:
  assumes "distinct (map sm_id prev)" "\<forall>m \<in> set prev. sm_write_seq m \<le> cursor"
    and "sorted (map fst wl)" "\<forall>(s, e) \<in> set wl. cursor < s \<and> we_seq e = s"
  shows "resolve_events (map snd (filter (\<lambda>p. fst p = i) (source_events prev wl))) = stream_corpus prev wl i"
proof -
  let ?p = "map (\<lambda>m. (sm_id m, \<lparr>ev_seq = sm_write_seq m, ev_kind = EvItem m\<rparr>)) prev"
  have one: "length (filter (\<lambda>p. fst p = i) ?p) \<le> 1"
    using assms(1) by (induction prev) (auto simp: filter_empty_conv le_Suc_eq, metis imageI)
  have lo: "ev_seq (snd p) \<le> cursor" if "p \<in> set ?p" for p using assms(2) that by auto
  have hi: "cursor \<le> ev_seq (snd p)" if p: "p \<in> set (concat (map entry_event_list wl))" for p
  proof -
    obtain se op where "se \<in> set wl" "op \<in> set (we_ops (snd se))" "p \<in> set (op_event_list (fst se) op)"
      using p by (auto simp: entry_event_list_def)
    moreover from this have "ev_seq (snd p) = fst se" by (cases op) auto
    ultimately show ?thesis using assms(4) by fastforce
  qed
  have "sorted (map (ev_seq \<circ> snd) (filter (\<lambda>p. fst p = i) (concat (map entry_event_list wl))))"
    using sorted_filter[OF sorted_entry_events[OF assms(3)]] by simp
  moreover have "sorted (map (ev_seq \<circ> snd) (filter (\<lambda>p. fst p = i) ?p))"
    using one by (cases "filter (\<lambda>p. fst p = i) ?p") auto
  moreover have "x \<le> y" if x: "x \<in> set (map (ev_seq \<circ> snd) (filter (\<lambda>p. fst p = i) ?p))"
      and y: "y \<in> set (map (ev_seq \<circ> snd) (filter (\<lambda>p. fst p = i) (concat (map entry_event_list wl))))" for x y
  proof -
    obtain p q where "p \<in> set ?p" "x = ev_seq (snd p)" "q \<in> set (concat (map entry_event_list wl))" "y = ev_seq (snd q)"
      using x y unfolding set_map set_filter comp_def by blast
    then show ?thesis using order_trans[OF lo hi] by blast
  qed
  ultimately have "sorted (map (ev_seq \<circ> snd) (filter (\<lambda>p. fst p = i) (source_events prev wl)))"
    unfolding source_events_def filter_append map_append sorted_append by blast
  then have "sort_key ev_seq (map snd (filter (\<lambda>p. fst p = i) (source_events prev wl))) = map snd (filter (\<lambda>p. fst p = i) (source_events prev wl))"
    by (intro sort_key_id_if_sorted) simp
  moreover have "\<And>s e. (s, e) \<in> set wl \<Longrightarrow> we_seq e = s" using assms(4) by auto
  ultimately show ?thesis using at_id_sources[OF assms(1)] by (simp add: resolve_events_def)
qed

text \<open>The items that reach the spill of a type.\<close>
definition spilled :: "'d build_env \<Rightarrow> resolver \<Rightarrow> u8 \<Rightarrow> stored_memory list" where
  "spilled env rs t = (case map_of (rs_spills rs) t of None \<Rightarrow> [] | Some s \<Rightarrow> read_batches (be_read_payload env) (into_reader s))"

lemma spilled_survivors:
  assumes "\<And>m. m \<in> set ms \<Longrightarrow> be_read_payload env (be_write_payload env m) = Some m \<and> length (be_write_payload env m) < 2 ^ 32"
  shows "spilled env (fold (resolver_emit (be_write_payload env)) ms (resolver_new seed)) t = filter (\<lambda>m. sm_memory_type m = t) ms"
proof -
  let ?mine = "filter (\<lambda>m. sm_memory_type m = t) ms"
  have "read_batches (be_read_payload env) (into_reader (spill_of (be_write_payload env) ?mine)) = ?mine"
    using assms by (intro spilled_items(1)) auto
  moreover have "map_of (rs_spills (fold (resolver_emit (be_write_payload env)) ms (resolver_new seed))) t =
      (if ?mine = [] then None else Some (spill_of (be_write_payload env) ?mine))"
    by (simp add: map_of_spills_fold Let_def spill_of_def resolver_new_def)
  ultimately show ?thesis by (cases "?mine = []") (simp_all add: spilled_def)
qed

lemma map_filter_keys:
  assumes "\<And>k m. k \<in> set ks \<Longrightarrow> f k = Some m \<Longrightarrow> g m = k" "sorted_wrt (<) ks"
  shows "sorted_wrt (<) (map g (List.map_filter f ks))"
proof -
  have "map g (List.map_filter f ks) = filter (\<lambda>k. f k \<noteq> None) ks"
    using assms(1) by (induction ks) (auto simp: List.map_filter_simps split: option.split)
  then show ?thesis using assms(2) sorted_wrt_filter by metis
qed

lemma set_map_filter_iff: "x \<in> set (List.map_filter f ks) \<longleftrightarrow> (\<exists>k \<in> set ks. f k = Some x)"
  by (force simp: List.map_filter_def)


section \<open>Tables\<close>

text \<open>Grouping a key-sorted stream whose keys are distinct adds every pair as it is.\<close>
lemma add_groups_distinct:
  "distinct (map fst recs) \<Longrightarrow> (\<And>k v. cur = Some (k, v) \<Longrightarrow> k \<notin> fst ` set recs) \<Longrightarrow>
   add_groups cur recs b = fold (\<lambda>(k, v). sstable_add k v) ((case cur of None \<Rightarrow> [] | Some kv \<Rightarrow> [kv]) @ recs) b"
proof (induction recs arbitrary: cur b)
  case (Cons r recs)
  obtain k v where r: "r = (k, v)" by (cases r)
  have step: "add_groups (Some (k, v)) recs b' = fold (\<lambda>(k, v). sstable_add k v) ((k, v) # recs) b'" for b'
    using Cons.IH[of "Some (k, v)" b'] Cons.prems(1) r by auto
  show ?case
  proof (cases cur)
    case (Some kv)
    obtain k0 v0 where kv: "kv = (k0, v0)" by (cases kv)
    have "k0 \<noteq> k" using Cons.prems(2) Some kv r by auto
    then show ?thesis using step Some kv r by simp
  qed (use step r in simp)
qed (auto split: option.split)

lemma build_sstable_distinct: "distinct (map fst recs) \<Longrightarrow> build_sstable_from_merge recs = sstable_build BLOCK_TARGET_BYTES recs"
  using add_groups_distinct[of recs None sstable_new] by (simp add: build_sstable_from_merge_def sstable_build_def sstable_new_def)

text \<open>A key function that keeps the order of the keys at hand commutes with the sort.\<close>
lemma sort_key_encoded:
  assumes "\<And>a b. a \<in> fst ` set xs \<Longrightarrow> b \<in> fst ` set xs \<Longrightarrow> (f a \<le> f b) = (a \<le> b)"
  shows "sort_key fst (map (\<lambda>(i, v). (f i, g v)) xs) = map (\<lambda>(i, v). (f i, g v)) (sort_key fst xs)"
  using assms
proof (induction xs)
  case (Cons x xs)
  have "insort_key fst (f (fst x), g (snd x)) (map (\<lambda>(i, v). (f i, g v)) ys) = map (\<lambda>(i, v). (f i, g v)) (insort_key fst x ys)"
    if "set ys \<subseteq> set xs" for ys
    using that Cons.prems by (induction ys) (auto simp: split_def)
  then show ?case using Cons by (simp add: split_def)
qed simp

text \<open>Pairs whose second components ascend are sorted whole by sorting their keys.\<close>
lemma sort_key_sort: "sorted (map snd ps) \<Longrightarrow> sort_key fst ps = sort (ps :: ('k::linorder \<times> 'v::linorder) list)"
proof -
  have ins: "sorted (insort_key fst x ys)" if "sorted ys" "\<And>y. y \<in> set ys \<Longrightarrow> snd x \<le> snd y" for x :: "'k \<times> 'v" and ys
    using that
  proof (induction ys)
    case (Cons y ys)
    then show ?case
      by (cases "fst x \<le> fst y") (auto simp: less_eq_prod_def set_insort_key intro: order_trans order.strict_trans2)
  qed simp
  assume "sorted (map snd ps)"
  then have "sorted (sort_key fst ps)" by (induction ps) (auto intro!: ins)
  then show ?thesis by (metis mset_sort properties_for_sort)
qed

context grouped_table
begin

lemma add_groups_runs:
  "list_all (\<lambda>p. key_ok (fst p)) ps \<Longrightarrow> key_ok k \<Longrightarrow>
   add_groups (Some (ek k, acc)) (map (\<lambda>(k, v). (ek k, enc v)) ps) b =
   fold (\<lambda>(k, v). sstable_add k v) ((ek k, acc @ concat (map enc (map snd (takeWhile (\<lambda>p. fst p = k) ps))))
     # grouped_entries ek enc (dropWhile (\<lambda>p. fst p = k) ps)) b"
proof (induction ps arbitrary: k acc b)
  case (Cons p ps)
  obtain k1 v where p: "p = (k1, v)" by (cases p)
  then have ok: "key_ok k1" "list_all (\<lambda>p. key_ok (fst p)) ps" using Cons.prems(1) by simp_all
  show ?case
  proof (cases "k = k1")
    case True
    then show ?thesis using Cons.IH[OF ok(2) Cons.prems(2), of "acc @ enc v" b] p by simp
  next
    case False
    then have "ek k \<noteq> ek k1" using ek_eq Cons.prems(2) ok(1) by simp
    then show ?thesis
      using Cons.IH[OF ok(2) ok(1), of "enc v" "sstable_add (ek k) acc b"] p False
      by (simp add: grouped_entries_def)
  qed
qed (simp add: grouped_entries_def)

lemma streamed_groups:
  "list_all (\<lambda>p. key_ok (fst p)) ps \<Longrightarrow>
   build_sstable_from_merge (map (\<lambda>(k, v). (ek k, enc v)) ps) = sstable_build BLOCK_TARGET_BYTES (grouped_entries ek enc ps)"
proof (cases ps)
  case (Cons p rest)
  assume ok: "list_all (\<lambda>p. key_ok (fst p)) ps"
  obtain k v where p: "p = (k, v)" by (cases p)
  show ?thesis
    using add_groups_runs[of rest k "enc v" sstable_new] ok Cons p
    by (simp add: build_sstable_from_merge_def sstable_build_def sstable_new_def grouped_entries_def)
qed (simp add: build_sstable_from_merge_def sstable_build_def sstable_new_def grouped_entries_def)

text \<open>A grouped table built through the external sort is the table built in memory from the sorted pairs.\<close>
lemma stream_table_grouped:
  assumes "list_all (\<lambda>p. key_ok (fst p)) ps" "\<forall>p \<in> set ps. length (enc (snd p)) < 2 ^ 32"
  shows "stream_table cap (map (\<lambda>(k, v). (ek k, enc v)) ps) = Inr (sstable_build BLOCK_TARGET_BYTES (grouped_entries ek enc (sort_key fst ps)))"
proof -
  have "\<forall>kv \<in> set (map (\<lambda>(k, v). (ek k, enc v)) ps). pair_ok kv"
    using assms by (auto simp: pair_ok_def list_all_iff ek_length)
  moreover have "sort_key fst (map (\<lambda>(k, v). (ek k, enc v)) ps) = map (\<lambda>(k, v). (ek k, enc v)) (sort_key fst ps)"
    using assms(1) by (intro sort_key_encoded) (auto simp: list_all_iff intro!: ek_le)
  moreover have "list_all (\<lambda>p. key_ok (fst p)) (sort_key fst ps)" using assms(1) by (simp add: list_all_iff)
  ultimately show ?thesis by (simp add: stream_table_def sort_pairs_sorted streamed_groups)
qed

end

lemma stream_table_flat:
  assumes "distinct (map fst ps)" "\<forall>p \<in> set ps. length (mid_bytes (fst p)) = 16 \<and> length (snd p) < 2 ^ 32"
  shows "stream_table cap (map (\<lambda>(i, v). (mid_bytes i, v)) ps) = Inr (sstable_build BLOCK_TARGET_BYTES (map (\<lambda>(i, v). (mid_bytes i, v)) (sort_key fst ps)))"
proof -
  have "\<forall>kv \<in> set (map (\<lambda>(i, v). (mid_bytes i, v)) ps). pair_ok kv"
    using assms by (auto simp: pair_ok_def)
  moreover have "sort_key fst (map (\<lambda>(i, v). (mid_bytes i, v)) ps) = map (\<lambda>(i, v). (mid_bytes i, v)) (sort_key fst ps)"
    by (rule sort_key_encoded) (simp add: less_eq_memory_id_def)
  moreover have "distinct (map fst (map (\<lambda>(i, v). (mid_bytes i, v)) (sort_key fst ps)))"
  proof -
    have "distinct (map fst (sort_key fst ps))" using assms(1) by (metis distinct_sort mset_map mset_sort mset_eq_imp_distinct_iff)
    then show ?thesis by (auto simp: distinct_map inj_on_def memory_id.expand split_beta)
  qed
  ultimately show ?thesis by (simp add: stream_table_def sort_pairs_sorted build_sstable_distinct)
qed

text \<open>An item whose table records fit their formats.\<close>
definition item_fits :: "'d build_env \<Rightarrow> stored_memory \<Rightarrow> bool" where
  "item_fits env m \<longleftrightarrow> id16 (sm_id m) \<and> length (be_write_payload env (strip_vector m)) < 2 ^ 32 \<and> 4 * length (sm_vector m) < 2 ^ 32 \<and>
     list_all eid16 (sm_entity_ids m) \<and> list_all (\<lambda>e. id16 (ce_target e)) (sm_causal_out m) \<and>
     pred_option is_i64 (effective_ts (sm_timestamps m)) \<and> pred_option is_i64 (updated_at (sm_timestamps m))"

lemma sorted_concat_const:
  "sorted (map f xs) \<Longrightarrow> (\<And>x y. x \<in> set xs \<Longrightarrow> y \<in> set (g x) \<Longrightarrow> h y = f x) \<Longrightarrow> sorted (map h (concat (map g xs)))"
proof (induction xs)
  case (Cons x xs)
  have "sorted (map h (g x))" using Cons.prems(2) by (intro sorted_const[where c = "f x"]) auto
  moreover have "sorted (map h (concat (map g xs)))" using Cons by simp
  moreover have "h a \<le> h y" if "a \<in> set (g x)" "z \<in> set xs" "y \<in> set (g z)" for a y z
    using that Cons.prems by (metis list.set_intros list.simps(9) sorted_simps(2) image_eqI set_map)
  ultimately show ?case by (auto simp: sorted_append)
qed simp

lemma sorted_map_filter: "sorted (map f xs) \<Longrightarrow> (\<And>x y. x \<in> set xs \<Longrightarrow> g x = Some y \<Longrightarrow> h y = f x) \<Longrightarrow> sorted (map h (List.map_filter g xs))"
proof (induction xs)
  case (Cons x xs)
  have le: "h y \<le> h z" if "g x = Some y" "k \<in> set xs" "g k = Some z" for y k z
  proof -
    have "h y = f x" "h z = f k" "f x \<le> f k" using that Cons.prems by auto
    then show ?thesis by simp
  qed
  have "sorted (map h (List.map_filter g xs))" using Cons.prems by (intro Cons.IH) auto
  then show ?case
    by (cases "g x") (auto simp: List.map_filter_simps set_map_filter_iff intro: le)
qed (simp add: List.map_filter_simps)

lemma entity_pairs_ok:
  assumes "sorted (map sm_id items)" "\<forall>m \<in> set items. item_fits env m"
  shows "sorted (map snd (entity_pairs items))" "list_all (\<lambda>p. eid16 (fst p)) (entity_pairs items)" "\<forall>p \<in> set (entity_pairs items). id16 (snd p)"
proof -
  show "sorted (map snd (entity_pairs items))"
    unfolding entity_pairs_def by (rule sorted_concat_const[OF assms(1)]) auto
qed (use assms(2) in \<open>auto simp: entity_pairs_def list_all_iff item_fits_def\<close>)

lemma instant_pairs_ok:
  assumes "sorted (map sm_id items)" "\<forall>m \<in> set items. id16 (sm_id m) \<and> pred_option is_i64 (ts (sm_timestamps m))"
  shows "sorted (map snd (List.map_filter (\<lambda>m. map_option (\<lambda>t. (t, sm_id m)) (ts (sm_timestamps m))) items))"
    "list_all (\<lambda>p. is_i64 (fst p)) (List.map_filter (\<lambda>m. map_option (\<lambda>t. (t, sm_id m)) (ts (sm_timestamps m))) items)"
    "\<forall>p \<in> set (List.map_filter (\<lambda>m. map_option (\<lambda>t. (t, sm_id m)) (ts (sm_timestamps m))) items). id16 (snd p)"
proof -
  show "sorted (map snd (List.map_filter (\<lambda>m. map_option (\<lambda>t. (t, sm_id m)) (ts (sm_timestamps m))) items))"
    by (rule sorted_map_filter[OF assms(1)]) auto
qed (use assms(2) in \<open>fastforce simp: list_all_iff set_map_filter_iff\<close>)+

lemma stream_instants:
  assumes "sorted (map sm_id items)" "\<forall>m \<in> set items. id16 (sm_id m) \<and> pred_option is_i64 (ts (sm_timestamps m))"
  defines "ps \<equiv> List.map_filter (\<lambda>m. map_option (\<lambda>t. (t, sm_id m)) (ts (sm_timestamps m))) items"
  shows "stream_table cap (stream_time_pairs ps) = Inr (time_build ps)"
  using time_ix.stream_table_grouped[of ps cap] instant_pairs_ok[OF assms(1,2)] sort_key_sort[of ps]
  by (simp add: stream_time_pairs_def time_build_def ps_def id16_def)


section \<open>Witnesses\<close>

definition plain_env :: "unit build_env" where
  "plain_env = sample_env\<lparr>be_read_payload := (\<lambda>_. Some sample_item)\<rparr>"

definition no_deltas :: delta_codec where
  "no_deltas = \<lparr>dc_write = (\<lambda>_. []), dc_read = (\<lambda>_. None)\<rparr>"

definition other_delete :: wal_entry where
  "other_delete = wal_entry_new 1 [Tombstone (MemoryId (replicate 16 3))]"

lemma plain_env_fields [simp]: "be_write_payload plain_env m = []" "be_read_payload plain_env bs = Some sample_item"
  by (simp_all add: plain_env_def sample_env_def)

lemma sample_item_fields [simp]: "sm_id sample_item = MemoryId (replicate 16 2)" "sm_write_seq sample_item = 0" "sm_entity_ids sample_item = []"
    "sm_causal_out sample_item = []" "sm_semantic_out sample_item = []" "length (sm_vector sample_item) = 2"
  by (simp_all add: sample_item_def into_stored_def plain_memory_def sort_dedup_def)

lemma other_delete_fields [simp]: "we_seq other_delete = 1" "we_ops other_delete = [Tombstone (MemoryId (replicate 16 3))]"
  by (simp_all add: other_delete_def wal_entry_new_def)

lemma sample_stream_corpus: "stream_corpus [sample_item] [(1, other_delete)] i = (if i = MemoryId (replicate 16 2) then Some sample_item else None)"
  by (auto simp: stream_corpus_def replay_def apply_entry_def plain_entry_def other_delete_def wal_entry_new_def numeral_eq_Suc)



section \<open>A namespace of several segments\<close>

text \<open>The newest of eight segments comes from a flush of deletes and holds no items; the seven older ones hold the corpus.\<close>
definition older_segment :: segment where
  "older_segment = \<lparr>sg_id = ''o'', sg_level = 0, sg_seq_lo = 0, sg_seq_hi = 0, sg_doc_count = 600000,
     sg_indexes = [(0, \<lparr>fi_files = generation_files_at ''n/seg-o/mt0'' [''n/seg-o/mt0/cluster-0.bin''] [''n/seg-o/mt0/cluster-0.vec''], fi_train_count = 600000\<rparr>)],
     sg_tombstones = []\<rparr>"

definition delete_segment :: segment where
  "delete_segment = \<lparr>sg_id = ''d'', sg_level = 0, sg_seq_lo = 1, sg_seq_hi = 1, sg_doc_count = 0, sg_indexes = [], sg_tombstones = ''n/seg-d/tombstones.bin''\<rparr>"

definition eight_segments :: manifest where
  "eight_segments = (manifest_empty [] [])\<lparr>mf_wal_index_cursor := 1, mf_wal_head := 1, mf_segments := delete_segment # replicate 7 older_segment\<rparr>"

definition emptied :: manifest where
  "emptied = (advance eight_segments 1 (mf_segments eight_segments) [\<lparr>sg_id = ''s'', sg_level = 0, sg_seq_lo = 0, sg_seq_hi = 1, sg_doc_count = 0,
     sg_indexes = [], sg_tombstones = []\<rparr>])\<lparr>mf_tokenizer_config_hash := []\<rparr>"

definition eight_env :: "unit build_env" where
  "eight_env = sample_env\<lparr>be_manifest := table_codec [(eight_segments, [1]), (emptied, [3])]\<rparr>"

lemma eight_fields [simp]: "mf_wal_index_cursor eight_segments = 1" "mf_version eight_segments = 0" "mf_version emptied = 1"
    "mf_segments eight_segments = delete_segment # replicate 7 older_segment"
    "be_entry eight_env = be_entry sample_env" "be_tokenizer_hash eight_env = []"
  by (simp_all add: eight_segments_def manifest_empty_def eight_env_def sample_env_def emptied_def advance_def)

lemma eight_manifest [simp]:
  "run (read_manifest (be_manifest eight_env) ''n'') sample_log = (Inr (eight_segments, Some (tag_etag 0)), sample_log)"
  by (simp add: read_manifest_def io_simps manifest_from_bytes_def eight_env_def table_codec_def eight_segments_def manifest_empty_def)

text \<open>The log of the example ends at the cursor, so nothing is left to read.\<close>
lemma sample_list_wal [simp]: "run (list_wal ''n'' 2 100000) sample_log = (Inr ([], None), sample_log)"
proof -
  have "wal_seqs ''n'' sample_log = {1}" by (auto simp: wal_seqs_def U64_LIMIT_def)
  then have "om_location m = wal_path ''n'' 1" if "m \<in> set (list_objects (''n'' @ ''/wal/'') sample_log)" for m
    using set_wal_listing[OF sample_log_clean(1)] that by auto
  moreover have "parse_wal_seq (wal_path ''n'' 1) = Some 1" by (rule parse_wal_path) (simp add: U64_LIMIT_def)
  ultimately have none: "filter (\<lambda>ob. 2 \<le> wo_seq ob) (List.map_filter (\<lambda>(p, sz). map_option (\<lambda>s. \<lparr>wo_seq = s, wo_size_bytes = sz\<rparr>) (parse_wal_seq p))
      (sort_key fst (map (\<lambda>m. (om_location m, om_size m)) (list_objects (''n'' @ ''/wal/'') sample_log)))) = []"
    by (auto simp: filter_empty_conv set_map_filter_iff)
  show ?thesis
    by (simp add: list_wal_def store_list_with_size_def os_list_def io_simps Let_def none[simplified])
qed

lemmas sample_list_wal_Suc [simp] = sample_list_wal[unfolded numeral_2_eq_2]

lemma nothing_to_resolve [simp]: "resolve_all env dc b seed [] [] = Inr (resolver_new seed)"
  by (simp add: resolve_all_def sort_pairs_def external_sort_new_def es_finish_def merge_collect.simps tail_events_def)

lemma emptied_encode [simp]: "encode (be_manifest eight_env) emptied = Some [3]"
  by (simp add: eight_env_def table_codec_def emptied_def advance_def eight_segments_def manifest_empty_def)

lemma eight_prev [simp]: "prev_paths eight_segments = []"
  by (simp add: prev_paths_def delete_segment_def sg_index_def List.map_filter_def)

lemma eight_estimate [simp]: "run (estimate_corpus_docs eight_env ''n'') sample_log = (Inr 4200000, sample_log)"
  by (simp add: estimate_corpus_docs_def io_simps tail_bytes_from.simps mf_doc_count_def delete_segment_def older_segment_def sum_list_replicate)

lemma eight_tail [simp]: "run (wal_seqs_after 2 ''n'' 1 2 []) sample_log = (Inr [], sample_log)"
  by (subst numeral_2_eq_2, subst wal_seqs_after.simps) (simp add: io_simps)

lemmas eight_tail_Suc [simp] = eight_tail[unfolded One_nat_def numeral_2_eq_2]

lemma eight_counts: "mf_doc_count eight_segments = 4200000" "mf_doc_count emptied = 0"
  by (simp_all add: mf_doc_count_def delete_segment_def older_segment_def sum_list_replicate) (simp add: emptied_def advance_def)

lemma eight_streaming:
  "run (index_streaming_with_budget eight_env no_deltas index_options_default b ''n'' ''s'') sample_log
   = run (publish eight_env ''n'' (Some (tag_etag 0)) emptied 0) sample_log"
  by (simp add: index_streaming_with_budget_def io_simps resolver_new_def emptied_def)


end
