(* ===== verification/Wire.thy ===== *)
theory Wire
  imports Query_Arms Cache
begin

text \<open>
  The conversions between the messages of the wire protocol and the core types (\<open>mlake-server/src/convert.rs\<close>).  A message is a
  record or datatype with the fields of \<open>proto/memlake/v1/memlake.proto\<close>; a map field is a list of pairs with distinct keys, in
  the order its iterator happens to yield.  A rejected message is a status with the code's message.  The hash that derives an
  id from a key and the half-precision conversion of weights are arguments.
\<close>

section \<open>Definitions\<close>

datatype status = InvalidArgument string | DeadlineExceeded | Internal | Crashed

text \<open>\<open>collect::<Result<Vec<_>, _>>()\<close>: the first error wins.\<close>
fun res_collect :: "('a \<Rightarrow> 'e + 'b) \<Rightarrow> 'a list \<Rightarrow> 'e + 'b list" where
  "res_collect f [] = Inr []"
| "res_collect f (x # xs) = res_bind (f x) (\<lambda>y. res_bind (res_collect f xs) (\<lambda>ys. Inr (y # ys)))"

text \<open>\<open>opt.map(f).transpose()\<close>.\<close>
definition res_option :: "('a \<Rightarrow> 'e + 'b) \<Rightarrow> 'a option \<Rightarrow> 'e + 'b option" where
  "res_option f x = (case x of None \<Rightarrow> Inr None | Some y \<Rightarrow> res_bind (f y) (\<lambda>z. Inr (Some z)))"

subsection \<open>Messages of the write path\<close>

record pb_vector =
  pv_f32le :: bytes

record pb_timestamps =
  pt_event_date :: "millis option"
  pt_occurred_start :: "millis option"
  pt_occurred_end :: "millis option"
  pt_mentioned_at :: "millis option"
  pt_updated_at :: "millis option"

record pb_causal_edge =
  pc_target :: bytes
  pc_link_type :: int
  pc_weight :: f32

record pb_semantic_edge =
  ps_target :: bytes
  ps_weight :: f32

record pb_memory =
  pm_id :: bytes
  pm_key :: string
  pm_vector :: "pb_vector option"
  pm_text :: string
  pm_memory_type :: u32
  pm_index_text :: string
  pm_tags :: "string list"
  pm_proof_count :: u32
  pm_entity_ids :: "bytes list"
  pm_timestamps :: "pb_timestamps option"
  pm_causal_out :: "pb_causal_edge list"
  pm_metadata :: "(string \<times> string) list"

record pb_patch =
  pp_id :: bytes
  pp_proof_count_delta :: int
  pp_text :: "string option"
  pp_vector :: "pb_vector option"
  pp_tags :: "string list option"
  pp_timestamps :: "pb_timestamps option"
  pp_replace_timestamps :: bool
  pp_metadata :: "(string \<times> string) list"

record pb_tag_filter =
  ptf_tags :: "string list"
  ptf_mode :: int

record pb_predicate =
  ppr_memory_types :: "u32 list"
  ppr_metadata_equals :: "(string \<times> string) list"
  ppr_tags :: "pb_tag_filter option"

datatype pb_op_kind =
    KUpsert pb_memory
  | KTombstone bytes
  | KPatch pb_patch
  | KGuardExpectSeqLt nat
  | KTombstoneWhere pb_predicate

text \<open>A \<open>oneof\<close> nobody set is \<open>None\<close>.\<close>
type_synonym pb_op = "pb_op_kind option"

datatype pb_tag_predicate = PbPredicate "pb_node option"
  and pb_node =
    PbLeaf pb_tag_filter
  | PbAll "pb_tag_predicate list"
  | PbAny "pb_tag_predicate list"
  | PbNegate pb_tag_predicate

subsection \<open>Vectors and identifiers\<close>

definition decode_vector :: "pb_vector \<Rightarrow> status + f32 list" where
  "decode_vector v = (if length (pv_f32le v) mod 4 \<noteq> 0
     then Inl (InvalidArgument ''vector byte length must be a multiple of 4'')
     else Inr (map word_le (chunks_exact 4 (pv_f32le v))))"

definition encode_vector :: "f32 list \<Rightarrow> pb_vector" where
  "encode_vector v = \<lparr>pv_f32le = concat (map (le_word 4) v)\<rparr>"

definition id_exact :: "bytes \<Rightarrow> status + memory_id" where
  "id_exact bs = (if length bs = 16 then Inr (MemoryId bs) else Inl (InvalidArgument ''id must be exactly 16 bytes''))"

definition id_from :: "(string \<Rightarrow> memory_id) \<Rightarrow> bytes \<Rightarrow> string \<Rightarrow> status + memory_id" where
  "id_from from_key bs key =
     (if bs = [] then if key = [] then Inl (InvalidArgument ''memory needs either `id` (16 bytes) or `key`'') else Inr (from_key key)
      else id_exact bs)"

definition entity_ids_in :: "bytes list \<Rightarrow> status + entity_id list" where
  "entity_ids_in raw = res_collect (\<lambda>b. if length b = 16 then Inr (EntityId b)
     else Inl (InvalidArgument ''entity_id must be exactly 16 bytes'')) raw"

definition entity_ids_out :: "entity_id list \<Rightarrow> bytes list" where
  "entity_ids_out ids = map eid_bytes ids"

definition memory_type_u8 :: "u32 \<Rightarrow> status + u8" where
  "memory_type_u8 v = (if unat v < 256 then Inr (ucast v) else Inl (InvalidArgument ''memory_type must be 0..=255''))"

subsection \<open>Memories\<close>

definition timestamps_in :: "pb_timestamps option \<Rightarrow> timestamps" where
  "timestamps_in t = (case t of None \<Rightarrow> no_timestamps
     | Some t \<Rightarrow> \<lparr>event_date = pt_event_date t, occurred_start = pt_occurred_start t, occurred_end = pt_occurred_end t,
         mentioned_at = pt_mentioned_at t, updated_at = pt_updated_at t\<rparr>)"

definition timestamps_out :: "timestamps \<Rightarrow> pb_timestamps" where
  "timestamps_out t = \<lparr>pt_event_date = event_date t, pt_occurred_start = occurred_start t, pt_occurred_end = occurred_end t,
     pt_mentioned_at = mentioned_at t, pt_updated_at = updated_at t\<rparr>"

text \<open>An unknown link type is read as \<open>Causes\<close>.\<close>
definition link_type_from_pb :: "int \<Rightarrow> link_type" where
  "link_type_from_pb n = (if n = 1 then CausedBy else if n = 2 then Enables else if n = 3 then Prevents else Causes)"

fun link_type_to_pb :: "link_type \<Rightarrow> int" where
  "link_type_to_pb Causes = 0"
| "link_type_to_pb CausedBy = 1"
| "link_type_to_pb Enables = 2"
| "link_type_to_pb Prevents = 3"

definition causal_edge_in :: "(f32 \<Rightarrow> weight) \<Rightarrow> pb_causal_edge \<Rightarrow> status + causal_edge" where
  "causal_edge_in to_half e = res_bind (id_exact (pc_target e)) (\<lambda>t.
     Inr \<lparr>ce_target = t, ce_link_type = link_type_from_pb (pc_link_type e), ce_weight = to_half (pc_weight e)\<rparr>)"

definition causal_edge_out :: "(weight \<Rightarrow> f32) \<Rightarrow> causal_edge \<Rightarrow> pb_causal_edge" where
  "causal_edge_out of_half e = \<lparr>pc_target = mid_bytes (ce_target e), pc_link_type = link_type_to_pb (ce_link_type e),
     pc_weight = of_half (ce_weight e)\<rparr>"

definition semantic_edge_out :: "(weight \<Rightarrow> f32) \<Rightarrow> semantic_edge \<Rightarrow> pb_semantic_edge" where
  "semantic_edge_out of_half e = \<lparr>ps_target = mid_bytes (se_target e), ps_weight = of_half (se_weight e)\<rparr>"

text \<open>A client that sets no write time gets the server's clock.\<close>
definition stamped :: "millis \<Rightarrow> timestamps \<Rightarrow> timestamps" where
  "stamped now t = (if updated_at t = None then t\<lparr>updated_at := Some now\<rparr> else t)"

definition memory_in :: "(string \<Rightarrow> memory_id) \<Rightarrow> (f32 \<Rightarrow> weight) \<Rightarrow> millis \<Rightarrow> pb_memory \<Rightarrow> status + memory" where
  "memory_in from_key to_half now m =
     res_bind (id_from from_key (pm_id m) (pm_key m)) (\<lambda>i.
     res_bind (res_option decode_vector (pm_vector m)) (\<lambda>vector.
     res_bind (res_collect (causal_edge_in to_half) (pm_causal_out m)) (\<lambda>causal_out.
     res_bind (memory_type_u8 (pm_memory_type m)) (\<lambda>t.
     res_bind (entity_ids_in (pm_entity_ids m)) (\<lambda>entity_ids.
     Inr \<lparr>m_id = i, m_vector = (case vector of None \<Rightarrow> [] | Some v \<Rightarrow> v), m_text = pm_text m, m_index_text = pm_index_text m,
       m_memory_type = t, m_tags = pm_tags m, m_timestamps = stamped now (timestamps_in (pm_timestamps m)),
       m_proof_count = pm_proof_count m, m_entity_ids = entity_ids, m_causal_out = causal_out, m_semantic_out = [],
       m_metadata = pm_metadata m\<rparr>)))))"

subsection \<open>Operations\<close>

definition tags_match_from_pb :: "int \<Rightarrow> tags_match" where
  "tags_match_from_pb n = (if n = 1 then All else if n = 2 then AnyStrict else if n = 3 then AllStrict else if n = 4 then Exact else Any)"

definition predicate_in :: "pb_predicate \<Rightarrow> status + predicate" where
  "predicate_in p = res_bind (res_collect memory_type_u8 (ppr_memory_types p)) (\<lambda>types.
     let (tags, mode) = (case ppr_tags p of
           Some tf \<Rightarrow> if ptf_tags tf \<noteq> [] then (ptf_tags tf, tags_mode_to_u8 (tags_match_from_pb (ptf_mode tf))) else ([], 0)
         | None \<Rightarrow> ([], 0))
     in Inr \<lparr>p_memory_types = types, p_metadata_equals = ppr_metadata_equals p, p_tags = tags, p_tags_mode = mode,
       p_updated_from = None, p_updated_to = None\<rparr>)"

text \<open>The deltas of a patch in the order in which they are applied; the write-time stamp comes last.\<close>
definition patch_deltas :: "millis \<Rightarrow> pb_patch \<Rightarrow> status + delta list" where
  "patch_deltas now p = res_bind (res_option decode_vector (pp_vector p)) (\<lambda>vector.
     Inr ((if pp_proof_count_delta p \<noteq> 0 then [ProofCount (pp_proof_count_delta p)] else [])
       @ (case pp_text p of Some t \<Rightarrow> [SetText t] | None \<Rightarrow> [])
       @ (case vector of Some v \<Rightarrow> [SetVector v] | None \<Rightarrow> [])
       @ (case pp_tags p of Some tags \<Rightarrow> [SetTags tags] | None \<Rightarrow> [])
       @ (case pp_timestamps p of
            Some t \<Rightarrow> [if pp_replace_timestamps p then SetTimestamps (timestamps_in (Some t)) else MergeTimestamps (timestamps_in (Some t))]
          | None \<Rightarrow> [])
       @ (if pp_metadata p \<noteq> [] then [MergeMetadata (pp_metadata p)] else [])
       @ [Touch now]))"

definition op_in :: "(string \<Rightarrow> memory_id) \<Rightarrow> (f32 \<Rightarrow> weight) \<Rightarrow> millis \<Rightarrow> pb_op \<Rightarrow> status + op" where
  "op_in from_key to_half now ob = (case ob of
     None \<Rightarrow> Inl (InvalidArgument ''op has no kind set'')
   | Some (KUpsert m) \<Rightarrow> res_bind (memory_in from_key to_half now m) (\<lambda>m. Inr (Upsert m))
   | Some (KTombstone i) \<Rightarrow> res_bind (id_exact i) (\<lambda>i. Inr (Tombstone i))
   | Some (KPatch p) \<Rightarrow> res_bind (id_exact (pp_id p)) (\<lambda>i. res_bind (patch_deltas now p) (\<lambda>ds. Inr (Patch i ds)))
   | Some (KTombstoneWhere p) \<Rightarrow> res_bind (predicate_in p) (\<lambda>p. Inr (TombstoneWhere p))
   | Some (KGuardExpectSeqLt s) \<Rightarrow> Inr (Guard s))"

subsection \<open>Filters and depths of a read\<close>

text \<open>The flat filter: no tags mean no filter, whatever the mode.\<close>
definition tag_filter_in :: "pb_tag_filter option \<Rightarrow> tag_filter" where
  "tag_filter_in f = (case f of None \<Rightarrow> tag_filter_none
     | Some f \<Rightarrow> if ptf_tags f = [] then tag_filter_none else tag_filter_new (ptf_tags f) (tags_match_from_pb (ptf_mode f)))"

definition tag_filter_leaf :: "pb_tag_filter \<Rightarrow> tag_filter" where
  "tag_filter_leaf f = tag_filter_new (ptf_tags f) (tags_match_from_pb (ptf_mode f))"

fun tag_predicate_in :: "pb_tag_predicate \<Rightarrow> status + tag_predicate"
  and tag_predicates_in :: "pb_tag_predicate list \<Rightarrow> status + tag_predicate list" where
  "tag_predicate_in (PbPredicate None) = Inl (InvalidArgument ''tag predicate has no node set'')"
| "tag_predicate_in (PbPredicate (Some (PbLeaf f))) = Inr (PLeaf (tag_filter_leaf f))"
| "tag_predicate_in (PbPredicate (Some (PbAll ps))) = res_bind (tag_predicates_in ps) (\<lambda>cs. Inr (PAll cs))"
| "tag_predicate_in (PbPredicate (Some (PbAny ps))) = res_bind (tag_predicates_in ps) (\<lambda>cs. Inr (PAny cs))"
| "tag_predicate_in (PbPredicate (Some (PbNegate p))) = res_bind (tag_predicate_in p) (\<lambda>c. Inr (PNot c))"
| "tag_predicates_in [] = Inr []"
| "tag_predicates_in (p # ps) = res_bind (tag_predicate_in p) (\<lambda>c. res_bind (tag_predicates_in ps) (\<lambda>cs. Inr (c # cs)))"

definition DEFAULT_ARM_DEPTH :: nat where "DEFAULT_ARM_DEPTH = 100"
definition NPROBE_FROM_INDEX :: nat where "NPROBE_FROM_INDEX = 0"

definition arm_depth :: "u32 \<Rightarrow> nat" where
  "arm_depth v = (if v = 0 then DEFAULT_ARM_DEPTH else unat v)"

definition arm_depths_in :: "('d build_env) \<Rightarrow> u32 \<Rightarrow> u32 \<Rightarrow> u32 \<Rightarrow> u32 \<Rightarrow> f32 option \<Rightarrow> arm_depths" where
  "arm_depths_in env vector_top_k text_top_k graph_top_k nprobe seed_min =
     \<lparr>ad_vector = arm_depth vector_top_k, ad_text = arm_depth text_top_k, ad_graph = arm_depth graph_top_k,
      ad_nprobe = (if nprobe = 0 then NPROBE_FROM_INDEX else unat nprobe),
      ad_graph_seed_min = (case seed_min of Some x \<Rightarrow> x | None \<Rightarrow> lit (be_arith env) DEFAULT_GRAPH_SEED_MIN_SIMILARITY),
      ad_exact_rerank = True\<rparr>"

subsection \<open>Messages of the read path\<close>

record pb_payload =
  py_text :: string
  py_tags :: "string list"
  py_proof_count :: u32
  py_entity_ids :: "bytes list"
  py_timestamps :: "pb_timestamps option"
  py_causal_out :: "pb_causal_edge list"
  py_metadata :: "(string \<times> string) list"
  py_semantic_out :: "pb_semantic_edge list"

record pb_stored_record =
  sr_id :: bytes
  sr_memory_type :: u32
  sr_memory :: "pb_payload option"
  sr_vector :: "pb_vector option"

record pb_arm_score =
  pa_present :: bool
  pa_rank :: nat
  pa_score :: f32

record pb_hit =
  ph_id :: bytes
  ph_memory_type :: u32
  ph_dense :: pb_arm_score
  ph_text :: pb_arm_score
  ph_graph :: pb_arm_score
  ph_temporal :: pb_arm_score
  ph_memory :: "pb_payload option"

definition payload_with_edges :: "(weight \<Rightarrow> f32) \<Rightarrow> stored_memory \<Rightarrow> bool \<Rightarrow> pb_payload" where
  "payload_with_edges of_half m include_edges =
     \<lparr>py_text = sm_text m, py_tags = sm_tags m, py_proof_count = sm_proof_count m, py_entity_ids = entity_ids_out (sm_entity_ids m),
      py_timestamps = Some (timestamps_out (sm_timestamps m)), py_causal_out = map (causal_edge_out of_half) (sm_causal_out m),
      py_metadata = sm_metadata m,
      py_semantic_out = (if include_edges then map (semantic_edge_out of_half) (sm_semantic_out m) else [])\<rparr>"

definition payload_out :: "(weight \<Rightarrow> f32) \<Rightarrow> stored_memory \<Rightarrow> pb_payload" where
  "payload_out of_half m = payload_with_edges of_half m False"

definition stored_record_with_edges :: "(weight \<Rightarrow> f32) \<Rightarrow> stored_memory \<Rightarrow> bool \<Rightarrow> bool \<Rightarrow> pb_stored_record" where
  "stored_record_with_edges of_half m include_vector include_edges =
     \<lparr>sr_id = mid_bytes (sm_id m), sr_memory_type = ucast (sm_memory_type m),
      sr_memory = Some (payload_with_edges of_half m include_edges),
      sr_vector = (if include_vector then Some (encode_vector (sm_vector m)) else None)\<rparr>"

definition stored_record :: "(weight \<Rightarrow> f32) \<Rightarrow> stored_memory \<Rightarrow> bool \<Rightarrow> pb_stored_record" where
  "stored_record of_half m include_vector = stored_record_with_edges of_half m include_vector False"

definition arm_score_out :: "f32 arm_score option \<Rightarrow> pb_arm_score" where
  "arm_score_out a = (case a of Some s \<Rightarrow> \<lparr>pa_present = True, pa_rank = as_rank s, pa_score = as_score s\<rparr>
     | None \<Rightarrow> \<lparr>pa_present = False, pa_rank = 0, pa_score = 0\<rparr>)"

definition raw_hit_out :: "(weight \<Rightarrow> f32) \<Rightarrow> u8 \<Rightarrow> f32 raw_hit \<Rightarrow> pb_hit" where
  "raw_hit_out of_half t h =
     \<lparr>ph_id = mid_bytes (rh_id h), ph_memory_type = ucast t, ph_dense = arm_score_out (rh_dense h), ph_text = arm_score_out (rh_text h),
      ph_graph = arm_score_out (rh_graph h), ph_temporal = arm_score_out (rh_temporal h),
      ph_memory = map_option (payload_out of_half) (rh_memory h)\<rparr>"

subsection \<open>The log view\<close>

record pb_op_counts =
  oc_upserts :: nat
  oc_tombstones :: nat
  oc_patches :: nat
  oc_guards :: nat
  oc_predicate_tombstones :: nat

record pb_wal_upsert =
  wu_id :: bytes
  wu_memory_type :: u32
  wu_text :: string
  wu_tags :: "string list"
  wu_vector_dim :: nat

datatype pb_wal_op =
    WUpsert pb_wal_upsert
  | WTombstone bytes
  | WPatch pb_patch
  | WGuardExpectSeqLt nat
  | WTombstoneWhere string

record pb_wal_entry =
  wi_seq :: nat
  wi_size_bytes :: nat
  wi_counts :: "pb_op_counts option"
  wi_folded :: bool
  wi_ops :: "pb_wal_op list"

definition no_counts :: pb_op_counts where
  "no_counts = \<lparr>oc_upserts = 0, oc_tombstones = 0, oc_patches = 0, oc_guards = 0, oc_predicate_tombstones = 0\<rparr>"

definition empty_patch :: "bytes \<Rightarrow> pb_patch" where
  "empty_patch i = \<lparr>pp_id = i, pp_proof_count_delta = 0, pp_text = None, pp_vector = None, pp_tags = None, pp_timestamps = None,
     pp_replace_timestamps = False, pp_metadata = []\<rparr>"

text \<open>Addition of two \<open>i32\<close>.\<close>
definition add_i32 :: "int \<Rightarrow> int \<Rightarrow> int" where
  "add_i32 a b = sint (word_of_int (a + b) :: 32 word)"

fun show_delta :: "delta \<Rightarrow> pb_patch \<Rightarrow> pb_patch" where
  "show_delta (ProofCount n) p = p\<lparr>pp_proof_count_delta := add_i32 (pp_proof_count_delta p) n\<rparr>"
| "show_delta (SetText t) p = p\<lparr>pp_text := Some t\<rparr>"
| "show_delta (SetVector v) p = p\<lparr>pp_vector := Some (encode_vector v)\<rparr>"
| "show_delta (SetTags tags) p = p\<lparr>pp_tags := Some tags\<rparr>"
| "show_delta (SetTimestamps t) p = p\<lparr>pp_timestamps := Some (timestamps_out t), pp_replace_timestamps := True\<rparr>"
| "show_delta (MergeTimestamps t) p = p\<lparr>pp_timestamps := Some (timestamps_out t)\<rparr>"
| "show_delta (MergeMetadata kv) p = p\<lparr>pp_metadata := fold (\<lambda>(k, v). AList.update k v) kv (pp_metadata p)\<rparr>"
| "show_delta (Touch ts) p = p\<lparr>pp_timestamps := Some ((case pp_timestamps p of Some t \<Rightarrow> t | None \<Rightarrow> timestamps_out no_timestamps)
     \<lparr>pt_updated_at := Some ts\<rparr>)\<rparr>"
| "show_delta (SetEntityIds _) p = p"

definition patch_detail :: "memory_id \<Rightarrow> delta list \<Rightarrow> pb_patch" where
  "patch_detail i deltas = fold show_delta deltas (empty_patch (mid_bytes i))"

fun join :: "string \<Rightarrow> string list \<Rightarrow> string" where
  "join sep [] = []"
| "join sep [x] = x"
| "join sep (x # y # ys) = x @ sep @ join sep (y # ys)"

definition mode_name :: "u8 \<Rightarrow> string" where
  "mode_name n = (if n = 1 then ''ALL'' else if n = 2 then ''ANY_STRICT'' else if n = 3 then ''ALL_STRICT'' else if n = 4 then ''EXACT'' else ''ANY'')"

definition predicate_summary :: "predicate \<Rightarrow> string" where
  "predicate_summary p = (if predicate_is_empty p then ''everything (unconstrained predicate)''
     else join '' '' ((if p_memory_types p = [] then [] else [''type='' @ join '','' (map (\<lambda>t. show_nat (unat t)) (p_memory_types p))])
       @ map (\<lambda>(k, v). ''meta['' @ k @ ''='' @ v @ '']'') (p_metadata_equals p)
       @ (if p_tags p = [] then [] else [''tags:'' @ mode_name (p_tags_mode p) @ ''['' @ join '','' (p_tags p) @ '']''])))"

fun count_op :: "op \<Rightarrow> pb_op_counts \<Rightarrow> pb_op_counts" where
  "count_op (Upsert _) c = c\<lparr>oc_upserts := oc_upserts c + 1\<rparr>"
| "count_op (Tombstone _) c = c\<lparr>oc_tombstones := oc_tombstones c + 1\<rparr>"
| "count_op (Patch _ _) c = c\<lparr>oc_patches := oc_patches c + 1\<rparr>"
| "count_op (Guard _) c = c\<lparr>oc_guards := oc_guards c + 1\<rparr>"
| "count_op (TombstoneWhere _) c = c\<lparr>oc_predicate_tombstones := oc_predicate_tombstones c + 1\<rparr>"

fun wal_op_out :: "op \<Rightarrow> pb_wal_op" where
  "wal_op_out (Upsert m) = WUpsert \<lparr>wu_id = mid_bytes (m_id m), wu_memory_type = ucast (m_memory_type m), wu_text = m_text m,
     wu_tags = m_tags m, wu_vector_dim = length (m_vector m)\<rparr>"
| "wal_op_out (Tombstone i) = WTombstone (mid_bytes i)"
| "wal_op_out (Patch i ds) = WPatch (patch_detail i ds)"
| "wal_op_out (Guard s) = WGuardExpectSeqLt s"
| "wal_op_out (TombstoneWhere p) = WTombstoneWhere (predicate_summary p)"

text \<open>Without a decoded entry the counts are absent, not zero.\<close>
definition wal_entry_out :: "wal_object \<Rightarrow> nat \<Rightarrow> wal_entry option \<Rightarrow> pb_wal_entry" where
  "wal_entry_out ob cursor decoded = (let row = \<lparr>wi_seq = wo_seq ob, wi_size_bytes = wo_size_bytes ob, wi_counts = None,
       wi_folded = wo_seq ob \<le> cursor, wi_ops = []\<rparr> in
     case decoded of None \<Rightarrow> row
     | Some e \<Rightarrow> row\<lparr>wi_counts := Some (fold count_op (we_ops e) no_counts), wi_ops := map wal_op_out (we_ops e)\<rparr>)"

subsection \<open>Layout and cache views\<close>

record pb_cluster_info =
  ci_cluster_id :: nat
  ci_centroid :: pb_vector
  ci_size :: nat
  ci_tags :: "string list"
  ci_has_untagged :: bool

record pb_cluster_member =
  cm_id :: bytes
  cm_cluster_id :: nat
  cm_vector :: pb_vector
  cm_text :: string

record pb_cache_entry =
  pe_namespace :: string
  pe_path :: string
  pe_etag :: string
  pe_bytes :: nat
  pe_in_memory :: bool
  pe_on_disk :: bool
  pe_lru_rank :: nat

definition cluster_infos :: "cluster_layout \<Rightarrow> pb_cluster_info list" where
  "cluster_infos l = map (\<lambda>(i, c). let summary = (if i < length (cl_tag_summary l) then Some (cl_tag_summary l ! i) else None) in
     \<lparr>ci_cluster_id = i, ci_centroid = encode_vector c, ci_size = (if i < length (cl_sizes l) then cl_sizes l ! i else 0),
      ci_tags = (case summary of Some s \<Rightarrow> ct_tags s | None \<Rightarrow> []),
      ci_has_untagged = (case summary of Some s \<Rightarrow> ct_has_untagged s | None \<Rightarrow> False)\<rparr>) (enumerate 0 (cl_centroids l))"

definition cluster_member_out :: "nat \<times> stored_memory \<Rightarrow> pb_cluster_member" where
  "cluster_member_out x = (case x of (c, m) \<Rightarrow>
     \<lparr>cm_id = mid_bytes (sm_id m), cm_cluster_id = c, cm_vector = encode_vector (sm_vector m), cm_text = sm_text m\<rparr>)"

definition cache_entry_out :: "nat \<times> cache_entry \<Rightarrow> pb_cache_entry" where
  "cache_entry_out x = (case x of (rank, e) \<Rightarrow>
     \<lparr>pe_namespace = ce_namespace e, pe_path = ce_path e, pe_etag = ce_etag e, pe_bytes = ce_bytes e, pe_in_memory = ce_in_memory e,
      pe_on_disk = ce_on_disk e, pe_lru_rank = rank\<rparr>)"

section \<open>What the conversions mean\<close>

lemma res_bind_Inr [simp]: "res_bind r f = Inr y \<longleftrightarrow> (\<exists>x. r = Inr x \<and> f x = Inr y)"
  by (cases r) auto

lemma res_bind_Inl: "res_bind r f = Inl e \<longleftrightarrow> r = Inl e \<or> (\<exists>x. r = Inr x \<and> f x = Inl e)"
  by (cases r) auto

lemma res_collect_Inr: "res_collect f xs = Inr ys \<longleftrightarrow> list_all2 (\<lambda>x y. f x = Inr y) xs ys"
  by (induction xs arbitrary: ys) (auto simp: list_all2_Cons1)

lemma res_collect_map: "res_collect f xs = Inr ys \<Longrightarrow> (\<And>x y. f x = Inr y \<Longrightarrow> g y = h x) \<Longrightarrow> map g ys = map h xs"
  by (induction xs arbitrary: ys) auto

subsection \<open>Compound tag predicates\<close>

text \<open>The protocol's own reading of the five modes and of the three connectives.\<close>
definition wire_leaf :: "pb_tag_filter \<Rightarrow> string set \<Rightarrow> bool" where
  "wire_leaf f tags = (let req = set (ptf_tags f) in case tags_match_from_pb (ptf_mode f) of
     Any \<Rightarrow> tags = {} \<or> req \<inter> tags \<noteq> {}
   | All \<Rightarrow> tags = {} \<or> req \<subseteq> tags
   | AnyStrict \<Rightarrow> req \<inter> tags \<noteq> {}
   | AllStrict \<Rightarrow> tags \<noteq> {} \<and> req \<subseteq> tags
   | Exact \<Rightarrow> tags = req)"

fun wire_matches :: "pb_tag_predicate \<Rightarrow> string set \<Rightarrow> bool" where
  "wire_matches (PbPredicate None) tags = False"
| "wire_matches (PbPredicate (Some (PbLeaf f))) tags = wire_leaf f tags"
| "wire_matches (PbPredicate (Some (PbAll ps))) tags = (\<forall>p \<in> set ps. wire_matches p tags)"
| "wire_matches (PbPredicate (Some (PbAny ps))) tags = (\<exists>p \<in> set ps. wire_matches p tags)"
| "wire_matches (PbPredicate (Some (PbNegate p))) tags = (\<not> wire_matches p tags)"

lemma leaf_matches_wire: "leaf_matches (tag_filter_leaf f) tags = wire_leaf f (set tags)"
  by (auto simp: leaf_matches_def wire_leaf_def tag_filter_leaf_def tag_filter_new_def overlaps_def contains_all_def set_eq_def Let_def
      list_ex_iff list_all_iff sort_dedup_def sorted_list_of_set_inject split: tags_match.split)

lemma tag_predicate_in_matches:
  "tag_predicate_in p = Inr c \<Longrightarrow> tag_predicate_matches c tags = wire_matches p (set tags)"
  "tag_predicates_in ps = Inr cs \<Longrightarrow> list_all2 (\<lambda>p c. tag_predicate_matches c tags = wire_matches p (set tags)) ps cs"
proof (induction p and ps arbitrary: c and cs rule: tag_predicate_in_tag_predicates_in.induct)
  case (2 f)
  then show ?case by (auto simp: leaf_matches_wire)
next
  case (3 ps)
  then obtain cs where cs: "c = PAll cs" "tag_predicates_in ps = Inr cs" by auto
  show ?case using "3.IH"[OF cs(2)] by (auto simp: cs(1) list_all2_conv_all_nth all_set_conv_all_nth)
next
  case (4 ps)
  then obtain cs where cs: "c = PAny cs" "tag_predicates_in ps = Inr cs" by auto
  show ?case using "4.IH"[OF cs(2)] by (fastforce simp: cs(1) list_all2_conv_all_nth in_set_conv_nth)
qed auto


subsection \<open>An upsert read back\<close>

lemma decode_encode_vector: "decode_vector (encode_vector v) = Inr v"
  using floats.decode_concat[of v] floats.length_concat_enc[of v] by (simp add: decode_vector_def encode_vector_def list_all_iff)

lemma concat_whole_chunks: "0 < n \<Longrightarrow> length xs mod n = 0 \<Longrightarrow> concat (chunks_exact n xs) = xs"
proof (induction n xs rule: chunks_exact.induct)
  case (1 n xs)
  show ?case
  proof (cases "length xs < n")
    case True
    then show ?thesis using "1.prems" by (subst chunks_exact.simps) simp
  next
    case False
    then have "length (drop n xs) mod n = 0" using "1.prems" by (simp add: le_mod_geq)
    then show ?thesis using "1.IH"[OF _ "1.prems"(1)] False "1.prems"(1) by (subst chunks_exact.simps) simp
  qed
qed

lemma chunks_exact_length: "c \<in> set (chunks_exact n xs) \<Longrightarrow> length c = n"
proof (induction n xs rule: chunks_exact.induct)
  case (1 n xs)
  then show ?case using chunks_exact.simps[of n xs] by (auto split: if_splits)
qed

lemma le_word_word_le32: "length bs = 4 \<Longrightarrow> le_word 4 (word_le bs :: f32) = bs"
  using to_le_from_le[of bs] from_le_bound[of bs] by (simp add: le_word_def word_le_def unat_of_nat)

lemma encode_decode_vector:
  assumes "decode_vector v = Inr xs" shows "encode_vector xs = v"
proof -
  have v: "length (pv_f32le v) mod 4 = 0" "xs = map word_le (chunks_exact 4 (pv_f32le v))"
    using assms by (auto simp: decode_vector_def split: if_splits)
  have "map (le_word 4 \<circ> (word_le :: bytes \<Rightarrow> f32)) (chunks_exact 4 (pv_f32le v)) = chunks_exact 4 (pv_f32le v)"
    by (rule map_idI) (auto dest: chunks_exact_length simp: le_word_word_le32)
  then show ?thesis using concat_whole_chunks[of 4 "pv_f32le v"] v by (cases v) (simp add: encode_vector_def)
qed

lemma sort_dedup_map:
  assumes "\<And>x y. (f x < f y) = (x < y)" shows "map f (sort_dedup xs) = sort_dedup (map f xs)"
proof (rule strict_sorted_equal)
  show "sorted_wrt (<) (map f (sort_dedup xs))" using strict_sorted_sort_dedup[of xs] by (simp add: sorted_wrt_map assms)
qed (simp_all add: strict_sorted_sort_dedup)

lemma entity_ids_roundtrip:
  assumes "entity_ids_in raw = Inr es" shows "entity_ids_out (sort_dedup es) = sort_dedup raw"
proof -
  have "es = map EntityId raw" using assms by (induction raw arbitrary: es) (auto simp: entity_ids_in_def split: if_splits)
  then show ?thesis unfolding entity_ids_out_def by (subst sort_dedup_map) (simp_all add: less_entity_id_def comp_def)
qed

lemma id_from_bytes:
  "id_from from_key bs key = Inr i \<Longrightarrow> mid_bytes i = (if bs = [] then mid_bytes (from_key key) else bs)"
  by (auto simp: id_from_def id_exact_def split: if_splits)

lemma causal_edges_roundtrip:
  "res_collect (causal_edge_in to_half) es = Inr cs \<Longrightarrow> map (causal_edge_out of_half) cs
     = map (\<lambda>e. e\<lparr>pc_link_type := link_type_to_pb (link_type_from_pb (pc_link_type e)), pc_weight := of_half (to_half (pc_weight e))\<rparr>) es"
  by (rule res_collect_map) (auto simp: causal_edge_in_def causal_edge_out_def id_exact_def split: if_splits)

lemma ucast_ucast_small: "unat (w :: u32) < 256 \<Longrightarrow> ucast (ucast w :: u8) = w"
  using word_eq_iff_unsigned[where 'a = nat, of "take_bit 8 w" w] by (simp add: unsigned_take_bit_eq take_bit_nat_eq_self unsigned_ucast_eq)

lemma link_type_roundtrip [simp]: "link_type_from_pb (link_type_to_pb l) = l"
  by (cases l) (simp_all add: link_type_from_pb_def)

text \<open>What a client reads back for an accepted upsert \<open>m\<close> taken at time \<open>now\<close>.\<close>
definition read_back :: "(string \<Rightarrow> memory_id) \<Rightarrow> (f32 \<Rightarrow> weight) \<Rightarrow> (weight \<Rightarrow> f32) \<Rightarrow> millis \<Rightarrow> pb_memory \<Rightarrow> pb_stored_record" where
  "read_back from_key to_half of_half now m = \<lparr>
     sr_id = (if pm_id m = [] then mid_bytes (from_key (pm_key m)) else pm_id m),
     sr_memory_type = pm_memory_type m,
     sr_memory = Some \<lparr>py_text = pm_text m, py_tags = pm_tags m, py_proof_count = pm_proof_count m,
       py_entity_ids = sort_dedup (pm_entity_ids m),
       py_timestamps = Some (let t = (case pm_timestamps m of None \<Rightarrow> timestamps_out no_timestamps | Some t \<Rightarrow> t)
         in t\<lparr>pt_updated_at := Some (case pt_updated_at t of None \<Rightarrow> now | Some u \<Rightarrow> u)\<rparr>),
       py_causal_out = map (\<lambda>e. e\<lparr>pc_link_type := link_type_to_pb (link_type_from_pb (pc_link_type e)),
         pc_weight := of_half (to_half (pc_weight e))\<rparr>) (pm_causal_out m),
       py_metadata = sort_key fst (pm_metadata m), py_semantic_out = []\<rparr>,
     sr_vector = Some (case pm_vector m of None \<Rightarrow> \<lparr>pv_f32le = []\<rparr> | Some v \<Rightarrow> v)\<rparr>"

lemma timestamps_roundtrip: "timestamps_out (stamped now (timestamps_in t))
    = (let t = (case t of None \<Rightarrow> timestamps_out no_timestamps | Some t \<Rightarrow> t) in t\<lparr>pt_updated_at := Some (case pt_updated_at t of None \<Rightarrow> now | Some u \<Rightarrow> u)\<rparr>)"
  by (cases t) (auto simp: stamped_def timestamps_in_def timestamps_out_def no_timestamps_def split: option.split)


definition sample_upsert :: pb_memory where
  "sample_upsert = \<lparr>pm_id = replicate 16 7, pm_key = [], pm_vector = Some \<lparr>pv_f32le = [0, 0, 128, 63]\<rparr>, pm_text = ''hi'', pm_memory_type = 2,
     pm_index_text = [], pm_tags = [''a''], pm_proof_count = 1, pm_entity_ids = [replicate 16 9, replicate 16 8], pm_timestamps = None,
     pm_causal_out = [\<lparr>pc_target = replicate 16 1, pc_link_type = 7, pc_weight = 0\<rparr>], pm_metadata = [(''k'', ''v'')]\<rparr>"


end
