(* ===== verification/Resident.thy ===== *)
theory Resident
  imports Prelude "HOL-Library.AList"
begin

text \<open>
  The map of resident values of a server process (\<open>ResidentMap\<close> in \<open>mlake-server/src/service.rs\<close>): snapshots bounded by bytes and
  writers bounded by their number, both evicting the least recently used entry.  The hash map is an association list with
  distinct keys; its order is never observed because no two entries carry the same tick.
\<close>

section \<open>Definitions\<close>

record 'v resident_entry =
  re_value :: 'v
  re_last_used :: nat
  re_bytes :: nat

record 'v resident_map =
  rm_entries :: "(string \<times> 'v resident_entry) list"
  rm_budget :: nat
  rm_bytes :: nat
  rm_clock :: nat

definition rm_new :: "nat \<Rightarrow> 'v resident_map" where
  "rm_new budget = \<lparr>rm_entries = [], rm_budget = budget, rm_bytes = 0, rm_clock = 0\<rparr>"

definition rm_get :: "string \<Rightarrow> 'v resident_map \<Rightarrow> 'v option \<times> 'v resident_map" where
  "rm_get name m = (let now = rm_clock m + 1; m = m\<lparr>rm_clock := now\<rparr> in
     case map_of (rm_entries m) name of None \<Rightarrow> (None, m)
     | Some e \<Rightarrow> (Some (re_value e), m\<lparr>rm_entries := AList.update name (e\<lparr>re_last_used := now\<rparr>) (rm_entries m)\<rparr>))"

definition rm_remove :: "string \<Rightarrow> 'v resident_map \<Rightarrow> 'v resident_map" where
  "rm_remove name m = (case map_of (rm_entries m) name of None \<Rightarrow> m
     | Some e \<Rightarrow> m\<lparr>rm_entries := AList.delete name (rm_entries m), rm_bytes := rm_bytes m - re_bytes e\<rparr>)"

text \<open>\<open>min_by_key\<close>: the first of the least.\<close>
fun min_by_key :: "('a \<Rightarrow> nat) \<Rightarrow> 'a list \<Rightarrow> 'a option" where
  "min_by_key key [] = None"
| "min_by_key key (x # xs) = (case min_by_key key xs of None \<Rightarrow> Some x | Some y \<Rightarrow> if key x \<le> key y then Some x else Some y)"

definition rm_victim :: "string \<Rightarrow> 'v resident_map \<Rightarrow> string option" where
  "rm_victim name m = map_option fst (min_by_key (\<lambda>(_, e). re_last_used e) (filter (\<lambda>(n, _). n \<noteq> name) (rm_entries m)))"

lemma min_by_key_None: "min_by_key key xs = None \<longleftrightarrow> xs = []"
  by (cases xs) (auto split: option.splits)

lemma min_by_key_Some: "min_by_key key xs = Some y \<Longrightarrow> y \<in> set xs \<and> (\<forall>x \<in> set xs. key y \<le> key x)"
proof (induction xs arbitrary: y)
  case (Cons x xs)
  show ?case
  proof (cases "min_by_key key xs")
    case None
    then show ?thesis using Cons.prems by (simp add: min_by_key_None)
  next
    case (Some z)
    then show ?thesis using Cons.prems Cons.IH[OF Some] by (auto split: if_splits)
  qed
qed simp

lemma rm_victim_Some: "rm_victim name m = Some v \<Longrightarrow> v \<noteq> name \<and> v \<in> fst ` set (rm_entries m)"
  by (force simp: rm_victim_def dest!: min_by_key_Some)

lemma length_delete: "k \<in> fst ` set al \<Longrightarrow> length (AList.delete k al) < length al"
  by (auto simp: AList.delete_eq intro!: length_filter_less)

function rm_evict :: "string \<Rightarrow> 'v resident_map \<Rightarrow> 'v resident_map" where
  "rm_evict name m = (if rm_budget m < rm_bytes m \<and> 1 < length (rm_entries m)
     then case rm_victim name m of Some v \<Rightarrow> rm_evict name (rm_remove v m) | None \<Rightarrow> m
     else m)"
  by pat_completeness auto
termination
proof (relation "measure (\<lambda>(_, m). length (rm_entries m))")
  fix name :: string and m :: "'v resident_map" and v
  assume "rm_victim name m = Some v"
  then have "v \<in> fst ` set (rm_entries m)" by (auto dest: rm_victim_Some)
  then show "((name, rm_remove v m), name, m) \<in> measure (\<lambda>(_, m). length (rm_entries m))"
    by (auto simp: rm_remove_def length_delete map_of_eq_None_iff image_iff split: option.split)
qed simp

declare rm_evict.simps [simp del]

definition rm_insert :: "string \<Rightarrow> 'v \<Rightarrow> nat \<Rightarrow> 'v resident_map \<Rightarrow> 'v resident_map" where
  "rm_insert name v n m = (let m = rm_remove name (m\<lparr>rm_clock := rm_clock m + 1\<rparr>) in
     rm_evict name (m\<lparr>rm_entries := AList.update name \<lparr>re_value = v, re_last_used = rm_clock m, re_bytes = n\<rparr> (rm_entries m),
       rm_bytes := rm_bytes m + n\<rparr>))"

section \<open>Invariant\<close>

definition rm_ok :: "'v resident_map \<Rightarrow> bool" where
  "rm_ok m \<longleftrightarrow> distinct (map fst (rm_entries m)) \<and> rm_bytes m = sum_list (map (\<lambda>(_, e). re_bytes e) (rm_entries m)) \<and>
     (\<forall>(_, e) \<in> set (rm_entries m). re_last_used e \<le> rm_clock m) \<and> distinct (map (\<lambda>(_, e). re_last_used e) (rm_entries m))"

lemma rm_ok_new: "rm_ok (rm_new b)"
  by (simp add: rm_ok_def rm_new_def)

lemma delete_split:
  assumes "distinct (map fst al)" "map_of al k = Some e"
  obtains xs ys where "al = xs @ (k, e) # ys" "AList.delete k al = xs @ ys" "k \<notin> fst ` set xs" "k \<notin> fst ` set ys"
proof -
  obtain xs ys where al: "al = xs @ (k, e) # ys" using split_list[OF map_of_SomeD[OF assms(2)]] by blast
  then have "k \<notin> fst ` set xs" "k \<notin> fst ` set ys" using assms(1) by auto
  moreover have "filter (\<lambda>(k', _). k \<noteq> k') zs = zs" if "k \<notin> fst ` set zs" for zs :: "('a \<times> 'b) list"
    by (rule filter_True) (use that in \<open>auto simp: image_iff\<close>)
  ultimately show thesis using that[OF al] by (simp add: al AList.delete_eq)
qed

lemma rm_ok_remove:
  assumes "rm_ok m" shows "rm_ok (rm_remove name m)"
proof (cases "map_of (rm_entries m) name")
  case (Some e)
  have d: "distinct (map fst (rm_entries m))" using assms by (simp add: rm_ok_def)
  obtain xs ys where al: "rm_entries m = xs @ (name, e) # ys" and del: "AList.delete name (rm_entries m) = xs @ ys"
    by (rule delete_split[OF d Some])
  have eqs: "rm_entries (rm_remove name m) = xs @ ys" "rm_bytes (rm_remove name m) = rm_bytes m - re_bytes e" "rm_clock (rm_remove name m) = rm_clock m"
    unfolding rm_remove_def Some by (simp_all add: del)
  show ?thesis using assms unfolding rm_ok_def eqs al by simp
qed (use assms in \<open>simp add: rm_remove_def\<close>)

lemma map_of_remove: "map_of (rm_entries (rm_remove name m)) = (map_of (rm_entries m))(name := None)"
  by (auto simp: rm_remove_def delete_conv' fun_upd_idem split: option.split)

section \<open>Eviction\<close>

text \<open>The entries an eviction towards \<open>name\<close> still holds when everything older than \<open>t\<close> is gone, and their size.\<close>
definition recent :: "string \<Rightarrow> nat \<Rightarrow> 'v resident_map \<Rightarrow> (string \<times> 'v resident_entry) list" where
  "recent name t m = filter (\<lambda>(n, e). n = name \<or> t \<le> re_last_used e) (rm_entries m)"

abbreviation weight_of :: "(string \<times> 'v resident_entry) list \<Rightarrow> nat" where
  "weight_of es \<equiv> sum_list (map (\<lambda>(_, e). re_bytes e) es)"

lemma recent_all: "recent name 0 m = rm_entries m"
  by (simp add: recent_def case_prod_unfold)

lemma remove_victim:
  assumes ok: "rm_ok m" and v: "rm_victim name m = Some v"
  obtains e where "(v, e) \<in> set (rm_entries m)" "v \<noteq> name" "rm_entries (rm_remove v m) = recent name (Suc (re_last_used e)) m"
    "\<And>n e'. (n, e') \<in> set (rm_entries m) \<Longrightarrow> n \<noteq> name \<Longrightarrow> re_last_used e \<le> re_last_used e'"
proof -
  obtain e where e: "min_by_key (\<lambda>(_, e). re_last_used e) (filter (\<lambda>(n, _). n \<noteq> name) (rm_entries m)) = Some (v, e)"
    using v by (auto simp: rm_victim_def)
  have mem: "(v, e) \<in> set (rm_entries m)" "v \<noteq> name"
    and least: "\<And>n e'. (n, e') \<in> set (rm_entries m) \<Longrightarrow> n \<noteq> name \<Longrightarrow> re_last_used e \<le> re_last_used e'"
    using min_by_key_Some[OF e] by auto
  have d: "distinct (map fst (rm_entries m))" "distinct (map (\<lambda>(_, e). re_last_used e) (rm_entries m))" using ok by (auto simp: rm_ok_def)
  have mo: "map_of (rm_entries m) v = Some e" using mem(1) d(1) by simp
  have same: "n = v" if "(n, e') \<in> set (rm_entries m)" "re_last_used e' = re_last_used e" for n e'
    using that mem(1) d(2) by (auto simp: distinct_map inj_on_def)
  have "filter (\<lambda>(n, _). v \<noteq> n) (rm_entries m) = filter (\<lambda>(n, e'). n = name \<or> Suc (re_last_used e) \<le> re_last_used e') (rm_entries m)"
  proof (rule filter_cong[OF refl])
    fix x assume x: "x \<in> set (rm_entries m)"
    obtain n e' where ne: "x = (n, e')" by fastforce
    have "(v \<noteq> n) = (n = name \<or> Suc (re_last_used e) \<le> re_last_used e')"
    proof (cases "n = v")
      case True
      then have "e' = e" using eq_key_imp_eq_value[OF d(1)] x ne mem(1) by blast
      then show ?thesis using True mem(2) by simp
    next
      case False
      then have "n \<noteq> name \<longrightarrow> re_last_used e < re_last_used e'" using same[of n e'] least[of n e'] x ne by (metis order_le_imp_less_or_eq)
      then show ?thesis using False by auto
    qed
    then show "(case x of (n, _) \<Rightarrow> v \<noteq> n) = (case x of (n, e') \<Rightarrow> n = name \<or> Suc (re_last_used e) \<le> re_last_used e')"
      by (simp add: ne)
  qed
  then have "rm_entries (rm_remove v m) = recent name (Suc (re_last_used e)) m"
    by (simp add: rm_remove_def mo recent_def AList.delete_eq)
  then show thesis using that mem least by blast
qed

lemma rm_remove_fields [simp]: "rm_budget (rm_remove n m) = rm_budget m" "rm_clock (rm_remove n m) = rm_clock m"
  by (auto simp: rm_remove_def split: option.split)

lemma rm_evict_recent:
  assumes "rm_ok m"
  shows "rm_ok (rm_evict name m) \<and> rm_budget (rm_evict name m) = rm_budget m \<and>
    (rm_bytes (rm_evict name m) \<le> rm_budget m \<or> fst ` set (rm_entries (rm_evict name m)) \<subseteq> {name} \<or> length (rm_entries (rm_evict name m)) \<le> 1) \<and>
    (\<exists>t. rm_entries (rm_evict name m) = recent name t m \<and>
      (\<forall>(n, e) \<in> set (rm_entries m). n \<noteq> name \<and> re_last_used e < t \<longrightarrow> rm_budget m < weight_of (recent name (re_last_used e) m)))"
  using assms
proof (induction name m rule: rm_evict.induct)
  case (1 name m)
  show ?case
  proof (cases "rm_budget m < rm_bytes m \<and> 1 < length (rm_entries m)")
    case False
    then have "rm_evict name m = m" by (subst rm_evict.simps) (simp only: if_False)
    then show ?thesis using False "1.prems" by (auto intro!: exI[of _ 0] simp: recent_all)
  next
    case True
    show ?thesis
    proof (cases "rm_victim name m")
      case None
      then have "rm_evict name m = m" "filter (\<lambda>(n, _). n \<noteq> name) (rm_entries m) = []"
        by (simp_all add: rm_evict.simps rm_victim_def min_by_key_None)
      then show ?thesis using "1.prems" by (auto intro!: exI[of _ 0] simp: recent_all filter_empty_conv)
    next
      case (Some v)
      obtain e where e: "(v, e) \<in> set (rm_entries m)" "v \<noteq> name" "rm_entries (rm_remove v m) = recent name (Suc (re_last_used e)) m"
        "\<And>n e'. (n, e') \<in> set (rm_entries m) \<Longrightarrow> n \<noteq> name \<Longrightarrow> re_last_used e \<le> re_last_used e'"
        using remove_victim[OF "1.prems" Some] by blast
      have step: "rm_evict name m = rm_evict name (rm_remove v m)" using True Some by (subst rm_evict.simps) simp
      from "1.IH"[OF True Some rm_ok_remove[OF "1.prems"]] obtain t where
        IH: "rm_ok (rm_evict name m)" "rm_budget (rm_evict name m) = rm_budget m"
          "rm_bytes (rm_evict name m) \<le> rm_budget m \<or> fst ` set (rm_entries (rm_evict name m)) \<subseteq> {name} \<or> length (rm_entries (rm_evict name m)) \<le> 1"
        and t: "rm_entries (rm_evict name m) = recent name t (rm_remove v m)"
          "\<forall>(n, e') \<in> set (rm_entries (rm_remove v m)). n \<noteq> name \<and> re_last_used e' < t \<longrightarrow>
            rm_budget m < weight_of (recent name (re_last_used e') (rm_remove v m))"
        unfolding step rm_remove_fields by blast
      have rec: "recent name t' (rm_remove v m) = recent name (max t' (Suc (re_last_used e))) m" for t'
        by (auto simp: recent_def e(3) intro!: filter_cong)
      have all: "rm_budget m < weight_of (recent name (re_last_used e) m)"
      proof -
        have "recent name (re_last_used e) m = rm_entries m"
          unfolding recent_def by (rule filter_True) (use e(4) in auto)
        then show ?thesis using True "1.prems" by (simp add: rm_ok_def)
      qed
      have min: "rm_budget m < weight_of (recent name (re_last_used e') m)"
        if n: "(n, e') \<in> set (rm_entries m)" "n \<noteq> name" "re_last_used e' < max t (Suc (re_last_used e))" for n e'
      proof (cases "re_last_used e' = re_last_used e")
        case True
        then show ?thesis using all by simp
      next
        case False
        then have lt: "re_last_used e < re_last_used e'" using e(4)[OF n(1,2)] by simp
        then have "(n, e') \<in> set (rm_entries (rm_remove v m))" using n(1) by (simp add: e(3) recent_def)
        moreover have "re_last_used e' < t" using n(3) lt by simp
        ultimately have "rm_budget m < weight_of (recent name (re_last_used e') (rm_remove v m))" using t(2) n(2) by blast
        then show ?thesis using lt by (simp add: rec max_absorb1)
      qed
      show ?thesis using IH t(1) min by (auto simp: rec)
    qed
  qed
qed

lemma update_absent: "k \<notin> fst ` set al \<Longrightarrow> AList.update k v al = al @ [(k, v)]"
  by (induction al) auto

lemma remove_entries: "distinct (map fst (rm_entries m)) \<Longrightarrow> rm_entries (rm_remove name m) = filter (\<lambda>(k, _). k \<noteq> name) (rm_entries m)"
  by (auto simp: rm_remove_def AList.delete_eq map_of_eq_None_iff image_iff eq_commute[of name] intro!: filter_True[symmetric] split: option.split)

lemma rm_ok_get: "rm_ok m \<Longrightarrow> rm_ok (snd (rm_get name m))"
proof (cases "map_of (rm_entries m) name")
  case (Some e)
  assume ok: "rm_ok m"
  then have d: "distinct (map fst (rm_entries m))" by (simp add: rm_ok_def)
  obtain xs ys where al: "rm_entries m = xs @ (name, e) # ys" and n: "name \<notin> fst ` set xs" "name \<notin> fst ` set ys"
    by (rule delete_split[OF d Some])
  have up: "AList.update name e' (xs @ (name, e) # ys) = xs @ (name, e') # ys" for e'
    using n(1) by (induction xs) auto
  have eqs: "rm_entries (snd (rm_get name m)) = xs @ (name, e\<lparr>re_last_used := rm_clock m + 1\<rparr>) # ys"
      "rm_bytes (snd (rm_get name m)) = rm_bytes m" "rm_clock (snd (rm_get name m)) = rm_clock m + 1"
    by (simp_all add: rm_get_def Some Let_def) (simp add: al up)
  have fresh: "rm_clock m + 1 \<notin> (\<lambda>(_, e). re_last_used e) ` set zs" if "set zs \<subseteq> set (rm_entries m)" for zs
    using ok that by (force simp: rm_ok_def)
  have le: "\<forall>(_, e) \<in> set zs. re_last_used e \<le> rm_clock m + 1" if "set zs \<subseteq> set (rm_entries m)" for zs
    using ok that by (force simp: rm_ok_def)
  have sub: "set xs \<subseteq> set (rm_entries m)" "set ys \<subseteq> set (rm_entries m)" by (auto simp: al)
  show ?thesis using ok fresh[OF sub(1)] fresh[OF sub(2)] le[OF sub(1)] le[OF sub(2)] unfolding rm_ok_def eqs al by auto
qed (auto simp: rm_ok_def rm_get_def Let_def)

text \<open>C35. Installing a value evicts by recency and no more than needed: the map keeps its accounting, holds the new value, and is
  within its budget unless the new value alone exceeds it; what is evicted is older than everything else that is kept, and no
  evicted entry could have stayed beside the new value and the entries used since.\<close>
theorem resident_map_lru:
  assumes ok: "rm_ok m"
  shows "let m' = rm_insert name v n m in
    rm_ok m' \<and> fst (rm_get name m') = Some v \<and> (rm_bytes m' \<le> rm_budget m \<or> map fst (rm_entries m') = [name]) \<and>
    (\<exists>t. rm_entries m' = filter (\<lambda>(k, e). k \<noteq> name \<and> t \<le> re_last_used e) (rm_entries m)
          @ [(name, \<lparr>re_value = v, re_last_used = rm_clock m + 1, re_bytes = n\<rparr>)] \<and>
      (\<forall>(k, e) \<in> set (rm_entries m). k \<noteq> name \<and> re_last_used e < t \<longrightarrow>
        rm_budget m < weight_of (filter (\<lambda>(k', e'). k' \<noteq> name \<and> re_last_used e \<le> re_last_used e') (rm_entries m)) + n))"
proof -
  define new where "new = (name, \<lparr>re_value = v, re_last_used = rm_clock m + 1, re_bytes = n\<rparr>)"
  define m1 where "m1 = rm_remove name (m\<lparr>rm_clock := rm_clock m + 1\<rparr>)"
  define m2 where "m2 = m1\<lparr>rm_entries := rm_entries m1 @ [new], rm_bytes := rm_bytes m1 + n\<rparr>"
  have "rm_ok (m\<lparr>rm_clock := rm_clock m + 1\<rparr>)" using ok by (auto simp: rm_ok_def)
  then have ok1: "rm_ok m1" unfolding m1_def by (rule rm_ok_remove)
  have e1: "rm_entries m1 = filter (\<lambda>(k, _). k \<noteq> name) (rm_entries m)" using ok by (simp add: m1_def remove_entries rm_ok_def)
  have f1: "rm_clock m1 = rm_clock m + 1" "rm_budget m1 = rm_budget m" by (simp_all add: m1_def)
  have "rm_insert name v n m = rm_evict name m2"
    unfolding rm_insert_def Let_def m1_def[symmetric] m2_def new_def by (subst update_absent) (auto simp: e1 f1)
  moreover have ok2: "rm_ok m2"
    using ok ok1 unfolding rm_ok_def by (fastforce simp: m2_def e1 f1 new_def)
  ultimately have ins: "rm_insert name v n m = rm_evict name m2" by simp
  have m2: "rm_budget m2 = rm_budget m" "rm_entries m2 = rm_entries m1 @ [new]" by (simp_all add: m2_def f1)
  have rec: "recent name t m2 = filter (\<lambda>(k, e). k \<noteq> name \<and> t \<le> re_last_used e) (rm_entries m) @ [new]" for t
    by (auto simp: recent_def m2 e1 new_def intro!: filter_cong)
  from rm_evict_recent[OF ok2, of name] obtain t where ev: "rm_ok (rm_insert name v n m)"
      "rm_bytes (rm_insert name v n m) \<le> rm_budget m \<or> fst ` set (rm_entries (rm_insert name v n m)) \<subseteq> {name} \<or> length (rm_entries (rm_insert name v n m)) \<le> 1"
    and t: "rm_entries (rm_insert name v n m) = recent name t m2"
      "\<forall>(k, e) \<in> set (rm_entries m2). k \<noteq> name \<and> re_last_used e < t \<longrightarrow> rm_budget m2 < weight_of (recent name (re_last_used e) m2)"
    unfolding ins[symmetric] m2(1) by blast
  have "\<forall>(k, e) \<in> set (rm_entries m). k \<noteq> name \<and> re_last_used e < t \<longrightarrow>
      rm_budget m < weight_of (filter (\<lambda>(k', e'). k' \<noteq> name \<and> re_last_used e \<le> re_last_used e') (rm_entries m)) + n"
    using t(2) unfolding m2 rec e1 by (auto simp: new_def)
  moreover have "map_of (rm_entries (rm_insert name v n m)) name = Some (snd new)"
    unfolding t(1) rec by (auto simp: new_def map_add_def map_of_eq_None_iff split: option.split dest!: map_of_SomeD)
  then have "fst (rm_get name (rm_insert name v n m)) = Some v" by (simp add: rm_get_def Let_def new_def)
  moreover have "rm_bytes (rm_insert name v n m) \<le> rm_budget m \<or> map fst (rm_entries (rm_insert name v n m)) = [name]"
    using ev(2) unfolding t(1) rec by (auto simp: new_def filter_empty_conv)
  ultimately show ?thesis using ev(1) t(1) unfolding rec Let_def new_def by blast
qed

text \<open>A budget of 100, two resident entries of 40 of which the older was read again, and a third of 40: the unread one goes.\<close>
definition two_residents :: "nat resident_map" where
  "two_residents = \<lparr>rm_entries = [(''a'', \<lparr>re_value = 1, re_last_used = 3, re_bytes = 40\<rparr>), (''b'', \<lparr>re_value = 2, re_last_used = 2, re_bytes = 40\<rparr>)],
      rm_budget = 100, rm_bytes = 80, rm_clock = 3\<rparr>"

lemma two_residents_run: "two_residents = snd (rm_get ''a'' (rm_insert ''b'' 2 40 (rm_insert ''a'' 1 40 (rm_new 100))))"
  by (simp add: two_residents_def rm_new_def rm_insert_def rm_remove_def rm_get_def rm_evict.simps Let_def)

theorem resident_map_lru_witness: "map fst (rm_entries (rm_insert ''c'' 3 40 two_residents)) = [''a'', ''c'']"
proof -
  have M: "rm_entries two_residents = [(''a'', \<lparr>re_value = 1, re_last_used = 3, re_bytes = 40\<rparr>), (''b'', \<lparr>re_value = 2, re_last_used = 2, re_bytes = 40\<rparr>)]"
      "rm_budget two_residents = 100" "rm_ok two_residents"
    by (simp_all add: two_residents_def rm_ok_def)
  let ?m = "rm_insert ''c'' 3 40 two_residents"
  obtain t where
    t: "rm_entries ?m = filter (\<lambda>(k, e). k \<noteq> ''c'' \<and> t \<le> re_last_used e) (rm_entries two_residents)
          @ [(''c'', \<lparr>re_value = 3, re_last_used = rm_clock two_residents + 1, re_bytes = 40\<rparr>)]"
    and fits: "rm_ok ?m" "rm_bytes ?m \<le> rm_budget two_residents \<or> map fst (rm_entries ?m) = [''c'']"
    and min: "\<forall>(k, e) \<in> set (rm_entries two_residents). k \<noteq> ''c'' \<and> re_last_used e < t \<longrightarrow>
        rm_budget two_residents < weight_of (filter (\<lambda>(k', e'). k' \<noteq> ''c'' \<and> re_last_used e \<le> re_last_used e') (rm_entries two_residents)) + 40"
    using resident_map_lru[OF M(3), of "''c''" 3 40] unfolding Let_def by (elim conjE exE) (rule that)
  have "t \<le> 3" using min by (auto simp: M not_less[symmetric])
  moreover have "\<not> t \<le> 2" using fits unfolding rm_ok_def t by (auto simp: M)
  ultimately show ?thesis unfolding t by (auto simp: M)
qed

end
