(* ===== verification/Service.thy ===== *)
theory Service
  imports Wire Resident Streaming Index_Queue Gc
begin

text \<open>
  The server (\<open>mlake-server/src/service.rs\<close>, and the key classification of \<open>objects.rs\<close>): the request handlers over the namespace, the
  writer, the snapshot and the queue, and one round of the background indexer.  A handler is a program over the store that
  threads the process's state, its resident writers and snapshots; the requests of one process are handled one after the other,
  other processes act between any two store requests.  A task the code spawns runs where it is spawned, its result ignored.
  Permits, traces, metrics and the text of wrapped errors are left out; decoding a stored object for display is not modelled.
\<close>

section \<open>Definitions\<close>

subsection \<open>State and handlers\<close>

record snapshot =
  sn_node :: query_node
  sn_through_seq :: nat

record service =
  svc_writers :: "writer resident_map"
  svc_snapshots :: "snapshot resident_map"

text \<open>What the handlers take from outside: codecs and arithmetic, the queue's codec, the hash that derives an id from a key, the
  estimate of a snapshot's resident size.\<close>
record 'd server_env =
  sv_build :: "'d build_env"
  sv_queue :: "queue_state codec"
  sv_from_key :: "string \<Rightarrow> memory_id"
  sv_resident_bytes :: "query_node \<Rightarrow> nat"

type_synonym 'a handler = "service \<Rightarrow> ((status + 'a) \<times> service) io"

definition h_ret :: "'a \<Rightarrow> 'a handler" where
  "h_ret x s = Ret (Inr x, s)"

definition h_fail :: "status \<Rightarrow> 'a handler" where
  "h_fail e s = Ret (Inl e, s)"

definition h_try :: "'a handler \<Rightarrow> ('a \<Rightarrow> 'b handler) \<Rightarrow> 'b handler" where
  "h_try m f s = io_bind (m s) (\<lambda>(r, s). case r of Inl e \<Rightarrow> Ret (Inl e, s) | Inr x \<Rightarrow> f x s)"

definition h_io :: "(status + 'a) io \<Rightarrow> 'a handler" where
  "h_io m s = io_bind m (\<lambda>r. Ret (r, s))"

definition h_res :: "status + 'a \<Rightarrow> 'a handler" where
  "h_res r s = Ret (r, s)"

definition MAX_RESIDENT_WRITERS :: nat where "MAX_RESIDENT_WRITERS = 1024"
definition DEFAULT_SNAPSHOT_BUDGET_BYTES :: nat where "DEFAULT_SNAPSHOT_BUDGET_BYTES = 256 * 1000000"

definition service_new :: service where
  "service_new = \<lparr>svc_writers = rm_new MAX_RESIDENT_WRITERS, svc_snapshots = rm_new DEFAULT_SNAPSHOT_BUDGET_BYTES\<rparr>"

text \<open>A quarter of the memory tier goes to the snapshots, at least sixteen megabytes.\<close>
definition snapshot_share :: "nat \<Rightarrow> nat" where
  "snapshot_share mem_tier_bytes = mem_tier_bytes div 4"

definition with_memory_budget :: "nat \<Rightarrow> service \<Rightarrow> service" where
  "with_memory_budget mem_tier_bytes s = s\<lparr>svc_snapshots := rm_new (max (snapshot_share mem_tier_bytes) (16 * 1000000))\<rparr>"

definition block_cache_bytes :: "nat \<Rightarrow> nat" where
  "block_cache_bytes mem_tier_bytes = mem_tier_bytes - snapshot_share mem_tier_bytes"

subsection \<open>Errors\<close>

definition internal :: "('e + 'a) io \<Rightarrow> (status + 'a) io" where
  "internal m = io_map_err (\<lambda>_. Internal) m"

text \<open>A panic of the index code takes the handler down.\<close>
fun fold_status :: "fold_error \<Rightarrow> status" where
  "fold_status (Failed _) = Internal"
| "fold_status Panicked = Crashed"

fun query_error :: "fold_error \<Rightarrow> status" where
  "query_error (Failed (ICore (DimMismatch expected got))) =
     InvalidArgument (''vector dimension mismatch: expected '' @ show_nat expected @ '', got '' @ show_nat got)"
| "query_error e = fold_status e"

definition reject_reserved_namespace :: "string \<Rightarrow> status + unit" where
  "reject_reserved_namespace name = (if name \<noteq> [] \<and> hd name = CHR ''_''
     then Inl (InvalidArgument ''namespace names starting with '_' are reserved for system use (e.g. the _obs/ trace root)'') else Inr ())"

definition need_namespace :: "string \<Rightarrow> status + unit" where
  "need_namespace name = (if name = [] then Inl (InvalidArgument ''namespace is required'') else Inr ())"

subsection \<open>Resident writers and snapshots\<close>

text \<open>A resident value changed in place, behind its shared reference.\<close>
definition rm_set :: "string \<Rightarrow> 'v \<Rightarrow> 'v resident_map \<Rightarrow> 'v resident_map" where
  "rm_set name v m = m\<lparr>rm_entries := map (\<lambda>(n, e). if n = name then (n, e\<lparr>re_value := v\<rparr>) else (n, e)) (rm_entries m)\<rparr>"

definition writer_for :: "string \<Rightarrow> writer resident_map \<Rightarrow> writer \<times> writer resident_map" where
  "writer_for name writers = (case rm_get name writers of
     (Some w, writers) \<Rightarrow> (w, writers)
   | (None, writers) \<Rightarrow> (writer_new name, rm_insert name (writer_new name) 1 writers))"

text \<open>A commit through the resident writer of a namespace, which keeps what the commit taught it.\<close>
definition commit_as :: "'d server_env \<Rightarrow> string \<Rightarrow> op list \<Rightarrow> commit_result handler" where
  "commit_as env name ops s = (case writer_for name (svc_writers s) of (w, writers) \<Rightarrow>
     io_bind (commit (be_manifest (sv_build env)) (be_entry (sv_build env)) ops w) (\<lambda>(r, w').
       Ret (case r of Inl _ \<Rightarrow> Inl Internal | Inr c \<Rightarrow> Inr c, s\<lparr>svc_writers := rm_set name w' writers\<rparr>)))"

definition invalidate :: "string \<Rightarrow> service \<Rightarrow> service" where
  "invalidate name s = s\<lparr>svc_snapshots := rm_remove name (svc_snapshots s)\<rparr>"

definition install_snapshot :: "'d server_env \<Rightarrow> string \<Rightarrow> query_node \<Rightarrow> snapshot handler" where
  "install_snapshot env name node s = (let snap = \<lparr>sn_node = node, sn_through_seq = qn_through_seq node\<rparr> in
     Ret (Inr snap, s\<lparr>svc_snapshots := rm_insert name snap (sv_resident_bytes env node) (svc_snapshots s)\<rparr>))"

definition install_and_warm :: "'d server_env \<Rightarrow> string \<Rightarrow> query_node \<Rightarrow> snapshot handler" where
  "install_and_warm env name node s = io_bind (install_snapshot env name node s) (\<lambda>r. io_bind (node_warm node) (\<lambda>_. Ret r))"

datatype snapshot_action = Reuse | ReopenTail | ReopenFold | FullOpen

definition full_open :: "'d server_env \<Rightarrow> string \<Rightarrow> (snapshot \<times> snapshot_action) handler" where
  "full_open env name = h_try (h_io (io_map_err fold_status (node_open (sv_build env) name))) (\<lambda>node.
     h_try (install_and_warm env name node) (\<lambda>snap. h_ret (snap, FullOpen)))"

text \<open>What the head and the manifest say about a resident snapshot decides how much of it is used again.\<close>
definition refresh :: "'d server_env \<Rightarrow> string \<Rightarrow> snapshot \<Rightarrow> nat \<Rightarrow> (snapshot \<times> snapshot_action) handler" where
  "refresh env name cached head = (if head = sn_through_seq cached then h_ret (cached, Reuse)
     else case qn_manifest_etag (sn_node cached) of None \<Rightarrow> full_open env name
     | Some etag \<Rightarrow> (\<lambda>s. io_bind (store_get_if_modified (manifest_path name) etag) (\<lambda>r. case r of
         Inr None \<Rightarrow> h_try (h_io (io_map_err fold_status (reopen_extending_tail (sv_build env) (sn_node cached) head))) (\<lambda>node.
           h_try (install_snapshot env name node) (\<lambda>snap. h_ret (snap, ReopenTail))) s
       | Inr (Some _) \<Rightarrow> h_try (h_io (io_map_err fold_status (reopen_after_fold (sv_build env) (sn_node cached)))) (\<lambda>node.
           h_try (install_and_warm env name node) (\<lambda>snap. h_ret (snap, ReopenFold))) s
       | Inl _ \<Rightarrow> full_open env name s)))"

definition snapshot_traced :: "'d server_env \<Rightarrow> string \<Rightarrow> (snapshot \<times> snapshot_action) handler" where
  "snapshot_traced env name s = (case rm_get name (svc_snapshots s) of
     (None, snaps) \<Rightarrow> full_open env name (s\<lparr>svc_snapshots := snaps\<rparr>)
   | (Some cached, snaps) \<Rightarrow> h_try (h_io (internal (resolve_head name))) (refresh env name cached) (s\<lparr>svc_snapshots := snaps\<rparr>))"

definition snapshot_of :: "'d server_env \<Rightarrow> string \<Rightarrow> snapshot handler" where
  "snapshot_of env name = h_try (snapshot_traced env name) (\<lambda>(snap, _). h_ret snap)"

subsection \<open>Creating and deleting a namespace\<close>

definition create_namespace :: "'d server_env \<Rightarrow> string \<Rightarrow> string list \<Rightarrow> unit handler" where
  "create_namespace env name keys = h_try (h_res (need_namespace name)) (\<lambda>_.
     h_try (h_res (reject_reserved_namespace name)) (\<lambda>_.
     h_try (h_io (internal (create_if_absent (be_manifest (sv_build env)) name (be_tokenizer_hash (sv_build env)) keys))) (\<lambda>_. h_ret ())))"

definition delete_namespace :: "string \<Rightarrow> nat handler" where
  "delete_namespace name = h_try (h_res (need_namespace name)) (\<lambda>_.
     h_try (h_io (internal (delete_all name))) (\<lambda>n s.
       Ret (Inr n, invalidate name (s\<lparr>svc_writers := rm_remove name (svc_writers s)\<rparr>))))"

definition discover_namespaces :: "(store_error + string list) io" where
  "discover_namespaces = io_try (store_list []) (\<lambda>keys. Ret (Inr (sort_dedup (List.map_filter (strip_suffix ''/manifest.json'') keys))))"

definition list_namespaces :: "string list handler" where
  "list_namespaces = h_io (internal discover_namespaces)"

subsection \<open>Write\<close>

record write_request =
  wq_namespace :: string
  wq_ops :: "pb_op list"
  wq_wait_for_index :: bool

record write_response =
  wp_seq :: nat
  wp_attempts :: nat
  wp_generation :: nat

definition WAIT_FOR_INDEX_TIMEOUT :: nat where "WAIT_FOR_INDEX_TIMEOUT = 30 * 1000"
definition WAIT_FOR_INDEX_POLL :: nat where "WAIT_FOR_INDEX_POLL = 200"

text \<open>The cursor is polled until it reaches the sequence or the deadline has passed.  Every sleep lasts at least the poll
  interval, so the last of \<open>WAIT_FOR_INDEX_TIMEOUT div WAIT_FOR_INDEX_POLL + 1\<close> checks is past the deadline.\<close>
fun poll_cursor :: "'d server_env \<Rightarrow> string \<Rightarrow> nat \<Rightarrow> millis \<Rightarrow> nat \<Rightarrow> (status + nat) io" where
  "poll_cursor env name sq deadline 0 = Ret (Inl DeadlineExceeded)"
| "poll_cursor env name sq deadline (Suc polls) =
     io_try (internal (read_manifest (be_manifest (sv_build env)) name)) (\<lambda>(manifest, _).
     if sq \<le> mf_wal_index_cursor manifest then Ret (Inr (mf_version manifest))
     else io_bind io_now (\<lambda>now. if deadline \<le> now then Ret (Inl DeadlineExceeded) else poll_cursor env name sq deadline polls))"

definition index_until :: "'d server_env \<Rightarrow> string \<Rightarrow> nat \<Rightarrow> nat handler" where
  "index_until env name sq = (\<lambda>s. io_bind io_now (\<lambda>now.
     h_try (h_io (poll_cursor env name sq (now + int WAIT_FOR_INDEX_TIMEOUT) (WAIT_FOR_INDEX_TIMEOUT div WAIT_FOR_INDEX_POLL + 1)))
       (\<lambda>g s. Ret (Inr g, invalidate name s)) s))"

definition op_upserts :: "op list \<Rightarrow> memory list" where
  "op_upserts ops = List.map_filter (\<lambda>x. case x of Upsert m \<Rightarrow> Some m | _ \<Rightarrow> None) ops"

text \<open>Every upsert takes its derived memory, in order; running out of them panics.\<close>
fun with_derived :: "op list \<Rightarrow> memory list \<Rightarrow> op list option" where
  "with_derived [] ms = Some []"
| "with_derived (Upsert _ # ops) [] = None"
| "with_derived (Upsert _ # ops) (m # ms) = map_option ((#) (Upsert m)) (with_derived ops ms)"
| "with_derived (x # ops) ms = map_option ((#) x) (with_derived ops ms)"

definition convert_ops :: "'d server_env \<Rightarrow> pb_op list \<Rightarrow> (status + op list) io" where
  "convert_ops env ops = io_try_map (\<lambda>x. io_bind io_now (\<lambda>now. Ret (op_in (sv_from_key env) (be_to_half (sv_build env)) now x))) ops"

definition derive_links :: "'d server_env \<Rightarrow> string \<Rightarrow> op list \<Rightarrow> op list handler" where
  "derive_links env name ops = (if op_upserts ops = [] then h_ret ops
     else h_try (snapshot_of env name) (\<lambda>snap.
       h_try (h_io (io_map_err query_error (derive_links_for_write (sv_build env) (sn_node snap) (op_upserts ops)))) (\<lambda>derived.
       case with_derived ops derived of None \<Rightarrow> h_fail Crashed | Some ops \<Rightarrow> h_ret ops)))"

definition notify_indexer :: "'d server_env \<Rightarrow> string \<Rightarrow> bool \<Rightarrow> unit handler" where
  "notify_indexer env name waits = (if waits then h_io (internal (enqueue (sv_queue env) name))
     else (\<lambda>s. io_bind (enqueue (sv_queue env) name) (\<lambda>_. Ret (Inr (), s))))"

definition write_memories :: "'d server_env \<Rightarrow> write_request \<Rightarrow> write_response handler" where
  "write_memories env req = h_try (h_res (need_namespace (wq_namespace req))) (\<lambda>_.
     h_try (h_res (reject_reserved_namespace (wq_namespace req))) (\<lambda>_.
     h_try (h_io (convert_ops env (wq_ops req))) (\<lambda>ops.
     if ops = [] then h_fail (InvalidArgument ''write needs at least one op'')
     else h_try (derive_links env (wq_namespace req) ops) (\<lambda>ops.
     h_try (commit_as env (wq_namespace req) ops) (\<lambda>result.
     h_try (notify_indexer env (wq_namespace req) (wq_wait_for_index req)) (\<lambda>_.
     h_try (if wq_wait_for_index req then index_until env (wq_namespace req) (cr_seq result) else h_ret 0) (\<lambda>generation.
     h_ret \<lparr>wp_seq = cr_seq result, wp_attempts = cr_attempts result, wp_generation = generation\<rparr>)))))))"

subsection \<open>Query and point reads\<close>

record query_request =
  qq_namespace :: string
  qq_memory_types :: "u32 list"
  qq_vector :: "pb_vector option"
  qq_text :: string
  qq_tags :: "pb_tag_filter option"
  qq_vector_top_k :: u32
  qq_text_top_k :: u32
  qq_graph_top_k :: u32
  qq_nprobe :: u32
  qq_temporal_from :: "millis option"
  qq_temporal_to :: "millis option"
  qq_updated_from :: "millis option"
  qq_updated_to :: "millis option"
  qq_graph_seed_min_similarity :: "f32 option"
  qq_tag_groups :: "pb_tag_predicate list"

text \<open>The types a read covers: those asked for, or all of the snapshot.\<close>
definition requested_types :: "u32 list \<Rightarrow> query_node \<Rightarrow> status + u8 list" where
  "requested_types ts node = res_bind (if ts = [] then Inr (node_memory_types node) else res_collect memory_type_u8 ts)
     (\<lambda>types. Inr (sort_dedup types))"

definition type_list :: "u32 list \<Rightarrow> status + u8 list" where
  "type_list ts = res_bind (res_collect memory_type_u8 ts) (\<lambda>types. Inr (sort_dedup types))"

definition hit_in_window :: "millis option \<Rightarrow> millis option \<Rightarrow> pb_hit \<Rightarrow> bool" where
  "hit_in_window updated_from updated_to h = (case Option.bind (ph_memory h) py_timestamps of None \<Rightarrow> False
     | Some ts \<Rightarrow> (case pt_updated_at ts of None \<Rightarrow> False
       | Some u \<Rightarrow> (case updated_from of None \<Rightarrow> True | Some f \<Rightarrow> f < u) \<and> (case updated_to of None \<Rightarrow> True | Some t \<Rightarrow> u < t)))"

definition query_types :: "'d build_env \<Rightarrow> query_node \<Rightarrow> query_request \<Rightarrow> f32 list option \<Rightarrow> tag_filter \<Rightarrow> u8 list \<Rightarrow> (status + pb_hit list) io" where
  "query_types env node req vector tags types =
     io_try (io_map_err query_error (io_try_map (\<lambda>t. io_try (query_raw_metered env node t vector
         (if qq_text req = [] then None else Some (qq_text req)) tags
         (arm_depths_in env (qq_vector_top_k req) (qq_text_top_k req) (qq_graph_top_k req) (qq_nprobe req) (qq_graph_seed_min_similarity req))
         (case (qq_temporal_from req, qq_temporal_to req) of (Some a, Some b) \<Rightarrow> Some (a, b) | _ \<Rightarrow> None)
         \<lparr>uw_from = qq_updated_from req, uw_to = qq_updated_to req\<rparr>) (\<lambda>hits. Ret (Inr (t, hits)))) types)) (\<lambda>per_type.
     let hits = concat (map (\<lambda>(t, raw). map (raw_hit_out (half_to (be_edges env)) t) raw) per_type)
     in Ret (Inr (if qq_updated_from req \<noteq> None \<or> qq_updated_to req \<noteq> None
       then filter (hit_in_window (qq_updated_from req) (qq_updated_to req)) hits else hits)))"

definition query_memories :: "'d server_env \<Rightarrow> query_request \<Rightarrow> pb_hit list handler" where
  "query_memories env req = h_try (h_res (need_namespace (qq_namespace req))) (\<lambda>_.
     h_try (h_res (res_option decode_vector (qq_vector req))) (\<lambda>vector.
     h_try (h_res (tag_predicates_in (qq_tag_groups req))) (\<lambda>groups.
     let flat = tag_filter_in (qq_tags req); tags = TagFilter (tf_tags flat) (tf_mode flat) groups in
     h_try (snapshot_of env (qq_namespace req)) (\<lambda>snap.
     h_try (h_res (requested_types (qq_memory_types req) (sn_node snap))) (\<lambda>types.
     h_io (query_types (sv_build env) (sn_node snap) req vector tags types))))))"

definition get_memories :: "'d server_env \<Rightarrow> string \<Rightarrow> bytes list \<Rightarrow> bool \<Rightarrow> bool \<Rightarrow> pb_stored_record list handler" where
  "get_memories env name ids include_vector include_edges = h_try (h_res (need_namespace name)) (\<lambda>_.
     h_try (h_res (res_collect id_exact ids)) (\<lambda>ids.
     if ids = [] then h_ret []
     else h_try (snapshot_of env name) (\<lambda>snap.
       h_try (h_io (io_map_err fold_status (get_many (sv_build env) (sn_node snap) ids include_vector))) (\<lambda>found.
       h_ret (map (\<lambda>m. stored_record_with_edges (half_to (be_edges (sv_build env))) m include_vector include_edges) found)))))"

subsection \<open>Counters\<close>

record type_stats =
  ts_memory_type :: u8
  ts_doc_count :: nat
  ts_cluster_count :: nat
  ts_train_count :: nat
  ts_has_index :: bool

record stats_response =
  so_generation :: nat
  so_wal_head :: nat
  so_wal_index_cursor :: nat
  so_tokenizer_config_hash :: string
  so_format_version :: nat
  so_doc_count :: nat
  so_types :: "type_stats list"
  so_through_seq :: nat

definition type_stats_of :: "manifest \<Rightarrow> query_node \<Rightarrow> u8 \<Rightarrow> type_stats" where
  "type_stats_of manifest node t = \<lparr>ts_memory_type = t, ts_doc_count = doc_count_of node t, ts_cluster_count = cluster_count_of node t,
     ts_train_count = sum_list (map fi_train_count (List.map_filter (\<lambda>s. sg_index s t) (mf_segments manifest))),
     ts_has_index = list_ex (\<lambda>s. sg_index s t \<noteq> None) (mf_segments manifest)\<rparr>"

definition stats_op :: "'d server_env \<Rightarrow> string \<Rightarrow> stats_response handler" where
  "stats_op env name = h_try (h_res (need_namespace name)) (\<lambda>_.
     h_try (h_io (internal (read_manifest (be_manifest (sv_build env)) name))) (\<lambda>(manifest, _).
     h_try (h_io (internal (wal_head name))) (\<lambda>head.
     h_try (snapshot_of env name) (\<lambda>snap. let node = sn_node snap in
     h_ret \<lparr>so_generation = mf_version manifest, so_wal_head = head, so_wal_index_cursor = mf_wal_index_cursor manifest,
       so_tokenizer_config_hash = mf_tokenizer_config_hash manifest, so_format_version = mf_format_version manifest,
       so_doc_count = node_doc_count node, so_types = map (type_stats_of manifest node) (node_memory_types node),
       so_through_seq = sn_through_seq snap\<rparr>))))"

text \<open>Most frequent first, ties by the value.\<close>
definition by_count :: "('k::linorder \<times> nat) list \<Rightarrow> ('k \<times> nat) list" where
  "by_count xs = rev (sort_key snd (rev (sort_key fst xs)))"

definition entity_stats :: "'d server_env \<Rightarrow> string \<Rightarrow> u32 list \<Rightarrow> bytes list \<Rightarrow> (entity_id \<times> nat) list handler" where
  "entity_stats env name ts ids = h_try (h_res (need_namespace name)) (\<lambda>_.
     h_try (h_res (type_list ts)) (\<lambda>types.
     h_try (h_res (if ids = [] then Inr None else res_bind (entity_ids_in ids) (\<lambda>es. Inr (Some es)))) (\<lambda>entities.
     h_try (snapshot_of env name) (\<lambda>snap.
     h_try (h_io (io_map_err fold_status (node_entity_counts (sn_node snap) types entities))) (\<lambda>counts.
     h_ret (by_count (map (\<lambda>e. (e, the (counts e))) (sorted_list_of_set (dom counts)))))))))"

definition metadata_stats :: "'d server_env \<Rightarrow> string \<Rightarrow> string \<Rightarrow> u32 list \<Rightarrow> (string \<times> nat) list handler" where
  "metadata_stats env name key ts = h_try (h_res (need_namespace name)) (\<lambda>_.
     if key = [] then h_fail (InvalidArgument ''key is required'')
     else h_try (h_res (type_list ts)) (\<lambda>types.
       h_try (snapshot_of env name) (\<lambda>snap.
       h_try (h_io (io_map_err fold_status (metadata_counts (sv_build env) (sn_node snap) key types))) (\<lambda>counts. h_ret (by_count counts)))))"

definition link_stats :: "'d server_env \<Rightarrow> string \<Rightarrow> u32 list \<Rightarrow> (nat \<times> nat \<times> nat) handler" where
  "link_stats env name ts = h_try (h_res (need_namespace name)) (\<lambda>_.
     h_try (h_res (type_list ts)) (\<lambda>types.
     h_try (snapshot_of env name) (\<lambda>snap. h_io (io_map_err fold_status (link_counts (sv_build env) (sn_node snap) types)))))"

subsection \<open>Page tokens\<close>

fun split_on :: "char \<Rightarrow> string \<Rightarrow> string list" where
  "split_on c [] = [[]]"
| "split_on c (x # xs) = (if x = c then [] # split_on c xs else case split_on c xs of [] \<Rightarrow> [[x]] | y # ys \<Rightarrow> (x # y) # ys)"

definition show_int :: "int \<Rightarrow> string" where
  "show_int i = (if i < 0 then ''-'' @ show_nat (nat (- i)) else show_nat (nat i))"

text \<open>\<open>s.parse::<i64>().ok()\<close>.\<close>
definition parse_i64 :: "string \<Rightarrow> int option" where
  "parse_i64 s = (let value = (if s \<noteq> [] \<and> hd s = CHR ''-''
       then (if tl s = [] then None else map_option (\<lambda>n. - int n) (parse_digits 0 (tl s)))
       else let body = (if s \<noteq> [] \<and> hd s = CHR ''+'' then tl s else s) in
         if body = [] then None else map_option int (parse_digits 0 body))
     in case value of Some i \<Rightarrow> if is_i64 i then Some i else None | None \<Rightarrow> None)"

definition parse_u8 :: "string \<Rightarrow> u8 option" where
  "parse_u8 s = (case parse_u64 s of Some n \<Rightarrow> if n < 256 then Some (of_nat n) else None | None \<Rightarrow> None)"

definition page_token :: "nat \<Rightarrow> u8 \<Rightarrow> scan_cursor \<Rightarrow> string" where
  "page_token generation t c = show_nat generation @ '':'' @ show_nat (unat t) @ '':'' @ show_nat (sc_cluster c) @ '':'' @ show_nat (sc_offset c)"

definition ordered_page_token :: "nat \<Rightarrow> millis \<Rightarrow> string" where
  "ordered_page_token generation from_ts = show_nat generation @ '':t:'' @ show_int from_ts"

definition malformed :: status where
  "malformed = InvalidArgument ''malformed page_token''"

definition parsed :: "'a option \<Rightarrow> status + 'a" where
  "parsed x = (case x of None \<Rightarrow> Inl malformed | Some y \<Rightarrow> Inr y)"

definition parse_ordered_page_token :: "string \<Rightarrow> nat \<Rightarrow> status + millis option" where
  "parse_ordered_page_token token generation = (if token = [] then Inr None
     else case split_on CHR '':'' token of
       [gen, t, ts] \<Rightarrow> if t \<noteq> ''t'' then Inl malformed
         else res_bind (parsed (parse_u64 gen)) (\<lambda>g. if g \<noteq> generation then Inr None else res_bind (parsed (parse_i64 ts)) (\<lambda>i. Inr (Some i)))
     | _ \<Rightarrow> Inl malformed)"

definition parse_page_token :: "string \<Rightarrow> nat \<Rightarrow> status + (u8 \<times> scan_cursor) option" where
  "parse_page_token token generation = (if token = [] then Inr None
     else case split_on CHR '':'' token of
       [gen, ty, cluster, off] \<Rightarrow> res_bind (parsed (parse_u64 gen)) (\<lambda>g. if g \<noteq> generation then Inr None
         else res_bind (parsed (parse_u8 ty)) (\<lambda>t. res_bind (parsed (parse_u64 cluster)) (\<lambda>c. res_bind (parsed (parse_u64 off)) (\<lambda>n.
           Inr (Some (t, \<lparr>sc_cluster = c, sc_offset = n\<rparr>))))))
     | _ \<Rightarrow> Inl malformed)"

subsection \<open>Scan\<close>

record scan_request =
  sq_namespace :: string
  sq_memory_types :: "u32 list"
  sq_limit :: u32
  sq_page_token :: string
  sq_include_vector :: bool
  sq_tags :: "pb_tag_filter option"
  sq_metadata_equals :: "(string \<times> string) list"
  sq_include_edges :: bool
  sq_skip :: nat
  sq_updated_from :: "millis option"
  sq_updated_to :: "millis option"
  sq_tag_groups :: "pb_tag_predicate list"
  sq_created_asc :: bool

definition DEFAULT_SCAN_LIMIT :: nat where "DEFAULT_SCAN_LIMIT = 50"
definition MAX_SCAN_LIMIT :: nat where "MAX_SCAN_LIMIT = 1000"

definition page_limit :: "nat \<Rightarrow> nat \<Rightarrow> u32 \<Rightarrow> nat" where
  "page_limit default_limit max_limit n = (if n = 0 then default_limit else min (unat n) max_limit)"

definition scan_filter :: "scan_request \<Rightarrow> predicate" where
  "scan_filter req = (let tags = tag_filter_in (sq_tags req) in
     \<lparr>p_memory_types = [], p_metadata_equals = sq_metadata_equals req, p_tags = tf_tags tags, p_tags_mode = tags_mode_to_u8 (tf_mode tags),
      p_updated_from = sq_updated_from req, p_updated_to = sq_updated_to req\<rparr>)"

definition first_cursor :: scan_cursor where
  "first_cursor = \<lparr>sc_cluster = 0, sc_offset = 0\<rparr>"

text \<open>The walk over the types.  While skipping, full pages are pulled and dropped; a page that is full ends the walk at the
  position where the next one starts.  Every round leaves a type, ends the walk or pulls a full page, of which only the last
  two can come after the skipping is over.\<close>
fun scan_walk :: "(u8 \<Rightarrow> scan_cursor \<Rightarrow> nat \<Rightarrow> ('e + 'm list \<times> scan_cursor option) io) \<Rightarrow> nat \<Rightarrow> nat \<Rightarrow> u8 list \<Rightarrow> scan_cursor \<Rightarrow> nat \<Rightarrow> 'm list \<Rightarrow>
    ('e + 'm list \<times> (u8 \<times> scan_cursor) option) io" where
  "scan_walk scan 0 limit types cursor skip out = Ret (Inr (out, None))"
| "scan_walk scan (Suc fuel) limit [] cursor skip out = Ret (Inr (out, None))"
| "scan_walk scan (Suc fuel) limit (t # rest) cursor skip out =
     io_try (scan t cursor (if 0 < skip then limit else limit - length out)) (\<lambda>(items, nxt).
       let dropped = (if 0 < skip then min skip (length items) else 0); skip = skip - dropped; out = out @ drop dropped items in
       case nxt of
         Some c \<Rightarrow> if skip = 0 \<and> limit \<le> length out then Ret (Inr (out, Some (t, c))) else scan_walk scan fuel limit (t # rest) c skip out
       | None \<Rightarrow> if skip = 0 \<and> limit \<le> length out \<and> rest \<noteq> [] then Ret (Inr (out, Some (hd rest, first_cursor)))
           else scan_walk scan fuel limit rest first_cursor skip out)"

definition scan_fuel :: "nat \<Rightarrow> u8 list \<Rightarrow> nat" where
  "scan_fuel skip types = skip + length types + 2"

text \<open>One page of the walk in storage order.\<close>
definition scan_page :: "'d build_env \<Rightarrow> query_node \<Rightarrow> predicate \<Rightarrow> tag_predicate list \<Rightarrow> nat \<Rightarrow> u8 list \<Rightarrow> nat \<Rightarrow> string \<Rightarrow>
    (status + stored_memory list \<times> string) io" where
  "scan_page env node p groups limit types skip token =
     io_try (Ret (parse_page_token token (qn_generation node))) (\<lambda>start.
     let todo = (case start of None \<Rightarrow> types | Some (t, _) \<Rightarrow> dropWhile (\<lambda>u. u \<noteq> t) types);
         cursor = (case start of None \<Rightarrow> first_cursor | Some (_, c) \<Rightarrow> c) in
     io_try (io_map_err fold_status (scan_walk (\<lambda>t c want. node_scan env node t c want p groups) (scan_fuel skip types) limit todo cursor skip [])) (\<lambda>(out, nxt).
     Ret (Inr (out, case nxt of None \<Rightarrow> [] | Some (t, c) \<Rightarrow> page_token (qn_generation node) t c))))"

text \<open>One page in write-time order.\<close>
definition ordered_page :: "'d build_env \<Rightarrow> query_node \<Rightarrow> predicate \<Rightarrow> tag_predicate list \<Rightarrow> nat \<Rightarrow> u8 list \<Rightarrow> nat \<Rightarrow> string \<Rightarrow>
    (status + stored_memory list \<times> string) io" where
  "ordered_page env node p groups limit types skip token =
     io_try (Ret (parse_ordered_page_token token (qn_generation node))) (\<lambda>from_ts.
     io_try (io_map_err fold_status (scan_ordered env node types (case from_ts of Some t \<Rightarrow> t | None \<Rightarrow> I64_MIN) (limit + skip) p groups)) (\<lambda>(items, nxt).
     let items = drop skip items in
     Ret (Inr (items, case nxt of Some ts \<Rightarrow> if limit \<le> length items then ordered_page_token (qn_generation node) ts else [] | None \<Rightarrow> []))))"

definition scan_memories :: "'d server_env \<Rightarrow> scan_request \<Rightarrow> (pb_stored_record list \<times> string) handler" where
  "scan_memories env req = h_try (h_res (need_namespace (sq_namespace req))) (\<lambda>_.
     h_try (h_res (tag_predicates_in (sq_tag_groups req))) (\<lambda>groups.
     h_try (snapshot_of env (sq_namespace req)) (\<lambda>snap.
     h_try (h_res (requested_types (sq_memory_types req) (sn_node snap))) (\<lambda>types.
     h_try (h_io ((if sq_created_asc req then ordered_page else scan_page) (sv_build env) (sn_node snap) (scan_filter req) groups
         (page_limit DEFAULT_SCAN_LIMIT MAX_SCAN_LIMIT (sq_limit req)) types (sq_skip req) (sq_page_token req))) (\<lambda>(items, token).
     h_ret (map (\<lambda>m. stored_record_with_edges (half_to (be_edges (sv_build env))) m (sq_include_vector req) (sq_include_edges req)) items, token))))))"

subsection \<open>Delete by predicate\<close>

record delete_request =
  dq_namespace :: string
  dq_memory_types :: "u32 list"
  dq_metadata_equals :: "(string \<times> string) list"
  dq_tags :: "pb_tag_filter option"
  dq_delete_all :: bool
  dq_eager :: bool

definition TOMBSTONE_BATCH :: nat where "TOMBSTONE_BATCH = 10000"

fun commit_batches :: "'d server_env \<Rightarrow> string \<Rightarrow> memory_id list list \<Rightarrow> nat \<Rightarrow> nat handler" where
  "commit_batches env name [] last_seq = h_ret last_seq"
| "commit_batches env name (ids # rest) last_seq = h_try (commit_as env name (map Tombstone ids)) (\<lambda>r. commit_batches env name rest (cr_seq r))"

definition delete_by_predicate :: "'d server_env \<Rightarrow> delete_request \<Rightarrow> (nat \<times> nat) handler" where
  "delete_by_predicate env req = h_try (h_res (need_namespace (dq_namespace req))) (\<lambda>_.
     h_try (h_res (predicate_in \<lparr>ppr_memory_types = dq_memory_types req, ppr_metadata_equals = dq_metadata_equals req, ppr_tags = dq_tags req\<rparr>)) (\<lambda>pred.
     if predicate_is_empty pred \<and> \<not> dq_delete_all req
     then h_fail (InvalidArgument ''empty predicate: set metadata_equals/tags, or delete_all to remove every memory'')
     else if \<not> dq_eager req
     then h_try (commit_as env (dq_namespace req) [TombstoneWhere pred]) (\<lambda>r. h_ret (0, cr_seq r))
     else h_try (snapshot_of env (dq_namespace req)) (\<lambda>snap.
       h_try (h_io (io_map_err fold_status (ids_matching (sv_build env) (sn_node snap) (p_memory_types pred) (dq_metadata_equals req) (tag_filter_in (dq_tags req))))) (\<lambda>ids.
       if ids = [] then h_ret (0, 0)
       else h_try (commit_batches env (dq_namespace req) (chunks TOMBSTONE_BATCH ids) 0) (\<lambda>last_seq. h_ret (length ids, last_seq))))))"

subsection \<open>Views of the log, the layout and the cache\<close>

definition DEFAULT_WAL_LIMIT :: nat where "DEFAULT_WAL_LIMIT = 50"
definition MAX_WAL_LIMIT :: nat where "MAX_WAL_LIMIT = 500"
definition MAX_MEMBER_SAMPLE :: nat where "MAX_MEMBER_SAMPLE = 5000"
definition DEFAULT_CACHE_LIMIT :: nat where "DEFAULT_CACHE_LIMIT = 100"
definition MAX_CACHE_LIMIT :: nat where "MAX_CACHE_LIMIT = 2000"
definition DEFAULT_OBJECT_LIMIT :: nat where "DEFAULT_OBJECT_LIMIT = 200"
definition MAX_OBJECT_LIMIT :: nat where "MAX_OBJECT_LIMIT = 2000"

record list_wal_response =
  lw_entries :: "pb_wal_entry list"
  lw_wal_head :: nat
  lw_wal_index_cursor :: nat
  lw_next_seq :: nat

text \<open>An entry that cannot be read any more is shown without its counts.\<close>
definition wal_row :: "'d server_env \<Rightarrow> string \<Rightarrow> nat \<Rightarrow> bool \<Rightarrow> wal_object \<Rightarrow> pb_wal_entry io" where
  "wal_row env name cursor include_ops ob = (if include_ops
     then io_bind (read_wal_entry (be_entry (sv_build env)) name (wo_seq ob)) (\<lambda>r.
       Ret (wal_entry_out ob cursor (case r of Inr e \<Rightarrow> Some e | Inl _ \<Rightarrow> None)))
     else Ret (wal_entry_out ob cursor None))"

definition list_wal_op :: "'d server_env \<Rightarrow> string \<Rightarrow> nat \<Rightarrow> u32 \<Rightarrow> bool \<Rightarrow> list_wal_response handler" where
  "list_wal_op env name start_seq limit include_ops = h_try (h_res (need_namespace name)) (\<lambda>_.
     h_try (h_io (internal (read_manifest (be_manifest (sv_build env)) name))) (\<lambda>(manifest, _).
     h_try (h_io (internal (wal_head name))) (\<lambda>head.
     h_try (h_io (internal (list_wal name start_seq (page_limit DEFAULT_WAL_LIMIT MAX_WAL_LIMIT limit)))) (\<lambda>(objs, next_seq).
     (\<lambda>s. io_bind (io_map (wal_row env name (mf_wal_index_cursor manifest) include_ops) objs) (\<lambda>rows.
       Ret (Inr \<lparr>lw_entries = rows, lw_wal_head = head, lw_wal_index_cursor = mf_wal_index_cursor manifest,
         lw_next_seq = (case next_seq of Some n \<Rightarrow> n | None \<Rightarrow> 0)\<rparr>, s))))))) "

record index_layout_response =
  il_generation :: nat
  il_dim :: nat
  il_clusters :: "pb_cluster_info list"
  il_members :: "pb_cluster_member list"

definition index_layout :: "'d server_env \<Rightarrow> string \<Rightarrow> u32 \<Rightarrow> u32 \<Rightarrow> index_layout_response handler" where
  "index_layout env name memory_type member_sample = h_try (h_res (need_namespace name)) (\<lambda>_.
     h_try (h_res (memory_type_u8 memory_type)) (\<lambda>t.
     h_try (snapshot_of env name) (\<lambda>snap. let node = sn_node snap in
     h_try (h_io (io_map_err fold_status (sample_members (sv_build env) node t (min (unat member_sample) MAX_MEMBER_SAMPLE)))) (\<lambda>members.
     h_ret (case node_cluster_layout node t of
         Some l \<Rightarrow> \<lparr>il_generation = qn_generation node, il_dim = cl_dim l, il_clusters = cluster_infos l, il_members = map cluster_member_out members\<rparr>
       | None \<Rightarrow> \<lparr>il_generation = qn_generation node, il_dim = 0, il_clusters = [], il_members = map cluster_member_out members\<rparr>)))))"

record cache_stats_response =
  cp_enabled :: bool
  cp_mem_bytes :: nat
  cp_mem_budget :: nat
  cp_disk_bytes :: nat
  cp_disk_budget :: nat
  cp_mem_entries :: nat
  cp_disk_entries :: nat
  cp_hits :: nat
  cp_misses :: nat
  cp_entries :: "pb_cache_entry list"
  cp_total_entries :: nat

definition cache_stats :: "disk_cache option \<Rightarrow> string \<Rightarrow> u32 \<Rightarrow> cache_stats_response" where
  "cache_stats cache name limit = (case cache of
     None \<Rightarrow> \<lparr>cp_enabled = False, cp_mem_bytes = 0, cp_mem_budget = 0, cp_disk_bytes = 0, cp_disk_budget = 0, cp_mem_entries = 0,
       cp_disk_entries = 0, cp_hits = 0, cp_misses = 0, cp_entries = [], cp_total_entries = 0\<rparr>
   | Some c \<Rightarrow> (case entries (if name = [] then None else Some name) (page_limit DEFAULT_CACHE_LIMIT MAX_CACHE_LIMIT limit) c of (es, n) \<Rightarrow>
       \<lparr>cp_enabled = True, cp_mem_bytes = cs_mem_bytes (dc_state c), cp_mem_budget = dc_mem_budget c, cp_disk_bytes = cs_disk_bytes (dc_state c),
        cp_disk_budget = dc_disk_budget c, cp_mem_entries = length (cs_mem (dc_state c)), cp_disk_entries = length (cs_disk (dc_state c)),
        cp_hits = dc_hits c, cp_misses = dc_misses c, cp_entries = map cache_entry_out (enumerate 0 es), cp_total_entries = n\<rparr>))"

subsection \<open>Stored objects\<close>

datatype object_kind =
    OUnknown | OManifest | OWalEntry | OCluster | OCentroids | OPkIndex | OPkData | ORadjIndex | ORadjData | OEntityIndex | OEntityData
  | OTimeIndex | OTimeData | OFtsSplit | OStats | OTagSummary | OPayloadIndex | OPayloadData | OVectorBlock | ORerankIndex | ORerankData
  | OSegmentTombstones | OIndexLease | OWalHead

text \<open>The wire numbers of the kinds, which also order a listing.\<close>
fun kind_code :: "object_kind \<Rightarrow> nat" where
  "kind_code OUnknown = 0" | "kind_code OManifest = 1" | "kind_code OWalEntry = 2" | "kind_code OCluster = 3" | "kind_code OCentroids = 4"
| "kind_code OPkIndex = 5" | "kind_code OPkData = 6" | "kind_code ORadjIndex = 7" | "kind_code ORadjData = 8" | "kind_code OEntityIndex = 9"
| "kind_code OEntityData = 10" | "kind_code OTimeIndex = 11" | "kind_code OTimeData = 12" | "kind_code OFtsSplit = 13" | "kind_code OStats = 14"
| "kind_code OTagSummary = 15" | "kind_code OPayloadIndex = 16" | "kind_code OPayloadData = 17" | "kind_code OVectorBlock = 18"
| "kind_code ORerankIndex = 19" | "kind_code ORerankData = 20" | "kind_code OSegmentTombstones = 21" | "kind_code OIndexLease = 22"
| "kind_code OWalHead = 23"

record classified =
  cf_path :: string
  cf_size_bytes :: nat
  cf_kind :: object_kind
  cf_segment :: string
  cf_memory_type :: "u8 option"
  cf_seq :: "nat option"

definition strip_prefix :: "'a list \<Rightarrow> 'a list \<Rightarrow> 'a list option" where
  "strip_prefix pre xs = (if is_prefix pre xs then Some (drop (length pre) xs) else None)"

definition file_kind :: "string \<Rightarrow> object_kind" where
  "file_kind name = (case map_of [(''centroids.bin'', OCentroids), (''stats.json'', OStats), (''tags.json'', OTagSummary), (''pk.idx'', OPkIndex),
       (''pk.data'', OPkData), (''radj.idx'', ORadjIndex), (''radj.data'', ORadjData), (''entity.idx'', OEntityIndex), (''entity.data'', OEntityData),
       (''time.idx'', OTimeIndex), (''time.data'', OTimeData), (''payload.idx'', OPayloadIndex), (''payload.data'', OPayloadData),
       (''rerank.idx'', ORerankIndex), (''rerank.data'', ORerankData)] name of Some k \<Rightarrow> k
     | None \<Rightarrow> if is_prefix ''cluster-'' name \<and> strip_suffix ''.bin'' name \<noteq> None then OCluster
         else if is_prefix ''cluster-'' name \<and> strip_suffix ''.vec'' name \<noteq> None then OVectorBlock else OUnknown)"

text \<open>A file below a segment: its overlay, or an index file of one type.\<close>
definition segment_file :: "string list \<Rightarrow> object_kind \<times> u8 option" where
  "segment_file parts = (case parts of
     [] \<Rightarrow> (OUnknown, None)
   | mt # rest \<Rightarrow> if mt = ''tombstones.json'' \<and> rest = [] then (OSegmentTombstones, None)
       else case strip_prefix ''mt'' mt of None \<Rightarrow> (OUnknown, None)
       | Some n \<Rightarrow> (case rest of [a, _] \<Rightarrow> if a = ''fts'' then OFtsSplit else OUnknown | [name] \<Rightarrow> file_kind name | _ \<Rightarrow> OUnknown, parse_u8 n))"

definition classify :: "string \<Rightarrow> string \<Rightarrow> nat \<Rightarrow> classified" where
  "classify namespace path n =
     (let rest = dropWhile (\<lambda>c. c = CHR ''/'') (case strip_prefix namespace path of Some r \<Rightarrow> r | None \<Rightarrow> path);
          out = \<lparr>cf_path = path, cf_size_bytes = n, cf_kind = OUnknown, cf_segment = [], cf_memory_type = None, cf_seq = None\<rparr> in
      if rest = ''manifest.json'' then out\<lparr>cf_kind := OManifest\<rparr>
      else if rest = ''index-lease.json'' then out\<lparr>cf_kind := OIndexLease\<rparr>
      else if rest = ''wal-head'' then out\<lparr>cf_kind := OWalHead\<rparr>
      else case strip_prefix ''wal/'' rest of
        Some file \<Rightarrow> out\<lparr>cf_kind := OWalEntry, cf_seq := Option.bind (strip_suffix ''.bin'' file) parse_u64\<rparr>
      | None \<Rightarrow> (case split_on CHR ''/'' rest of [] \<Rightarrow> out
        | seg # parts \<Rightarrow> (case strip_prefix ''seg-'' seg of None \<Rightarrow> out
          | Some seg_id \<Rightarrow> (case segment_file parts of (k, t) \<Rightarrow> out\<lparr>cf_segment := seg_id, cf_kind := k, cf_memory_type := t\<rparr>))))"

definition live_paths :: "string \<Rightarrow> manifest \<Rightarrow> string list" where
  "live_paths namespace manifest = manifest_path namespace # all_referenced_paths manifest"

definition object_live :: "string \<Rightarrow> manifest \<Rightarrow> classified \<Rightarrow> bool" where
  "object_live namespace manifest c = (case cf_seq c of
     Some seq \<Rightarrow> mf_prev_wal_index_cursor manifest < seq | None \<Rightarrow> cf_path c \<in> set (live_paths namespace manifest))"

record pb_object_info =
  oi_path :: string
  oi_size_bytes :: nat
  oi_kind :: nat
  oi_segment :: string
  oi_memory_type :: u32
  oi_has_memory_type :: bool
  oi_seq :: nat
  oi_live :: bool

definition object_info :: "classified \<times> bool \<Rightarrow> pb_object_info" where
  "object_info x = (case x of (c, live) \<Rightarrow> \<lparr>oi_path = cf_path c, oi_size_bytes = cf_size_bytes c, oi_kind = kind_code (cf_kind c), oi_segment = cf_segment c,
     oi_memory_type = (case cf_memory_type c of Some t \<Rightarrow> ucast t | None \<Rightarrow> 0), oi_has_memory_type = (cf_memory_type c \<noteq> None),
     oi_seq = (case cf_seq c of Some s \<Rightarrow> s | None \<Rightarrow> 0), oi_live = live\<rparr>)"

record list_objects_response =
  lo_objects :: "pb_object_info list"
  lo_total_objects :: nat
  lo_total_bytes :: nat
  lo_live_bytes :: nat
  lo_generation :: nat
  lo_next_page_token :: string

definition object_page :: "string \<Rightarrow> manifest \<Rightarrow> nat \<Rightarrow> nat \<Rightarrow> (path \<times> nat) list \<Rightarrow> list_objects_response" where
  "object_page name manifest limit start listed =
     (let rows = map (\<lambda>(p, n). let c = classify name p n in (c, object_live name manifest c)) listed;
          ordered = sort_key (\<lambda>(c, _). (cf_segment c, kind_code (cf_kind c), cf_path c)) rows;
          page = take limit (drop start ordered); nxt = start + length page in
      \<lparr>lo_objects = map object_info page, lo_total_objects = length rows, lo_total_bytes = sum_list (map snd listed),
       lo_live_bytes = sum_list (map (\<lambda>(c, _). cf_size_bytes c) (filter snd rows)), lo_generation = mf_version manifest,
       lo_next_page_token = (if nxt < length rows then show_nat nxt else [])\<rparr>)"

definition list_objects_op :: "'d server_env \<Rightarrow> string \<Rightarrow> u32 \<Rightarrow> string \<Rightarrow> list_objects_response handler" where
  "list_objects_op env name limit token = h_try (h_res (need_namespace name)) (\<lambda>_.
     h_try (h_io (internal (read_manifest (be_manifest (sv_build env)) name))) (\<lambda>(manifest, _).
     h_try (h_io (internal (store_list_with_size (name @ ''/'')))) (\<lambda>listed.
     h_try (h_res (if token = [] then Inr 0 else parsed (parse_u64 token))) (\<lambda>start.
     h_ret (object_page name manifest (page_limit DEFAULT_OBJECT_LIMIT MAX_OBJECT_LIMIT limit) start listed)))))"

subsection \<open>The indexer\<close>

definition MAX_DRAIN_ITERS :: nat where "MAX_DRAIN_ITERS = 8"
definition CLAIM_STALE_MS :: nat where "CLAIM_STALE_MS = 120000"
definition RECONCILE_INTERVAL :: nat where "RECONCILE_INTERVAL = 300 * 1000"

text \<open>A head that cannot be read counts as clean, a manifest that cannot be read as dirty.\<close>
definition namespace_is_dirty :: "'d server_env \<Rightarrow> string \<Rightarrow> bool io" where
  "namespace_is_dirty env name = io_bind (wal_head name) (\<lambda>h. case h of
     Inl _ \<Rightarrow> Ret False
   | Inr head \<Rightarrow> io_bind (read_manifest (be_manifest (sv_build env)) name) (\<lambda>r.
       Ret (case r of Inr (m, _) \<Rightarrow> mf_wal_index_cursor m < head | Inl _ \<Rightarrow> True)))"

definition reconcile_one :: "'d server_env \<Rightarrow> string \<Rightarrow> unit io" where
  "reconcile_one env name = io_bind (namespace_is_dirty env name) (\<lambda>dirty.
     if dirty then io_bind (enqueue (sv_queue env) name) (\<lambda>_. Ret ()) else Ret ())"

definition reconcile_queue :: "'d server_env \<Rightarrow> string list \<Rightarrow> unit io" where
  "reconcile_queue env namespaces = io_bind
     (if namespaces = [] then io_bind discover_namespaces (\<lambda>r. Ret (case r of Inr ns \<Rightarrow> ns | Inl _ \<Rightarrow> [])) else Ret namespaces)
     (\<lambda>targets. io_bind (io_map (reconcile_one env) targets) (\<lambda>_. Ret ()))"

record indexer_config =
  ix_namespaces :: "string list"
  ix_worker_id :: string
  ix_budget :: fold_budget
  ix_streaming_threshold :: nat
  ix_gc_interval :: nat
  ix_gc_min_age :: nat
  ix_trace_retention :: nat

record indexer_state =
  is_last_gc :: "string \<rightharpoonup> millis"
  is_last_trace_gc :: millis
  is_last_reconcile :: millis

text \<open>Folds until one consumed nothing, one failed or the ceiling is reached; the flag says whether one failed.  A fold that
  panics takes the indexer down, which is the result \<open>None\<close>.  The ids of the new segments are given.\<close>
fun drain :: "'d server_env \<Rightarrow> delta_codec \<Rightarrow> indexer_config \<Rightarrow> string \<Rightarrow> string list \<Rightarrow> bool option io" where
  "drain env dc cfg name [] = Ret (Some False)"
| "drain env dc cfg name (seg_id # seg_ids) =
     io_bind (fold_entry_point (sv_build env) dc index_options_default (ix_budget cfg) name seg_id (ix_streaming_threshold cfg)) (\<lambda>r. case r of
       Inr outcome \<Rightarrow> if out_doc_count outcome = 0 then Ret (Some False) else drain env dc cfg name seg_ids
     | Inl (Failed _) \<Rightarrow> Ret (Some True)
     | Inl Panicked \<Rightarrow> Ret None)"

definition gc_if_due :: "'d server_env \<Rightarrow> indexer_config \<Rightarrow> string \<Rightarrow> bool \<Rightarrow> indexer_state \<Rightarrow> indexer_state io" where
  "gc_if_due env cfg name fold_errored st = io_bind io_now (\<lambda>now.
     if \<not> fold_errored \<and> (case is_last_gc st name of None \<Rightarrow> True | Some t \<Rightarrow> int (ix_gc_interval cfg) \<le> now - t)
     then io_bind (gc_with_min_age (be_manifest (sv_build env)) name (ix_gc_min_age cfg)) (\<lambda>_.
       io_bind io_now (\<lambda>done_at. Ret (st\<lparr>is_last_gc := (is_last_gc st)(name \<mapsto> done_at)\<rparr>)))
     else Ret st)"

text \<open>A claimed namespace: drained, collected, and handed back unless its log has grown past the cursor in the meantime.\<close>
definition work_on :: "'d server_env \<Rightarrow> delta_codec \<Rightarrow> indexer_config \<Rightarrow> string list \<Rightarrow> string \<Rightarrow> indexer_state \<Rightarrow> indexer_state option io" where
  "work_on env dc cfg seg_ids name st =
     io_bind (drain env dc cfg name (take MAX_DRAIN_ITERS seg_ids)) (\<lambda>drained. case drained of None \<Rightarrow> Ret None
     | Some fold_errored \<Rightarrow>
       io_bind (gc_if_due env cfg name fold_errored st) (\<lambda>st.
       io_bind (if fold_errored then Ret False else namespace_is_dirty env name) (\<lambda>still_dirty.
       io_bind (complete (sv_queue env) name (ix_worker_id cfg) still_dirty) (\<lambda>_. Ret (Some st)))))"

definition reconcile_if_due :: "'d server_env \<Rightarrow> indexer_config \<Rightarrow> indexer_state \<Rightarrow> indexer_state io" where
  "reconcile_if_due env cfg st = io_bind io_now (\<lambda>now. if int RECONCILE_INTERVAL \<le> now - is_last_reconcile st
     then io_bind (reconcile_queue env (ix_namespaces cfg)) (\<lambda>_. io_bind io_now (\<lambda>t. Ret (st\<lparr>is_last_reconcile := t\<rparr>))) else Ret st)"

definition trace_gc_if_due :: "(millis \<Rightarrow> string) \<Rightarrow> indexer_config \<Rightarrow> indexer_state \<Rightarrow> indexer_state io" where
  "trace_gc_if_due fmt cfg st = io_bind io_now (\<lambda>now. if int (ix_gc_interval cfg) \<le> now - is_last_trace_gc st
     then io_bind (gc_traces fmt (ix_trace_retention cfg) DEFAULT_ROLLUP_STALE) (\<lambda>_. io_bind io_now (\<lambda>t. Ret (st\<lparr>is_last_trace_gc := t\<rparr>))) else Ret st)"

text \<open>One round of the endless loop; the heartbeat that runs beside the folds is \<open>heartbeat\<close> of the queue.\<close>
definition indexer_round :: "'d server_env \<Rightarrow> delta_codec \<Rightarrow> (millis \<Rightarrow> string) \<Rightarrow> indexer_config \<Rightarrow> string list \<Rightarrow> indexer_state \<Rightarrow> indexer_state option io" where
  "indexer_round env dc fmt cfg seg_ids st =
     io_bind (reconcile_if_due env cfg st) (\<lambda>st.
     io_bind (trace_gc_if_due fmt cfg st) (\<lambda>st.
     io_bind (claim (sv_queue env) (ix_worker_id cfg) CLAIM_STALE_MS) (\<lambda>r. case r of
       Inr (Some name) \<Rightarrow> work_on env dc cfg seg_ids name st
     | _ \<Rightarrow> Ret (Some st))))"

end
