(* ===== verification/Scan_Pages.thy ===== *)
theory Scan_Pages
  imports Service Fold_Safety Fold_Run
begin

text \<open>
  What a client gets that follows the page tokens of a scan (\<open>scan\<close> and the page tokens of \<open>mlake-server/src/service.rs\<close> over
  \<open>QueryNode::scan\<close>): the pages of one type, the walk over the types with its skipping, and all pages of one snapshot together.
\<close>

section \<open>Page tokens\<close>

lemma split_on_append: "c \<notin> set xs \<Longrightarrow> split_on c (xs @ c # ys) = xs # split_on c ys"
  by (induction xs) auto

lemma split_on_none: "c \<notin> set xs \<Longrightarrow> split_on c xs = [xs]"
  by (induction xs) auto

lemma colon_not_digit: "CHR '':'' \<notin> set (show_nat n)"
proof
  assume "CHR '':'' \<in> set (show_nat n)"
  then obtain d where "d < 10" "CHR '':'' = digit_char d" using set_show_nat by blast
  then have "(of_char (CHR '':'') :: nat) = 48 + d" using of_char_digit_char by metis
  then show False using \<open>d < 10\<close> by simp
qed

lemma parse_u8_show [simp]: "parse_u8 (show_nat (unat (t :: u8))) = Some t"
proof -
  have lt: "unat t < 256" using unat_lt[of t] by simp
  then have "parse_u64 (show_nat (unat t)) = Some (unat t)" by (intro parse_u64_show_nat) (simp add: U64_LIMIT_def)
  then show ?thesis using lt by (simp add: parse_u8_def)
qed

lemma page_token_nonempty [simp]: "page_token g t c \<noteq> []"
  by (simp add: page_token_def)

lemma page_token_split: "split_on CHR '':'' (page_token g t c) = [show_nat g, show_nat (unat t), show_nat (sc_cluster c), show_nat (sc_offset c)]"
  by (simp add: page_token_def split_on_append split_on_none colon_not_digit)

lemma parse_page_token_stale:
  "g < U64_LIMIT \<Longrightarrow> g \<noteq> generation \<Longrightarrow> parse_page_token (page_token g t c) generation = Inr None"
  by (simp add: parse_page_token_def page_token_split parse_u64_show_nat parsed_def)

lemma parse_page_token_own:
  "g < U64_LIMIT \<Longrightarrow> sc_cluster c < U64_LIMIT \<Longrightarrow> sc_offset c < U64_LIMIT \<Longrightarrow> parse_page_token (page_token g t c) g = Inr (Some (t, c))"
  by (simp add: parse_page_token_def page_token_split parse_u64_show_nat parsed_def)

section \<open>One page\<close>

text \<open>What is left of a list of clusters from an offset in the first of them.\<close>
fun rest_from :: "('c \<Rightarrow> 'm list) \<Rightarrow> nat \<Rightarrow> 'c list \<Rightarrow> 'm list" where
  "rest_from it off [] = []"
| "rest_from it off (c # cs) = drop off (it c) @ concat (map it cs)"

lemma rest_from_0: "rest_from it 0 cs = concat (map it cs)"
  by (cases cs) simp_all

lemma scan_loop_Cons:
  assumes fetch: "run (fetch c) s = (Inr xs, s)" and room: "\<not> limit \<le> length out"
  shows "run (scan_loop fetch limit k off (c # cs) out) s =
    (let n = min (limit - length out) (length xs - off); out' = out @ take n (drop off xs) in
     if length xs \<le> off + n then run (scan_loop fetch limit (Suc k) 0 cs out') s else (Inr (out', Some \<lparr>sc_cluster = k, sc_offset = off + n\<rparr>), s))"
  unfolding scan_loop.simps using room by (simp only: if_False run_try fetch) (auto simp: Let_def io_simps)

lemma scan_loop_run:
  assumes "\<forall>c \<in> set cs. run (fetch c) s = (Inr (it c), s)" and "length out \<le> limit"
  shows "\<exists>nxt. run (scan_loop fetch limit k off cs out) s = (Inr (out @ take (limit - length out) (rest_from it off cs), nxt), s) \<and>
    (case nxt of None \<Rightarrow> length (rest_from it off cs) \<le> limit - length out
     | Some c \<Rightarrow> (\<exists>j < length cs. sc_cluster c = k + j \<and> rest_from it (sc_offset c) (drop j cs) = drop (limit - length out) (rest_from it off cs) \<and>
         (sc_offset c = 0 \<or> sc_offset c < length (it (cs ! j)) \<or> length out = limit \<and> c = \<lparr>sc_cluster = k, sc_offset = off\<rparr>)) \<and>
         limit - length out \<le> length (rest_from it off cs))"
  using assms
proof (induction cs arbitrary: k off out)
  case Nil
  then show ?case by (auto intro!: exI[of _ None])
next
  case (Cons c cs)
  have fetch: "run (fetch c) s = (Inr (it c), s)" using Cons.prems(1) by simp
  show ?case
  proof (cases "limit \<le> length out")
    case True
    then show ?thesis using Cons.prems(2) by (auto intro!: exI[of _ "Some \<lparr>sc_cluster = k, sc_offset = off\<rparr>"] exI[of _ 0])
  next
    case False
    define n where "n = min (limit - length out) (length (it c) - off)"
    let ?out = "out @ take n (drop off (it c))"
    have len: "length ?out = length out + n" by (simp add: n_def)
    note unfold_step = scan_loop_Cons[where fetch = fetch and c = c and k = k and off = off and cs = cs, OF fetch False, unfolded Let_def, folded n_def]
    show ?thesis
    proof (cases "length (it c) \<le> off + n")
      case True
      then have n: "n = length (it c) - off" and all: "take n (drop off (it c)) = drop off (it c)" by (auto simp: n_def)
      have step: "run (scan_loop fetch limit k off (c # cs) out) s = run (scan_loop fetch limit (Suc k) 0 cs ?out) s"
        unfolding unfold_step using True by (rule if_P)
      have le: "length ?out \<le> limit" using False by (auto simp: n_def)
      from Cons.IH[OF _ le, of "Suc k" 0] Cons.prems(1) obtain nxt where
        nxt: "run (scan_loop fetch limit (Suc k) 0 cs ?out) s = (Inr (?out @ take (limit - length ?out) (rest_from it 0 cs), nxt), s)"
          "case nxt of None \<Rightarrow> length (rest_from it 0 cs) \<le> limit - length ?out
           | Some c \<Rightarrow> (\<exists>j < length cs. sc_cluster c = Suc k + j \<and> rest_from it (sc_offset c) (drop j cs) = drop (limit - length ?out) (rest_from it 0 cs) \<and>
               (sc_offset c = 0 \<or> sc_offset c < length (it (cs ! j)) \<or> length ?out = limit \<and> c = \<lparr>sc_cluster = Suc k, sc_offset = 0\<rparr>)) \<and>
               limit - length ?out \<le> length (rest_from it 0 cs)"
        by auto
      have rest: "rest_from it off (c # cs) = drop off (it c) @ rest_from it 0 cs" by (simp add: rest_from_0)
      have gap: "limit - length ?out = limit - length out - n" unfolding len by (rule diff_diff_left[symmetric])
      have tk: "take (limit - length out) (rest_from it off (c # cs)) = drop off (it c) @ take (limit - length out - n) (rest_from it 0 cs)"
        unfolding rest using n False by (auto simp: n_def)
      have dr: "drop (limit - length out) (rest_from it off (c # cs)) = drop (limit - length out - n) (rest_from it 0 cs)"
        unfolding rest using n False by (auto simp: n_def)
      have ln: "length (rest_from it off (c # cs)) = n + length (rest_from it 0 cs)" unfolding rest using n by simp
      have "n \<le> limit - length out" by (simp add: n_def)
      show ?thesis
      proof (intro exI[of _ nxt] conjI)
        show "run (scan_loop fetch limit k off (c # cs) out) s = (Inr (out @ take (limit - length out) (rest_from it off (c # cs)), nxt), s)"
          unfolding step nxt(1) tk gap by (simp add: all)
        show "case nxt of None \<Rightarrow> length (rest_from it off (c # cs)) \<le> limit - length out
          | Some ca \<Rightarrow> (\<exists>j < length (c # cs). sc_cluster ca = k + j \<and> rest_from it (sc_offset ca) (drop j (c # cs)) = drop (limit - length out) (rest_from it off (c # cs)) \<and>
              (sc_offset ca = 0 \<or> sc_offset ca < length (it ((c # cs) ! j)) \<or> length out = limit \<and> ca = \<lparr>sc_cluster = k, sc_offset = off\<rparr>)) \<and>
              limit - length out \<le> length (rest_from it off (c # cs))"
        proof (cases nxt)
          case None
          then show ?thesis using nxt(2) \<open>n \<le> limit - length out\<close> unfolding ln gap by simp
        next
          case (Some ca)
          from nxt(2) obtain j where j: "j < length cs" "sc_cluster ca = Suc k + j" "rest_from it (sc_offset ca) (drop j cs) = drop (limit - length out - n) (rest_from it 0 cs)"
              "sc_offset ca = 0 \<or> sc_offset ca < length (it (cs ! j))" "limit - length out - n \<le> length (rest_from it 0 cs)"
            unfolding Some gap by auto
          then have "\<exists>j < length (c # cs). sc_cluster ca = k + j \<and> rest_from it (sc_offset ca) (drop j (c # cs)) = drop (limit - length out) (rest_from it off (c # cs)) \<and>
              (sc_offset ca = 0 \<or> sc_offset ca < length (it ((c # cs) ! j)) \<or> length out = limit \<and> ca = \<lparr>sc_cluster = k, sc_offset = off\<rparr>)"
            unfolding dr by (intro exI[of _ "Suc j"]) auto
          then show ?thesis using j(5) \<open>n \<le> limit - length out\<close> unfolding Some ln by simp
        qed
      qed
    next
      case longer: False
      then have n: "n = limit - length out" by (auto simp: n_def)
      have "run (scan_loop fetch limit k off (c # cs) out) s = (Inr (?out, Some \<lparr>sc_cluster = k, sc_offset = off + n\<rparr>), s)"
        unfolding unfold_step using longer by (rule if_not_P)
      moreover have "rest_from it (off + n) (c # cs) = drop n (rest_from it off (c # cs))" using longer by (simp add: add.commute)
      moreover have "take n (rest_from it off (c # cs)) = take n (drop off (it c))" using longer by simp
      ultimately show ?thesis using longer
        by (intro exI[of _ "Some \<lparr>sc_cluster = k, sc_offset = off + n\<rparr>"]) (auto simp: n[symmetric] intro!: exI[of _ 0])
    qed
  qed
qed

text \<open>What a scan of one type still returns from a cursor on, given what its clusters hold.\<close>
definition type_rest :: "(fact_type \<Rightarrow> (segment_state \<times> nat) option \<Rightarrow> stored_memory list) \<Rightarrow> query_node \<Rightarrow> predicate \<Rightarrow> tag_predicate list \<Rightarrow>
    u8 \<Rightarrow> scan_cursor \<Rightarrow> stored_memory list" where
  "type_rest items node p groups t c = (case map_of (qn_per_type node) t of None \<Rightarrow> []
     | Some f \<Rightarrow> rest_from (\<lambda>x. filter (scan_keeps p groups) (items f x)) (sc_offset c) (drop (sc_cluster c) (scan_plan f)))"

text \<open>Every cluster of every type is read, and fits the cursor's integers.\<close>
definition reads_as :: "'d build_env \<Rightarrow> query_node \<Rightarrow> (fact_type \<Rightarrow> (segment_state \<times> nat) option \<Rightarrow> stored_memory list) \<Rightarrow> obj_store \<Rightarrow> bool" where
  "reads_as env node items s = (\<forall>(t, f) \<in> set (qn_per_type node). length (scan_plan f) \<le> U64_LIMIT \<and>
     (\<forall>c \<in> set (scan_plan f). length (items f c) \<le> U64_LIMIT \<and> run (scan_items env node f c) s = (Inr (items f c), s)))"

definition cursor_ok :: "scan_cursor \<Rightarrow> bool" where
  "cursor_ok c = (sc_cluster c < U64_LIMIT \<and> sc_offset c < U64_LIMIT)"

lemma first_cursor_ok [simp]: "cursor_ok first_cursor"
  by (simp add: cursor_ok_def first_cursor_def U64_LIMIT_def)

text \<open>A page of one type: as much as was asked for, and the cursor of the rest.\<close>
definition page_law :: "(u8 \<Rightarrow> scan_cursor \<Rightarrow> nat \<Rightarrow> ('e + 'm list \<times> scan_cursor option) io) \<Rightarrow> (u8 \<Rightarrow> scan_cursor \<Rightarrow> 'm list) \<Rightarrow> obj_store \<Rightarrow> bool" where
  "page_law scan rem s = (\<forall>t c w. cursor_ok c \<longrightarrow> (\<exists>nxt. run (scan t c w) s = (Inr (take w (rem t c), nxt), s) \<and>
     (case nxt of None \<Rightarrow> length (rem t c) \<le> w | Some c' \<Rightarrow> cursor_ok c' \<and> rem t c' = drop w (rem t c) \<and> w \<le> length (rem t c))))"

lemma node_scan_page:
  assumes reads: "reads_as env node items s"
  shows "page_law (\<lambda>t c w. node_scan env node t c w p groups) (type_rest items node p groups) s"
  unfolding page_law_def
proof (intro allI impI)
  fix t c w
  assume ok: "cursor_ok c"
  show "\<exists>nxt. run (node_scan env node t c w p groups) s = (Inr (take w (type_rest items node p groups t c), nxt), s) \<and>
     (case nxt of None \<Rightarrow> length (type_rest items node p groups t c) \<le> w
      | Some c' \<Rightarrow> cursor_ok c' \<and> type_rest items node p groups t c' = drop w (type_rest items node p groups t c) \<and> w \<le> length (type_rest items node p groups t c))"
  proof (cases "map_of (qn_per_type node) t")
    case None
    then show ?thesis by (simp add: node_scan_def type_rest_def)
  next
    case (Some f)
    let ?it = "\<lambda>x. filter (scan_keeps p groups) (items f x)"
    let ?cs = "drop (sc_cluster c) (scan_plan f)"
    have mem: "(t, f) \<in> set (qn_per_type node)" using Some by (rule map_of_SomeD)
    have plan: "length (scan_plan f) \<le> U64_LIMIT" and
      each: "\<forall>x \<in> set (scan_plan f). length (items f x) \<le> U64_LIMIT \<and> run (scan_items env node f x) s = (Inr (items f x), s)"
      using reads mem unfolding reads_as_def by auto
    have fetch: "\<forall>x \<in> set ?cs. run (io_try (scan_items env node f x) (\<lambda>items. Ret (Inr (filter (scan_keeps p groups) items)))) s = (Inr (?it x), s)"
      using each by (auto simp: run_try dest: in_set_dropD)
    have loop: "node_scan env node t c w p groups = scan_loop (\<lambda>x. io_try (scan_items env node f x) (\<lambda>items. Ret (Inr (filter (scan_keeps p groups) items))))
        w (sc_cluster c) (sc_offset c) ?cs []" by (simp add: node_scan_def Some)
    obtain nxt where nxt: "run (node_scan env node t c w p groups) s = (Inr (take w (rest_from ?it (sc_offset c) ?cs), nxt), s)"
      and law: "case nxt of None \<Rightarrow> length (rest_from ?it (sc_offset c) ?cs) \<le> w
       | Some c' \<Rightarrow> (\<exists>j < length ?cs. sc_cluster c' = sc_cluster c + j \<and> rest_from ?it (sc_offset c') (drop j ?cs) = drop w (rest_from ?it (sc_offset c) ?cs) \<and>
           (sc_offset c' = 0 \<or> sc_offset c' < length (?it (?cs ! j)) \<or> 0 = w \<and> c' = \<lparr>sc_cluster = sc_cluster c, sc_offset = sc_offset c\<rparr>)) \<and>
           w \<le> length (rest_from ?it (sc_offset c) ?cs)"
      using scan_loop_run[OF fetch, of "[]" w "sc_cluster c" "sc_offset c", unfolded list.size(3) diff_zero append_Nil, OF le0, folded loop]
      by (elim exE conjE) (rule that)
    show ?thesis
    proof (cases nxt)
      case None
      then show ?thesis using nxt law by (auto simp: type_rest_def Some)
    next
      case (Some c')
      from law[unfolded Some] obtain j where j: "j < length ?cs" "sc_cluster c' = sc_cluster c + j"
        "rest_from ?it (sc_offset c') (drop j ?cs) = drop w (rest_from ?it (sc_offset c) ?cs)"
        "sc_offset c' = 0 \<or> sc_offset c' < length (?it (?cs ! j)) \<or> c' = \<lparr>sc_cluster = sc_cluster c, sc_offset = sc_offset c\<rparr>"
        "w \<le> length (rest_from ?it (sc_offset c) ?cs)" by auto
      have "?cs ! j \<in> set (scan_plan f)" using j(1) by (meson in_set_dropD nth_mem)
      then have "length (?it (?cs ! j)) \<le> U64_LIMIT" using each length_filter_le le_trans by metis
      then have "sc_offset c' < U64_LIMIT" using j(4) ok by (auto simp: cursor_ok_def U64_LIMIT_def)
      moreover have "sc_cluster c' < U64_LIMIT" using j(1,2) plan by simp
      ultimately show ?thesis using nxt j(2,3,5) Some \<open>map_of (qn_per_type node) t = Some f\<close>
        by (auto simp: type_rest_def cursor_ok_def add.commute intro!: exI[of _ "Some c'"])
    qed
  qed
qed

text \<open>What the walk over the types still returns.\<close>
fun walk_rest :: "(u8 \<Rightarrow> scan_cursor \<Rightarrow> 'm list) \<Rightarrow> u8 list \<Rightarrow> scan_cursor \<Rightarrow> 'm list" where
  "walk_rest rem [] c = []"
| "walk_rest rem (t # ts) c = rem t c @ concat (map (\<lambda>t. rem t first_cursor) ts)"

lemma walk_rest_first: "walk_rest rem ts first_cursor = concat (map (\<lambda>t. rem t first_cursor) ts)"
  by (cases ts) simp_all

definition walk_next :: "(u8 \<Rightarrow> scan_cursor \<Rightarrow> 'm list) \<Rightarrow> u8 list \<Rightarrow> nat \<Rightarrow> 'm list \<Rightarrow> (u8 \<times> scan_cursor) option \<Rightarrow> bool" where
  "walk_next rem types room rest nxt = (case nxt of None \<Rightarrow> length rest \<le> room
     | Some (t, c) \<Rightarrow> room \<le> length rest \<and> cursor_ok c \<and> (\<exists>pre post. types = pre @ t # post \<and> walk_rest rem (t # post) c = drop room rest))"

lemma walk_next_Cons: "walk_next rem ts room rest nxt \<Longrightarrow> walk_next rem (t # ts) room rest nxt"
  unfolding walk_next_def by (auto split: option.splits) (metis append_Cons)

lemma walk_consume:
  fixes P W :: "'m list"
  assumes fits: "length (drop (min skip (length P)) P) \<le> room"
  shows "take room (drop skip (P @ W)) = drop (min skip (length P)) P @ take (room - length (drop (min skip (length P)) P)) (drop (skip - min skip (length P)) W)"
    and "walk_next rem ts (room - length (drop (min skip (length P)) P)) (drop (skip - min skip (length P)) W) nxt \<Longrightarrow> walk_next rem ts room (drop skip (P @ W)) nxt"
proof -
  have eqs: "drop (min skip (length P)) P = drop skip P" "skip - min skip (length P) = skip - length P" by (auto simp: min_def)
  have le: "length (drop skip P) \<le> room" using fits unfolding eqs .
  have split: "drop skip (P @ W) = drop skip P @ drop (skip - length P) W" by simp
  show "take room (drop skip (P @ W)) = drop (min skip (length P)) P @ take (room - length (drop (min skip (length P)) P)) (drop (skip - min skip (length P)) W)"
    unfolding eqs split take_append using le by (simp only: take_all)
  assume "walk_next rem ts (room - length (drop (min skip (length P)) P)) (drop (skip - min skip (length P)) W) nxt"
  then have next': "walk_next rem ts (room - length (drop skip P)) (drop (skip - length P) W) nxt" unfolding eqs .
  define Q where "Q = drop skip P"
  define V where "V = drop (skip - length P) W"
  have "drop room (Q @ V) = drop (room - length Q) V" using le unfolding Q_def by simp
  then show "walk_next rem ts room (drop skip (P @ W)) nxt"
    using next' le unfolding split walk_next_def Q_def[symmetric] V_def[symmetric] by (auto split: option.splits)
qed

lemma scan_walk_Cons:
  assumes run: "run (scan t cursor (if 0 < skip then limit else limit - length out)) s = (Inr (P, nxt), s)"
  shows "run (scan_walk scan (Suc fuel) limit (t # rest) cursor skip out) s =
    (let d = min skip (length P); out' = out @ drop d P in case nxt of
       Some c \<Rightarrow> if skip - d = 0 \<and> limit \<le> length out' then (Inr (out', Some (t, c)), s) else run (scan_walk scan fuel limit (t # rest) c (skip - d) out') s
     | None \<Rightarrow> if skip - d = 0 \<and> limit \<le> length out' \<and> rest \<noteq> [] then (Inr (out', Some (hd rest, first_cursor)), s)
         else run (scan_walk scan fuel limit rest first_cursor (skip - d) out') s)"
proof -
  have eq: "(if 0 < skip then min skip (length P) else 0) = min skip (length P)" by simp
  show ?thesis unfolding scan_walk.simps run_try run by (simp only: prod.case sum.case Let_def eq) (auto split: option.split)
qed

lemma scan_walk_run:
  assumes law: "page_law scan rem s" and "0 < limit"
  shows "length out \<le> limit \<Longrightarrow> (0 < skip \<longrightarrow> out = []) \<Longrightarrow> cursor_ok cursor \<Longrightarrow> skip + length types \<le> fuel \<Longrightarrow>
    \<exists>nxt. run (scan_walk scan fuel limit types cursor skip out) s =
        (Inr (out @ take (limit - length out) (drop skip (walk_rest rem types cursor)), nxt), s) \<and>
      walk_next rem types (limit - length out) (drop skip (walk_rest rem types cursor)) nxt"
proof (induction fuel arbitrary: types cursor skip out)
  case 0
  then show ?case by (simp add: walk_next_def)
next
  case (Suc fuel)
  show ?case
  proof (cases types)
    case Nil
    then show ?thesis by (simp add: walk_next_def)
  next
    case (Cons t rest)
    define w where "w = (if 0 < skip then limit else limit - length out)"
    obtain nxt where run: "run (scan t cursor w) s = (Inr (take w (rem t cursor), nxt), s)"
      and nxt: "case nxt of None \<Rightarrow> length (rem t cursor) \<le> w
        | Some c' \<Rightarrow> cursor_ok c' \<and> rem t c' = drop w (rem t cursor) \<and> w \<le> length (rem t cursor)"
      using law Suc.prems(3) unfolding page_law_def by blast
    define P where "P = take w (rem t cursor)"
    define d where "d = min skip (length P)"
    define out' where "out' = out @ drop d P"
    define room where "room = limit - length out"
    have fits: "length (drop d P) \<le> room" and out: "length out' \<le> limit" "0 < skip - d \<longrightarrow> out' = []"
      using Suc.prems(1,2) \<open>0 < limit\<close> by (auto simp: out'_def P_def w_def d_def room_def split: if_splits)
    have left: "limit - length out' = room - length (drop d P)" unfolding out'_def room_def by simp
    note step = scan_walk_Cons[where scan = scan and t = t and cursor = cursor and fuel = fuel and rest = rest and limit = limit, OF run[folded P_def, unfolded w_def], folded Cons, unfolded Let_def, folded d_def, folded out'_def]
    have finish: ?thesis if W: "walk_rest rem types cursor = P @ W"
      and res: "run (scan_walk scan (Suc fuel) limit types cursor skip out) s = (Inr (out' @ take (limit - length out') (drop (skip - d) W), n), s)"
      and n: "walk_next rem types (limit - length out') (drop (skip - d) W) n" for W n
    proof (intro exI[of _ n] conjI)
      note consume = walk_consume[where P = P and W = W and skip = skip and room = room, folded d_def, OF fits]
      show "run (scan_walk scan (Suc fuel) limit types cursor skip out) s = (Inr (out @ take (limit - length out) (drop skip (walk_rest rem types cursor)), n), s)"
        unfolding W room_def[symmetric] consume(1) res left unfolding out'_def by simp
      show "walk_next rem types (limit - length out) (drop skip (walk_rest rem types cursor)) n"
        unfolding W room_def[symmetric] by (rule consume(2)) (rule n[unfolded left])
    qed
    show ?thesis
    proof (cases nxt)
      case None
      then have W: "walk_rest rem types cursor = P @ walk_rest rem rest first_cursor" using nxt by (simp add: P_def Cons walk_rest_first)
      show ?thesis
      proof (cases "skip - d = 0 \<and> limit \<le> length out' \<and> rest \<noteq> []")
        case True
        show ?thesis
        proof (rule finish[OF W])
          show "run (scan_walk scan (Suc fuel) limit types cursor skip out) s
              = (Inr (out' @ take (limit - length out') (drop (skip - d) (walk_rest rem rest first_cursor)), Some (hd rest, first_cursor)), s)"
            using True unfolding step None by simp
          have "types = [t] @ hd rest # tl rest \<and> walk_rest rem (hd rest # tl rest) first_cursor = walk_rest rem rest first_cursor" using True Cons by auto
          then have "\<exists>pre post. types = pre @ hd rest # post \<and> walk_rest rem (hd rest # post) first_cursor = walk_rest rem rest first_cursor" by blast
          then show "walk_next rem types (limit - length out') (drop (skip - d) (walk_rest rem rest first_cursor)) (Some (hd rest, first_cursor))"
            using True unfolding walk_next_def by simp
        qed
      next
        case False
        have "skip - d + length rest \<le> fuel" using Suc.prems(4) Cons by simp
        from Suc.IH[OF out first_cursor_ok this] obtain n where
          n: "run (scan_walk scan fuel limit rest first_cursor (skip - d) out') s = (Inr (out' @ take (limit - length out') (drop (skip - d) (walk_rest rem rest first_cursor)), n), s)"
            "walk_next rem rest (limit - length out') (drop (skip - d) (walk_rest rem rest first_cursor)) n" by blast
        show ?thesis
        proof (rule finish[OF W])
          show "run (scan_walk scan (Suc fuel) limit types cursor skip out) s
              = (Inr (out' @ take (limit - length out') (drop (skip - d) (walk_rest rem rest first_cursor)), n), s)"
            using False unfolding step None n(1)[symmetric] by (auto simp only: option.case if_False)
          show "walk_next rem types (limit - length out') (drop (skip - d) (walk_rest rem rest first_cursor)) n"
            unfolding Cons by (rule walk_next_Cons[OF n(2)])
        qed
      qed
    next
      case (Some c)
      then have c: "cursor_ok c" "rem t c = drop w (rem t cursor)" "w \<le> length (rem t cursor)" using nxt by simp_all
      then have W: "walk_rest rem types cursor = P @ walk_rest rem (t # rest) c" and P: "length P = w" by (simp_all add: P_def Cons)
      show ?thesis
      proof (cases "skip - d = 0 \<and> limit \<le> length out'")
        case True
        show ?thesis
        proof (rule finish[OF W])
          show "run (scan_walk scan (Suc fuel) limit types cursor skip out) s
              = (Inr (out' @ take (limit - length out') (drop (skip - d) (walk_rest rem (t # rest) c)), Some (t, c)), s)"
            using True unfolding step Some by simp
          have "types = [] @ t # rest" using Cons by simp
          then have "\<exists>pre post. types = pre @ t # post \<and> walk_rest rem (t # post) c = walk_rest rem (t # rest) c" by blast
          then show "walk_next rem types (limit - length out') (drop (skip - d) (walk_rest rem (t # rest) c)) (Some (t, c))"
            using True c(1) unfolding walk_next_def by (simp del: walk_rest.simps)
        qed
      next
        case False
        have "0 < d" using False P Suc.prems(1) \<open>0 < limit\<close> by (auto simp: d_def w_def out'_def split: if_splits)
        moreover have "d \<le> skip" by (simp add: d_def)
        ultimately have "skip - d + length (t # rest) \<le> fuel" using Suc.prems(4) unfolding Cons by linarith
        from Suc.IH[OF out c(1) this] obtain n where
          n: "run (scan_walk scan fuel limit (t # rest) c (skip - d) out') s = (Inr (out' @ take (limit - length out') (drop (skip - d) (walk_rest rem (t # rest) c)), n), s)"
            "walk_next rem (t # rest) (limit - length out') (drop (skip - d) (walk_rest rem (t # rest) c)) n" by blast
        show ?thesis
        proof (rule finish[OF W])
          show "run (scan_walk scan (Suc fuel) limit types cursor skip out) s
              = (Inr (out' @ take (limit - length out') (drop (skip - d) (walk_rest rem (t # rest) c)), n), s)"
            using False unfolding step Some n(1)[symmetric] by (auto simp only: option.case if_False Cons)
          show "walk_next rem types (limit - length out') (drop (skip - d) (walk_rest rem (t # rest) c)) n"
            unfolding Cons by (rule n(2))
        qed
      qed
    qed
  qed
qed

section \<open>All pages\<close>

text \<open>A client that asks for the next page as long as it is given a token.\<close>
fun follow_pages :: "(string \<Rightarrow> (status + 'm list \<times> string) io) \<Rightarrow> nat \<Rightarrow> string \<Rightarrow> (status + 'm list list) io" where
  "follow_pages page 0 token = Ret (Inr [])"
| "follow_pages page (Suc n) token = io_try (page token) (\<lambda>(out, nxt). if nxt = [] then Ret (Inr [out])
     else io_try (follow_pages page n nxt) (\<lambda>pages. Ret (Inr (out # pages))))"

text \<open>Everything the snapshot shows of the types that passes the filter, in scan order.\<close>
definition matching_memories :: "(fact_type \<Rightarrow> (segment_state \<times> nat) option \<Rightarrow> stored_memory list) \<Rightarrow> query_node \<Rightarrow> predicate \<Rightarrow> tag_predicate list \<Rightarrow>
    u8 list \<Rightarrow> stored_memory list" where
  "matching_memories items node p groups types = filter (scan_keeps p groups)
     (concat (map (\<lambda>t. case map_of (qn_per_type node) t of None \<Rightarrow> [] | Some f \<Rightarrow> concat (map (items f) (scan_plan f))) types))"

lemma filter_concat_map: "filter P (concat (map f xs)) = concat (map (\<lambda>x. filter P (f x)) xs)"
  by (induction xs) simp_all

lemma matching_walk: "walk_rest (type_rest items node p groups) types first_cursor = matching_memories items node p groups types"
  unfolding walk_rest_first by (simp add: matching_memories_def filter_concat_map type_rest_def first_cursor_def rest_from_0 option.case_distrib[of "filter _"]
      cong: option.case_cong)

definition paged :: "nat \<Rightarrow> 'm list \<Rightarrow> 'm list list \<Rightarrow> bool" where
  "paged limit xs pages = (concat pages = xs \<and> pages \<noteq> [] \<and> list_all (\<lambda>page. length page = limit) (butlast pages) \<and> length (last pages) \<le> limit)"

lemma scan_page_run:
  assumes reads: "reads_as env node items s" and limit: "0 < limit" and c: "cursor_ok c" and len: "length todo \<le> length types"
    and start: "parse_page_token token (qn_generation node) = Inr st"
      "todo = (case st of None \<Rightarrow> types | Some (t, _) \<Rightarrow> dropWhile (\<lambda>u. u \<noteq> t) types)" "c = (case st of None \<Rightarrow> first_cursor | Some (_, c) \<Rightarrow> c)"
  shows "\<exists>nxt. run (scan_page env node p groups limit types skip token) s =
      (Inr (take limit (drop skip (walk_rest (type_rest items node p groups) todo c)), case nxt of None \<Rightarrow> [] | Some (t, c) \<Rightarrow> page_token (qn_generation node) t c), s) \<and>
    walk_next (type_rest items node p groups) todo limit (drop skip (walk_rest (type_rest items node p groups) todo c)) nxt"
proof -
  obtain nxt where nxt: "run (scan_walk (\<lambda>t c w. node_scan env node t c w p groups) (scan_fuel skip types) limit todo c skip []) s =
      (Inr (take limit (drop skip (walk_rest (type_rest items node p groups) todo c)), nxt), s)"
    "walk_next (type_rest items node p groups) todo limit (drop skip (walk_rest (type_rest items node p groups) todo c)) nxt"
    using scan_walk_run[OF node_scan_page[OF reads] limit, of "[]" skip c todo "scan_fuel skip types"] c len by (auto simp: scan_fuel_def)
  have "run (scan_page env node p groups limit types skip token) s =
      (Inr (take limit (drop skip (walk_rest (type_rest items node p groups) todo c)), case nxt of None \<Rightarrow> [] | Some (t, c) \<Rightarrow> page_token (qn_generation node) t c), s)"
    unfolding scan_page_def start(1) by (simp add: run_try io_map_err_def run_bind Let_def start(2,3)[symmetric] nxt(1))
  then show ?thesis using nxt(2) by blast
qed

lemma paged_one: "length xs \<le> limit \<Longrightarrow> paged limit xs [xs]"
  by (simp add: paged_def)

lemma paged_more: "limit \<le> length xs \<Longrightarrow> paged limit (drop limit xs) pages \<Longrightarrow> paged limit xs (take limit xs # pages)"
  by (auto simp: paged_def)

lemma follow_pages_step:
  assumes page: "run (page token) s = (Inr (take limit rest, case nxt of None \<Rightarrow> [] | Some (t, c) \<Rightarrow> page_token g t c), s)"
    and nxt: "walk_next rem types limit rest nxt"
    and more: "\<forall>t c pre post. types = pre @ t # post \<and> cursor_ok c \<and> walk_rest rem (t # post) c = drop limit rest \<and> limit \<le> length rest \<longrightarrow>
      (\<exists>pages. run (follow_pages page n (page_token g t c)) s = (Inr pages, s) \<and> paged limit (drop limit rest) pages)"
  shows "\<exists>pages. run (follow_pages page (Suc n) token) s = (Inr pages, s) \<and> paged limit rest pages"
proof (cases nxt)
  case None
  then have "length rest \<le> limit" using nxt by (simp add: walk_next_def)
  then show ?thesis using page None by (auto simp: run_try intro!: paged_one)
next
  case (Some tc)
  obtain t c where tc: "tc = (t, c)" by (cases tc)
  then obtain pre post where "types = pre @ t # post" "cursor_ok c" "walk_rest rem (t # post) c = drop limit rest" and len: "limit \<le> length rest"
    using nxt unfolding Some walk_next_def by auto
  then obtain pages where "run (follow_pages page n (page_token g t c)) s = (Inr pages, s)" "paged limit (drop limit rest) pages" using more by blast
  then show ?thesis using page paged_more[OF len] unfolding Some tc by (auto simp: run_try)
qed

lemma follow_pages_from:
  assumes reads: "reads_as env node items s" and limit: "0 < limit" and gen: "qn_generation node < U64_LIMIT" and dist: "distinct types"
  shows "types = pre @ t # post \<Longrightarrow> cursor_ok c \<Longrightarrow> length (walk_rest (type_rest items node p groups) (t # post) c) < n \<Longrightarrow>
    \<exists>pages. run (follow_pages (\<lambda>token. scan_page env node p groups limit types (if token = [] then skip else 0) token) n (page_token (qn_generation node) t c)) s
      = (Inr pages, s) \<and> paged limit (walk_rest (type_rest items node p groups) (t # post) c) pages"
proof (induction n arbitrary: pre t post c)
  case 0
  then show ?case by simp
next
  case (Suc n)
  let ?rem = "type_rest items node p groups"
  have parse: "parse_page_token (page_token (qn_generation node) t c) (qn_generation node) = Inr (Some (t, c))"
    using Suc.prems(2) gen by (intro parse_page_token_own) (auto simp: cursor_ok_def)
  have todo: "t # post = (case Some (t, c) of None \<Rightarrow> types | Some (t, _) \<Rightarrow> dropWhile (\<lambda>u. u \<noteq> t) types)"
    using Suc.prems(1) dist by (auto simp: dropWhile_append3 dropWhile_append)
  have c: "c = (case Some (t, c) of None \<Rightarrow> first_cursor | Some (_, c) \<Rightarrow> c)" and len: "length (t # post) \<le> length types" using Suc.prems(1) by simp_all
  obtain nxt where nxt: "run (scan_page env node p groups limit types 0 (page_token (qn_generation node) t c)) s =
      (Inr (take limit (drop 0 (walk_rest ?rem (t # post) c)), case nxt of None \<Rightarrow> [] | Some (t, c) \<Rightarrow> page_token (qn_generation node) t c), s)"
    "walk_next ?rem (t # post) limit (drop 0 (walk_rest ?rem (t # post) c)) nxt"
    using scan_page_run[OF reads limit Suc.prems(2) len parse todo c, of p groups 0] by (elim exE conjE) (rule that)
  show ?case
  proof (rule follow_pages_step[OF _ nxt(2)[unfolded drop_0]])
    show "run (scan_page env node p groups limit types (if page_token (qn_generation node) t c = [] then skip else 0) (page_token (qn_generation node) t c)) s =
      (Inr (take limit (walk_rest ?rem (t # post) c), case nxt of None \<Rightarrow> [] | Some (t, c) \<Rightarrow> page_token (qn_generation node) t c), s)"
      using nxt(1) by (simp del: walk_rest.simps)
    show "\<forall>u d pre' post'. t # post = pre' @ u # post' \<and> cursor_ok d \<and> walk_rest ?rem (u # post') d = drop limit (walk_rest ?rem (t # post) c) \<and>
        limit \<le> length (walk_rest ?rem (t # post) c) \<longrightarrow>
      (\<exists>pages. run (follow_pages (\<lambda>token. scan_page env node p groups limit types (if token = [] then skip else 0) token) n (page_token (qn_generation node) u d)) s = (Inr pages, s) \<and>
        paged limit (drop limit (walk_rest ?rem (t # post) c)) pages)"
    proof (intro allI impI, elim conjE)
      fix u d pre' post'
      assume u: "t # post = pre' @ u # post'" "cursor_ok d" "walk_rest ?rem (u # post') d = drop limit (walk_rest ?rem (t # post) c)"
        "limit \<le> length (walk_rest ?rem (t # post) c)"
      have "types = (pre @ pre') @ u # post'" using Suc.prems(1) u(1) by simp
      moreover have "length (walk_rest ?rem (u # post') d) < n" unfolding u(3) length_drop using Suc.prems(3) limit u(4) by linarith
      ultimately show "\<exists>pages. run (follow_pages (\<lambda>token. scan_page env node p groups limit types (if token = [] then skip else 0) token) n (page_token (qn_generation node) u d)) s = (Inr pages, s) \<and>
        paged limit (drop limit (walk_rest ?rem (t # post) c)) pages"
        using Suc.IH[OF _ u(2)] unfolding u(3)[symmetric] by blast
    qed
  qed
qed

text \<open>C32. A client that follows the page tokens of a scan on one snapshot receives exactly the memories of the snapshot that pass the filter,
  each once and in scan order, after the number it asked to skip: every page but the last is full and the last is no longer than the
  limit.  The client comes to the end after at most one page more than there are memories.  A token of another generation is
  never applied: it starts the scan again.\<close>
theorem scan_pages_complete:
  assumes "reads_as env node items s" and "0 < limit" and "qn_generation node < U64_LIMIT" and "distinct types"
  shows "(\<exists>pages. run (follow_pages (\<lambda>token. scan_page env node p groups limit types (if token = [] then skip else 0) token)
        (Suc (length (matching_memories items node p groups types))) []) s = (Inr pages, s) \<and>
      paged limit (drop skip (matching_memories items node p groups types)) pages) \<and>
    (\<forall>g t c. g < U64_LIMIT \<and> g \<noteq> qn_generation node \<longrightarrow>
      scan_page env node p groups limit types skip (page_token g t c) = scan_page env node p groups limit types skip [])"
proof (intro conjI allI impI)
  let ?rem = "type_rest items node p groups" and ?all = "matching_memories items node p groups types"
  obtain nxt where nxt: "run (scan_page env node p groups limit types skip []) s =
      (Inr (take limit (drop skip ?all), case nxt of None \<Rightarrow> [] | Some (t, c) \<Rightarrow> page_token (qn_generation node) t c), s)"
    "walk_next ?rem types limit (drop skip ?all) nxt"
    using scan_page_run[OF assms(1,2) first_cursor_ok, of types types "[]" None p groups skip] by (auto simp: parse_page_token_def matching_walk)
  show "\<exists>pages. run (follow_pages (\<lambda>token. scan_page env node p groups limit types (if token = [] then skip else 0) token) (Suc (length ?all)) []) s = (Inr pages, s) \<and>
      paged limit (drop skip ?all) pages"
  proof (rule follow_pages_step[OF _ nxt(2)])
    show "run (scan_page env node p groups limit types (if [] = [] then skip else 0) []) s =
        (Inr (take limit (drop skip ?all), case nxt of None \<Rightarrow> [] | Some (t, c) \<Rightarrow> page_token (qn_generation node) t c), s)" using nxt(1) by simp
    show "\<forall>t c pre post. types = pre @ t # post \<and> cursor_ok c \<and> walk_rest ?rem (t # post) c = drop limit (drop skip ?all) \<and> limit \<le> length (drop skip ?all) \<longrightarrow>
      (\<exists>pages. run (follow_pages (\<lambda>token. scan_page env node p groups limit types (if token = [] then skip else 0) token) (length ?all) (page_token (qn_generation node) t c)) s
        = (Inr pages, s) \<and> paged limit (drop limit (drop skip ?all)) pages)"
    proof (intro allI impI, elim conjE)
      fix t c pre post
      assume u: "types = pre @ t # post" "cursor_ok c" "walk_rest ?rem (t # post) c = drop limit (drop skip ?all)" "limit \<le> length (drop skip ?all)"
      have "length (walk_rest ?rem (t # post) c) < length ?all" unfolding u(3) length_drop using u(4) assms(2) unfolding length_drop by linarith
      then show "\<exists>pages. run (follow_pages (\<lambda>token. scan_page env node p groups limit types (if token = [] then skip else 0) token) (length ?all) (page_token (qn_generation node) t c)) s
        = (Inr pages, s) \<and> paged limit (drop limit (drop skip ?all)) pages"
        using follow_pages_from[OF assms u(1,2)] unfolding u(3)[symmetric] by blast
    qed
  qed
next
  fix g t c
  assume "g < U64_LIMIT \<and> g \<noteq> qn_generation node"
  then show "scan_page env node p groups limit types skip (page_token g t c) = scan_page env node p groups limit types skip []"
    by (simp add: scan_page_def parse_page_token_stale parse_page_token_def[of "[]"])
qed

text \<open>Two types whose memories are all in the tail, one of them deleted; pages of two after skipping one.\<close>
definition paged_node :: query_node where
  "paged_node = \<lparr>qn_ns = ''n'', qn_per_type = [(0, \<lparr>ft_segments = [], ft_tail_items = [sample_item 1, sample_item 2, sample_item 3], ft_doc_count = 0\<rparr>),
       (1, \<lparr>ft_segments = [], ft_tail_items = [sample_item 4], ft_doc_count = 0\<rparr>)], qn_newly_loaded = [], qn_tombstones = [MemoryId [3]],
     qn_seg_superseded = Map.empty, qn_predicate_tombstones = [], qn_seg_predicate_tombstones = [], qn_through_seq = 4, qn_wal_index_cursor = 0,
     qn_manifest_etag = None, qn_generation = 7\<rparr>"

definition every_memory :: predicate where
  "every_memory = \<lparr>p_memory_types = [], p_metadata_equals = [], p_tags = [], p_tags_mode = 0, p_updated_from = None, p_updated_to = None\<rparr>"

theorem scan_pages_complete_witness:
  "\<exists>pages. run (follow_pages (\<lambda>token. scan_page sample_env paged_node every_memory [] 2 [0, 1] (if token = [] then 1 else 0) token) 4 []) empty_store
     = (Inr pages, empty_store) \<and> concat pages = [sample_item 2, sample_item 4]"
proof -
  let ?items = "\<lambda>f (c :: (segment_state \<times> nat) option). filter (\<lambda>m. \<not> hidden paged_node m) (ft_tail_items f)"
  have reads: "reads_as sample_env paged_node ?items empty_store"
    by (auto simp: reads_as_def paged_node_def scan_plan_def scan_items_def U64_LIMIT_def intro!: order_trans[OF length_filter_le])
  have keeps: "scan_keeps every_memory [] m" for m by (simp add: scan_keeps_def every_memory_def predicate_matches_def)
  have all: "matching_memories ?items paged_node every_memory [] [0, 1] = [sample_item 1, sample_item 2, sample_item 4]"
    by (simp add: matching_memories_def keeps) (simp add: paged_node_def hidden_def scan_plan_def)
  have ok: "(0 :: nat) < 2" "qn_generation paged_node < U64_LIMIT" "distinct [0 :: u8, 1]" by (simp_all add: paged_node_def U64_LIMIT_def)
  have four: "Suc (length [sample_item 1, sample_item 2, sample_item 4]) = 4" "drop 1 [sample_item 1, sample_item 2, sample_item 4] = [sample_item 2, sample_item 4]"
    by simp_all
  show ?thesis using scan_pages_complete[OF reads ok, of every_memory "[]" 1, unfolded all four, THEN conjunct1] unfolding paged_def by blast
qed

end
