(* ===== verification/Spec2Isabelle.thy ===== *)
theory Spec2Isabelle
  imports Commit_Run Index_Queue Vector_Bytes Fold_Run Fusion Temporal Fold_Safety Cache Stream_Fold Scan_Pages
begin

text \<open>
  Verification of memlake, a retrieval engine for small memory records whose only state is an object store.

  \<^bold>\<open>The program.\<close>  A client writes batches of memories, deletes and partial updates to a namespace.  A writer puts each
  batch as one immutable object \<open>wal/{seq}.bin\<close>, claiming the sequence with a conditional put, and publishes a head
  pointer.  An indexer folds the un-indexed tail of the log into immutable segments (per fact type: clustered vectors,
  sorted tables, a full-text split) and publishes them by swapping the manifest conditionally on the version it read.
  A query node is stateless: it reads the manifest, opens the segments, scans the tail and overlays it, and answers point
  reads, scans and queries whose vector, text, graph and temporal arms score the candidates.  A work queue (one JSON
  object under compare-and-swap) hands namespaces to indexers, and a garbage collector removes what no manifest names.
  No process holds a lock; every agreement is a conditional write on one object.

  \<^bold>\<open>Programs and the store.\<close>  \<open>Storage\<close> gives stateful code its form: a program is a value of type \<open>io\<close> (a result, a panic, or
  one request and a continuation on its answer), and its meaning is a relation \<open>follows\<close> between the requests and answers
  it saw and its outcome, plus an executable \<open>run\<close> over an in-memory store.  An answer is any answer the store may give,
  failures included, so a theorem over \<open>follows\<close> holds in every interleaving with other processes.  The store itself
  (the \<open>object_store\<close> crate and the cloud behind it) is not source of this repository: it appears as histories whose
  conditional puts respect versions and whose versions never repeat (\<open>Commit_Safety\<close>, \<open>Cas\<close>).

  \<^bold>\<open>Theories and the code they model\<close> (paths below \<open>src/crates\<close>).
  \<^item> \<open>Prelude\<close>, \<open>Text_Format\<close>: integers at their width, byte codecs, decimal and hexadecimal formatting and trimming.
  \<^item> \<open>Core_Memory\<close>, \<open>Tags\<close>, \<open>Predicates\<close>, \<open>Core_Lib\<close>, \<open>Wal_Format\<close>, \<open>Manifest\<close>: \<open>mlake-core\<close> (\<open>id.rs\<close>, \<open>memory.rs\<close>, \<open>tags.rs\<close>,
    \<open>predicate.rs\<close>, \<open>lib.rs\<close>, \<open>envelope.rs\<close>, \<open>tombstones.rs\<close>, \<open>wal.rs\<close>, \<open>manifest.rs\<close>): items, the five tag modes, delete
    predicates, partial updates, log entries, segments and object keys.
  \<^item> \<open>Storage\<close>, \<open>Store\<close>, \<open>Range_Read\<close>: \<open>mlake-store\<close> (\<open>lib.rs\<close>, \<open>store.rs\<close>): reads, conditional writes, listings, ranged reads
    through a cache of immutable objects.
  \<^item> \<open>Wal_Log\<close>, \<open>Commit_Safety\<close>, \<open>Commit_Run\<close>, \<open>Tail\<close>, \<open>Cas\<close>, \<open>Index_Queue\<close>: \<open>mlake-wal\<close> (\<open>lib.rs\<close>, \<open>commit.rs\<close>, \<open>tail.rs\<close>,
    \<open>index_queue.rs\<close>): commit, head discovery, the tail scans and their fold, the queue's compare-and-swap loops.
  \<^item> \<open>SsTable\<close>, \<open>Index_Tables\<close>: \<open>mlake-index/src/sstable.rs\<close> and \<open>mlake-graph/src/radj.rs\<close>: the sorted block store with its
    byte format, and the six typed tables over it.
  \<^item> \<open>Float_Arith\<close>, \<open>Kmeans\<close>, \<open>Ivf_Index\<close>, \<open>Vector_Codes\<close>, \<open>Rotation\<close>, \<open>Vector_Block\<close>, \<open>Vector_Filter\<close>, \<open>Vector_Bytes\<close>: \<open>mlake-ivf\<close>
    and the similarity functions of \<open>mlake-core/src/lib.rs\<close>: training, probing, the three vector codecs with their error
    intervals, tag bitmaps and time columns, the block's bytes.
  \<^item> \<open>Graph_Retrieval\<close>, \<open>Fusion\<close>, \<open>Temporal\<close>: \<open>mlake-graph\<close> (\<open>scorer.rs\<close>, \<open>retriever.rs\<close>), \<open>mlake-index\<close> (\<open>fusion.rs\<close>, \<open>temporal.rs\<close>).
  \<^item> \<open>Segments\<close>, \<open>Segment_View\<close>, \<open>Segment_Folds\<close>, \<open>Fold_Run\<close>: the folds of \<open>mlake-index/src/indexer.rs\<close> on decoded segments, what a
    list of segments shows, and that the folds implement replaying the log.
  \<^item> \<open>Generation\<close>, \<open>Query_Node\<close>, \<open>Query_Arms\<close>, \<open>Indexer\<close>, \<open>Gc\<close>, \<open>Fold_Safety\<close>: \<open>generation.rs\<close>, \<open>query_node.rs\<close>, \<open>indexer.rs\<close> and \<open>gc.rs\<close> as
    handlers over the store, and what they may do to it.
  \<^item> \<open>Spill\<close>, \<open>Streaming\<close>, \<open>Stream_Fold\<close>: \<open>spill.rs\<close> and \<open>streaming.rs\<close> of \<open>mlake-index\<close>: the external merge sort, the rebuild in bounded
    memory, and its agreement with the replay of the log and with the tables of the rebuild in memory.
  \<^item> \<open>Cache\<close>: \<open>mlake-store/src/cache.rs\<close>: the memory and disk tiers in front of the store, each a ring with second chances.
  \<^item> \<open>Wire\<close>, \<open>Resident\<close>, \<open>Service\<close>, \<open>Scan_Pages\<close>: \<open>mlake-server\<close> (\<open>convert.rs\<close>; \<open>service.rs\<close> and the key classification of \<open>objects.rs\<close>): the messages
    of the protocol and their conversions, the budgeted map of resident writers and snapshots, the request handlers, page tokens,
    and one round of the background indexer.

  \<^bold>\<open>What the lemmas show.\<close>
  \<^item> Write path: acknowledged sequences are distinct, their entries are durable and obey their guard in any interleaving; a
    cold commit succeeds at once on a clean log; a strong read sees an acknowledged write; the two tail scans agree.
  \<^item> Folding: the fold of a tail overlaid on a snapshot is the replay of the log (with and without predicate deletes, under
    the conditions their statements name), and any sequence of rebuilds, flushes and minor compactions shows that replay.
  \<^item> Store safety: queries never write; folds put only under their own segment prefix and swap the manifest only against the
    version they read, after every file it names; the collector deletes only aged unreferenced keys, and all of them.
  \<^item> Tables and blocks: lookups and scans of built tables return exactly the indexed entries; bytes round trip; pruning by
    tags and windows loses no match; the scalar codec's interval contains the true cosine; the rotation is orthogonal.
  \<^item> Ranking: graph expansion, rank fusion, hit merging and the coverage selection return the order and the members their
    reference definitions give; training returns k centroids.
  \<^item> Rebuild in bounded memory: the external sort is the stable sort for every buffer size; the resolution phase leaves the
    memories that replaying the log leaves; the tables equal those of the rebuild in memory.
  \<^item> Cache: in any interleaving of threads and under any disk failures a lookup returns the object's bytes, both tiers keep
    their budgets, and eviction takes the oldest entry that was not used since the hand passed it.
  \<^item> Server: an accepted upsert is read back as sent; an accepted tag tree means what the protocol says and a malformed one is
    refused; the resident map keeps its accounting and budget and evicts by last use, no more than needed; a
    client that follows the page tokens of a scan receives every matching memory of the snapshot once, in full pages.
  \<^item> Queue: a claim is exclusive while its heartbeat is fresh.
  \<^item> Deviations: theorems that exhibit the executions in which the code loses a patch, a write, an enqueue or a manifest, shows a
    deleted memory again, drops the older segments of a large namespace, or panics.

  \<^bold>\<open>Interfaces.\<close>  Laws shared by several components are locales, interpreted on the model: \<open>sorted_table\<close> (the contract of the block
  store), \<open>fixed_width\<close> and \<open>grouped_table\<close> (records of one width and the tables of runs of them), \<open>ranking\<close> (sorting by a score
  with a tie break, cutting at k), \<open>pruning\<close> (container test against member test), \<open>fold_contract\<close> (what a fold owes the snapshot),
  \<open>request_policy\<close> and \<open>fold_policy\<close> (which requests a program may issue), \<open>clock_tier\<close> (one ring of the cache, interpreted on the
  memory and on the disk tier).

  \<^bold>\<open>Parameters.\<close>  Code outside the repository is an argument: the rkyv and JSON codecs (with the hypothesis that decoding what was
  encoded gives it back where a theorem needs it), the clock, the uuid of a segment, the half-precision conversion, the
  outcome of reading, writing or unlinking a cached blob on the local disk, the hash that derives an id from a key, the estimate
  of a snapshot's resident size, the
  full-text index (building a split, opening and searching it), and the arithmetic of \<open>f32\<close>/\<open>f64\<close>, a record of operations \<open>arith\<close>.
  \<open>real_arith\<close> and \<open>real_time\<close> are its exact instances: theorems on values (orders, intervals, orthogonality) are about the
  algorithm in exact arithmetic, and do not bound rounding.  Theorems on bytes, keys, sequences, requests and membership do
  not depend on it.  The folds on decoded segments assume \<open>clustering\<close>: the items written to a segment are the items read
  back, which the code has with the exact codec only; the quantised codecs lose vector precision at every fold.

  \<^bold>\<open>Fuel and bounds.\<close>  \<open>MAX_CLAIM_ATTEMPTS\<close> (32) and \<open>MAX_CAS_ATTEMPTS\<close> (16) are the source's own bounds and end in its errors.
  \<open>tail_bytes_from\<close> and \<open>wal_seqs_after\<close> run on fuel \<open>head + 1\<close>: every page starts past the one before and not past the head.  \<open>poll_cursor\<close> makes
  \<open>WAIT_FOR_INDEX_TIMEOUT div WAIT_FOR_INDEX_POLL + 1\<close> polls, the last of which is past the deadline; \<open>scan_walk\<close> runs on fuel
  \<open>skip\<close> plus the number of types plus 2: every round leaves a type, ends the walk or skips a full page.  Every other loop is structural or has a
  termination proof.  Identifiers, lengths and codes keep their width; sums of document counts do not wrap.

  \<^bold>\<open>Simplifications.\<close>  Hash maps are finite maps or lists in key order, since the code sorts or keys what it takes out of
  them.  Requests the code issues concurrently are issued in program order; the safety theorems range over all answers, so
  other processes may act between any two.  Rayon maps are maps.  \<open>trim\<close> removes ASCII space only.  Metrics, spans and
  estimates of resident size are left out.  The requests of one server process are handled one after the other, a task it spawns
  runs where it is spawned, and admission permits and traces are left out.

  \<^bold>\<open>Not modelled.\<close>  The in-process engine (\<open>engine.rs\<close>, but for its fusion constant), the tantivy wrapper, counters, latencies
  and spans of the store, failures of the unnamed temporary files of a rebuild, the gRPC transport and its start-up, the
  trace uploader and the admission semaphore, the decoding of a stored object for display, the load generators: they wrap third-party libraries or generated protobuf types, or measure.
\<close>

end
